(* ===== verification/Prelude.thy ===== *)
theory Prelude
  imports Complex_Main "HOL-Library.AList" "HOL-Library.Word" "HOL-Library.Multiset"
    "HOL-Library.Char_ord" "HOL-Library.List_Lexorder" "HOL-Library.Product_Lexorder"
begin

text \<open>
  Shared vocabulary of the development: fixed-width Go integers, Go maps as association
  lists, the theorem collections the component theories extend, and the list lemmas that
  several components use.

  \<^item> A Go \<^verbatim>\<open>string\<close> is a \<^typ>\<open>string\<close>: a \<^typ>\<open>char\<close> is one byte, so string length and order are
    byte length and byte order, as in Go.
  \<^item> A Go \<^verbatim>\<open>[]byte\<close> that is hashed, framed or encrypted is a list of 8-bit words.
  \<^item> A Go \<^verbatim>\<open>int32\<close>/\<^verbatim>\<open>int64\<close> is an \<^typ>\<open>int\<close> with the wrap-around of its width written out
    (\<open>wrap32\<close>, \<open>wrap64\<close>) wherever the code computes.
  \<^item> A Go \<^verbatim>\<open>time.Time\<close> is an \<^typ>\<open>int\<close> count of nanoseconds since the Unix epoch; where the code asks
    \<^verbatim>\<open>IsZero\<close> it is an option and the zero time is \<open>None\<close>.
  \<^item> A Go map that the code iterates over is an association list with distinct keys; the list
    order is one of the iteration orders Go may choose. Maps that are only looked up,
    stored to and deleted from are partial functions.
  \<^item> A \<^verbatim>\<open>float64\<close> is the rational number it denotes (not-a-number and infinities are outside
    the model).
\<close>

named_theorems op_defs \<open>definitions of the model's operations, unfolded together\<close>
named_theorems op_frame \<open>which fields an operation leaves alone\<close>
named_theorems inv_keep \<open>an operation keeps an invariant\<close>

type_synonym byte = "8 word"
type_synonym time = int
type_synonym duration = int
type_synonym ('k, 'v) gomap = "('k \<times> 'v) list"

subsection \<open>Fixed-width integers\<close>

definition wrap32 :: "int \<Rightarrow> int" where
  "wrap32 x = (x + 2 ^ 31) mod 2 ^ 32 - 2 ^ 31"

definition wrap64 :: "int \<Rightarrow> int" where
  "wrap64 x = (x + 2 ^ 63) mod 2 ^ 64 - 2 ^ 63"

text \<open>Go's integer division truncates towards zero.\<close>

definition godiv :: "int \<Rightarrow> int \<Rightarrow> int" where
  "godiv a b = sgn a * sgn b * (\<bar>a\<bar> div \<bar>b\<bar>)"

lemma wrap32_id [simp]: "- (2 ^ 31) \<le> x \<Longrightarrow> x < 2 ^ 31 \<Longrightarrow> wrap32 x = x"
  by (simp add: wrap32_def)

lemma wrap64_id [simp]: "- (2 ^ 63) \<le> x \<Longrightarrow> x < 2 ^ 63 \<Longrightarrow> wrap64 x = x"
  by (simp add: wrap64_def)

lemma wrap32_of_nat [simp]: "n < 2 ^ 31 \<Longrightarrow> wrap32 (int n) = int n"
  by (rule wrap32_id) simp_all

lemma wrap32_range: "- (2 ^ 31) \<le> wrap32 x \<and> wrap32 x < 2 ^ 31"
proof -
  have "0 \<le> (x + 2 ^ 31) mod 2 ^ 32" and "(x + 2 ^ 31) mod 2 ^ 32 < 2 ^ 32"
    by simp_all
  then show ?thesis unfolding wrap32_def by simp
qed

lemma wrap32_eq_iff: "wrap32 x = wrap32 y \<longleftrightarrow> x mod 2 ^ 32 = y mod 2 ^ 32"
proof -
  have "(x + 2 ^ 31) mod 2 ^ 32 = (y + 2 ^ 31) mod 2 ^ 32 \<longleftrightarrow> x mod 2 ^ 32 = y mod (2 ^ 32 :: int)"
    by (simp add: mod_eq_dvd_iff)
  then show ?thesis by (simp add: wrap32_def)
qed

subsection \<open>Strings and bytes\<close>

definition bytes_of :: "string \<Rightarrow> byte list" where
  "bytes_of s = map of_char s"

definition hex_digit :: "nat \<Rightarrow> char" where
  "hex_digit n = ''0123456789abcdef'' ! n"

definition hex_encode :: "byte list \<Rightarrow> string" where
  "hex_encode bs = concat (map (\<lambda>b. [hex_digit (unat b div 16), hex_digit (unat b mod 16)]) bs)"

lemma length_hex_encode [simp]: "length (hex_encode bs) = 2 * length bs"
  by (induction bs) (simp_all add: hex_encode_def)

lemma length_bytes_of [simp]: "length (bytes_of s) = length s"
  by (simp add: bytes_of_def)

text \<open>\<^verbatim>\<open>strings.ToLower\<close>, \<^verbatim>\<open>strings.ToUpper\<close> and \<^verbatim>\<open>strings.TrimSpace\<close> on ASCII text.\<close>

definition lower_char :: "char \<Rightarrow> char" where
  "lower_char c = (if CHR ''A'' \<le> c \<and> c \<le> CHR ''Z'' then char_of ((of_char c :: nat) + 32) else c)"

definition upper_char :: "char \<Rightarrow> char" where
  "upper_char c = (if CHR ''a'' \<le> c \<and> c \<le> CHR ''z'' then char_of ((of_char c :: nat) - 32) else c)"

definition to_lower :: "string \<Rightarrow> string" where
  "to_lower s = map lower_char s"

definition to_upper :: "string \<Rightarrow> string" where
  "to_upper s = map upper_char s"

definition is_space :: "char \<Rightarrow> bool" where
  "is_space c \<longleftrightarrow> c \<in> {CHR '' '', CHR 0x09, CHR 0x0A, CHR 0x0B, CHR 0x0C, CHR 0x0D}"

definition trim_space :: "string \<Rightarrow> string" where
  "trim_space s = rev (dropWhile is_space (rev (dropWhile is_space s)))"

definition has_prefix :: "string \<Rightarrow> string \<Rightarrow> bool" where
  "has_prefix s p \<longleftrightarrow> take (length p) s = p"

definition has_suffix :: "string \<Rightarrow> string \<Rightarrow> bool" where
  "has_suffix s p \<longleftrightarrow> length p \<le> length s \<and> drop (length s - length p) s = p"

text \<open>\<^verbatim>\<open>strings.Split(s, "\n")\<close>.\<close>

fun splitNewline :: "string \<Rightarrow> string list" where
  "splitNewline [] = [[]]"
| "splitNewline (c # cs) =
     (if c = CHR 0x0A then [] # splitNewline cs
      else case splitNewline cs of [] \<Rightarrow> [[c]] | w # ws \<Rightarrow> (c # w) # ws)"

text \<open>Decimal printing of integers, as \<^verbatim>\<open>strconv.FormatInt(x, 10)\<close>.\<close>

fun nat_digits :: "nat \<Rightarrow> string" where
  "nat_digits n = (if n < 10 then [hex_digit n] else nat_digits (n div 10) @ [hex_digit (n mod 10)])"

declare nat_digits.simps [simp del]

definition format_int :: "int \<Rightarrow> string" where
  "format_int x = (if x < 0 then CHR ''-'' # nat_digits (nat (- x)) else nat_digits (nat x))"

text \<open>Decimal digits and their value.\<close>

definition is_digit :: "char \<Rightarrow> bool" where
  "is_digit c \<longleftrightarrow> CHR ''0'' \<le> c \<and> c \<le> CHR ''9''"

definition digits_val :: "string \<Rightarrow> nat" where
  "digits_val s = foldl (\<lambda>n c. 10 * n + (of_char c - 48)) 0 s"

lemma hex_digit_val:
  "d < 10 \<Longrightarrow> is_digit (hex_digit d) \<and> (of_char (hex_digit d) :: nat) - 48 = d"
proof -
  assume "d < 10"
  then have "d \<in> {0,1,2,3,4,5,6,7,8,9}" by auto
  then show ?thesis by (elim insertE) (simp_all add: hex_digit_def is_digit_def less_eq_char_def)
qed

lemma digits_val_snoc: "digits_val (s @ [c]) = 10 * digits_val s + (of_char c - 48)"
  by (simp add: digits_val_def)

lemma nat_digits_val: "list_all is_digit (nat_digits n) \<and> digits_val (nat_digits n) = n \<and> nat_digits n \<noteq> []"
proof (induction n rule: nat_digits.induct)
  case (1 n)
  show ?case
  proof (cases "n < 10")
    case True
    then show ?thesis
      using hex_digit_val [OF True] by (subst (1 2 3) nat_digits.simps) (simp add: digits_val_def)
  next
    case False
    then show ?thesis
      using 1 hex_digit_val [of "n mod 10"]
      by (subst (1 2 3) nat_digits.simps) (simp add: digits_val_snoc)
  qed
qed

subsection \<open>Association lists as Go maps\<close>

lemma map_of_update [simp]: "map_of (AList.update k v xs) = (map_of xs)(k \<mapsto> v)"
  by (simp add: update_conv')

lemma update_new_append: "k \<notin> fst ` set xs \<Longrightarrow> AList.update k v xs = xs @ [(k, v)]"
  by (induction xs) auto

lemma length_update_in: "k \<in> fst ` set xs \<Longrightarrow> length (AList.update k v xs) = length xs"
  by (induction xs) auto

lemma map_fst_update_in [simp]: "k \<in> fst ` set xs \<Longrightarrow> map fst (AList.update k v xs) = map fst xs"
  by (induction xs) auto

lemma length_update:
  "length (AList.update k v xs) = (if k \<in> fst ` set xs then length xs else Suc (length xs))"
  by (simp add: length_update_in update_new_append)

lemma set_update_distinct:
  "distinct (map fst xs) \<Longrightarrow>
    set (AList.update k v xs) = insert (k, v) {p \<in> set xs. fst p \<noteq> k}"
  by (induction xs) (auto simp: image_iff)

lemma map_of_eq_imp_set_eq:
  "distinct (map fst xs) \<Longrightarrow> distinct (map fst ys) \<Longrightarrow> map_of xs = map_of ys \<Longrightarrow> set xs = set ys"
  by (metis map_of_inject_set)

lemma map_of_eq_imp_mset_eq:
  assumes "distinct (map fst xs)" and "distinct (map fst ys)" and "map_of xs = map_of ys"
  shows "mset xs = mset ys"
proof -
  have "set xs = set ys" using assms by (rule map_of_eq_imp_set_eq)
  moreover have "distinct xs" and "distinct ys"
    using assms(1,2) by (simp_all add: distinct_map)
  ultimately show ?thesis by (simp add: set_eq_iff_mset_eq_distinct)
qed

lemma restrict_map_all: "dom m \<subseteq> A \<Longrightarrow> m |` A = m"
  by (rule ext) (metis domIff restrict_map_def subsetD)

lemma sum_list_delete:
  fixes g :: "'k \<times> 'v \<Rightarrow> nat"
  assumes "distinct (map fst xs)" and "(k, v) \<in> set xs"
  shows "sum_list (map g xs) = g (k, v) + sum_list (map g (AList.delete k xs))"
  using assms
proof (induction xs)
  case (Cons p xs)
  then show ?case
    by (cases p) (force simp: AList.delete_idem)
qed simp

lemma sum_list_update_in:
  fixes g :: "'k \<times> 'v \<Rightarrow> nat"
  assumes "distinct (map fst xs)" and "(k, v) \<in> set xs"
  shows "sum_list (map g (AList.update k w xs)) + g (k, v) = sum_list (map g xs) + g (k, w)"
  using assms
proof (induction xs)
  case (Cons p xs)
  then show ?case
    by (cases p) force
qed simp

lemma length_delete_in:
  "distinct (map fst xs) \<Longrightarrow> k \<in> fst ` set xs \<Longrightarrow> Suc (length (AList.delete k xs)) = length xs"
  by (induction xs) (auto simp: AList.delete_idem)

lemma map_of_filter_key: "map_of (filter (\<lambda>kv. P (fst kv)) xs) k = (if P k then map_of xs k else None)"
  by (induction xs) auto

lemma find_SomeD: "find P xs = Some x \<Longrightarrow> x \<in> set xs"
  by (induction xs) (auto split: if_splits)

lemma find_map_of: "find (\<lambda>x. g x = u) xs = map_of (map (\<lambda>x. (g x, x)) xs) u"
  by (induction xs) auto

lemma map_of_reordered:
  assumes "distinct (map fst xs)" and "mset ys = mset xs"
  shows "map_of ys = map_of xs"
proof -
  have "mset (map fst ys) = mset (map fst xs)" using assms(2) by simp
  then have "distinct (map fst ys)" using assms(1) mset_eq_imp_distinct_iff by blast
  moreover have "set ys = set xs" using assms(2) mset_eq_setD by blast
  ultimately show ?thesis using assms(1) map_of_inject_set by blast
qed

lemma map_of_fold_update: "map_of (fold (\<lambda>(k, v) out. AList.update k v out) xs out) = map_of out ++ map_of (rev xs)"
  by (induction xs arbitrary: out) (auto simp: fun_eq_iff map_add_def split: option.splits)

subsection \<open>Sorting by a total key\<close>

lemma sort_key_mset_eq:
  assumes "mset xs = mset ys" and "inj_on f (set xs)"
  shows "sort_key f xs = sort_key f ys"
  using assms by (intro sort_key_inj_key_eq) auto

subsection \<open>Sums over lists\<close>

lemma sum_list_map_filter_le:
  "(\<And>x. x \<in> set xs \<Longrightarrow> (0::int) \<le> f x) \<Longrightarrow> sum_list (map f (filter P xs)) \<le> sum_list (map f xs)"
  by (induction xs) (auto simp: add_increasing)

end
