(* ===== verification/Records.thy ===== *)
theory Records
  imports Prelude
begin

text \<open>
  The storage contract (\<^verbatim>\<open>src/pkg/record\<close>) and the values that flow between pipeline stages
  (\<^verbatim>\<open>src/collector/pipeline\<close>): one record per Go struct, with the struct's fields in the
  struct's order, and the conversions between wire enums and stored strings.

  Field names carry a short prefix for their struct, since several structs share names. A Go
  pointer field is an option. A \<^verbatim>\<open>map[string]string\<close> is an association list; a nil map
  and an empty map are both \<open>[]\<close>, as no code of the modelled components tells them apart.
\<close>

section \<open>Rows\<close>

record Error =
  errType :: string
  errMessage :: string

record EntityKey =
  ekName :: string
  ekValue :: string

record Fidelity =
  HasParams :: bool
  HasTokenSpans :: bool
  HasToolVersions :: bool

record Params =
  Temperature :: "rat option"
  TopP :: "rat option"
  MaxTokens :: "int option"
  Seed :: "int option"
  Stop :: "string list"

record TokenCounts =
  tcInput :: "int option"
  tcOutput :: "int option"
  tcCached :: "int option"
  tcReasoning :: "int option"

record TokenSpan =
  tsStart :: int
  tsEnd :: int
  tsTrainable :: string

record Episode =
  epEpisodeID :: string
  epTenant :: string
  epGroupID :: "string option"
  epTaskType :: "string option"
  epSource :: string
  epInstrumentation :: "string option"
  epInstrumentationVersion :: "string option"
  epEntityKeys :: "EntityKey list"
  epStatus :: string
  epFidelity :: "Fidelity option"
  epSampledBy :: "string option"
  epStartedAt :: int
  epEndedAt :: "int option"
  epReceivedAt :: int
  epStepCount :: int
  epError :: "Error option"
  epSchemaVersion :: string
  epRaw :: "(string, string) gomap"

record Step =
  stEpisodeID :: string
  stStepIdx :: int
  stParentIdx :: "int option"
  stAttempt :: int
  stKind :: string
  stRole :: "string option"
  stContentRef :: "string option"
  stContentInline :: "string option"
  stTruncated :: bool
  stToolName :: "string option"
  stToolVersion :: "string option"
  stArgsHash :: "string option"
  stModel :: "string option"
  stProvider :: "string option"
  stParams :: "Params option"
  stTokenCounts :: "TokenCounts option"
  stTokenSpans :: "TokenSpan list"
  stTrainable :: string
  stLogprobsRef :: "string option"
  stFinishReason :: "string option"
  stStartedAt :: int
  stLatencyMs :: "int option"
  stError :: "Error option"
  stRaw :: "(string, string) gomap"
  stCostUSD :: "rat option"

record Outcome =
  ocEntityKey :: string
  ocKind :: string
  ocValue :: string
  ocOccurredAt :: int
  ocObservedAt :: int
  ocSource :: string
  ocEntityName :: "string option"
  ocOutcomeID :: "string option"

record Reward =
  rwEpisodeID :: string
  rwVerifierID :: string
  rwVerifierVersion :: string
  rwReward :: rat
  rwClauses :: "(string, rat) gomap"
  rwAt :: int

section \<open>Values between stages\<close>

record EpisodeMeta =
  mtTaskType :: string
  mtGroupID :: string
  mtInstrumentation :: string
  mtInstrumentationVersion :: string
  mtRaw :: "(string, string) gomap"

record Envelope =
  envSessionKey :: string
  envEpisodeID :: string
  envSource :: string
  envSpanID :: string
  envParentSpanID :: string
  envTerminal :: bool
  envError :: "Error option"
  envMeta :: EpisodeMeta
  envStep :: Step

record Assembled =
  asEpisode :: Episode
  asSteps :: "Step list"

text \<open>Go's zero values of the structs that the code leaves uninitialised.\<close>

definition zeroMeta :: EpisodeMeta where
  "zeroMeta = \<lparr>mtTaskType = [], mtGroupID = [], mtInstrumentation = [],
     mtInstrumentationVersion = [], mtRaw = []\<rparr>"

definition zeroStep :: Step where
  "zeroStep = \<lparr>stEpisodeID = [], stStepIdx = 0, stParentIdx = None, stAttempt = 0, stKind = [],
     stRole = None, stContentRef = None, stContentInline = None, stTruncated = False,
     stToolName = None, stToolVersion = None, stArgsHash = None, stModel = None,
     stProvider = None, stParams = None, stTokenCounts = None, stTokenSpans = [],
     stTrainable = [], stLogprobsRef = None, stFinishReason = None, stStartedAt = 0,
     stLatencyMs = None, stError = None, stRaw = [], stCostUSD = None\<rparr>"

definition zeroEnvelope :: Envelope where
  "zeroEnvelope = \<lparr>envSessionKey = [], envEpisodeID = [], envSource = [], envSpanID = [],
     envParentSpanID = [], envTerminal = False, envError = None, envMeta = zeroMeta,
     envStep = zeroStep\<rparr>"

definition zeroEpisode :: Episode where
  "zeroEpisode = \<lparr>epEpisodeID = [], epTenant = [], epGroupID = None, epTaskType = None,
     epSource = [], epInstrumentation = None, epInstrumentationVersion = None,
     epEntityKeys = [], epStatus = [], epFidelity = None, epSampledBy = None, epStartedAt = 0,
     epEndedAt = None, epReceivedAt = 0, epStepCount = 0, epError = None,
     epSchemaVersion = [], epRaw = []\<rparr>"

section \<open>Stored enum values\<close>

definition StatusComplete :: string where "StatusComplete = ''complete''"
definition StatusTimedOut :: string where "StatusTimedOut = ''timed_out''"
definition StatusEvicted :: string where "StatusEvicted = ''evicted''"
definition StatusPatched :: string where "StatusPatched = ''patched''"

definition KindLLM :: string where "KindLLM = ''llm''"
definition KindTool :: string where "KindTool = ''tool''"
definition KindRetrieval :: string where "KindRetrieval = ''retrieval''"
definition KindHuman :: string where "KindHuman = ''human''"
definition KindOther :: string where "KindOther = ''other''"

definition TrainableTrue :: string where "TrainableTrue = ''true''"
definition TrainableFalse :: string where "TrainableFalse = ''false''"
definition TrainableUnknown :: string where "TrainableUnknown = ''unknown''"

definition EncodingUTF8 :: string where "EncodingUTF8 = ''utf8''"
definition EncodingBase64 :: string where "EncodingBase64 = ''base64''"
definition EncodingZstd :: string where "EncodingZstd = ''zstd''"

lemmas enum_values =
  StatusComplete_def StatusTimedOut_def StatusEvicted_def StatusPatched_def
  KindLLM_def KindTool_def KindRetrieval_def KindHuman_def KindOther_def
  TrainableTrue_def TrainableFalse_def TrainableUnknown_def
  EncodingUTF8_def EncodingBase64_def EncodingZstd_def

text \<open>The wire enums are open: any number may arrive, so a wire value is an \<^typ>\<open>int\<close>.\<close>

definition statusToProto :: "(string, int) gomap" where
  "statusToProto = [(StatusComplete, 1), (StatusTimedOut, 2), (StatusEvicted, 3), (StatusPatched, 4)]"

definition kindToProto :: "(string, int) gomap" where
  "kindToProto = [(KindLLM, 1), (KindTool, 2), (KindRetrieval, 3), (KindHuman, 4), (KindOther, 5)]"

definition trainableToProto :: "(string, int) gomap" where
  "trainableToProto = [(TrainableTrue, 2), (TrainableFalse, 3), (TrainableUnknown, 1)]"

definition encodingToProto :: "(string, int) gomap" where
  "encodingToProto = [(EncodingUTF8, 1), (EncodingBase64, 2), (EncodingZstd, 3)]"

definition invert :: "('k, 'v) gomap \<Rightarrow> ('v, 'k) gomap" where
  "invert m = fold (\<lambda>(k, v) out. AList.update v k out) m []"

definition goget :: "'v \<Rightarrow> ('k, 'v) gomap \<Rightarrow> 'k \<Rightarrow> 'v" where
  "goget zero m k = (case map_of m k of Some v \<Rightarrow> v | None \<Rightarrow> zero)"

definition StatusFromProto :: "int \<Rightarrow> string" where
  "StatusFromProto s = goget [] (invert statusToProto) s"

definition KindFromProto :: "int \<Rightarrow> string" where
  "KindFromProto k = (case map_of (invert kindToProto) k of Some s \<Rightarrow> s | None \<Rightarrow> KindOther)"

definition TrainableFromProto :: "int \<Rightarrow> string" where
  "TrainableFromProto t =
     (case map_of (invert trainableToProto) t of Some s \<Rightarrow> s | None \<Rightarrow> TrainableUnknown)"

definition EncodingFromProto :: "int \<Rightarrow> string" where
  "EncodingFromProto e = goget [] (invert encodingToProto) e"

section \<open>Inverting a map\<close>

text \<open>
  \<open>invert\<close> on a map with distinct keys and distinct values is the inverse map, whatever the
  iteration order: this is what makes the four \<open>FromProto\<close> conversions well defined.
\<close>

lemma map_of_invert_fold:
  "map_of (fold (\<lambda>(k, v) out. AList.update v k out) m out) =
    map_of out ++ map_of (rev (map prod.swap m))"
  by (induction m arbitrary: out) (auto simp: fun_eq_iff map_add_def split: option.splits)

lemma map_of_invert: "map_of (invert m) = map_of (rev (map prod.swap m))"
  by (simp add: invert_def map_of_invert_fold)

lemma map_of_invert_eq_Some:
  assumes "distinct (map snd m)" and "(k, v) \<in> set m"
  shows "map_of (invert m) v = Some k"
  using assms by (auto simp: map_of_invert rev_map [symmetric] comp_def intro!: map_of_is_SomeI)

end
