(* ===== verification/Hashing.thy ===== *)
theory Hashing
  imports Prelude
begin

text \<open>
  The checksums and hashes of Go's standard library that the collector calls: CRC-32 (IEEE,
  \<^verbatim>\<open>hash/crc32\<close>), SHA-256 (\<^verbatim>\<open>crypto/sha256\<close>), HMAC-SHA-256 (\<^verbatim>\<open>crypto/hmac\<close>) and FNV-1a
  (\<^verbatim>\<open>hash/fnv\<close>). They are written out as executable definitions so that the components that
  use them are closed terms.
\<close>

unbundle bit_operations_syntax

subsection \<open>CRC-32, reflected polynomial 0xedb88320\<close>

definition crc32_bit :: "32 word \<Rightarrow> 32 word" where
  "crc32_bit c = (if bit c 0 then drop_bit 1 c XOR 0xedb88320 else drop_bit 1 c)"

definition crc32_byte :: "byte \<Rightarrow> 32 word \<Rightarrow> 32 word" where
  "crc32_byte b c = (crc32_bit ^^ 8) (c XOR ucast b)"

definition crc32 :: "byte list \<Rightarrow> 32 word" where
  "crc32 bs = NOT (fold crc32_byte bs (NOT 0))"

subsection \<open>FNV-1a, 64 bit\<close>

definition fnv64a :: "byte list \<Rightarrow> 64 word" where
  "fnv64a bs = fold (\<lambda>b h. (h XOR ucast b) * 1099511628211) bs 14695981039346656037"

subsection \<open>SHA-256\<close>

definition sha_K :: "32 word list" where
  "sha_K =
    [1116352408, 1899447441, 3049323471, 3921009573, 961987163, 1508970993,
     2453635748, 2870763221, 3624381080, 310598401, 607225278, 1426881987,
     1925078388, 2162078206, 2614888103, 3248222580, 3835390401, 4022224774,
     264347078, 604807628, 770255983, 1249150122, 1555081692, 1996064986,
     2554220882, 2821834349, 2952996808, 3210313671, 3336571891, 3584528711,
     113926993, 338241895, 666307205, 773529912, 1294757372, 1396182291,
     1695183700, 1986661051, 2177026350, 2456956037, 2730485921, 2820302411,
     3259730800, 3345764771, 3516065817, 3600352804, 4094571909, 275423344,
     430227734, 506948616, 659060556, 883997877, 958139571, 1322822218,
     1537002063, 1747873779, 1955562222, 2024104815, 2227730452, 2361852424,
     2428436474, 2756734187, 3204031479, 3329325298]"

definition sha_H0 :: "32 word list" where
  "sha_H0 =
    [1779033703, 3144134277, 1013904242, 2773480762, 1359893119, 2600822924,
     528734635, 1541459225]"

definition ror32 :: "nat \<Rightarrow> 32 word \<Rightarrow> 32 word" where
  "ror32 n x = drop_bit n x OR push_bit (32 - n) x"

text \<open>\<open>be_bytes n x\<close> is the big-endian encoding of the low \<open>n\<close> bytes of \<open>x\<close>, as
  \<^verbatim>\<open>binary.BigEndian.PutUint32\<close> and \<^verbatim>\<open>PutUint64\<close> write it, and \<open>of_be_bytes\<close> reads it back.\<close>

definition be_bytes :: "nat \<Rightarrow> 'a::len word \<Rightarrow> byte list" where
  "be_bytes n x = map (\<lambda>i. ucast (drop_bit (8 * i) x)) (rev [0..<n])"

definition of_be_bytes :: "byte list \<Rightarrow> 'a::len word" where
  "of_be_bytes bs = fold (\<lambda>b acc. push_bit 8 acc OR ucast b) bs 0"

abbreviation be32 :: "32 word \<Rightarrow> byte list" where
  "be32 \<equiv> be_bytes 4"

abbreviation be64 :: "64 word \<Rightarrow> byte list" where
  "be64 \<equiv> be_bytes 8"

abbreviation of_be32 :: "byte list \<Rightarrow> 32 word" where
  "of_be32 \<equiv> of_be_bytes"

abbreviation of_be64 :: "byte list \<Rightarrow> 64 word" where
  "of_be64 \<equiv> of_be_bytes"

fun chunks :: "nat \<Rightarrow> 'a list \<Rightarrow> 'a list list" where
  "chunks n xs = (if n = 0 \<or> length xs \<le> n then [xs] else take n xs # chunks n (drop n xs))"

declare chunks.simps [simp del]

definition sha_pad :: "byte list \<Rightarrow> byte list" where
  "sha_pad bs =
     (let l = length bs; z = (119 - l mod 64) mod 64
      in bs @ [0x80] @ replicate z 0 @ be64 (of_nat (8 * l)))"

text \<open>The message schedule is kept newest word first: \<open>ws ! 1\<close> is the word two back.\<close>

definition sha_extend :: "32 word list \<Rightarrow> 32 word list" where
  "sha_extend ws =
     (let w2 = ws ! 1; w7 = ws ! 6; w15 = ws ! 14; w16 = ws ! 15;
          s0 = ror32 7 w15 XOR ror32 18 w15 XOR drop_bit 3 w15;
          s1 = ror32 17 w2 XOR ror32 19 w2 XOR drop_bit 10 w2
      in (w16 + s0 + w7 + s1) # ws)"

definition sha_schedule :: "byte list \<Rightarrow> 32 word list" where
  "sha_schedule block = rev ((sha_extend ^^ 48) (rev (map of_be32 (chunks 4 block))))"

fun sha_round :: "32 word \<times> 32 word \<Rightarrow> 32 word list \<Rightarrow> 32 word list" where
  "sha_round (k, w) [a, b, c, d, e, f, g, h] =
     (let t1 = h + (ror32 6 e XOR ror32 11 e XOR ror32 25 e)
                 + ((e AND f) XOR (NOT e AND g)) + k + w;
          t2 = (ror32 2 a XOR ror32 13 a XOR ror32 22 a)
                 + ((a AND b) XOR (a AND c) XOR (b AND c))
      in [t1 + t2, a, b, c, d + t1, e, f, g])"
| "sha_round _ s = s"

definition sha_block :: "byte list \<Rightarrow> 32 word list \<Rightarrow> 32 word list" where
  "sha_block block hs = map2 (+) hs (fold sha_round (zip sha_K (sha_schedule block)) hs)"

definition sha256 :: "byte list \<Rightarrow> byte list" where
  "sha256 bs = concat (map be32 (fold sha_block (chunks 64 (sha_pad bs)) sha_H0))"

definition hmac_sha256 :: "byte list \<Rightarrow> byte list \<Rightarrow> byte list" where
  "hmac_sha256 key msg =
     (let k0 = (if length key > 64 then sha256 key else key);
          k = k0 @ replicate (64 - length k0) 0
      in sha256 (map (\<lambda>b. b XOR 0x5c) k @ sha256 (map (\<lambda>b. b XOR 0x36) k @ msg)))"

subsection \<open>Big-endian integers round trip\<close>

lemma length_be_bytes [simp]: "length (be_bytes n x) = n"
  by (simp add: be_bytes_def)

lemma be_bytes_Suc: "be_bytes (Suc n) x = ucast (drop_bit (8 * n) x) # be_bytes n x"
  by (simp add: be_bytes_def)

lemma be_shift_in:
  fixes x acc :: "'a::len word"
  shows "push_bit m (push_bit 8 acc OR ucast (ucast (drop_bit m x) :: byte)) OR take_bit m x =
    push_bit (m + 8) acc OR take_bit (m + 8) x"
proof (rule bit_word_eqI)
  fix n
  assume "n < LENGTH('a)"
  consider "n < m" | "m \<le> n" "n < m + 8" | "m + 8 \<le> n" by linarith
  then show "bit (push_bit m (push_bit 8 acc OR ucast (ucast (drop_bit m x) :: byte)) OR take_bit m x) n =
      bit (push_bit (m + 8) acc OR take_bit (m + 8) x) n"
    by cases (use \<open>n < LENGTH('a)\<close> in \<open>auto simp: bit_or_iff bit_push_bit_iff bit_take_bit_iff bit_ucast_iff bit_drop_bit_eq
        dest: bit_imp_le_length\<close>)
qed

lemma fold_be_bytes:
  fixes x acc :: "'a::len word"
  shows "fold (\<lambda>b acc. push_bit 8 acc OR ucast b) (be_bytes n x) acc =
    push_bit (8 * n) acc OR take_bit (8 * n) x"
proof (induction n arbitrary: acc)
  case 0
  then show ?case by (simp add: be_bytes_def)
next
  case (Suc n)
  then show ?case
    using be_shift_in [of "8 * n" acc x] by (simp add: be_bytes_Suc add.commute)
qed

lemma of_be_bytes_be_bytes:
  fixes x :: "'a::len word"
  assumes "LENGTH('a) \<le> 8 * n"
  shows "of_be_bytes (be_bytes n x) = x"
  using assms by (simp add: of_be_bytes_def fold_be_bytes take_bit_word_eq_self)

lemma of_be32_be32 [simp]: "of_be32 (be32 x) = x"
  by (rule of_be_bytes_be_bytes) simp

lemma of_be64_be64 [simp]: "of_be64 (be64 x) = x"
  by (rule of_be_bytes_be_bytes) simp

end
