(* ===== verification/Assemble.thy ===== *)
theory Assemble
  imports Records Hashing
begin

text \<open>
  The assembler (\<^verbatim>\<open>src/collector/assemble\<close>): it groups envelopes by session key into in-flight
  episodes, closes an episode on a terminal marker plus a settle time, on an idle window, on
  capacity or on shutdown, and turns spans that arrive after the close into patches.

  State. \<open>Assembler\<close> has the fields of the Go struct. The linked list \<^verbatim>\<open>order\<close> with its
  \<^verbatim>\<open>*list.Element\<close> pointers is an association list from handles (fresh numbers) to in-flight
  episodes in creation order, and \<^verbatim>\<open>open\<close> maps a session key to a handle, so that the agreement
  of the two is a theorem and not a modelling decision. \<^verbatim>\<open>Now\<close> and \<^verbatim>\<open>NewID\<close> are the injected
  functions of \<^verbatim>\<open>Options\<close>; as they are called several times in one operation, each is a
  sequence of readings and the state counts the readings taken so far.

  An operation returns the new state and the episodes it emits, in order: the code collects
  them under the lock and calls \<^verbatim>\<open>emit\<close> after releasing it.
\<close>

section \<open>State\<close>

record Options =
  Tenant :: string
  Window :: duration
  MaxInFlight :: int
  SettleAfterTerminal :: duration
  PatchMemory :: int
  Now :: "nat \<Rightarrow> time"
  NewID :: "nat \<Rightarrow> string"

record Stats =
  Evicted :: int
  TimedOut :: int
  Completed :: int
  LateSpans :: int
  Patched :: int
  Duplicates :: int

record inFlight =
  key :: string
  episodeID :: string
  createdAt :: time
  lastSeen :: time
  meta :: EpisodeMeta
  source :: string
  terminalAt :: "time option"
  err :: "Error option"
  spans :: "(string, Envelope) gomap"
  startedAt :: int
  endedAt :: int

type_synonym handle = nat

record Assembler =
  opts :: Options
  openEps :: "string \<rightharpoonup> handle"
  order :: "(handle \<times> inFlight) list"
  nextHandle :: handle
  emitted :: "string \<rightharpoonup> string"
  emittedFIFO :: "string list"
  patchIdx :: "string \<rightharpoonup> int"
  emittedSpans :: "string \<rightharpoonup> string set"
  stats :: Stats
  nowCalls :: nat
  idCalls :: nat

definition zeroStats :: Stats where
  "zeroStats = \<lparr>Evicted = 0, TimedOut = 0, Completed = 0, LateSpans = 0, Patched = 0, Duplicates = 0\<rparr>"

definition patchIdxBase :: int where
  "patchIdxBase = 2 ^ 20"

definition schemaVersion :: string where
  "schemaVersion = ''0.2.0''"

definition unixMicro :: "time \<Rightarrow> int" where
  "unixMicro t = t div 1000"

definition applyDefaults :: "Options \<Rightarrow> Options" where
  "applyDefaults o0 =
     (let o1 = (if Window o0 \<le> 0 then o0\<lparr>Window := 5 * 60 * 10 ^ 9\<rparr> else o0);
          o2 = (if MaxInFlight o1 \<le> 0 then o1\<lparr>MaxInFlight := 50000\<rparr> else o1);
          o3 = (if SettleAfterTerminal o2 < 0 then o2\<lparr>SettleAfterTerminal := 0\<rparr> else o2);
          o4 = (if PatchMemory o3 \<le> 0 then o3\<lparr>PatchMemory := 10000\<rparr> else o3)
      in o4)"

definition New :: "Options \<Rightarrow> Assembler" where
  "New o0 = \<lparr>opts = applyDefaults o0, openEps = Map.empty, order = [], nextHandle = 0,
     emitted = Map.empty, emittedFIFO = [], patchIdx = Map.empty, emittedSpans = Map.empty,
     stats = zeroStats, nowCalls = 0, idCalls = 0\<rparr>"

definition readNow :: "Assembler \<Rightarrow> time \<times> Assembler" where
  "readNow a = (Now (opts a) (nowCalls a), a\<lparr>nowCalls := Suc (nowCalls a)\<rparr>)"

definition readID :: "Assembler \<Rightarrow> string \<times> Assembler" where
  "readID a = (NewID (opts a) (idCalls a), a\<lparr>idCalls := Suc (idCalls a)\<rparr>)"

section \<open>Identity of a span\<close>

definition syntheticSpanID :: "Envelope \<Rightarrow> string" where
  "syntheticSpanID env =
     (let s = envStep env;
          msg = bytes_of (format_int (stStartedAt s)) @ [0] @ bytes_of (stKind s) @ [0]
             @ (case stContentInline s of None \<Rightarrow> [] | Some c \<Rightarrow> bytes_of c) @ [0]
             @ (case stToolName s of None \<Rightarrow> [] | Some t \<Rightarrow> bytes_of t)
      in ''syn-'' @ hex_encode (take 12 (sha256 msg)))"

definition spanKey :: "Envelope \<Rightarrow> string" where
  "spanKey env = (if envSpanID env \<noteq> [] then envSpanID env else syntheticSpanID env)"

definition markEmittedSpan :: "string \<Rightarrow> string \<Rightarrow> Assembler \<Rightarrow> Assembler" where
  "markEmittedSpan session sp a =
     (let set0 = (case emittedSpans a session of None \<Rightarrow> {} | Some s \<Rightarrow> s)
      in a\<lparr>emittedSpans := (emittedSpans a)(session \<mapsto> insert sp set0)\<rparr>)"

definition wasEmitted :: "Assembler \<Rightarrow> string \<Rightarrow> string \<Rightarrow> bool" where
  "wasEmitted a session sp =
     (case emittedSpans a session of None \<Rightarrow> False | Some s \<Rightarrow> sp \<in> s)"

section \<open>Absorbing one envelope\<close>

definition putSpan :: "string \<Rightarrow> Envelope \<Rightarrow> (string, Envelope) gomap \<Rightarrow> (string, Envelope) gomap" where
  "putSpan sid env m =
     (case map_of m sid of
        Some prev \<Rightarrow>
          (if stStartedAt (envStep env) < stStartedAt (envStep prev) then AList.update sid env m else m)
      | None \<Rightarrow> AList.update sid env m)"

definition absorbMeta :: "EpisodeMeta \<Rightarrow> EpisodeMeta \<Rightarrow> EpisodeMeta" where
  "absorbMeta m e =
     \<lparr>mtTaskType = (if mtTaskType m = [] then mtTaskType e else mtTaskType m),
      mtGroupID = (if mtGroupID m = [] then mtGroupID e else mtGroupID m),
      mtInstrumentation = (if mtInstrumentation m = [] then mtInstrumentation e else mtInstrumentation m),
      mtInstrumentationVersion =
        (if mtInstrumentationVersion m = [] then mtInstrumentationVersion e else mtInstrumentationVersion m),
      mtRaw = fold (\<lambda>(k, v) r. AList.update k v r) (mtRaw e) (mtRaw m)\<rparr>"

definition spanEnd :: "Step \<Rightarrow> int" where
  "spanEnd s =
     (case stLatencyMs s of
        None \<Rightarrow> stStartedAt s
      | Some l \<Rightarrow> wrap64 (stStartedAt s + wrap64 (l * 1000)))"

definition absorb :: "Envelope \<Rightarrow> time \<Rightarrow> inFlight \<Rightarrow> Stats \<Rightarrow> inFlight \<times> Stats" where
  "absorb env now f st =
     (let sid = (if envSpanID env = [] then syntheticSpanID env else envSpanID env);
          dup = (sid \<in> fst ` set (spans f));
          s = stStartedAt (envStep env);
          f' = f\<lparr>lastSeen := now,
                 spans := putSpan sid env (spans f),
                 meta := absorbMeta (meta f) (envMeta env),
                 err := (if envError env \<noteq> None \<and> err f = None then envError env else err f),
                 terminalAt := (if envTerminal env \<and> terminalAt f = None then Some now else terminalAt f),
                 startedAt := (if s > 0 \<and> (startedAt f = 0 \<or> s < startedAt f) then s else startedAt f),
                 endedAt := (if spanEnd (envStep env) > endedAt f then spanEnd (envStep env) else endedAt f)\<rparr>;
          st' = (if dup then st\<lparr>Duplicates := Duplicates st + 1\<rparr> else st)
      in (f', st'))"

section \<open>Closing an episode\<close>

definition spanAt :: "inFlight \<Rightarrow> string \<Rightarrow> Envelope" where
  "spanAt f sid = goget zeroEnvelope (spans f) sid"

definition orderedIDs :: "inFlight \<Rightarrow> string list" where
  "orderedIDs f = sort_key (\<lambda>sid. (stStartedAt (envStep (spanAt f sid)), sid)) (map fst (spans f))"

definition spanIndex :: "string list \<Rightarrow> string \<rightharpoonup> int" where
  "spanIndex ids = Map.empty(ids [\<mapsto>] map (\<lambda>i. wrap32 (int i)) [0..<length ids])"

definition linkStep :: "inFlight \<Rightarrow> (string \<rightharpoonup> int) \<Rightarrow> nat \<times> string \<Rightarrow> Step" where
  "linkStep f idx p =
     (let (i, sid) = p;
          env = spanAt f sid;
          s = (envStep env)\<lparr>stEpisodeID := episodeID f, stStepIdx := wrap32 (int i)\<rparr>
      in if envParentSpanID env \<noteq> []
         then (case idx (envParentSpanID env) of
                 None \<Rightarrow> s
               | Some q \<Rightarrow> if q \<noteq> wrap32 (int i) then s\<lparr>stParentIdx := Some q\<rparr> else s)
         else s)"

definition orderedSteps :: "inFlight \<Rightarrow> Step list" where
  "orderedSteps f =
     (let ids = orderedIDs f; idx = spanIndex ids
      in map (linkStep f idx) (List.enumerate 0 ids))"

definition fidelityStep :: "Step \<Rightarrow> Fidelity \<times> bool \<times> bool \<Rightarrow> Fidelity \<times> bool \<times> bool" where
  "fidelityStep s acc =
     (let (fid, sawLLM, sawTool) = acc;
          (fid1, sawLLM1) =
            (if stKind s = KindLLM
             then (fid\<lparr>HasParams := (if stParams s = None then False else HasParams fid),
                      HasTokenSpans := (if stTokenSpans s = [] then False else HasTokenSpans fid)\<rparr>, True)
             else (fid, sawLLM));
          (fid2, sawTool1) =
            (if stKind s = KindTool
             then (fid1\<lparr>HasToolVersions :=
                      (if stToolVersion s = None then False else HasToolVersions fid1)\<rparr>, True)
             else (fid1, sawTool))
      in (fid2, sawLLM1, sawTool1))"

definition fidelityOf :: "Step list \<Rightarrow> Fidelity" where
  "fidelityOf steps =
     (if steps = [] then \<lparr>HasParams = False, HasTokenSpans = False, HasToolVersions = False\<rparr>
      else
        let (fid, sawLLM, sawTool) =
              fold fidelityStep steps
                (\<lparr>HasParams = True, HasTokenSpans = True, HasToolVersions = True\<rparr>, False, False);
            fid1 = (if \<not> sawLLM then fid\<lparr>HasParams := False, HasTokenSpans := False\<rparr> else fid)
        in (if \<not> sawTool then fid1\<lparr>HasToolVersions := False\<rparr> else fid1))"

text \<open>\<open>forgetEmitted\<close> is the trimming loop of \<^verbatim>\<open>rememberEmitted\<close>.\<close>

function forgetEmitted :: "Assembler \<Rightarrow> Assembler" where
  "forgetEmitted a =
     (case emittedFIFO a of
        [] \<Rightarrow> a
      | oldest # rest \<Rightarrow>
          (if int (length (emittedFIFO a)) > PatchMemory (opts a)
           then forgetEmitted
             (case emitted a oldest of
                Some epID \<Rightarrow> a\<lparr>emittedFIFO := rest, emitted := (emitted a)(oldest := None),
                             patchIdx := (patchIdx a)(epID := None),
                             emittedSpans := (emittedSpans a)(oldest := None)\<rparr>
              | None \<Rightarrow> a\<lparr>emittedFIFO := rest\<rparr>)
           else a))"
  by pat_completeness auto
termination
  by (relation "measure (\<lambda>a. length (emittedFIFO a))") (auto split: option.splits)

declare forgetEmitted.simps [simp del]

definition rememberEmitted :: "string \<Rightarrow> string \<Rightarrow> Assembler \<Rightarrow> Assembler" where
  "rememberEmitted sessionKey epID a =
     (let a1 = (if emitted a sessionKey = None
                then a\<lparr>emittedFIFO := emittedFIFO a @ [sessionKey]\<rparr> else a);
          a2 = a1\<lparr>emitted := (emitted a1)(sessionKey \<mapsto> epID)\<rparr>
      in forgetEmitted a2)"

definition removeOpen :: "inFlight \<Rightarrow> Assembler \<Rightarrow> Assembler" where
  "removeOpen f a =
     (case openEps a (key f) of
        Some h \<Rightarrow> a\<lparr>order := AList.delete h (order a), openEps := (openEps a)(key f := None)\<rparr>
      | None \<Rightarrow> a)"

definition nonEmpty :: "string \<Rightarrow> string option" where
  "nonEmpty s = (if s \<noteq> [] then Some s else None)"

definition closedEpisode :: "Assembler \<Rightarrow> inFlight \<Rightarrow> string \<Rightarrow> time \<Rightarrow> Assembled" where
  "closedEpisode a f status now =
     (let steps = orderedSteps f
      in \<lparr>asEpisode =
            \<lparr>epEpisodeID = episodeID f, epTenant = Tenant (opts a),
             epGroupID = nonEmpty (mtGroupID (meta f)), epTaskType = nonEmpty (mtTaskType (meta f)),
             epSource = source f,
             epInstrumentation = nonEmpty (mtInstrumentation (meta f)),
             epInstrumentationVersion = nonEmpty (mtInstrumentationVersion (meta f)),
             epEntityKeys = [], epStatus = status, epFidelity = Some (fidelityOf steps),
             epSampledBy = None, epStartedAt = startedAt f,
             epEndedAt = (if endedAt f > 0 then Some (endedAt f) else None),
             epReceivedAt = unixMicro now, epStepCount = wrap32 (int (length steps)),
             epError = err f, epSchemaVersion = schemaVersion,
             epRaw = (if mtRaw (meta f) \<noteq> [] then mtRaw (meta f) else [])\<rparr>,
          asSteps = steps\<rparr>)"

definition closeLocked :: "inFlight \<Rightarrow> string \<Rightarrow> Assembler \<Rightarrow> Assembled \<times> Assembler" where
  "closeLocked f status a =
     (let a1 = rememberEmitted (key f) (episodeID f) (removeOpen f a);
          a2 = fold (\<lambda>sid. markEmittedSpan (key f) sid) (map fst (spans f)) a1;
          (now, a3) = readNow a2
      in (closedEpisode a3 f status now, a3))"

section \<open>Patches\<close>

definition nextPatchIdx :: "string \<Rightarrow> Assembler \<Rightarrow> int \<times> Assembler" where
  "nextPatchIdx epID a =
     (let idx = (case patchIdx a epID of None \<Rightarrow> patchIdxBase | Some i \<Rightarrow> i)
      in (idx, a\<lparr>patchIdx := (patchIdx a)(epID \<mapsto> wrap32 (idx + 1))\<rparr>))"

definition patchFor :: "string \<Rightarrow> Envelope \<Rightarrow> Assembler \<Rightarrow> Assembled \<times> Assembler" where
  "patchFor epID env a =
     (let (idx, a1) = nextPatchIdx epID a;
          step = (envStep env)\<lparr>stEpisodeID := epID, stStepIdx := idx\<rparr>;
          (now, a2) = readNow a1;
          m = envMeta env
      in (\<lparr>asEpisode = zeroEpisode\<lparr>epEpisodeID := epID, epTenant := Tenant (opts a),
              epSource := envSource env, epStatus := StatusPatched,
              epStartedAt := stStartedAt step, epReceivedAt := unixMicro now, epStepCount := 1,
              epSchemaVersion := schemaVersion,
              epTaskType := nonEmpty (mtTaskType m), epGroupID := nonEmpty (mtGroupID m),
              epInstrumentation := nonEmpty (mtInstrumentation m),
              epInstrumentationVersion := nonEmpty (mtInstrumentationVersion m)\<rparr>,
           asSteps = [step]\<rparr>, a2))"

section \<open>Expiry, ingest and shutdown\<close>

definition settled :: "Options \<Rightarrow> time \<Rightarrow> inFlight \<Rightarrow> bool" where
  "settled o0 now f =
     (case terminalAt f of None \<Rightarrow> False | Some t \<Rightarrow> \<not> now < t + SettleAfterTerminal o0)"

definition idle :: "Options \<Rightarrow> time \<Rightarrow> inFlight \<Rightarrow> bool" where
  "idle o0 now f = (lastSeen f < now - Window o0 \<or> lastSeen f = now - Window o0)"

text \<open>One visit of the scan: \<open>el\<close> is the element under the iterator.\<close>

definition expireOne :: "time \<Rightarrow> inFlight \<Rightarrow> Assembler \<Rightarrow> Assembled list \<times> Assembler" where
  "expireOne now f a =
     (if settled (opts a) now f then
        let (out, a1) = closeLocked f StatusComplete a
        in ([out], a1\<lparr>stats := (stats a1)\<lparr>Completed := Completed (stats a1) + 1\<rparr>\<rparr>)
      else if idle (opts a) now f then
        let (out, a1) = closeLocked f StatusTimedOut a
        in ([out], a1\<lparr>stats := (stats a1)\<lparr>TimedOut := TimedOut (stats a1) + 1\<rparr>\<rparr>)
      else ([], a))"

fun expireScan :: "time \<Rightarrow> inFlight list \<Rightarrow> Assembler \<Rightarrow> Assembled list \<times> Assembler" where
  "expireScan now [] a = ([], a)"
| "expireScan now (f # fs) a =
     (let (out, a1) = expireOne now f a; (outs, a2) = expireScan now fs a1 in (out @ outs, a2))"

definition expireLocked :: "Assembler \<Rightarrow> Assembled list \<times> Assembler" where
  "expireLocked a = (let (now, a1) = readNow a in expireScan now (map snd (order a1)) a1)"

definition Expire :: "Assembler \<Rightarrow> Assembled list \<times> Assembler" where
  "Expire a = expireLocked a"

definition addLate :: "string \<Rightarrow> Envelope \<Rightarrow> Assembler \<Rightarrow> Assembled list \<times> Assembler" where
  "addLate epID env a =
     (if wasEmitted a (envSessionKey env) (spanKey env) then
        ([], a\<lparr>stats := (stats a)\<lparr>Duplicates := Duplicates (stats a) + 1\<rparr>\<rparr>)
      else
        let a1 = markEmittedSpan (envSessionKey env) (spanKey env) a;
            (patch, a2) = patchFor epID env a1
        in ([patch], a2\<lparr>stats := (stats a2)\<lparr>LateSpans := LateSpans (stats a2) + 1,
                                          Patched := Patched (stats a2) + 1\<rparr>\<rparr>))"

definition makeRoom :: "Assembler \<Rightarrow> Assembled list \<times> Assembler" where
  "makeRoom a =
     (if int (length (order a)) \<ge> MaxInFlight (opts a) then
        (case order a of
           [] \<Rightarrow> ([], a)
         | (h, ep) # _ \<Rightarrow>
             let (out, a1) = closeLocked ep StatusEvicted a
             in ([out], a1\<lparr>stats := (stats a1)\<lparr>Evicted := Evicted (stats a1) + 1\<rparr>\<rparr>))
      else ([], a))"

definition openEpisode :: "Envelope \<Rightarrow> Assembler \<Rightarrow> handle \<times> Assembler" where
  "openEpisode env a =
     (let (epID, a1) = (if envEpisodeID env = [] then readID a else (envEpisodeID env, a));
          (now, a2) = readNow a1;
          ep = \<lparr>key = envSessionKey env, episodeID = epID, createdAt = now, lastSeen = 0,
                meta = zeroMeta, source = envSource env, terminalAt = None, err = None,
                spans = [], startedAt = 0, endedAt = 0\<rparr>;
          h = nextHandle a2
      in (h, a2\<lparr>order := order a2 @ [(h, ep)], nextHandle := Suc h,
               openEps := (openEps a2)(envSessionKey env \<mapsto> h)\<rparr>))"

definition absorbAt :: "handle \<Rightarrow> Envelope \<Rightarrow> Assembler \<Rightarrow> Assembler" where
  "absorbAt h env a =
     (case map_of (order a) h of
        None \<Rightarrow> a
      | Some f \<Rightarrow>
          let (now, a1) = readNow a; (f', st') = absorb env now f (stats a1)
          in a1\<lparr>order := AList.update h f' (order a1), stats := st'\<rparr>)"

definition sessionOf :: "Envelope \<Rightarrow> Assembler \<Rightarrow> Envelope \<times> Assembler" where
  "sessionOf env a =
     (if envSessionKey env = [] then
        let (session, a1) = readID a in (env\<lparr>envSessionKey := session\<rparr>, a1)
      else (env, a))"

definition Add :: "Envelope \<Rightarrow> Assembler \<Rightarrow> Assembled list \<times> Assembler" where
  "Add env0 a0 =
     (let (env, a) = sessionOf env0 a0
      in case openEps a (envSessionKey env) of
           Some h \<Rightarrow> expireLocked (absorbAt h env a)
         | None \<Rightarrow>
             (case emitted a (envSessionKey env) of
                Some epID \<Rightarrow> addLate epID env a
              | None \<Rightarrow>
                  let (ready, a1) = makeRoom a;
                      (h, a2) = openEpisode env a1;
                      (due, a3) = expireLocked (absorbAt h env a2)
                  in (ready @ due, a3)))"

text \<open>
  \<open>flushLoop\<close> closes the front of the list for as long as the list is not empty. The code's loop
  has no counter, so the model carries fuel and returns \<open>None\<close> when it runs out;
  \<open>flushLoop_enough\<close> below shows that the fuel of \<open>Flush\<close> always suffices.
\<close>

definition flushStatus :: "string \<Rightarrow> inFlight \<Rightarrow> string" where
  "flushStatus fallback f = (if terminalAt f \<noteq> None then StatusComplete else fallback)"

fun flushLoop :: "nat \<Rightarrow> string \<Rightarrow> Assembler \<Rightarrow> (Assembled list \<times> Assembler) option" where
  "flushLoop 0 fallback a = None"
| "flushLoop (Suc fuel) fallback a =
     (case order a of
        [] \<Rightarrow> Some ([], a)
      | (h, f) # _ \<Rightarrow>
          let (out, a1) = closeLocked f (flushStatus fallback f) a
          in map_option (\<lambda>(outs, a2). (out # outs, a2)) (flushLoop fuel fallback a1))"

definition Flush :: "string \<Rightarrow> Assembler \<Rightarrow> (Assembled list \<times> Assembler) option" where
  "Flush fallback a = flushLoop (Suc (length (order a))) fallback a"

definition InFlight :: "Assembler \<Rightarrow> nat" where
  "InFlight a = length (order a)"

end
