(* ===== verification/Assembly_Order.thy ===== *)
theory Assembly_Order
  imports Assemble
begin

text \<open>
  What an assembled episode looks like: the canonical order of its steps, their links, its
  fidelity flags, and how far the result depends on the order and multiplicity in which spans
  arrive (\<^verbatim>\<open>close.go\<close> and \<^verbatim>\<open>absorb\<close> in \<^verbatim>\<open>assemble.go\<close>).
\<close>

section \<open>The canonical order\<close>

lemma spanAt_map_of: "map_of (spans f) = map_of (spans g) \<Longrightarrow> spanAt f = spanAt g"
  by (simp add: spanAt_def goget_def fun_eq_iff)

lemma mset_orderedIDs [simp]: "mset (orderedIDs f) = mset (map fst (spans f))"
  by (simp add: orderedIDs_def)

lemma length_orderedIDs [simp]: "length (orderedIDs f) = length (spans f)"
  by (simp add: orderedIDs_def)

lemma set_orderedIDs [simp]: "set (orderedIDs f) = fst ` set (spans f)"
  by (simp add: orderedIDs_def)

lemma distinct_orderedIDs: "distinct (map fst (spans f)) \<Longrightarrow> distinct (orderedIDs f)"
  by (simp add: orderedIDs_def)

lemma sorted_orderedIDs:
  "sorted (map (\<lambda>sid. (stStartedAt (envStep (spanAt f sid)), sid)) (orderedIDs f))"
  by (simp add: orderedIDs_def)

lemma orderedIDs_cong:
  assumes "map_of (spans f) = map_of (spans g)"
    and "distinct (map fst (spans f))" and "distinct (map fst (spans g))"
  shows "orderedIDs f = orderedIDs g"
proof -
  have "mset (spans f) = mset (spans g)"
    using assms(2,3,1) by (rule map_of_eq_imp_mset_eq)
  then have "mset (map fst (spans f)) = mset (map fst (spans g))" by simp
  then show ?thesis
    unfolding orderedIDs_def spanAt_map_of [OF assms(1)]
    by (rule sort_key_mset_eq) (auto intro!: inj_onI)
qed

lemma linkStep_cong:
  "spanAt f = spanAt g \<Longrightarrow> episodeID f = episodeID g \<Longrightarrow> linkStep f idx p = linkStep g idx p"
  by (simp add: linkStep_def split: prod.splits)

text \<open>The steps of an episode are a function of its span map and id: no iteration order and no
  arrival order enters.\<close>

lemma orderedSteps_cong:
  assumes "map_of (spans f) = map_of (spans g)" and "episodeID f = episodeID g"
    and "distinct (map fst (spans f))" and "distinct (map fst (spans g))"
  shows "orderedSteps f = orderedSteps g"
proof -
  have "linkStep f idx = linkStep g idx" for idx
    using spanAt_map_of [OF assms(1)] assms(2) linkStep_cong by blast
  then show ?thesis
    using orderedIDs_cong [OF assms(1,3,4)] by (simp add: orderedSteps_def Let_def)
qed

lemma length_orderedSteps [simp]: "length (orderedSteps f) = length (spans f)"
  by (simp add: orderedSteps_def Let_def)

lemma nth_orderedSteps:
  "i < length (spans f) \<Longrightarrow>
    orderedSteps f ! i = linkStep f (spanIndex (orderedIDs f)) (i, orderedIDs f ! i)"
  by (simp add: orderedSteps_def Let_def nth_enumerate_eq)

lemma linkStep_keeps [simp]:
  "stStepIdx (linkStep f idx (i, sid)) = wrap32 (int i)"
  "stStartedAt (linkStep f idx (i, sid)) = stStartedAt (envStep (spanAt f sid))"
  "stEpisodeID (linkStep f idx (i, sid)) = episodeID f"
  by (simp_all add: linkStep_def Let_def split: option.splits)

lemma sorted_startedAt_orderedSteps: "sorted (map stStartedAt (orderedSteps f))"
proof -
  have "map stStartedAt (orderedSteps f) = map (\<lambda>sid. stStartedAt (envStep (spanAt f sid))) (orderedIDs f)"
    by (rule nth_equalityI) (simp_all add: nth_orderedSteps)
  moreover have "sorted (map fst (map (\<lambda>sid. (stStartedAt (envStep (spanAt f sid)), sid)) (orderedIDs f)))"
    using sorted_orderedIDs [of f]
    by (auto simp: sorted_iff_nth_mono_less less_eq_prod_def intro: order.strict_implies_order)
  ultimately show ?thesis by (simp add: comp_def)
qed

section \<open>Parent links\<close>

lemma spanIndex_nth:
  assumes "distinct ids" and "i < length ids"
  shows "spanIndex ids (ids ! i) = Some (wrap32 (int i))"
proof -
  let ?vs = "map (\<lambda>i. wrap32 (int i)) [0..<length ids]"
  have "(ids ! i, wrap32 (int i)) \<in> set (zip ids ?vs)"
    using assms(2) by (force simp: in_set_zip)
  moreover have "distinct (map fst (rev (zip ids ?vs)))"
    using assms(1) by (simp add: rev_map [symmetric])
  ultimately show ?thesis
    by (simp add: spanIndex_def map_upds_def map_of_is_SomeI)
qed

lemma spanIndex_dom: "dom (spanIndex ids) = set ids"
  by (simp add: spanIndex_def)

lemma spanIndex_SomeE:
  assumes "spanIndex ids p = Some q" and "distinct ids"
  obtains j where "j < length ids" and "ids ! j = p" and "q = wrap32 (int j)"
proof -
  have "p \<in> set ids" using assms(1) spanIndex_dom by blast
  then obtain j where j: "j < length ids" "ids ! j = p" by (auto simp: in_set_conv_nth)
  then show thesis
    using assms that spanIndex_nth [of ids j] by simp
qed

lemma linkStep_parent:
  assumes "stParentIdx (envStep (spanAt f sid)) = None"
  shows "stParentIdx (linkStep f idx (i, sid)) =
    (if envParentSpanID (spanAt f sid) = [] then None
     else case idx (envParentSpanID (spanAt f sid)) of
       None \<Rightarrow> None | Some q \<Rightarrow> if q \<noteq> wrap32 (int i) then Some q else None)"
  using assms by (simp add: linkStep_def Let_def split: option.splits)

text \<open>A resolved parent is a step of the same episode, another one, and the one whose span id the
  producer named.\<close>

lemma orderedSteps_parent:
  assumes "distinct (map fst (spans f))" and "length (spans f) < 2 ^ 31"
    and "\<forall>e \<in> snd ` set (spans f). stParentIdx (envStep e) = None"
    and "i < length (spans f)" and "stParentIdx (orderedSteps f ! i) = Some q"
  shows "\<exists>j < length (spans f). q = int j \<and> j \<noteq> i \<and>
    orderedIDs f ! j = envParentSpanID (spanAt f (orderedIDs f ! i))"
proof -
  let ?sid = "orderedIDs f ! i" and ?idx = "spanIndex (orderedIDs f)"
  have "?sid \<in> set (orderedIDs f)" using assms(4) by (simp del: set_orderedIDs)
  then have "?sid \<in> fst ` set (spans f)" by simp
  then have "spanAt f ?sid \<in> snd ` set (spans f)"
    by (force simp: spanAt_def goget_def map_of_eq_None_iff split: option.splits dest: map_of_SomeD)
  then have p: "?idx (envParentSpanID (spanAt f ?sid)) = Some q" and qi: "q \<noteq> wrap32 (int i)"
    using assms(3,4,5) by (auto simp: nth_orderedSteps linkStep_parent split: if_splits option.splits)
  obtain j where j: "j < length (orderedIDs f)" "orderedIDs f ! j = envParentSpanID (spanAt f ?sid)"
    "q = wrap32 (int j)"
    using spanIndex_SomeE [OF p distinct_orderedIDs [OF assms(1)]] by blast
  then have "q = int j" using assms(2) by simp
  then show ?thesis using j qi assms(2,4) by (intro exI [of _ j]) auto
qed

section \<open>Fidelity\<close>

abbreviation llmSteps :: "Step list \<Rightarrow> Step set" where
  "llmSteps steps \<equiv> {s \<in> set steps. stKind s = KindLLM}"

abbreviation toolSteps :: "Step list \<Rightarrow> Step set" where
  "toolSteps steps \<equiv> {s \<in> set steps. stKind s = KindTool}"

lemma fidelityStep_eq:
  "fidelityStep s (fid, l, t) =
    (\<lparr>HasParams = HasParams fid \<and> (stKind s = KindLLM \<longrightarrow> stParams s \<noteq> None),
      HasTokenSpans = HasTokenSpans fid \<and> (stKind s = KindLLM \<longrightarrow> stTokenSpans s \<noteq> []),
      HasToolVersions = HasToolVersions fid \<and> (stKind s = KindTool \<longrightarrow> stToolVersion s \<noteq> None)\<rparr>,
     l \<or> stKind s = KindLLM, t \<or> stKind s = KindTool)"
  by (cases fid) (auto simp: fidelityStep_def Let_def)

lemma fold_fidelityStep:
  "fold fidelityStep steps (fid, l, t) =
    (\<lparr>HasParams = HasParams fid \<and> (\<forall>s \<in> llmSteps steps. stParams s \<noteq> None),
      HasTokenSpans = HasTokenSpans fid \<and> (\<forall>s \<in> llmSteps steps. stTokenSpans s \<noteq> []),
      HasToolVersions = HasToolVersions fid \<and> (\<forall>s \<in> toolSteps steps. stToolVersion s \<noteq> None)\<rparr>,
     l \<or> llmSteps steps \<noteq> {}, t \<or> toolSteps steps \<noteq> {})"
proof (induction steps arbitrary: fid l t)
  case Nil
  then show ?case by simp
next
  case (Cons s steps)
  show ?case
    by (auto simp: fidelityStep_eq Cons.IH)
qed

section \<open>Arrival order and duplicates\<close>

text \<open>On the level of the span map, \<open>putSpan\<close> keeps the earliest sighting.\<close>

definition keepEarliest :: "Envelope \<Rightarrow> (string \<rightharpoonup> Envelope) \<Rightarrow> (string \<rightharpoonup> Envelope)" where
  "keepEarliest e m =
     (case m (spanKey e) of
        Some prev \<Rightarrow> if stStartedAt (envStep e) < stStartedAt (envStep prev) then m(spanKey e \<mapsto> e) else m
      | None \<Rightarrow> m(spanKey e \<mapsto> e))"

lemma map_of_putSpan: "map_of (putSpan (spanKey e) e m) = keepEarliest e (map_of m)"
  by (simp add: putSpan_def keepEarliest_def split: option.splits)

lemma distinct_putSpan: "distinct (map fst m) \<Longrightarrow> distinct (map fst (putSpan sid e m))"
  by (simp add: putSpan_def distinct_update split: option.splits)

lemma fst_putSpan: "fst ` set (putSpan sid e m) = insert sid (fst ` set m)"
  by (auto simp: putSpan_def dom_update split: option.splits dest: map_of_SomeD)
    (force dest: map_of_SomeD)+

lemma length_putSpan:
  "length (putSpan sid e m) = (if sid \<in> fst ` set m then length m else Suc (length m))"
  by (auto simp: putSpan_def length_update map_of_eq_None_iff split: option.splits dest: map_of_SomeD)
    (force dest: map_of_SomeD)+

text \<open>\<open>sameCopies\<close>: deliveries of one span with one start time are copies of each other.\<close>

definition sameCopies :: "Envelope set \<Rightarrow> bool" where
  "sameCopies E \<longleftrightarrow>
     (\<forall>e \<in> E. \<forall>e' \<in> E. spanKey e = spanKey e' \<and> stStartedAt (envStep e) = stStartedAt (envStep e') \<longrightarrow> e = e')"

lemma keepEarliest_commute:
  assumes "spanKey e = spanKey e' \<Longrightarrow> stStartedAt (envStep e) = stStartedAt (envStep e') \<Longrightarrow> e = e'"
  shows "keepEarliest e' (keepEarliest e m) = keepEarliest e (keepEarliest e' m)"
proof (cases "spanKey e = spanKey e'")
  case False
  then show ?thesis
    by (auto simp: keepEarliest_def fun_upd_twist split: option.splits)
next
  case True
  with assms consider "stStartedAt (envStep e) < stStartedAt (envStep e')"
    | "stStartedAt (envStep e') < stStartedAt (envStep e)" | "e = e'"
    by linarith
  then show ?thesis
    by cases (use True in \<open>auto simp: keepEarliest_def split: option.splits\<close>)
qed

lemma keepEarliest_idem: "keepEarliest e (keepEarliest e m) = keepEarliest e m"
  by (auto simp: keepEarliest_def split: option.splits)

lemma fold_keepEarliest_set:
  assumes "sameCopies (set es)" and "set es = set es'"
  shows "fold keepEarliest es = fold keepEarliest es'"
proof -
  have idem: "comp_fun_idem_on (set es) keepEarliest"
  proof
    show "keepEarliest y \<circ> keepEarliest x = keepEarliest x \<circ> keepEarliest y"
      if "x \<in> set es" and "y \<in> set es" for x y
      using assms(1) that by (intro ext) (simp add: sameCopies_def keepEarliest_commute)
  qed (simp add: fun_eq_iff keepEarliest_idem)
  show ?thesis
    using comp_fun_idem_on.fold_set_fold [OF idem, of es]
      comp_fun_idem_on.fold_set_fold [OF idem, of es'] assms(2)
    by (simp add: fun_eq_iff)
qed

text \<open>The bounds of an episode are a running minimum and maximum.\<close>

definition minStart :: "int \<Rightarrow> int \<Rightarrow> int" where
  "minStart s m = (if s > 0 \<and> (m = 0 \<or> s < m) then s else m)"

lemma fold_minStart_set:
  assumes "set xs = set ys"
  shows "fold minStart xs = fold minStart ys"
proof -
  have idem: "comp_fun_idem_on UNIV minStart"
    by unfold_locales (auto simp: fun_eq_iff minStart_def)
  show ?thesis
    using comp_fun_idem_on.fold_set_fold [OF idem, of xs]
      comp_fun_idem_on.fold_set_fold [OF idem, of ys] assms
    by (simp add: fun_eq_iff)
qed

lemma fold_max_set: "set xs = set ys \<Longrightarrow> fold max xs (b::int) = fold max ys b"
  by (metis Max.set_eq_fold list.simps(15))

text \<open>\<open>absorbAll\<close> delivers a sequence of envelopes, each at its own time, to one in-flight
  episode.\<close>

fun absorbAll :: "(Envelope \<times> time) list \<Rightarrow> inFlight \<Rightarrow> Stats \<Rightarrow> inFlight \<times> Stats" where
  "absorbAll [] f st = (f, st)"
| "absorbAll ((env, now) # ds) f st = (let (f', st') = absorb env now f st in absorbAll ds f' st')"

lemma absorb_fields:
  "spans (fst (absorb env now f st)) = putSpan (spanKey env) env (spans f)"
  "episodeID (fst (absorb env now f st)) = episodeID f"
  "key (fst (absorb env now f st)) = key f"
  "startedAt (fst (absorb env now f st)) = minStart (stStartedAt (envStep env)) (startedAt f)"
  "endedAt (fst (absorb env now f st)) = max (spanEnd (envStep env)) (endedAt f)"
  "lastSeen (fst (absorb env now f st)) = now"
  by (simp_all add: absorb_def Let_def spanKey_def minStart_def max_def)

lemma absorbAll_fields:
  "map_of (spans (fst (absorbAll ds f st))) = fold keepEarliest (map fst ds) (map_of (spans f)) \<and>
   (distinct (map fst (spans f)) \<longrightarrow> distinct (map fst (spans (fst (absorbAll ds f st))))) \<and>
   episodeID (fst (absorbAll ds f st)) = episodeID f \<and>
   startedAt (fst (absorbAll ds f st)) = fold minStart (map (\<lambda>d. stStartedAt (envStep (fst d))) ds) (startedAt f) \<and>
   endedAt (fst (absorbAll ds f st)) = fold max (map (\<lambda>d. spanEnd (envStep (fst d))) ds) (endedAt f)"
proof (induction ds arbitrary: f st)
  case Nil
  then show ?case by simp
next
  case (Cons d ds)
  obtain env now where d: "d = (env, now)" by force
  obtain f' st' where a: "absorb env now f st = (f', st')" by force
  then have f': "f' = fst (absorb env now f st)" by simp
  show ?case
    using Cons.IH [of f' st']
    by (simp add: d a) (simp add: f' absorb_fields map_of_putSpan distinct_putSpan)
qed

lemma absorbAll_steps_cong:
  assumes "set (map fst ds) = set (map fst ds')" and "sameCopies (set (map fst ds))" and "spans f = []"
  shows "orderedSteps (fst (absorbAll ds f st)) = orderedSteps (fst (absorbAll ds' f st'))"
proof -
  have "fold keepEarliest (map fst ds) = fold keepEarliest (map fst ds')"
    using assms(2,1) by (rule fold_keepEarliest_set)
  then show ?thesis
    using absorbAll_fields [of ds f st] absorbAll_fields [of ds' f st'] assms(3) by (intro orderedSteps_cong) simp_all
qed

section \<open>Example values\<close>

definition exEnv :: "string \<Rightarrow> int \<Rightarrow> Envelope" where
  "exEnv sid t = zeroEnvelope\<lparr>envSessionKey := ''s'', envSpanID := sid,
     envStep := zeroStep\<lparr>stStartedAt := t\<rparr>\<rparr>"

definition exInFlight :: inFlight where
  "exInFlight = \<lparr>key = ''s'', episodeID = ''e'', createdAt = 0, lastSeen = 0, meta = zeroMeta,
     source = ''src'', terminalAt = None, err = None, spans = [], startedAt = 0, endedAt = 0\<rparr>"

definition exLinked :: inFlight where
  "exLinked = exInFlight\<lparr>spans :=
     [(''child'', (exEnv ''child'' 2)\<lparr>envParentSpanID := ''root''\<rparr>), (''root'', exEnv ''root'' 1)]\<rparr>"

section \<open>Properties\<close>

text \<open>
  C2. Shuffle determinism of assembly. Take two delivery sequences for a fresh in-flight
  episode that contain the same set of envelopes: one may be any permutation of the other,
  with any number of redeliveries, at any times. If copies of a span with equal start times
  are identical, both give the same steps (order, indices, links and content) and the same
  start and end of the episode.
\<close>

theorem assembly_order_independent:
  assumes "set (map fst ds) = set (map fst ds')" and "sameCopies (set (map fst ds))"
    and "spans f = []"
  shows "orderedSteps (fst (absorbAll ds f st)) = orderedSteps (fst (absorbAll ds' f st')) \<and>
    startedAt (fst (absorbAll ds f st)) = startedAt (fst (absorbAll ds' f st')) \<and>
    endedAt (fst (absorbAll ds f st)) = endedAt (fst (absorbAll ds' f st'))"
proof -
  note F = absorbAll_fields [of ds f st] and F' = absorbAll_fields [of ds' f st']
  have "orderedSteps (fst (absorbAll ds f st)) = orderedSteps (fst (absorbAll ds' f st'))"
    using assms by (rule absorbAll_steps_cong)
  moreover have keys: "set (map (\<lambda>d. g (fst d)) ds) = set (map (\<lambda>d. g (fst d)) ds')" for g :: "Envelope \<Rightarrow> int"
    using arg_cong [OF assms(1), of "image g"] by (simp add: image_image)
  ultimately show ?thesis
    using F F' fold_minStart_set [OF keys [of "\<lambda>e. stStartedAt (envStep e)"]]
      fold_max_set [OF keys [of "\<lambda>e. spanEnd (envStep e)"]] by simp
qed

theorem assembly_order_independent_witness:
  "orderedSteps (fst (absorbAll [(exEnv ''a'' 5, 0), (exEnv ''b'' 3, 1)] exInFlight zeroStats)) =
   orderedSteps (fst (absorbAll [(exEnv ''b'' 3, 7), (exEnv ''a'' 5, 8), (exEnv ''b'' 3, 9)] exInFlight zeroStats))"
proof -
  have "sameCopies (set (map fst [(exEnv ''a'' 5, 0::time), (exEnv ''b'' 3, 1)]))"
    by (simp add: sameCopies_def exEnv_def spanKey_def)
  then show ?thesis
    using assembly_order_independent
      [of "[(exEnv ''a'' 5, 0), (exEnv ''b'' 3, 1)]"
          "[(exEnv ''b'' 3, 7), (exEnv ''a'' 5, 8), (exEnv ''b'' 3, 9)]" exInFlight zeroStats zeroStats]
    by (auto simp: exInFlight_def)
qed

text \<open>
  The steps of a closed episode are in canonical order: as many steps as spans, started
  times ascending, the step index of the \<open>i\<close>-th step is \<open>i\<close>, every step carries the id of its
  episode, and each parent link points to another step of the episode, namely the one whose
  span the producer named as parent.
\<close>

theorem orderedSteps_canonical:
  assumes "distinct (map fst (spans f))" and "length (spans f) < 2 ^ 31"
    and "\<forall>e \<in> snd ` set (spans f). stParentIdx (envStep e) = None"
  shows "length (orderedSteps f) = length (spans f) \<and>
    sorted (map stStartedAt (orderedSteps f)) \<and>
    (\<forall>i < length (spans f).
       stStepIdx (orderedSteps f ! i) = int i \<and>
       stEpisodeID (orderedSteps f ! i) = episodeID f \<and>
       (\<forall>q. stParentIdx (orderedSteps f ! i) = Some q \<longrightarrow>
          (\<exists>j < length (spans f). q = int j \<and> j \<noteq> i \<and>
             orderedIDs f ! j = envParentSpanID (spanAt f (orderedIDs f ! i)))))"
  using assms sorted_startedAt_orderedSteps [of f] orderedSteps_parent [OF assms]
  by (auto simp: nth_orderedSteps)

theorem orderedSteps_canonical_witness:
  "stParentIdx (orderedSteps exLinked ! 1) = Some 0 \<and> stStepIdx (orderedSteps exLinked ! 1) = 1"
proof -
  have "distinct (map fst (spans exLinked))" and "length (spans exLinked) < 2 ^ 31"
    and "\<forall>e \<in> snd ` set (spans exLinked). stParentIdx (envStep e) = None"
    by (simp_all add: exLinked_def exInFlight_def exEnv_def zeroStep_def)
  note C = orderedSteps_canonical [OF this]
  have "stParentIdx (orderedSteps exLinked ! 1) = Some 0"
    by (code_simp)
  moreover have "stStepIdx (orderedSteps exLinked ! 1) = int 1"
    using C by (simp add: exLinked_def)
  ultimately show ?thesis by simp
qed

text \<open>
  Each fidelity flag is true exactly when the episode has a step of the flag's kind and
  every such step carries the field.
\<close>

theorem fidelityOf_spec:
  "fidelityOf steps =
    \<lparr>HasParams = (llmSteps steps \<noteq> {} \<and> (\<forall>s \<in> llmSteps steps. stParams s \<noteq> None)),
     HasTokenSpans = (llmSteps steps \<noteq> {} \<and> (\<forall>s \<in> llmSteps steps. stTokenSpans s \<noteq> [])),
     HasToolVersions = (toolSteps steps \<noteq> {} \<and> (\<forall>s \<in> toolSteps steps. stToolVersion s \<noteq> None))\<rparr>"
  by (auto simp: fidelityOf_def fold_fidelityStep Let_def)

theorem fidelityOf_spec_witness:
  "\<not> HasParams (fidelityOf [zeroStep\<lparr>stKind := KindLLM\<rparr>]) \<and>
   HasToolVersions (fidelityOf [zeroStep\<lparr>stKind := KindTool, stToolVersion := Some ''v1''\<rparr>])"
  by (auto simp: fidelityOf_spec zeroStep_def)

text \<open>
  Episode metadata, unlike the steps, does depend on arrival order: there are two
  envelopes of one session that give episodes with different task types when delivered in
  the two possible orders. The first non-empty value to arrive is kept.
\<close>

theorem assembly_metadata_depends_on_arrival:
  "\<exists>e1 e2. sameCopies {e1, e2} \<and>
     mtTaskType (meta (fst (absorbAll [(e1, 0), (e2, 1)] exInFlight zeroStats))) = ''refund'' \<and>
     mtTaskType (meta (fst (absorbAll [(e2, 0), (e1, 1)] exInFlight zeroStats))) = ''triage''"
proof (intro exI conjI)
  let ?e1 = "(exEnv ''a'' 5)\<lparr>envMeta := zeroMeta\<lparr>mtTaskType := ''refund''\<rparr>\<rparr>"
  let ?e2 = "(exEnv ''b'' 3)\<lparr>envMeta := zeroMeta\<lparr>mtTaskType := ''triage''\<rparr>\<rparr>"
  show "sameCopies {?e1, ?e2}"
    by (auto simp: sameCopies_def exEnv_def spanKey_def)
  show "mtTaskType (meta (fst (absorbAll [(?e1, 0), (?e2, 1)] exInFlight zeroStats))) = ''refund''"
    and "mtTaskType (meta (fst (absorbAll [(?e2, 0), (?e1, 1)] exInFlight zeroStats))) = ''triage''"
    by (simp_all add: absorb_def Let_def absorbMeta_def exInFlight_def zeroMeta_def)
qed

text \<open>
  A parent index supplied by the producer survives when the parent span never arrived: the
  step does not become a root, its link is dangling.
\<close>

theorem orderedSteps_keeps_dangling_parent:
  "orderedSteps (exInFlight\<lparr>spans :=
      [(''e#1'', (exEnv ''e#1'' 2)\<lparr>envParentSpanID := ''e#7'',
          envStep := zeroStep\<lparr>stParentIdx := Some 7\<rparr>\<rparr>)]\<rparr>) =
    [zeroStep\<lparr>stEpisodeID := ''e'', stStepIdx := 0, stParentIdx := Some 7\<rparr>]"
  by (simp add: orderedSteps_def orderedIDs_def linkStep_def spanIndex_def spanAt_def goget_def
      exInFlight_def zeroStep_def Let_def)

end
