(* ===== verification/Assembly_Inv.thy ===== *)
theory Assembly_Inv
  imports Assembly_Order
begin

text \<open>
  The assembler as a state machine: the well-formedness invariant that every operation keeps,
  the bounds on everything it remembers, and the conservation of spans (nothing lost, nothing
  emitted twice) over any interleaving of ingest, expiry and flush.
\<close>

section \<open>Which fields the small operations touch\<close>

lemma readNow_frame [simp]:
  "opts (snd (readNow a)) = opts a" "openEps (snd (readNow a)) = openEps a"
  "order (snd (readNow a)) = order a" "nextHandle (snd (readNow a)) = nextHandle a"
  "emitted (snd (readNow a)) = emitted a" "emittedFIFO (snd (readNow a)) = emittedFIFO a"
  "patchIdx (snd (readNow a)) = patchIdx a" "emittedSpans (snd (readNow a)) = emittedSpans a"
  "stats (snd (readNow a)) = stats a"
  by (simp_all add: readNow_def)

lemma readID_frame [simp]:
  "opts (snd (readID a)) = opts a" "openEps (snd (readID a)) = openEps a"
  "order (snd (readID a)) = order a" "nextHandle (snd (readID a)) = nextHandle a"
  "emitted (snd (readID a)) = emitted a" "emittedFIFO (snd (readID a)) = emittedFIFO a"
  "patchIdx (snd (readID a)) = patchIdx a" "emittedSpans (snd (readID a)) = emittedSpans a"
  "stats (snd (readID a)) = stats a"
  by (simp_all add: readID_def)

lemma markEmittedSpan_frame [simp]:
  "opts (markEmittedSpan s x a) = opts a" "openEps (markEmittedSpan s x a) = openEps a"
  "order (markEmittedSpan s x a) = order a" "nextHandle (markEmittedSpan s x a) = nextHandle a"
  "emitted (markEmittedSpan s x a) = emitted a" "emittedFIFO (markEmittedSpan s x a) = emittedFIFO a"
  "patchIdx (markEmittedSpan s x a) = patchIdx a" "stats (markEmittedSpan s x a) = stats a"
  by (simp_all add: markEmittedSpan_def)

lemma markEmittedSpans_frame [simp]:
  fixes xs s a
  defines "b \<equiv> fold (markEmittedSpan s) xs a"
  shows "opts b = opts a" "openEps b = openEps a" "order b = order a" "nextHandle b = nextHandle a"
    "emitted b = emitted a" "emittedFIFO b = emittedFIFO a" "patchIdx b = patchIdx a" "stats b = stats a"
  unfolding b_def by (induction xs arbitrary: a) simp_all

lemma wasEmitted_mark [simp]:
  "wasEmitted (markEmittedSpan s x a) s' x' \<longleftrightarrow> (s = s' \<and> x = x') \<or> wasEmitted a s' x'"
  by (auto simp: wasEmitted_def markEmittedSpan_def split: option.splits)

lemma wasEmitted_marks [simp]:
  "wasEmitted (fold (markEmittedSpan s) xs a) s' x' \<longleftrightarrow> (s = s' \<and> x' \<in> set xs) \<or> wasEmitted a s' x'"
  by (induction xs arbitrary: a) auto

lemma dom_emittedSpans_mark [simp]:
  "dom (emittedSpans (markEmittedSpan s x a)) = insert s (dom (emittedSpans a))"
  by (simp add: markEmittedSpan_def)

lemma dom_emittedSpans_marks:
  "dom (emittedSpans (fold (markEmittedSpan s) xs a)) \<subseteq> insert s (dom (emittedSpans a))"
proof (induction xs arbitrary: a)
  case (Cons x xs)
  then show ?case using Cons [of "markEmittedSpan s x a"] by simp
qed auto

lemma forgetEmitted_frame [simp]:
  "opts (forgetEmitted a) = opts a" "openEps (forgetEmitted a) = openEps a"
  "order (forgetEmitted a) = order a" "nextHandle (forgetEmitted a) = nextHandle a"
  "stats (forgetEmitted a) = stats a"
  by (induction a rule: forgetEmitted.induct; subst forgetEmitted.simps;
      simp split: list.splits option.splits)+

lemma rememberEmitted_frame [simp]:
  "opts (rememberEmitted k e a) = opts a" "openEps (rememberEmitted k e a) = openEps a"
  "order (rememberEmitted k e a) = order a" "nextHandle (rememberEmitted k e a) = nextHandle a"
  "stats (rememberEmitted k e a) = stats a"
  by (simp_all add: rememberEmitted_def Let_def)

lemma removeOpen_frame [simp]:
  "opts (removeOpen f a) = opts a" "nextHandle (removeOpen f a) = nextHandle a"
  "emitted (removeOpen f a) = emitted a" "emittedFIFO (removeOpen f a) = emittedFIFO a"
  "patchIdx (removeOpen f a) = patchIdx a" "emittedSpans (removeOpen f a) = emittedSpans a"
  "stats (removeOpen f a) = stats a"
  by (simp_all add: removeOpen_def split: option.splits)

section \<open>The memory of closed sessions\<close>

text \<open>\<open>memInv\<close>: the FIFO lists exactly the remembered sessions, each once, and the other two tables
  hold nothing for a session or an episode that is not remembered.\<close>

definition memInv :: "Assembler \<Rightarrow> bool" where
  "memInv a \<longleftrightarrow> distinct (emittedFIFO a) \<and> set (emittedFIFO a) = dom (emitted a) \<and>
     dom (emittedSpans a) \<subseteq> dom (emitted a) \<and> dom (patchIdx a) \<subseteq> ran (emitted a)"

lemma memInv_pop:
  assumes "memInv a" and "emittedFIFO a = oldest # rest" and "emitted a oldest = Some e"
  shows "memInv (a\<lparr>emittedFIFO := rest, emitted := (emitted a)(oldest := None),
    patchIdx := (patchIdx a)(e := None), emittedSpans := (emittedSpans a)(oldest := None)\<rparr>)"
proof -
  have "dom ((patchIdx a)(e := None)) \<subseteq> ran ((emitted a)(oldest := None))"
  proof
    fix x assume "x \<in> dom ((patchIdx a)(e := None))"
    then have "x \<noteq> e" and "x \<in> dom (patchIdx a)" by (auto split: if_splits)
    then obtain k where k: "emitted a k = Some x" using assms(1) by (auto simp: memInv_def ran_def)
    then have "k \<noteq> oldest" using assms(3) \<open>x \<noteq> e\<close> by auto
    then show "x \<in> ran ((emitted a)(oldest := None))" using k by (auto simp: ran_def)
  qed
  moreover have "set rest = dom (emitted a) - {oldest}" and "distinct rest"
    using assms(1,2) by (auto simp: memInv_def)
  ultimately show ?thesis using assms(1) by (auto simp: memInv_def)
qed

lemma forgetEmitted_spec:
  assumes "memInv a" and "0 < PatchMemory (opts a)"
  shows "memInv (forgetEmitted a) \<and>
    emittedFIFO (forgetEmitted a) = drop (length (emittedFIFO a) - nat (PatchMemory (opts a))) (emittedFIFO a) \<and>
    emitted (forgetEmitted a) = emitted a |` set (emittedFIFO (forgetEmitted a)) \<and>
    emittedSpans (forgetEmitted a) = emittedSpans a |` set (emittedFIFO (forgetEmitted a))"
  using assms
proof (induction a rule: forgetEmitted.induct)
  case (1 a)
  show ?case
  proof (cases "int (length (emittedFIFO a)) > PatchMemory (opts a)")
    case False
    have "emitted a |` dom (emitted a) = emitted a" and "emittedSpans a |` dom (emitted a) = emittedSpans a"
      using "1.prems" by (simp_all add: memInv_def restrict_map_all)
    moreover have "forgetEmitted a = a"
      using False by (cases "emittedFIFO a") (simp_all add: forgetEmitted.simps [of a])
    ultimately show ?thesis
      using False "1.prems" by (simp add: memInv_def)
  next
    case True
    then obtain oldest rest where fifo: "emittedFIFO a = oldest # rest"
      using "1.prems"(2) by (cases "emittedFIFO a") auto
    have "set (oldest # rest) = dom (emitted a)"
      using "1.prems"(1) unfolding memInv_def fifo by (elim conjE)
    then obtain e where e: "emitted a oldest = Some e" by auto
    define b where "b = a\<lparr>emittedFIFO := rest, emitted := (emitted a)(oldest := None),
      patchIdx := (patchIdx a)(e := None), emittedSpans := (emittedSpans a)(oldest := None)\<rparr>"
    have fields: "opts b = opts a" "emittedFIFO b = rest" "emitted b = (emitted a)(oldest := None)"
      "emittedSpans b = (emittedSpans a)(oldest := None)"
      by (simp_all add: b_def)
    have step: "forgetEmitted a = forgetEmitted b"
      using True fifo e by (subst forgetEmitted.simps) (simp add: b_def)
    have inv: "memInv b" unfolding b_def using "1.prems"(1) fifo e by (rule memInv_pop)
    note IH = "1.IH" [OF fifo True, unfolded e option.case, folded b_def, OF inv,
        unfolded fields, OF "1.prems"(2)]
    have "oldest \<notin> set rest" using "1.prems"(1) fifo by (auto simp: memInv_def)
    then have new: "oldest \<notin> set (emittedFIFO (forgetEmitted b))"
      using IH by (metis in_set_dropD)
    have "drop (length (emittedFIFO a) - nat (PatchMemory (opts a))) (emittedFIFO a) =
        drop (length rest - nat (PatchMemory (opts a))) rest"
      using True fifo "1.prems"(2) by (auto simp: Suc_diff_le)
    moreover have "m(oldest := None) |` set (emittedFIFO (forgetEmitted b)) = m |` set (emittedFIFO (forgetEmitted b))"
      for m :: "string \<rightharpoonup> 'v"
      using new by (auto simp: restrict_map_def fun_eq_iff)
    ultimately show ?thesis
      unfolding step using IH by metis
  qed
qed

lemma rememberEmitted_spec:
  fixes e k a
  assumes "memInv a" and "0 < PatchMemory (opts a)" and "emitted a k = None"
  defines "b \<equiv> rememberEmitted k e a"
  shows "memInv b" and "int (length (emittedFIFO b)) \<le> PatchMemory (opts a)"
    and "emitted b k = Some e" and "emitted b \<subseteq>\<^sub>m (emitted a)(k \<mapsto> e)"
    and "emittedSpans b \<subseteq>\<^sub>m emittedSpans a"
proof -
  let ?c = "a\<lparr>emittedFIFO := emittedFIFO a @ [k], emitted := (emitted a)(k \<mapsto> e)\<rparr>"
  have b: "b = forgetEmitted ?c"
    using assms(3) by (simp add: b_def rememberEmitted_def)
  have c: "memInv ?c"
    using assms(1,3) by (auto simp: memInv_def ran_map_upd)
  have p: "0 < PatchMemory (opts ?c)" using assms(2) by simp
  note S = forgetEmitted_spec [OF c p, folded b]
  then show "memInv b" by simp
  show "int (length (emittedFIFO b)) \<le> PatchMemory (opts a)"
    using S assms(2) by simp
  have "k \<in> set (emittedFIFO b)"
    using S assms(2) by (simp add: drop_append)
  then show "emitted b k = Some e" using S by simp
  show "emitted b \<subseteq>\<^sub>m (emitted a)(k \<mapsto> e)" and "emittedSpans b \<subseteq>\<^sub>m emittedSpans a"
    using S by (auto simp: map_le_def restrict_map_def split: if_splits)
qed

section \<open>The invariant\<close>

definition openInv :: "Assembler \<Rightarrow> bool" where
  "openInv a \<longleftrightarrow> distinct (map fst (order a)) \<and> (\<forall>h \<in> fst ` set (order a). h < nextHandle a) \<and>
     (\<forall>k h. openEps a k = Some h \<longleftrightarrow> (\<exists>f. (h, f) \<in> set (order a) \<and> key f = k)) \<and>
     (\<forall>f \<in> snd ` set (order a). distinct (map fst (spans f)))"

definition asmInv :: "Assembler \<Rightarrow> bool" where
  "asmInv a \<longleftrightarrow> openInv a \<and> memInv a \<and>
     0 < MaxInFlight (opts a) \<and> 0 < PatchMemory (opts a) \<and>
     int (length (order a)) \<le> MaxInFlight (opts a) \<and>
     int (length (emittedFIFO a)) \<le> PatchMemory (opts a) \<and>
     dom (openEps a) \<inter> dom (emitted a) = {}"

text \<open>Spans held open, and steps handed on.\<close>

definition openSpans :: "Assembler \<Rightarrow> nat" where
  "openSpans a = sum_list (map (\<lambda>p. length (spans (snd p))) (order a))"

definition stepsOut :: "Assembled list \<Rightarrow> nat" where
  "stepsOut outs = sum_list (map (\<lambda>x. length (asSteps x)) outs)"

lemma stepsOut_simps [simp]:
  "stepsOut [] = 0" "stepsOut (x # xs) = length (asSteps x) + stepsOut xs"
  "stepsOut (xs @ ys) = stepsOut xs + stepsOut ys"
  by (simp_all add: stepsOut_def)

lemma openInv_lookup:
  "openInv a \<Longrightarrow> (h, f) \<in> set (order a) \<Longrightarrow> openEps a (key f) = Some h \<and> map_of (order a) h = Some f"
  by (auto simp: openInv_def intro: map_of_is_SomeI)

lemma removeOpen_order:
  assumes "openInv a" and "(h, f) \<in> set (order a)"
  shows "order (removeOpen f a) = AList.delete h (order a)"
    and "openEps (removeOpen f a) = (openEps a)(key f := None)"
  using openInv_lookup [OF assms] by (simp_all add: removeOpen_def)

lemma openInv_delete:
  assumes "openInv a" and "(h, f) \<in> set (order a)"
    and "order b = AList.delete h (order a)" and "openEps b = (openEps a)(key f := None)"
    and "nextHandle b = nextHandle a"
  shows "openInv b"
proof -
  have d: "distinct (map fst (order a))" using assms(1) by (simp add: openInv_def)
  have set_b: "set (order b) = {p \<in> set (order a). fst p \<noteq> h}"
    by (auto simp: assms(3) AList.delete_eq)
  have lk: "openEps a (key g) = Some h' \<and> map_of (order a) h' = Some g" if "(h', g) \<in> set (order a)" for h' g
    using openInv_lookup [OF assms(1) that] .
  have "openEps b k = Some h' \<longleftrightarrow> (\<exists>g. (h', g) \<in> set (order b) \<and> key g = k)" for k h'
    using assms(1,2) lk unfolding assms(4) set_b openInv_def
    by (auto simp: ) (metis (no_types, lifting) lk option.inject)+
  moreover have "distinct (map fst (order b))"
    using d unfolding assms(3) by (simp add: distinct_delete)
  ultimately show ?thesis
    using assms(1,5) set_b by (auto simp: openInv_def)
qed

section \<open>Closing keeps the invariant\<close>

lemma closeLocked_frame [simp]:
  "opts (snd (closeLocked f s a)) = opts a" "nextHandle (snd (closeLocked f s a)) = nextHandle a"
  "stats (snd (closeLocked f s a)) = stats a"
  "order (snd (closeLocked f s a)) = order (removeOpen f a)"
  "openEps (snd (closeLocked f s a)) = openEps (removeOpen f a)"
  by (simp_all add: closeLocked_def Let_def split_beta)

lemma closeLocked_out [simp]:
  "asSteps (fst (closeLocked f s a)) = orderedSteps f"
  "epStatus (asEpisode (fst (closeLocked f s a))) = s"
  "epEpisodeID (asEpisode (fst (closeLocked f s a))) = episodeID f"
  by (simp_all add: closeLocked_def closedEpisode_def Let_def split_beta)

lemma closeLocked_emitted:
  "emitted (snd (closeLocked f s a)) = emitted (rememberEmitted (key f) (episodeID f) (removeOpen f a))"
  "emittedFIFO (snd (closeLocked f s a)) = emittedFIFO (rememberEmitted (key f) (episodeID f) (removeOpen f a))"
  "patchIdx (snd (closeLocked f s a)) = patchIdx (rememberEmitted (key f) (episodeID f) (removeOpen f a))"
  "emittedSpans (snd (closeLocked f s a)) =
    emittedSpans (fold (markEmittedSpan (key f)) (map fst (spans f))
      (rememberEmitted (key f) (episodeID f) (removeOpen f a)))"
  by (simp_all add: closeLocked_def Let_def split_beta)

lemma asmInv_not_emitted:
  assumes "asmInv a" and "(h, f) \<in> set (order a)"
  shows "emitted a (key f) = None"
proof -
  have "key f \<in> dom (openEps a)"
    using assms openInv_lookup [of a h f] by (auto simp: asmInv_def)
  then show ?thesis using assms(1) by (auto simp: asmInv_def)
qed

lemma closeLocked_inv [inv_keep]:
  assumes "asmInv a" and "(h, f) \<in> set (order a)"
  shows "asmInv (snd (closeLocked f s a))"
    and "order (snd (closeLocked f s a)) = AList.delete h (order a)"
    and "openEps (snd (closeLocked f s a)) = (openEps a)(key f := None)"
    and "emitted (snd (closeLocked f s a)) (key f) = Some (episodeID f)"
    and "emitted (snd (closeLocked f s a)) \<subseteq>\<^sub>m (emitted a)(key f \<mapsto> episodeID f)"
    and "sid \<in> fst ` set (spans f) \<Longrightarrow> wasEmitted (snd (closeLocked f s a)) (key f) sid"
proof -
  let ?b = "snd (closeLocked f s a)" and ?r = "rememberEmitted (key f) (episodeID f) (removeOpen f a)"
  have oi: "openInv a" using assms(1) by (simp add: asmInv_def)
  show ord: "order ?b = AList.delete h (order a)" and opn: "openEps ?b = (openEps a)(key f := None)"
    using removeOpen_order [OF oi assms(2)] by simp_all
  have m: "memInv (removeOpen f a)" and p: "0 < PatchMemory (opts (removeOpen f a))"
    and e: "emitted (removeOpen f a) (key f) = None"
    using assms asmInv_not_emitted [OF assms] by (simp_all add: asmInv_def memInv_def)
  note R = rememberEmitted_spec [OF m p e, of "episodeID f"]
  show em: "emitted ?b (key f) = Some (episodeID f)"
    and le: "emitted ?b \<subseteq>\<^sub>m (emitted a)(key f \<mapsto> episodeID f)"
    using R(3,4) by (simp_all add: closeLocked_emitted)
  have "wasEmitted ?b (key f) sid \<longleftrightarrow> sid \<in> set (map fst (spans f)) \<or> wasEmitted ?r (key f) sid"
    unfolding wasEmitted_def closeLocked_emitted using wasEmitted_marks [of "key f" "map fst (spans f)" ?r "key f" sid]
    by (simp add: wasEmitted_def)
  then show "sid \<in> fst ` set (spans f) \<Longrightarrow> wasEmitted ?b (key f) sid" by simp
  have "memInv ?b"
    using R(1) em dom_emittedSpans_marks [of "key f" "map fst (spans f)" ?r]
    unfolding memInv_def closeLocked_emitted by blast
  moreover have "openInv ?b" using oi assms(2) ord opn by (rule openInv_delete) simp
  moreover have "dom (openEps ?b) \<inter> dom (emitted ?b) = {}"
    using assms(1) opn map_le_implies_dom_le [OF le] by (auto simp: asmInv_def split: if_splits)
  moreover have "length (order ?b) \<le> length (order a)"
    by (simp only: ord AList.length_delete_le)
  ultimately show "asmInv ?b"
    using assms(1) R(2) by (simp add: asmInv_def closeLocked_emitted)
qed

text \<open>
  \<open>closing a outs a'\<close>: some open episodes of \<open>a\<close> were closed and emitted as \<open>outs\<close>, nothing
  else happened to the open ones. Expiry, eviction and flush are all of this form.
\<close>

definition closing :: "Assembler \<Rightarrow> Assembled list \<Rightarrow> Assembler \<Rightarrow> bool" where
  "closing a outs a' \<longleftrightarrow> asmInv a' \<and> opts a' = opts a \<and> set (order a') \<subseteq> set (order a) \<and>
     length (order a') + length outs = length (order a) \<and>
     openSpans a' + stepsOut outs = openSpans a \<and>
     Duplicates (stats a') = Duplicates (stats a) \<and> Patched (stats a') = Patched (stats a) \<and>
     (\<forall>k. openEps a k = None \<longrightarrow> openEps a' k = None \<and> (emitted a k = None \<longrightarrow> emitted a' k = None))"

lemma closing_refl: "asmInv a \<Longrightarrow> closing a [] a"
  by (simp add: closing_def)

lemma closing_trans: "closing a xs b \<Longrightarrow> closing b ys c \<Longrightarrow> closing a (xs @ ys) c"
  unfolding closing_def by auto

lemma closing_close:
  assumes "asmInv a" and "(h, f) \<in> set (order a)"
  shows "closing a [fst (closeLocked f s a)] (snd (closeLocked f s a))"
proof -
  have d: "distinct (map fst (order a))" using assms(1) by (simp add: asmInv_def openInv_def)
  note C = closeLocked_inv [OF assms, of s]
  have "openSpans (snd (closeLocked f s a)) + length (spans f) = openSpans a"
    using sum_list_delete [OF d assms(2), of "\<lambda>p. length (spans (snd p))"] C(2)
    by (simp add: openSpans_def)
  moreover have "h \<in> fst ` set (order a)" using assms(2) by force
  then have "Suc (length (AList.delete h (order a))) = length (order a)"
    using d by (intro length_delete_in)
  moreover have "emitted (snd (closeLocked f s a)) k = None" if "emitted a k = None" "openEps a k = None" for k
  proof -
    have "k \<noteq> key f" using that(2) openInv_lookup [of a h f] assms by (auto simp: asmInv_def)
    then have "k \<notin> dom ((emitted a)(key f \<mapsto> episodeID f))" using that(1) by auto
    then show ?thesis using map_le_implies_dom_le [OF C(5)] by blast
  qed
  ultimately show ?thesis
    using C(1,2,3) by (auto simp: closing_def AList.delete_eq)
qed

lemma asmInv_stats [simp]: "asmInv (a\<lparr>stats := st\<rparr>) = asmInv a"
  by (simp add: asmInv_def openInv_def memInv_def)

lemma openSpans_stats [simp]: "openSpans (a\<lparr>stats := st\<rparr>) = openSpans a"
  by (simp add: openSpans_def)

lemma closing_stats:
  assumes "closing a outs b" and "Duplicates st = Duplicates (stats b)" and "Patched st = Patched (stats b)"
  shows "closing a outs (b\<lparr>stats := st\<rparr>)"
  using assms by (simp add: closing_def)

section \<open>Expiry, eviction and flush\<close>

lemma expireOne_closing:
  assumes "asmInv a" and "(h, f) \<in> set (order a)"
  shows "closing a (fst (expireOne now f a)) (snd (expireOne now f a))"
    and "order (snd (expireOne now f a)) =
      (if settled (opts a) now f \<or> idle (opts a) now f then AList.delete h (order a) else order a)"
  using closing_close [OF assms] closing_refl [OF assms(1)] closeLocked_inv(2) [OF assms]
  by (auto simp: expireOne_def Let_def split_beta intro!: closing_stats simp del: closeLocked_frame(4))

text \<open>The scan closes exactly the due episodes and leaves the others in place.\<close>

definition due :: "Options \<Rightarrow> time \<Rightarrow> inFlight \<Rightarrow> bool" where
  "due o0 now f \<longleftrightarrow> settled o0 now f \<or> idle o0 now f"

lemma expireScan_closing:
  assumes "asmInv a" and "set ps \<subseteq> set (order a)" and "distinct (map fst ps)"
  shows "closing a (fst (expireScan now (map snd ps) a)) (snd (expireScan now (map snd ps) a)) \<and>
    order (snd (expireScan now (map snd ps) a)) =
      filter (\<lambda>p. p \<in> set ps \<longrightarrow> \<not> due (opts a) now (snd p)) (order a)"
  using assms
proof (induction ps arbitrary: a)
  case Nil
  then show ?case by (simp add: closing_refl)
next
  case (Cons p ps)
  obtain h f where p: "p = (h, f)" by force
  let ?b = "snd (expireOne now f a)"
  have hf: "(h, f) \<in> set (order a)" using Cons.prems(2) p by simp
  note E = expireOne_closing [OF Cons.prems(1) hf, of now]
  have b: "asmInv ?b" "opts ?b = opts a" using E(1) by (simp_all add: closing_def)
  have d: "distinct (map fst (order a))" using Cons.prems(1) by (simp add: asmInv_def openInv_def)
  have same: "p' = (h, f)" if "p' \<in> set (order a)" "fst p' = h" for p'
    using d hf that by (metis eq_key_imp_eq_value prod.collapse)
  have "h \<notin> fst ` set ps" using Cons.prems(3) p by simp
  then have nh: "(h, g) \<notin> set ps" for g by force
  then have "set ps \<subseteq> set (order ?b)"
    using Cons.prems(2) E(2) by (auto simp: AList.delete_eq)
  then have IH: "closing ?b (fst (expireScan now (map snd ps) ?b)) (snd (expireScan now (map snd ps) ?b)) \<and>
      order (snd (expireScan now (map snd ps) ?b)) =
        filter (\<lambda>p. p \<in> set ps \<longrightarrow> \<not> due (opts a) now (snd p)) (order ?b)"
    using Cons.IH [of ?b] b Cons.prems(3) by simp
  have "filter (\<lambda>p. p \<in> set ps \<longrightarrow> \<not> due (opts a) now (snd p)) (order ?b) =
      filter (\<lambda>p'. p' \<in> set (p # ps) \<longrightarrow> \<not> due (opts a) now (snd p')) (order a)"
    unfolding E(2) p AList.delete_eq
    using same nh
    by (auto simp: filter_filter due_def [symmetric] intro!: filter_cong)
  then show ?case
    using IH E(1) closing_trans by (auto simp: p Let_def split_beta)
qed

lemma expireLocked_closing:
  assumes "asmInv a"
  shows "closing a (fst (expireLocked a)) (snd (expireLocked a)) \<and>
    order (snd (expireLocked a)) = filter (\<lambda>p. \<not> due (opts a) (Now (opts a) (nowCalls a)) (snd p)) (order a)"
proof -
  let ?b = "snd (readNow a)"
  have inv: "asmInv ?b" using assms by (simp add: asmInv_def openInv_def memInv_def)
  have cl: "closing ?b x y \<Longrightarrow> closing a x y" for x y
    by (simp add: closing_def openSpans_def)
  have "distinct (map fst (order ?b))" using assms by (simp add: asmInv_def openInv_def)
  then have "closing ?b (fst (expireScan now (map snd (order ?b)) ?b)) (snd (expireScan now (map snd (order ?b)) ?b)) \<and>
    order (snd (expireScan now (map snd (order ?b)) ?b)) =
      filter (\<lambda>p. p \<in> set (order ?b) \<longrightarrow> \<not> due (opts ?b) now (snd p)) (order ?b)" for now
    using expireScan_closing [OF inv, of "order ?b" now] by simp
  then show ?thesis
    using cl by (auto simp: expireLocked_def readNow_def Let_def split_beta cong: filter_cong)
qed

lemma makeRoom_closing:
  assumes "asmInv a"
  shows "closing a (fst (makeRoom a)) (snd (makeRoom a)) \<and>
    int (length (order (snd (makeRoom a)))) < MaxInFlight (opts a)"
proof (cases "int (length (order a)) \<ge> MaxInFlight (opts a)")
  case False
  then show ?thesis using assms by (simp add: makeRoom_def closing_refl)
next
  case True
  moreover have "0 < MaxInFlight (opts a)" and "int (length (order a)) \<le> MaxInFlight (opts a)"
    using assms by (simp_all add: asmInv_def)
  ultimately obtain h f rest where ord: "order a = (h, f) # rest" by (cases "order a") auto
  then have hf: "(h, f) \<in> set (order a)" by simp
  let ?r = "makeRoom a"
  have r: "?r = ([fst (closeLocked f StatusEvicted a)],
      (snd (closeLocked f StatusEvicted a))\<lparr>stats := (stats a)\<lparr>Evicted := Evicted (stats a) + 1\<rparr>\<rparr>)"
    using True ord by (simp add: makeRoom_def Let_def split_beta)
  have "closing a (fst ?r) (snd ?r)"
    unfolding r fst_conv snd_conv using closing_close [OF assms hf] by (rule closing_stats) simp_all
  then show ?thesis
    using \<open>int (length (order a)) \<le> MaxInFlight (opts a)\<close> by (auto simp: closing_def r)
qed

text \<open>The fuel of \<open>Flush\<close> is one more than the number of open episodes, and each turn closes one.\<close>

lemma flushLoop_enough:
  assumes "asmInv a" and "length (order a) < fuel"
  shows "\<exists>outs a'. flushLoop fuel fb a = Some (outs, a') \<and> closing a outs a' \<and> order a' = [] \<and>
    (\<forall>x \<in> set outs. epStatus (asEpisode x) \<in> {StatusComplete, fb})"
  using assms
proof (induction fuel arbitrary: a)
  case 0
  then show ?case by simp
next
  case (Suc fuel)
  show ?case
  proof (cases "order a")
    case Nil
    then show ?thesis using Suc.prems closing_refl by simp
  next
    case (Cons p rest)
    obtain h f where p: "p = (h, f)" by force
    let ?c = "closeLocked f (flushStatus fb f) a"
    have hf: "(h, f) \<in> set (order a)" using Cons p by simp
    have cl: "closing a [fst ?c] (snd ?c)" using Suc.prems(1) hf by (rule closing_close)
    then have "asmInv (snd ?c)" and "length (order (snd ?c)) < fuel"
      using Suc.prems(2) by (auto simp: closing_def)
    from Suc.IH [OF this] obtain outs a' where IH: "flushLoop fuel fb (snd ?c) = Some (outs, a')"
      "closing (snd ?c) outs a'" "order a' = []" "\<forall>x \<in> set outs. epStatus (asEpisode x) \<in> {StatusComplete, fb}"
      by blast
    have "flushLoop (Suc fuel) fb a = Some (fst ?c # outs, a')"
      using Cons p IH(1) by (simp add: Let_def split_beta)
    then show ?thesis
      using closing_trans [OF cl IH(2)] IH(3,4) by (auto simp: flushStatus_def)
  qed
qed

section \<open>Ingest\<close>

text \<open>\<open>accounted a outs a'\<close>: between \<open>a\<close> and \<open>a'\<close> one envelope came in and \<open>outs\<close> went out, and the
  envelope is held open, emitted, or counted as a duplicate.\<close>

definition accounted :: "Assembler \<Rightarrow> Assembled list \<Rightarrow> Assembler \<Rightarrow> bool" where
  "accounted a outs a' \<longleftrightarrow>
     int (openSpans a') + int (stepsOut outs) + Duplicates (stats a') =
     int (openSpans a) + Duplicates (stats a) + 1"

lemma accounted_closing:
  "accounted a [] b \<Longrightarrow> closing b outs c \<Longrightarrow> accounted a outs c"
  by (auto simp: accounted_def closing_def)

lemma closing_accounted:
  "closing a xs b \<Longrightarrow> accounted b ys c \<Longrightarrow> accounted a (xs @ ys) c"
  by (auto simp: accounted_def closing_def)

lemma absorb_Duplicates:
  "Duplicates (snd (absorb env now f st)) =
    Duplicates st + (if spanKey env \<in> fst ` set (spans f) then 1 else 0)"
  by (simp add: absorb_def Let_def spanKey_def)

lemma openInv_update:
  assumes "openInv a" and "map_of (order a) h = Some f" and "key f' = key f"
    and "distinct (map fst (spans f'))"
    and "order b = AList.update h f' (order a)" and "openEps b = openEps a" and "nextHandle b = nextHandle a"
  shows "openInv b"
proof -
  have d: "distinct (map fst (order a))" using assms(1) by (simp add: openInv_def)
  have mem: "(h, f) \<in> set (order a)" using assms(2) by (rule map_of_SomeD)
  then have "map fst (order b) = map fst (order a)"
    unfolding assms(5) by (intro map_fst_update_in) force
  moreover have set_b: "set (order b) = insert (h, f') {p \<in> set (order a). fst p \<noteq> h}"
    unfolding assms(5) by (rule set_update_distinct [OF d])
  moreover have "(\<exists>g. (h', g) \<in> set (order b) \<and> key g = k) \<longleftrightarrow> (\<exists>g. (h', g) \<in> set (order a) \<and> key g = k)" for k h'
    using mem d assms(3) unfolding set_b by (auto dest: eq_key_imp_eq_value [OF d])
  moreover have "fst ` set (order b) = fst ` set (order a)"
    using calculation(1) by (metis set_map)
  moreover have "\<forall>g \<in> snd ` set (order b). distinct (map fst (spans g))"
    using assms(1,4) unfolding set_b openInv_def by auto
  ultimately show ?thesis
    using assms(1,6,7) unfolding openInv_def by simp
qed

lemma absorbAt_inv [inv_keep]:
  assumes "asmInv a" and "map_of (order a) h = Some f"
  shows "asmInv (absorbAt h env a)" and "accounted a [] (absorbAt h env a)"
    and "opts (absorbAt h env a) = opts a"
proof -
  obtain f' st' where ab: "absorb env (Now (opts a) (nowCalls a)) f (stats a) = (f', st')" by force
  then have f': "f' = fst (absorb env (Now (opts a) (nowCalls a)) f (stats a))"
    and st': "st' = snd (absorb env (Now (opts a) (nowCalls a)) f (stats a))" by simp_all
  let ?b = "absorbAt h env a"
  have b: "?b = a\<lparr>nowCalls := Suc (nowCalls a), order := AList.update h f' (order a), stats := st'\<rparr>"
    using assms(2) ab by (simp add: absorbAt_def readNow_def)
  have mem: "(h, f) \<in> set (order a)" using assms(2) by (rule map_of_SomeD)
  have oi: "openInv a" and d: "distinct (map fst (order a))" and df: "distinct (map fst (spans f))"
    using assms(1) mem by (force simp: asmInv_def openInv_def)+
  have "openInv ?b"
    using oi assms(2) by (rule openInv_update) (simp_all add: b f' absorb_fields distinct_putSpan df)
  moreover have "h \<in> fst ` set (order a)" using mem by force
  ultimately show "asmInv ?b"
    using assms(1) by (simp add: asmInv_def b memInv_def length_update_in)
  have "openSpans ?b + length (spans f) = openSpans a + length (spans f')"
    using sum_list_update_in [OF d mem, of "\<lambda>p. length (spans (snd p))" f']
    by (simp add: openSpans_def b)
  moreover have "Duplicates st' = Duplicates (stats a) + (if spanKey env \<in> fst ` set (spans f) then 1 else 0)"
    by (simp add: st' absorb_Duplicates)
  moreover have "length (spans f') = (if spanKey env \<in> fst ` set (spans f) then length (spans f) else Suc (length (spans f)))"
    by (simp add: f' absorb_fields length_putSpan)
  ultimately show "accounted a [] ?b"
    by (auto simp: accounted_def b split: if_splits)
  show "opts ?b = opts a" by (simp add: b)
qed

lemma openEpisode_inv:
  assumes "asmInv a" and "int (length (order a)) < MaxInFlight (opts a)"
    and "openEps a (envSessionKey env) = None" and "emitted a (envSessionKey env) = None"
  shows "asmInv (snd (openEpisode env a))"
    and "openSpans (snd (openEpisode env a)) = openSpans a"
    and "stats (snd (openEpisode env a)) = stats a"
    and "opts (snd (openEpisode env a)) = opts a"
    and "\<exists>f. map_of (order (snd (openEpisode env a))) (fst (openEpisode env a)) = Some f"
proof -
  let ?p = "if envEpisodeID env = [] then readID a else (envEpisodeID env, a)"
  define c where "c = snd (readNow (snd ?p))"
  define f where "f = \<lparr>key = envSessionKey env, episodeID = fst ?p, createdAt = fst (readNow (snd ?p)),
    lastSeen = 0, meta = zeroMeta, source = envSource env, terminalAt = None, err = None,
    spans = [], startedAt = 0, endedAt = 0\<rparr>"
  have same: "opts c = opts a" "emitted c = emitted a" "emittedFIFO c = emittedFIFO a"
    "patchIdx c = patchIdx a" "emittedSpans c = emittedSpans a" "stats c = stats a"
    "order c = order a" "openEps c = openEps a" "nextHandle c = nextHandle a"
    by (simp_all add: c_def)
  have "openEpisode env a = (nextHandle c, c\<lparr>order := order c @ [(nextHandle c, f)],
      nextHandle := Suc (nextHandle c), openEps := (openEps c)(envSessionKey env \<mapsto> nextHandle c)\<rparr>)"
    unfolding openEpisode_def Let_def split_beta c_def f_def by simp
  then have c: "openEpisode env a = (nextHandle a, c\<lparr>order := order a @ [(nextHandle a, f)],
      nextHandle := Suc (nextHandle a), openEps := (openEps a)(envSessionKey env \<mapsto> nextHandle a)\<rparr>)"
    by (simp add: same)
  have f: "key f = envSessionKey env" "spans f = []" by (simp_all add: f_def)
  have new: "nextHandle a \<notin> fst ` set (order a)"
    using assms(1) by (auto simp: asmInv_def openInv_def)
  have "openInv (snd (openEpisode env a))"
    using assms(1,3) new f
    by (auto simp: asmInv_def openInv_def c image_iff less_Suc_eq) (metis domI domIff)+
  then show "asmInv (snd (openEpisode env a))"
    using assms by (auto simp: asmInv_def memInv_def c same)
  show "openSpans (snd (openEpisode env a)) = openSpans a" "stats (snd (openEpisode env a)) = stats a"
    "opts (snd (openEpisode env a)) = opts a"
    by (simp_all add: c openSpans_def f same)
  show "\<exists>f. map_of (order (snd (openEpisode env a))) (fst (openEpisode env a)) = Some f"
    using new by (simp add: c map_add_def map_of_eq_None_iff [THEN iffD2] split: option.splits)
qed

lemma patchFor_frame [simp]:
  "opts (snd (patchFor e env a)) = opts a" "openEps (snd (patchFor e env a)) = openEps a"
  "order (snd (patchFor e env a)) = order a" "nextHandle (snd (patchFor e env a)) = nextHandle a"
  "emitted (snd (patchFor e env a)) = emitted a" "emittedFIFO (snd (patchFor e env a)) = emittedFIFO a"
  "emittedSpans (snd (patchFor e env a)) = emittedSpans a" "stats (snd (patchFor e env a)) = stats a"
  "dom (patchIdx (snd (patchFor e env a))) = insert e (dom (patchIdx a))"
  by (simp_all add: patchFor_def nextPatchIdx_def readNow_def Let_def)

lemma addLate_inv [inv_keep]:
  assumes "asmInv a" and "emitted a (envSessionKey env) = Some e"
  shows "asmInv (snd (addLate e env a)) \<and> accounted a (fst (addLate e env a)) (snd (addLate e env a)) \<and>
    opts (snd (addLate e env a)) = opts a"
proof (cases "wasEmitted a (envSessionKey env) (spanKey env)")
  case True
  then show ?thesis using assms by (simp add: addLate_def accounted_def)
next
  case False
  let ?a1 = "markEmittedSpan (envSessionKey env) (spanKey env) a"
  have "asmInv (snd (patchFor e env ?a1))"
    using assms by (auto simp: asmInv_def openInv_def memInv_def intro: ranI)
  moreover have "length (asSteps (fst (patchFor e env ?a1))) = 1"
    by (simp add: patchFor_def Let_def split_beta)
  ultimately show ?thesis
    using False by (simp add: addLate_def Let_def split_beta accounted_def openSpans_def)
qed

lemma sessionOf_frame [simp]:
  "opts (snd (sessionOf env a)) = opts a" "openEps (snd (sessionOf env a)) = openEps a"
  "order (snd (sessionOf env a)) = order a" "stats (snd (sessionOf env a)) = stats a"
  "asmInv (snd (sessionOf env a)) = asmInv a" "openSpans (snd (sessionOf env a)) = openSpans a"
  by (simp_all add: sessionOf_def readID_def asmInv_def openInv_def memInv_def openSpans_def)

lemma Add_inv [inv_keep]:
  assumes "asmInv a0"
  shows "asmInv (snd (Add env0 a0)) \<and> accounted a0 (fst (Add env0 a0)) (snd (Add env0 a0)) \<and>
    opts (snd (Add env0 a0)) = opts a0"
proof -
  obtain env a where se: "sessionOf env0 a0 = (env, a)" by force
  then have a: "a = snd (sessionOf env0 a0)" by simp
  have inv: "asmInv a" and o: "opts a = opts a0" using assms by (simp_all add: a)
  have acc: "accounted a x y = accounted a0 x y" for x y by (simp add: accounted_def a)
  let ?k = "envSessionKey env"
  show ?thesis
  proof (cases "openEps a ?k")
    case (Some h)
    then obtain f where f: "map_of (order a) h = Some f"
      using inv by (auto simp: asmInv_def openInv_def)
    let ?b = "absorbAt h env a"
    have b: "asmInv ?b" "accounted a [] ?b" "opts ?b = opts a" using absorbAt_inv [OF inv f] by simp_all
    have ex: "closing ?b (fst (expireLocked ?b)) (snd (expireLocked ?b))"
      using expireLocked_closing [OF b(1)] by simp
    then have "asmInv (snd (expireLocked ?b))" "opts (snd (expireLocked ?b)) = opts a"
      using b(3) by (simp_all add: closing_def)
    then show ?thesis
      using Some se accounted_closing [OF b(2) ex] acc o by (simp add: Add_def)
  next
    case None
    show ?thesis
    proof (cases "emitted a ?k")
      case (Some e)
      then show ?thesis using None se acc o addLate_inv [OF inv Some] by (simp add: Add_def)
    next
      case new: None
      let ?m = "makeRoom a" let ?p = "openEpisode env (snd ?m)"
      note M = makeRoom_closing [OF inv]
      have m: "asmInv (snd ?m)" "openEps (snd ?m) ?k = None" "emitted (snd ?m) ?k = None" "opts (snd ?m) = opts a"
        using M None new by (simp_all add: closing_def)
      then have room: "int (length (order (snd ?m))) < MaxInFlight (opts (snd ?m))" using M by simp
      note P = openEpisode_inv [OF m(1) room m(2,3)]
      from P(5) obtain f where f: "map_of (order (snd ?p)) (fst ?p) = Some f" by blast
      let ?b = "absorbAt (fst ?p) env (snd ?p)"
      have b: "asmInv ?b" "accounted (snd ?p) [] ?b" "opts ?b = opts (snd ?p)"
        using absorbAt_inv [OF P(1) f] by simp_all
      then have b2: "accounted (snd ?m) [] ?b" using P(2,3) by (simp add: accounted_def)
      have ex: "closing ?b (fst (expireLocked ?b)) (snd (expireLocked ?b))"
        using expireLocked_closing [OF b(1)] by simp
      have "accounted a (fst ?m @ fst (expireLocked ?b)) (snd (expireLocked ?b))"
        using M accounted_closing [OF b2 ex] closing_accounted by blast
      moreover have "asmInv (snd (expireLocked ?b))" "opts (snd (expireLocked ?b)) = opts a"
        using ex b(3) P(4) m(4) by (simp_all add: closing_def)
      ultimately show ?thesis
        using None new se acc o by (simp add: Add_def Let_def split_beta)
    qed
  qed
qed

section \<open>Runs\<close>

text \<open>
  A run is any interleaving of the three entry points, as the service makes it: sources call
  \<open>Add\<close>, a ticker calls \<open>Expire\<close>, shutdown calls \<open>Flush\<close>. \<open>asmRun o0 n outs a\<close>: from a new
  assembler with options \<open>o0\<close>, after \<open>n\<close> envelopes and having emitted \<open>outs\<close>, the state is \<open>a\<close>.
\<close>

inductive asmRun :: "Options \<Rightarrow> nat \<Rightarrow> Assembled list \<Rightarrow> Assembler \<Rightarrow> bool" for o0 where
  start: "asmRun o0 0 [] (New o0)"
| add: "asmRun o0 n outs a \<Longrightarrow> Add env a = (out, a') \<Longrightarrow> asmRun o0 (Suc n) (outs @ out) a'"
| expire: "asmRun o0 n outs a \<Longrightarrow> Expire a = (out, a') \<Longrightarrow> asmRun o0 n (outs @ out) a'"
| flush: "asmRun o0 n outs a \<Longrightarrow> Flush fb a = Some (out, a') \<Longrightarrow> asmRun o0 n (outs @ out) a'"

inductive_cases asmRun_startE: "asmRun o0 0 [] a"

lemma applyDefaults_pos:
  "0 < Window (applyDefaults o0)" "0 < MaxInFlight (applyDefaults o0)"
  "0 \<le> SettleAfterTerminal (applyDefaults o0)" "0 < PatchMemory (applyDefaults o0)"
  by (simp_all add: applyDefaults_def Let_def)

lemma New_inv: "asmInv (New o0)" "openSpans (New o0) = 0"
  using applyDefaults_pos [of o0]
  by (simp_all add: New_def asmInv_def openInv_def memInv_def openSpans_def)

lemma Flush_closing:
  assumes "asmInv a"
  shows "\<exists>outs a'. Flush fb a = Some (outs, a') \<and> closing a outs a' \<and> order a' = [] \<and>
    (\<forall>x \<in> set outs. epStatus (asEpisode x) \<in> {StatusComplete, fb})"
  unfolding Flush_def by (rule flushLoop_enough [OF assms]) simp

lemma asmRun_inv:
  "asmRun o0 n outs a \<Longrightarrow>
    asmInv a \<and> opts a = applyDefaults o0 \<and>
    int (openSpans a) + int (stepsOut outs) + Duplicates (stats a) = int n"
proof (induction rule: asmRun.induct)
  case start
  then show ?case using New_inv by (simp add: New_def zeroStats_def)
next
  case (add n outs a env out a')
  then show ?case using Add_inv [of a env] by (auto simp: accounted_def)
next
  case (expire n outs a out a')
  then show ?case using expireLocked_closing [of a] by (auto simp: Expire_def closing_def)
next
  case (flush n outs a fb out a')
  then show ?case using Flush_closing [of a fb] by (auto simp: closing_def)
qed

lemma card_dom_emitted: "memInv a \<Longrightarrow> card (dom (emitted a)) = length (emittedFIFO a)"
  by (metis distinct_card memInv_def)

lemma card_ran_emitted_le:
  assumes "memInv a"
  shows "finite (ran (emitted a)) \<and> card (ran (emitted a)) \<le> length (emittedFIFO a)"
proof -
  have "ran (emitted a) = (\<lambda>k. the (emitted a k)) ` set (emittedFIFO a)"
    using assms by (force simp: memInv_def ran_def dom_def image_iff)
  then show ?thesis by (metis List.finite_set card_image_le card_length finite_imageI le_trans)
qed

section \<open>Example values\<close>

definition exOptions :: Options where
  "exOptions = \<lparr>Tenant = ''t'', Window = 300, MaxInFlight = 2, SettleAfterTerminal = 0,
     PatchMemory = 2, Now = (\<lambda>n. 1000), NewID = (\<lambda>n. ''gen'')\<rparr>"

definition exSpan :: "string \<Rightarrow> string \<Rightarrow> string \<Rightarrow> bool \<Rightarrow> int \<Rightarrow> Envelope" where
  "exSpan session epID sid term t = zeroEnvelope\<lparr>envSessionKey := session, envEpisodeID := epID,
     envSpanID := sid, envTerminal := term, envStep := zeroStep\<lparr>stStartedAt := t\<rparr>\<rparr>"

definition addAll :: "Envelope list \<Rightarrow> Assembler \<Rightarrow> Assembled list \<times> Assembler" where
  "addAll envs a = fold (\<lambda>env (outs, b). let (out, c) = Add env b in (outs @ out, c)) envs ([], a)"

lemma asmRun_addAll:
  assumes "asmRun o0 n outs a"
  shows "asmRun o0 (n + length envs) (outs @ fst (addAll envs a)) (snd (addAll envs a))"
proof (induction envs rule: rev_induct)
  case Nil
  then show ?case using assms by (simp add: addAll_def)
next
  case (snoc env envs)
  have "addAll (envs @ [env]) a = (let (out, c) = Add env (snd (addAll envs a)) in (fst (addAll envs a) @ out, c))"
    by (simp add: addAll_def split_beta)
  then show ?case
    using asmRun.add [OF snoc, of env] by (auto simp: split_beta)
qed

section \<open>Properties\<close>

text \<open>
  C27. Bounded memory. In every state reachable by any interleaving of \<open>Add\<close>, \<open>Expire\<close> and
  \<open>Flush\<close>, at most \<open>MaxInFlight\<close> episodes are open, at most \<open>PatchMemory\<close> closed sessions are
  remembered, the tables of emitted spans and patch counters have at most \<open>PatchMemory\<close>
  entries, no session is both open and remembered as closed, and the index of open sessions
  agrees with the creation-ordered list.
\<close>

theorem assembler_bounded:
  assumes "asmRun o0 n outs a"
  shows "int (InFlight a) \<le> MaxInFlight (applyDefaults o0) \<and>
    int (card (dom (emitted a))) \<le> PatchMemory (applyDefaults o0) \<and>
    int (card (dom (emittedSpans a))) \<le> PatchMemory (applyDefaults o0) \<and>
    int (card (dom (patchIdx a))) \<le> PatchMemory (applyDefaults o0) \<and>
    dom (openEps a) \<inter> dom (emitted a) = {} \<and>
    (\<forall>k h. openEps a k = Some h \<longleftrightarrow> (\<exists>f. (h, f) \<in> set (order a) \<and> key f = k))"
proof -
  from asmRun_inv [OF assms] have inv: "asmInv a" and o: "opts a = applyDefaults o0" by simp_all
  then have m: "memInv a" and len: "int (length (emittedFIFO a)) \<le> PatchMemory (applyDefaults o0)"
    by (simp_all add: asmInv_def)
  have "finite (dom (emitted a))" using m by (metis List.finite_set memInv_def)
  then have "card (dom (emittedSpans a)) \<le> length (emittedFIFO a)"
    using m card_mono [of "dom (emitted a)" "dom (emittedSpans a)"] card_dom_emitted [OF m]
    by (simp add: memInv_def)
  moreover have "card (dom (patchIdx a)) \<le> length (emittedFIFO a)"
    using m card_ran_emitted_le [OF m] card_mono [of "ran (emitted a)" "dom (patchIdx a)"]
    by (simp add: memInv_def)
  ultimately show ?thesis
    using inv o len card_dom_emitted [OF m] by (auto simp: asmInv_def openInv_def InFlight_def)
qed

theorem assembler_bounded_witness:
  "int (InFlight (snd (addAll [exSpan ''s'' '''' ''a'' False 5, exSpan ''r'' '''' ''b'' False 6] (New exOptions)))) \<le> 2"
  using assembler_bounded [OF asmRun_addAll [OF asmRun.start,
    of exOptions "[exSpan ''s'' '''' ''a'' False 5, exSpan ''r'' '''' ''b'' False 6]"]]
  by (simp add: applyDefaults_def exOptions_def)

text \<open>
  C3. Conservation of spans. In every reachable state the number of envelopes ever added is
  the number of spans still held open, plus the number of steps ever emitted, plus the number
  counted as duplicates: no span is lost and none is emitted twice, across eviction, expiry,
  late arrival and shutdown.
\<close>

theorem spans_conserved:
  assumes "asmRun o0 n outs a"
  shows "int (openSpans a) + int (stepsOut outs) + Duplicates (stats a) = int n"
  using asmRun_inv [OF assms] by simp

theorem spans_conserved_witness:
  "int (openSpans (snd (addAll [exSpan ''s'' '''' ''a'' False 5, exSpan ''s'' '''' ''a'' False 5] (New exOptions)))) +
   int (stepsOut (fst (addAll [exSpan ''s'' '''' ''a'' False 5, exSpan ''s'' '''' ''a'' False 5] (New exOptions)))) +
   Duplicates (stats (snd (addAll [exSpan ''s'' '''' ''a'' False 5, exSpan ''s'' '''' ''a'' False 5] (New exOptions)))) = 2"
  using spans_conserved [OF asmRun_addAll [OF asmRun.start,
    of exOptions "[exSpan ''s'' '''' ''a'' False 5, exSpan ''s'' '''' ''a'' False 5]"]]
  by simp

text \<open>
  C35. Shutdown. From every reachable state \<open>Flush\<close> returns, leaves no episode open, labels each
  emitted episode complete or with the fallback status, and after it every envelope ever added
  was either emitted as a step or counted as a duplicate.
\<close>

theorem flush_drains:
  assumes "asmRun o0 n outs a"
  shows "\<exists>out a'. Flush fb a = Some (out, a') \<and> InFlight a' = 0 \<and>
    int (stepsOut (outs @ out)) + Duplicates (stats a') = int n \<and>
    (\<forall>x \<in> set out. epStatus (asEpisode x) \<in> {StatusComplete, fb})"
proof -
  have inv: "asmInv a" using asmRun_inv [OF assms] by simp
  from Flush_closing [OF inv, of fb] obtain out a' where F: "Flush fb a = Some (out, a')" "closing a out a'"
    "order a' = []" "\<forall>x \<in> set out. epStatus (asEpisode x) \<in> {StatusComplete, fb}" by blast
  have "int (openSpans a') + int (stepsOut (outs @ out)) + Duplicates (stats a') = int n"
    using asmRun_inv [OF asmRun.flush [OF assms F(1)]] by simp
  then show ?thesis using F by (auto simp: InFlight_def openSpans_def)
qed

theorem flush_drains_witness:
  "\<exists>out a'. Flush StatusTimedOut (snd (addAll [exSpan ''s'' '''' ''a'' False 5] (New exOptions))) = Some (out, a') \<and>
    InFlight a' = 0"
  using flush_drains [OF asmRun_addAll [OF asmRun.start, of exOptions "[exSpan ''s'' '''' ''a'' False 5]"], of StatusTimedOut]
  by blast

text \<open>
  Expiry is exact: from every reachable state \<open>Expire\<close> removes precisely the episodes that
  are due at the clock reading it takes (terminal marker older than the settle time, or idle
  for the window), and keeps the others in creation order.
\<close>

theorem expire_exact:
  assumes "asmRun o0 n outs a"
  shows "order (snd (Expire a)) =
      filter (\<lambda>p. \<not> due (opts a) (Now (opts a) (nowCalls a)) (snd p)) (order a) \<and>
    length (fst (Expire a)) = length (filter (\<lambda>p. due (opts a) (Now (opts a) (nowCalls a)) (snd p)) (order a))"
proof -
  have E: "closing a (fst (Expire a)) (snd (Expire a))"
    "order (snd (Expire a)) = filter (\<lambda>p. \<not> due (opts a) (Now (opts a) (nowCalls a)) (snd p)) (order a)"
    using expireLocked_closing asmRun_inv [OF assms] by (simp_all add: Expire_def)
  then show ?thesis
    using sum_length_filter_compl [of "\<lambda>p. due (opts a) (Now (opts a) (nowCalls a)) (snd p)" "order a"]
    by (simp add: closing_def)
qed

theorem expire_exact_witness:
  "order (snd (Expire (snd (addAll [exSpan ''s'' '''' ''a'' False 5] (New exOptions))))) =
    filter (\<lambda>p. \<not> due (opts (snd (addAll [exSpan ''s'' '''' ''a'' False 5] (New exOptions)))) 1000 (snd p))
      (order (snd (addAll [exSpan ''s'' '''' ''a'' False 5] (New exOptions))))"
proof -
  note R = asmRun_addAll [OF asmRun.start, of exOptions "[exSpan ''s'' '''' ''a'' False 5]"]
  have "Now (opts (snd (addAll [exSpan ''s'' '''' ''a'' False 5] (New exOptions)))) m = 1000" for m
    using asmRun_inv [OF R] by (simp add: applyDefaults_def exOptions_def Let_def)
  then show ?thesis using expire_exact [OF R] by simp
qed

text \<open>
  A redelivery after the close is a duplicate, a new span is a patch. Let an open episode
  be closed. Adding an envelope of its session whose span the episode carried emits nothing and
  counts one duplicate; adding one whose span was not emitted before emits exactly one episode,
  with the same episode id, status patched, no fidelity flags and exactly that span as its
  step, and records the span as emitted.
\<close>

theorem late_span_patched_once:
  assumes "asmInv a" and "(h, f) \<in> set (order a)" and "envSessionKey env = key f" and "key f \<noteq> []"
    and "b = snd (closeLocked f status a)"
  shows "if wasEmitted b (key f) (spanKey env)
    then Add env b = ([], b\<lparr>stats := (stats b)\<lparr>Duplicates := Duplicates (stats b) + 1\<rparr>\<rparr>)
    else spanKey env \<notin> fst ` set (spans f) \<and>
      (\<exists>p b'. Add env b = ([p], b') \<and> epEpisodeID (asEpisode p) = episodeID f \<and>
        epStatus (asEpisode p) = StatusPatched \<and> epFidelity (asEpisode p) = None \<and>
        (\<exists>idx. asSteps p = [(envStep env)\<lparr>stEpisodeID := episodeID f, stStepIdx := idx\<rparr>]) \<and>
        wasEmitted b' (key f) (spanKey env))"
proof -
  note C = closeLocked_inv [OF assms(1,2), where s = status, folded assms(5)]
  have se: "sessionOf env b = (env, b)" using assms(3,4) by (simp add: sessionOf_def)
  have add: "Add env b = addLate (episodeID f) env b"
    using C(3,4) assms(3) by (simp add: Add_def se)
  have "wasEmitted b (key f) (spanKey env)" if "spanKey env \<in> fst ` set (spans f)"
    using C(6) [OF that] .
  moreover have "wasEmitted (snd (patchFor e env x)\<lparr>stats := st\<rparr>) k s = wasEmitted x k s" for x e st k s
    by (simp add: wasEmitted_def)
  moreover have "epEpisodeID (asEpisode (fst (patchFor e env x))) = e \<and>
      epStatus (asEpisode (fst (patchFor e env x))) = StatusPatched \<and>
      epFidelity (asEpisode (fst (patchFor e env x))) = None \<and>
      (\<exists>idx. asSteps (fst (patchFor e env x)) = [(envStep env)\<lparr>stEpisodeID := e, stStepIdx := idx\<rparr>])" for e x
    by (auto simp: patchFor_def zeroEpisode_def Let_def split_beta)
  ultimately show ?thesis
    unfolding add using assms(3) by (auto simp: addLate_def Let_def split_beta)
qed

theorem late_span_patched_once_witness:
  "\<exists>h f. (h, f) \<in> set (order (snd (addAll [exSpan ''s'' '''' ''a'' False 5] (New exOptions)))) \<and>
     fst (Add (exSpan ''s'' '''' ''a'' False 5)
       (snd (closeLocked f StatusTimedOut (snd (addAll [exSpan ''s'' '''' ''a'' False 5] (New exOptions)))))) = []"
proof -
  let ?a = "snd (addAll [exSpan ''s'' '''' ''a'' False 5] (New exOptions))"
  let ?f = "snd (hd (order ?a))" and ?env = "exSpan ''s'' '''' ''a'' False 5"
  have inv: "asmInv ?a"
    using asmRun_inv [OF asmRun_addAll [OF asmRun.start, of exOptions "[?env]"]] by simp
  have f: "map fst (order ?a) = [0]" "key ?f = ''s''" "map fst (spans ?f) = [''a'']"
    by code_simp+
  from f(1) have mem: "(0, ?f) \<in> set (order ?a)" by (cases "order ?a") auto
  have k: "spanKey ?env = ''a''" "envSessionKey ?env = ''s''" by (simp_all add: spanKey_def exSpan_def)
  have "fst ` set (spans ?f) = {''a''}" using f(3) by (metis empty_set list.simps(15) set_map)
  then have "wasEmitted (snd (closeLocked ?f StatusTimedOut ?a)) (key ?f) (spanKey ?env)"
    using closeLocked_inv(6) [OF inv mem] k by simp
  then have "fst (Add ?env (snd (closeLocked ?f StatusTimedOut ?a))) = []"
    using late_span_patched_once [OF inv mem, of ?env _ StatusTimedOut] f(2) k by auto
  then show ?thesis using mem by blast
qed

text \<open>
  Two late spans of one episode can be given the same step index. Two sessions share a
  producer-supplied episode id; when the older of them is forgotten, the patch counter of the
  episode is deleted although the younger one is still remembered, and the next patch starts
  again at the base index.
\<close>

theorem patch_index_collision:
  "map (\<lambda>x. (epEpisodeID (asEpisode x), map (\<lambda>s. (stStepIdx s, stStartedAt s)) (asSteps x)))
     (filter (\<lambda>x. epStatus (asEpisode x) = StatusPatched)
       (fst (addAll
         [exSpan ''s1'' ''e'' ''a'' True 1, exSpan ''s2'' ''e'' ''b'' True 2,
          exSpan ''s2'' ''e'' ''late1'' False 3, exSpan ''s3'' ''x'' ''c'' True 4,
          exSpan ''s2'' ''e'' ''late2'' False 5] (New exOptions)))) =
    [(''e'', [(patchIdxBase, 3)]), (''e'', [(patchIdxBase, 5)])]"
  by code_simp

end
