(* ===== verification/Sample.thy ===== *)
theory Sample
  imports Records Hashing
begin

text \<open>
  Head and tail sampling (\<^verbatim>\<open>src/collector/sample/sample.go\<close>).

  The expression language of tail rules (CEL) is a third-party library: compiling a rule is a
  parameter of \<open>NewSampler\<close>, and a compiled program is a function from the declared variables to
  an outcome, which is an evaluation error, the boolean true, or any other value. A sampling
  decision returns the decision and the sampler with its counters updated.
\<close>

unbundle bit_operations_syntax

section \<open>State\<close>

record EpisodeVars =
  v_status :: string
  v_has_error :: bool
  v_step_count :: int
  v_task_type :: string
  v_source :: string
  v_tenant :: string
  v_group_id :: string
  v_entity_key_count :: int
  v_raw :: "(string, string) gomap"
  v_duration_ms :: int

datatype celOut = EvalError | EvalTrue | EvalOther

record compiledRule =
  ruleSrc :: string
  ruleProgram :: "EpisodeVars \<Rightarrow> celOut"

record SampleStats =
  HeadKept :: int
  HeadDropped :: int
  TailKept :: "string \<rightharpoonup> int"
  TailDropped :: int
  RuleErrors :: int

record Sampler =
  headRate :: rat
  bySource :: "string \<rightharpoonup> rat"
  keepIf :: "compiledRule list"
  otherwiseRate :: rat
  sStats :: SampleStats

record SamplingConfig =
  cfgHeadRate :: "rat option"
  cfgKeepIf :: "string list"
  cfgOtherwiseRate :: "rat option"

datatype sampleError = CompileError string string | NotBool string | ProgramError string string

definition ReasonTailRule :: string where "ReasonTailRule = ''tail:''"
definition ReasonTailRate :: string where "ReasonTailRate = ''tail:rate''"

section \<open>Construction\<close>

text \<open>\<open>compile\<close>, \<open>isBool\<close> and \<open>program\<close> stand for the CEL environment's \<^verbatim>\<open>Compile\<close>, the comparison of
  \<^verbatim>\<open>OutputType\<close> with the boolean type, and \<^verbatim>\<open>Program\<close>.\<close>

fun compileRules ::
  "(string \<Rightarrow> string + 'ast) \<Rightarrow> ('ast \<Rightarrow> bool) \<Rightarrow> ('ast \<Rightarrow> string + (EpisodeVars \<Rightarrow> celOut)) \<Rightarrow>
    string list \<Rightarrow> sampleError + compiledRule list" where
  "compileRules compile isBool program [] = Inr []"
| "compileRules compile isBool program (src # srcs) =
     (case compile src of
        Inl e \<Rightarrow> Inl (CompileError src e)
      | Inr ast \<Rightarrow>
          if \<not> isBool ast then Inl (NotBool src)
          else (case program ast of
                  Inl e \<Rightarrow> Inl (ProgramError src e)
                | Inr prg \<Rightarrow>
                    (case compileRules compile isBool program srcs of
                       Inl e \<Rightarrow> Inl e
                     | Inr rules \<Rightarrow> Inr (\<lparr>ruleSrc = src, ruleProgram = prg\<rparr> # rules))))"

definition NewSampler ::
  "(string \<Rightarrow> string + 'ast) \<Rightarrow> ('ast \<Rightarrow> bool) \<Rightarrow> ('ast \<Rightarrow> string + (EpisodeVars \<Rightarrow> celOut)) \<Rightarrow>
    SamplingConfig \<Rightarrow> sampleError + Sampler" where
  "NewSampler compile isBool program cfg =
     (case compileRules compile isBool program (cfgKeepIf cfg) of
        Inl e \<Rightarrow> Inl e
      | Inr rules \<Rightarrow> Inr
          \<lparr>headRate = (case cfgHeadRate cfg of None \<Rightarrow> 1 | Some r \<Rightarrow> r), bySource = Map.empty,
           keepIf = rules,
           otherwiseRate = (case cfgOtherwiseRate cfg of None \<Rightarrow> 1 | Some r \<Rightarrow> r),
           sStats = \<lparr>HeadKept = 0, HeadDropped = 0, TailKept = Map.empty, TailDropped = 0,
                     RuleErrors = 0\<rparr>\<rparr>)"

definition SetSourceRate :: "string \<Rightarrow> rat \<Rightarrow> Sampler \<Rightarrow> Sampler" where
  "SetSourceRate src rate s = s\<lparr>bySource := (bySource s)(src \<mapsto> rate)\<rparr>"

section \<open>The hash\<close>

definition mix64 :: "64 word \<Rightarrow> 64 word" where
  "mix64 x0 =
     (let x1 = x0 XOR drop_bit 30 x0;
          x2 = x1 * 0xbf58476d1ce4e5b9;
          x3 = x2 XOR drop_bit 27 x2;
          x4 = x3 * 0x94d049bb133111eb
      in x4 XOR drop_bit 31 x4)"

definition hashUnit :: "string \<Rightarrow> rat" where
  "hashUnit k = (let v = mix64 (fnv64a (bytes_of k)) in of_nat (unat (drop_bit 11 v)) / 2 ^ 53)"

section \<open>Head sampling\<close>

definition countHead :: "bool \<Rightarrow> Sampler \<Rightarrow> Sampler" where
  "countHead keep s =
     s\<lparr>sStats := (if keep then (sStats s)\<lparr>HeadKept := HeadKept (sStats s) + 1\<rparr>
                 else (sStats s)\<lparr>HeadDropped := HeadDropped (sStats s) + 1\<rparr>)\<rparr>"

definition decide :: "rat \<Rightarrow> string \<Rightarrow> Sampler \<Rightarrow> bool \<times> Sampler" where
  "decide rate sessionKey s =
     (if rate \<ge> 1 then (True, countHead True s)
      else if rate \<le> 0 then (False, countHead False s)
      else let keep = (hashUnit sessionKey < rate) in (keep, countHead keep s))"

definition HeadKeep :: "string \<Rightarrow> Sampler \<Rightarrow> bool \<times> Sampler" where
  "HeadKeep sessionKey s = decide (headRate s) sessionKey s"

definition HeadKeepFrom :: "string \<Rightarrow> string \<Rightarrow> Sampler \<Rightarrow> bool \<times> Sampler" where
  "HeadKeepFrom src sessionKey s =
     (case bySource s src of
        Some rate \<Rightarrow> decide rate sessionKey s
      | None \<Rightarrow> HeadKeep sessionKey s)"

section \<open>Tail sampling\<close>

definition deref :: "string option \<Rightarrow> string" where
  "deref p = (case p of None \<Rightarrow> [] | Some s \<Rightarrow> s)"

definition episodeVars :: "Assembled \<Rightarrow> EpisodeVars" where
  "episodeVars ep =
     (let e = asEpisode ep;
          duration = (case epEndedAt e of
                        None \<Rightarrow> 0
                      | Some t \<Rightarrow> if t > epStartedAt e then godiv (wrap64 (t - epStartedAt e)) 1000 else 0)
      in \<lparr>v_status = epStatus e, v_has_error = (epError e \<noteq> None), v_step_count = epStepCount e,
          v_task_type = deref (epTaskType e), v_source = epSource e, v_tenant = epTenant e,
          v_group_id = deref (epGroupID e), v_entity_key_count = int (length (epEntityKeys e)),
          v_raw = epRaw e, v_duration_ms = duration\<rparr>)"

text \<open>The map handed to rules as \<^verbatim>\<open>raw\<close>: indexing an absent key gives the empty string, while a
  presence test stays honest.\<close>

definition lenientFind :: "(string, string) gomap \<Rightarrow> string \<Rightarrow> string \<times> bool" where
  "lenientFind m k = (case map_of m k of Some v \<Rightarrow> (v, True) | None \<Rightarrow> ([], True))"

definition lenientGet :: "(string, string) gomap \<Rightarrow> string \<Rightarrow> string" where
  "lenientGet m k = fst (lenientFind m k)"

definition lenientContains :: "(string, string) gomap \<Rightarrow> string \<Rightarrow> bool" where
  "lenientContains m k \<longleftrightarrow> map_of m k \<noteq> None"

definition mark :: "string \<Rightarrow> Assembled \<Rightarrow> Assembled" where
  "mark reason ep = ep\<lparr>asEpisode := (asEpisode ep)\<lparr>epSampledBy := Some reason\<rparr>\<rparr>"

definition bumpTail :: "string \<Rightarrow> Sampler \<Rightarrow> Sampler" where
  "bumpTail k s =
     (let n = (case TailKept (sStats s) k of None \<Rightarrow> 0 | Some n \<Rightarrow> n)
      in s\<lparr>sStats := (sStats s)\<lparr>TailKept := (TailKept (sStats s))(k \<mapsto> n + 1)\<rparr>\<rparr>)"

definition dropTail :: "Sampler \<Rightarrow> Sampler" where
  "dropTail s = s\<lparr>sStats := (sStats s)\<lparr>TailDropped := TailDropped (sStats s) + 1\<rparr>\<rparr>"

definition tailRate :: "Assembled \<Rightarrow> Sampler \<Rightarrow> bool \<times> Assembled \<times> Sampler" where
  "tailRate ep s =
     (if otherwiseRate s \<ge> 1 then (True, mark ReasonTailRate ep, bumpTail ReasonTailRate s)
      else if otherwiseRate s \<le> 0 then (False, ep, dropTail s)
      else if hashUnit (epEpisodeID (asEpisode ep)) < otherwiseRate s
        then (True, mark ReasonTailRate ep, bumpTail ReasonTailRate s)
      else (False, ep, dropTail s))"

fun tailRules ::
  "EpisodeVars \<Rightarrow> compiledRule list \<Rightarrow> Assembled \<Rightarrow> Sampler \<Rightarrow> bool \<times> Assembled \<times> Sampler" where
  "tailRules vars [] ep s = tailRate ep s"
| "tailRules vars (r # rs) ep s =
     (case ruleProgram r vars of
        EvalError \<Rightarrow>
          (True, mark ''tail:rule_error'' ep,
           s\<lparr>sStats := (sStats s)\<lparr>RuleErrors := RuleErrors (sStats s) + 1\<rparr>\<rparr>)
      | EvalTrue \<Rightarrow> (True, mark (ReasonTailRule @ ruleSrc r) ep, bumpTail (ruleSrc r) s)
      | EvalOther \<Rightarrow> tailRules vars rs ep s)"

definition TailKeep :: "Assembled \<Rightarrow> Sampler \<Rightarrow> bool \<times> Assembled \<times> Sampler" where
  "TailKeep ep s = tailRules (episodeVars ep) (keepIf s) ep s"

section \<open>The finalizer is a bijection\<close>

lemma xorshift_inj:
  fixes x y :: "'a::len word"
  assumes "0 < n" and "x XOR drop_bit n x = y XOR drop_bit n y"
  shows "x = y"
proof (rule bit_word_eqI)
  have eq: "bit x i \<noteq> bit x (n + i) \<longleftrightarrow> bit y i \<noteq> bit y (n + i)" for i
    using arg_cong [OF assms(2), of "\<lambda>w. bit w i"]
    by (auto simp: bit_xor_iff bit_drop_bit_eq comp_def)
  show "bit x i = bit y i" for i
  proof (induction "LENGTH('a) - i" arbitrary: i rule: less_induct)
    case less
    show ?case
    proof (cases "i < LENGTH('a)")
      case True
      then have "bit x (n + i) = bit y (n + i)"
        using assms(1) by (intro less) simp
      then show ?thesis using eq [of i] by blast
    qed (auto dest: bit_imp_le_length)
  qed
qed

lemma mult_unit_inj:
  fixes c d x y :: "'a::len word"
  assumes "c * d = 1" and "x * c = y * c"
  shows "x = y"
proof -
  have "x * c * d = y * c * d" by (simp only: assms(2))
  then show ?thesis by (simp add: mult.assoc assms(1))
qed

lemma xorshift64_inj: "0 < n \<Longrightarrow> inj (\<lambda>x::64 word. x XOR drop_bit n x)"
  by (intro injI) (rule xorshift_inj)

lemma mult64_inj: "c * d = 1 \<Longrightarrow> inj (\<lambda>x::64 word. x * c)"
  by (intro injI) (rule mult_unit_inj)

lemma mix64_inj: "inj mix64"
proof -
  have eq: "mix64 = (\<lambda>x. x XOR drop_bit 31 x) \<circ> ((\<lambda>x. x * 0x94d049bb133111eb) \<circ>
      ((\<lambda>x. x XOR drop_bit 27 x) \<circ> ((\<lambda>x. x * 0xbf58476d1ce4e5b9) \<circ> (\<lambda>x. x XOR drop_bit 30 x))))"
    by (rule ext) (simp only: mix64_def Let_def comp_apply)
  show ?thesis
    unfolding eq
    by (intro inj_compose xorshift64_inj mult64_inj [of _ "0x319642b2d24d8ec3"]
        mult64_inj [of _ "0x96de1b173f119089"]) simp_all
qed

lemma hashUnit_range: "0 \<le> hashUnit k \<and> hashUnit k < 1"
proof -
  define n where "n = unat (drop_bit 11 (mix64 (fnv64a (bytes_of k))))"
  have "unat (mix64 (fnv64a (bytes_of k))) < 2 ^ 64"
    using unsigned_less [of "mix64 (fnv64a (bytes_of k))", where ?'a = nat] by simp
  then have "n < 2 ^ 53"
    by (simp add: n_def drop_bit_eq_div unat_div less_mult_imp_div_less)
  then have "(of_nat n :: rat) < of_nat (2 ^ 53)" by (simp only: of_nat_less_iff)
  moreover have "hashUnit k = of_nat n / 2 ^ 53"
    unfolding hashUnit_def Let_def n_def by (rule refl)
  ultimately show ?thesis by simp
qed

section \<open>Decisions over a stream\<close>

definition rateFor :: "Sampler \<Rightarrow> string \<Rightarrow> rat" where
  "rateFor s src = (case bySource s src of Some r \<Rightarrow> r | None \<Rightarrow> headRate s)"

definition headVerdict :: "rat \<Rightarrow> string \<Rightarrow> bool" where
  "headVerdict rate k \<longleftrightarrow> rate \<ge> 1 \<or> (0 < rate \<and> hashUnit k < rate)"

lemma HeadKeepFrom_eq:
  "HeadKeepFrom src k s = (headVerdict (rateFor s src) k, countHead (headVerdict (rateFor s src) k) s)"
  by (auto simp: HeadKeepFrom_def HeadKeep_def decide_def headVerdict_def rateFor_def Let_def
      split: option.splits)

lemma rateFor_countHead [simp]: "rateFor (countHead b s) = rateFor s"
  by (auto simp: rateFor_def countHead_def fun_eq_iff split: option.splits)

lemma countHead_sum [simp]:
  "HeadKept (sStats (countHead b s)) + HeadDropped (sStats (countHead b s)) =
    HeadKept (sStats s) + HeadDropped (sStats s) + 1"
  by (simp add: countHead_def)

lemma headVerdict_mono: "rate \<le> rate' \<Longrightarrow> headVerdict rate k \<Longrightarrow> headVerdict rate' k"
  using hashUnit_range [of k] by (auto simp: headVerdict_def)

text \<open>\<open>headStream\<close> asks for a decision for each envelope of a stream, as the service does.\<close>

fun headStream :: "Envelope list \<Rightarrow> Sampler \<Rightarrow> Envelope list \<times> Sampler" where
  "headStream [] s = ([], s)"
| "headStream (e # es) s =
     (let (keep, s1) = HeadKeepFrom (envSource e) (envSessionKey e) s; (kept, s2) = headStream es s1
      in (if keep then e # kept else kept, s2))"

lemma headStream_eq:
  "fst (headStream es s) = filter (\<lambda>e. headVerdict (rateFor s (envSource e)) (envSessionKey e)) es \<and>
   HeadKept (sStats (snd (headStream es s))) + HeadDropped (sStats (snd (headStream es s))) =
     HeadKept (sStats s) + HeadDropped (sStats s) + int (length es)"
proof (induction es arbitrary: s)
  case Nil
  then show ?case by simp
next
  case (Cons e es)
  let ?b = "headVerdict (rateFor s (envSource e)) (envSessionKey e)"
  show ?case
    using Cons.IH [of "countHead ?b s"]
    by (auto simp: HeadKeepFrom_eq Let_def split_beta)
qed

lemma tailRules_spec:
  assumes "tailRules vars rules ep s = (keep, ep', s')"
  shows "(\<not> keep \<longleftrightarrow> list_all (\<lambda>r. ruleProgram r vars = EvalOther) rules \<and>
      \<not> headVerdict (otherwiseRate s) (epEpisodeID (asEpisode ep))) \<and>
    (if keep then \<exists>reason. ep' = mark reason ep else ep' = ep)"
  using assms
  by (induction rules) (auto simp: tailRate_def headVerdict_def split: celOut.splits if_splits)

section \<open>Example values\<close>

definition exSampler :: "rat \<Rightarrow> Sampler" where
  "exSampler r = \<lparr>headRate = r, bySource = Map.empty, keepIf = [\<lparr>ruleSrc = ''has_error'',
     ruleProgram = (\<lambda>v. if v_has_error v then EvalTrue else EvalOther)\<rparr>], otherwiseRate = 0,
     sStats = \<lparr>HeadKept = 0, HeadDropped = 0, TailKept = Map.empty, TailDropped = 0, RuleErrors = 0\<rparr>\<rparr>"

section \<open>Properties\<close>

text \<open>
  Head sampling never splits an episode. Whatever the stream and however envelopes of
  different sessions interleave, the envelopes kept are those of the kept sessions: two
  envelopes of one session whose sources have the same rate are both kept or both dropped,
  every envelope is counted once as kept or dropped, and a session kept at some rate is kept
  at every higher rate.
\<close>

theorem head_sampling_never_splits:
  assumes "e \<in> set es" and "e' \<in> set es" and "envSessionKey e = envSessionKey e'"
    and "rateFor s (envSource e) \<le> rateFor s (envSource e')"
  shows "(e \<in> set (fst (headStream es s)) \<longrightarrow> e' \<in> set (fst (headStream es s))) \<and>
    (rateFor s (envSource e) = rateFor s (envSource e') \<longrightarrow>
       (e \<in> set (fst (headStream es s)) \<longleftrightarrow> e' \<in> set (fst (headStream es s)))) \<and>
    HeadKept (sStats (snd (headStream es s))) + HeadDropped (sStats (snd (headStream es s))) =
      HeadKept (sStats s) + HeadDropped (sStats s) + int (length es)"
  using assms headStream_eq [of es s] headVerdict_mono [OF assms(4)] by auto

theorem head_sampling_never_splits_witness:
  "let e = zeroEnvelope\<lparr>envSessionKey := ''s'', envSpanID := ''a''\<rparr>;
       e' = zeroEnvelope\<lparr>envSessionKey := ''s'', envSpanID := ''b''\<rparr>;
       out = fst (headStream [e, e'] (exSampler (1 / 10)))
   in e \<in> set out \<longleftrightarrow> e' \<in> set out"
proof -
  let ?e = "zeroEnvelope\<lparr>envSessionKey := ''s'', envSpanID := ''a''\<rparr>"
  let ?e' = "zeroEnvelope\<lparr>envSessionKey := ''s'', envSpanID := ''b''\<rparr>"
  show ?thesis
    using head_sampling_never_splits [of ?e "[?e, ?e']" ?e' "exSampler (1 / 10)"]
    by (simp add: Let_def)
qed

text \<open>
  The hash behind every sampling decision is sound: the finalizer is a bijection of the
  64-bit words, so it merges no two keys that the FNV hash keeps apart, and the unit hash lies
  in the half-open interval from 0 to 1, so a rate of 1 keeps and a rate of 0 drops everything.
\<close>

theorem mix64_bijective_hashUnit_unit:
  "bij mix64 \<and> 0 \<le> hashUnit k \<and> hashUnit k < 1"
  using mix64_inj finite_UNIV_inj_surj [of mix64] hashUnit_range [of k] by (simp add: bij_def)

text \<open>
  Tail sampling. An episode is dropped exactly when every rule evaluated without error to
  something other than true and the episode's own hash is not under the fallback rate; in
  particular a failing rule keeps it. A kept episode carries its reason and is otherwise
  unchanged, a dropped one is not touched at all.
\<close>

theorem TailKeep_spec:
  assumes "TailKeep ep s = (keep, ep', s')"
  shows "(\<not> keep \<longleftrightarrow> list_all (\<lambda>r. ruleProgram r (episodeVars ep) = EvalOther) (keepIf s) \<and>
      \<not> headVerdict (otherwiseRate s) (epEpisodeID (asEpisode ep))) \<and>
    (if keep then \<exists>reason. ep' = mark reason ep else ep' = ep)"
  using tailRules_spec [OF assms [unfolded TailKeep_def]] .

theorem TailKeep_spec_witness:
  "fst (TailKeep \<lparr>asEpisode = zeroEpisode\<lparr>epError := Some \<lparr>errType = ''x'', errMessage = ''y''\<rparr>\<rparr>, asSteps = []\<rparr>
     (exSampler 0))"
proof -
  let ?ep = "\<lparr>asEpisode = zeroEpisode\<lparr>epError := Some \<lparr>errType = ''x'', errMessage = ''y''\<rparr>\<rparr>, asSteps = []\<rparr>"
  obtain keep ep' s' where t: "TailKeep ?ep (exSampler 0) = (keep, ep', s')" by (metis prod_cases3)
  have "\<not> list_all (\<lambda>r. ruleProgram r (episodeVars ?ep) = EvalOther) (keepIf (exSampler 0))"
    by (simp add: exSampler_def episodeVars_def Let_def)
  then show ?thesis using TailKeep_spec [OF t] t by auto
qed

end
