(* ===== verification/Frame.thy ===== *)
theory Frame
  imports Hashing
begin

text \<open>
  Record framing of the disk buffer (\<^verbatim>\<open>src/collector/buffer/frame.go\<close> and the encoding half of
  \<^verbatim>\<open>Append\<close> in \<^verbatim>\<open>io.go\<close>): magic, length, CRC-32, timestamp, payload. A segment file is its byte
  list. Reads of an open file do not fail here; a read past the end is the end-of-file error.
\<close>

section \<open>Constants and data\<close>

definition magic :: "32 word" where
  "magic = 0x54524a31"

definition headerBytes :: nat where
  "headerBytes = 4 + 4 + 4 + 8"

definition maxRecordBytes :: int where
  "maxRecordBytes = 512 * 2 ^ 20"

record Entry =
  Payload :: "byte list"
  WrittenAt :: time
  segID :: nat
  endOff :: nat

datatype readError = UnexpectedEOF | Corrupt

section \<open>Encoding and decoding one record\<close>

definition encodeFrame :: "byte list \<Rightarrow> int \<Rightarrow> byte list" where
  "encodeFrame payload micros =
     be32 magic @ be32 (of_nat (length payload)) @ be32 (crc32 payload) @ be64 (of_int micros) @ payload"

definition readFromFile :: "byte list \<Rightarrow> nat \<Rightarrow> readError + Entry" where
  "readFromFile f off =
     (if length f < off + headerBytes then Inl UnexpectedEOF
      else
        let hdr = take headerBytes (drop off f)
        in if of_be32 (take 4 hdr) \<noteq> magic then Inl Corrupt
           else
             let len = unat (of_be32 (take 4 (drop 4 hdr)));
                 want = of_be32 (take 4 (drop 8 hdr));
                 writtenAt = 1000 * sint (of_be64 (take 8 (drop 12 hdr)))
             in if int len > maxRecordBytes then Inl Corrupt
                else if length f < off + headerBytes + len then Inl UnexpectedEOF
                else
                  let payload = take len (drop (off + headerBytes) f)
                  in if crc32 payload \<noteq> want then Inl Corrupt
                     else Inr \<lparr>Payload = payload, WrittenAt = writtenAt, segID = 0,
                               endOff = off + headerBytes + len\<rparr>)"

lemma readFromFile_progress:
  "readFromFile f off = Inr e \<Longrightarrow> off + headerBytes \<le> endOff e \<and> endOff e \<le> length f"
  by (auto simp: readFromFile_def Let_def split: if_splits)

section \<open>Recovery of a torn segment\<close>

function scanFrames :: "byte list \<Rightarrow> nat \<Rightarrow> nat" where
  "scanFrames f off =
     (if off < length f
      then (case readFromFile f off of Inl _ \<Rightarrow> off | Inr e \<Rightarrow> scanFrames f (endOff e))
      else off)"
  by pat_completeness auto
termination
  by (relation "measure (\<lambda>(f, off). length f - off)")
    (auto dest: readFromFile_progress simp: headerBytes_def)

declare scanFrames.simps [simp del]

definition truncateTorn :: "byte list \<Rightarrow> byte list" where
  "truncateTorn f = (let off = scanFrames f 0 in if off < length f then take off f else f)"

definition firstTimestamp :: "byte list \<Rightarrow> time option" where
  "firstTimestamp f = (case readFromFile f 0 of Inl _ \<Rightarrow> None | Inr e \<Rightarrow> Some (WrittenAt e))"

section \<open>Round trip\<close>

lemma length_encodeFrame [simp]: "length (encodeFrame p t) = headerBytes + length p"
  by (simp add: encodeFrame_def headerBytes_def)

text \<open>The header fields of a frame that starts at \<open>length pre\<close>.\<close>

lemma frame_header:
  fixes p :: "byte list"
  assumes "f = pre @ encodeFrame p t @ post"
  defines "hdr \<equiv> take headerBytes (drop (length pre) f)"
  shows "take 4 hdr = be32 magic" and "take 4 (drop 4 hdr) = be32 (of_nat (length p))"
    and "take 4 (drop 8 hdr) = be32 (crc32 p)" and "take 8 (drop 12 hdr) = be64 (of_int t)"
  by (simp_all add: assms encodeFrame_def headerBytes_def)

lemma frame_payload:
  "take (length p) (drop (length pre + headerBytes) (pre @ encodeFrame p t @ post)) = p"
  by (simp add: encodeFrame_def headerBytes_def)

lemma unat_of_nat_len: "n < 2 ^ 32 \<Longrightarrow> unat (of_nat n :: 32 word) = n"
  by (simp add: unat_of_nat take_bit_nat_eq_self)

lemma sint_of_int_micros: "- (2 ^ 63) \<le> t \<Longrightarrow> t < 2 ^ 63 \<Longrightarrow> sint (of_int t :: 64 word) = t"
  by (simp add: signed_of_int signed_take_bit_int_eq_self)

lemma readFromFile_frame:
  assumes "int (length p) \<le> maxRecordBytes" and "- (2 ^ 63) \<le> t" and "t < 2 ^ 63"
  shows "readFromFile (pre @ encodeFrame p t @ post) (length pre) =
    Inr \<lparr>Payload = p, WrittenAt = 1000 * t, segID = 0, endOff = length pre + headerBytes + length p\<rparr>"
proof -
  let ?f = "pre @ encodeFrame p t @ post"
  note H = frame_header [OF refl, of pre p t post]
  have len: "unat (of_nat (length p) :: 32 word) = length p"
    using assms(1) by (intro unat_of_nat_len) (simp add: maxRecordBytes_def)
  show ?thesis
    unfolding readFromFile_def Let_def H of_be32_be32 of_be64_be64 len
    using assms by (simp add: frame_payload [simplified] sint_of_int_micros)
qed

lemma readFromFile_oversize:
  assumes "maxRecordBytes < int (length p)" and "length p < 2 ^ 32"
  shows "readFromFile (pre @ encodeFrame p t @ post) (length pre) = Inl Corrupt"
  unfolding readFromFile_def Let_def frame_header [OF refl, of pre p t post] of_be32_be32
  using assms by (simp add: unat_of_nat_len)

section \<open>The records of a segment\<close>

text \<open>
  \<open>frames f off\<close> is what a reader of the file finds from an offset on; \<open>whole f off\<close> says that the
  file is made of complete records from that offset to its end, so that the offset is a record
  boundary and appending starts the next record.
\<close>

function frames :: "byte list \<Rightarrow> nat \<Rightarrow> Entry list" where
  "frames f off = (case readFromFile f off of Inl _ \<Rightarrow> [] | Inr e \<Rightarrow> e # frames f (endOff e))"
  by pat_completeness auto
termination
proof (relation "measure (\<lambda>(f, off). length f - off)")
  fix f off e
  assume "readFromFile f off = Inr e"
  from readFromFile_progress [OF this]
  show "((f, endOff e), f, off) \<in> measure (\<lambda>(f, off). length f - off)"
    by (auto simp: headerBytes_def)
qed simp

declare frames.simps [simp del]

definition whole :: "byte list \<Rightarrow> nat \<Rightarrow> bool" where
  "whole f off \<longleftrightarrow> off \<le> length f \<and> scanFrames f off = length f"

lemma frames_past_end [simp]: "length f \<le> off \<Longrightarrow> frames f off = []"
  by (subst frames.simps) (simp add: readFromFile_def headerBytes_def)

lemma take_drop_append: "i + n \<le> length f \<Longrightarrow> take n (drop i (f @ g)) = take n (drop i f)"
  by simp

lemma readFromFile_append:
  assumes "readFromFile f off = Inr e"
  shows "readFromFile (f @ g) off = Inr e"
proof -
  have h: "off + headerBytes \<le> length f"
    using assms by (simp add: readFromFile_def split: if_splits)
  define len where "len = unat (of_be32 (take 4 (drop 4 (take headerBytes (drop off f)))))"
  have p: "off + headerBytes + len \<le> length f"
    using assms h by (simp add: readFromFile_def Let_def len_def split: if_splits)
  show ?thesis
    using assms h p
    unfolding readFromFile_def Let_def take_drop_append [OF h] len_def [symmetric]
      take_drop_append [OF p]
    by (simp split: if_splits)
qed

lemma frames_boundary:
  assumes "whole f off" and "off < length f"
  obtains e where "readFromFile f off = Inr e" and "whole f (endOff e)" and "off < endOff e"
    and "frames f off = e # frames f (endOff e)"
proof (cases "readFromFile f off")
  case (Inl e)
  then have "scanFrames f off = off" by (subst scanFrames.simps) simp
  then show thesis using assms by (simp add: whole_def)
next
  case (Inr e)
  moreover have "scanFrames f off = scanFrames f (endOff e)"
    using assms Inr by (subst scanFrames.simps) simp
  moreover have "frames f off = e # frames f (endOff e)"
    using Inr by (subst frames.simps) simp
  ultimately show thesis
    using that [OF Inr] assms readFromFile_progress [OF Inr]
    by (auto simp: whole_def headerBytes_def)
qed

lemma whole_induct [consumes 1, case_names finish frame]:
  assumes "whole f off"
    and "P (length f)"
    and "\<And>off e. whole f off \<Longrightarrow> off < length f \<Longrightarrow> readFromFile f off = Inr e \<Longrightarrow> whole f (endOff e)
      \<Longrightarrow> off < endOff e \<Longrightarrow> frames f off = e # frames f (endOff e) \<Longrightarrow> P (endOff e) \<Longrightarrow> P off"
  shows "P off"
  using assms(1)
proof (induction "length f - off" arbitrary: off rule: less_induct)
  case less
  show ?case
  proof (cases "off < length f")
    case True
    obtain e where e: "readFromFile f off = Inr e" "whole f (endOff e)" "off < endOff e"
      "frames f off = e # frames f (endOff e)"
      using frames_boundary [OF less.prems True] .
    have "P (endOff e)"
      using less.hyps [of "endOff e"] e True by simp
    then show ?thesis using assms(3) [OF less.prems True e(1) e(2) e(3) e(4)] by simp
  next
    case False
    then have "off = length f" using less.prems by (simp add: whole_def)
    then show ?thesis using assms(2) by simp
  qed
qed

lemma scanFrames_append:
  "whole f off \<Longrightarrow> scanFrames (f @ g) off = scanFrames (f @ g) (length f)"
proof (induction rule: whole_induct)
  case (frame off e)
  have "scanFrames (f @ g) off = scanFrames (f @ g) (endOff e)"
    using frame(2) readFromFile_append [OF frame(3)] by (subst scanFrames.simps) simp
  then show ?case using frame by simp
qed simp

lemma frames_append:
  "whole f off \<Longrightarrow> frames (f @ g) off = frames f off @ frames (f @ g) (length f)"
proof (induction rule: whole_induct)
  case (frame off e)
  have "frames (f @ g) off = e # frames (f @ g) (endOff e)"
    using readFromFile_append [OF frame(3)] by (subst frames.simps) simp
  then show ?case using frame by simp
qed simp

definition storable :: "byte list \<Rightarrow> int \<Rightarrow> bool" where
  "storable p t \<longleftrightarrow> int (length p) \<le> maxRecordBytes \<and> - (2 ^ 63) \<le> t \<and> t < 2 ^ 63"

lemma readFromFile_last:
  assumes "storable p t"
  shows "readFromFile (f @ encodeFrame p t) (length f) =
    Inr \<lparr>Payload = p, WrittenAt = 1000 * t, segID = 0, endOff = length f + headerBytes + length p\<rparr>"
  using readFromFile_frame [of p t f "[]"] assms by (simp add: storable_def)

lemma frames_snoc:
  assumes "whole f off" and "storable p t"
  shows "frames (f @ encodeFrame p t) off = frames f off @
    [\<lparr>Payload = p, WrittenAt = 1000 * t, segID = 0, endOff = length f + headerBytes + length p\<rparr>]"
  using frames_append [OF assms(1), of "encodeFrame p t"]
  by (subst (asm) (2) frames.simps) (simp add: readFromFile_last [OF assms(2)])

lemma whole_snoc:
  assumes "whole f off" and "storable p t"
  shows "whole (f @ encodeFrame p t) off"
proof -
  have "0 < length (encodeFrame p t)" by (simp add: headerBytes_def)
  then have "scanFrames (f @ encodeFrame p t) (length f) = length f + headerBytes + length p"
    by (subst scanFrames.simps) (simp add: readFromFile_last [OF assms(2)] scanFrames.simps)
  then show ?thesis
    using assms scanFrames_append [OF assms(1), of "encodeFrame p t"] by (simp add: whole_def)
qed

lemma whole_empty [simp]: "whole [] 0" "frames [] 0 = []"
  by (simp_all add: whole_def scanFrames.simps)

lemma whole_end: "whole f off \<Longrightarrow> whole f (length f)"
  by (simp add: whole_def scanFrames.simps)

text \<open>A record that was cut short at the end of a file cannot be read.\<close>

lemma readFromFile_torn:
  assumes "n < length (encodeFrame p t)" and "length p < 2 ^ 32"
  shows "\<exists>err. readFromFile (f @ take n (encodeFrame p t)) (length f) = Inl err"
proof (cases "n < headerBytes")
  case True
  then show ?thesis using assms by (simp add: readFromFile_def)
next
  case False
  let ?h = "be32 magic @ be32 (of_nat (length p)) @ be32 (crc32 p) @ be64 (of_int t)"
  have h: "length ?h = headerBytes" by (simp add: headerBytes_def)
  have "take n (encodeFrame p t) = ?h @ take (n - headerBytes) p"
    using False h by (simp add: encodeFrame_def)
  then have "take 4 (drop 4 (take headerBytes (drop (length f) (f @ take n (encodeFrame p t)))))
      = be32 (of_nat (length p))"
    by (simp add: headerBytes_def)
  then show ?thesis
    unfolding readFromFile_def Let_def using assms False
    by (simp add: unat_of_nat_len)
qed

lemma truncateTorn_torn:
  assumes "whole f 0" and "n < length (encodeFrame p t)" and "length p < 2 ^ 32"
  shows "truncateTorn (f @ take n (encodeFrame p t)) = f"
proof -
  obtain err where "readFromFile (f @ take n (encodeFrame p t)) (length f) = Inl err"
    using readFromFile_torn [OF assms(2,3)] by blast
  then have "scanFrames (f @ take n (encodeFrame p t)) (length f) = length f"
    by (simp add: scanFrames.simps)
  then have scan: "scanFrames (f @ take n (encodeFrame p t)) 0 = length f"
    using scanFrames_append [OF assms(1)] by simp
  have cut: "(if length f < length (f @ g) then take (length f) (f @ g) else f @ g) = f" for g :: "byte list"
    by (cases g) simp_all
  show ?thesis unfolding truncateTorn_def Let_def scan by (rule cut)
qed

lemma truncateTorn_whole [simp]: "whole f 0 \<Longrightarrow> truncateTorn f = f"
  by (simp add: truncateTorn_def whole_def)

section \<open>Properties\<close>

lemma whole_concat:
  "(\<forall>(p, t) \<in> set rs. storable p t) \<Longrightarrow>
    whole (concat (map (\<lambda>(p, t). encodeFrame p t) rs)) 0 \<and>
    map (\<lambda>e. (Payload e, WrittenAt e)) (frames (concat (map (\<lambda>(p, t). encodeFrame p t) rs)) 0)
      = map (\<lambda>(p, t). (p, 1000 * t)) rs"
proof (induction rs rule: rev_induct)
  case (snoc r rs)
  obtain p t where r: "r = (p, t)" by (cases r)
  have "storable p t" using snoc.prems r by simp
  then show ?case
    using snoc by (simp add: r whole_snoc frames_snoc)
qed simp

text \<open>
  C36. A record written by \<^verbatim>\<open>Append\<close> is read back exactly, wherever it stands in its segment: same
  payload, same time to the microsecond, and an end offset at the next record. (A payload within
  the reader's size limit, a time in the range of 64-bit microseconds.)
\<close>

theorem frame_round_trip:
  assumes "int (length p) \<le> maxRecordBytes" and "- (2 ^ 63) \<le> t" and "t < 2 ^ 63"
  shows "readFromFile (pre @ encodeFrame p t @ post) (length pre) =
    Inr \<lparr>Payload = p, WrittenAt = 1000 * t, segID = 0,
         endOff = length (pre @ encodeFrame p t)\<rparr>"
  using readFromFile_frame [OF assms, of pre post] by (simp add: add.assoc)

theorem frame_round_trip_witness:
  "readFromFile ([7] @ encodeFrame [1, 2, 3] (- 5) @ [9]) (length [7::byte]) =
    Inr \<lparr>Payload = [1, 2, 3], WrittenAt = 1000 * (- 5), segID = 0,
         endOff = length ([7] @ encodeFrame [1, 2, 3] (- 5))\<rparr>"
  by (rule frame_round_trip) (simp_all add: maxRecordBytes_def)

text \<open>
  C37. Recovery from a torn write loses exactly the record that was never completed: whatever
  records a segment holds, and however short the last write was cut, truncation gives back the
  file as it was before that write, and a reader then finds every completed record in order.
\<close>

theorem torn_tail_recovered:
  assumes "\<forall>(p, t) \<in> set rs. storable p t"
    and "n < length (encodeFrame q u)" and "length q < 2 ^ 32"
  defines "file \<equiv> concat (map (\<lambda>(p, t). encodeFrame p t) rs)"
  shows "truncateTorn (file @ take n (encodeFrame q u)) = file \<and>
    map (\<lambda>e. (Payload e, WrittenAt e)) (frames (truncateTorn (file @ take n (encodeFrame q u))) 0)
      = map (\<lambda>(p, t). (p, 1000 * t)) rs"
  using whole_concat [OF assms(1)] truncateTorn_torn [OF _ assms(2,3)] unfolding file_def by simp_all

theorem torn_tail_recovered_witness:
  "truncateTorn (concat (map (\<lambda>(p, t). encodeFrame p t) [([1, 2], 10), ([], 11)])
       @ take 21 (encodeFrame [5, 6] 12))
     = concat (map (\<lambda>(p, t). encodeFrame p t) [([1, 2], 10), ([], 11)])"
  by (rule torn_tail_recovered [THEN conjunct1])
    (simp_all add: storable_def maxRecordBytes_def headerBytes_def)

text \<open>
  A record larger than the reader's limit can be written but never read: \<^verbatim>\<open>Append\<close> encodes a
  payload of any length, and reading it back is reported as corruption.
\<close>

theorem oversize_record_unreadable:
  assumes "maxRecordBytes < int (length p)" and "length p < 2 ^ 32"
  shows "readFromFile (pre @ encodeFrame p t @ post) (length pre) = Inl Corrupt"
  using assms by (rule readFromFile_oversize)

theorem oversize_record_unreadable_witness:
  "readFromFile ([] @ encodeFrame (replicate (Suc (nat maxRecordBytes)) 0) 1 @ []) (length ([] :: byte list))
     = Inl Corrupt"
  by (rule oversize_record_unreadable) (unfold length_replicate maxRecordBytes_def, simp_all)

end
