(* ===== verification/Buffer.thy ===== *)
theory Buffer
  imports Frame
begin

text \<open>
  The durable queue (\<^verbatim>\<open>src/collector/buffer/buffer.go\<close>, \<^verbatim>\<open>io.go\<close>, \<^verbatim>\<open>crypt.go\<close>).

  A segment carries the contents of its file, so the list of segments is also the buffer's part
  of the disk. The pointer \<^verbatim>\<open>active\<close> is the id of a segment of the list, and the cached read handle
  is not kept: opening a segment for reading may fail at each read. Segment ids and offsets are
  natural numbers (the code's \<^verbatim>\<open>uint64\<close> and \<^verbatim>\<open>int64\<close>, which would wrap after \<open>2 ^ 63\<close> bytes).

  What the operating system answers to the calls of one operation is a value of type \<open>OS\<close>; the
  cipher is a value of type \<open>AEAD\<close> (the code takes both from the Go library). The callback
  \<^verbatim>\<open>OnEvict\<close> is the list of the calls made to it. An operation returns its error (\<open>None\<close> is \<^verbatim>\<open>nil\<close>)
  together with the new buffer, because the code changes the buffer on error paths too.
\<close>

section \<open>State\<close>

record segment =
  segId :: nat
  segData :: "byte list"
  segFile :: bool
  segBytes :: nat
  segSealed :: bool
  segOldest :: "time option"

record AEAD =
  NonceSize :: nat
  SealFn :: "byte list \<Rightarrow> byte list \<Rightarrow> byte list"
  OpenFn :: "byte list \<Rightarrow> byte list \<Rightarrow> byte list option"

record BufOptions =
  MaxBytes :: int
  MaxAge :: duration
  SegmentBytes :: int
  BackpressureAt :: rat

type_synonym evictCall = "string \<times> int \<times> int"

datatype stateFile = NoState | CorruptState | SavedState nat nat

record Buffer =
  opts :: BufOptions
  segments :: "segment list"
  active :: "nat option"
  cursorSeg :: nat
  cursorOff :: nat
  totalBytes :: int
  closed :: bool
  aead :: "AEAD option"
  savedState :: stateFile
  onEvict :: "evictCall list"

record OS =
  removeOK :: "nat \<Rightarrow> bool"
  openOK :: "nat \<Rightarrow> bool"
  createOK :: bool
  shortWrite :: "nat option"
  syncOK :: bool
  closeOK :: bool
  saveOK :: bool
  releaseOK :: bool
  randRead :: "nat \<Rightarrow> byte list option"

datatype bufError =
    ErrClosed | ErrEncrypt | ErrFull | ErrRemove | ErrCreate | ErrWrite | ErrSync | ErrClose
  | ErrSave | ErrOpen | ErrRelease | ErrLocked | ErrDir | ErrStat | ErrReadDir | ErrReadState | ErrTruncate
  | ErrKeyLength nat
  | ErrKeyMismatch string string

definition zeroSegment :: "nat \<Rightarrow> segment" where
  "zeroSegment i = \<lparr>segId = i, segData = [], segFile = True, segBytes = 0, segSealed = False,
     segOldest = None\<rparr>"

section \<open>Encryption at rest\<close>

definition hexVal :: "char \<Rightarrow> nat option" where
  "hexVal c =
     (if CHR ''0'' \<le> c \<and> c \<le> CHR ''9'' then Some (of_char c - 48)
      else if CHR ''a'' \<le> c \<and> c \<le> CHR ''f'' then Some (of_char c - 87)
      else if CHR ''A'' \<le> c \<and> c \<le> CHR ''F'' then Some (of_char c - 55)
      else None)"

fun hexDecode :: "string \<Rightarrow> byte list option" where
  "hexDecode [] = Some []"
| "hexDecode [_] = None"
| "hexDecode (a # b # r) =
     (case (hexVal a, hexVal b, hexDecode r) of
        (Some x, Some y, Some bs) \<Rightarrow> Some (of_nat (16 * x + y) # bs)
      | _ \<Rightarrow> None)"

definition NewAEAD :: "(byte list \<Rightarrow> AEAD) \<Rightarrow> string \<Rightarrow> bufError + AEAD" where
  "NewAEAD aesGCM key =
     (let t = trim_space key;
          k = (if length t = 64 then (case hexDecode t of Some d \<Rightarrow> d | None \<Rightarrow> bytes_of key)
               else bytes_of key)
      in if length k \<noteq> 32 then Inl (ErrKeyLength (length k)) else Inr (aesGCM k))"

definition Fingerprint :: "string \<Rightarrow> string" where
  "Fingerprint key = hex_encode (take 8 (sha256 (bytes_of (''trajectory-buffer-key:'' @ key))))"

definition seal :: "(nat \<Rightarrow> byte list option) \<Rightarrow> AEAD \<Rightarrow> byte list \<Rightarrow> byte list option" where
  "seal rnd A plain =
     (case rnd (NonceSize A) of None \<Rightarrow> None | Some nonce \<Rightarrow> Some (nonce @ SealFn A nonce plain))"

definition openSealed :: "AEAD \<Rightarrow> byte list \<Rightarrow> byte list option" where
  "openSealed A sealed =
     (let n = NonceSize A
      in if length sealed < n then None else OpenFn A (take n sealed) (drop n sealed))"

text \<open>The key file: what is stored before, and what is stored after a successful check.\<close>

definition checkKey :: "string option \<Rightarrow> string \<Rightarrow> bool \<Rightarrow> bufError + string" where
  "checkKey prev fingerprint pending =
     (case prev of
        None \<Rightarrow> Inr (fingerprint @ [CHR 0x0A])
      | Some content \<Rightarrow>
          (let stored = trim_space content
           in if \<not> pending \<or> stored = fingerprint then Inr (fingerprint @ [CHR 0x0A])
              else Inl (ErrKeyMismatch stored fingerprint)))"

section \<open>Segments\<close>

definition activeSeg :: "Buffer \<Rightarrow> segment option" where
  "activeSeg b =
     (case active b of None \<Rightarrow> None | Some a \<Rightarrow> find (\<lambda>s. segId s = a) (segments b))"

definition updActive :: "(segment \<Rightarrow> segment) \<Rightarrow> Buffer \<Rightarrow> Buffer" where
  "updActive f b =
     b\<lparr>segments := map (\<lambda>s. if active b = Some (segId s) then f s else s) (segments b)\<rparr>"

definition findSegmentLocked :: "segment list \<Rightarrow> nat \<Rightarrow> segment option" where
  "findSegmentLocked segs i = find (\<lambda>s. segId s = i) segs"

definition nextSegmentLocked :: "segment list \<Rightarrow> nat \<Rightarrow> segment option" where
  "nextSegmentLocked segs after = find (\<lambda>s. segId s > after) segs"

definition saveStateLocked :: "OS \<Rightarrow> Buffer \<Rightarrow> bufError option \<times> Buffer" where
  "saveStateLocked os b =
     (if saveOK os then (None, b\<lparr>savedState := SavedState (cursorSeg b) (cursorOff b)\<rparr>)
      else (Some ErrSave, b))"

definition reclaimable :: "OS \<Rightarrow> nat \<Rightarrow> segment \<Rightarrow> bool" where
  "reclaimable os cur s \<longleftrightarrow> segId s < cur \<and> segSealed s \<and> removeOK os (segId s)"

definition reclaimLocked :: "OS \<Rightarrow> Buffer \<Rightarrow> Buffer" where
  "reclaimLocked os b =
     b\<lparr>segments := filter (\<lambda>s. \<not> reclaimable os (cursorSeg b) s) (segments b),
       totalBytes := totalBytes b
         - sum_list (map (int \<circ> segBytes) (filter (reclaimable os (cursorSeg b)) (segments b)))\<rparr>"

definition evictOldestLocked :: "OS \<Rightarrow> string \<Rightarrow> Buffer \<Rightarrow> bufError option \<times> Buffer" where
  "evictOldestLocked os reason b =
     (case dropWhile (\<lambda>s. \<not> segSealed s) (segments b) of
        [] \<Rightarrow> (None, b)
      | seg # rest \<Rightarrow>
          if \<not> removeOK os (segId seg) then (Some ErrRemove, b)
          else
            let segs = takeWhile (\<lambda>s. \<not> segSealed s) (segments b) @ rest;
                b1 = b\<lparr>segments := segs, totalBytes := totalBytes b - int (segBytes seg),
                       onEvict := onEvict b @ [(reason, 0, int (segBytes seg))]\<rparr>
            in (None,
                if cursorSeg b \<le> segId seg \<and> segs \<noteq> []
                then b1\<lparr>cursorSeg := segId (hd segs), cursorOff := 0\<rparr> else b1))"

fun expireSegs :: "OS \<Rightarrow> time \<Rightarrow> segment list \<Rightarrow> segment list \<Rightarrow> Buffer \<Rightarrow> Buffer" where
  "expireSegs os cutoff keep [] b = b\<lparr>segments := keep\<rparr>"
| "expireSegs os cutoff keep (seg # rest) b =
     (if segSealed seg \<and> (case segOldest seg of None \<Rightarrow> False | Some t \<Rightarrow> t < cutoff)
         \<and> removeOK os (segId seg)
      then
        let b1 = b\<lparr>totalBytes := totalBytes b - int (segBytes seg),
                   onEvict := onEvict b @ [(''max_age'', 0, int (segBytes seg))]\<rparr>;
            b2 = (if cursorSeg b1 \<le> segId seg
                  then b1\<lparr>cursorSeg := segId seg + 1, cursorOff := 0\<rparr> else b1)
        in expireSegs os cutoff keep rest b2
      else expireSegs os cutoff (keep @ [seg]) rest b)"

definition EvictExpired :: "OS \<Rightarrow> time \<Rightarrow> Buffer \<Rightarrow> Buffer" where
  "EvictExpired os now b = expireSegs os (now - MaxAge (opts b)) [] (segments b) b"

section \<open>Appending\<close>

definition ensureActiveLocked :: "OS \<Rightarrow> Buffer \<Rightarrow> bufError option \<times> Buffer" where
  "ensureActiveLocked os b =
     (if (case activeSeg b of None \<Rightarrow> False | Some s \<Rightarrow> segFile s \<and> \<not> segSealed s) then (None, b)
      else
        let i = (if segments b = [] then 1 else segId (last (segments b)) + 1)
        in if \<not> createOK os then (Some ErrCreate, b)
           else (None, b\<lparr>segments := segments b @ [zeroSegment i], active := Some i\<rparr>))"

definition sealActiveLocked :: "OS \<Rightarrow> Buffer \<Rightarrow> bufError option \<times> Buffer" where
  "sealActiveLocked os b =
     (case activeSeg b of
        None \<Rightarrow> (None, b)
      | Some s \<Rightarrow>
          if segFile s \<and> \<not> syncOK os then (Some ErrSync, b)
          else if segFile s \<and> \<not> closeOK os then (Some ErrClose, b)
          else (None, (updActive (\<lambda>s. s\<lparr>segFile := False, segSealed := True\<rparr>) b)\<lparr>active := None\<rparr>))"

text \<open>The write of one encoded record to the active segment and the accounting after it.\<close>

definition writeRecord :: "OS \<Rightarrow> time \<Rightarrow> byte list \<Rightarrow> Buffer \<Rightarrow> bufError option \<times> Buffer" where
  "writeRecord os now payload b =
     (let buf = encodeFrame payload (now div 1000)
      in case shortWrite os of
           Some n \<Rightarrow> (Some ErrWrite, updActive (\<lambda>s. s\<lparr>segData := segData s @ take n buf\<rparr>) b)
         | None \<Rightarrow>
             let b1 = updActive (\<lambda>s. s\<lparr>segData := segData s @ buf,
                        segOldest := (case segOldest s of None \<Rightarrow> Some now | t \<Rightarrow> t),
                        segBytes := segBytes s + length buf\<rparr>) b;
                 b2 = b1\<lparr>totalBytes := totalBytes b1 + int (length buf)\<rparr>
             in (case activeSeg b2 of
                   None \<Rightarrow> (None, b2)
                 | Some s \<Rightarrow>
                     if int (segBytes s) \<ge> SegmentBytes (opts b2) then sealActiveLocked os b2
                     else (None, b2)))"

definition fits :: "int \<Rightarrow> Buffer \<Rightarrow> bool" where
  "fits need b \<longleftrightarrow> totalBytes b + need \<le> MaxBytes (opts b)"

definition reserveRoom :: "OS \<Rightarrow> int \<Rightarrow> Buffer \<Rightarrow> bufError option \<times> Buffer" where
  "reserveRoom os need b =
     (let b1 = (if fits need b then b else reclaimLocked os b);
          (err, b2) = (if fits need b1 then (None, b1) else evictOldestLocked os ''max_bytes'' b1)
      in case err of
           Some e \<Rightarrow> (Some e, b2)
         | None \<Rightarrow> if fits need b2 then (None, b2) else (Some ErrFull, b2))"

definition sealPayload :: "OS \<Rightarrow> Buffer \<Rightarrow> byte list \<Rightarrow> byte list option" where
  "sealPayload os b payload =
     (case aead b of None \<Rightarrow> Some payload | Some A \<Rightarrow> seal (randRead os) A payload)"

definition Append :: "OS \<Rightarrow> time \<Rightarrow> byte list \<Rightarrow> Buffer \<Rightarrow> bufError option \<times> Buffer" where
  "Append os now payload b =
     (if closed b then (Some ErrClosed, b)
      else
        case sealPayload os b payload of
          None \<Rightarrow> (Some ErrEncrypt, b)
        | Some p \<Rightarrow>
            (case reserveRoom os (int (headerBytes + length p)) b of
               (Some e, b1) \<Rightarrow> (Some e, b1)
             | (None, b1) \<Rightarrow>
                 (case ensureActiveLocked os b1 of
                    (Some e, b2) \<Rightarrow> (Some e, b2)
                  | (None, b2) \<Rightarrow> writeRecord os now p b2)))"

definition Sync :: "OS \<Rightarrow> Buffer \<Rightarrow> bufError option" where
  "Sync os b =
     (case activeSeg b of
        None \<Rightarrow> None
      | Some s \<Rightarrow> if segFile s \<and> \<not> syncOK os then Some ErrSync else None)"

section \<open>Reading\<close>

text \<open>Decrypt an entry; failure is reported to the callback with the sealed length.\<close>

definition openEntryLocked :: "AEAD option \<Rightarrow> Entry \<Rightarrow> evictCall + Entry" where
  "openEntryLocked a e =
     (case a of
        None \<Rightarrow> Inr e
      | Some A \<Rightarrow>
          (case openSealed A (Payload e) of
             None \<Rightarrow> Inl (''decrypt_failed'', 1, int (length (Payload e)))
           | Some plain \<Rightarrow> Inr (e\<lparr>Payload := plain\<rparr>)))"

text \<open>
  The segment for a position: the one with that id, or the oldest when the position lies before
  it (\<^verbatim>\<open>segmentAtCursorLocked\<close>, and the head of the loop of \<^verbatim>\<open>readFrom\<close>).
\<close>

definition segmentAt :: "segment list \<Rightarrow> nat \<Rightarrow> nat \<Rightarrow> (segment \<times> nat) option" where
  "segmentAt segs sid off =
     (case findSegmentLocked segs sid of
        Some s \<Rightarrow> Some (s, off)
      | None \<Rightarrow> if segs \<noteq> [] \<and> sid < segId (hd segs) then Some (hd segs, 0) else None)"

lemma segmentAt_SomeD:
  assumes "segmentAt segs sid off = Some (s, off')"
  shows "s \<in> set segs" and "sid \<le> segId s" and "sid = segId s \<Longrightarrow> off' = off"
  using assms
  by (auto simp: segmentAt_def findSegmentLocked_def find_Some_iff find_None_iff
      split: option.splits if_splits)

lemma nextSegmentLocked_SomeD:
  assumes "nextSegmentLocked segs i = Some s"
  shows "s \<in> set segs" and "i < segId s"
  using assms by (auto simp: nextSegmentLocked_def find_Some_iff)

text \<open>
  The reading loop shared by \<^verbatim>\<open>Next\<close> and \<^verbatim>\<open>readFrom\<close>: from a position, the first record that can be
  read and opened, the position at which the loop stopped, and the callback calls made. A
  segment with an unreadable record is left for the next one; a record that does not open is
  stepped over.
\<close>

definition laterThan :: "segment list \<Rightarrow> nat \<Rightarrow> nat" where
  "laterThan segs sid = length (filter (\<lambda>s. segId s > sid) segs)"

definition dataBytes :: "segment list \<Rightarrow> nat" where
  "dataBytes segs = sum_list (map (length \<circ> segData) segs)"

lemma laterThan_less: "s \<in> set segs \<Longrightarrow> sid < segId s \<Longrightarrow> laterThan segs (segId s) < laterThan segs sid"
proof (induction segs)
  case (Cons x segs)
  have mono: "laterThan xs (segId s) \<le> laterThan xs sid" if "sid < segId s" for xs
    using that by (induction xs) (auto simp: laterThan_def)
  from Cons show ?case
    using mono [of segs] by (auto simp: laterThan_def)
qed simp

lemma length_data_le: "s \<in> set segs \<Longrightarrow> length (segData s) \<le> dataBytes segs"
  by (auto simp: dataBytes_def intro: member_le_sum_list)

function scanFrom ::
  "OS \<Rightarrow> AEAD option \<Rightarrow> segment list \<Rightarrow> nat \<Rightarrow> nat \<Rightarrow> evictCall list \<Rightarrow>
     (bufError + Entry option) \<times> nat \<times> nat \<times> evictCall list"
where
  "scanFrom os a segs sid off calls =
     (case segmentAt segs sid off of
        None \<Rightarrow> (Inr None, sid, off, calls)
      | Some (seg, off1) \<Rightarrow>
          if off1 \<ge> segBytes seg then
            (case nextSegmentLocked segs (segId seg) of
               None \<Rightarrow> (Inr None, segId seg, off1, calls)
             | Some nxt \<Rightarrow> scanFrom os a segs (segId nxt) 0 calls)
          else if \<not> openOK os (segId seg) then (Inl ErrOpen, segId seg, off1, calls)
          else
            (case readFromFile (segData seg) off1 of
               Inl _ \<Rightarrow>
                 let calls1 = calls @ [(''corrupt_record'', 1, int (segBytes seg) - int off1)]
                 in (case nextSegmentLocked segs (segId seg) of
                       None \<Rightarrow> (Inr None, segId seg, off1, calls1)
                     | Some nxt \<Rightarrow> scanFrom os a segs (segId nxt) 0 calls1)
             | Inr e \<Rightarrow>
                 (case openEntryLocked a (e\<lparr>segID := segId seg\<rparr>) of
                    Inl c \<Rightarrow> scanFrom os a segs (segId seg) (endOff e) (calls @ [c])
                  | Inr e' \<Rightarrow> (Inr (Some e'), segId seg, off1, calls))))"
  by pat_completeness auto
termination
proof (relation "measures [\<lambda>(os, a, segs, sid, off, calls). laterThan segs sid,
                           \<lambda>(os, a, segs, sid, off, calls). dataBytes segs - off]", goal_cases)
  case (2 os a segs sid off calls p seg off1 nxt)
  then show ?case
    using segmentAt_SomeD [of segs sid off seg off1] nextSegmentLocked_SomeD [of segs "segId seg" nxt]
      laterThan_less [of nxt segs sid] by auto
next
  case (3 os a segs sid off calls p seg off1 err calls1 nxt)
  then show ?case
    using segmentAt_SomeD [of segs sid off seg off1] nextSegmentLocked_SomeD [of segs "segId seg" nxt]
      laterThan_less [of nxt segs sid] by auto
next
  case (4 os a segs sid off calls p seg off1 e c)
  note S = segmentAt_SomeD [of segs sid off seg off1]
  have at: "segmentAt segs sid off = Some (seg, off1)" using 4 by simp
  have "off1 < endOff e" and "endOff e \<le> dataBytes segs"
    using readFromFile_progress [OF 4(5)] length_data_le [OF S(1) [OF at]]
    by (simp_all add: headerBytes_def)
  then show ?case
    using S(2,3) [OF at] laterThan_less [OF S(1) [OF at], of sid]
    by (cases "sid = segId seg") auto
qed simp

declare scanFrom.simps [simp del]

definition Next :: "OS \<Rightarrow> Buffer \<Rightarrow> (bufError + Entry option) \<times> Buffer" where
  "Next os b =
     (case scanFrom os (aead b) (segments b) (cursorSeg b) (cursorOff b) (onEvict b) of
        (r, sid, off, calls) \<Rightarrow> (r, b\<lparr>cursorSeg := sid, cursorOff := off, onEvict := calls\<rparr>))"

definition readFrom :: "OS \<Rightarrow> nat \<Rightarrow> nat \<Rightarrow> Buffer \<Rightarrow> (bufError + Entry option) \<times> Buffer" where
  "readFrom os sid off b =
     (case scanFrom os (aead b) (segments b) sid off (onEvict b) of
        (r, _, _, calls) \<Rightarrow> (r, b\<lparr>onEvict := calls\<rparr>))"

definition PeekAfter :: "OS \<Rightarrow> Entry list \<Rightarrow> Buffer \<Rightarrow> (bufError + Entry option) \<times> Buffer" where
  "PeekAfter os seen b =
     (if seen = [] then readFrom os (cursorSeg b) (cursorOff b) b
      else readFrom os (segID (last seen)) (endOff (last seen)) b)"

definition Ack :: "OS \<Rightarrow> Entry \<Rightarrow> Buffer \<Rightarrow> bufError option \<times> Buffer" where
  "Ack os e b =
     (let b1 = b\<lparr>cursorSeg := segID e, cursorOff := endOff e\<rparr>
      in case saveStateLocked os b1 of
           (Some err, b2) \<Rightarrow> (Some err, b2)
         | (None, b2) \<Rightarrow> (None, reclaimLocked os b2))"

section \<open>Gauges\<close>

definition pendingBytesLocked :: "Buffer \<Rightarrow> int" where
  "pendingBytesLocked b =
     sum_list (map (\<lambda>s. if segId s > cursorSeg b then int (segBytes s)
                        else if segId s = cursorSeg b then max 0 (int (segBytes s) - int (cursorOff b))
                        else 0) (segments b))"

definition OldestAge :: "time \<Rightarrow> Buffer \<Rightarrow> duration" where
  "OldestAge now b =
     (case find (\<lambda>s. segId s \<ge> cursorSeg b \<and> segOldest s \<noteq> None) (segments b) of
        None \<Rightarrow> 0
      | Some s \<Rightarrow> now - the (segOldest s))"

definition UnderBackpressure :: "Buffer \<Rightarrow> bool" where
  "UnderBackpressure b \<longleftrightarrow>
     of_int (pendingBytesLocked b) \<ge> of_int (MaxBytes (opts b)) * BackpressureAt (opts b)"

section \<open>Closing and recovering\<close>

definition Close :: "OS \<Rightarrow> Buffer \<Rightarrow> bufError option \<times> Buffer" where
  "Close os b =
     (if closed b then (None, b)
      else
        let b1 = b\<lparr>closed := True\<rparr>;
            open = (case activeSeg b1 of None \<Rightarrow> False | Some s \<Rightarrow> segFile s)
        in case Sync os b1 of
             Some e \<Rightarrow> (Some e, b1)
           | None \<Rightarrow>
               if open \<and> \<not> closeOK os then (Some ErrClose, b1)
               else
                 let b2 = updActive (\<lambda>s. s\<lparr>segFile := False\<rparr>) b1
                 in (case saveStateLocked os b2 of
                       (Some e, b3) \<Rightarrow> (Some e, b3)
                     | (None, b3) \<Rightarrow> ((if releaseOK os then None else Some ErrRelease), b3)))"

text \<open>
  A buffer directory: its entries, the state file and the key file, and which calls on it fail while it
  is recovered: listing it, reading the state file, opening a segment for writing, and cutting one off
  (\<^verbatim>\<open>Truncate\<close> and \<^verbatim>\<open>Sync\<close>).
\<close>

record Dirent =
  deName :: string
  deIsDir :: bool
  deContent :: "byte list"

record Disk =
  dEntries :: "Dirent list"
  dState :: stateFile
  dKey :: "string option"
  dListOK :: bool
  dStateOK :: bool
  dOpenOK :: "string \<Rightarrow> bool"
  dCutOK :: "string \<Rightarrow> bool"

definition padZeros :: "nat \<Rightarrow> string \<Rightarrow> string" where
  "padZeros w s = replicate (w - length s) (CHR ''0'') @ s"

definition segPath :: "nat \<Rightarrow> string" where
  "segPath i = padZeros 10 (nat_digits i) @ ''.seg''"

definition ParseUint :: "string \<Rightarrow> nat option" where
  "ParseUint s =
     (if s \<noteq> [] \<and> list_all is_digit s \<and> int (digits_val s) < 2 ^ 64 then Some (digits_val s) else None)"

definition segIdOf :: "Dirent \<Rightarrow> nat option" where
  "segIdOf d =
     (if deIsDir d \<or> \<not> has_suffix (deName d) ''.seg'' then None
      else ParseUint (take (length (deName d) - 4) (deName d)))"

definition statFile :: "Disk \<Rightarrow> string \<Rightarrow> byte list option" where
  "statFile dk path =
     (case find (\<lambda>d. deName d = path \<and> \<not> deIsDir d) (dEntries dk) of
        None \<Rightarrow> None | Some d \<Rightarrow> Some (deContent d))"

definition loadState :: "Disk \<Rightarrow> nat \<times> nat" where
  "loadState dk = (case dState dk of SavedState s off \<Rightarrow> (s, off) | _ \<Rightarrow> (0, 0))"

text \<open>\<^verbatim>\<open>truncateTorn\<close> on a file of the directory: the readable records stay, and nothing is cut off a whole file.\<close>

definition cutSegment :: "Disk \<Rightarrow> string \<Rightarrow> byte list \<Rightarrow> bufError + byte list" where
  "cutSegment dk path content =
     (if \<not> dOpenOK dk path then Inl ErrOpen
      else
        let kept = truncateTorn content
        in if length kept < length content \<and> \<not> dCutOK dk path then Inl ErrTruncate else Inr kept)"

text \<open>One round of the recovery loop: the segment and the callback calls for one id.\<close>

definition recoverSegment :: "nat \<Rightarrow> byte list \<Rightarrow> byte list \<Rightarrow> bool \<Rightarrow> segment" where
  "recoverSegment i content kept isLast =
     \<lparr>segId = i, segData = kept, segFile = False, segBytes = length kept, segSealed = \<not> isLast,
      segOldest = firstTimestamp content\<rparr>"

fun recoverSegments :: "Disk \<Rightarrow> nat list \<Rightarrow> Buffer \<Rightarrow> bufError + Buffer" where
  "recoverSegments dk [] b = Inr b"
| "recoverSegments dk (i # ids) b =
     (case statFile dk (segPath i) of
        None \<Rightarrow> Inl ErrStat
      | Some content \<Rightarrow>
          (case cutSegment dk (segPath i) content of
             Inl e \<Rightarrow> Inl e
           | Inr kept \<Rightarrow>
               let seg = recoverSegment i content kept (ids = []);
                   lost = int (length content) - int (segBytes seg);
                   calls = (if lost > 0 then [(''torn_or_corrupt_tail'', 0, lost)] else [])
               in recoverSegments dk ids
                    (b\<lparr>segments := segments b @ [seg], totalBytes := totalBytes b + int (segBytes seg),
                       onEvict := onEvict b @ calls\<rparr>)))"

definition recover :: "Disk \<Rightarrow> Buffer \<Rightarrow> bufError + Buffer" where
  "recover dk b =
     (if \<not> dListOK dk then Inl ErrReadDir
      else if \<not> dStateOK dk then Inl ErrReadState
      else
        let ids = sort (List.map_filter segIdOf (dEntries dk));
            (cs, co) = loadState dk
        in case recoverSegments dk ids
                  (b\<lparr>cursorSeg := cs, cursorOff := co, savedState := dState dk\<rparr>) of
             Inl e \<Rightarrow> Inl e
           | Inr b1 \<Rightarrow>
               (if segments b1 = [] then Inr b1
                else
                  let l = last (segments b1)
                  in if int (segBytes l) \<ge> SegmentBytes (opts b1)
                     then Inr (b1\<lparr>segments := butlast (segments b1) @ [l\<lparr>segSealed := True\<rparr>], active := None\<rparr>)
                     else Inr (b1\<lparr>active := Some (segId l)\<rparr>)))"

definition workingDisk :: "Dirent list \<Rightarrow> stateFile \<Rightarrow> Disk" where
  "workingDisk es st =
     \<lparr>dEntries = es, dState = st, dKey = None, dListOK = True, dStateOK = True, dOpenOK = (\<lambda>_. True),
      dCutOK = (\<lambda>_. True)\<rparr>"

definition openDefaults :: "BufOptions \<Rightarrow> BufOptions" where
  "openDefaults o1 =
     \<lparr>MaxBytes = (if MaxBytes o1 \<le> 0 then 8 * 2 ^ 30 else MaxBytes o1),
      MaxAge = (if MaxAge o1 \<le> 0 then 24 * 3600 * 10 ^ 9 else MaxAge o1),
      SegmentBytes = (if SegmentBytes o1 \<le> 0 then 64 * 2 ^ 20 else SegmentBytes o1),
      BackpressureAt = (if BackpressureAt o1 \<le> 0 \<or> BackpressureAt o1 > 1 then 4 / 5
                        else BackpressureAt o1)\<rparr>"

definition emptyBuffer :: "BufOptions \<Rightarrow> AEAD option \<Rightarrow> Buffer" where
  "emptyBuffer o1 a =
     \<lparr>opts = o1, segments = [], active = None, cursorSeg = 0, cursorOff = 0, totalBytes = 0,
      closed = False, aead = a, savedState = NoState, onEvict = []\<rparr>"

text \<open>
  \<^verbatim>\<open>Open\<close>: the directory name, whether the lock is free, the cipher library, the options and the
  optional key; on success the buffer and the new contents of the key file.
\<close>

definition OpenBuffer ::
  "string \<Rightarrow> bool \<Rightarrow> (byte list \<Rightarrow> AEAD) \<Rightarrow> BufOptions \<Rightarrow> string \<Rightarrow> Disk \<Rightarrow> bufError + (Buffer \<times> string)"
where
  "OpenBuffer dir lockFree aesGCM o0 key dk =
     (if dir = [] then Inl ErrDir
      else if \<not> lockFree then Inl ErrLocked
      else
        case (if key = [] then Inr None
              else case NewAEAD aesGCM key of Inl e \<Rightarrow> Inl e | Inr A \<Rightarrow> Inr (Some A)) of
          Inl e \<Rightarrow> Inl e
        | Inr a \<Rightarrow>
            (case recover dk (emptyBuffer (openDefaults o0) a) of
               Inl e \<Rightarrow> Inl e
             | Inr b \<Rightarrow>
                 (case checkKey (dKey dk) (if key = [] then ''none'' else Fingerprint key)
                         (pendingBytesLocked b > 0) of
                    Inl e \<Rightarrow> Inl e
                  | Inr content \<Rightarrow> Inr (b, content))))"

end
