(* ===== verification/Buffer_Queue.thy ===== *)
theory Buffer_Queue
  imports Buffer
begin

text \<open>
  The durable queue as a queue: the records a reader will be given, in order, as a list, and what
  each operation of \<^verbatim>\<open>io.go\<close> does to that list.
\<close>

section \<open>The abstract contents\<close>

definition openedAs :: "AEAD option \<Rightarrow> nat \<Rightarrow> Entry \<Rightarrow> Entry option" where
  "openedAs a i e = (case openEntryLocked a (e\<lparr>segID := i\<rparr>) of Inl _ \<Rightarrow> None | Inr e' \<Rightarrow> Some e')"

definition entriesOf :: "AEAD option \<Rightarrow> segment \<Rightarrow> nat \<Rightarrow> Entry list" where
  "entriesOf a s off = List.map_filter (openedAs a (segId s)) (frames (segData s) off)"

definition laterEntries :: "AEAD option \<Rightarrow> segment list \<Rightarrow> nat \<Rightarrow> Entry list" where
  "laterEntries a segs i = concat (map (\<lambda>s. entriesOf a s 0) (filter (\<lambda>s. segId s > i) segs))"

definition entriesAt :: "AEAD option \<Rightarrow> segment list \<Rightarrow> nat \<Rightarrow> nat \<Rightarrow> Entry list" where
  "entriesAt a segs sid off =
     (case segmentAt segs sid off of
        None \<Rightarrow> []
      | Some (s, o1) \<Rightarrow> entriesOf a s o1 @ laterEntries a segs (segId s))"

definition pending :: "Buffer \<Rightarrow> Entry list" where
  "pending b = entriesAt (aead b) (segments b) (cursorSeg b) (cursorOff b)"

definition wfSegs :: "segment list \<Rightarrow> bool" where
  "wfSegs segs \<longleftrightarrow> sorted_wrt (<) (map segId segs) \<and> (\<forall>s \<in> set segs. segBytes s = length (segData s))"

definition readable :: "OS \<Rightarrow> bool" where
  "readable os \<longleftrightarrow> (\<forall>i. openOK os i)"

lemma wfSegs_simps [simp]:
  "wfSegs []"
  "wfSegs (s # segs) \<longleftrightarrow>
    segBytes s = length (segData s) \<and> (\<forall>x \<in> set segs. segId s < segId x) \<and> wfSegs segs"
  by (auto simp: wfSegs_def)

lemma find_segId: "wfSegs segs \<Longrightarrow> s \<in> set segs \<Longrightarrow> find (\<lambda>x. segId x = segId s) segs = Some s"
  by (induction segs) auto

lemma segmentAt_in: "wfSegs segs \<Longrightarrow> s \<in> set segs \<Longrightarrow> segmentAt segs (segId s) off = Some (s, off)"
  by (simp add: segmentAt_def findSegmentLocked_def find_segId)

lemma entriesAt_in:
  "wfSegs segs \<Longrightarrow> s \<in> set segs \<Longrightarrow>
    entriesAt a segs (segId s) off = entriesOf a s off @ laterEntries a segs (segId s)"
  by (simp add: entriesAt_def segmentAt_in)

lemma later_next:
  assumes "wfSegs segs"
  shows "laterEntries a segs i =
    (case nextSegmentLocked segs i of None \<Rightarrow> [] | Some n \<Rightarrow> entriesAt a segs (segId n) 0)"
proof -
  have "filter (\<lambda>s. segId s > i) segs = (case find (\<lambda>s. segId s > i) segs of None \<Rightarrow> []
      | Some n \<Rightarrow> n # filter (\<lambda>s. segId s > segId n) segs)"
    using assms
  proof (induction segs)
    case (Cons s segs)
    have "filter (\<lambda>x. segId x > segId s) segs = segs"
      using Cons.prems by (auto simp: filter_id_conv)
    moreover have "filter (\<lambda>x. segId x > i) segs = segs" if "i < segId s"
      using Cons.prems that by (auto simp: filter_id_conv)
    moreover have "\<not> segId s > segId n" if "find (\<lambda>x. segId x > i) segs = Some n" for n
      using Cons.prems that by (auto simp: find_Some_iff) (metis nth_mem order.asym)
    ultimately show ?case
      using Cons by (auto split: option.splits)
  qed simp
  then show ?thesis
    using entriesAt_in [OF assms] nextSegmentLocked_SomeD(1) [of segs i]
    by (cases "find (\<lambda>s. segId s > i) segs") (simp_all add: laterEntries_def nextSegmentLocked_def)
qed

lemma frames_Inl: "readFromFile f off = Inl err \<Longrightarrow> frames f off = []"
  by (subst frames.simps) simp

lemma entriesOf_Inl [simp]: "readFromFile (segData s) off = Inl err \<Longrightarrow> entriesOf a s off = []"
  by (simp add: entriesOf_def frames_Inl)

lemma entriesOf_end: "wfSegs segs \<Longrightarrow> s \<in> set segs \<Longrightarrow> segBytes s \<le> off \<Longrightarrow> entriesOf a s off = []"
  by (simp add: entriesOf_def wfSegs_def)

lemma entriesOf_Inr:
  assumes "readFromFile (segData s) off = Inr e"
  shows "entriesOf a s off =
    (case openEntryLocked a (e\<lparr>segID := segId s\<rparr>) of Inl _ \<Rightarrow> [] | Inr e' \<Rightarrow> [e']) @ entriesOf a s (endOff e)"
proof -
  have "frames (segData s) off = e # frames (segData s) (endOff e)"
    using assms by (subst frames.simps) simp
  then show ?thesis
    by (simp add: entriesOf_def openedAs_def split: sum.splits)
qed

text \<open>The reading loop returns the first record of the abstract contents and stops at a position
  with the same contents.\<close>

definition firstOf :: "Entry list \<Rightarrow> bufError + Entry option" where
  "firstOf es = Inr (case es of [] \<Rightarrow> None | e # _ \<Rightarrow> Some e)"

lemma scanFrom_spec:
  assumes "wfSegs segs" and "readable os"
  shows "fst (scanFrom os a segs sid off calls) = firstOf (entriesAt a segs sid off) \<and>
    entriesAt a segs (fst (snd (scanFrom os a segs sid off calls)))
        (fst (snd (snd (scanFrom os a segs sid off calls))))
      = entriesAt a segs sid off"
  using assms
proof (induction os a segs sid off calls rule: scanFrom.induct)
  case (1 os a segs sid off calls)
  note wf = 1(4) and rd = 1(5)
  show ?case
  proof (cases "segmentAt segs sid off")
    case None
    then show ?thesis by (simp add: scanFrom.simps entriesAt_def firstOf_def)
  next
    case (Some p)
    obtain s o1 where p: "p = (s, o1)" by (cases p)
    have s: "s \<in> set segs" using Some p by (simp add: segmentAt_SomeD)
    have at: "entriesAt a segs sid off = entriesOf a s o1 @ laterEntries a segs (segId s)"
      using Some p by (simp add: entriesAt_def)
    have stay: "entriesAt a segs (segId s) o1 = entriesAt a segs sid off"
      using at entriesAt_in [OF wf s] by simp
    note eq = scanFrom.simps [of os a segs sid off calls] Some p
    show ?thesis
    proof (cases "o1 \<ge> segBytes s")
      case True
      then show ?thesis
        using 1(1) [OF Some p [symmetric] True] wf rd at stay later_next [OF wf, of a "segId s"]
          entriesOf_end [OF wf s True]
        by (auto simp: eq firstOf_def split: option.splits)
    next
      case False
      have opn: "openOK os (segId s)" using rd by (simp add: readable_def)
      note step = eq False opn
      show ?thesis
      proof (cases "readFromFile (segData s) o1")
        case (Inl err)
        then show ?thesis
          using 1(2) [OF Some p [symmetric] False _ Inl refl] opn wf rd at stay
            later_next [OF wf, of a "segId s"]
          by (auto simp: step firstOf_def Let_def split: option.splits)
      next
        case (Inr e)
        then show ?thesis
          using 1(3) [OF Some p [symmetric] False _ Inr] opn wf rd at stay
            entriesOf_Inr [OF Inr, of a] entriesAt_in [OF wf s, of a "endOff e"]
          by (auto simp: step firstOf_def split: sum.splits)
      qed
    qed
  qed
qed

section \<open>Positions\<close>

lemma entriesOf_head:
  assumes "entriesOf a s off = e # r"
  shows "segID e = segId s \<and> off < endOff e \<and> entriesOf a s (endOff e) = r
    \<and> (whole (segData s) off \<longrightarrow> whole (segData s) (endOff e))"
  using assms
proof (induction "segData s" off rule: frames.induct)
  case (1 off)
  show ?case
  proof (cases "readFromFile (segData s) off")
    case (Inl err)
    then show ?thesis using 1 by simp
  next
    case (Inr f)
    have prog: "off < endOff f" and "off < length (segData s)"
      using readFromFile_progress [OF Inr] by (auto simp: headerBytes_def)
    then have wh: "whole (segData s) off \<Longrightarrow> whole (segData s) (endOff f)"
      by (metis frames_boundary Inr sum.inject(2))
    have opened: "segID e' = segId s \<and> endOff e' = endOff f"
      if "openEntryLocked a (f\<lparr>segID := segId s\<rparr>) = Inr e'" for e'
      using that by (auto simp: openEntryLocked_def split: option.splits)
    show ?thesis
      using 1 Inr prog wh opened entriesOf_Inr [OF Inr, of a]
      by (auto split: sum.splits)
  qed
qed

lemma entriesAt_head:
  assumes "wfSegs segs" and "entriesAt a segs sid off = e # r"
  shows "(\<exists>s \<in> set segs. segId s = segID e) \<and> sid \<le> segID e
    \<and> entriesAt a segs (segID e) (endOff e) = r"
  using assms(2)
proof (induction "laterThan segs sid" arbitrary: sid off rule: less_induct)
  case less
  obtain s o1 where at: "segmentAt segs sid off = Some (s, o1)"
    using less.prems by (auto simp: entriesAt_def split: option.splits)
  note S = segmentAt_SomeD [OF at]
  have es: "entriesOf a s o1 @ laterEntries a segs (segId s) = e # r"
    using less.prems at by (simp add: entriesAt_def)
  show ?case
  proof (cases "entriesOf a s o1")
    case Nil
    with es obtain n where n: "nextSegmentLocked segs (segId s) = Some n"
      and r: "entriesAt a segs (segId n) 0 = e # r"
      by (auto simp: later_next [OF assms(1)] split: option.splits)
    note N = nextSegmentLocked_SomeD [OF n]
    have "laterThan segs (segId n) < laterThan segs sid"
      using N S(2) by (intro laterThan_less) auto
    from less.hyps [OF this r] show ?thesis using N S(2) by auto
  next
    case (Cons e' r')
    then have "e' = e" using es by simp
    with entriesOf_head [OF Cons] es Cons S entriesAt_in [OF assms(1) S(1)]
    show ?thesis by auto
  qed
qed

lemma entriesAt_nth:
  assumes "wfSegs segs" and "entriesAt a segs sid off = xs @ e # r"
  shows "(\<exists>s \<in> set segs. segId s = segID e) \<and> sid \<le> segID e
    \<and> entriesAt a segs (segID e) (endOff e) = r"
  using assms(2)
proof (induction xs arbitrary: sid off)
  case Nil
  then show ?case using entriesAt_head [OF assms(1)] by simp
next
  case (Cons x xs)
  from entriesAt_head [OF assms(1), of a sid off x "xs @ e # r"] Cons.prems
  have "sid \<le> segID x" and "entriesAt a segs (segID x) (endOff x) = xs @ e # r"
    by simp_all
  with Cons.IH show ?case by fastforce
qed

text \<open>A position is usable when it is a record boundary of a segment of the list, or lies before
  all of them.\<close>

definition posOK :: "segment list \<Rightarrow> nat \<Rightarrow> nat \<Rightarrow> bool" where
  "posOK segs sid off \<longleftrightarrow>
     (case findSegmentLocked segs sid of
        Some s \<Rightarrow> whole (segData s) off
      | None \<Rightarrow> if segs = [] then sid = 0 else sid < segId (hd segs))"

lemma findSegmentLocked_SomeD: "findSegmentLocked segs i = Some s \<Longrightarrow> s \<in> set segs \<and> segId s = i"
  by (auto simp: findSegmentLocked_def find_Some_iff)

lemma posOK_in: "wfSegs segs \<Longrightarrow> s \<in> set segs \<Longrightarrow> posOK segs (segId s) off \<longleftrightarrow> whole (segData s) off"
  by (simp add: posOK_def findSegmentLocked_def find_segId)

lemma posOK_head:
  assumes "wfSegs segs" and "\<forall>s \<in> set segs. whole (segData s) 0"
    and "posOK segs sid off" and "entriesAt a segs sid off = e # r"
  shows "posOK segs (segID e) (endOff e)"
  using assms(3,4)
proof (induction "laterThan segs sid" arbitrary: sid off rule: less_induct)
  case less
  obtain s o1 where at: "segmentAt segs sid off = Some (s, o1)"
    using less.prems by (auto simp: entriesAt_def split: option.splits)
  note S = segmentAt_SomeD [OF at]
  have wh: "whole (segData s) o1"
    using less.prems(1) at S(1) assms(2)
    by (auto simp: posOK_def segmentAt_def split: option.splits if_splits)
  have es: "entriesOf a s o1 @ laterEntries a segs (segId s) = e # r"
    using less.prems at by (simp add: entriesAt_def)
  show ?case
  proof (cases "entriesOf a s o1")
    case Nil
    with es obtain n where n: "nextSegmentLocked segs (segId s) = Some n"
      and r: "entriesAt a segs (segId n) 0 = e # r"
      by (auto simp: later_next [OF assms(1)] split: option.splits)
    note N = nextSegmentLocked_SomeD [OF n]
    have "laterThan segs (segId n) < laterThan segs sid"
      using N S(2) by (intro laterThan_less) auto
    from less.hyps [OF this _ r] show ?thesis
      using N(1) assms(2) by (simp add: posOK_in [OF assms(1)])
  next
    case (Cons e' r')
    then have "e' = e" using es by simp
    with entriesOf_head [OF Cons] wh posOK_in [OF assms(1) S(1)] show ?thesis by auto
  qed
qed

lemma posOK_nth:
  assumes "wfSegs segs" and "\<forall>s \<in> set segs. whole (segData s) 0"
    and "posOK segs sid off" and "entriesAt a segs sid off = xs @ e # r"
  shows "posOK segs (segID e) (endOff e)"
  using assms(3,4)
proof (induction xs arbitrary: sid off)
  case Nil
  then show ?case using posOK_head [OF assms(1,2)] by simp
next
  case (Cons x xs)
  then have at: "entriesAt a segs sid off = x # (xs @ e # r)" by simp
  show ?case
    using Cons.IH [OF posOK_head [OF assms(1,2) Cons.prems(1) at]] entriesAt_head [OF assms(1) at]
    by simp
qed

lemma posOK_segmentAt:
  assumes "wfSegs segs" and "\<forall>s \<in> set segs. whole (segData s) 0"
    and "posOK segs sid off" and "segmentAt segs sid off = Some (s, o1)"
  shows "posOK segs (segId s) o1" and "whole (segData s) o1"
  using assms segmentAt_SomeD(1) [OF assms(4)] posOK_in [OF assms(1)]
  by (auto simp: posOK_def segmentAt_def split: option.splits if_splits)

lemma scanFrom_posOK:
  assumes "wfSegs segs" and "\<forall>s \<in> set segs. whole (segData s) 0" and "posOK segs sid off"
  shows "posOK segs (fst (snd (scanFrom os a segs sid off calls)))
           (fst (snd (snd (scanFrom os a segs sid off calls))))"
  using assms
proof (induction os a segs sid off calls rule: scanFrom.induct)
  case (1 os a segs sid off calls)
  show ?case
  proof (cases "segmentAt segs sid off")
    case None
    then show ?thesis using 1 by (simp add: scanFrom.simps)
  next
    case (Some p)
    obtain s o1 where p: "p = (s, o1)" by (cases p)
    note P = posOK_segmentAt [OF 1(4-6) Some [unfolded p]]
    note S = segmentAt_SomeD(1) [OF Some [unfolded p]]
    note eq = scanFrom.simps [of os a segs sid off calls] Some p
    have nxt: "posOK segs (segId n) 0" if "nextSegmentLocked segs (segId s) = Some n" for n
      using nextSegmentLocked_SomeD(1) [OF that] 1(5) by (simp add: posOK_in [OF 1(4)])
    have rec: "posOK segs (segId s) (endOff e)" if "readFromFile (segData s) o1 = Inr e" for e
    proof -
      have "o1 < length (segData s)"
        using readFromFile_progress [OF that] by (auto simp: headerBytes_def)
      then show ?thesis
        using P(2) frames_boundary that posOK_in [OF 1(4) S] by (metis sum.inject(2))
    qed
    consider "o1 \<ge> segBytes s" | "o1 < segBytes s" "\<not> openOK os (segId s)"
      | err where "o1 < segBytes s" "openOK os (segId s)" "readFromFile (segData s) o1 = Inl err"
      | e where "o1 < segBytes s" "openOK os (segId s)" "readFromFile (segData s) o1 = Inr e"
      by (metis not_le sum.exhaust)
    then show ?thesis
    proof cases
      case 1: 1
      then show ?thesis
        using "1.IH"(1) [OF Some p [symmetric] 1] "1.prems" P nxt
        by (auto simp: eq split: option.splits)
    next
      case 2
      then show ?thesis using P by (simp add: eq)
    next
      case 3
      then show ?thesis
        using "1.IH"(2) [OF Some p [symmetric] _ _ 3(3) refl] "1.prems" P nxt
        by (auto simp: eq Let_def split: option.splits)
    next
      case 4
      then show ?thesis
        using "1.IH"(3) [OF Some p [symmetric] _ _ 4(3)] "1.prems" P rec
        by (auto simp: eq split: sum.splits)
    qed
  qed
qed

section \<open>The invariant\<close>

definition bufInv :: "Buffer \<Rightarrow> bool" where
  "bufInv b \<longleftrightarrow>
     wfSegs (segments b) \<and>
     (\<forall>s \<in> set (segments b). whole (segData s) 0) \<and>
     totalBytes b = sum_list (map (int \<circ> segBytes) (segments b)) \<and>
     (case active b of
        None \<Rightarrow> True
      | Some i \<Rightarrow> segments b \<noteq> [] \<and> segId (last (segments b)) = i \<and> \<not> segSealed (last (segments b))) \<and>
     posOK (segments b) (cursorSeg b) (cursorOff b)"

lemma bufInv_iff:
  "bufInv b \<longleftrightarrow>
     wfSegs (segments b) \<and>
     (\<forall>s \<in> set (segments b). whole (segData s) 0) \<and>
     totalBytes b = sum_list (map (int \<circ> segBytes) (segments b)) \<and>
     (\<forall>i. active b = Some i \<longrightarrow>
        segments b \<noteq> [] \<and> segId (last (segments b)) = i \<and> \<not> segSealed (last (segments b))) \<and>
     posOK (segments b) (cursorSeg b) (cursorOff b)"
  by (auto simp: bufInv_def split: option.splits)

lemma bufInvD:
  assumes "bufInv b"
  shows "wfSegs (segments b)" and "\<forall>s \<in> set (segments b). whole (segData s) 0"
    and "totalBytes b = sum_list (map (int \<circ> segBytes) (segments b))"
    and "posOK (segments b) (cursorSeg b) (cursorOff b)"
  using assms by (simp_all add: bufInv_iff)

subsection \<open>Reading\<close>

lemma Next_spec:
  assumes "bufInv b" and "readable os"
  shows "fst (Next os b) = firstOf (pending b)" and "pending (snd (Next os b)) = pending b"
    and "bufInv (snd (Next os b))"
  using scanFrom_spec [OF bufInvD(1) [OF assms(1)] assms(2), where a = "aead b"
      and sid = "cursorSeg b" and off = "cursorOff b" and calls = "onEvict b"]
    scanFrom_posOK [OF bufInvD(1,2,4) [OF assms(1)], where os = os and a = "aead b" and calls = "onEvict b"]
    assms(1)
  by (auto simp: Next_def pending_def bufInv_iff split: prod.splits)

lemma PeekAfter_spec:
  assumes "bufInv b" and "readable os" and "pending b = seen @ rest"
  shows "fst (PeekAfter os seen b) = firstOf rest"
    and "\<exists>calls. snd (PeekAfter os seen b) = b\<lparr>onEvict := calls\<rparr>"
proof -
  note wf = bufInvD(1) [OF assms(1)]
  show "fst (PeekAfter os seen b) = firstOf rest"
  proof (cases seen rule: rev_cases)
    case Nil
    then show ?thesis
      using scanFrom_spec [OF wf assms(2), where a = "aead b" and sid = "cursorSeg b"
          and off = "cursorOff b" and calls = "onEvict b"] assms(3)
      by (auto simp: PeekAfter_def readFrom_def pending_def split: prod.splits)
  next
    case (snoc ys e)
    then have "entriesAt (aead b) (segments b) (segID e) (endOff e) = rest"
      using entriesAt_nth [OF wf, of "aead b" "cursorSeg b" "cursorOff b" ys e rest] assms(3)
      by (simp add: pending_def)
    then show ?thesis
      using scanFrom_spec [OF wf assms(2), where a = "aead b" and sid = "segID e"
          and off = "endOff e" and calls = "onEvict b"] snoc
      by (auto simp: PeekAfter_def readFrom_def pending_def split: prod.splits)
  qed
  show "\<exists>calls. snd (PeekAfter os seen b) = b\<lparr>onEvict := calls\<rparr>"
    by (auto simp: PeekAfter_def readFrom_def split: prod.splits)
qed

subsection \<open>Reclaiming and acknowledging\<close>

lemma wfSegs_filter: "wfSegs segs \<Longrightarrow> wfSegs (filter P segs)"
  by (induction segs) auto

text \<open>Dropping segments that lie behind a position changes nothing at that position.\<close>

lemma find_filter_behind:
  "(\<forall>s \<in> set segs. \<not> P s \<longrightarrow> segId s < sid) \<Longrightarrow>
    findSegmentLocked (filter P segs) sid = findSegmentLocked segs sid"
  unfolding findSegmentLocked_def by (induction segs) auto

lemma filter_behind_id:
  assumes "wfSegs segs" and "segs \<noteq> []" and "sid < segId (hd segs)"
    and "\<forall>s \<in> set segs. \<not> P s \<longrightarrow> segId s < sid"
  shows "filter P segs = segs"
proof -
  have "\<forall>s \<in> set segs. sid < segId s"
    using assms(1-3) by (cases segs) auto
  with assms(4) show ?thesis unfolding filter_id_conv by (meson order.asym)
qed

lemma behind_keep:
  assumes "wfSegs segs" and "posOK segs sid off"
    and "\<forall>s \<in> set segs. \<not> P s \<longrightarrow> segId s < sid"
  shows "entriesAt a (filter P segs) sid off = entriesAt a segs sid off"
    and "posOK (filter P segs) sid off"
proof -
  have "entriesAt a (filter P segs) sid off = entriesAt a segs sid off \<and> posOK (filter P segs) sid off"
  proof (cases "findSegmentLocked segs sid")
    case None
    then have "filter P segs = segs"
      using assms filter_behind_id [OF assms(1) _ _ assms(3)]
      by (auto simp: posOK_def split: if_splits)
    then show ?thesis using assms(2) by simp
  next
    case (Some s)
    then have sid: "segId s = sid" by (simp add: findSegmentLocked_SomeD)
    have "filter (\<lambda>x. segId x > sid) (filter P segs) = filter (\<lambda>x. segId x > sid) segs"
      using assms(3) by (auto simp: filter_filter intro!: filter_cong)
    then have "laterEntries a (filter P segs) (segId s) = laterEntries a segs (segId s)"
      by (simp add: laterEntries_def sid)
    then show ?thesis
      using Some assms(2) by (simp add: entriesAt_def segmentAt_def posOK_def find_filter_behind [OF assms(3)])
  qed
  then show "entriesAt a (filter P segs) sid off = entriesAt a segs sid off"
    and "posOK (filter P segs) sid off" by simp_all
qed

lemma sum_filter_split:
  "sum_list (map f (filter (\<lambda>x. \<not> P x) xs)) = sum_list (map f xs) - sum_list (map (f :: _ \<Rightarrow> int) (filter P xs))"
  by (induction xs) auto

lemma last_filter_keep: "xs \<noteq> [] \<Longrightarrow> P (last xs) \<Longrightarrow> filter P xs \<noteq> [] \<and> last (filter P xs) = last xs"
  by (induction xs rule: rev_induct) auto

lemma reclaimLocked_keeps:
  assumes "bufInv b"
  shows "bufInv (reclaimLocked os b)" and "pending (reclaimLocked os b) = pending b"
proof -
  let ?P = "\<lambda>s. \<not> reclaimable os (cursorSeg b) s"
  note I = bufInvD [OF assms]
  have behind: "\<forall>s \<in> set (segments b). \<not> ?P s \<longrightarrow> segId s < cursorSeg b"
    by (simp add: reclaimable_def)
  note K = behind_keep [OF I(1,4) behind]
  show "pending (reclaimLocked os b) = pending b"
    using K(1) by (simp add: pending_def reclaimLocked_def)
  have act: "filter ?P (segments b) \<noteq> [] \<and> last (filter ?P (segments b)) = last (segments b)"
    if "active b = Some i" for i
    using that assms by (intro last_filter_keep) (auto simp: bufInv_iff reclaimable_def)
  show "bufInv (reclaimLocked os b)"
    using assms K(2) wfSegs_filter [OF I(1)] act
    by (auto simp: bufInv_iff reclaimLocked_def sum_filter_split o_def)
qed

lemma reclaimLocked_frame [op_frame]:
  "cursorSeg (reclaimLocked os b) = cursorSeg b" "cursorOff (reclaimLocked os b) = cursorOff b"
  "opts (reclaimLocked os b) = opts b" "closed (reclaimLocked os b) = closed b"
  "aead (reclaimLocked os b) = aead b" "savedState (reclaimLocked os b) = savedState b"
  "onEvict (reclaimLocked os b) = onEvict b" "active (reclaimLocked os b) = active b"
  by (simp_all add: reclaimLocked_def)

lemma Ack_spec:
  assumes "bufInv b" and "saveOK os" and "pending b = seen @ e # rest"
  shows "fst (Ack os e b) = None" and "pending (snd (Ack os e b)) = rest"
    and "bufInv (snd (Ack os e b))"
    and "savedState (snd (Ack os e b)) = SavedState (segID e) (endOff e)"
proof -
  note I = bufInvD [OF assms(1)]
  let ?b = "b\<lparr>cursorSeg := segID e, cursorOff := endOff e, savedState := SavedState (segID e) (endOff e)\<rparr>"
  have at: "entriesAt (aead b) (segments b) (cursorSeg b) (cursorOff b) = seen @ e # rest"
    using assms(3) by (simp add: pending_def)
  have inv: "bufInv ?b" and pend: "pending ?b = rest"
    using posOK_nth [OF I(1,2,4) at] entriesAt_nth [OF I(1) at] assms(1)
    by (auto simp: bufInv_iff pending_def)
  have ack: "Ack os e b = (None, reclaimLocked os ?b)"
    using assms(2) by (simp add: Ack_def saveStateLocked_def)
  show "fst (Ack os e b) = None" and "pending (snd (Ack os e b)) = rest"
    and "bufInv (snd (Ack os e b))"
    and "savedState (snd (Ack os e b)) = SavedState (segID e) (endOff e)"
    using reclaimLocked_keeps [OF inv] pend by (simp_all add: ack op_frame)
qed

subsection \<open>Appending\<close>

lemma wfSegs_snoc:
  "wfSegs (segs @ [l]) \<longleftrightarrow>
    wfSegs segs \<and> segBytes l = length (segData l) \<and> (\<forall>x \<in> set segs. segId x < segId l)"
  by (induction segs) auto

lemma laterEntries_snoc:
  "laterEntries a (segs @ [l]) i = laterEntries a segs i @ (if i < segId l then entriesOf a l 0 else [])"
  by (simp add: laterEntries_def)

lemma find_snoc:
  "find P (xs @ [x]) = (case find P xs of Some y \<Rightarrow> Some y | None \<Rightarrow> if P x then Some x else None)"
  by (induction xs) auto

text \<open>Extending the last segment extends the contents at every usable position.\<close>

lemma extend_last:
  assumes wf: "wfSegs (ini @ [l])" and pos: "posOK (ini @ [l]) sid off" and wh: "whole (segData l) 0"
    and sid: "segId l' = segId l"
    and ext: "\<And>off. whole (segData l) off \<Longrightarrow> entriesOf a l' off = entriesOf a l off @ new"
    and wh': "\<And>off. whole (segData l) off \<Longrightarrow> whole (segData l') off"
  shows "entriesAt a (ini @ [l']) sid off = entriesAt a (ini @ [l]) sid off @ new"
    and "posOK (ini @ [l']) sid off"
proof -
  have ids: "\<forall>x \<in> set ini. segId x < segId l" using wf by (simp add: wfSegs_snoc)
  have none: "laterEntries a ini (segId l) = []"
    using ids by (auto simp: laterEntries_def)
  have at0: "entriesOf a l' 0 = entriesOf a l 0 @ new" using ext wh by simp
  have "entriesAt a (ini @ [l']) sid off = entriesAt a (ini @ [l]) sid off @ new
      \<and> posOK (ini @ [l']) sid off"
  proof (cases "findSegmentLocked ini sid")
    case (Some s)
    then have "segId s < segId l" using ids findSegmentLocked_SomeD by blast
    with Some pos at0 show ?thesis
      by (simp add: entriesAt_def posOK_def segmentAt_def findSegmentLocked_def find_snoc
          laterEntries_snoc sid)
  next
    case None
    show ?thesis
    proof (cases "sid = segId l")
      case True
      then have "whole (segData l) off"
        using None pos by (simp add: posOK_def findSegmentLocked_def find_snoc)
      then show ?thesis
        using True None ext wh' none
        by (simp add: entriesAt_def posOK_def segmentAt_def findSegmentLocked_def find_snoc
            laterEntries_snoc sid)
    next
      case False
      then have lt: "sid < segId (hd (ini @ [l]))"
        using None pos by (simp add: posOK_def findSegmentLocked_def find_snoc)
      show ?thesis
        using False None lt at0 none ids
        by (cases ini) (auto simp: entriesAt_def posOK_def segmentAt_def findSegmentLocked_def
            find_snoc laterEntries_def sid)
    qed
  qed
  then show "entriesAt a (ini @ [l']) sid off = entriesAt a (ini @ [l]) sid off @ new"
    and "posOK (ini @ [l']) sid off" by simp_all
qed

lemma add_segment:
  assumes wf: "wfSegs segs" and pos: "posOK segs sid off" and i: "\<forall>s \<in> set segs. segId s < i" "0 < i"
  shows "entriesAt a (segs @ [zeroSegment i]) sid off = entriesAt a segs sid off"
    and "posOK (segs @ [zeroSegment i]) sid off"
proof -
  have e: "entriesOf a (zeroSegment i) o1 = []" and z: "segId (zeroSegment i) = i" for o1
    by (simp_all add: entriesOf_def zeroSegment_def)
  have "entriesAt a (segs @ [zeroSegment i]) sid off = entriesAt a segs sid off
     \<and> posOK (segs @ [zeroSegment i]) sid off"
  proof (cases "findSegmentLocked segs sid")
    case (Some s)
    with pos show ?thesis
      by (simp add: entriesAt_def posOK_def segmentAt_def findSegmentLocked_def find_snoc
          laterEntries_snoc e)
  next
    case None
    have "sid < i"
      using None pos i by (cases segs) (auto simp: posOK_def)
    with None pos \<open>sid < i\<close> show ?thesis
      by (cases segs) (auto simp: entriesAt_def posOK_def segmentAt_def findSegmentLocked_def find_snoc
          laterEntries_def e z)
  qed
  then show "entriesAt a (segs @ [zeroSegment i]) sid off = entriesAt a segs sid off"
    and "posOK (segs @ [zeroSegment i]) sid off" by simp_all
qed

lemma last_id_greatest: "wfSegs segs \<Longrightarrow> s \<in> set segs \<Longrightarrow> segId s \<le> segId (last segs)"
  by (cases segs rule: rev_cases) (auto simp: wfSegs_snoc less_imp_le)

text \<open>After \<^verbatim>\<open>ensureActiveLocked\<close> the last segment is the one being written.\<close>

definition writing :: "Buffer \<Rightarrow> bool" where
  "writing b \<longleftrightarrow> segments b \<noteq> [] \<and> active b = Some (segId (last (segments b)))
     \<and> segFile (last (segments b)) \<and> \<not> segSealed (last (segments b))"

lemma activeSeg_last:
  "bufInv b \<Longrightarrow> active b = Some i \<Longrightarrow> activeSeg b = Some (last (segments b))"
  using find_segId [of "segments b" "last (segments b)"] by (auto simp: bufInv_iff activeSeg_def)

lemma ensureActiveLocked_spec:
  assumes "bufInv b" and "ensureActiveLocked os b = (err, b')"
  shows "bufInv b'" and "pending b' = pending b" and "totalBytes b' = totalBytes b"
    and "err = None \<Longrightarrow> writing b'" and "createOK os \<Longrightarrow> err = None"
    and "opts b' = opts b" and "aead b' = aead b" and "closed b' = closed b" and "onEvict b' = onEvict b"
    and "savedState b' = savedState b"
proof -
  note I = bufInvD [OF assms(1)]
  have act: "writing b" if "activeSeg b = Some s" "segFile s" "\<not> segSealed s" for s
    using that activeSeg_last [OF assms(1)] assms(1)
    by (auto simp: activeSeg_def writing_def bufInv_iff split: option.splits)
  define i where "i = (if segments b = [] then 1 else segId (last (segments b)) + 1)"
  have i: "\<forall>s \<in> set (segments b). segId s < i" "0 < i"
    using last_id_greatest [OF I(1)] by (auto simp: i_def less_Suc_eq_le)
  note A = add_segment [OF I(1,4) i]
  let ?b = "b\<lparr>segments := segments b @ [zeroSegment i], active := Some i\<rparr>"
  have new: "bufInv ?b" "pending ?b = pending b" "writing ?b"
    using assms(1) A i by (auto simp: bufInv_iff pending_def writing_def wfSegs_snoc zeroSegment_def)
  have eq: "(err, b') = (if (case activeSeg b of None \<Rightarrow> False | Some s \<Rightarrow> segFile s \<and> \<not> segSealed s)
      then (None, b) else if \<not> createOK os then (Some ErrCreate, b) else (None, ?b))"
    using assms(2) unfolding ensureActiveLocked_def Let_def i_def [symmetric] by simp
  show "bufInv b'" and "pending b' = pending b" and "totalBytes b' = totalBytes b"
    and "err = None \<Longrightarrow> writing b'" and "createOK os \<Longrightarrow> err = None"
    and "opts b' = opts b" and "aead b' = aead b" and "closed b' = closed b" and "onEvict b' = onEvict b"
    and "savedState b' = savedState b"
    using eq new act assms(1) by (auto split: if_splits option.splits)
qed

lemma updActive_last:
  assumes "wfSegs (segments b)" and "segments b \<noteq> []" and "active b = Some (segId (last (segments b)))"
  shows "updActive f b = b\<lparr>segments := butlast (segments b) @ [f (last (segments b))]\<rparr>"
proof (cases "segments b" rule: rev_cases)
  case (snoc ini l)
  then have "\<forall>x \<in> set ini. segId x < segId l" using assms(1) by (simp add: wfSegs_snoc)
  then have "map (\<lambda>s. if segId l = segId s then f s else s) ini = ini"
    by (auto intro!: map_idI)
  then show ?thesis using assms snoc by (simp add: updActive_def)
qed (use assms in simp)

lemma last_update:
  assumes inv: "bufInv b" and ne: "segments b \<noteq> []" and l': "segId l' = segId (last (segments b))"
    "segBytes l' = length (segData l')" "segSealed l' = segSealed (last (segments b)) \<or> act = None"
    and act: "act = active b \<or> act = None"
    and ext: "\<And>off. whole (segData (last (segments b))) off \<Longrightarrow>
      entriesOf (aead b) l' off = entriesOf (aead b) (last (segments b)) off @ new"
    and wh': "\<And>off. whole (segData (last (segments b))) off \<Longrightarrow> whole (segData l') off"
  defines "b' \<equiv> b\<lparr>segments := butlast (segments b) @ [l'], active := act,
    totalBytes := totalBytes b + (int (segBytes l') - int (segBytes (last (segments b))))\<rparr>"
  shows "bufInv b'" and "pending b' = pending b @ new"
proof -
  obtain ini l where segs: "segments b = ini @ [l]" using ne by (metis rev_exhaust)
  note I = bufInvD [OF inv, unfolded segs]
  have wl: "whole (segData l) 0" and sl: "segId l' = segId l" using I(2) l'(1) segs by simp_all
  have ext1: "\<And>off. whole (segData l) off \<Longrightarrow> entriesOf (aead b) l' off = entriesOf (aead b) l off @ new"
    and wh1: "\<And>off. whole (segData l) off \<Longrightarrow> whole (segData l') off"
    using ext wh' segs by simp_all
  note E = extend_last [OF I(1,4) wl sl ext1 wh1]
  have "pending b' = pending b @ new" and "posOK (ini @ [l']) (cursorSeg b) (cursorOff b)"
    using E by (simp_all add: b'_def pending_def segs)
  then show "pending b' = pending b @ new" and "bufInv b'"
    using inv wh' l' act I(2) by (auto simp: bufInv_iff b'_def segs wfSegs_snoc)
qed

lemma sealActiveLocked_spec:
  assumes "bufInv b" and "writing b" and "sealActiveLocked os b = (err, b')"
  shows "bufInv b'" and "pending b' = pending b" and "totalBytes b' = totalBytes b"
    and "syncOK os \<and> closeOK os \<Longrightarrow> err = None"
    and "opts b' = opts b" and "aead b' = aead b" and "closed b' = closed b" and "onEvict b' = onEvict b"
    and "savedState b' = savedState b"
proof -
  note I = bufInvD [OF assms(1)]
  let ?l = "last (segments b)"
  let ?b = "b\<lparr>segments := butlast (segments b) @ [?l\<lparr>segFile := False, segSealed := True\<rparr>], active := None\<rparr>"
  have w: "segments b \<noteq> []" "active b = Some (segId ?l)" "segFile ?l"
    using assms(2) by (simp_all add: writing_def)
  have eq: "(err, b') = (if \<not> syncOK os then (Some ErrSync, b)
      else if \<not> closeOK os then (Some ErrClose, b) else (None, ?b))"
    using assms(3) w
    by (auto simp: sealActiveLocked_def activeSeg_last [OF assms(1) w(2)] updActive_last [OF I(1) w(1,2)]
        split: if_splits)
  have seg: "segBytes ?l = length (segData ?l)" using I(1) w(1) by (auto simp: wfSegs_def)
  have new: "bufInv ?b \<and> pending ?b = pending b"
    using last_update [OF assms(1) w(1), of "?l\<lparr>segFile := False, segSealed := True\<rparr>" None "[]"] seg
    by (simp add: entriesOf_def)
  show "bufInv b'" and "pending b' = pending b" and "totalBytes b' = totalBytes b"
    and "syncOK os \<and> closeOK os \<Longrightarrow> err = None"
    and "opts b' = opts b" and "aead b' = aead b" and "closed b' = closed b" and "onEvict b' = onEvict b"
    and "savedState b' = savedState b"
    using eq new assms(1) by (auto split: if_splits)
qed

text \<open>The entry a reader is given for a record written at the end of a segment.\<close>

definition writtenEntry :: "AEAD option \<Rightarrow> segment \<Rightarrow> byte list \<Rightarrow> time \<Rightarrow> Entry list" where
  "writtenEntry a l p now =
     (case openedAs a (segId l) \<lparr>Payload = p, WrittenAt = 1000 * (now div 1000), segID = 0,
             endOff = length (segData l) + headerBytes + length p\<rparr> of
        None \<Rightarrow> [] | Some e \<Rightarrow> [e])"

lemma writeRecord_spec:
  assumes "bufInv b" and "writing b" and "storable p (now div 1000)" and "shortWrite os = None"
    and "writeRecord os now p b = (err, b')"
  shows "bufInv b'" and "pending b' = pending b @ writtenEntry (aead b) (last (segments b)) p now"
    and "totalBytes b' = totalBytes b + int (headerBytes + length p)"
    and "syncOK os \<and> closeOK os \<Longrightarrow> err = None"
    and "opts b' = opts b" and "aead b' = aead b" and "closed b' = closed b" and "onEvict b' = onEvict b"
    and "savedState b' = savedState b"
proof -
  note I = bufInvD [OF assms(1)]
  let ?l = "last (segments b)" and ?buf = "encodeFrame p (now div 1000)"
  let ?l' = "?l\<lparr>segData := segData ?l @ ?buf,
    segOldest := (case segOldest ?l of None \<Rightarrow> Some now | t \<Rightarrow> t), segBytes := segBytes ?l + length ?buf\<rparr>"
  let ?b = "b\<lparr>segments := butlast (segments b) @ [?l'], totalBytes := totalBytes b + int (length ?buf)\<rparr>"
  have w: "segments b \<noteq> []" "active b = Some (segId ?l)" "segFile ?l" "\<not> segSealed ?l"
    using assms(2) by (simp_all add: writing_def)
  have seg: "segBytes ?l = length (segData ?l)" using I(1) w(1) by (auto simp: wfSegs_def)
  have ext: "entriesOf (aead b) ?l' off = entriesOf (aead b) ?l off @ writtenEntry (aead b) ?l p now"
    if "whole (segData ?l) off" for off
    by (simp add: entriesOf_def frames_snoc [OF that assms(3)] writtenEntry_def List.map_filter_def
        split: option.splits)
  have new: "bufInv ?b" "pending ?b = pending b @ writtenEntry (aead b) ?l p now"
    using last_update [OF assms(1) w(1), of ?l' "active b"] ext whole_snoc [OF _ assms(3)] seg
    by simp_all
  have wb: "writing ?b" using w by (simp add: writing_def)
  have eq: "(err, b') = (if int (segBytes ?l') \<ge> SegmentBytes (opts b) then sealActiveLocked os ?b else (None, ?b))"
  proof -
    have "activeSeg ?b = Some ?l'" using activeSeg_last [OF new(1)] w by simp
    then have "writeRecord os now p b = (if int (segBytes ?l') \<ge> SegmentBytes (opts b)
        then sealActiveLocked os ?b else (None, ?b))"
      using assms(4) by (simp add: writeRecord_def Let_def updActive_last [OF I(1) w(1,2)]
          del: length_encodeFrame of_nat_add)
    then show ?thesis using assms(5) by simp
  qed
  show "bufInv b'" and "pending b' = pending b @ writtenEntry (aead b) (last (segments b)) p now"
    and "totalBytes b' = totalBytes b + int (headerBytes + length p)"
    and "syncOK os \<and> closeOK os \<Longrightarrow> err = None"
    and "opts b' = opts b" and "aead b' = aead b" and "closed b' = closed b" and "onEvict b' = onEvict b"
    and "savedState b' = savedState b"
    using eq new sealActiveLocked_spec [OF new(1) wb, where os = os and err = err and b' = b']
    by (auto split: if_splits)
qed

lemma evictOldestLocked_silent:
  assumes "evictOldestLocked os reason b = (err, b')" and "onEvict b' = onEvict b"
  shows "b' = b"
  using assms by (auto simp: evictOldestLocked_def Let_def split: list.splits if_splits)

lemma reserveRoom_spec:
  assumes "bufInv b" and "reserveRoom os need b = (err, b')" and "onEvict b' = onEvict b"
  shows "bufInv b'" and "pending b' = pending b" and "err = None \<Longrightarrow> fits need b'"
    and "opts b' = opts b" and "aead b' = aead b" and "closed b' = closed b" and "savedState b' = savedState b"
    and "fits need b \<Longrightarrow> err = None \<and> b' = b"
proof -
  define b1 where "b1 = (if fits need b then b else reclaimLocked os b)"
  have b1: "bufInv b1" "pending b1 = pending b" "onEvict b1 = onEvict b" "opts b1 = opts b"
    "aead b1 = aead b" "closed b1 = closed b" "savedState b1 = savedState b"
    using assms(1) reclaimLocked_keeps [OF assms(1)] by (simp_all add: b1_def op_frame)
  have "b' = b1" and "err = None \<Longrightarrow> fits need b1" and "fits need b \<Longrightarrow> err = None"
    using assms(2,3) evictOldestLocked_silent [of os "''max_bytes''" b1] b1(3)
    unfolding reserveRoom_def b1_def [symmetric] Let_def
    by (auto split: if_splits prod.splits option.splits simp: b1_def)
  then show "bufInv b'" and "pending b' = pending b" and "err = None \<Longrightarrow> fits need b'"
    and "opts b' = opts b" and "aead b' = aead b" and "closed b' = closed b" and "savedState b' = savedState b"
    and "fits need b \<Longrightarrow> err = None \<and> b' = b"
    using b1 by (simp_all add: b1_def)
qed

text \<open>
  The laws of the cipher and the random source that the buffer relies on: opening what was sealed
  under the same nonce gives the plaintext, and the source fills the buffer it is given.
\<close>

definition cipherOK :: "AEAD option \<Rightarrow> bool" where
  "cipherOK a \<longleftrightarrow> (\<forall>A n p. a = Some A \<longrightarrow> length n = NonceSize A \<longrightarrow> OpenFn A n (SealFn A n p) = Some p)"

definition randOK :: "OS \<Rightarrow> bool" where
  "randOK os \<longleftrightarrow> (\<forall>n bs. randRead os n = Some bs \<longrightarrow> length bs = n)"

lemma openSealed_seal:
  assumes "cipherOK (Some A)" and "randOK os" and "seal (randRead os) A payload = Some p"
  shows "openSealed A p = Some payload"
proof -
  obtain nonce where n: "randRead os (NonceSize A) = Some nonce" and p: "p = nonce @ SealFn A nonce payload"
    using assms(3) by (auto simp: seal_def split: option.splits)
  have "length nonce = NonceSize A" using assms(2) n by (simp add: randOK_def)
  then show ?thesis using assms(1) by (simp add: openSealed_def p cipherOK_def)
qed

lemma openEntry_sealed:
  assumes "cipherOK (aead b)" and "randOK os" and "sealPayload os b payload = Some p" and "Payload e = p"
  shows "openedAs (aead b) i e = Some (e\<lparr>segID := i, Payload := payload\<rparr>)"
proof (cases "aead b")
  case None
  then show ?thesis using assms(3,4) by (simp add: openedAs_def openEntryLocked_def sealPayload_def)
next
  case (Some A)
  then have "openSealed A p = Some payload"
    using openSealed_seal [of A os payload p] assms by (simp add: sealPayload_def)
  then show ?thesis using assms(4) Some by (simp add: openedAs_def openEntryLocked_def)
qed

lemma writtenEntry_sealed:
  assumes "cipherOK (aead b)" and "randOK os" and "sealPayload os b payload = Some p"
  shows "\<exists>e. writtenEntry (aead b) l p now = [e] \<and> Payload e = payload
    \<and> WrittenAt e = 1000 * (now div 1000)"
  by (simp add: writtenEntry_def openEntry_sealed [OF assms])

lemma ensureActiveLocked_onEvict [op_frame]: "onEvict (snd (ensureActiveLocked os b)) = onEvict b"
  by (simp add: ensureActiveLocked_def Let_def)

lemma sealActiveLocked_frame [op_frame]:
  "onEvict (snd (sealActiveLocked os b)) = onEvict b"
  "fst (sealActiveLocked os b) \<in> {None, Some ErrSync, Some ErrClose}"
  by (simp_all add: sealActiveLocked_def updActive_def split: option.splits)

lemma writeRecord_frame [op_frame]:
  "onEvict (snd (writeRecord os now p b)) = onEvict b"
  "shortWrite os = None \<Longrightarrow> fst (writeRecord os now p b) \<in> {None, Some ErrSync, Some ErrClose}"
  using op_frame
  by (auto simp: writeRecord_def Let_def updActive_def split: option.splits)

lemma Append_spec:
  assumes inv: "bufInv b" and app: "Append os now payload b = (err, b')"
    and quiet: "onEvict b' = onEvict b" and sw: "shortWrite os = None"
    and cipher: "cipherOK (aead b)" "randOK os"
    and store: "\<And>p. sealPayload os b payload = Some p \<Longrightarrow> storable p (now div 1000)"
  shows "bufInv b'"
    and "err = None \<Longrightarrow> \<exists>e. pending b' = pending b @ [e] \<and> Payload e = payload
      \<and> WrittenAt e = 1000 * (now div 1000)"
    and "err \<noteq> None \<Longrightarrow> err \<notin> {Some ErrSync, Some ErrClose} \<Longrightarrow> pending b' = pending b"
proof -
  have "bufInv b' \<and> (err = None \<longrightarrow> (\<exists>e. pending b' = pending b @ [e] \<and> Payload e = payload
      \<and> WrittenAt e = 1000 * (now div 1000)))
    \<and> (err \<noteq> None \<longrightarrow> err \<notin> {Some ErrSync, Some ErrClose} \<longrightarrow> pending b' = pending b)"
  proof (cases "closed b \<or> sealPayload os b payload = None")
    case True
    then show ?thesis using app inv by (auto simp: Append_def split: if_splits)
  next
    case False
    then obtain p where p: "sealPayload os b payload = Some p" and cl: "\<not> closed b" by auto
    obtain e1 b1 where r: "reserveRoom os (int (headerBytes + length p)) b = (e1, b1)"
      by (metis surj_pair)
    obtain e2 b2 where a: "ensureActiveLocked os b1 = (e2, b2)" by (metis surj_pair)
    obtain e3 b3 where w: "writeRecord os now p b2 = (e3, b3)" by (metis surj_pair)
    have eq: "(err, b') = (if e1 \<noteq> None then (e1, b1) else if e2 \<noteq> None then (e2, b2) else (e3, b3))"
      using app p cl r a w by (auto simp: Append_def split: option.splits)
    have grow: "onEvict b1 = onEvict b"
    proof -
      have "onEvict b2 = onEvict b1" and "onEvict b3 = onEvict b2"
        using ensureActiveLocked_onEvict [of os b1] writeRecord_frame(1) [of os now p b2] a w by simp_all
      then show ?thesis using quiet eq by (simp split: if_splits)
    qed
    note R = reserveRoom_spec [OF inv r grow]
    note E = ensureActiveLocked_spec [OF R(1) a]
    show ?thesis
    proof (cases "e1 = None \<and> e2 = None")
      case True
      note W = writeRecord_spec [OF E(1) E(4) store [OF p] sw w]
      have "e3 \<in> {None, Some ErrSync, Some ErrClose}"
        using writeRecord_frame(2) [OF sw, of now p b2] w by simp
      moreover have "\<exists>e. writtenEntry (aead b2) (last (segments b2)) p now = [e] \<and> Payload e = payload
          \<and> WrittenAt e = 1000 * (now div 1000)"
        using writtenEntry_sealed [OF cipher p] R(5) E(7) by simp
      ultimately show ?thesis
        using True eq W(1,2) R(2) E(2) by auto
    next
      case False
      then show ?thesis using eq R E by (auto split: if_splits)
    qed
  qed
  then show "bufInv b'"
    and "err = None \<Longrightarrow> \<exists>e. pending b' = pending b @ [e] \<and> Payload e = payload
      \<and> WrittenAt e = 1000 * (now div 1000)"
    and "err \<noteq> None \<Longrightarrow> err \<notin> {Some ErrSync, Some ErrClose} \<Longrightarrow> pending b' = pending b"
    by auto
qed

section \<open>Evicting the oldest segment\<close>

text \<open>
  In the usual order of a directory every segment is sealed, the one being written apart. (A segment
  reopened after a restart is not sealed, and what follows it is out of this order.)
\<close>

definition tidy :: "Buffer \<Rightarrow> bool" where
  "tidy b \<longleftrightarrow> (\<forall>s \<in> set (segments b). segSealed s \<or> writing b \<and> s = last (segments b))"

text \<open>What is left of a list of records when the group of the first one is dropped.\<close>

definition dropOldest :: "('e \<Rightarrow> 'g) \<Rightarrow> 'e list \<Rightarrow> 'e list" where
  "dropOldest grp es = dropWhile (\<lambda>e. grp e = grp (hd es)) es"

lemma entriesOf_segID: "e \<in> set (entriesOf a s off) \<Longrightarrow> segID e = segId s"
proof -
  have "openedAs a i x = Some y \<Longrightarrow> segID y = i" for i x y
    by (auto simp: openedAs_def openEntryLocked_def split: sum.splits option.splits)
  then show "e \<in> set (entriesOf a s off) \<Longrightarrow> segID e = segId s"
    by (auto simp: entriesOf_def map_filter_def)
qed

lemma dropOldest_group:
  assumes "\<forall>e \<in> set xs. grp e = g" and "\<forall>e \<in> set ys. grp e \<noteq> g"
  shows "ys = xs @ ys \<or> ys = dropOldest grp (xs @ ys)"
proof (cases xs)
  case (Cons x r)
  have "dropWhile (\<lambda>e. grp e = g) ys = ys" using assms(2) by (simp add: dropWhile_eq_self_iff)
  moreover have "dropWhile (\<lambda>e. grp e = g) (xs @ ys) = dropWhile (\<lambda>e. grp e = g) ys"
    using assms(1) by (simp add: dropWhile_append2)
  ultimately show ?thesis using Cons assms(1) by (simp add: dropOldest_def)
qed simp

text \<open>Without its first segment a list of segments has, at a usable position, the same records or those behind the
  first segment.\<close>

definition allEntries :: "AEAD option \<Rightarrow> segment list \<Rightarrow> Entry list" where
  "allEntries a segs = concat (map (\<lambda>s. entriesOf a s 0) segs)"

definition atStart :: "segment list \<Rightarrow> nat \<Rightarrow> nat \<Rightarrow> bool" where
  "atStart segs sid off \<longleftrightarrow>
     segs \<noteq> [] \<and> (sid < segId (hd segs) \<or> sid = segId (hd segs) \<and> off = 0)"

lemma laterEntries_all: "\<forall>s \<in> set segs. i < segId s \<Longrightarrow> laterEntries a segs i = allEntries a segs"
  by (simp add: laterEntries_def allEntries_def)

lemma atStart_entries:
  assumes "wfSegs segs" and "atStart segs sid off" and "\<forall>s \<in> set segs. whole (segData s) 0"
  shows "entriesAt a segs sid off = allEntries a segs" and "posOK segs sid off"
proof -
  obtain s r where segs: "segs = s # r" using assms(2) by (cases segs) (auto simp: atStart_def)
  have gt: "\<forall>x \<in> set r. segId s < segId x" using assms(1) segs by simp
  have none: "sid < segId s \<Longrightarrow> findSegmentLocked segs sid = None"
    using gt segs by (auto simp: findSegmentLocked_def find_None_iff)
  have all: "entriesOf a s 0 @ laterEntries a r (segId s) = allEntries a segs"
    using laterEntries_all [OF gt, of a] by (simp add: allEntries_def segs)
  have later: "laterEntries a segs (segId s) = laterEntries a r (segId s)"
    by (simp add: laterEntries_def segs)
  show "entriesAt a segs sid off = allEntries a segs" and "posOK segs sid off"
    using assms(2,3) none all later segs
    by (auto simp: atStart_def entriesAt_def posOK_def segmentAt_def findSegmentLocked_def)
qed

lemma drop_first:
  assumes wf: "wfSegs (s # segs)" and ne: "segs \<noteq> []" and pos: "posOK (s # segs) sid off"
    and wh: "\<forall>x \<in> set segs. whole (segData x) 0"
  shows "posOK segs sid off"
    and "entriesAt a segs sid off \<in> {entriesAt a (s # segs) sid off, dropOldest segID (entriesAt a (s # segs) sid off)}"
    and "sid \<le> segId s \<Longrightarrow> entriesAt a segs sid off = allEntries a segs"
proof -
  have gt: "\<forall>x \<in> set segs. segId s < segId x" and wf': "wfSegs segs" using wf by simp_all
  have "posOK segs sid off \<and>
      entriesAt a segs sid off \<in> {entriesAt a (s # segs) sid off, dropOldest segID (entriesAt a (s # segs) sid off)}
      \<and> (sid \<le> segId s \<longrightarrow> entriesAt a segs sid off = allEntries a segs)"
  proof (cases "segId s < sid")
    case True
    then obtain t where t: "findSegmentLocked (s # segs) sid = Some t"
      using pos by (auto simp: posOK_def split: option.splits)
    then have t': "findSegmentLocked segs sid = Some t" using True by (simp add: findSegmentLocked_def)
    have "laterEntries a (s # segs) (segId t) = laterEntries a segs (segId t)"
      using True findSegmentLocked_SomeD [OF t] by (simp add: laterEntries_def)
    then show ?thesis using t t' pos True by (simp add: entriesAt_def posOK_def segmentAt_def)
  next
    case False
    then have start: "atStart segs sid off" using gt ne by (cases segs) (auto simp: atStart_def)
    note A = atStart_entries [OF wf' start wh]
    obtain o1 where "entriesAt a (s # segs) sid off = entriesOf a s o1 @ laterEntries a (s # segs) (segId s)"
    proof (cases "sid = segId s")
      case True
      then show ?thesis using that [of off] by (simp add: entriesAt_def segmentAt_def findSegmentLocked_def)
    next
      case neq: False
      then have "findSegmentLocked (s # segs) sid = None" "sid < segId s"
        using False gt by (auto simp: findSegmentLocked_def find_None_iff)
      then show ?thesis using that [of 0] by (simp add: entriesAt_def segmentAt_def)
    qed
    moreover have "laterEntries a (s # segs) (segId s) = allEntries a segs"
      using laterEntries_all [OF gt, of a] by (simp add: laterEntries_def)
    moreover have "\<forall>e \<in> set (allEntries a segs). segID e \<noteq> segId s"
      using gt entriesOf_segID by (fastforce simp: allEntries_def)
    ultimately show ?thesis
      using A dropOldest_group [of "entriesOf a s o1" segID "segId s" "allEntries a segs"] by (auto dest: entriesOf_segID)
  qed
  then show "posOK segs sid off"
    and "entriesAt a segs sid off \<in> {entriesAt a (s # segs) sid off, dropOldest segID (entriesAt a (s # segs) sid off)}"
    and "sid \<le> segId s \<Longrightarrow> entriesAt a segs sid off = allEntries a segs" by blast+
qed

text \<open>
  An eviction in the usual order that leaves a segment drops the pending records of the oldest
  segment that has any, or none, and reports it.
\<close>

lemma evictOldestLocked_tidy:
  assumes inv: "bufInv b" and tidy: "tidy b" and ev: "evictOldestLocked os reason b = (err, b')"
    and left: "segments b' \<noteq> []"
  shows "bufInv b'" and "tidy b'" and "b' = b \<or> onEvict b' \<noteq> onEvict b \<and> segments b' = tl (segments b)"
    and "pending b' \<in> {pending b, dropOldest segID (pending b)}"
    and "b' = b \<or> (cursorSeg b', cursorOff b') = (cursorSeg b, cursorOff b) \<and> segId (hd (segments b)) < cursorSeg b
      \<or> cursorSeg b \<le> segId (hd (segments b)) \<and> (cursorSeg b', cursorOff b') = (segId (hd (segments b')), 0)"
    and "opts b' = opts b" and "aead b' = aead b" and "closed b' = closed b" and "savedState b' = savedState b"
    and "active b' = active b"
proof -
  note I = bufInvD [OF inv]
  have goal: "bufInv b' \<and> tidy b' \<and> (b' = b \<or> onEvict b' \<noteq> onEvict b \<and> segments b' = tl (segments b))
    \<and> pending b' \<in> {pending b, dropOldest segID (pending b)}
    \<and> (b' = b \<or> (cursorSeg b', cursorOff b') = (cursorSeg b, cursorOff b) \<and> segId (hd (segments b)) < cursorSeg b
      \<or> cursorSeg b \<le> segId (hd (segments b)) \<and> (cursorSeg b', cursorOff b') = (segId (hd (segments b')), 0))
    \<and> opts b' = opts b \<and> aead b' = aead b \<and> closed b' = closed b \<and> savedState b' = savedState b \<and> active b' = active b"
  proof (cases "b' = b")
    case True
    then show ?thesis using inv tidy by simp
  next
    case False
    then obtain s r where dw: "dropWhile (\<lambda>s. \<not> segSealed s) (segments b) = s # r" and rm: "removeOK os (segId s)"
      using ev by (auto simp: evictOldestLocked_def split: list.splits if_splits)
    have sealed: "segSealed s" using dw by (metis hd_dropWhile list.sel(1) list.distinct(1))
    have segs: "segments b = s # r"
    proof (cases "segments b")
      case (Cons x xs)
      show ?thesis
      proof (cases "segSealed x")
        case unsealed: False
        then have "xs = []"
          using tidy Cons I(1) last_in_set [of xs] by (auto simp: tidy_def split: if_splits)
        then show ?thesis using dw Cons unsealed by simp
      qed (use dw Cons in simp)
    qed (use dw in simp)
    let ?moved = "cursorSeg b \<le> segId s"
    have ne: "r \<noteq> []"
      using ev left dw rm segs sealed by (auto simp: evictOldestLocked_def Let_def split: if_splits)
    let ?b1 = "b\<lparr>segments := r, totalBytes := totalBytes b - int (segBytes s),
      onEvict := onEvict b @ [(reason, 0, int (segBytes s))]\<rparr>"
    have b': "b' = (if ?moved then ?b1\<lparr>cursorSeg := segId (hd r), cursorOff := 0\<rparr> else ?b1)"
      using ev dw rm segs sealed ne by (auto simp: evictOldestLocked_def Let_def split: if_splits)
    have wf: "wfSegs (s # r)" and pos: "posOK (s # r) (cursorSeg b) (cursorOff b)"
      and wh: "\<forall>x \<in> set r. whole (segData x) 0" and wfr: "wfSegs r" using I segs by simp_all
    note D = drop_first [OF wf ne pos wh]
    have st: "atStart r (segId (hd r)) 0" using ne by (simp add: atStart_def)
    note S = atStart_entries [OF wfr st wh]
    have last: "last (s # r) = last r" using ne by simp
    have "pending b' = entriesAt (aead b) r (cursorSeg b) (cursorOff b)"
      using D(3) S(1) by (simp add: b' pending_def)
    moreover have "bufInv b'"
      using inv D(1) S(2) ne segs wfr wh by (auto simp: b' bufInv_iff last)
    moreover have "tidy b'"
      using tidy ne segs by (auto simp: b' tidy_def writing_def last)
    ultimately show ?thesis using D(2) segs by (auto simp: b' pending_def)
  qed
  from goal show "bufInv b'" and "tidy b'" and "b' = b \<or> onEvict b' \<noteq> onEvict b \<and> segments b' = tl (segments b)"
    and "pending b' \<in> {pending b, dropOldest segID (pending b)}"
    and "b' = b \<or> (cursorSeg b', cursorOff b') = (cursorSeg b, cursorOff b) \<and> segId (hd (segments b)) < cursorSeg b
      \<or> cursorSeg b \<le> segId (hd (segments b)) \<and> (cursorSeg b', cursorOff b') = (segId (hd (segments b')), 0)"
    and "opts b' = opts b" and "aead b' = aead b" and "closed b' = closed b" and "savedState b' = savedState b"
    and "active b' = active b" by blast+
qed

lemma writing_filter:
  assumes "writing b" and "P (last (segments b))"
  shows "writing (b\<lparr>segments := filter P (segments b), totalBytes := t\<rparr>)"
    and "last (filter P (segments b)) = last (segments b)"
  using assms last_filter_keep [of "segments b" P] by (simp_all add: writing_def)

lemma reclaimLocked_tidy:
  assumes "tidy b"
  shows "tidy (reclaimLocked os b)" and "set (segments (reclaimLocked os b)) \<subseteq> set (segments b)"
proof -
  let ?P = "\<lambda>s. \<not> reclaimable os (cursorSeg b) s"
  have "?P (last (segments b))" if "writing b" using that by (simp add: writing_def reclaimable_def)
  then show "tidy (reclaimLocked os b)"
    using assms writing_filter [of b ?P] by (auto simp: tidy_def reclaimLocked_def)
  show "set (segments (reclaimLocked os b)) \<subseteq> set (segments b)" by (auto simp: reclaimLocked_def)
qed

text \<open>
  The position on disk and the read cursor agree, or the cursor stands at the first segment, which an
  eviction moved it to, and the position on disk lies before it.
\<close>

definition savedPos :: "Buffer \<Rightarrow> nat \<times> nat" where
  "savedPos b = (case savedState b of SavedState sid off \<Rightarrow> (sid, off) | _ \<Rightarrow> (0, 0))"

definition savedOK :: "Buffer \<Rightarrow> bool" where
  "savedOK b \<longleftrightarrow> savedPos b = (cursorSeg b, cursorOff b)
     \<or> atStart (segments b) (cursorSeg b) (cursorOff b) \<and> fst (savedPos b) < segId (hd (segments b))"

lemma atStart_ids:
  assumes "map segId segs' = map segId segs @ extra"
  shows "atStart segs sid off \<Longrightarrow> atStart segs' sid off \<and> segId (hd segs') = segId (hd segs)"
  using assms by (cases segs; cases segs') (auto simp: atStart_def)

lemma savedOK_ids:
  assumes "savedOK b" and "map segId (segments b') = map segId (segments b) @ extra"
    and "(cursorSeg b', cursorOff b', savedState b') = (cursorSeg b, cursorOff b, savedState b)"
  shows "savedOK b'"
  using assms atStart_ids [OF assms(2)] by (auto simp: savedOK_def savedPos_def)

lemma reclaimLocked_savedOK:
  assumes "bufInv b" and "savedOK b"
  shows "savedOK (reclaimLocked os b)"
proof (cases "savedPos b = (cursorSeg b, cursorOff b)")
  case True
  then show ?thesis by (simp add: savedOK_def savedPos_def op_frame)
next
  case False
  then have st: "atStart (segments b) (cursorSeg b) (cursorOff b)" using assms(2) by (simp add: savedOK_def)
  have "\<not> reclaimable os (cursorSeg b) s" if "s \<in> set (segments b)" for s
  proof -
    have "segId (hd (segments b)) \<le> segId s"
      using that bufInvD(1) [OF assms(1)] by (cases "segments b") (auto simp: less_imp_le)
    then show ?thesis using st by (auto simp: atStart_def reclaimable_def)
  qed
  then have "segments (reclaimLocked os b) = segments b" by (simp add: reclaimLocked_def)
  then show ?thesis using assms(2) by (simp add: savedOK_def savedPos_def op_frame)
qed

definition evictsInOrder :: "OS \<Rightarrow> byte list \<Rightarrow> Buffer \<Rightarrow> bool" where
  "evictsInOrder os payload b \<longleftrightarrow>
     (case sealPayload os b payload of
        None \<Rightarrow> True
      | Some p \<Rightarrow>
          (let b1 = snd (reserveRoom os (int (headerBytes + length p)) b)
           in onEvict b1 = onEvict b \<or> tidy b \<and> segments b1 \<noteq> []))"

lemma reserveRoom_tidy:
  assumes inv: "bufInv b" and rr: "reserveRoom os need b = (err, b')"
    and ord: "onEvict b' = onEvict b \<or> tidy b \<and> segments b' \<noteq> []"
  shows "bufInv b'" and "tidy b \<Longrightarrow> tidy b'" and "savedOK b \<Longrightarrow> savedOK b'"
    and "pending b' = pending b \<or> onEvict b' \<noteq> onEvict b \<and> pending b' = dropOldest segID (pending b)"
    and "set (segments b') \<subseteq> set (segments b)" and "err = None \<Longrightarrow> fits need b'"
    and "opts b' = opts b" and "aead b' = aead b" and "closed b' = closed b" and "savedState b' = savedState b"
    and "active b' = active b"
proof -
  define b1 where "b1 = (if fits need b then b else reclaimLocked os b)"
  have b1: "bufInv b1" "pending b1 = pending b" "onEvict b1 = onEvict b" "opts b1 = opts b" "aead b1 = aead b"
    "closed b1 = closed b" "savedState b1 = savedState b" "active b1 = active b"
    "tidy b \<Longrightarrow> tidy b1" "set (segments b1) \<subseteq> set (segments b)" "savedOK b \<Longrightarrow> savedOK b1"
    using inv reclaimLocked_keeps [OF inv] reclaimLocked_tidy reclaimLocked_savedOK [OF inv]
    by (auto simp: b1_def op_frame reclaimLocked_def)
  have goal: "bufInv b' \<and> (tidy b \<longrightarrow> tidy b') \<and> (savedOK b \<longrightarrow> savedOK b')
    \<and> (pending b' = pending b \<or> onEvict b' \<noteq> onEvict b \<and> pending b' = dropOldest segID (pending b))
    \<and> set (segments b') \<subseteq> set (segments b) \<and> (err = None \<longrightarrow> fits need b')
    \<and> opts b' = opts b \<and> aead b' = aead b \<and> closed b' = closed b \<and> savedState b' = savedState b \<and> active b' = active b"
  proof (cases "onEvict b' = onEvict b")
    case True
    have "b' = b1" and "err = None \<Longrightarrow> fits need b1"
      using rr True evictOldestLocked_silent [of os "''max_bytes''" b1] b1(3)
      unfolding reserveRoom_def b1_def [symmetric] Let_def
      by (auto split: if_splits prod.splits option.splits simp: b1_def)
    then show ?thesis using b1 by simp
  next
    case False
    then have tidy: "tidy b" and left: "segments b' \<noteq> []" using ord by simp_all
    obtain e2 where ev: "evictOldestLocked os ''max_bytes'' b1 = (e2, b')" and fit: "err = None \<Longrightarrow> fits need b'"
      using rr False b1(3) unfolding reserveRoom_def b1_def [symmetric] Let_def
      by (auto split: if_splits prod.splits option.splits)
    note E = evictOldestLocked_tidy [OF b1(1) b1(9) [OF tidy] ev left]
    have b': "onEvict b' \<noteq> onEvict b1" "segments b' = tl (segments b1)" using E(3) False b1(3) by auto
    have saved: "savedOK b'" if "savedOK b"
    proof -
      have ne: "segments b1 \<noteq> []" using b'(2) left by auto
      have lt: "segId (hd (segments b1)) < segId (hd (segments b'))"
        using bufInvD(1) [OF b1(1)] ne left b'(2) by (cases "segments b1") auto
      have "savedPos b' = savedPos b1" using E(9) by (simp add: savedPos_def)
      then show ?thesis
        using E(5) b1(11) [OF that] lt left ne b'
        by (auto simp: savedOK_def atStart_def)
    qed
    have "set (segments b') \<subseteq> set (segments b1)" using b'(2) by (auto intro: list.set_sel(2) simp: left)
    then show ?thesis
      using E b1 fit saved b' tidy by (auto simp: subset_iff)
  qed
  then show "bufInv b'" and "tidy b \<Longrightarrow> tidy b'" and "savedOK b \<Longrightarrow> savedOK b'"
    and "pending b' = pending b \<or> onEvict b' \<noteq> onEvict b \<and> pending b' = dropOldest segID (pending b)"
    and "set (segments b') \<subseteq> set (segments b)" and "err = None \<Longrightarrow> fits need b'"
    and "opts b' = opts b" and "aead b' = aead b" and "closed b' = closed b" and "savedState b' = savedState b"
    and "active b' = active b" by blast+
qed

text \<open>One append: what it does to the pending records, and the files and positions it leaves.\<close>

lemma writeRecord_ids:
  "map segId (segments (snd (writeRecord os now p b))) = map segId (segments b)"
  "cursorSeg (snd (writeRecord os now p b)) = cursorSeg b" "cursorOff (snd (writeRecord os now p b)) = cursorOff b"
proof -
  have u: "map segId (segments (updActive f c)) = map segId (segments c)" "cursorSeg (updActive f c) = cursorSeg c"
    "cursorOff (updActive f c) = cursorOff c"
    if "\<And>s. segId (f s) = segId s" for f c
    using that by (simp_all add: updActive_def o_def if_distrib [of segId] cong: if_cong)
  have s: "map segId (segments (snd (sealActiveLocked os c))) = map segId (segments c)"
    "cursorSeg (snd (sealActiveLocked os c)) = cursorSeg c" "cursorOff (snd (sealActiveLocked os c)) = cursorOff c" for c
    using u by (auto simp: sealActiveLocked_def split: option.splits)
  show "map segId (segments (snd (writeRecord os now p b))) = map segId (segments b)"
    "cursorSeg (snd (writeRecord os now p b)) = cursorSeg b" "cursorOff (snd (writeRecord os now p b)) = cursorOff b"
    using u s by (auto simp: writeRecord_def Let_def split: option.splits)
qed

lemma ensureActiveLocked_ids:
  "\<exists>extra. map segId (segments (snd (ensureActiveLocked os b))) = map segId (segments b) @ extra \<and> (\<forall>i \<in> set extra. 0 < i)"
  "cursorSeg (snd (ensureActiveLocked os b)) = cursorSeg b" "cursorOff (snd (ensureActiveLocked os b)) = cursorOff b"
  by (auto simp: ensureActiveLocked_def Let_def zeroSegment_def)

text \<open>The state in which \<^verbatim>\<open>Append\<close> writes its record.\<close>

lemma Append_stages:
  assumes "Append os now payload b = (err, b')" and "sealPayload os b payload = Some p" and "\<not> closed b"
  obtains e1 b1 e2 b2 e3 b3 where "reserveRoom os (int (headerBytes + length p)) b = (e1, b1)"
    and "ensureActiveLocked os b1 = (e2, b2)" and "writeRecord os now p b2 = (e3, b3)"
    and "(err, b') = (if e1 \<noteq> None then (e1, b1) else if e2 \<noteq> None then (e2, b2) else (e3, b3))"
proof -
  obtain e1 b1 where r: "reserveRoom os (int (headerBytes + length p)) b = (e1, b1)" by (metis surj_pair)
  obtain e2 b2 where a: "ensureActiveLocked os b1 = (e2, b2)" by (metis surj_pair)
  obtain e3 b3 where w: "writeRecord os now p b2 = (e3, b3)" by (metis surj_pair)
  show thesis using that [OF r a w] assms r a w by (auto simp: Append_def split: option.splits)
qed

lemma Append_order:
  assumes inv: "bufInv b" and app: "Append os now payload b = (err, b')"
    and ord: "evictsInOrder os payload b" and sw: "shortWrite os = None"
    and store: "\<And>p. sealPayload os b payload = Some p \<Longrightarrow> storable p (now div 1000)"
  shows "bufInv b'" and "savedOK b \<Longrightarrow> savedOK b'" and "aead b' = aead b" and "opts b' = opts b"
    and "savedState b' = savedState b" and "\<forall>s \<in> set (segments b). 0 < segId s \<Longrightarrow> \<forall>s \<in> set (segments b'). 0 < segId s"
    and "cipherOK (aead b) \<Longrightarrow> randOK os \<Longrightarrow>
      \<exists>q. (q = pending b \<or> onEvict b' \<noteq> onEvict b \<and> q = dropOldest segID (pending b))
        \<and> (err = None \<longrightarrow> (\<exists>e. pending b' = q @ [e] \<and> Payload e = payload \<and> WrittenAt e = 1000 * (now div 1000)))
        \<and> (err \<noteq> None \<longrightarrow> err \<notin> {Some ErrSync, Some ErrClose} \<longrightarrow> pending b' = q)"
proof -
  let ?ids = "\<lambda>c. \<forall>s \<in> set (segments c). 0 < segId s"
  have "bufInv b' \<and> (savedOK b \<longrightarrow> savedOK b') \<and> aead b' = aead b \<and> opts b' = opts b \<and> savedState b' = savedState b
    \<and> (?ids b \<longrightarrow> ?ids b')
    \<and> (cipherOK (aead b) \<longrightarrow> randOK os \<longrightarrow>
      (\<exists>q. (q = pending b \<or> onEvict b' \<noteq> onEvict b \<and> q = dropOldest segID (pending b))
        \<and> (err = None \<longrightarrow> (\<exists>e. pending b' = q @ [e] \<and> Payload e = payload \<and> WrittenAt e = 1000 * (now div 1000)))
        \<and> (err \<noteq> None \<longrightarrow> err \<notin> {Some ErrSync, Some ErrClose} \<longrightarrow> pending b' = q)))"
  proof (cases "closed b \<or> sealPayload os b payload = None")
    case True
    then show ?thesis using app inv by (auto simp: Append_def split: if_splits)
  next
    case False
    then obtain p where p: "sealPayload os b payload = Some p" and cl: "\<not> closed b" by auto
    obtain e1 b1 e2 b2 e3 b3 where r: "reserveRoom os (int (headerBytes + length p)) b = (e1, b1)"
      and a: "ensureActiveLocked os b1 = (e2, b2)" and w: "writeRecord os now p b2 = (e3, b3)"
      and eq: "(err, b') = (if e1 \<noteq> None then (e1, b1) else if e2 \<noteq> None then (e2, b2) else (e3, b3))"
      using Append_stages [OF app p cl] .
    have ord': "onEvict b1 = onEvict b \<or> tidy b \<and> segments b1 \<noteq> []"
      using ord p r by (simp add: evictsInOrder_def Let_def)
    note R = reserveRoom_tidy [OF inv r ord']
    note E = ensureActiveLocked_spec [OF R(1) a]
    have ids1: "?ids b \<longrightarrow> ?ids b1" using R(5) by blast
    obtain extra where extra: "map segId (segments b2) = map segId (segments b1) @ extra" "\<forall>i \<in> set extra. 0 < i"
      using ensureActiveLocked_ids(1) [of os b1] a by auto
    have idset: "?ids c \<longleftrightarrow> (\<forall>i \<in> set (map segId (segments c)). 0 < i)" for c by simp
    have ids2: "?ids b1 \<longrightarrow> ?ids b2" unfolding idset extra(1) using extra(2) by auto
    have saved2: "savedOK b1 \<longrightarrow> savedOK b2"
      using savedOK_ids [OF _ extra(1)] E(10) ensureActiveLocked_ids(2,3) [of os b1] a by auto
    show ?thesis
    proof (cases "e1 = None \<and> e2 = None")
      case True
      note W = writeRecord_spec [OF E(1) E(4) store [OF p] sw w]
      have same: "map segId (segments b3) = map segId (segments b2)" "cursorSeg b3 = cursorSeg b2" "cursorOff b3 = cursorOff b2"
        using writeRecord_ids [of os now p b2] w by simp_all
      have ids3: "?ids b2 \<longrightarrow> ?ids b3" unfolding idset same(1) by simp
      have saved3: "savedOK b2 \<longrightarrow> savedOK b3" using savedOK_ids [of b2 b3 "[]"] same W(9) True by simp
      have fine: "e3 \<in> {None, Some ErrSync, Some ErrClose}"
        using writeRecord_frame(2) [OF sw, of now p b2] w by simp
      have entry: "\<exists>e. writtenEntry (aead b2) (last (segments b2)) p now = [e] \<and> Payload e = payload
          \<and> WrittenAt e = 1000 * (now div 1000)" if "cipherOK (aead b)" "randOK os"
        using writtenEntry_sealed [OF that p] R(8) E(7) by simp
      have eq3: "err = e3" "b' = b3" using eq True by simp_all
      have calls: "onEvict b3 = onEvict b1" using W(8) E(9) True by simp
      show ?thesis
      proof (intro conjI impI)
        assume c: "cipherOK (aead b)" "randOK os"
        from R(4) obtain q where q: "q = pending b1" "q = pending b \<or> onEvict b1 \<noteq> onEvict b \<and> q = dropOldest segID (pending b)"
          by blast
        have "pending b3 = q @ writtenEntry (aead b2) (last (segments b2)) p now" using W(2) E(2) True q by simp
        then show "\<exists>q. (q = pending b \<or> onEvict b' \<noteq> onEvict b \<and> q = dropOldest segID (pending b))
          \<and> (err = None \<longrightarrow> (\<exists>e. pending b' = q @ [e] \<and> Payload e = payload \<and> WrittenAt e = 1000 * (now div 1000)))
          \<and> (err \<noteq> None \<longrightarrow> err \<notin> {Some ErrSync, Some ErrClose} \<longrightarrow> pending b' = q)"
          using q(2) entry [OF c] fine calls unfolding eq3 by (intro exI [of _ q]) auto
      next
        show "bufInv b'" "aead b' = aead b" "opts b' = opts b" "savedState b' = savedState b"
          using W(1,5,6,9) E(6,7,10) R(7,8,10) True eq3 by simp_all
      next
        assume "savedOK b"
        then show "savedOK b'" using R(3) saved2 saved3 eq3 by simp
      next
        assume "?ids b"
        then show "?ids b'" using ids1 ids2 ids3 eq3 by blast
      qed
    next
      case False
      then have "err \<noteq> None" "b' = b1 \<or> b' = b2" using eq by (auto split: if_splits)
      from this(2) show ?thesis
      proof
        assume b': "b' = b1"
        show ?thesis
          using R(1,3,4,7,8,10) ids1 \<open>err \<noteq> None\<close> unfolding b' by blast
      next
        assume b': "b' = b2"
        have q: "pending b2 = pending b \<or> onEvict b2 \<noteq> onEvict b \<and> pending b2 = dropOldest segID (pending b)"
          using E(2,9) R(4) by simp
        have "opts b2 = opts b" "aead b2 = aead b" "savedState b2 = savedState b" using E(6,7,10) R(7,8,10) by simp_all
        then show ?thesis
          using E(1) R(3) ids1 ids2 saved2 q \<open>err \<noteq> None\<close> unfolding b' by blast
      qed
    qed
  qed
  then show "bufInv b'" and "savedOK b \<Longrightarrow> savedOK b'" and "aead b' = aead b" and "opts b' = opts b"
    and "savedState b' = savedState b" and "?ids b \<Longrightarrow> ?ids b'"
    and "cipherOK (aead b) \<Longrightarrow> randOK os \<Longrightarrow>
      \<exists>q. (q = pending b \<or> onEvict b' \<noteq> onEvict b \<and> q = dropOldest segID (pending b))
        \<and> (err = None \<longrightarrow> (\<exists>e. pending b' = q @ [e] \<and> Payload e = payload \<and> WrittenAt e = 1000 * (now div 1000)))
        \<and> (err \<noteq> None \<longrightarrow> err \<notin> {Some ErrSync, Some ErrClose} \<longrightarrow> pending b' = q)"
    by blast+
qed

section \<open>The queue contract\<close>

text \<open>
  What a client of a durable queue may rely on. Reading: \<open>peek\<close> shows the item after the ones already
  seen, \<open>ack\<close> of an item removes it and everything before it. Writing: \<open>put\<close> tells whether it gave up
  items to make room and whether it took the new one; the new item stands at the end, and what is given
  up is the oldest group of items.
\<close>

datatype 'p queueOp = Put 'p | Take

datatype ('p, 'e) queueEvent = PutOK bool 'p | PutFailed bool 'p | Got 'e | GotNone

fun queueRun ::
  "('s \<Rightarrow> 'p \<Rightarrow> bool \<times> bool \<times> 's) \<Rightarrow> ('s \<Rightarrow> 'e list \<Rightarrow> 'e option) \<Rightarrow> ('s \<Rightarrow> 'e \<Rightarrow> 's) \<Rightarrow> 'p queueOp list \<Rightarrow> 's
     \<Rightarrow> ('p, 'e) queueEvent list \<times> 's"
where
  "queueRun put peek ack [] s = ([], s)"
| "queueRun put peek ack (Put p # ops) s =
     (case put s p of
        (lost, ok, s1) \<Rightarrow>
          (case queueRun put peek ack ops s1 of
             (evs, t) \<Rightarrow> ((if ok then PutOK lost p else PutFailed lost p) # evs, t)))"
| "queueRun put peek ack (Take # ops) s =
     (case peek s [] of
        None \<Rightarrow> (case queueRun put peek ack ops s of (evs, t) \<Rightarrow> (GotNone # evs, t))
      | Some e \<Rightarrow> (case queueRun put peek ack ops (ack s e) of (evs, t) \<Rightarrow> (Got e # evs, t)))"

text \<open>The specification: a first-in first-out queue that may give up its oldest group, and then says so.\<close>

definition makesRoom :: "('e \<Rightarrow> 'g) \<Rightarrow> bool \<Rightarrow> 'e list \<Rightarrow> 'e list \<Rightarrow> bool" where
  "makesRoom grp lost q q1 \<longleftrightarrow> q1 = q \<or> lost \<and> q1 = dropOldest grp q"

fun boundedFifo ::
  "('e \<Rightarrow> 'g) \<Rightarrow> ('e \<Rightarrow> 'p \<Rightarrow> bool) \<Rightarrow> ('p, 'e) queueEvent list \<Rightarrow> 'e list \<Rightarrow> 'e list \<Rightarrow> bool"
where
  "boundedFifo grp holds [] q q' \<longleftrightarrow> q' = q"
| "boundedFifo grp holds (PutOK lost p # evs) q q' \<longleftrightarrow>
     (\<exists>q1 e. makesRoom grp lost q q1 \<and> holds e p \<and> boundedFifo grp holds evs (q1 @ [e]) q')"
| "boundedFifo grp holds (PutFailed lost p # evs) q q' \<longleftrightarrow>
     (\<exists>q1. makesRoom grp lost q q1 \<and> boundedFifo grp holds evs q1 q')"
| "boundedFifo grp holds (Got e # evs) q q' \<longleftrightarrow> (\<exists>r. q = e # r \<and> boundedFifo grp holds evs r q')"
| "boundedFifo grp holds (GotNone # evs) q q' \<longleftrightarrow> q = [] \<and> boundedFifo grp holds evs q q'"

fun peekMany :: "('s \<Rightarrow> 'e list \<Rightarrow> 'e option) \<Rightarrow> nat \<Rightarrow> 's \<Rightarrow> 'e list \<Rightarrow> 'e list" where
  "peekMany peek 0 s seen = seen"
| "peekMany peek (Suc n) s seen =
     (case peek s seen of None \<Rightarrow> seen | Some e \<Rightarrow> peekMany peek n s (seen @ [e]))"

locale durable_reader =
  fixes inv :: "'s \<Rightarrow> bool" and items :: "'s \<Rightarrow> 'e list"
    and peek :: "'s \<Rightarrow> 'e list \<Rightarrow> 'e option" and ack :: "'s \<Rightarrow> 'e \<Rightarrow> 's"
  assumes peek_law: "inv s \<Longrightarrow> items s = seen @ rest \<Longrightarrow>
      peek s seen = (case rest of [] \<Rightarrow> None | e # _ \<Rightarrow> Some e)"
    and ack_law: "inv s \<Longrightarrow> items s = seen @ e # rest \<Longrightarrow> inv (ack s e) \<and> items (ack s e) = rest"
begin

lemma peekMany_take:
  assumes "inv s" and "items s = seen @ rest"
  shows "peekMany peek n s seen = seen @ take n rest"
  using assms(2)
proof (induction n arbitrary: seen rest)
  case (Suc n)
  show ?case
  proof (cases rest)
    case Nil
    then show ?thesis using peek_law [OF assms(1) Suc.prems] by simp
  next
    case (Cons e r)
    then show ?thesis using peek_law [OF assms(1) Suc.prems] Suc.IH [of "seen @ [e]" r] Suc.prems by simp
  qed
qed simp

lemma ack_last:
  assumes "inv s" and "0 < n" and "n \<le> length (items s)"
  shows "inv (ack s (items s ! (n - 1)))" and "items (ack s (items s ! (n - 1))) = drop n (items s)"
proof -
  have "items s = take (n - 1) (items s) @ items s ! (n - 1) # drop n (items s)"
    using assms id_take_nth_drop [of "n - 1" "items s"] by simp
  from ack_law [OF assms(1) this]
  show "inv (ack s (items s ! (n - 1)))" and "items (ack s (items s ! (n - 1))) = drop n (items s)"
    by simp_all
qed

lemma ack_each:
  assumes "inv s"
  shows "inv (foldl ack s (take n (items s))) \<and> items (foldl ack s (take n (items s))) = drop n (items s)"
  using assms
proof (induction n arbitrary: s)
  case (Suc n)
  show ?case
  proof (cases "items s")
    case Nil
    then show ?thesis using Suc.prems by simp
  next
    case (Cons e rest)
    then have "inv (ack s e)" and "items (ack s e) = rest"
      using ack_law [OF Suc.prems, of "[]"] by simp_all
    then show ?thesis using Suc.IH [of "ack s e"] Cons by simp
  qed
qed simp

end

locale durable_queue = durable_reader inv items peek ack
  for inv :: "'s \<Rightarrow> bool" and items :: "'s \<Rightarrow> 'e list" and peek :: "'s \<Rightarrow> 'e list \<Rightarrow> 'e option"
    and ack :: "'s \<Rightarrow> 'e \<Rightarrow> 's" +
  fixes legal :: "'p \<Rightarrow> bool" and grp :: "'e \<Rightarrow> 'g" and holds :: "'e \<Rightarrow> 'p \<Rightarrow> bool"
    and put :: "'s \<Rightarrow> 'p \<Rightarrow> bool \<times> bool \<times> 's"
  assumes put_law: "inv s \<Longrightarrow> legal p \<Longrightarrow> put s p = (lost, ok, s') \<Longrightarrow>
      inv s' \<and> (\<exists>q. makesRoom grp lost (items s) q
        \<and> (if ok then \<exists>e. holds e p \<and> items s' = q @ [e] else items s' = q))"
begin

lemma run_fifo:
  assumes "inv s" and "\<forall>p. Put p \<in> set ops \<longrightarrow> legal p" and "queueRun put peek ack ops s = (evs, t)"
  shows "inv t \<and> boundedFifo grp holds evs (items s) (items t)"
  using assms
proof (induction ops arbitrary: s evs)
  case (Cons op ops)
  show ?case
  proof (cases op)
    case (Put p)
    obtain lost ok s1 where put: "put s p = (lost, ok, s1)" by (rule prod_cases3)
    obtain evs1 where run: "queueRun put peek ack ops s1 = (evs1, t)"
      and evs: "evs = (if ok then PutOK lost p else PutFailed lost p) # evs1"
      using Cons.prems(3) Put put by (auto split: prod.splits)
    have "inv s1" and q: "\<exists>q. makesRoom grp lost (items s) q
        \<and> (if ok then \<exists>e. holds e p \<and> items s1 = q @ [e] else items s1 = q)"
      using put_law [OF Cons.prems(1) _ put] Cons.prems(2) Put by auto
    moreover have "\<forall>p. Put p \<in> set ops \<longrightarrow> legal p" using Cons.prems(2) by simp
    ultimately have "inv t" and b: "boundedFifo grp holds evs1 (items s1) (items t)" using Cons.IH [OF _ _ run] by blast+
    then show ?thesis using q evs by (cases ok) fastforce+
  next
    case Take
    show ?thesis
    proof (cases "items s")
      case Nil
      then have "peek s [] = None" using peek_law [of s "[]" "[]"] Cons.prems(1) by simp
      then obtain evs1 where run: "queueRun put peek ack ops s = (evs1, t)" and evs: "evs = GotNone # evs1"
        using Cons.prems(3) Take by (auto split: prod.splits)
      show ?thesis using Cons.IH [OF Cons.prems(1) _ run] Cons.prems(2) evs Nil by simp
    next
      case (Cons e rest)
      then have "peek s [] = Some e" and k: "inv (ack s e)" "items (ack s e) = rest"
        using peek_law [of s "[]" "e # rest"] ack_law [of s "[]" e rest] Cons.prems(1) by simp_all
      then show ?thesis
        using Cons.IH [OF k(1)] Cons.prems(2,3) Take Cons by (auto split: prod.splits)
    qed
  qed
qed simp

end

subsection \<open>The buffer keeps the contract\<close>

definition goodOS :: "OS \<Rightarrow> bool" where
  "goodOS os \<longleftrightarrow> (\<forall>i. openOK os i) \<and> createOK os \<and> shortWrite os = None \<and> syncOK os \<and> closeOK os
     \<and> saveOK os \<and> (\<forall>n. \<exists>bs. randRead os n = Some bs \<and> length bs = n)"

lemma goodOS_D:
  assumes "goodOS os"
  shows "readable os" and "randOK os" and "shortWrite os = None" and "saveOK os" and "createOK os"
    and "syncOK os" and "closeOK os"
proof -
  have "length bs = n" if "randRead os n = Some bs" for n bs
    using assms that unfolding goodOS_def by (metis option.inject)
  then show "randOK os" by (simp add: randOK_def)
qed (use assms in \<open>simp_all add: goodOS_def readable_def\<close>)

definition peekEntry :: "OS \<Rightarrow> Buffer \<Rightarrow> Entry list \<Rightarrow> Entry option" where
  "peekEntry os b seen = (case fst (PeekAfter os seen b) of Inl _ \<Rightarrow> None | Inr r \<Rightarrow> r)"

text \<open>On a disk that works an append fails only when the buffer is closed or full.\<close>

lemma Append_errors:
  assumes inv: "bufInv b" and app: "Append os now payload b = (err, b')"
    and ord: "evictsInOrder os payload b" and good: "goodOS os"
    and store: "\<And>p. sealPayload os b payload = Some p \<Longrightarrow> storable p (now div 1000)"
  shows "err \<notin> {Some ErrSync, Some ErrClose}"
proof (cases "closed b \<or> sealPayload os b payload = None")
  case True
  then show ?thesis using app by (auto simp: Append_def split: if_splits)
next
  case False
  then obtain p where p: "sealPayload os b payload = Some p" and cl: "\<not> closed b" by auto
  note G = goodOS_D [OF good]
  obtain e1 b1 e2 b2 e3 b3 where r: "reserveRoom os (int (headerBytes + length p)) b = (e1, b1)"
    and a: "ensureActiveLocked os b1 = (e2, b2)" and w: "writeRecord os now p b2 = (e3, b3)"
    and eq: "(err, b') = (if e1 \<noteq> None then (e1, b1) else if e2 \<noteq> None then (e2, b2) else (e3, b3))"
    using Append_stages [OF app p cl] .
  have ord': "onEvict b1 = onEvict b \<or> tidy b \<and> segments b1 \<noteq> []"
    using ord p r by (simp add: evictsInOrder_def Let_def)
  note R = reserveRoom_tidy [OF inv r ord']
  note E = ensureActiveLocked_spec [OF R(1) a]
  have "e1 \<notin> {Some ErrSync, Some ErrClose}"
    using r by (auto simp: reserveRoom_def Let_def evictOldestLocked_def split: if_splits list.splits option.splits prod.splits)
  moreover have "e2 = None" using E(5) G(5) by simp
  moreover have "e3 = None" using writeRecord_spec(4) [OF E(1) E(4) store [OF p] G(3) w] G(6,7) \<open>e2 = None\<close> by simp
  ultimately show ?thesis using eq by (auto split: if_splits)
qed

text \<open>Reading needs segments that open; an acknowledgement moves the cursor also when saving it fails.\<close>

lemma Ack_any:
  assumes "bufInv b" and "pending b = seen @ e # rest"
  shows "bufInv (snd (Ack os e b))" and "pending (snd (Ack os e b)) = rest"
    and "fst (Ack os e b) = (if saveOK os then None else Some ErrSave)"
    and "saveOK os \<Longrightarrow> savedOK (snd (Ack os e b))"
proof -
  note I = bufInvD [OF assms(1)]
  have at: "entriesAt (aead b) (segments b) (cursorSeg b) (cursorOff b) = seen @ e # rest"
    using assms(2) by (simp add: pending_def)
  have moved: "bufInv (b\<lparr>cursorSeg := segID e, cursorOff := endOff e, savedState := st\<rparr>)"
      "pending (b\<lparr>cursorSeg := segID e, cursorOff := endOff e, savedState := st\<rparr>) = rest" for st
    using posOK_nth [OF I(1,2,4) at] entriesAt_nth [OF I(1) at] assms(1) by (auto simp: bufInv_iff pending_def)
  let ?c = "b\<lparr>cursorSeg := segID e, cursorOff := endOff e\<rparr>"
  have "bufInv ?c" "pending ?c = rest" using moved [of "savedState b"] by simp_all
  moreover have "Ack os e b = (if saveOK os
      then (None, reclaimLocked os (?c\<lparr>savedState := SavedState (segID e) (endOff e)\<rparr>)) else (Some ErrSave, ?c))"
    by (simp add: Ack_def saveStateLocked_def)
  ultimately show "bufInv (snd (Ack os e b))" and "pending (snd (Ack os e b)) = rest"
    and "fst (Ack os e b) = (if saveOK os then None else Some ErrSave)"
    using reclaimLocked_keeps [OF moved(1)] moved(2) by simp_all
  show "saveOK os \<Longrightarrow> savedOK (snd (Ack os e b))"
    by (simp add: Ack_def Let_def saveStateLocked_def savedOK_def savedPos_def op_frame)
qed

interpretation br: durable_reader "\<lambda>b. readable os \<and> bufInv b" pending "peekEntry os" "\<lambda>b e. snd (Ack os e b)"
proof unfold_locales
  fix s seen rest
  assume "readable os \<and> bufInv s" and "pending s = seen @ rest"
  then show "peekEntry os s seen = (case rest of [] \<Rightarrow> None | e # _ \<Rightarrow> Some e)"
    using PeekAfter_spec(1) [of s os seen rest] by (auto simp: peekEntry_def firstOf_def split: list.splits)
next
  fix s seen e rest
  assume "readable os \<and> bufInv s" and "pending s = seen @ e # rest"
  then show "(readable os \<and> bufInv (snd (Ack os e s))) \<and> pending (snd (Ack os e s)) = rest"
    using Ack_any [of s seen e rest os] by simp
qed

text \<open>
  Writing needs room for the record beside the largest segment, so that an eviction never takes the
  only segment: with records of at most \<open>R\<close> stored bytes, a segment holds less than \<^verbatim>\<open>SegmentBytes\<close> plus
  \<open>R\<close>, and the byte bound is at least that plus \<open>R\<close>.
\<close>

definition roomy :: "int \<Rightarrow> Buffer \<Rightarrow> bool" where
  "roomy R b \<longleftrightarrow> tidy b \<and> 0 < SegmentBytes (opts b) \<and> SegmentBytes (opts b) + 2 * R \<le> MaxBytes (opts b)
     \<and> (\<forall>s \<in> set (segments b). int (segBytes s) \<le> SegmentBytes (opts b) + R
         \<and> (segSealed s \<or> int (segBytes s) < SegmentBytes (opts b)))"

definition sealFor :: "AEAD option \<Rightarrow> OS \<Rightarrow> byte list \<Rightarrow> byte list option" where
  "sealFor a os p = (case a of None \<Rightarrow> Some p | Some A \<Rightarrow> seal (randRead os) A p)"

lemma sealPayload_sealFor: "sealPayload os b p = sealFor (aead b) os p"
  by (simp add: sealPayload_def sealFor_def)

text \<open>A request to append: the operating system as it answers then, the time, and the payload.\<close>

type_synonym appendRequest = "OS \<times> time \<times> byte list"

definition legalRecord :: "AEAD option \<Rightarrow> int \<Rightarrow> appendRequest \<Rightarrow> bool" where
  "legalRecord a R r =
     (case r of (os, now, p) \<Rightarrow> goodOS os \<and>
        (case sealFor a os p of
           None \<Rightarrow> True
         | Some sp \<Rightarrow> storable sp (now div 1000) \<and> int (headerBytes + length sp) \<le> R))"

definition putRecord :: "Buffer \<Rightarrow> appendRequest \<Rightarrow> bool \<times> bool \<times> Buffer" where
  "putRecord b r =
     (case r of (os, now, p) \<Rightarrow>
        (case Append os now p b of (err, b1) \<Rightarrow> (onEvict b1 \<noteq> onEvict b, err = None, b1)))"

definition recordOf :: "Entry \<Rightarrow> appendRequest \<Rightarrow> bool" where
  "recordOf e r = (case r of (os, now, p) \<Rightarrow> Payload e = p \<and> WrittenAt e = 1000 * (now div 1000))"

lemma roomy_inOrder:
  assumes inv: "bufInv b" and "roomy R b" and "legalRecord (aead b) R (os, now, p)"
  shows "evictsInOrder os p b"
proof (cases "sealPayload os b p")
  case (Some sp)
  let ?need = "int (headerBytes + length sp)"
  have need: "?need \<le> R" using assms(3) Some by (simp add: legalRecord_def sealPayload_sealFor)
  obtain e1 b1 where r: "reserveRoom os ?need b = (e1, b1)" by (metis surj_pair)
  define c where "c = (if fits ?need b then b else reclaimLocked os b)"
  have c: "bufInv c" "onEvict c = onEvict b" "opts c = opts b" "set (segments c) \<subseteq> set (segments b)"
    using inv reclaimLocked_keeps(1) [OF inv] by (auto simp: c_def op_frame) (simp add: reclaimLocked_def)
  have "segments b1 \<noteq> []" if grown: "onEvict b1 \<noteq> onEvict b"
  proof
    assume nil: "segments b1 = []"
    have ev: "snd (evictOldestLocked os ''max_bytes'' c) = b1" and full: "\<not> fits ?need c"
      using r grown c(2) unfolding reserveRoom_def c_def [symmetric] Let_def
      by (auto split: if_splits prod.splits option.splits)
    obtain s where s: "segments c = [s]"
    proof -
      obtain s rest where "dropWhile (\<lambda>s. \<not> segSealed s) (segments c) = s # rest"
        using ev grown c(2) by (auto simp: evictOldestLocked_def split: list.splits)
      moreover from this have "takeWhile (\<lambda>s. \<not> segSealed s) (segments c) = [] \<and> rest = []"
        using ev nil grown c(2) by (auto simp: evictOldestLocked_def Let_def split: if_splits)
      ultimately show ?thesis using that takeWhile_dropWhile_id [of "\<lambda>s. \<not> segSealed s" "segments c"] by (metis append_Nil)
    qed
    then have "totalBytes c = int (segBytes s)" using bufInvD(3) [OF c(1)] by simp
    then show False using full need assms(2) c(3,4) s by (auto simp: fits_def roomy_def)
  qed
  then show ?thesis using Some r assms(2) by (auto simp: evictsInOrder_def Let_def roomy_def)
qed (simp add: evictsInOrder_def)

lemma writeRecord_shape:
  assumes "bufInv b" and "writing b" and "shortWrite os = None" and "syncOK os" and "closeOK os"
    and "writeRecord os now p b = (err, b')"
  obtains l' where "segments b' = butlast (segments b) @ [l']" and "opts b' = opts b"
    and "segBytes l' = segBytes (last (segments b)) + headerBytes + length p"
    and "segSealed l' \<or> int (segBytes l') < SegmentBytes (opts b) \<and> writing b'"
proof -
  note I = bufInvD [OF assms(1)]
  let ?l = "last (segments b)" and ?buf = "encodeFrame p (now div 1000)"
  let ?l' = "?l\<lparr>segData := segData ?l @ ?buf,
    segOldest := (case segOldest ?l of None \<Rightarrow> Some now | t \<Rightarrow> t), segBytes := segBytes ?l + length ?buf\<rparr>"
  let ?b = "b\<lparr>segments := butlast (segments b) @ [?l'], totalBytes := totalBytes b + int (length ?buf)\<rparr>"
  have w: "segments b \<noteq> []" "active b = Some (segId ?l)" "segFile ?l" "\<not> segSealed ?l"
    using assms(2) by (simp_all add: writing_def)
  have wf: "wfSegs (segments ?b)"
    using I(1) w(1) by (cases "segments b" rule: rev_cases) (auto simp: wfSegs_snoc)
  have act: "activeSeg ?b = Some ?l'" using find_segId [OF wf, of ?l'] w by (simp add: activeSeg_def)
  have "writeRecord os now p b =
      (if int (segBytes ?l') \<ge> SegmentBytes (opts b) then sealActiveLocked os ?b else (None, ?b))"
    using assms(3) act by (simp add: writeRecord_def Let_def updActive_last [OF I(1) w(1,2)]
        del: length_encodeFrame of_nat_add)
  moreover have u: "updActive f ?b = ?b\<lparr>segments := butlast (segments b) @ [f ?l']\<rparr>" for f
    using updActive_last [OF wf] w by simp
  have "sealActiveLocked os ?b = (None, ?b\<lparr>segments := butlast (segments b) @ [?l'\<lparr>segFile := False, segSealed := True\<rparr>],
      active := None\<rparr>)"
    unfolding sealActiveLocked_def act option.case u using assms(4,5) w by simp
  ultimately have b': "b' = (if int (segBytes ?l') \<ge> SegmentBytes (opts b)
      then ?b\<lparr>segments := butlast (segments b) @ [?l'\<lparr>segFile := False, segSealed := True\<rparr>], active := None\<rparr> else ?b)"
    using assms(6) by (metis snd_conv)
  show thesis
  proof (cases "int (segBytes ?l') \<ge> SegmentBytes (opts b)")
    case True
    show ?thesis using that [of "?l'\<lparr>segFile := False, segSealed := True\<rparr>"] True unfolding b' by simp
  next
    case False
    show ?thesis using that [of ?l'] False w unfolding b' by (simp add: writing_def)
  qed
qed

lemma ensureActiveLocked_roomy:
  assumes "bufInv b" and "roomy R b" and "0 \<le> R" and "ensureActiveLocked os b = (err, b')"
  shows "roomy R b'"
proof (cases "b' = b")
  case False
  then have none: "\<not> (case activeSeg b of None \<Rightarrow> False | Some s \<Rightarrow> segFile s \<and> \<not> segSealed s)" and err: "err = None"
    and b': "segments b' = segments b @ [zeroSegment (if segments b = [] then 1 else segId (last (segments b)) + 1)]"
    "opts b' = opts b"
    using assms(4) by (auto simp: ensureActiveLocked_def Let_def split: if_splits)
  have "\<not> writing b"
    using none activeSeg_last [OF assms(1)] by (auto simp: writing_def)
  then have "\<forall>s \<in> set (segments b). segSealed s" using assms(2) by (auto simp: roomy_def tidy_def)
  moreover have "writing b'" using ensureActiveLocked_spec(4) [OF assms(1,4) err] .
  ultimately show ?thesis using assms(2,3) by (auto simp: roomy_def tidy_def b' zeroSegment_def)
qed (use assms in simp)

lemma Append_roomy:
  assumes inv: "bufInv b" and "roomy R b" and legal: "legalRecord (aead b) R (os, now, p)"
    and app: "Append os now p b = (err, b')"
  shows "roomy R b'"
proof (cases "closed b \<or> sealPayload os b p = None")
  case True
  then show ?thesis using app assms(2) by (auto simp: Append_def split: if_splits)
next
  case False
  then obtain sp where sp: "sealPayload os b p = Some sp" and cl: "\<not> closed b" by auto
  have L: "goodOS os" "storable sp (now div 1000)" "int (headerBytes + length sp) \<le> R"
    using legal sp by (simp_all add: legalRecord_def sealPayload_sealFor)
  note G = goodOS_D [OF L(1)]
  have R0: "0 \<le> R" using L(3) by (rule order_trans [rotated]) simp
  obtain e1 b1 e2 b2 e3 b3 where r: "reserveRoom os (int (headerBytes + length sp)) b = (e1, b1)"
    and a: "ensureActiveLocked os b1 = (e2, b2)" and w: "writeRecord os now sp b2 = (e3, b3)"
    and eq: "(err, b') = (if e1 \<noteq> None then (e1, b1) else if e2 \<noteq> None then (e2, b2) else (e3, b3))"
    using Append_stages [OF app sp cl] .
  have ord: "onEvict b1 = onEvict b \<or> tidy b \<and> segments b1 \<noteq> []"
    using roomy_inOrder [OF inv assms(2) legal] sp r by (simp add: evictsInOrder_def Let_def)
  note T = reserveRoom_tidy [OF inv r ord]
  have r1: "roomy R b1" using assms(2) T(2,5,7) by (auto simp: roomy_def)
  note r2 = ensureActiveLocked_roomy [OF T(1) r1 R0 a]
  note E = ensureActiveLocked_spec [OF T(1) a]
  have "roomy R b3" if none: "e2 = None"
  proof -
    obtain l' where l': "segments b3 = butlast (segments b2) @ [l']" "opts b3 = opts b2"
      "segBytes l' = segBytes (last (segments b2)) + headerBytes + length sp"
      "segSealed l' \<or> int (segBytes l') < SegmentBytes (opts b2) \<and> writing b3"
      using writeRecord_shape [OF E(1) E(4) [OF none] G(3,6,7) w] .
    have wr: "writing b2" using E(4) [OF none] .
    then have last: "last (segments b2) \<in> set (segments b2)" "\<not> segSealed (last (segments b2))"
      by (simp_all add: writing_def)
    then have small: "int (segBytes (last (segments b2))) < SegmentBytes (opts b2)"
      using r2 by (auto simp: roomy_def)
    have "segSealed s" if "s \<in> set (butlast (segments b2))" for s
    proof -
      have "s \<in> set (segments b2)" "s \<noteq> last (segments b2)"
        using that bufInvD(1) [OF E(1)] by (cases "segments b2" rule: rev_cases; fastforce simp: wfSegs_snoc)+
      then show ?thesis using r2 by (auto simp: roomy_def tidy_def)
    qed
    then show ?thesis
      using r2 l' small L(3) by (auto simp: roomy_def tidy_def dest: in_set_butlastD)
  qed
  then show ?thesis using eq r1 r2 by (auto split: if_splits)
qed

lemma Ack_roomy: "roomy R b \<Longrightarrow> roomy R (snd (Ack os e b))"
proof -
  assume r: "roomy R b"
  have t: "tidy (b\<lparr>cursorSeg := x, cursorOff := y\<rparr>)" "tidy (b\<lparr>cursorSeg := x, cursorOff := y, savedState := st\<rparr>)" for x y st
    using r by (simp_all add: roomy_def tidy_def writing_def)
  show ?thesis
    using r t reclaimLocked_tidy [OF t(2)]
    by (auto simp: roomy_def Ack_def Let_def saveStateLocked_def op_frame subset_iff)
qed

lemma Append_frame [op_frame]: "aead (snd (Append os now p b)) = aead b"
proof -
  have "aead (snd (reserveRoom os n b)) = aead b" for n
    by (auto simp: reserveRoom_def Let_def evictOldestLocked_def reclaimLocked_def
        split: list.splits option.splits prod.splits if_splits)
  moreover have "aead (snd (ensureActiveLocked os c)) = aead c" for c
    by (simp add: ensureActiveLocked_def Let_def)
  moreover have "aead (snd (sealActiveLocked os c)) = aead c" for c
    by (simp add: sealActiveLocked_def updActive_def split: option.splits)
  moreover from this have "aead (snd (writeRecord os now q c)) = aead c" for q c
    by (auto simp: writeRecord_def Let_def updActive_def split: option.splits)
  ultimately show ?thesis
    by (auto simp: Append_def split: option.splits prod.splits) (metis snd_conv)+
qed

lemma Ack_frame [op_frame]: "aead (snd (Ack os e b)) = aead b"
  by (simp add: Ack_def Let_def saveStateLocked_def reclaimLocked_def)

definition queueInv :: "OS \<Rightarrow> AEAD option \<Rightarrow> int \<Rightarrow> Buffer \<Rightarrow> bool" where
  "queueInv os a R b \<longleftrightarrow> readable os \<and> bufInv b \<and> roomy R b \<and> aead b = a \<and> cipherOK a"

interpretation bq: durable_queue "queueInv os a R" pending "peekEntry os" "\<lambda>b e. snd (Ack os e b)"
  "legalRecord a R" segID recordOf putRecord
proof unfold_locales
  fix s seen rest
  assume "queueInv os a R s" and "pending s = seen @ rest"
  then show "peekEntry os s seen = (case rest of [] \<Rightarrow> None | e # _ \<Rightarrow> Some e)"
    using br.peek_law by (simp add: queueInv_def)
next
  fix s seen e rest
  assume "queueInv os a R s" and "pending s = seen @ e # rest"
  then show "queueInv os a R (snd (Ack os e s)) \<and> pending (snd (Ack os e s)) = rest"
    using br.ack_law [of os s seen e rest] Ack_roomy [of R s os e] by (simp add: queueInv_def op_frame)
next
  fix s r lost ok s'
  assume inv: "queueInv os a R s" and legal: "legalRecord a R r" and put: "putRecord s r = (lost, ok, s')"
  obtain os' now p where r: "r = (os', now, p)" by (rule prod_cases3)
  obtain err where app: "Append os' now p s = (err, s')" and lost: "lost = (onEvict s' \<noteq> onEvict s)" "ok = (err = None)"
    using put by (auto simp: putRecord_def r split: prod.splits)
  have I: "bufInv s" "roomy R s" "aead s = a" "cipherOK (aead s)" using inv by (simp_all add: queueInv_def)
  have good: "goodOS os'" using legal by (simp add: legalRecord_def r)
  note G = goodOS_D [OF good]
  have store: "storable sp (now div 1000)" if "sealPayload os' s p = Some sp" for sp
    using legal that I(3) by (simp add: legalRecord_def r sealPayload_sealFor)
  have legal': "legalRecord (aead s) R (os', now, p)" using legal r I(3) by simp
  note Q = Append_order [OF I(1) app roomy_inOrder [OF I(1,2) legal'] G(3) store]
  have room: "roomy R s'" using Append_roomy [OF I(1,2) legal' app] .
  have fine: "err \<notin> {Some ErrSync, Some ErrClose}"
    using Append_errors [OF I(1) app roomy_inOrder [OF I(1,2) legal'] good store] .
  show "queueInv os a R s' \<and> (\<exists>q. makesRoom segID lost (pending s) q
      \<and> (if ok then \<exists>e. recordOf e r \<and> pending s' = q @ [e] else pending s' = q))"
    using Q(1,3) room inv Q(7) [OF _ I(4) G(2)] fine lost
    by (auto simp: queueInv_def makesRoom_def recordOf_def r)
qed

text \<open>An operating system that serves every call, and small limits, for the examples.\<close>

definition okOS :: OS where
  "okOS = \<lparr>removeOK = (\<lambda>_. True), openOK = (\<lambda>_. True), createOK = True, shortWrite = None, syncOK = True,
     closeOK = True, saveOK = True, releaseOK = True, randRead = (\<lambda>n. Some (replicate n 7))\<rparr>"

definition smallOpts :: BufOptions where
  "smallOpts = \<lparr>MaxBytes = 60, MaxAge = 1000, SegmentBytes = 20, BackpressureAt = 4 / 5\<rparr>"

definition threeRecords :: Buffer where
  "threeRecords = snd (Append okOS 3000 [] (snd (Append okOS 2000 [8] (snd (Append okOS 1000 []
     (emptyBuffer (smallOpts\<lparr>SegmentBytes := 30, MaxBytes := 100\<rparr>) None))))))"

lemma goodOS_okOS [simp]: "goodOS okOS"
  by (simp add: goodOS_def okOS_def)

lemma bufInv_empty [simp]: "bufInv (emptyBuffer o1 a)"
  by (simp add: bufInv_iff emptyBuffer_def posOK_def findSegmentLocked_def)

lemma roomy_empty [simp]:
  "roomy R (emptyBuffer o1 a) \<longleftrightarrow> 0 < SegmentBytes o1 \<and> SegmentBytes o1 + 2 * R \<le> MaxBytes o1"
  by (simp add: roomy_def tidy_def emptyBuffer_def)

lemma threeRecords_inv: "bufInv threeRecords" "aead threeRecords = None"
  by code_simp+

lemma threeRecords_pending:
  "map (\<lambda>e. (Payload e, segID e, endOff e)) (pending threeRecords) = [([], 1, 20), ([8], 1, 41), ([], 2, 20)]"
  by code_simp

lemma append_fits:
  assumes "goodOS os" and "bufInv b" and "\<not> closed b"
    and "sealPayload os b payload = Some sealed" and "storable sealed (now div 1000)"
    and "fits (int (headerBytes + length sealed)) b"
  shows "\<exists>b'. Append os now payload b = (None, b') \<and> onEvict b' = onEvict b
    \<and> totalBytes b' = totalBytes b + int (headerBytes + length sealed)"
proof -
  note G = goodOS_D [OF assms(1)]
  obtain e2 b2 where a: "ensureActiveLocked os b = (e2, b2)" by (metis surj_pair)
  obtain e3 b3 where w: "writeRecord os now sealed b2 = (e3, b3)" by (metis surj_pair)
  note E = ensureActiveLocked_spec [OF assms(2) a]
  have e2: "e2 = None" using E(5) G(5) by simp
  note W = writeRecord_spec [OF E(1) E(4) [OF e2] assms(5) G(3) w]
  have "Append os now payload b = (None, b3)"
    using assms(3,4,6) a w e2 W(4) G(6,7) by (simp add: Append_def reserveRoom_def Let_def)
  moreover have "onEvict b3 = onEvict b" using E(9) W(8) by simp
  ultimately show ?thesis using W(3) E(3) by simp
qed

section \<open>Properties\<close>

text \<open>
  C4. The buffer is a bounded first-in first-out queue: over any interleaving of appends, which may find
  the byte bound reached, and of deliveries, a delivery is given the oldest pending record, an accepted
  record is put behind all others, and a record leaves undelivered only when an append reported an
  eviction, and then together with all pending records of the oldest segment that has any and with
  no other; in the state that is reached a record that fits the bound is accepted without loss. The conditions: the
  disk and the cipher work, a segment and a record fit the byte bound together (so that the only segment is never
  evicted), and the buffer is in the usual order: every segment but the one being written is sealed, as in
  a new directory or one whose last segment was full when it was reopened.
\<close>

theorem buffer_fifo:
  assumes "readable os" and "bufInv b" and "cipherOK (aead b)" and "roomy R b"
    and "\<forall>r. Put r \<in> set ops \<longrightarrow> legalRecord (aead b) R r"
    and "queueRun putRecord (peekEntry os) (\<lambda>b e. snd (Ack os e b)) ops b = (evs, b')"
  shows "bufInv b' \<and> roomy R b' \<and> boundedFifo segID recordOf evs (pending b) (pending b') \<and>
    (\<forall>os1 now p sp. legalRecord (aead b) R (os1, now, p) \<longrightarrow> sealFor (aead b) os1 p = Some sp \<longrightarrow> \<not> closed b' \<longrightarrow>
       fits (int (headerBytes + length sp)) b' \<longrightarrow> fst (snd (putRecord b' (os1, now, p))) \<and> \<not> fst (putRecord b' (os1, now, p)))"
proof -
  have q: "queueInv os (aead b) R b'" and f: "boundedFifo segID recordOf evs (pending b) (pending b')"
    using bq.run_fifo [OF _ assms(5,6)] assms(1-4) by (simp_all add: queueInv_def)
  have "fst (snd (putRecord b' (os1, now, p))) \<and> \<not> fst (putRecord b' (os1, now, p))"
    if req: "legalRecord (aead b) R (os1, now, p)" "sealFor (aead b) os1 p = Some sp" "\<not> closed b'"
      "fits (int (headerBytes + length sp)) b'" for os1 now p sp
  proof -
    have L: "goodOS os1" "storable sp (now div 1000)" using req(1,2) by (simp_all add: legalRecord_def)
    have seal: "sealPayload os1 b' p = Some sp" using req(2) q by (simp add: sealPayload_sealFor queueInv_def)
    obtain b2 where "Append os1 now p b' = (None, b2)" "onEvict b2 = onEvict b'"
      using append_fits [OF L(1) _ req(3) seal L(2) req(4)] q by (auto simp: queueInv_def)
    then show ?thesis by (simp add: putRecord_def)
  qed
  then show ?thesis using q f by (simp add: queueInv_def)
qed

text \<open>Four records into a bound of three, with the disk full at the fourth: the first one is given up.\<close>

theorem buffer_fifo_witness:
  "\<exists>evs b'. queueRun putRecord (peekEntry okOS) (\<lambda>b e. snd (Ack okOS e b))
      [Put (okOS, 1000, [1]), Put (okOS, 2000, [2]), Put (okOS, 3000, [3]), Put (okOS, 4000, [4]), Take]
      (emptyBuffer (smallOpts\<lparr>MaxBytes := 70\<rparr>) None) = (evs, b') \<and>
    boundedFifo segID recordOf evs [] (pending b') \<and> map Payload (pending b') = [[3], [4]]"
proof -
  let ?ops = "[Put (okOS, 1000, [1]), Put (okOS, 2000, [2]), Put (okOS, 3000, [3]), Put (okOS, 4000, [4]), Take]"
    and ?b = "emptyBuffer (smallOpts\<lparr>MaxBytes := 70\<rparr>) None"
  obtain evs b' where run: "queueRun putRecord (peekEntry okOS) (\<lambda>b e. snd (Ack okOS e b)) ?ops ?b = (evs, b')"
    by (metis surj_pair)
  have "roomy 21 ?b" by (simp add: smallOpts_def)
  moreover have "legalRecord None 21 (okOS, t, [n])" if "0 \<le> t" "t \<le> 4000" for t n
  proof -
    have "0 \<le> t div 1000" "t div 1000 \<le> 4"
      using that zdiv_mono1 [of t 4000 1000] by (simp_all add: pos_imp_zdiv_nonneg_iff)
    then show ?thesis by (simp add: legalRecord_def sealFor_def storable_def maxRecordBytes_def headerBytes_def)
  qed
  then have "\<forall>r. Put r \<in> set ?ops \<longrightarrow> legalRecord (aead ?b) 21 r" by (auto simp: emptyBuffer_def)
  ultimately have "boundedFifo segID recordOf evs (pending ?b) (pending b')"
    using buffer_fifo [OF goodOS_D(1) [OF goodOS_okOS] bufInv_empty _ _ _ run, of 21] by (simp add: cipherOK_def emptyBuffer_def)
  moreover have "pending ?b = []" by (simp add: pending_def entriesAt_def segmentAt_def findSegmentLocked_def emptyBuffer_def)
  moreover have "map Payload (pending (snd (queueRun putRecord (peekEntry okOS) (\<lambda>b e. snd (Ack okOS e b)) ?ops ?b))) = [[3], [4]]"
    by code_simp
  ultimately show ?thesis using run by auto
qed

text \<open>
  An append that fits succeeds and queues exactly its record: when the buffer is open, the
  sealed record fits the byte bound and the reader's limit, and the disk works, \<^verbatim>\<open>Append\<close> returns no
  error and the pending records are the old ones followed by this one, with the payload as given
  (after decryption) and the time to the microsecond. Every earlier record keeps its place.
\<close>

theorem append_accepted:
  assumes "goodOS os" and "bufInv b" and "cipherOK (aead b)" and "\<not> closed b"
    and "sealPayload os b payload = Some sealed" and "storable sealed (now div 1000)"
    and "fits (int (headerBytes + length sealed)) b"
  shows "\<exists>b' e. Append os now payload b = (None, b') \<and> bufInv b' \<and> pending b' = pending b @ [e]
    \<and> Payload e = payload \<and> WrittenAt e = now - now mod 1000
    \<and> totalBytes b' = totalBytes b + int (headerBytes + length sealed)"
proof -
  note G = goodOS_D [OF assms(1)]
  obtain b' where b': "Append os now payload b = (None, b')" "onEvict b' = onEvict b"
    "totalBytes b' = totalBytes b + int (headerBytes + length sealed)"
    using append_fits [OF assms(1,2,4-7)] by blast
  have st: "\<And>p. sealPayload os b payload = Some p \<Longrightarrow> storable p (now div 1000)" using assms(5,6) by simp
  note S = Append_spec [OF assms(2) b'(1,2) G(3) assms(3) G(2) st]
  have "1000 * (now div 1000) = now - now mod 1000" by (simp add: minus_mod_eq_mult_div)
  then show ?thesis using S(1,2) b' by simp
qed

theorem append_accepted_witness:
  "\<exists>b' e. Append okOS 7777 [1] (emptyBuffer smallOpts None) = (None, b') \<and> bufInv b'
    \<and> pending b' = pending (emptyBuffer smallOpts None) @ [e]
    \<and> Payload e = [1] \<and> WrittenAt e = 7777 - 7777 mod 1000
    \<and> totalBytes b' = totalBytes (emptyBuffer smallOpts None) + int (headerBytes + length [1::byte])"
  by (rule append_accepted [OF goodOS_okOS bufInv_empty])
    (simp_all add: cipherOK_def emptyBuffer_def sealPayload_def storable_def maxRecordBytes_def fits_def
      smallOpts_def headerBytes_def)

end
