(* ===== verification/Delivery.thy ===== *)
theory Delivery
  imports Buffer_Queue
begin

text \<open>
  Delivery of the durable queue into a sink (\<^verbatim>\<open>src/collector/buffer/delivery.go\<close>, \<^verbatim>\<open>errors.go\<close>).

  Everything outside the deliverer is the type \<open>'w\<close> of worlds and a record \<open>Env\<close> of the calls the
  code makes: the sink's send and commit, the context, the waits, the random source, the clock,
  writing a dead-letter file, and the operating system the buffer sees. Each call returns the
  world after it, so that sinks with memory, outages and cancellations at any point are covered.
  The list \<open>dTrace\<close> records the calls that matter, in order.
\<close>

section \<open>Errors\<close>

datatype goError = PlainError string | WrappedError string goError | permanentError goError

definition Permanent :: "goError option \<Rightarrow> goError option" where
  "Permanent err = (case err of None \<Rightarrow> None | Some e \<Rightarrow> Some (permanentError e))"

fun IsPermanent :: "goError \<Rightarrow> bool" where
  "IsPermanent (PlainError _) = False"
| "IsPermanent (WrappedError _ e) = IsPermanent e"
| "IsPermanent (permanentError _) = True"

datatype deliveryError = ErrStalled | ErrContext | ErrBuffer bufError | ErrNoDeadLetterDir goError | ErrDeadLetterWrite

section \<open>State\<close>

record DeliveryOptions =
  MaxAttempts :: int
  BaseDelay :: duration
  MaxDelay :: duration
  DeadLetterDir :: string
  BatchSize :: int

record DeliveryStats =
  Delivered :: int
  Retries :: int
  DeadLetteredCount :: int
  Stalled :: int

datatype call = Sent "byte list" | SendFailed "byte list" goError | Committed | CommitFailed goError
  | Acked Entry | DeadLettered Entry

record 'w Env =
  send :: "'w \<Rightarrow> byte list \<Rightarrow> goError option \<times> 'w"
  commit :: "('w \<Rightarrow> goError option \<times> 'w) option"
  ctxDone :: "'w \<Rightarrow> bool"
  wait :: "'w \<Rightarrow> duration \<Rightarrow> bool \<times> 'w"
  randFloat :: "'w \<Rightarrow> rat \<times> 'w"
  nowOf :: "'w \<Rightarrow> time"
  dateOf :: "time \<Rightarrow> string"
  marshalDL :: "Entry \<Rightarrow> goError \<Rightarrow> int \<Rightarrow> time \<Rightarrow> byte list option"
  writeDL :: "'w \<Rightarrow> string \<Rightarrow> byte list \<Rightarrow> bool \<times> 'w"
  osOf :: "'w \<Rightarrow> OS"

record 'w Deliverer =
  dBuf :: Buffer
  dOpts :: DeliveryOptions
  dStats :: DeliveryStats
  dWorld :: 'w
  dTrace :: "call list"
  dOnError :: "(int \<times> goError) list"

definition deliveryDefaults :: "DeliveryOptions \<Rightarrow> DeliveryOptions" where
  "deliveryDefaults o1 = o1
     \<lparr>MaxAttempts := (if MaxAttempts o1 \<le> 0 then 8 else MaxAttempts o1),
      BaseDelay := (if BaseDelay o1 \<le> 0 then 500 * 10 ^ 6 else BaseDelay o1),
      MaxDelay := (if MaxDelay o1 \<le> 0 then 60 * 10 ^ 9 else MaxDelay o1),
      BatchSize := (if BatchSize o1 \<le> 0 then 256 else BatchSize o1)\<rparr>"

definition NewDeliverer :: "Buffer \<Rightarrow> DeliveryOptions \<Rightarrow> 'w \<Rightarrow> 'w Deliverer" where
  "NewDeliverer b o1 w =
     \<lparr>dBuf = b, dOpts = deliveryDefaults o1,
      dStats = \<lparr>Delivered = 0, Retries = 0, DeadLetteredCount = 0, Stalled = 0\<rparr>,
      dWorld = w, dTrace = [], dOnError = []\<rparr>"

definition noteCall :: "call \<Rightarrow> 'w Deliverer \<Rightarrow> 'w Deliverer" where
  "noteCall c d = d\<lparr>dTrace := dTrace d @ [c]\<rparr>"

definition countRetry :: "int \<Rightarrow> goError \<Rightarrow> 'w Deliverer \<Rightarrow> 'w Deliverer" where
  "countRetry attempt err d =
     d\<lparr>dStats := (dStats d)\<lparr>Retries := Retries (dStats d) + 1\<rparr>, dOnError := dOnError d @ [(attempt, err)]\<rparr>"

definition countStalled :: "'w Deliverer \<Rightarrow> 'w Deliverer" where
  "countStalled d = d\<lparr>dStats := (dStats d)\<lparr>Stalled := Stalled (dStats d) + 1\<rparr>\<rparr>"

section \<open>Backoff and dead letters\<close>

definition backoff :: "DeliveryOptions \<Rightarrow> rat \<Rightarrow> int \<Rightarrow> duration" where
  "backoff o1 r attempt =
     (let e = of_int (BaseDelay o1) * 2 ^ nat (attempt - 1);
          e' = (if e > of_int (MaxDelay o1) then of_int (MaxDelay o1) else e)
      in \<lfloor>r * e'\<rfloor>)"

text \<open>The \<^verbatim>\<open>select\<close> between the context and the backoff timer: whether the context won.\<close>

definition pause :: "'w Env \<Rightarrow> int \<Rightarrow> 'w Deliverer \<Rightarrow> bool \<times> 'w Deliverer" where
  "pause env attempt d =
     (case randFloat env (dWorld d) of
        (r, w) \<Rightarrow> (case wait env w (backoff (dOpts d) r attempt) of (done, w') \<Rightarrow> (done, d\<lparr>dWorld := w'\<rparr>)))"

definition deadLetter ::
  "'w Env \<Rightarrow> Entry \<Rightarrow> goError \<Rightarrow> 'w Deliverer \<Rightarrow> deliveryError option \<times> 'w Deliverer"
where
  "deadLetter env e cause d =
     (if DeadLetterDir (dOpts d) = [] then (Some (ErrNoDeadLetterDir cause), d)
      else
        let now = nowOf env (dWorld d);
            dir = DeadLetterDir (dOpts d) @ ''/dt='' @ dateOf env now @ ''/delivery_failed'';
            body = (case marshalDL env e cause (MaxAttempts (dOpts d)) now of
                      None \<Rightarrow> Payload e | Some j \<Rightarrow> j);
            name = format_int now @ ''-'' @ format_int (DeadLetteredCount (dStats d)) @ ''.json''
        in case writeDL env (dWorld d) (dir @ ''/'' @ name) body of
             (ok, w) \<Rightarrow>
               if ok then (None, noteCall (DeadLettered e) (d\<lparr>dWorld := w\<rparr>))
               else (Some ErrDeadLetterWrite, d\<lparr>dWorld := w\<rparr>))"

definition ackEntry :: "'w Env \<Rightarrow> Entry \<Rightarrow> 'w Deliverer \<Rightarrow> deliveryError option \<times> 'w Deliverer" where
  "ackEntry env e d =
     (case Ack (osOf env (dWorld d)) e (dBuf d) of
        (Some err, b) \<Rightarrow> (Some (ErrBuffer err), d\<lparr>dBuf := b\<rparr>)
      | (None, b) \<Rightarrow> (None, noteCall (Acked e) (d\<lparr>dBuf := b\<rparr>)))"

section \<open>Sending one record\<close>

datatype attemptResult = AttemptOK | AttemptError deliveryError | AttemptPermanent goError | AttemptsOver

text \<open>The attempt loop shared by \<^verbatim>\<open>sendOne\<close> and \<^verbatim>\<open>deliver\<close>, with the number of attempts left.\<close>

fun attempts :: "'w Env \<Rightarrow> Entry \<Rightarrow> nat \<Rightarrow> 'w Deliverer \<Rightarrow> attemptResult \<times> 'w Deliverer" where
  "attempts env e 0 d = (AttemptsOver, d)"
| "attempts env e (Suc left) d =
     (case send env (dWorld d) (Payload e) of
        (None, w) \<Rightarrow> (AttemptOK, noteCall (Sent (Payload e)) (d\<lparr>dWorld := w\<rparr>))
      | (Some err, w) \<Rightarrow>
          let d1 = noteCall (SendFailed (Payload e) err) (d\<lparr>dWorld := w\<rparr>);
              attempt = MaxAttempts (dOpts d) - int left
          in if ctxDone env w then (AttemptError ErrContext, d1)
             else if IsPermanent err then (AttemptPermanent err, d1)
             else
               let d2 = countRetry attempt err d1
               in if left = 0 then (AttemptError ErrStalled, countStalled d2)
                  else
                    (case pause env attempt d2 of
                       (True, d3) \<Rightarrow> (AttemptError ErrContext, d3)
                     | (False, d3) \<Rightarrow> attempts env e left d3))"

definition countDeadLetter :: "'w Deliverer \<Rightarrow> 'w Deliverer" where
  "countDeadLetter d = d\<lparr>dStats := (dStats d)\<lparr>DeadLetteredCount := DeadLetteredCount (dStats d) + 1\<rparr>\<rparr>"

definition deadLetterAndAck ::
  "'w Env \<Rightarrow> Entry \<Rightarrow> goError \<Rightarrow> 'w Deliverer \<Rightarrow> deliveryError option \<times> 'w Deliverer"
where
  "deadLetterAndAck env e cause d =
     (case deadLetter env e cause d of
        (Some err, d1) \<Rightarrow> (Some err, d1)
      | (None, d1) \<Rightarrow> ackEntry env e (countDeadLetter d1))"

text \<open>The result \<open>Inr handled\<close> says whether the record was dead-lettered and acknowledged.\<close>

definition sendOne :: "'w Env \<Rightarrow> Entry \<Rightarrow> 'w Deliverer \<Rightarrow> (deliveryError + bool) \<times> 'w Deliverer" where
  "sendOne env e d =
     (case attempts env e (nat (MaxAttempts (dOpts d))) d of
        (AttemptOK, d1) \<Rightarrow> (Inr False, d1)
      | (AttemptError err, d1) \<Rightarrow> (Inl err, d1)
      | (AttemptsOver, d1) \<Rightarrow> (Inl ErrStalled, d1)
      | (AttemptPermanent cause, d1) \<Rightarrow>
          (case deadLetterAndAck env e cause d1 of
             (Some err, d2) \<Rightarrow> (Inl err, d2)
           | (None, d2) \<Rightarrow> (Inr True, d2)))"

definition deliver :: "'w Env \<Rightarrow> Entry \<Rightarrow> 'w Deliverer \<Rightarrow> deliveryError option \<times> 'w Deliverer" where
  "deliver env e d =
     (case attempts env e (nat (MaxAttempts (dOpts d))) d of
        (AttemptOK, d1) \<Rightarrow>
          ackEntry env e (d1\<lparr>dStats := (dStats d1)\<lparr>Delivered := Delivered (dStats d1) + 1\<rparr>\<rparr>)
      | (AttemptError err, d1) \<Rightarrow> (Some err, d1)
      | (AttemptsOver, d1) \<Rightarrow> (Some ErrStalled, d1)
      | (AttemptPermanent cause, d1) \<Rightarrow> deadLetterAndAck env e cause d1)"

section \<open>Committing and acknowledging a batch\<close>

fun commitWithRetry ::
  "'w Env \<Rightarrow> ('w \<Rightarrow> goError option \<times> 'w) \<Rightarrow> nat \<Rightarrow> 'w Deliverer \<Rightarrow> deliveryError option \<times> 'w Deliverer"
where
  "commitWithRetry env com 0 d = (Some ErrStalled, countStalled d)"
| "commitWithRetry env com (Suc left) d =
     (case com (dWorld d) of
        (None, w) \<Rightarrow> (None, noteCall Committed (d\<lparr>dWorld := w\<rparr>))
      | (Some err, w) \<Rightarrow>
          let d1 = noteCall (CommitFailed err) (d\<lparr>dWorld := w\<rparr>);
              attempt = MaxAttempts (dOpts d) - int left
          in if ctxDone env w then (Some ErrContext, d1)
             else
               let d2 = countRetry attempt err d1
               in if left = 0 then (Some ErrStalled, countStalled d2)
                  else
                    (case pause env attempt d2 of
                       (True, d3) \<Rightarrow> (Some ErrContext, d3)
                     | (False, d3) \<Rightarrow> commitWithRetry env com left d3))"

fun sendAll ::
  "'w Env \<Rightarrow> Entry list \<Rightarrow> Entry list \<Rightarrow> 'w Deliverer \<Rightarrow> (deliveryError + Entry list) \<times> 'w Deliverer"
where
  "sendAll env [] toAck d = (Inr toAck, d)"
| "sendAll env (e # es) toAck d =
     (case sendOne env e d of
        (Inl err, d1) \<Rightarrow> (Inl err, d1)
      | (Inr handled, d1) \<Rightarrow> sendAll env es (if handled then toAck else toAck @ [e]) d1)"

fun ackAll :: "'w Env \<Rightarrow> Entry list \<Rightarrow> 'w Deliverer \<Rightarrow> deliveryError option \<times> 'w Deliverer" where
  "ackAll env [] d = (None, d)"
| "ackAll env (e # es) d =
     (case ackEntry env e d of
        (Some err, d1) \<Rightarrow> (Some err, d1)
      | (None, d1) \<Rightarrow> ackAll env es d1)"

definition deliverBatch ::
  "'w Env \<Rightarrow> Entry list \<Rightarrow> 'w Deliverer \<Rightarrow> nat \<times> deliveryError option \<times> 'w Deliverer"
where
  "deliverBatch env batch d =
     (case sendAll env batch [] d of
        (Inl err, d1) \<Rightarrow> (0, Some err, d1)
      | (Inr toAck, d1) \<Rightarrow>
          (case (case commit env of
                   None \<Rightarrow> (None, d1)
                 | Some com \<Rightarrow>
                     if toAck = [] then (None, d1)
                     else commitWithRetry env com (nat (MaxAttempts (dOpts d1))) d1) of
             (Some err, d2) \<Rightarrow> (0, Some err, d2)
           | (None, d2) \<Rightarrow>
               (case ackAll env toAck d2 of
                  (Some err, d3) \<Rightarrow> (0, Some err, d3)
                | (None, d3) \<Rightarrow>
                    (length batch, None,
                     d3\<lparr>dStats := (dStats d3)\<lparr>Delivered := Delivered (dStats d3) + int (length toAck)\<rparr>\<rparr>))))"

section \<open>Draining\<close>

fun peekLoop ::
  "'w Env \<Rightarrow> nat \<Rightarrow> Entry list \<Rightarrow> 'w Deliverer \<Rightarrow> (bufError option \<times> Entry list) \<times> 'w Deliverer"
where
  "peekLoop env 0 batch d = ((None, batch), d)"
| "peekLoop env (Suc n) batch d =
     (case PeekAfter (osOf env (dWorld d)) batch (dBuf d) of
        (Inl err, b) \<Rightarrow> ((Some err, batch), d\<lparr>dBuf := b\<rparr>)
      | (Inr None, b) \<Rightarrow> ((None, batch), d\<lparr>dBuf := b\<rparr>)
      | (Inr (Some e), b) \<Rightarrow> peekLoop env n (batch @ [e]) (d\<lparr>dBuf := b\<rparr>))"

definition nextBatch :: "'w Env \<Rightarrow> 'w Deliverer \<Rightarrow> (bufError option \<times> Entry list) \<times> 'w Deliverer" where
  "nextBatch env d = peekLoop env (nat (BatchSize (dOpts d))) [] d"

text \<open>
  \<^verbatim>\<open>DrainOnce\<close> with a bound on the number of rounds; \<open>None\<close> means that the bound was too small. The
  number of rounds is not bounded by the code: a sink that keeps dead-lettering can move the
  cursor back.
\<close>

fun DrainOnce ::
  "'w Env \<Rightarrow> nat \<Rightarrow> nat \<Rightarrow> 'w Deliverer \<Rightarrow> (nat \<times> deliveryError option \<times> 'w Deliverer) option"
where
  "DrainOnce env 0 delivered d = None"
| "DrainOnce env (Suc fuel) delivered d =
     (if ctxDone env (dWorld d) then Some (delivered, Some ErrContext, d)
      else
        case nextBatch env d of
          ((Some err, _), d1) \<Rightarrow> Some (delivered, Some (ErrBuffer err), d1)
        | ((None, batch), d1) \<Rightarrow>
            if batch = [] then Some (delivered, None, d1)
            else
              (case deliverBatch env batch d1 of
                 (n, None, d2) \<Rightarrow> DrainOnce env fuel (delivered + n) d2
               | (n, Some err, d2) \<Rightarrow>
                   if err = ErrStalled then Some (delivered + n, None, d2)
                   else Some (delivered + n, Some err, d2)))"

end
