(* ===== verification/Buffer_Recovery.thy ===== *)
theory Buffer_Recovery
  imports Buffer_Queue
begin

text \<open>
  Recovery of the durable queue from its directory (\<^verbatim>\<open>recover\<close> in \<^verbatim>\<open>buffer.go\<close>) after the process was
  killed at any point, also in the middle of a write.
\<close>

section \<open>Segment file names\<close>

lemma digits_val_zeros: "digits_val (replicate k (CHR ''0'') @ s) = digits_val s"
  by (induction k) (simp_all add: digits_val_def)

lemma segPath_id: "i < 2 ^ 64 \<Longrightarrow> segIdOf \<lparr>deName = segPath i, deIsDir = False, deContent = c\<rparr> = Some i"
proof -
  assume i: "i < 2 ^ 64"
  let ?p = "padZeros 10 (nat_digits i)"
  have "has_suffix (segPath i) ''.seg''" by (simp add: has_suffix_def segPath_def)
  moreover have "take (length (segPath i) - 4) (segPath i) = ?p" by (simp add: segPath_def)
  moreover have "digits_val ?p = i" and "list_all is_digit ?p" and "?p \<noteq> []"
    using nat_digits_val [of i]
    by (auto simp: padZeros_def digits_val_zeros list_all_iff is_digit_def)
  ultimately show ?thesis using i by (simp add: segIdOf_def ParseUint_def)
qed

lemma segPath_inj: "i < 2 ^ 64 \<Longrightarrow> j < 2 ^ 64 \<Longrightarrow> segPath i = segPath j \<longleftrightarrow> i = j"
  by (metis segPath_id option.inject)

section \<open>Recovery of a directory\<close>

definition diskOf :: "segment list \<Rightarrow> stateFile \<Rightarrow> Disk" where
  "diskOf segs st =
     workingDisk (map (\<lambda>s. \<lparr>deName = segPath (segId s), deIsDir = False, deContent = segData s\<rparr>) segs) st"

lemma diskOf_simps [simp]:
  "dState (diskOf segs st) = st" "dListOK (diskOf segs st)" "dStateOK (diskOf segs st)"
  "cutSegment (diskOf segs st) path content = Inr (truncateTorn content)"
  by (simp_all add: diskOf_def workingDisk_def cutSegment_def)

lemma statFile_diskOf:
  assumes "wfSegs segs" and "\<forall>s \<in> set segs. segId s < 2 ^ 64" and "s \<in> set segs"
  shows "statFile (diskOf segs st) (segPath (segId s)) = Some (segData s)"
  using assms
proof (induction segs)
  case (Cons x segs)
  then show ?case
    using segPath_inj [of "segId x" "segId s"] by (auto simp: statFile_def diskOf_def workingDisk_def)
qed simp

lemma recoverSegments_spec:
  assumes "distinct (map segId segs)"
    and "\<forall>s \<in> set segs. statFile dk (segPath (segId s)) = Some (segData s)"
    and cut: "\<And>path content. cutSegment dk path content = Inr (truncateTorn content)"
  shows "\<exists>calls. recoverSegments dk (map segId segs) b =
    Inr (b\<lparr>segments := segments b @ map (\<lambda>s. recoverSegment (segId s) (segData s) (truncateTorn (segData s)) (s = last segs)) segs,
           totalBytes := totalBytes b + sum_list (map (\<lambda>s. int (length (truncateTorn (segData s)))) segs),
           onEvict := onEvict b @ calls\<rparr>)"
  using assms(1,2)
proof (induction segs arbitrary: b)
  case Nil
  show ?case by (rule exI [of _ "[]"]) simp
next
  case (Cons s segs)
  have nl: "(s = last (s # segs)) = (segs = [])"
    using Cons.prems(1) by (cases segs rule: rev_cases) auto
  let ?seg = "recoverSegment (segId s) (segData s) (truncateTorn (segData s)) (segs = [])"
  let ?lost = "int (length (segData s)) - int (segBytes ?seg)"
  let ?calls = "if ?lost > 0 then [(''torn_or_corrupt_tail'', 0, ?lost)] else []"
  let ?b = "b\<lparr>segments := segments b @ [?seg], totalBytes := totalBytes b + int (segBytes ?seg),
    onEvict := onEvict b @ ?calls\<rparr>"
  have step: "recoverSegments dk (map segId (s # segs)) b = recoverSegments dk (map segId segs) ?b"
    using Cons.prems(2) by (simp add: Let_def cut)
  have "map (\<lambda>x. recoverSegment (segId x) (segData x) (truncateTorn (segData x)) (x = last (s # segs))) segs
      = map (\<lambda>x. recoverSegment (segId x) (segData x) (truncateTorn (segData x)) (x = last segs)) segs"
    by (cases segs) auto
  then have rest: "map (\<lambda>x. recoverSegment (segId x) (segData x) (truncateTorn (segData x)) (x = last (s # segs))) (s # segs)
      = ?seg # map (\<lambda>x. recoverSegment (segId x) (segData x) (truncateTorn (segData x)) (x = last segs)) segs"
    by (simp only: list.map nl)
  have bytes: "segBytes ?seg = length (truncateTorn (segData s))" by (simp add: recoverSegment_def)
  obtain calls where calls: "recoverSegments dk (map segId segs) ?b =
    Inr (?b\<lparr>segments := segments ?b @ map (\<lambda>s. recoverSegment (segId s) (segData s) (truncateTorn (segData s)) (s = last segs)) segs,
           totalBytes := totalBytes ?b + sum_list (map (\<lambda>s. int (length (truncateTorn (segData s)))) segs),
           onEvict := onEvict ?b @ calls\<rparr>)"
    using Cons.IH [of ?b] Cons.prems by auto
  show ?case
    unfolding step calls rest by (rule exI [of _ "?calls @ calls"]) (simp add: bytes)
qed

text \<open>The contents at a position depend only on the ids and the files of the segments.\<close>

definition sameFile :: "segment \<Rightarrow> segment \<Rightarrow> bool" where
  "sameFile s t \<longleftrightarrow> segId s = segId t \<and> segData s = segData t"

lemma sameFile_entriesOf: "sameFile s t \<Longrightarrow> entriesOf a s off = entriesOf a t off"
  by (simp add: sameFile_def entriesOf_def)

lemma sameFile_lookup:
  assumes "list_all2 sameFile xs ys"
  shows "rel_option sameFile (findSegmentLocked xs i) (findSegmentLocked ys i)"
    and "laterEntries a xs i = laterEntries a ys i"
  using assms
  by (induction rule: list_all2_induct)
    (auto simp: findSegmentLocked_def laterEntries_def sameFile_entriesOf, auto simp: sameFile_def)

lemma sameFile_at:
  assumes "list_all2 sameFile xs ys"
  shows "entriesAt a xs sid off = entriesAt a ys sid off" and "posOK xs sid off = posOK ys sid off"
proof -
  have hd: "xs \<noteq> [] \<Longrightarrow> sameFile (hd xs) (hd ys)" "xs = [] \<longleftrightarrow> ys = []"
    using assms by (cases xs; cases ys; simp)+
  have "entriesAt a xs sid off = entriesAt a ys sid off \<and> posOK xs sid off = posOK ys sid off"
  proof (cases "findSegmentLocked xs sid")
    case None
    then have "findSegmentLocked ys sid = None" using sameFile_lookup(1) [OF assms, of sid] by simp
    with None show ?thesis
      using hd sameFile_entriesOf [OF hd(1)]
      by (simp add: entriesAt_def posOK_def segmentAt_def sameFile_lookup(2) [OF assms] sameFile_def)
  next
    case (Some s)
    then obtain t where t: "findSegmentLocked ys sid = Some t" and st: "sameFile s t"
      using sameFile_lookup(1) [OF assms, of sid] by (auto simp: option_rel_Some1)
    have "segId s = segId t" and "segData s = segData t" using st by (simp_all add: sameFile_def)
    with Some t show ?thesis
      by (simp add: entriesAt_def posOK_def segmentAt_def sameFile_entriesOf [OF st] sameFile_lookup(2) [OF assms])
  qed
  then show "entriesAt a xs sid off = entriesAt a ys sid off" and "posOK xs sid off = posOK ys sid off"
    by simp_all
qed

lemma wfSegs_ids: "wfSegs segs \<Longrightarrow> sort (map segId segs) = map segId segs \<and> distinct (map segId segs)"
  by (auto simp: wfSegs_def strict_sorted_iff sorted_sort_id)

lemma segIds_diskOf:
  "\<forall>s \<in> set segs. segId s < 2 ^ 64 \<Longrightarrow>
    List.map_filter segIdOf (dEntries (diskOf segs st)) = map segId segs"
  by (induction segs) (simp_all add: diskOf_def workingDisk_def segPath_id)

definition truncated :: "segment list \<Rightarrow> segment list" where
  "truncated segs = map (\<lambda>s. s\<lparr>segData := truncateTorn (segData s)\<rparr>) segs"

lemma recover_diskOf:
  assumes wf: "wfSegs segs" and ids: "\<forall>s \<in> set segs. segId s < 2 ^ 64"
    and wh: "\<forall>s \<in> set segs. whole (truncateTorn (segData s)) 0"
    and ls: "loadState (diskOf segs st) = (cs, co)" and pos: "posOK (truncated segs) cs co"
  shows "\<exists>b'. recover (diskOf segs st) (emptyBuffer o1 a) = Inr b' \<and> bufInv b' \<and>
    pending b' = entriesAt a (truncated segs) cs co \<and> savedOK b' \<and> aead b' = a \<and> map segId (segments b') = map segId segs"
proof -
  let ?b0 = "(emptyBuffer o1 a)\<lparr>cursorSeg := cs, cursorOff := co, savedState := st\<rparr>"
  let ?R = "map (\<lambda>s. recoverSegment (segId s) (segData s) (truncateTorn (segData s)) (s = last segs)) segs"
  have "\<forall>s \<in> set segs. statFile (diskOf segs st) (segPath (segId s)) = Some (segData s)"
    using statFile_diskOf [OF wf ids] by blast
  then obtain calls where R: "recoverSegments (diskOf segs st) (map segId segs) ?b0 =
      Inr (?b0\<lparr>segments := ?R, totalBytes := sum_list (map (\<lambda>s. int (length (truncateTorn (segData s)))) segs),
            onEvict := calls\<rparr>)"
    using recoverSegments_spec [of segs "diskOf segs st" ?b0] wfSegs_ids [OF wf]
    by (auto simp: emptyBuffer_def)
  define b1 where "b1 = ?b0\<lparr>segments := ?R,
    totalBytes := sum_list (map (\<lambda>s. int (length (truncateTorn (segData s)))) segs), onEvict := calls\<rparr>"
  have same: "list_all2 sameFile ?R (truncated segs)"
    by (auto simp: truncated_def list_all2_conv_all_nth sameFile_def recoverSegment_def)
  have wfR: "wfSegs ?R"
    using wf by (auto simp: wfSegs_def recoverSegment_def o_def)
  have inv1: "bufInv b1" and pend1: "pending b1 = entriesAt a (truncated segs) cs co"
    using wfR wh pos sameFile_at [OF same]
    by (auto simp: bufInv_iff b1_def pending_def emptyBuffer_def recoverSegment_def o_def)
  have eq: "recover (diskOf segs st) (emptyBuffer o1 a) =
      (if segments b1 = [] then Inr b1
       else if int (segBytes (last (segments b1))) \<ge> SegmentBytes (opts b1)
       then Inr (b1\<lparr>segments := butlast (segments b1) @ [(last (segments b1))\<lparr>segSealed := True\<rparr>], active := None\<rparr>)
       else Inr (b1\<lparr>active := Some (segId (last (segments b1)))\<rparr>))"
    unfolding recover_def Let_def segIds_diskOf [OF ids] ls prod.case
    using R wfSegs_ids [OF wf] by (simp add: b1_def)
  have unsealed: "\<not> segSealed (last (segments b1))" if "segments b1 \<noteq> []"
    using that by (simp add: b1_def last_map recoverSegment_def)
  have bytes: "segBytes (last (segments b1)) = length (segData (last (segments b1)))" if "segments b1 \<noteq> []"
    using that by (simp add: b1_def last_map recoverSegment_def)
  have "bufInv (b1\<lparr>active := Some (segId (last (segments b1)))\<rparr>)" if "segments b1 \<noteq> []"
    using that inv1 unsealed by (auto simp: bufInv_iff)
  moreover have "pending (b1\<lparr>active := act\<rparr>) = pending b1" for act by (simp add: pending_def)
  moreover have "bufInv (b1\<lparr>segments := butlast (segments b1) @ [(last (segments b1))\<lparr>segSealed := True\<rparr>], active := None\<rparr>)
      \<and> pending (b1\<lparr>segments := butlast (segments b1) @ [(last (segments b1))\<lparr>segSealed := True\<rparr>], active := None\<rparr>) = pending b1"
    if "segments b1 \<noteq> []"
    using last_update [OF inv1 that, of "(last (segments b1))\<lparr>segSealed := True\<rparr>" None "[]"] bytes [OF that]
    by (simp add: entriesOf_def)
  moreover have "savedOK (b1\<lparr>segments := ss, active := act\<rparr>)" "savedOK (b1\<lparr>active := act\<rparr>)" "savedOK b1" "aead b1 = a" for ss act
    using ls by (auto simp: b1_def savedOK_def savedPos_def loadState_def emptyBuffer_def split: stateFile.splits)
  moreover have "map segId (segments b1) = map segId segs"
    by (simp add: b1_def recoverSegment_def o_def)
  moreover from this have "map segId (butlast (segments b1) @ [(last (segments b1))\<lparr>segSealed := True\<rparr>]) = map segId segs"
    if "segments b1 \<noteq> []"
    using that by (metis append_butlast_last_id list.simps(8,9) map_append segment.select_convs(1) segment.surjective segment.update_convs(5))
  ultimately show ?thesis
    using inv1 pend1 eq by auto
qed

section \<open>Crashes\<close>

text \<open>The directory a killed process leaves: every segment file as it was, the last one with the
  bytes of a write that was cut short.\<close>

definition crashDisk :: "Buffer \<Rightarrow> byte list \<Rightarrow> Disk" where
  "crashDisk b torn =
     diskOf (if segments b = [] then []
             else butlast (segments b) @
               [(last (segments b))\<lparr>segData := segData (last (segments b)) @ torn,
                  segBytes := length (segData (last (segments b)) @ torn)\<rparr>])
       (savedState b)"

lemma crash_segments:
  assumes "bufInv b" and "\<forall>s \<in> set (segments b). segId s < 2 ^ 64"
    and "n < length (encodeFrame q u)" and "length q < 2 ^ 32"
    and "loadState (crashDisk b (take n (encodeFrame q u))) = (cs, co)" and "posOK (segments b) cs co"
  shows "\<exists>b'. recover (crashDisk b (take n (encodeFrame q u))) (emptyBuffer o1 (aead b)) = Inr b' \<and> bufInv b'
    \<and> pending b' = entriesAt (aead b) (segments b) cs co \<and> savedOK b' \<and> aead b' = aead b
    \<and> map segId (segments b') = map segId (segments b)"
proof -
  let ?t = "take n (encodeFrame q u)"
  note I = bufInvD [OF assms(1)]
  define segs where "segs = (if segments b = [] then []
     else butlast (segments b) @ [(last (segments b))\<lparr>segData := segData (last (segments b)) @ ?t,
                  segBytes := length (segData (last (segments b)) @ ?t)\<rparr>])"
  have cut: "truncateTorn (segData s @ ?t) = segData s" if "s \<in> set (segments b)" for s
    using that I(2) truncateTorn_torn [OF _ assms(3,4)] by simp
  have wf: "wfSegs segs" and ids: "\<forall>s \<in> set segs. segId s < 2 ^ 64"
    using I(1) assms(2)
    by (cases "segments b" rule: rev_cases, auto simp: segs_def wfSegs_snoc)+
  have wh: "\<forall>s \<in> set segs. whole (truncateTorn (segData s)) 0"
    using I(2) cut by (cases "segments b" rule: rev_cases) (auto simp: segs_def)
  have same: "list_all2 sameFile (truncated segs) (segments b)"
    using I(2) cut by (cases "segments b" rule: rev_cases)
      (auto simp: segs_def truncated_def sameFile_def list_all2_map1 intro!: list_all2_appendI list.rel_refl_strong)
  have ids': "map segId segs = map segId (segments b)"
    by (cases "segments b" rule: rev_cases) (simp_all add: segs_def)
  have disk: "crashDisk b ?t = diskOf segs (savedState b)"
    by (simp add: crashDisk_def segs_def)
  show ?thesis
    using recover_diskOf [OF wf ids wh assms(5) [unfolded disk], of o1 "aead b"] assms(6) sameFile_at [OF same] ids'
    by (simp add: disk)
qed

text \<open>The position on disk shows the records the read cursor shows.\<close>

lemma savedOK_entries:
  assumes "bufInv b" and "savedOK b"
  shows "posOK (segments b) (fst (savedPos b)) (snd (savedPos b))"
    and "entriesAt (aead b) (segments b) (fst (savedPos b)) (snd (savedPos b)) = pending b"
proof -
  note I = bufInvD [OF assms(1)]
  have "posOK (segments b) (fst (savedPos b)) (snd (savedPos b)) \<and>
    entriesAt (aead b) (segments b) (fst (savedPos b)) (snd (savedPos b)) = pending b"
  proof (cases "savedPos b = (cursorSeg b, cursorOff b)")
    case True
    then show ?thesis using I(4) by (simp add: pending_def)
  next
    case False
    then have st: "atStart (segments b) (cursorSeg b) (cursorOff b)" and "fst (savedPos b) < segId (hd (segments b))"
      using assms(2) by (simp_all add: savedOK_def)
    then have "atStart (segments b) (fst (savedPos b)) (snd (savedPos b))" by (simp add: atStart_def)
    from atStart_entries [OF I(1) this I(2)] atStart_entries(1) [OF I(1) st I(2)]
    show ?thesis by (simp add: pending_def)
  qed
  then show "posOK (segments b) (fst (savedPos b)) (snd (savedPos b))"
    and "entriesAt (aead b) (segments b) (fst (savedPos b)) (snd (savedPos b)) = pending b" by simp_all
qed

section \<open>Retention\<close>

definition expires :: "OS \<Rightarrow> time \<Rightarrow> segment \<Rightarrow> bool" where
  "expires os cutoff s \<longleftrightarrow>
     segSealed s \<and> (case segOldest s of None \<Rightarrow> False | Some t \<Rightarrow> t < cutoff) \<and> removeOK os (segId s)"

definition pushCursor :: "nat \<times> nat \<Rightarrow> nat \<Rightarrow> nat \<times> nat" where
  "pushCursor p i = (if fst p \<le> i then (i + 1, 0) else p)"

lemma expireSegs_spec:
  "segments (expireSegs os cutoff keep xs b) = keep @ filter (\<lambda>s. \<not> expires os cutoff s) xs"
  "totalBytes (expireSegs os cutoff keep xs b) =
     totalBytes b - sum_list (map (int \<circ> segBytes) (filter (expires os cutoff) xs))"
  "(cursorSeg (expireSegs os cutoff keep xs b), cursorOff (expireSegs os cutoff keep xs b)) =
     foldl pushCursor (cursorSeg b, cursorOff b) (map segId (filter (expires os cutoff) xs))"
  "aead (expireSegs os cutoff keep xs b) = aead b" "active (expireSegs os cutoff keep xs b) = active b"
  "savedState (expireSegs os cutoff keep xs b) = savedState b"
  by (induction os cutoff keep xs b rule: expireSegs.induct) (simp_all add: expires_def pushCursor_def Let_def)

lemma pushCursor_fold:
  "sorted_wrt (<) is \<Longrightarrow>
    foldl pushCursor p is = p \<and> (\<forall>i \<in> set is. i < fst p)
    \<or> (\<exists>i \<in> set is. fst p \<le> i \<and> foldl pushCursor p is = (i + 1, 0))"
proof (induction "is" arbitrary: p)
  case (Cons i r)
  have later: "sorted_wrt (<) r" "\<forall>j \<in> set r. i < j" using Cons.prems by simp_all
  show ?case
  proof (cases "fst p \<le> i")
    case True
    then have "foldl pushCursor p (i # r) = foldl pushCursor (i + 1, 0) r" by (simp add: pushCursor_def)
    moreover have "\<not> (\<forall>j \<in> set r. j < i + 1) \<or> r = []" using later(2) by (cases r) force+
    ultimately show ?thesis using Cons.IH [OF later(1), of "(i + 1, 0)"] True by auto
  next
    case False
    then have "foldl pushCursor p (i # r) = foldl pushCursor p r" by (simp add: pushCursor_def)
    then show ?thesis using Cons.IH [OF later(1), of p] False by auto
  qed
qed simp

lemma filter_drop:
  assumes "distinct xs" and "filter (\<lambda>x. \<not> P x) xs = drop k xs"
  shows "filter P xs = take k xs"
proof -
  have d: "set (take k xs) \<inter> set (drop k xs) = {}" using assms(1) by (rule set_take_disj_set_drop_if_distinct) simp
  have in_drop: "x \<in> set (drop k xs) \<longleftrightarrow> x \<in> set xs \<and> \<not> P x" for x
    by (simp flip: assms(2))
  have "\<forall>x \<in> set (take k xs). P x" using d in_drop by (meson disjoint_iff in_set_takeD)
  then have "filter P (take k xs) = take k xs" by (simp add: filter_id_conv)
  moreover have "filter P (drop k xs) = []" using in_drop by (simp add: filter_empty_conv)
  ultimately show ?thesis by (metis append_Nil2 append_take_drop_id filter_append)
qed

lemma EvictExpired_order:
  assumes inv: "bufInv b" and gone: "segments (EvictExpired os now b) = drop k (segments b)"
    and left: "k = 0 \<or> k < length (segments b)"
  shows "bufInv (EvictExpired os now b)" and "savedOK b \<Longrightarrow> savedOK (EvictExpired os now b)"
    and "aead (EvictExpired os now b) = aead b" and "savedState (EvictExpired os now b) = savedState b"
proof -
  let ?b = "EvictExpired os now b" and ?P = "\<lambda>s. \<not> expires os (now - MaxAge (opts b)) s"
  note I = bufInvD [OF inv]
  note S = expireSegs_spec [of os "now - MaxAge (opts b)" "[]" "segments b" b, folded EvictExpired_def]
  have keep: "filter ?P (segments b) = drop k (segments b)" using S(1) gone by simp
  have "distinct (segments b)" using I(1) by (simp add: wfSegs_def strict_sorted_iff distinct_map)
  from filter_drop [OF this keep] have out: "filter (expires os (now - MaxAge (opts b))) (segments b) = take k (segments b)" .
  have sum: "sum_list (map (int \<circ> segBytes) (segments b)) =
      sum_list (map (int \<circ> segBytes) (take k (segments b))) + sum_list (map (int \<circ> segBytes) (drop k (segments b)))"
    by (metis append_take_drop_id map_append sum_list.append)
  have ids: "sorted_wrt (<) (map segId (take k (segments b)))"
    using I(1) by (simp add: wfSegs_def sorted_wrt_take flip: take_map)
  have ne: "drop k (segments b) \<noteq> []" if "0 < k" using that left by simp
  have below: "segId s < segId (hd (drop k (segments b)))" if "s \<in> set (take k (segments b))" "0 < k" for s
  proof -
    have "sorted_wrt (<) (map segId (take k (segments b)) @ map segId (drop k (segments b)))"
      using I(1) by (metis append_take_drop_id map_append wfSegs_def)
    moreover have "hd (drop k (segments b)) \<in> set (drop k (segments b))" using ne [OF that(2)] by simp
    ultimately show ?thesis using that(1) unfolding sorted_wrt_append by auto
  qed
  have core: "posOK (segments ?b) (cursorSeg ?b) (cursorOff ?b) \<and> (savedOK b \<longrightarrow> savedOK ?b)"
  proof (cases "k = 0")
    case True
    then have "segments ?b = segments b" "cursorSeg ?b = cursorSeg b" "cursorOff ?b = cursorOff b"
      using S(3) gone out by simp_all
    then show ?thesis using I(4) S(6) by (simp add: savedOK_def savedPos_def)
  next
    case False
    then have k: "0 < k" by simp
    have wf: "wfSegs (drop k (segments b))" using wfSegs_filter [OF I(1), of ?P] keep by simp
    have wh: "\<forall>s \<in> set (drop k (segments b)). whole (segData s) 0" using I(2) in_set_dropD by fast
    have hdlt: "segId (hd (segments b)) < segId (hd (drop k (segments b)))"
      using below [of "hd (segments b)"] k left by (cases "segments b"; cases k) auto
    have hdin: "hd (segments b) \<in> set (take k (segments b))"
      using k left by (cases "segments b"; cases k) auto
    from pushCursor_fold [OF ids, of "(cursorSeg b, cursorOff b)"] consider
        (stay) "(cursorSeg ?b, cursorOff ?b) = (cursorSeg b, cursorOff b)" "\<forall>s \<in> set (take k (segments b)). segId s < cursorSeg b"
      | (moved) s where "s \<in> set (take k (segments b))" "cursorSeg b \<le> segId s" "(cursorSeg ?b, cursorOff ?b) = (segId s + 1, 0)"
      using S(3) out by auto
    then show ?thesis
    proof cases
      case stay
      have "\<forall>s \<in> set (segments b). \<not> ?P s \<longrightarrow> segId s < cursorSeg b"
      proof (intro ballI impI)
        fix s assume "s \<in> set (segments b)" "\<not> ?P s"
        then have "s \<in> set (filter (expires os (now - MaxAge (opts b))) (segments b))" by simp
        then show "segId s < cursorSeg b" using stay(2) out by simp
      qed
      note K = behind_keep(2) [OF I(1,4) this]
      have "\<not> atStart (segments b) (cursorSeg b) (cursorOff b)"
        using stay(2) hdin by (auto simp: atStart_def)
      then show ?thesis using K keep gone stay(1) S(6) by (auto simp: savedOK_def savedPos_def)
    next
      case moved
      have lt: "segId s < segId (hd (drop k (segments b)))" using below [OF moved(1) k] .
      then have st: "atStart (drop k (segments b)) (cursorSeg ?b) (cursorOff ?b)"
        using moved(3) ne [OF k] by (auto simp: atStart_def)
      have "fst (savedPos b) < segId (hd (drop k (segments b)))" if "savedOK b"
        using that moved(2) lt hdlt by (auto simp: savedOK_def)
      then show ?thesis
        using atStart_entries(2) [OF wf st wh] st gone S(6) by (auto simp: savedOK_def savedPos_def)
    qed
  qed
  have act: "segments ?b \<noteq> [] \<and> segId (last (segments ?b)) = i \<and> \<not> segSealed (last (segments ?b))" if "active ?b = Some i" for i
    using that inv left S(5) gone by (auto simp: bufInv_iff last_drop)
  have "wfSegs (segments ?b)" "\<forall>s \<in> set (segments ?b). whole (segData s) 0"
    using wfSegs_filter [OF I(1), of ?P] keep gone I(2) in_set_dropD by (fastforce)+
  moreover have "totalBytes ?b = sum_list (map (int \<circ> segBytes) (segments ?b))"
    using S(2) I(3) sum out gone by simp
  ultimately show "bufInv ?b" using core act by (auto simp: bufInv_iff)
  show "savedOK b \<Longrightarrow> savedOK ?b" using core by blast
  show "aead ?b = aead b" "savedState ?b = savedState b" using S(4,6) by simp_all
qed

section \<open>Runs with crashes\<close>

text \<open>
  A buffer from its first opening on, through appends, reads, acknowledgements, retention, closing,
  kills and reopenings, in any order. The operating system may refuse to open, create, remove, sync or
  close a file, and the random source may fail. What is excluded is what loses records: a
  short write that the process survives (\<open>short_write_hides_next_record\<close>), a state file that cannot be
  written, an eviction of the only segment (\<open>restarted_numbering_hides_records\<close>) or one that skips a segment
  reopened after a kill (\<open>stranded_segment_kept\<close>), and records beyond the reader's limit
  (\<open>oversize_record_unreadable\<close>). \<open>interrupted b c\<close> is the moment of a kill: between two operations, or
  inside an append with a part of the record written.
\<close>

definition withinReader :: "AEAD option \<Rightarrow> OS \<Rightarrow> time \<Rightarrow> byte list \<Rightarrow> bool" where
  "withinReader a os now p = (case sealFor a os p of None \<Rightarrow> True | Some sp \<Rightarrow> storable sp (now div 1000))"

inductive interrupted :: "AEAD option \<Rightarrow> Buffer \<Rightarrow> Buffer \<Rightarrow> bool" for a where
  between: "interrupted a b b"
| inside: "Append os now p b = (Some ErrWrite, c) \<Longrightarrow> shortWrite os = Some n \<Longrightarrow> sealFor a os p = Some sp \<Longrightarrow>
    n < headerBytes + length sp \<Longrightarrow> length sp < 2 ^ 32 \<Longrightarrow> evictsInOrder os p b \<Longrightarrow> interrupted a b c"

definition numbered :: "Buffer \<Rightarrow> bool" where
  "numbered b \<longleftrightarrow> (\<forall>s \<in> set (segments b). segId s < 2 ^ 64)"

inductive intactRun :: "AEAD option \<Rightarrow> Buffer \<Rightarrow> bool" for a where
  opened: "intactRun a (emptyBuffer o1 a)"
| appended: "intactRun a b \<Longrightarrow> Append os now p b = (err, b') \<Longrightarrow> shortWrite os = None \<Longrightarrow> withinReader a os now p \<Longrightarrow>
    evictsInOrder os p b \<Longrightarrow> intactRun a b'"
| peeked: "intactRun a b \<Longrightarrow> PeekAfter os seen b = (r, b') \<Longrightarrow> intactRun a b'"
| acked: "intactRun a b \<Longrightarrow> e \<in> set (pending b) \<Longrightarrow> saveOK os \<Longrightarrow> Ack os e b = (err, b') \<Longrightarrow> intactRun a b'"
| expired: "intactRun a b \<Longrightarrow> EvictExpired os now b = b' \<Longrightarrow> segments b' = drop k (segments b) \<Longrightarrow>
    k = 0 \<or> k < length (segments b) \<Longrightarrow> intactRun a b'"
| closed: "intactRun a b \<Longrightarrow> Close os b = (err, b') \<Longrightarrow> intactRun a b'"
| reopened: "intactRun a b \<Longrightarrow> interrupted a b c \<Longrightarrow> numbered c \<Longrightarrow>
    recover (diskOf (segments c) (savedState c)) (emptyBuffer o1 a) = Inr b' \<Longrightarrow> intactRun a b'"

definition intact :: "AEAD option \<Rightarrow> Buffer \<Rightarrow> bool" where
  "intact a b \<longleftrightarrow> bufInv b \<and> aead b = a \<and> savedOK b \<and> (\<forall>s \<in> set (segments b). 0 < segId s)"

lemma recover_saved:
  assumes "intact a b" and "numbered b" and "n < length (encodeFrame q u)" and "length q < 2 ^ 32"
  shows "\<exists>b'. recover (crashDisk b (take n (encodeFrame q u))) (emptyBuffer o1 a) = Inr b' \<and> intact a b'
    \<and> pending b' = pending b"
proof -
  have I: "bufInv b" "savedOK b" "aead b = a" "\<forall>i \<in> set (map segId (segments b)). 0 < i"
    using assms(1) by (simp_all add: intact_def)
  have "loadState (crashDisk b (take n (encodeFrame q u))) = savedPos b"
    by (simp add: loadState_def crashDisk_def savedPos_def)
  then have l: "loadState (crashDisk b (take n (encodeFrame q u))) = (fst (savedPos b), snd (savedPos b))" by simp
  obtain b' where b': "recover (crashDisk b (take n (encodeFrame q u))) (emptyBuffer o1 (aead b)) = Inr b'" "bufInv b'"
    "savedOK b'" "aead b' = aead b" "map segId (segments b') = map segId (segments b)"
    "pending b' = entriesAt (aead b) (segments b) (fst (savedPos b)) (snd (savedPos b))"
    using crash_segments [OF I(1) _ assms(3,4) l savedOK_entries(1) [OF I(1,2)], of o1] assms(2) unfolding numbered_def by blast
  have "\<forall>i \<in> set (map segId (segments b')). 0 < i" unfolding b'(5) using I(4) .
  then have "intact a b'" using b'(2-4) I(3) by (simp add: intact_def)
  then show ?thesis using b'(1,6) I(3) savedOK_entries(2) [OF I(1,2)] by simp
qed

text \<open>What a killed process leaves on disk, and what the next one finds there.\<close>

lemma interrupted_disk:
  assumes "intact a b" and "interrupted a b c"
  shows "\<exists>d n q u. diskOf (segments c) (savedState c) = crashDisk d (take n (encodeFrame q u)) \<and> intact a d
    \<and> n < length (encodeFrame q u) \<and> length q < 2 ^ 32 \<and> map segId (segments d) = map segId (segments c)
    \<and> makesRoom segID (onEvict c \<noteq> onEvict b) (pending b) (pending d)"
  using assms(2)
proof cases
  case between
  have "diskOf (segments b) (savedState b) = crashDisk b (take 0 (encodeFrame [] 0))"
    by (cases "segments b" rule: rev_cases) (simp_all add: crashDisk_def diskOf_def)
  moreover have "0 < length (encodeFrame [] 0)" by (simp add: headerBytes_def)
  ultimately show ?thesis
    using assms(1) between by (intro exI [of _ b] exI [of _ 0] exI [of _ "[]"]) (auto simp: makesRoom_def)
next
  case (inside os now p n sp)
  have I: "bufInv b" "savedOK b" "aead b = a" "\<forall>i \<in> set (map segId (segments b)). 0 < i"
    using assms(1) by (simp_all add: intact_def)
  have sp: "sealPayload os b p = Some sp" using inside(3) I(3) by (simp add: sealPayload_sealFor)
  have cl: "\<not> closed b" using inside(1) by (auto simp: Append_def)
  obtain e1 b1 e2 b2 e3 b3 where r: "reserveRoom os (int (headerBytes + length sp)) b = (e1, b1)"
    and a: "ensureActiveLocked os b1 = (e2, b2)" and w: "writeRecord os now sp b2 = (e3, b3)"
    and eq: "(Some ErrWrite, c) = (if e1 \<noteq> None then (e1, b1) else if e2 \<noteq> None then (e2, b2) else (e3, b3))"
    using Append_stages [OF inside(1) sp cl] .
  have ord: "onEvict b1 = onEvict b \<or> tidy b \<and> segments b1 \<noteq> []"
    using inside(6) sp r by (simp add: evictsInOrder_def Let_def)
  note T = reserveRoom_tidy [OF I(1) r ord]
  note E = ensureActiveLocked_spec [OF T(1) a]
  have "e1 \<noteq> Some ErrWrite" "e2 \<noteq> Some ErrWrite"
    using r a by (auto simp: reserveRoom_def ensureActiveLocked_def Let_def evictOldestLocked_def
        split: if_splits list.splits option.splits prod.splits)
  then have none: "e1 = None" "e2 = None" and c: "c = b3" using eq by (auto split: if_splits)
  have wr: "writing b2" using E(4) none by simp
  let ?t = "take n (encodeFrame sp (now div 1000))"
  have b3: "b3 = b2\<lparr>segments := butlast (segments b2) @ [(last (segments b2))\<lparr>segData := segData (last (segments b2)) @ ?t\<rparr>]\<rparr>"
    using w inside(2) wr updActive_last [OF bufInvD(1) [OF E(1)]]
    by (auto simp: writeRecord_def writing_def)
  have disk: "diskOf (segments c) (savedState c) = crashDisk b2 ?t"
    using wr by (simp add: c b3 crashDisk_def diskOf_def writing_def)
  obtain extra where extra: "map segId (segments b2) = map segId (segments b1) @ extra" "\<forall>i \<in> set extra. 0 < i"
    using ensureActiveLocked_ids(1) [of os b1] a by auto
  have "\<forall>i \<in> set (map segId (segments b1)). 0 < i" using T(5) I(4) by auto
  then have "\<forall>i \<in> set (map segId (segments b2)). 0 < i" using extra by auto
  moreover have "savedOK b2"
    using savedOK_ids [OF T(3) [OF I(2)] extra(1)] E(10) ensureActiveLocked_ids(2,3) [of os b1] a by simp
  ultimately have "intact a b2" using E(1,7) T(8) I(3) by (simp add: intact_def)
  moreover have "map segId (segments b2) = map segId (segments c)"
  proof (cases "segments b2" rule: rev_cases)
    case Nil
    then show ?thesis using wr by (simp add: writing_def)
  qed (simp add: c b3)
  moreover have "makesRoom segID (onEvict c \<noteq> onEvict b) (pending b) (pending b2)"
    using T(4) E(2,9) by (auto simp: makesRoom_def c b3)
  ultimately show ?thesis
    using disk inside(4,5) by (intro exI [of _ b2] exI [of _ n] exI [of _ sp] exI [of _ "now div 1000"]) simp
qed

lemma recover_interrupted:
  assumes "intact a b" and "interrupted a b c" and "numbered c"
  shows "\<exists>b'. recover (diskOf (segments c) (savedState c)) (emptyBuffer o1 a) = Inr b' \<and> intact a b'
    \<and> makesRoom segID (onEvict c \<noteq> onEvict b) (pending b) (pending b')"
proof -
  obtain d n q u where d: "diskOf (segments c) (savedState c) = crashDisk d (take n (encodeFrame q u))" "intact a d"
    "n < length (encodeFrame q u)" "length q < 2 ^ 32" "map segId (segments d) = map segId (segments c)"
    "makesRoom segID (onEvict c \<noteq> onEvict b) (pending b) (pending d)"
    using interrupted_disk [OF assms(1,2)] by blast
  have "segId ` set (segments d) = segId ` set (segments c)" using d(5) by (metis list.set_map)
  moreover have "numbered e \<longleftrightarrow> (\<forall>i \<in> segId ` set (segments e). i < 2 ^ 64)" for e by (simp add: numbered_def)
  ultimately have "numbered d" using assms(3) by (simp only:)
  then obtain b' where "recover (crashDisk d (take n (encodeFrame q u))) (emptyBuffer o1 a) = Inr b'" "intact a b'"
    "pending b' = pending d"
    using recover_saved [OF d(2) _ d(3,4), of o1] by blast
  then show ?thesis using d(1,6) by simp
qed

lemma intact_saved:
  assumes "intact a b"
  shows "intact a (b\<lparr>savedState := SavedState (cursorSeg b) (cursorOff b)\<rparr>)" and "intact a (b\<lparr>closed := x\<rparr>)"
  using assms by (simp_all add: intact_def savedOK_def savedPos_def bufInv_iff)

lemma Close_intact: "intact a b \<Longrightarrow> Close os b = (err, b') \<Longrightarrow> intact a b'"
proof -
  assume i: "intact a b" and c: "Close os b = (err, b')"
  let ?f = "\<lambda>s. if active b = Some (segId s) then s\<lparr>segFile := False\<rparr> else s"
  let ?c = "b\<lparr>closed := True, segments := map ?f (segments b)\<rparr>"
  have I: "bufInv b" "savedOK b" using i by (simp_all add: intact_def)
  have same: "list_all2 sameFile (map ?f (segments b)) (segments b)"
    by (auto simp: list_all2_map1 sameFile_def intro: list.rel_refl_strong)
  have ids: "map segId (map ?f (segments b)) = map segId (segments b)" by (simp add: o_def if_distrib cong: if_cong)
  have bytes: "map segBytes (map ?f (segments b)) = map segBytes (segments b)" by (simp add: o_def if_distrib cong: if_cong)
  have sum: "sum_list (map (int \<circ> segBytes) (map ?f (segments b))) = sum_list (map (int \<circ> segBytes) (segments b))"
    using arg_cong [OF bytes, of "map int"] by (metis list.map_comp)
  have wf: "wfSegs (map ?f (segments b))"
    using bufInvD(1) [OF I(1)] unfolding wfSegs_def ids by auto
  have "bufInv ?c"
    using I(1) wf sum sameFile_at(2) [OF same] by (auto simp: bufInv_iff last_map split: if_splits)
  moreover have "savedOK ?c" using savedOK_ids [OF I(2), of ?c "[]"] ids by simp
  moreover have "\<forall>s \<in> set (segments ?c). 0 < segId s" using i by (auto simp: intact_def)
  moreover have "aead ?c = a" using i by (simp add: intact_def)
  ultimately have c1: "intact a ?c" unfolding intact_def by blast
  have "intact a (?c\<lparr>savedState := SavedState (cursorSeg b) (cursorOff b)\<rparr>)" using intact_saved(1) [OF c1] by simp
  moreover note intact_saved(2) [OF i, of True]
  moreover have "updActive (\<lambda>s. s\<lparr>segFile := False\<rparr>) (b\<lparr>closed := True\<rparr>) = ?c" by (simp add: updActive_def)
  ultimately show "intact a b'"
    using c i c1 by (auto simp: Close_def Let_def saveStateLocked_def split: if_splits option.splits)
qed

lemma intactRun_intact: "intactRun a b \<Longrightarrow> intact a b"
proof (induction rule: intactRun.induct)
  case (opened o1)
  show ?case by (simp add: intact_def savedOK_def savedPos_def) (simp add: emptyBuffer_def)
next
  case (appended b os now p err b')
  have I: "bufInv b" "savedOK b" "aead b = a" "\<forall>s \<in> set (segments b). 0 < segId s"
    using appended.IH by (simp_all add: intact_def)
  have store: "storable sp (now div 1000)" if "sealPayload os b p = Some sp" for sp
    using appended.hyps(4) that I(3) by (simp add: withinReader_def sealPayload_sealFor)
  note A = Append_order [OF I(1) appended.hyps(2,5,3) store]
  show ?case using A(1-3,6) I by (simp add: intact_def)
next
  case (peeked b os seen r b')
  then show ?case by (auto simp: PeekAfter_def readFrom_def intact_def bufInv_iff savedOK_def savedPos_def split: prod.splits if_splits)
next
  case (acked b e os err b')
  obtain seen rest where p: "pending b = seen @ e # rest" using split_list [OF acked.hyps(2)] by blast
  have "set (segments b') \<subseteq> set (segments b)" "aead b' = aead b"
    using acked.hyps(4) by (auto simp: Ack_def Let_def saveStateLocked_def reclaimLocked_def split: if_splits)
  then show ?case
    using acked Ack_any [OF _ p, of os] by (auto simp: intact_def)
next
  case (expired b os now b' k)
  have g: "segments (EvictExpired os now b) = drop k (segments b)" using expired.hyps by simp
  show ?case using EvictExpired_order [OF _ g expired.hyps(4)] expired.IH expired.hyps(2,3)
    by (auto simp: intact_def dest: in_set_dropD)
next
  case (closed b os err b')
  then show ?case using Close_intact by blast
next
  case (reopened b c o1 b')
  then show ?case using recover_interrupted [OF reopened.IH reopened.hyps(2,3), of o1] by auto
qed

section \<open>Properties\<close>

text \<open>
  C5. A kill loses no accepted record and brings back no acknowledged one: in any run of the buffer,
  with kills and reopenings in it, a kill between two operations or in the middle of writing a record is followed
  by a recovery that shows exactly the records that were pending, in order; the record being written is gone, and
  if making room for it had evicted the oldest segment, so are that segment's. The run \<open>intactRun\<close> leaves
  out the operations after which this fails: a short write the process survives, a state file that cannot
  be written, an eviction of the only segment or past a reopened one, and a record beyond the reader's limit. The
  recovering process can list, open, cut and sync the files.
\<close>

theorem crash_recovery:
  assumes "intactRun a b" and "interrupted a b c" and "numbered c"
  shows "\<exists>b'. recover (diskOf (segments c) (savedState c)) (emptyBuffer o1 a) = Inr b' \<and> intactRun a b' \<and>
    makesRoom segID (onEvict c \<noteq> onEvict b) (pending b) (pending b')"
  using recover_interrupted [OF intactRun_intact [OF assms(1)] assms(2,3), of o1] intactRun.reopened [OF assms]
  by blast

text \<open>
  An acknowledgement survives a crash exactly: acknowledging a record and being killed at any
  later point of a write recovers precisely the records behind the acknowledged one, so that
  nothing acknowledged comes back and nothing unacknowledged is gone.
\<close>

theorem ack_survives_crash:
  assumes "bufInv b" and "\<forall>s \<in> set (segments b). segId s < 2 ^ 64" and "saveOK os"
    and "pending b = seen @ e # rest" and "n < length (encodeFrame q u)" and "length q < 2 ^ 32"
  shows "\<exists>b'. recover (crashDisk (snd (Ack os e b)) (take n (encodeFrame q u))) (emptyBuffer o1 (aead b)) = Inr b'
    \<and> bufInv b' \<and> pending b' = rest"
proof -
  let ?b = "snd (Ack os e b)"
  note A = Ack_spec [OF assms(1,3,4)]
  have cur: "cursorSeg ?b = segID e" "cursorOff ?b = endOff e" "aead ?b = aead b"
    and sub: "set (segments ?b) \<subseteq> set (segments b)"
    using assms(3) by (auto simp: Ack_def Let_def saveStateLocked_def reclaimLocked_def)
  have "loadState (crashDisk ?b (take n (encodeFrame q u))) = (cursorSeg ?b, cursorOff ?b)"
    using A(4) cur by (simp add: loadState_def crashDisk_def)
  from crash_segments [OF A(3) _ assms(5,6) this bufInvD(4) [OF A(3)], of o1] sub assms(2) A(2)
  show ?thesis by (auto simp: pending_def cur)
qed

text \<open>The examples of this theory.\<close>

lemma threeRecords_state:
  "map segId (segments threeRecords) = [1, 2]" "savedState threeRecords = NoState"
  by code_simp+

lemma threeRecords_ids: "\<forall>s \<in> set (segments threeRecords). 0 < segId s \<and> segId s < 2 ^ 64"
proof
  fix s
  assume "s \<in> set (segments threeRecords)"
  then have "segId s \<in> set (map segId (segments threeRecords))" by simp
  then show "0 < segId s \<and> segId s < 2 ^ 64" unfolding threeRecords_state by auto
qed

text \<open>Three records, the first acknowledged, a kill after 21 bytes of a fourth.\<close>

definition ackedFirst :: Buffer where
  "ackedFirst = snd (Ack okOS (hd (pending threeRecords)) threeRecords)"

definition cutFourth :: Buffer where
  "cutFourth = snd (Append (okOS\<lparr>shortWrite := Some 21\<rparr>) 4000 [4, 4, 4] ackedFirst)"

lemma threeRecords_run: "intactRun None threeRecords"
proof -
  let ?b0 = "emptyBuffer (smallOpts\<lparr>SegmentBytes := 30, MaxBytes := 100\<rparr>) None"
  let ?b1 = "snd (Append okOS 1000 [] ?b0)" let ?b2 = "snd (Append okOS 2000 [8] ?b1)"
  have S: "shortWrite okOS = None" by (simp add: okOS_def)
  have W: "withinReader None okOS 1000 []" "withinReader None okOS 2000 [8]" "withinReader None okOS 3000 []"
    by (simp_all add: withinReader_def sealFor_def storable_def maxRecordBytes_def)
  have O: "evictsInOrder okOS [] ?b0" "evictsInOrder okOS [8] ?b1" "evictsInOrder okOS [] ?b2" by code_simp+
  note 1 = intactRun.appended [OF intactRun.opened surjective_pairing S W(1) O(1)]
  note 2 = intactRun.appended [OF 1 surjective_pairing S W(2) O(2)]
  from intactRun.appended [OF 2 surjective_pairing S W(3) O(3)] show ?thesis unfolding threeRecords_def .
qed

theorem crash_recovery_witness:
  "\<exists>b'. recover (diskOf (segments cutFourth) (savedState cutFourth)) (emptyBuffer smallOpts None) = Inr b' \<and>
    intactRun None b' \<and> pending b' = tl (pending threeRecords)"
proof -
  have ne: "pending threeRecords \<noteq> []" using threeRecords_pending by auto
  have "intactRun None ackedFirst" unfolding ackedFirst_def
    by (rule intactRun.acked [OF threeRecords_run _ _ surjective_pairing]) (simp_all add: ne okOS_def)
  moreover have "interrupted None ackedFirst cutFourth" unfolding cutFourth_def
  proof (rule interrupted.inside [where n = 21 and sp = "[4, 4, 4]"])
    have "fst (Append (okOS\<lparr>shortWrite := Some 21\<rparr>) 4000 [4, 4, 4] ackedFirst) = Some ErrWrite" by code_simp
    then show "Append (okOS\<lparr>shortWrite := Some 21\<rparr>) 4000 [4, 4, 4] ackedFirst
        = (Some ErrWrite, snd (Append (okOS\<lparr>shortWrite := Some 21\<rparr>) 4000 [4, 4, 4] ackedFirst))"
      by (intro prod_eqI) simp_all
    show "evictsInOrder (okOS\<lparr>shortWrite := Some 21\<rparr>) [4, 4, 4] ackedFirst" by code_simp
  qed (simp_all add: sealFor_def headerBytes_def)
  moreover have "numbered cutFourth"
  proof -
    have "\<forall>i \<in> set (map segId (segments cutFourth)). i \<le> 3" by code_simp
    then show ?thesis by (fastforce simp: numbered_def)
  qed
  moreover have "onEvict cutFourth = onEvict ackedFirst" by code_simp
  moreover have "pending ackedFirst = tl (pending threeRecords)"
    using Ack_any(2) [OF threeRecords_inv(1), of "[]" "hd (pending threeRecords)" "tl (pending threeRecords)" okOS] ne
    by (simp add: ackedFirst_def)
  ultimately show ?thesis using crash_recovery [of None ackedFirst cutFourth smallOpts] by (auto simp: makesRoom_def)
qed

theorem ack_survives_crash_witness:
  "\<exists>b'. recover (crashDisk (snd (Ack okOS (hd (pending threeRecords)) threeRecords)) (take 3 (encodeFrame [5] 6)))
      (emptyBuffer smallOpts (aead threeRecords)) = Inr b'
    \<and> bufInv b' \<and> pending b' = tl (pending threeRecords)"
proof (rule ack_survives_crash [OF threeRecords_inv(1)])
  have "pending threeRecords \<noteq> []" using threeRecords_pending by auto
  then show "pending threeRecords = [] @ hd (pending threeRecords) # tl (pending threeRecords)" by simp
  show "\<forall>s \<in> set (segments threeRecords). segId s < 2 ^ 64" using threeRecords_ids by blast
qed (simp_all add: headerBytes_def okOS_def)

end
