(* ===== verification/Buffer_Bounds.thy ===== *)
theory Buffer_Bounds
  imports Buffer_Queue
begin

text \<open>
  Accounting of the durable queue under every behaviour of the operating system: the byte counter
  is the sum of the segments' sizes and stays within the configured bound, whatever calls fail.
  A step is one call of an exported operation; an acknowledged entry is arbitrary.
\<close>

section \<open>Steps\<close>

inductive bufStep :: "Buffer \<Rightarrow> Buffer \<Rightarrow> bool" where
  append: "Append os now p b = (err, b') \<Longrightarrow> bufStep b b'"
| nxt: "Next os b = (r, b') \<Longrightarrow> bufStep b b'"
| peek: "PeekAfter os seen b = (r, b') \<Longrightarrow> bufStep b b'"
| ack: "Ack os e b = (err, b') \<Longrightarrow> bufStep b b'"
| expire: "EvictExpired os now b = b' \<Longrightarrow> bufStep b b'"
| close: "Close os b = (err, b') \<Longrightarrow> bufStep b b'"

inductive bufRun :: "Buffer \<Rightarrow> Buffer \<Rightarrow> bool" where
  start: "bufRun b b"
| step: "bufRun b b' \<Longrightarrow> bufStep b' b'' \<Longrightarrow> bufRun b b''"

section \<open>The accounting invariant\<close>

definition acctInv :: "Buffer \<Rightarrow> bool" where
  "acctInv b \<longleftrightarrow>
     sorted_wrt (<) (map segId (segments b)) \<and>
     totalBytes b = sum_list (map (int \<circ> segBytes) (segments b)) \<and>
     (\<forall>i. active b = Some i \<longrightarrow>
        segments b \<noteq> [] \<and> segId (last (segments b)) = i \<and> \<not> segSealed (last (segments b)))"

text \<open>A segment that is neither sealed nor the one being written.\<close>

definition stranded :: "segment \<Rightarrow> Buffer \<Rightarrow> bool" where
  "stranded s b \<longleftrightarrow> s \<in> set (segments b) \<and> \<not> segSealed s \<and> active b \<noteq> Some (segId s)"

text \<open>What an operation keeps: the accounting, the options, the bound, and stranded segments.\<close>

definition keeps :: "Buffer \<Rightarrow> Buffer \<Rightarrow> bool" where
  "keeps b b' \<longleftrightarrow>
     (acctInv b \<longrightarrow> acctInv b' \<and> (\<forall>s. stranded s b \<longrightarrow> stranded s b')) \<and> opts b' = opts b"

lemma keeps_refl [simp]: "keeps b b"
  by (simp add: keeps_def)

lemma keeps_trans: "keeps a b \<Longrightarrow> keeps b c \<Longrightarrow> keeps a c"
  by (auto simp: keeps_def)

lemma sorted_filter_ids: "sorted_wrt (<) (map segId xs) \<Longrightarrow> sorted_wrt (<) (map segId (filter P xs))"
  by (induction xs) auto

lemma reclaim_keeps: "keeps b (reclaimLocked os b)" and reclaim_le: "acctInv b \<Longrightarrow> totalBytes (reclaimLocked os b) \<le> totalBytes b"
proof -
  let ?P = "\<lambda>s. \<not> reclaimable os (cursorSeg b) s"
  have act: "filter ?P (segments b) \<noteq> [] \<and> last (filter ?P (segments b)) = last (segments b)"
    if "acctInv b" "active b = Some i" for i
    using that by (intro last_filter_keep) (auto simp: acctInv_def reclaimable_def)
  have "acctInv (reclaimLocked os b)" if a: "acctInv b"
  proof -
    have "segId (last (filter ?P (segments b))) = i \<and> \<not> segSealed (last (filter ?P (segments b)))
        \<and> filter ?P (segments b) \<noteq> []" if "active b = Some i" for i
      using act [OF a that] a that by (auto simp: acctInv_def)
    then show ?thesis
      using a sum_filter_split [of "int \<circ> segBytes" "reclaimable os (cursorSeg b)" "segments b"]
      by (simp add: acctInv_def reclaimLocked_def sorted_filter_ids)
  qed
  moreover have "stranded s (reclaimLocked os b)" if "stranded s b" for s
    using that by (simp add: stranded_def reclaimLocked_def reclaimable_def)
  ultimately show "keeps b (reclaimLocked os b)"
    by (simp add: keeps_def op_frame)
  show "totalBytes (reclaimLocked os b) \<le> totalBytes b" if "acctInv b"
    by (auto simp: reclaimLocked_def intro!: sum_list_nonneg)
qed

lemma dropWhile_Cons_split:
  "dropWhile P xs = x # rest \<Longrightarrow> xs = takeWhile P xs @ x # rest \<and> \<not> P x"
  by (metis dropWhile_eq_Cons_conv takeWhile_dropWhile_id)

lemma evict_keeps:
  assumes "evictOldestLocked os reason b = (err, b')"
  shows "keeps b b'" and "acctInv b \<Longrightarrow> totalBytes b' \<le> totalBytes b"
proof -
  have "keeps b b' \<and> (acctInv b \<longrightarrow> totalBytes b' \<le> totalBytes b)"
  proof (cases "dropWhile (\<lambda>s. \<not> segSealed s) (segments b)")
    case Nil
    then show ?thesis using assms unfolding evictOldestLocked_def Nil by simp
  next
    case (Cons seg rest)
    define pre where "pre = takeWhile (\<lambda>s. \<not> segSealed s) (segments b)"
    have segs: "segments b = pre @ seg # rest" and sealed: "segSealed seg"
      using dropWhile_Cons_split [OF Cons] by (simp_all add: pre_def)
    have act: "rest \<noteq> [] \<and> last rest = last (segments b)" if "active b = Some i" "acctInv b" for i
      using that segs sealed by (auto simp: acctInv_def split: if_splits)
    show ?thesis
    proof (cases "removeOK os (segId seg)")
      case True
      have fields: "segments b' = pre @ rest" "totalBytes b' = totalBytes b - int (segBytes seg)"
        "active b' = active b" "opts b' = opts b"
        using assms Cons True by (auto simp: evictOldestLocked_def Let_def pre_def split: if_splits)
      have "acctInv b'" if "acctInv b"
      proof -
        have "sorted_wrt (<) (map segId (pre @ rest))"
          and "totalBytes b' = sum_list (map (int \<circ> segBytes) (pre @ rest))"
          using that fields(2) by (simp_all add: acctInv_def segs sorted_wrt_append)
        moreover have "pre @ rest \<noteq> [] \<and> last (pre @ rest) = last (segments b)" if "active b = Some i" for i
          using act [OF that \<open>acctInv b\<close>] by simp
        ultimately show ?thesis
          using that unfolding acctInv_def fields by metis
      qed
      moreover have "stranded s b'" if "stranded s b" for s
        using that fields segs sealed by (auto simp: stranded_def)
      ultimately show ?thesis using fields by (simp add: keeps_def)
    next
      case False
      then show ?thesis using assms Cons by (simp add: evictOldestLocked_def)
    qed
  qed
  then show "keeps b b'" and "acctInv b \<Longrightarrow> totalBytes b' \<le> totalBytes b" by simp_all
qed

lemma reserveRoom_keeps:
  assumes "reserveRoom os need b = (err, b')"
  shows "keeps b b'" and "acctInv b \<Longrightarrow> totalBytes b' \<le> totalBytes b" and "err = None \<Longrightarrow> fits need b'"
proof -
  define b1 where "b1 = (if fits need b then b else reclaimLocked os b)"
  have k1: "keeps b b1" and l1: "acctInv b \<Longrightarrow> totalBytes b1 \<le> totalBytes b"
    by (simp_all add: b1_def reclaim_keeps reclaim_le)
  obtain e2 b2 where e: "(if fits need b1 then (None, b1) else evictOldestLocked os ''max_bytes'' b1) = (e2, b2)"
    by (metis surj_pair)
  have k2: "keeps b1 b2" and l2: "acctInv b1 \<Longrightarrow> totalBytes b2 \<le> totalBytes b1"
    using e evict_keeps [of os "''max_bytes''" b1 e2 b2] by (auto split: if_splits)
  have "b' = b2" and "err = None \<Longrightarrow> fits need b2"
    using assms e unfolding reserveRoom_def b1_def [symmetric] Let_def by (auto split: option.splits if_splits)
  then show "keeps b b'" and "acctInv b \<Longrightarrow> totalBytes b' \<le> totalBytes b" and "err = None \<Longrightarrow> fits need b'"
    using keeps_trans [OF k1 k2] k1 l1 l2 by (auto simp: keeps_def)
qed

lemma acct_active:
  assumes "acctInv b" and "active b = Some i"
  shows "activeSeg b = Some (last (segments b))"
    and "updActive f b = b\<lparr>segments := butlast (segments b) @ [f (last (segments b))]\<rparr>"
proof -
  from assms have ne: "segments b \<noteq> []" and i: "i = segId (last (segments b))"
    by (auto simp: acctInv_def)
  then obtain ini l where segs: "segments b = ini @ [l]" by (metis rev_exhaust)
  have lt: "\<forall>x \<in> set ini. segId x < segId l"
    using assms(1) by (auto simp: acctInv_def segs sorted_wrt_append)
  then have "find (\<lambda>s. segId s = segId l) ini = None" by (auto simp: find_None_iff)
  then show "activeSeg b = Some (last (segments b))"
    using assms(2) i by (simp add: activeSeg_def segs find_snoc)
  have "map (\<lambda>s. if segId l = segId s then f s else s) ini = ini"
    using lt by (auto intro!: map_idI)
  then show "updActive f b = b\<lparr>segments := butlast (segments b) @ [f (last (segments b))]\<rparr>"
    using assms(2) i by (simp add: updActive_def segs)
qed

lemma last_change:
  assumes "acctInv b" and "active b = Some i" and "segId l = segId (last (segments b))"
    and "act = None \<or> act = active b \<and> \<not> segSealed l"
  shows "keeps b (b\<lparr>segments := butlast (segments b) @ [l], active := act,
    totalBytes := totalBytes b + (int (segBytes l) - int (segBytes (last (segments b))))\<rparr>)"
proof -
  from assms have ne: "segments b \<noteq> []" and i: "i = segId (last (segments b))" by (auto simp: acctInv_def)
  then obtain ini x where segs: "segments b = ini @ [x]" by (metis rev_exhaust)
  show ?thesis
    using assms i by (auto simp: keeps_def acctInv_def stranded_def segs sorted_wrt_append)
qed

lemma ensureActive_keeps:
  assumes "ensureActiveLocked os b = (err, b')"
  shows "keeps b b'" and "totalBytes b' = totalBytes b"
    and "acctInv b \<Longrightarrow> err = None \<Longrightarrow> active b' \<noteq> None"
proof -
  define i where "i = (if segments b = [] then 1 else segId (last (segments b)) + 1)"
  let ?b = "b\<lparr>segments := segments b @ [zeroSegment i], active := Some i\<rparr>"
  have lt: "\<forall>s \<in> set (segments b). segId s < i" if "acctInv b"
    using that by (cases "segments b" rule: rev_cases) (auto simp: i_def acctInv_def sorted_wrt_append)
  have "keeps b ?b"
    using lt by (auto simp: keeps_def acctInv_def stranded_def zeroSegment_def sorted_wrt_append)
  moreover have "b' = b \<and> (err = None \<longrightarrow> active b \<noteq> None) \<or> b' = ?b"
    using assms unfolding ensureActiveLocked_def Let_def i_def [symmetric]
    by (auto simp: activeSeg_def split: if_splits option.splits)
  ultimately show "keeps b b'" and "totalBytes b' = totalBytes b"
    and "acctInv b \<Longrightarrow> err = None \<Longrightarrow> active b' \<noteq> None" by auto
qed

lemma sealActive_keeps:
  assumes "acctInv b" and "sealActiveLocked os b = (err, b')"
  shows "keeps b b'" and "totalBytes b' = totalBytes b"
proof -
  have "keeps b b' \<and> totalBytes b' = totalBytes b"
  proof (cases "active b")
    case None
    then show ?thesis using assms by (simp add: sealActiveLocked_def activeSeg_def)
  next
    case (Some i)
    note A = acct_active [OF assms(1) Some]
    show ?thesis
      using assms(2) last_change [OF assms(1) Some, of "(last (segments b))\<lparr>segFile := False, segSealed := True\<rparr>" None]
      by (auto simp: sealActiveLocked_def A split: if_splits)
  qed
  then show "keeps b b'" and "totalBytes b' = totalBytes b" by simp_all
qed

lemma writeRecord_keeps:
  assumes "acctInv b" and "active b = Some i" and "writeRecord os now p b = (err, b')"
  shows "keeps b b'" and "totalBytes b' \<le> totalBytes b + int (headerBytes + length p)"
proof -
  note A = acct_active [OF assms(1,2)]
  have ns: "\<not> segSealed (last (segments b))" using assms(1,2) by (auto simp: acctInv_def)
  show "keeps b b'" and "totalBytes b' \<le> totalBytes b + int (headerBytes + length p)"
  proof (atomize (full), cases "shortWrite os")
    case (Some n)
    then show "keeps b b' \<and> totalBytes b' \<le> totalBytes b + int (headerBytes + length p)"
      using assms(3) last_change [OF assms(1,2), of "(last (segments b))\<lparr>segData := segData (last (segments b))
          @ take n (encodeFrame p (now div 1000))\<rparr>" "active b"] ns
      by (auto simp: writeRecord_def Let_def A)
  next
    case None
    let ?l = "last (segments b)" and ?buf = "encodeFrame p (now div 1000)"
    let ?l' = "?l\<lparr>segData := segData ?l @ ?buf,
      segOldest := (case segOldest ?l of None \<Rightarrow> Some now | t \<Rightarrow> t), segBytes := segBytes ?l + length ?buf\<rparr>"
    let ?b = "b\<lparr>segments := butlast (segments b) @ [?l'], totalBytes := totalBytes b + int (length ?buf)\<rparr>"
    have k: "keeps b ?b" using last_change [OF assms(1,2), of ?l' "active b"] ns by simp
    then have inv: "acctInv ?b" using assms(1) by (simp add: keeps_def)
    have "activeSeg ?b = Some ?l'" using acct_active(1) [OF inv] assms(2) by simp
    then have "writeRecord os now p b = (if int (segBytes ?l') \<ge> SegmentBytes (opts b)
        then sealActiveLocked os ?b else (None, ?b))"
      using None by (simp add: writeRecord_def Let_def A del: length_encodeFrame of_nat_add)
    then consider "sealActiveLocked os ?b = (err, b')" | "b' = ?b"
      using assms(3) by (metis prod.inject)
    then show "keeps b b' \<and> totalBytes b' \<le> totalBytes b + int (headerBytes + length p)"
    proof cases
      case 1
      then show ?thesis using sealActive_keeps [OF inv 1] keeps_trans [OF k] by simp
    next
      case 2
      then show ?thesis using k by simp
    qed
  qed
qed

lemma Append_keeps:
  assumes "acctInv b" and "Append os now p b = (err, b')"
  shows "keeps b b'" and "totalBytes b' \<le> max (totalBytes b) (MaxBytes (opts b))"
proof -
  have "keeps b b' \<and> totalBytes b' \<le> max (totalBytes b) (MaxBytes (opts b))"
  proof (cases "closed b \<or> sealPayload os b p = None")
    case True
    then show ?thesis using assms(2) by (auto simp: Append_def split: if_splits)
  next
    case False
    then obtain q where q: "sealPayload os b p = Some q" and cl: "\<not> closed b" by auto
    obtain e1 b1 where r: "reserveRoom os (int (headerBytes + length q)) b = (e1, b1)" by (metis surj_pair)
    obtain e2 b2 where a: "ensureActiveLocked os b1 = (e2, b2)" by (metis surj_pair)
    obtain e3 b3 where w: "writeRecord os now q b2 = (e3, b3)" by (metis surj_pair)
    have eq: "(err, b') = (if e1 \<noteq> None then (e1, b1) else if e2 \<noteq> None then (e2, b2) else (e3, b3))"
      using assms(2) q cl r a w by (auto simp: Append_def split: option.splits)
    note R = reserveRoom_keeps [OF r] and E = ensureActive_keeps [OF a]
    have k2: "keeps b b2" by (rule keeps_trans [OF R(1) E(1)])
    have inv1: "acctInv b1" and inv2: "acctInv b2" and o2: "opts b1 = opts b"
      using R(1) k2 assms(1) by (simp_all add: keeps_def)
    have le: "totalBytes b1 \<le> totalBytes b" using R(2) assms(1) by simp
    show ?thesis
    proof (cases "e1 = None \<and> e2 = None")
      case True
      then obtain i where i: "active b2 = Some i" using E(3) inv1 by auto
      have "fits (int (headerBytes + length q)) b1" using R(3) True by simp
      then show ?thesis
        using writeRecord_keeps [OF inv2 i w] keeps_trans [OF k2] True eq E(2) o2
        by (auto simp: fits_def)
    next
      case False
      then show ?thesis using eq R(1) k2 E(2) le by (auto split: if_splits)
    qed
  qed
  then show "keeps b b'" and "totalBytes b' \<le> max (totalBytes b) (MaxBytes (opts b))" by simp_all
qed

lemma cursor_keeps:
  "keeps b (b\<lparr>cursorSeg := s, cursorOff := off, onEvict := calls\<rparr>)"
  "keeps b (b\<lparr>cursorSeg := s, cursorOff := off, savedState := st\<rparr>)"
  "keeps b (b\<lparr>onEvict := calls\<rparr>)" "keeps b (b\<lparr>cursorSeg := s, cursorOff := off\<rparr>)"
  by (auto simp: keeps_def acctInv_def stranded_def)

text \<open>The expiry loop, generalised over the segments already kept.\<close>

lemma expireSegs_keeps:
  fixes b :: Buffer and os :: OS and cutoff :: time
  assumes "sorted_wrt (<) (map segId (keep @ rest))"
    and "totalBytes b = sum_list (map (int \<circ> segBytes) (keep @ rest))"
    and "\<And>i. active b = Some i \<Longrightarrow>
      keep @ rest \<noteq> [] \<and> segId (last (keep @ rest)) = i \<and> \<not> segSealed (last (keep @ rest))"
  defines "b' \<equiv> expireSegs os cutoff keep rest b"
  shows "acctInv b' \<and> active b' = active b \<and> opts b' = opts b \<and> totalBytes b' \<le> totalBytes b
    \<and> {s \<in> set (keep @ rest). \<not> segSealed s} \<subseteq> set (segments b')"
  using assms(1-3) unfolding b'_def
proof (induction os cutoff keep rest b rule: expireSegs.induct)
  case (1 os cutoff keep b)
  then show ?case by (auto simp: acctInv_def o_def)
next
  case (2 os cutoff keep seg rest b)
  let ?drop = "segSealed seg \<and> (case segOldest seg of None \<Rightarrow> False | Some t \<Rightarrow> t < cutoff)
         \<and> removeOK os (segId seg)"
  show ?case
  proof (cases ?drop)
    case False
    then show ?thesis using 2(2)[OF False] 2(3-5) by auto
  next
    case True
    define b1 where "b1 = b\<lparr>totalBytes := totalBytes b - int (segBytes seg),
                   onEvict := onEvict b @ [(''max_age'', 0, int (segBytes seg))]\<rparr>"
    define b2 where "b2 = (if cursorSeg b1 \<le> segId seg
                  then b1\<lparr>cursorSeg := segId seg + 1, cursorOff := 0\<rparr> else b1)"
    have b2: "active b2 = active b" "opts b2 = opts b" "totalBytes b2 = totalBytes b - int (segBytes seg)"
      by (simp_all add: b2_def b1_def)
    have rest: "rest \<noteq> []" if "active b = Some i" for i
      using 2(5) [OF that] True by auto
    have step: "expireSegs os cutoff keep (seg # rest) b = expireSegs os cutoff keep rest b2"
      using True by (simp add: b1_def b2_def Let_def)
    have "acctInv (expireSegs os cutoff keep rest b2)
      \<and> active (expireSegs os cutoff keep rest b2) = active b2
      \<and> opts (expireSegs os cutoff keep rest b2) = opts b2
      \<and> totalBytes (expireSegs os cutoff keep rest b2) \<le> totalBytes b2
      \<and> {s \<in> set (keep @ rest). \<not> segSealed s} \<subseteq> set (segments (expireSegs os cutoff keep rest b2))"
    proof (rule 2(1) [OF True b1_def b2_def])
      show "sorted_wrt (<) (map segId (keep @ rest))" using 2(3) by (auto simp: sorted_wrt_append)
      show "totalBytes b2 = sum_list (map (int \<circ> segBytes) (keep @ rest))" using 2(4) b2 by (simp add: o_def)
      show "keep @ rest \<noteq> [] \<and> segId (last (keep @ rest)) = i \<and> \<not> segSealed (last (keep @ rest))"
        if "active b2 = Some i" for i
        using 2(5) [of i] rest [of i] that b2 by simp
    qed
    then show ?thesis using True b2 unfolding step by auto
  qed
qed

lemma EvictExpired_keeps: "keeps b (EvictExpired os now b)"
  "acctInv b \<Longrightarrow> totalBytes (EvictExpired os now b) \<le> totalBytes b"
proof -
  have E: "acctInv (EvictExpired os now b) \<and> active (EvictExpired os now b) = active b
      \<and> totalBytes (EvictExpired os now b) \<le> totalBytes b
      \<and> {s \<in> set (segments b). \<not> segSealed s} \<subseteq> set (segments (EvictExpired os now b))" if "acctInv b"
    using expireSegs_keeps [of "[]" "segments b" b os "now - MaxAge (opts b)"] that
    by (auto simp: EvictExpired_def acctInv_def)
  have "opts (expireSegs os cutoff keep segs c) = opts c" for cutoff keep segs c
    by (induction os cutoff keep segs c rule: expireSegs.induct) (auto simp: Let_def)
  then show "keeps b (EvictExpired os now b)"
    using E by (auto simp: keeps_def stranded_def EvictExpired_def)
  show "acctInv b \<Longrightarrow> totalBytes (EvictExpired os now b) \<le> totalBytes b" using E by simp
qed

lemma Close_keeps:
  assumes "acctInv b" and "Close os b = (err, b')"
  shows "keeps b b'" and "totalBytes b' = totalBytes b"
proof -
  let ?c = "b\<lparr>closed := True\<rparr>"
  have c: "keeps b ?c" "acctInv ?c" using assms(1) by (auto simp: keeps_def acctInv_def stranded_def)
  have u: "keeps ?c (updActive (\<lambda>s. s\<lparr>segFile := False\<rparr>) ?c)
    \<and> totalBytes (updActive (\<lambda>s. s\<lparr>segFile := False\<rparr>) ?c) = totalBytes b"
  proof (cases "active ?c")
    case None
    then show ?thesis by (simp add: updActive_def)
  next
    case (Some i)
    then have "\<not> segSealed (last (segments ?c))" using c(2) by (simp add: acctInv_def)
    then show ?thesis
      using last_change [OF c(2) Some, of "(last (segments ?c))\<lparr>segFile := False\<rparr>" "active ?c"]
      by (simp add: acct_active(2) [OF c(2) Some])
  qed
  have s: "keeps x (x\<lparr>savedState := st\<rparr>)" for x st by (simp add: keeps_def acctInv_def stranded_def)
  have "b' = b \<or> b' = ?c \<or> b' = updActive (\<lambda>s. s\<lparr>segFile := False\<rparr>) ?c
    \<or> (\<exists>st. b' = (updActive (\<lambda>s. s\<lparr>segFile := False\<rparr>) ?c)\<lparr>savedState := st\<rparr>)"
    using assms(2) by (auto simp: Close_def Let_def saveStateLocked_def split: if_splits option.splits)
  moreover have "keeps b (updActive (\<lambda>s. s\<lparr>segFile := False\<rparr>) ?c)" using keeps_trans c(1) u by blast
  moreover from keeps_trans [OF this s] have "keeps b ((updActive (\<lambda>s. s\<lparr>segFile := False\<rparr>) ?c)\<lparr>savedState := st\<rparr>)" for st .
  ultimately show "keeps b b'" and "totalBytes b' = totalBytes b"
    using c(1) u by auto
qed

lemma bufStep_keeps:
  assumes "bufStep b b'" and "acctInv b"
  shows "keeps b b' \<and> totalBytes b' \<le> max (totalBytes b) (MaxBytes (opts b))"
  using assms
proof cases
  case (append os now p err)
  then show ?thesis using Append_keeps assms(2) by blast
next
  case (nxt os r)
  then show ?thesis using cursor_keeps(1) by (auto simp: Next_def split: prod.splits)
next
  case (peek os seen r)
  then show ?thesis
    using cursor_keeps(3) by (auto simp: PeekAfter_def readFrom_def split: prod.splits if_splits)
next
  case (ack os e err)
  let ?c = "b\<lparr>cursorSeg := segID e, cursorOff := endOff e\<rparr>"
  let ?d = "?c\<lparr>savedState := SavedState (segID e) (endOff e)\<rparr>"
  have "keeps b ?d" and "acctInv ?d" using cursor_keeps(2) [where b = b and s = "segID e" and off = "endOff e"] assms(2)
    by (simp_all add: keeps_def)
  moreover have "b' = ?c \<or> b' = reclaimLocked os ?d"
    using ack by (auto simp: Ack_def Let_def saveStateLocked_def split: if_splits)
  ultimately show ?thesis
    using cursor_keeps(4) reclaim_le [of ?d os] reclaim_keeps [of ?d os] keeps_trans
    by (auto simp: max_def)
next
  case (expire os now)
  then show ?thesis using EvictExpired_keeps [of b os now] assms(2) by (auto simp: max_def)
next
  case (close os err)
  then show ?thesis using Close_keeps [OF assms(2)] by (metis max.cobounded1)
qed

lemma bufRun_keeps:
  "bufRun b b' \<Longrightarrow> acctInv b \<Longrightarrow> keeps b b' \<and> totalBytes b' \<le> max (totalBytes b) (MaxBytes (opts b))"
proof (induction rule: bufRun.induct)
  case (step b b' b'')
  then have k: "keeps b b'" "acctInv b'" "totalBytes b' \<le> max (totalBytes b) (MaxBytes (opts b))"
    "opts b' = opts b" by (auto simp: keeps_def)
  then show ?case
    using bufStep_keeps [OF step(2) k(2)] keeps_trans [OF k(1)] by auto
qed simp

section \<open>Properties\<close>

lemma acctInv_empty [simp]: "acctInv (emptyBuffer o1 a)"
  by (simp add: acctInv_def emptyBuffer_def)

text \<open>
  C38. The byte bound holds under every failure: through any sequence of operations, with the
  operating system failing removals, creations, writes (also in part), syncs and closes as it
  likes, the byte counter is the sum of the segments' sizes, and it never exceeds the configured
  maximum unless it already did at the start, as after lowering the limit.
\<close>

theorem buffer_bytes_bounded:
  assumes "acctInv b" and "bufRun b b'"
  shows "totalBytes b' = sum_list (map (int \<circ> segBytes) (segments b')) \<and>
    totalBytes b' \<le> max (totalBytes b) (MaxBytes (opts b))"
  using bufRun_keeps [OF assms(2,1)] assms(1) by (auto simp: keeps_def acctInv_def)

theorem buffer_bytes_bounded_witness:
  "totalBytes (snd (Append okOS 5 [] (emptyBuffer smallOpts None))) \<le> max 0 60"
proof -
  let ?b = "emptyBuffer smallOpts None"
  have "bufRun ?b (snd (Append okOS 5 [] ?b))"
    by (rule bufRun.step [OF bufRun.start bufStep.append [OF surjective_pairing]])
  from buffer_bytes_bounded [OF acctInv_empty this] show ?thesis
    by (simp add: emptyBuffer_def smallOpts_def)
qed

text \<open>
  A segment that was the last one when the buffer was opened is never reclaimed once a newer
  segment is active: it is not sealed, and reclaiming, eviction by size and eviction by age all
  pass over unsealed segments, so its bytes count against the bound until the next restart.
\<close>

theorem stranded_segment_kept:
  assumes "acctInv b" and "stranded s b" and "bufRun b b'"
  shows "s \<in> set (segments b') \<and> int (segBytes s) \<le> totalBytes b'"
proof -
  have k: "acctInv b'" "stranded s b'"
    using bufRun_keeps [OF assms(3,1)] assms(1,2) by (auto simp: keeps_def)
  then have s: "s \<in> set (segments b')" by (simp add: stranded_def)
  have "0 \<le> x" if "x \<in> set (map (int \<circ> segBytes) (segments b'))" for x using that by auto
  with s have "int (segBytes s) \<le> totalBytes b'"
    using k(1) member_le_sum_list [of "int (segBytes s)" "map (int \<circ> segBytes) (segments b')"]
    by (auto simp: acctInv_def)
  with s show ?thesis ..
qed

text \<open>A buffer reopened on a directory with one short segment, which then takes a record.\<close>

definition reopened :: Buffer where
  "reopened =
     (case recover (workingDisk [\<lparr>deName = segPath 1, deIsDir = False, deContent = encodeFrame [] 1\<rparr>] NoState)
                   (emptyBuffer (smallOpts\<lparr>SegmentBytes := 30\<rparr>) None) of
        Inl _ \<Rightarrow> emptyBuffer smallOpts None
      | Inr b \<Rightarrow> snd (Append okOS 9000 [] b))"

lemma reopened_segments:
  "map (\<lambda>s. (segId s, segBytes s, segSealed s)) (segments reopened) = [(1, 20, False), (2, 20, False)]"
  "active reopened = Some 2" "totalBytes reopened = 40"
  by code_simp+

theorem stranded_segment_kept_witness:
  "\<exists>s. segId s = 1 \<and> s \<in> set (segments (EvictExpired okOS 1000000 (snd (Append okOS 9500 [] reopened))))"
proof -
  obtain s t where st: "segments reopened = [s, t]" "segId s = 1" "segId t = 2" "segBytes s = 20" "segBytes t = 20"
    "\<not> segSealed s" "\<not> segSealed t"
    using reopened_segments(1) by (auto simp: map_eq_Cons_conv)
  then have "acctInv reopened" and "stranded s reopened"
    using reopened_segments by (auto simp: acctInv_def stranded_def)
  moreover have "bufRun reopened (EvictExpired okOS 1000000 (snd (Append okOS 9500 [] reopened)))"
    by (rule bufRun.step [OF bufRun.step [OF bufRun.start bufStep.append [OF surjective_pairing]] bufStep.expire [OF refl]])
  ultimately show ?thesis using stranded_segment_kept st(2) by blast
qed

end
