(* ===== verification/Buffer_Edges.thy ===== *)
theory Buffer_Edges
  imports Buffer_Recovery Buffer_Bounds
begin

text \<open>
  Gauges, the key guard, and the corner cases of the durable queue.
\<close>

section \<open>The backlog gauge\<close>

lemma readFromFile_size:
  "readFromFile f off = Inr e \<Longrightarrow> endOff e = off + headerBytes + length (Payload e)"
  by (auto simp: readFromFile_def Let_def split: if_splits)

definition storedSize :: "Entry \<Rightarrow> int" where
  "storedSize e = int (headerBytes + length (Payload e))"

lemma frames_size: "whole f off \<Longrightarrow> sum_list (map storedSize (frames f off)) = int (length f) - int off"
proof (induction rule: whole_induct)
  case (frame off e)
  then show ?case using readFromFile_size [OF frame(3)] by (simp add: storedSize_def)
qed simp

lemma entriesOf_size:
  "whole (segData s) off \<Longrightarrow> sum_list (map storedSize (entriesOf None s off)) = int (length (segData s)) - int off"
proof -
  have "map storedSize (entriesOf None s off) = map storedSize (frames (segData s) off)"
    by (simp add: entriesOf_def openedAs_def openEntryLocked_def map_filter_simps storedSize_def
        List.map_filter_def o_def)
  then show "whole (segData s) off \<Longrightarrow> ?thesis" using frames_size by simp
qed

lemma later_size:
  assumes "wfSegs segs" and "\<forall>s \<in> set segs. whole (segData s) 0"
  shows "sum_list (map storedSize (laterEntries None segs i)) =
    sum_list (map (\<lambda>s. if segId s > i then int (segBytes s) else 0) segs)"
  using assms by (induction segs) (auto simp: laterEntries_def entriesOf_size)

lemma behind_size: "(\<forall>s \<in> set segs. segId s \<noteq> i) \<Longrightarrow>
    sum_list (map (\<lambda>s. if segId s > i then int (segBytes s) else if segId s = i then c s else 0) segs)
      = sum_list (map (\<lambda>s. if segId s > i then int (segBytes s) else 0) segs)"
  by (induction segs) auto

lemma at_size:
  "wfSegs segs \<Longrightarrow> s \<in> set segs \<Longrightarrow>
    sum_list (map (\<lambda>x. if segId x > segId s then int (segBytes x) else if segId x = segId s then c x else 0) segs)
      = c s + sum_list (map (\<lambda>x. if segId x > segId s then int (segBytes x) else 0) segs)"
proof (induction segs)
  case (Cons x segs)
  show ?case
  proof (cases "x = s")
    case True
    have ne: "\<forall>y \<in> set segs. segId y \<noteq> segId s" using Cons.prems True by auto
    then show ?thesis using behind_size [OF ne] True by simp
  next
    case False
    then have s: "s \<in> set segs" and "segId x < segId s" using Cons.prems by auto
    then have "\<not> segId s < segId x" "segId x \<noteq> segId s" by simp_all
    then show ?thesis using Cons.IH [OF _ s] Cons.prems(1) by simp
  qed
qed simp

text \<open>
  The backlog gauge is exact: on a well-formed unencrypted buffer \<^verbatim>\<open>PendingBytes\<close> is the stored
  size of precisely the records a reader will still be given, not the size of the files on disk.
\<close>

theorem pending_bytes_exact:
  assumes "bufInv b" and "aead b = None"
  shows "pendingBytesLocked b = sum_list (map (\<lambda>e. int (headerBytes + length (Payload e))) (pending b))"
proof -
  note I = bufInvD [OF assms(1)]
  have "sum_list (map storedSize (pending b)) = pendingBytesLocked b"
  proof (cases "findSegmentLocked (segments b) (cursorSeg b)")
    case (Some s)
    then have s: "s \<in> set (segments b)" "segId s = cursorSeg b" by (simp_all add: findSegmentLocked_SomeD)
    have w: "whole (segData s) (cursorOff b)" using I(4) Some by (simp add: posOK_def)
    have "segBytes s = length (segData s)" using I(1) s(1) by (auto simp: wfSegs_def)
    moreover have "cursorOff b \<le> length (segData s)" using w by (simp add: whole_def)
    ultimately show ?thesis
      using at_size [OF I(1) s(1), of "\<lambda>s. max 0 (int (segBytes s) - int (cursorOff b))", unfolded s(2)]
        later_size [OF I(1,2)] entriesOf_size [OF w] Some s(2)
      by (simp add: pending_def entriesAt_def segmentAt_def assms(2) pendingBytesLocked_def max_def)
  next
    case None
    then have ne: "\<forall>s \<in> set (segments b). segId s \<noteq> cursorSeg b"
      by (auto simp: findSegmentLocked_def find_None_iff)
    show ?thesis
    proof (cases "segments b")
      case Nil
      then show ?thesis by (simp add: pending_def entriesAt_def segmentAt_def findSegmentLocked_def pendingBytesLocked_def)
    next
      case (Cons s segs)
      then have lt: "cursorSeg b < segId s" using None I(4) by (simp add: posOK_def)
      have gt: "\<forall>x \<in> set (segments b). cursorSeg b < segId x" using lt I(1) Cons by auto
      have "pending b = laterEntries None (segments b) (cursorSeg b)"
      proof -
        have "filter (\<lambda>x. segId x > segId s) segs = segs" "filter (\<lambda>x. segId x > cursorSeg b) segs = segs"
          using I(1) gt Cons by (auto simp: filter_id_conv)
        then show ?thesis using None lt Cons
          by (simp add: pending_def entriesAt_def segmentAt_def assms(2) laterEntries_def)
      qed
      then show ?thesis
        using later_size [OF I(1,2)] behind_size [OF ne] by (simp add: pendingBytesLocked_def)
    qed
  qed
  then show ?thesis unfolding storedSize_def by simp
qed

theorem pending_bytes_exact_witness:
  "pendingBytesLocked threeRecords = sum_list (map (\<lambda>e. int (headerBytes + length (Payload e))) (pending threeRecords))"
  by (rule pending_bytes_exact [OF threeRecords_inv])

section \<open>Segment numbering after the last segment is gone\<close>

lemma empty_room:
  "segments b = [] \<Longrightarrow> snd (reserveRoom os need b) = b \<and> (fst (reserveRoom os need b) = None \<longleftrightarrow> fits need b)"
proof -
  assume "segments b = []"
  then have "reclaimLocked os b = b" and "evictOldestLocked os r b = (None, b)" for r
    by (simp_all add: reclaimLocked_def evictOldestLocked_def)
  then show ?thesis by (simp add: reserveRoom_def Let_def)
qed

text \<open>
  Numbering restarts at 1 when no segment is left, but the read cursor does not: a buffer whose
  last segment was evicted while the cursor stood beyond segment 1 accepts the next record and
  never shows it to a reader.
\<close>

theorem restarted_numbering_hides_records:
  assumes "segments b = []" and "1 < cursorSeg b" and "Append os now p b = (None, b')"
  shows "pending b' = [] \<and> fst (Next os b') = Inr None \<and> map segId (segments b') = [1]"
proof -
  obtain q where q: "sealPayload os b p = Some q" and cl: "\<not> closed b"
    using assms(3) by (auto simp: Append_def split: if_splits option.splits)
  obtain e2 b2 where a: "ensureActiveLocked os b = (e2, b2)" by (metis surj_pair)
  have e1: "reserveRoom os (int (headerBytes + length q)) b = (None, b)"
    using empty_room [OF assms(1), of os "int (headerBytes + length q)"] assms(3) q cl
    by (cases "reserveRoom os (int (headerBytes + length q)) b") (auto simp: Append_def split: option.splits)
  then have w: "e2 = None \<and> writeRecord os now q b2 = (None, b')"
    using assms(3) q cl a by (auto simp: Append_def split: option.splits)
  have "activeSeg b = None" using assms(1) by (simp add: activeSeg_def split: option.splits)
  then have "map segId (segments b2) = [1]" "cursorSeg b2 = cursorSeg b"
    using a w assms(1) by (auto simp: ensureActiveLocked_def zeroSegment_def split: if_splits)
  then have ids: "map segId (segments b') = [1]"
    using writeRecord_ids [of os now q b2] w by simp
  have cur: "1 < cursorSeg b'"
    using writeRecord_ids(2) [of os now q b2] w assms(2) \<open>cursorSeg b2 = cursorSeg b\<close> by simp
  obtain s where s: "segments b' = [s]" "segId s = 1" using ids by (auto simp: map_eq_Cons_conv)
  then have none: "segmentAt (segments b') (cursorSeg b') (cursorOff b') = None"
    using cur by (simp add: segmentAt_def findSegmentLocked_def)
  then have "pending b' = []" by (simp add: pending_def entriesAt_def)
  moreover have "fst (Next os b') = Inr None" using none by (subst Next_def, subst scanFrom.simps) simp
  ultimately show ?thesis using ids by simp
qed

text \<open>Two sealed segments, everything delivered, and then the last one expires.\<close>

definition deliverNext :: "Buffer \<Rightarrow> Buffer" where
  "deliverNext b = (case Next okOS b of (Inr (Some e), b1) \<Rightarrow> snd (Ack okOS e b1) | (_, b1) \<Rightarrow> b1)"

definition idleExpired :: Buffer where
  "idleExpired = EvictExpired okOS 1000000 (deliverNext (deliverNext (snd (Append okOS 2000 []
     (snd (Append okOS 1000 [] (emptyBuffer smallOpts None)))))))"

lemma idleExpired_state:
  "segments idleExpired = []" "cursorSeg idleExpired = 3" "fst (Append okOS 1000000 [] idleExpired) = None"
  by code_simp+

theorem restarted_numbering_hides_records_witness:
  "fst (Append okOS 1000000 [] idleExpired) = None \<and>
    fst (Next okOS (snd (Append okOS 1000000 [] idleExpired))) = Inr None"
  using restarted_numbering_hides_records [OF idleExpired_state(1) _ , of okOS 1000000 "[]"
      "snd (Append okOS 1000000 [] idleExpired)"] idleExpired_state(2,3)
  by (metis numeral_3_eq_3 one_less_numeral_iff prod.collapse semiring_norm(77))

text \<open>A write that stops after three bytes, and the append that follows it.\<close>

definition afterShortWrite :: "bufError option \<times> Buffer" where
  "afterShortWrite = Append (okOS\<lparr>shortWrite := Some 3\<rparr>) 1000 [] (emptyBuffer (smallOpts\<lparr>SegmentBytes := 60\<rparr>) None)"

definition thenAppended :: "bufError option \<times> Buffer" where
  "thenAppended = Append okOS 2000 [] (snd afterShortWrite)"

text \<open>
  A write that fails part-way makes the next record unreadable: the bytes that reached the file
  are not counted, the next successful append lands behind them, and the reader finds neither
  record although the second append returned no error.
\<close>

theorem short_write_hides_next_record:
  "fst afterShortWrite = Some ErrWrite \<and> fst thenAppended = None \<and> totalBytes (snd thenAppended) = 20
    \<and> fst (Next okOS (snd thenAppended)) = Inr None"
proof (intro conjI)
  show "fst afterShortWrite = Some ErrWrite" by code_simp
  show "fst thenAppended = None" by code_simp
  show "totalBytes (snd thenAppended) = 20" by code_simp
  show "fst (Next okOS (snd thenAppended)) = Inr None" by code_simp
qed

section \<open>The key guard\<close>

lemma trim_hex: "\<forall>c \<in> set s. \<not> is_space c \<Longrightarrow> trim_space (s @ [CHR 0x0A]) = s"
proof -
  assume "\<forall>c \<in> set s. \<not> is_space c"
  then have "dropWhile is_space s = s" and "dropWhile is_space (rev s) = rev s"
    by (simp_all add: dropWhile_eq_self_iff) (metis hd_in_set list.set_sel(1) set_rev rev_is_Nil_conv)+
  moreover have "is_space (CHR 0x0A)" by (simp add: is_space_def)
  moreover have "dropWhile is_space (s @ [CHR 0x0A]) = (if s = [] then [] else s @ [CHR 0x0A])"
    using \<open>\<forall>c \<in> set s. \<not> is_space c\<close> \<open>is_space (CHR 0x0A)\<close> by (cases s) simp_all
  ultimately show ?thesis by (simp add: trim_space_def)
qed

lemma hex_encode_no_space: "\<forall>c \<in> set (hex_encode bs). \<not> is_space c"
proof -
  have d: "\<not> is_space (hex_digit n)" if "n < 16" for n
  proof -
    have "list_all (\<lambda>n. \<not> is_space (hex_digit n)) [0..<16]" by code_simp
    then show ?thesis using that by (simp only: list_all_iff set_upt atLeastLessThan_iff) simp
  qed
  have "unat b div 16 < 16" and "unat b mod 16 < 16" for b :: byte
    using unsigned_less [of b, where ?'a = nat] by (simp_all add: less_mult_imp_div_less)
  then show ?thesis by (auto simp: hex_encode_def d)
qed

definition keyName :: "string \<Rightarrow> string" where
  "keyName key = (if key = [] then ''none'' else Fingerprint key)"

lemma keyName_trim [simp]: "trim_space (keyName key @ [CHR 0x0A]) = keyName key"
proof (cases "key = []")
  case True
  then show ?thesis by (simp add: keyName_def) code_simp
next
  case False
  then show ?thesis by (simp add: keyName_def Fingerprint_def trim_hex [OF hex_encode_no_space])
qed

lemma pendingBytes_nonneg: "0 \<le> pendingBytesLocked b"
  by (auto simp: pendingBytesLocked_def intro!: sum_list_nonneg)

lemma OpenBuffer_key:
  assumes "OpenBuffer dir lf gcm o0 key dk = Inr (b, content)"
  shows "content = keyName key @ [CHR 0x0A]"
    and "\<And>stored. dKey dk = Some stored \<Longrightarrow> trim_space stored = keyName key \<or> pendingBytesLocked b = 0"
  using assms pendingBytes_nonneg [of b]
  by (auto simp: OpenBuffer_def checkKey_def keyName_def Let_def
      split: if_splits sum.splits option.splits)

text \<open>
  A buffer with undelivered records opens only under the key it was written with: when it was
  last opened with one key (or none) and that left its key file, opening it with another succeeds
  only if the key has the same fingerprint or nothing is left to deliver.
\<close>

theorem key_change_needs_empty_buffer:
  assumes "OpenBuffer dir lf gcm o0 key dk = Inr (b, content)"
    and "OpenBuffer dir' lf' gcm' o1 key' (dk'\<lparr>dKey := Some content\<rparr>) = Inr (b', content')"
  shows "keyName key' = keyName key \<or> pendingBytesLocked b' = 0"
  using OpenBuffer_key(1) [OF assms(1)] OpenBuffer_key(2) [OF assms(2)] by auto

definition toyGCM :: "byte list \<Rightarrow> AEAD" where
  "toyGCM k = \<lparr>NonceSize = 1, SealFn = (\<lambda>n p. rev p), OpenFn = (\<lambda>n c. Some (rev c))\<rparr>"

definition emptyDisk :: Disk where
  "emptyDisk = workingDisk [] NoState"

lemma open_empty:
  "OpenBuffer ''d'' True toyGCM smallOpts [] emptyDisk = Inr (emptyBuffer (openDefaults smallOpts) None, ''none'' @ [CHR 0x0A])"
  "OpenBuffer ''d'' True toyGCM smallOpts (replicate 32 (CHR ''k'')) (emptyDisk\<lparr>dKey := Some (''none'' @ [CHR 0x0A])\<rparr>) =
    Inr (emptyBuffer (openDefaults smallOpts) (Some (toyGCM (bytes_of (replicate 32 (CHR ''k''))))),
         Fingerprint (replicate 32 (CHR ''k'')) @ [CHR 0x0A])"
proof -
  have r: "recover (emptyDisk\<lparr>dKey := k\<rparr>) (emptyBuffer o1 a) = Inr (emptyBuffer o1 a)" for k o1 a
    by (simp add: recover_def emptyDisk_def workingDisk_def loadState_def emptyBuffer_def map_filter_simps)
  have p: "pendingBytesLocked (emptyBuffer o1 a) = 0" for o1 a
    by (simp add: pendingBytesLocked_def emptyBuffer_def)
  have t: "trim_space (replicate 32 (CHR ''k'')) = replicate 32 (CHR ''k'')" by code_simp
  show "OpenBuffer ''d'' True toyGCM smallOpts [] emptyDisk =
      Inr (emptyBuffer (openDefaults smallOpts) None, ''none'' @ [CHR 0x0A])"
    using r [of None] by (simp add: OpenBuffer_def emptyDisk_def workingDisk_def) (simp add: checkKey_def)
  show "OpenBuffer ''d'' True toyGCM smallOpts (replicate 32 (CHR ''k'')) (emptyDisk\<lparr>dKey := Some (''none'' @ [CHR 0x0A])\<rparr>) =
    Inr (emptyBuffer (openDefaults smallOpts) (Some (toyGCM (bytes_of (replicate 32 (CHR ''k''))))),
         Fingerprint (replicate 32 (CHR ''k'')) @ [CHR 0x0A])"
    by (simp add: OpenBuffer_def NewAEAD_def t r p checkKey_def Let_def)
qed

theorem key_change_needs_empty_buffer_witness:
  "keyName (replicate 32 (CHR ''k'')) = keyName [] \<or>
    pendingBytesLocked (emptyBuffer (openDefaults smallOpts) (Some (toyGCM (bytes_of (replicate 32 (CHR ''k'')))))) = 0"
  by (rule key_change_needs_empty_buffer [OF open_empty])

end
