(* ===== verification/Delivery_Props.thy ===== *)
theory Delivery_Props
  imports Delivery Buffer_Edges
begin

text \<open>
  What the deliverer promises: at-least-once delivery of batches, termination of a drain into a
  working sink, bounded retries and backoff, and where dead-lettering inside a batch breaks the
  batch promise.
\<close>

section \<open>Frames\<close>

definition noPermanent :: "'w Env \<Rightarrow> bool" where
  "noPermanent env \<longleftrightarrow> (\<forall>w p err w'. send env w p = (Some err, w') \<longrightarrow> \<not> IsPermanent err)"

definition goodDisk :: "'w Env \<Rightarrow> bool" where
  "goodDisk env \<longleftrightarrow> (\<forall>w. goodOS (osOf env w))"

fun sentOf :: "call list \<Rightarrow> byte list list" where
  "sentOf [] = []"
| "sentOf (Sent p # cs) = p # sentOf cs"
| "sentOf (_ # cs) = sentOf cs"

fun ackedOf :: "call list \<Rightarrow> Entry list" where
  "ackedOf [] = []"
| "ackedOf (Acked e # cs) = e # ackedOf cs"
| "ackedOf (_ # cs) = ackedOf cs"

lemma sentOf_append [simp]: "sentOf (xs @ ys) = sentOf xs @ sentOf ys"
  by (induction xs rule: sentOf.induct) simp_all

lemma ackedOf_append [simp]: "ackedOf (xs @ ys) = ackedOf xs @ ackedOf ys"
  by (induction xs rule: ackedOf.induct) simp_all

text \<open>What a call of the sink leaves alone, and how it extends the trace.\<close>

definition quiet :: "'w Deliverer \<Rightarrow> 'w Deliverer \<Rightarrow> call list \<Rightarrow> bool" where
  "quiet d d' tr \<longleftrightarrow> dBuf d' = dBuf d \<and> dOpts d' = dOpts d \<and> dTrace d' = dTrace d @ tr \<and> ackedOf tr = []
     \<and> DeadLetteredCount (dStats d') = DeadLetteredCount (dStats d)"

lemma quiet_trans: "quiet a b t1 \<Longrightarrow> quiet b c t2 \<Longrightarrow> quiet a c (t1 @ t2)"
  by (simp add: quiet_def)

lemma quiet_step:
  "quiet d (noteCall c (d\<lparr>dWorld := w\<rparr>)) [c]" if "ackedOf [c] = []"
  using that by (cases c) (simp_all add: quiet_def noteCall_def)

lemma quiet_count:
  "quiet d d' tr \<Longrightarrow> quiet d (countRetry n err d') tr" "quiet d d' tr \<Longrightarrow> quiet d (countStalled d') tr"
  by (simp_all add: quiet_def countRetry_def countStalled_def)

lemma quiet_pause: "pause env n d = (r, d') \<Longrightarrow> quiet d d' []"
  by (auto simp: pause_def quiet_def split: prod.splits)

lemma attempts_quiet:
  assumes "attempts env e n d = (r, d')"
  shows "\<exists>tr. quiet d d' tr \<and> sentOf tr = (if r = AttemptOK then [Payload e] else []) \<and> length tr \<le> n"
  using assms
proof (induction env e n d arbitrary: r d' rule: attempts.induct)
  case (1 env e d)
  then show ?case by (auto simp: quiet_def intro: exI [of _ "[]"])
next
  case (2 env e left d)
  obtain er w where s: "send env (dWorld d) (Payload e) = (er, w)" by (metis surj_pair)
  show ?case
  proof (cases er)
    case None
    then show ?thesis
      using 2(2) s quiet_step [of "Sent (Payload e)" d w] by (auto intro!: exI [of _ "[Sent (Payload e)]"])
  next
    case (Some err)
    let ?d1 = "noteCall (SendFailed (Payload e) err) (d\<lparr>dWorld := w\<rparr>)"
    let ?n = "MaxAttempts (dOpts d) - int left"
    let ?d2 = "countRetry ?n err ?d1"
    have q1: "quiet d ?d1 [SendFailed (Payload e) err]" by (rule quiet_step) simp
    note q2 = quiet_count(1) [OF q1, of ?n err]
    obtain dn d3 where p: "pause env ?n ?d2 = (dn, d3)" by (metis surj_pair)
    have q3: "quiet d d3 [SendFailed (Payload e) err]" using quiet_trans [OF q2 quiet_pause [OF p]] by simp
    consider "ctxDone env w \<or> IsPermanent err \<or> left = 0 \<or> dn" | "\<not> ctxDone env w" "\<not> IsPermanent err" "left \<noteq> 0" "\<not> dn"
      by blast
    then show ?thesis
    proof cases
      case 1
      then have "(d' = ?d1 \<or> d' = countStalled ?d2 \<or> d' = d3) \<and> r \<noteq> AttemptOK"
        using 2(2) s Some p by (auto simp: Let_def split: if_splits)
      then show ?thesis
        using q1 quiet_count(2) [OF q2] q3 by (auto intro!: exI [of _ "[SendFailed (Payload e) err]"])
    next
      case 2: 2
      then have rec: "attempts env e left d3 = (r, d')"
        using "2.prems" s Some p by (simp add: Let_def)
      obtain tr where "quiet d3 d' tr" "sentOf tr = (if r = AttemptOK then [Payload e] else [])" "length tr \<le> left"
        using "2.IH" [OF s [symmetric] Some refl refl 2(1,2) refl 2(3) p [symmetric] _ rec] 2(4) by auto
      then show ?thesis
        using quiet_trans [OF q3] by (auto intro!: exI [of _ "SendFailed (Payload e) err # tr"])
    qed
  qed
qed

lemma attempts_no_permanent:
  "noPermanent env \<Longrightarrow> attempts env e n d = (r, d') \<Longrightarrow> r \<noteq> AttemptPermanent err"
proof (induction env e n d arbitrary: r d' rule: attempts.induct)
  case (2 env e left d)
  then show ?case
    by (auto simp: Let_def noPermanent_def split: prod.splits option.splits if_splits bool.splits)
qed simp

lemma attempts_errors: "attempts env e n d = (r, d') \<Longrightarrow> r \<noteq> AttemptError (ErrBuffer er)"
proof (induction env e n d arbitrary: r d' rule: attempts.induct)
  case (2 env e left d)
  then show ?case
    by (auto simp: Let_def split: prod.splits option.splits if_splits bool.splits)
qed auto

lemma sendOne_quiet:
  assumes "noPermanent env" and "sendOne env e d = (r, d')"
  shows "\<exists>tr. quiet d d' tr \<and> (r = Inr False \<and> sentOf tr = [Payload e] \<or> (\<exists>err. r = Inl err \<and> err \<noteq> ErrBuffer ErrSave))"
proof -
  obtain ar d1 where a: "attempts env e (nat (MaxAttempts (dOpts d))) d = (ar, d1)" by (metis surj_pair)
  obtain tr where tr: "quiet d d1 tr" "sentOf tr = (if ar = AttemptOK then [Payload e] else [])"
    using attempts_quiet [OF a] by blast
  have "ar \<noteq> AttemptPermanent err" for err using attempts_no_permanent [OF assms(1) a] .
  moreover have "ar \<noteq> AttemptError (ErrBuffer ErrSave)" using attempts_errors [OF a] .
  ultimately show ?thesis
    using assms(2) a tr by (cases ar) (auto simp: sendOne_def)
qed

lemma sendAll_quiet:
  assumes "noPermanent env" and "sendAll env es toAck d = (r, d')"
  shows "\<exists>tr. quiet d d' tr \<and> (r = Inr (toAck @ es) \<and> sentOf tr = map Payload es \<or> (\<exists>err. r = Inl err \<and> err \<noteq> ErrBuffer ErrSave))"
  using assms
proof (induction env es toAck d arbitrary: r d' rule: sendAll.induct)
  case (1 env toAck d)
  then show ?case by (auto simp: quiet_def)
next
  case (2 env e es toAck d)
  obtain r1 d1 where s: "sendOne env e d = (r1, d1)" by (metis surj_pair)
  obtain tr where tr: "quiet d d1 tr" "r1 = Inr False \<and> sentOf tr = [Payload e] \<or> (\<exists>err. r1 = Inl err \<and> err \<noteq> ErrBuffer ErrSave)"
    using sendOne_quiet [OF 2(2) s] by blast
  show ?case
  proof (cases r1)
    case (Inl err)
    then show ?thesis using 2(3) s tr by auto
  next
    case (Inr h)
    then have h: "h = False" "sentOf tr = [Payload e]" using tr(2) by auto
    have rec: "sendAll env es (toAck @ [e]) d1 = (r, d')" using 2(3) s Inr h by simp
    have "\<exists>tr'. quiet d1 d' tr' \<and> (r = Inr ((toAck @ [e]) @ es) \<and> sentOf tr' = map Payload es \<or> (\<exists>err. r = Inl err \<and> err \<noteq> ErrBuffer ErrSave))"
      using 2(1) [OF s [symmetric] Inr 2(2), of r d'] rec h(1) by simp
    then obtain tr' where "quiet d1 d' tr'"
      "r = Inr ((toAck @ [e]) @ es) \<and> sentOf tr' = map Payload es \<or> (\<exists>err. r = Inl err \<and> err \<noteq> ErrBuffer ErrSave)" by blast
    then show ?thesis
      using quiet_trans [OF tr(1)] h(2) by (intro exI [of _ "tr @ tr'"]) auto
  qed
qed

lemma commit_quiet:
  assumes "commitWithRetry env com n d = (r, d')"
  shows "\<exists>tr. quiet d d' tr \<and> sentOf tr = [] \<and> r \<noteq> Some (ErrBuffer ErrSave) \<and> (r = None \<longrightarrow> tr \<noteq> [] \<and> last tr = Committed)"
  using assms
proof (induction env com n d arbitrary: r d' rule: commitWithRetry.induct)
  case (1 env com d)
  then show ?case using quiet_count(2) [of d d "[]"] by (auto simp: quiet_def)
next
  case (2 env com left d)
  obtain er w where s: "com (dWorld d) = (er, w)" by (metis surj_pair)
  show ?case
  proof (cases er)
    case None
    then show ?thesis
      using 2(2) s quiet_step [of Committed d w] by (auto intro!: exI [of _ "[Committed]"])
  next
    case (Some err)
    let ?d1 = "noteCall (CommitFailed err) (d\<lparr>dWorld := w\<rparr>)"
    let ?n = "MaxAttempts (dOpts d) - int left"
    let ?d2 = "countRetry ?n err ?d1"
    have q1: "quiet d ?d1 [CommitFailed err]" by (rule quiet_step) simp
    note q2 = quiet_count(1) [OF q1, of ?n err]
    obtain dn d3 where p: "pause env ?n ?d2 = (dn, d3)" by (metis surj_pair)
    have q3: "quiet d d3 [CommitFailed err]" using quiet_trans [OF q2 quiet_pause [OF p]] by simp
    consider "ctxDone env w \<or> left = 0 \<or> dn" | "\<not> ctxDone env w" "left \<noteq> 0" "\<not> dn" by blast
    then show ?thesis
    proof cases
      case 1
      then have "(d' = ?d1 \<or> d' = countStalled ?d2 \<or> d' = d3) \<and> r \<noteq> None \<and> r \<noteq> Some (ErrBuffer ErrSave)"
        using 2(2) s Some p by (auto simp: Let_def split: if_splits)
      then show ?thesis
        using q1 quiet_count(2) [OF q2] q3 by (auto intro!: exI [of _ "[CommitFailed err]"])
    next
      case 2: 2
      then have rec: "commitWithRetry env com left d3 = (r, d')"
        using "2.prems" s Some p by (simp add: Let_def)
      obtain tr where "quiet d3 d' tr" "sentOf tr = []" "r \<noteq> Some (ErrBuffer ErrSave)" "r = None \<longrightarrow> tr \<noteq> [] \<and> last tr = Committed"
        using "2.IH" [OF s [symmetric] Some refl refl 2(1) refl 2(2) p [symmetric] _ rec] 2(3) by auto
      then show ?thesis
        using quiet_trans [OF q3] by (auto intro!: exI [of _ "CommitFailed err # tr"])
    qed
  qed
qed

text \<open>Acknowledging a batch through the queue contract.\<close>

lemma ackAll_fold:
  assumes "saveOK (osOf env (dWorld d))"
  shows "ackAll env es d = (None, d\<lparr>dBuf := foldl (\<lambda>b e. snd (Ack (osOf env (dWorld d)) e b)) (dBuf d) es,
    dTrace := dTrace d @ map Acked es\<rparr>)"
  using assms
proof (induction es arbitrary: d)
  case (Cons e es)
  have "Ack (osOf env (dWorld d)) e (dBuf d) = (None, snd (Ack (osOf env (dWorld d)) e (dBuf d)))"
    using Cons.prems by (simp add: Ack_def Let_def saveStateLocked_def)
  then have "ackEntry env e d = (None, noteCall (Acked e) (d\<lparr>dBuf := snd (Ack (osOf env (dWorld d)) e (dBuf d))\<rparr>))"
    by (cases "Ack (osOf env (dWorld d)) e (dBuf d)") (simp add: ackEntry_def)
  then show ?case
    using Cons.IH [of "noteCall (Acked e) (d\<lparr>dBuf := snd (Ack (osOf env (dWorld d)) e (dBuf d))\<rparr>)"] Cons.prems
    by (simp add: noteCall_def)
qed simp

lemma goodDisk_D: "goodDisk env \<Longrightarrow> saveOK (osOf env w) \<and> readable (osOf env w) \<and> goodOS (osOf env w)"
  by (simp add: goodDisk_def goodOS_D)

lemma Ack_openOK: "Ack (os\<lparr>openOK := f\<rparr>) e b = Ack os e b"
proof -
  have "reclaimLocked (os\<lparr>openOK := f\<rparr>) c = reclaimLocked os c" for c
    by (simp add: reclaimLocked_def reclaimable_def [abs_def])
  then show ?thesis by (simp add: Ack_def saveStateLocked_def Let_def split: option.splits)
qed

lemma ackAll_pending:
  assumes "saveOK (osOf env (dWorld d))" and "bufInv (dBuf d)"
  shows "\<exists>b'. ackAll env (take n (pending (dBuf d))) d =
      (None, d\<lparr>dBuf := b', dTrace := dTrace d @ map Acked (take n (pending (dBuf d)))\<rparr>)
    \<and> bufInv b' \<and> pending b' = drop n (pending (dBuf d))"
proof -
  let ?os = "(osOf env (dWorld d))\<lparr>openOK := \<lambda>_. True\<rparr>"
  have "readable ?os \<and> bufInv (dBuf d)" using assms(2) by (simp add: readable_def)
  from br.ack_each [OF this, of n] show ?thesis
    using ackAll_fold [OF assms(1)] by (auto simp: Ack_openOK)
qed

text \<open>When the state file cannot be written, the first acknowledgement of a batch fails: the cursor has moved behind
  that record in memory, and on disk nothing has changed.\<close>

lemma ackAll_save_fails:
  assumes "\<not> saveOK (osOf env (dWorld d))" and "bufInv (dBuf d)" and "take n (pending (dBuf d)) \<noteq> []"
  shows "\<exists>b'. ackAll env (take n (pending (dBuf d))) d = (Some (ErrBuffer ErrSave), d\<lparr>dBuf := b'\<rparr>)
    \<and> bufInv b' \<and> pending b' = tl (pending (dBuf d)) \<and> savedState b' = savedState (dBuf d)"
proof -
  let ?os = "osOf env (dWorld d)"
  obtain e rest where p: "pending (dBuf d) = e # rest" using assms(3) by (cases "pending (dBuf d)") auto
  obtain m where n: "n = Suc m" using assms(3) by (cases n) auto
  have A: "Ack ?os e (dBuf d) = (Some ErrSave, snd (Ack ?os e (dBuf d)))"
    "savedState (snd (Ack ?os e (dBuf d))) = savedState (dBuf d)"
    using assms(1) by (simp_all add: Ack_def saveStateLocked_def Let_def)
  have "ackEntry env e d = (Some (ErrBuffer ErrSave), d\<lparr>dBuf := snd (Ack ?os e (dBuf d))\<rparr>)"
    using A(1) by (cases "Ack ?os e (dBuf d)") (simp add: ackEntry_def)
  then show ?thesis
    using Ack_any(1,2) [OF assms(2), of "[]" e rest ?os] p n A(2)
    by (intro exI [of _ "snd (Ack ?os e (dBuf d))"]) simp
qed

lemma ackedOf_Acked [simp]: "ackedOf (map Acked es) = es" "sentOf (map Acked es) = []"
  by (induction es) simp_all

section \<open>Batches\<close>

lemma peekLoop_take:
  assumes "goodDisk env" and "bufInv (dBuf d)" and "pending (dBuf d) = batch @ rest"
  shows "\<exists>calls. peekLoop env n batch d =
    ((None, batch @ take n rest), d\<lparr>dBuf := (dBuf d)\<lparr>onEvict := calls\<rparr>\<rparr>)"
  using assms(2,3)
proof (induction n arbitrary: batch rest d)
  case 0
  show ?case by (rule exI [of _ "onEvict (dBuf d)"]) simp
next
  case (Suc n)
  let ?os = "osOf env (dWorld d)"
  have rd: "readable ?os" using goodDisk_D [OF assms(1)] by blast
  note P = PeekAfter_spec [OF Suc.prems(1) rd Suc.prems(2)]
  obtain calls where c: "PeekAfter ?os batch (dBuf d) = (firstOf rest, (dBuf d)\<lparr>onEvict := calls\<rparr>)"
    using P by (metis prod.collapse)
  show ?case
  proof (cases rest)
    case Nil
    then show ?thesis using c by (auto simp: firstOf_def intro!: exI [of _ calls])
  next
    case (Cons e r)
    let ?d = "d\<lparr>dBuf := (dBuf d)\<lparr>onEvict := calls\<rparr>\<rparr>"
    have "bufInv (dBuf ?d)" "pending (dBuf ?d) = (batch @ [e]) @ r"
      using Suc.prems Cons by (simp_all add: bufInv_iff pending_def)
    from Suc.IH [OF this] show ?thesis using c Cons by (simp add: firstOf_def)
  qed
qed

lemma commit_phase:
  assumes "(case commit env of None \<Rightarrow> (None, d1)
    | Some com \<Rightarrow> if batch = [] then (None, d1) else commitWithRetry env com m d1) = (r2, d2)"
  shows "\<exists>tr. quiet d1 d2 tr \<and> sentOf tr = [] \<and> r2 \<noteq> Some (ErrBuffer ErrSave)
    \<and> (r2 = None \<and> commit env \<noteq> None \<and> batch \<noteq> [] \<longrightarrow> tr \<noteq> [] \<and> last tr = Committed)"
proof (cases "commit env = None \<or> batch = []")
  case True
  then have "d2 = d1" "r2 = None" using assms by (auto split: option.splits)
  then show ?thesis using True by (intro exI [of _ "[]"]) (auto simp: quiet_def)
next
  case False
  then obtain com where "commitWithRetry env com m d1 = (r2, d2)" using assms by auto
  from commit_quiet [OF this] show ?thesis by blast
qed

text \<open>The trace of a delivered batch: sends, then the commit, then the acknowledgements.\<close>

definition committedTrace :: "'w Env \<Rightarrow> Entry list \<Rightarrow> call list \<Rightarrow> bool" where
  "committedTrace env batch tr \<longleftrightarrow>
     (\<exists>sends commits. tr = sends @ commits \<and> sentOf sends = map Payload batch \<and> sentOf commits = [] \<and> ackedOf tr = []
        \<and> (commit env \<noteq> None \<and> batch \<noteq> [] \<longrightarrow> commits \<noteq> [] \<and> last commits = Committed))"

definition deliveredTrace :: "'w Env \<Rightarrow> Entry list \<Rightarrow> call list \<Rightarrow> bool" where
  "deliveredTrace env batch tr \<longleftrightarrow> (\<exists>tr0. committedTrace env batch tr0 \<and> tr = tr0 @ map Acked batch)"

lemma deliverBatch_outcome:
  assumes "bufInv (dBuf d)" and "noPermanent env"
    and "batch = take n (pending (dBuf d))" and "deliverBatch env batch d = (k, err, d')"
  shows "(\<exists>tr. quiet d d' tr \<and> err \<noteq> None \<and> err \<noteq> Some (ErrBuffer ErrSave) \<and> k = 0)
    \<or> (\<exists>tr. err = Some (ErrBuffer ErrSave) \<and> k = 0 \<and> dTrace d' = dTrace d @ tr \<and> committedTrace env batch tr
        \<and> pending (dBuf d') = tl (pending (dBuf d)) \<and> savedState (dBuf d') = savedState (dBuf d))
    \<or> (\<exists>tr. err = None \<and> k = length batch \<and> dTrace d' = dTrace d @ tr \<and> deliveredTrace env batch tr
        \<and> dOpts d' = dOpts d \<and> bufInv (dBuf d') \<and> pending (dBuf d') = drop n (pending (dBuf d)))"
proof -
  obtain r1 d1 where s: "sendAll env batch [] d = (r1, d1)" by (metis surj_pair)
  obtain t1 where t1: "quiet d d1 t1" "r1 = Inr batch \<and> sentOf t1 = map Payload batch
      \<or> (\<exists>err. r1 = Inl err \<and> err \<noteq> ErrBuffer ErrSave)"
    using sendAll_quiet [OF assms(2) s] by auto
  obtain r2 d2 where c: "(case commit env of None \<Rightarrow> (None, d1)
      | Some com \<Rightarrow> if batch = [] then (None, d1) else commitWithRetry env com (nat (MaxAttempts (dOpts d1))) d1) = (r2, d2)"
    by (metis surj_pair)
  obtain t2 where t2: "quiet d1 d2 t2" "r2 \<noteq> Some (ErrBuffer ErrSave)" "sentOf t2 = []"
    "r2 = None \<and> commit env \<noteq> None \<and> batch \<noteq> [] \<Longrightarrow> t2 \<noteq> [] \<and> last t2 = Committed"
    using commit_phase [OF c] by blast
  note q = quiet_trans [OF t1(1) t2(1)]
  have d2: "dBuf d2 = dBuf d" "dTrace d2 = dTrace d @ t1 @ t2" "dOpts d2 = dOpts d" using q by (simp_all add: quiet_def)
  consider (send) er where "r1 = Inl er" | (com) er where "r1 = Inr batch" "r2 = Some er"
    | (ok) "r1 = Inr batch" "sentOf t1 = map Payload batch" "r2 = None"
    using t1(2) by (cases r2) auto
  then show ?thesis
  proof cases
    case send
    then have "deliverBatch env batch d = (0, Some er, d1)" using s by (simp add: deliverBatch_def)
    then show ?thesis using assms(4) send t1 by auto
  next
    case com
    then have "deliverBatch env batch d = (0, Some er, d2)" using s c by (simp add: deliverBatch_def)
    then show ?thesis using assms(4) q t2(2) com by auto
  next
    case ok
    have tr: "committedTrace env batch (t1 @ t2)"
      using q t2 ok unfolding committedTrace_def
      by (intro exI [of _ t1] exI [of _ t2]) (auto simp: quiet_def)
    show ?thesis
    proof (cases "saveOK (osOf env (dWorld d2)) \<or> batch = []")
      case True
      obtain b3 where a: "ackAll env batch d2 = (None, d2\<lparr>dBuf := b3, dTrace := dTrace d2 @ map Acked batch\<rparr>)"
        and b3: "bufInv b3" "pending b3 = drop n (pending (dBuf d))"
      proof (cases "batch = []")
        case True
        then have "drop n (pending (dBuf d)) = pending (dBuf d)" using assms(3) by auto
        then show ?thesis using that [of "dBuf d2"] True d2 assms(1) by simp
      next
        case False
        then show ?thesis using ackAll_pending [of env d2 n] True assms(1,3) d2 that by auto
      qed
      have "deliverBatch env batch d = (length batch, None,
          (d2\<lparr>dBuf := b3, dTrace := dTrace d2 @ map Acked batch\<rparr>)
            \<lparr>dStats := (dStats d2)\<lparr>Delivered := Delivered (dStats d2) + int (length batch)\<rparr>\<rparr>)"
        using s c a ok by (simp add: deliverBatch_def)
      moreover have "deliveredTrace env batch ((t1 @ t2) @ map Acked batch)" using tr by (auto simp: deliveredTrace_def)
      ultimately show ?thesis using assms(4) b3 d2 by (auto intro!: exI [of _ "(t1 @ t2) @ map Acked batch"])
    next
      case False
      then obtain b3 where a: "ackAll env batch d2 = (Some (ErrBuffer ErrSave), d2\<lparr>dBuf := b3\<rparr>)"
        "pending b3 = tl (pending (dBuf d))" "savedState b3 = savedState (dBuf d)"
        using ackAll_save_fails [of env d2 n] assms(1,3) d2 by auto
      then have "deliverBatch env batch d = (0, Some (ErrBuffer ErrSave), d2\<lparr>dBuf := b3\<rparr>)"
        using s c ok by (simp add: deliverBatch_def)
      then show ?thesis using assms(4) a(2,3) tr d2(2) by auto
    qed
  qed
qed


section \<open>Draining into a working sink\<close>

definition workingSink :: "'w Env \<Rightarrow> bool" where
  "workingSink env \<longleftrightarrow> (\<forall>w p. fst (send env w p) = None) \<and> (\<forall>w. \<not> ctxDone env w)
     \<and> (\<forall>com w. commit env = Some com \<longrightarrow> fst (com w) = None)"

lemma workingSink_noPermanent: "workingSink env \<Longrightarrow> noPermanent env"
  by (auto simp: workingSink_def noPermanent_def) (metis fst_conv option.discI)

lemma working_sendOne:
  assumes "workingSink env" and "0 < MaxAttempts (dOpts d)"
  shows "fst (sendOne env e d) = Inr False"
proof -
  obtain m where m: "nat (MaxAttempts (dOpts d)) = Suc m" using assms(2) by (metis gr0_conv_Suc zero_less_nat_eq)
  obtain w where "send env (dWorld d) (Payload e) = (None, w)"
    using assms(1) unfolding workingSink_def by (metis prod.collapse)
  then show ?thesis by (simp add: sendOne_def m)
qed

lemma working_sendAll:
  assumes "workingSink env"
  shows "0 < MaxAttempts (dOpts d) \<Longrightarrow> fst (sendAll env es toAck d) = Inr (toAck @ es)"
proof (induction es arbitrary: toAck d)
  case (Cons e es)
  obtain d1 where s: "sendOne env e d = (Inr False, d1)"
    using working_sendOne [OF assms Cons.prems, of e] by (metis prod.collapse)
  have "dOpts d1 = dOpts d"
    using sendOne_quiet [OF workingSink_noPermanent [OF assms] s] by (auto simp: quiet_def)
  then show ?case using Cons s by simp
qed simp

lemma working_batch:
  assumes "workingSink env" and "0 < MaxAttempts (dOpts d)" and "goodDisk env"
  shows "fst (snd (deliverBatch env batch d)) = None"
proof -
  obtain d1 where s: "sendAll env batch [] d = (Inr batch, d1)"
    using working_sendAll [OF assms(1,2), of batch "[]"] by (metis append_Nil prod.collapse)
  have "dOpts d1 = dOpts d"
    using sendAll_quiet [OF workingSink_noPermanent [OF assms(1)] s] by (auto simp: quiet_def)
  then obtain m where m: "nat (MaxAttempts (dOpts d1)) = Suc m"
    using assms(2) by (metis gr0_conv_Suc zero_less_nat_eq)
  have com: "\<exists>d2. commitWithRetry env com (Suc m) d1 = (None, d2)" if "commit env = Some com" for com
  proof -
    have "fst (com (dWorld d1)) = None" using assms(1) that by (simp add: workingSink_def)
    then show ?thesis by (cases "com (dWorld d1)") simp
  qed
  have ack: "\<exists>d3. ackAll env batch d2 = (None, d3)" for d2
    using ackAll_fold [of env d2 batch] goodDisk_D [OF assms(3)] by blast
  show ?thesis
  proof (cases "commit env")
    case None
    then show ?thesis using s ack [of d1] by (auto simp: deliverBatch_def)
  next
    case (Some c)
    obtain d2 where d2: "(if batch = [] then (None, d1) else commitWithRetry env c (Suc m) d1) = (None, d2)"
      using com [OF Some] by (cases "batch = []") (simp_all del: commitWithRetry.simps, metis)
    obtain d3 where "ackAll env batch d2 = (None, d3)" using ack by blast
    then show ?thesis using s Some d2
      by (cases "batch = []") (simp_all add: deliverBatch_def m del: commitWithRetry.simps)
  qed
qed

lemma drain_loop:
  assumes "workingSink env" and "goodDisk env"
  shows "bufInv (dBuf d) \<Longrightarrow> 0 < MaxAttempts (dOpts d) \<Longrightarrow> 0 < BatchSize (dOpts d)
    \<Longrightarrow> length (pending (dBuf d)) < fuel
    \<Longrightarrow> \<exists>d'. DrainOnce env fuel delivered d = Some (delivered + length (pending (dBuf d)), None, d')
      \<and> pending (dBuf d') = []"
proof (induction fuel arbitrary: delivered d)
  case (Suc fuel)
  let ?n = "nat (BatchSize (dOpts d))"
  obtain calls where nb: "nextBatch env d =
      ((None, take ?n (pending (dBuf d))), d\<lparr>dBuf := (dBuf d)\<lparr>onEvict := calls\<rparr>\<rparr>)"
    using peekLoop_take [OF assms(2) Suc.prems(1), of "[]" "pending (dBuf d)" ?n] by (auto simp: nextBatch_def)
  define d1 where "d1 = d\<lparr>dBuf := (dBuf d)\<lparr>onEvict := calls\<rparr>\<rparr>"
  have ctx: "\<not> ctxDone env (dWorld d)" using assms(1) by (simp add: workingSink_def)
  have d1: "pending (dBuf d1) = pending (dBuf d)" "bufInv (dBuf d1)" "dOpts d1 = dOpts d"
    using Suc.prems by (simp_all add: d1_def pending_def bufInv_iff)
  show ?case
  proof (cases "pending (dBuf d) = []")
    case True
    then show ?thesis using ctx nb d1 by (auto simp: d1_def)
  next
    case False
    let ?batch = "take ?n (pending (dBuf d))"
    obtain k d2 where db: "deliverBatch env ?batch d1 = (k, None, d2)"
      using working_batch [OF assms(1) _ assms(2), of d1 ?batch] Suc.prems(2) d1(3) by (metis prod.collapse)
    have out: "k = length ?batch" "dOpts d2 = dOpts d" "bufInv (dBuf d2)"
      "pending (dBuf d2) = drop ?n (pending (dBuf d))"
      using deliverBatch_outcome [OF d1(2) workingSink_noPermanent [OF assms(1)], of ?batch ?n] d1 db by auto
    have pos: "0 < ?n" using Suc.prems(3) by simp
    then have ne: "?batch \<noteq> []" using False by simp
    have "length (pending (dBuf d2)) < fuel" using out(4) pos False Suc.prems(4) by (cases "pending (dBuf d)") auto
    then obtain d' where "DrainOnce env fuel (delivered + k) d2 =
        Some (delivered + k + length (pending (dBuf d2)), None, d')" "pending (dBuf d') = []"
      using Suc.IH [OF out(3)] Suc.prems(2,3) out(2) by auto
    then show ?thesis
      using ctx nb ne db out(1,4) by (auto simp: d1_def [symmetric])
  qed
qed simp

text \<open>
  A drain into a working sink ends and empties the buffer: with any batch size and any number of
  attempts of at least one, as many rounds as there are pending records, and one more to see that
  nothing is left, suffice; every record is counted as delivered and none is left.
\<close>

theorem drain_empties_buffer:
  assumes "workingSink env" and "goodDisk env" and "bufInv (dBuf d)"
    and "0 < MaxAttempts (dOpts d)" and "0 < BatchSize (dOpts d)"
  shows "\<exists>d'. DrainOnce env (Suc (length (pending (dBuf d)))) 0 d = Some (length (pending (dBuf d)), None, d')
    \<and> pending (dBuf d') = []"
  using drain_loop [OF assms, of "Suc (length (pending (dBuf d)))" 0] by simp

section \<open>Examples of worlds\<close>

text \<open>A world that counts calls; the sink and the commit answer by that count.\<close>

definition countingEnv :: "(nat \<Rightarrow> goError option) \<Rightarrow> (nat \<Rightarrow> goError option) \<Rightarrow> nat Env" where
  "countingEnv answer com =
     \<lparr>send = (\<lambda>w p. (answer w, w + 1)), commit = Some (\<lambda>w. (com w, w + 1)), ctxDone = (\<lambda>_. False),
      wait = (\<lambda>w t. (False, w)), randFloat = (\<lambda>w. (1 / 2, w)), nowOf = (\<lambda>_. 0), dateOf = (\<lambda>_. ''2026-01-01''),
      marshalDL = (\<lambda>_ _ _ _. None), writeDL = (\<lambda>w path body. (True, w)), osOf = (\<lambda>_. okOS)\<rparr>"

definition oneTry :: DeliveryOptions where
  "oneTry = \<lparr>MaxAttempts = 1, BaseDelay = 1, MaxDelay = 1, DeadLetterDir = ''dl'', BatchSize = 10\<rparr>"

lemma goodDisk_counting [simp]: "goodDisk (countingEnv a c)"
  by (simp add: goodDisk_def countingEnv_def)

lemma threeRecords_cipher: "cipherOK (aead threeRecords)"
  by (simp add: cipherOK_def threeRecords_inv)

lemma NewDeliverer_fields [simp]:
  "dBuf (NewDeliverer b o1 w) = b" "dOpts (NewDeliverer b o1 w) = deliveryDefaults o1"
  "0 < MaxAttempts (deliveryDefaults o1)" "0 < BatchSize (deliveryDefaults o1)"
  by (simp_all add: NewDeliverer_def deliveryDefaults_def)


theorem drain_empties_buffer_witness:
  "\<exists>d'. DrainOnce (countingEnv (\<lambda>_. None) (\<lambda>_. None)) (Suc (length (pending threeRecords))) 0
      (NewDeliverer threeRecords oneTry 0) = Some (length (pending threeRecords), None, d')
    \<and> pending (dBuf d') = []"
proof -
  have "workingSink (countingEnv (\<lambda>_. None) (\<lambda>_. None))" by (simp add: workingSink_def countingEnv_def)
  from drain_empties_buffer [OF this goodDisk_counting, of "NewDeliverer threeRecords oneTry 0"]
  show ?thesis using threeRecords_inv by simp
qed

section \<open>A permanent failure inside a batch\<close>

text \<open>The sink accepts the first record, rejects the second for good, and cannot commit.\<close>

definition poisonedBatch :: "nat \<times> deliveryError option \<times> nat Deliverer" where
  "poisonedBatch =
     deliverBatch (countingEnv (\<lambda>w. if w = 1 then Permanent (Some (PlainError ''bad'')) else None)
         (\<lambda>_. Some (PlainError ''down'')))
       (take 2 (pending threeRecords)) (NewDeliverer threeRecords oneTry 0)"

text \<open>
  A dead-lettered record takes uncommitted records with it: the second record of a batch is
  rejected for good, so it is acknowledged at once, which moves the read cursor behind the first
  record too; when the commit then fails, the batch reports a stall, yet the first record, sent
  but never committed, is no longer pending, also after a restart.
\<close>

theorem dead_letter_acknowledges_uncommitted:
  "fst poisonedBatch = 0 \<and> fst (snd poisonedBatch) = Some ErrStalled
    \<and> Committed \<notin> set (dTrace (snd (snd poisonedBatch)))
    \<and> map (\<lambda>e. (segID e, endOff e)) (pending threeRecords) = [(1, 20), (1, 41), (2, 20)]
    \<and> map (\<lambda>e. (segID e, endOff e)) (pending (dBuf (snd (snd poisonedBatch)))) = [(2, 20)]
    \<and> savedState (dBuf (snd (snd poisonedBatch))) = SavedState 1 41"
proof (intro conjI)
  show "fst poisonedBatch = 0" by code_simp
  show "fst (snd poisonedBatch) = Some ErrStalled" by code_simp
  show "Committed \<notin> set (dTrace (snd (snd poisonedBatch)))" by code_simp
  show "map (\<lambda>e. (segID e, endOff e)) (pending threeRecords) = [(1, 20), (1, 41), (2, 20)]" by code_simp
  show "map (\<lambda>e. (segID e, endOff e)) (pending (dBuf (snd (snd poisonedBatch)))) = [(2, 20)]" by code_simp
  show "savedState (dBuf (snd (snd poisonedBatch))) = SavedState 1 41" by code_simp
qed

section \<open>Retries\<close>

text \<open>How an attempt loop ends when every attempt fails transiently and nobody cancels.\<close>

definition downSink :: "'w Env \<Rightarrow> bool" where
  "downSink env \<longleftrightarrow> (\<forall>w p. \<exists>err w'. send env w p = (Some err, w') \<and> \<not> IsPermanent err)
     \<and> (\<forall>w. \<not> ctxDone env w) \<and> (\<forall>w t. \<not> fst (wait env w t))"

lemma down_attempts:
  assumes "downSink env" and "0 < n"
  shows "\<exists>d' tr. attempts env e n d = (AttemptError ErrStalled, d') \<and> quiet d d' tr \<and> length tr = n
    \<and> Retries (dStats d') = Retries (dStats d) + int n \<and> Stalled (dStats d') = Stalled (dStats d) + 1"
  using assms(2)
proof (induction n arbitrary: d)
  case (Suc left)
  obtain err w where s: "send env (dWorld d) (Payload e) = (Some err, w)" "\<not> IsPermanent err"
    using assms(1) unfolding downSink_def by blast
  have ctx: "\<not> ctxDone env w" using assms(1) by (simp add: downSink_def)
  define d2 where "d2 = countRetry (MaxAttempts (dOpts d) - int left) err
    (noteCall (SendFailed (Payload e) err) (d\<lparr>dWorld := w\<rparr>))"
  have d2: "quiet d d2 [SendFailed (Payload e) err]" "Retries (dStats d2) = Retries (dStats d) + 1"
    "Stalled (dStats d2) = Stalled (dStats d)"
    using quiet_count(1) [OF quiet_step [of "SendFailed (Payload e) err" d w]]
    by (simp_all add: d2_def) (simp_all add: countRetry_def noteCall_def)
  show ?case
  proof (cases "left = 0")
    case True
    then have "attempts env e (Suc left) d = (AttemptError ErrStalled, countStalled d2)"
      using s ctx by (simp add: d2_def Let_def)
    then show ?thesis
      using True d2 quiet_count(2) [OF d2(1)] by (auto simp: countStalled_def)
  next
    case False
    obtain d3 where p: "pause env (MaxAttempts (dOpts d) - int left) d2 = (False, d3)"
    proof -
      obtain r w1 where "randFloat env (dWorld d2) = (r, w1)" by (metis surj_pair)
      moreover obtain b w2 where "wait env w1 (backoff (dOpts d2) r (MaxAttempts (dOpts d) - int left)) = (b, w2)"
        by (metis surj_pair)
      moreover from this have "\<not> b" using assms(1) unfolding downSink_def by (metis fst_conv)
      ultimately have "pause env (MaxAttempts (dOpts d) - int left) d2 = (False, d2\<lparr>dWorld := w2\<rparr>)"
        by (simp add: pause_def)
      then show thesis using that by blast
    qed
    have d3: "quiet d2 d3 []" "dStats d3 = dStats d2"
      using quiet_pause [OF p] p by (auto simp: pause_def split: prod.splits)
    obtain d' tr where d': "attempts env e left d3 = (AttemptError ErrStalled, d')"
      "quiet d3 d' tr" "length tr = left"
      "Retries (dStats d') = Retries (dStats d3) + int left" "Stalled (dStats d') = Stalled (dStats d3) + 1"
      using Suc.IH [of d3] False by auto
    have "attempts env e (Suc left) d = (AttemptError ErrStalled, d')"
      using s ctx False p d'(1) by (simp add: d2_def [symmetric] Let_def)
    moreover have "quiet d d' (SendFailed (Payload e) err # tr)"
      using quiet_trans [OF d2(1) quiet_trans [OF d3(1) d'(2)]] by simp
    moreover have "length (SendFailed (Payload e) err # tr) = Suc left" using d'(3) by simp
    ultimately show ?thesis
      using d'(4,5) d2(2,3) d3(2) by (metis (no_types, lifting) add.assoc add.commute of_nat_Suc)
  qed
qed simp

text \<open>
  A sink outage costs retries, never records: when every attempt fails with an error that is not
  permanent, sending a record makes exactly the configured number of attempts, reports a stall,
  counts the retries and one stall, and neither dead-letters nor acknowledges anything; the buffer
  is untouched.
\<close>

theorem outage_stalls_without_loss:
  assumes "downSink env" and "0 < MaxAttempts (dOpts d)"
  shows "\<exists>d'. sendOne env e d = (Inl ErrStalled, d') \<and> dBuf d' = dBuf d
    \<and> length (dTrace d') = length (dTrace d) + nat (MaxAttempts (dOpts d))
    \<and> Retries (dStats d') = Retries (dStats d) + MaxAttempts (dOpts d)
    \<and> Stalled (dStats d') = Stalled (dStats d) + 1
    \<and> DeadLetteredCount (dStats d') = DeadLetteredCount (dStats d)"
  using down_attempts [OF assms(1), of "nat (MaxAttempts (dOpts d))" e d] assms(2)
  by (auto simp: sendOne_def quiet_def)

theorem outage_stalls_without_loss_witness:
  "\<exists>d'. sendOne (countingEnv (\<lambda>_. Some (PlainError ''down'')) (\<lambda>_. None)) (hd (pending threeRecords))
      (NewDeliverer threeRecords oneTry 0) = (Inl ErrStalled, d') \<and> dBuf d' = threeRecords"
proof -
  have "downSink (countingEnv (\<lambda>_. Some (PlainError ''down'')) (\<lambda>_. None))"
    by (simp add: downSink_def countingEnv_def)
  from outage_stalls_without_loss [OF this, of "NewDeliverer threeRecords oneTry 0"] show ?thesis by auto
qed

text \<open>
  The backoff is bounded: for a random factor in \<open>[0, 1)\<close> and non-negative delays, the wait before
  the next attempt is never negative and exceeds neither the maximum delay nor the exponential
  curve from the base delay.
\<close>

theorem backoff_bounded:
  assumes "0 \<le> r" and "r < 1" and "0 \<le> BaseDelay o1" and "0 \<le> MaxDelay o1" and "1 \<le> attempt"
  shows "0 \<le> backoff o1 r attempt \<and> backoff o1 r attempt \<le> MaxDelay o1 \<and>
    backoff o1 r attempt \<le> BaseDelay o1 * 2 ^ nat (attempt - 1)"
proof -
  define e where "e = (of_int (BaseDelay o1) * 2 ^ nat (attempt - 1) :: rat)"
  define e' where "e' = min e (of_int (MaxDelay o1))"
  have e: "e = of_int (BaseDelay o1 * 2 ^ nat (attempt - 1))" by (simp add: e_def)
  have b: "backoff o1 r attempt = \<lfloor>r * e'\<rfloor>"
    by (simp add: backoff_def Let_def e_def [symmetric] e'_def min_def)
  have "0 \<le> e'" using assms(3,4) by (simp add: e'_def e_def)
  then have "0 \<le> r * e'" and le: "r * e' \<le> e'" using assms(1,2) by (simp_all add: mult_left_le_one_le)
  then have "0 \<le> backoff o1 r attempt" by (simp add: b)
  moreover have "r * e' \<le> of_int (MaxDelay o1)" "r * e' \<le> of_int (BaseDelay o1 * 2 ^ nat (attempt - 1))"
    using le unfolding e [symmetric] by (auto simp: e'_def)
  then have "backoff o1 r attempt \<le> MaxDelay o1"
    and "backoff o1 r attempt \<le> BaseDelay o1 * 2 ^ nat (attempt - 1)"
    unfolding b by (metis floor_mono floor_of_int)+
  ultimately show ?thesis by simp
qed

theorem backoff_bounded_witness: "backoff oneTry (1 / 2) 3 \<le> 1"
  using backoff_bounded [of "1 / 2" oneTry 3] by (simp add: oneTry_def)

end
