(* ===== verification/Json.thy ===== *)
theory Json
  imports Prelude
begin

text \<open>
  JSON values as Go code holds them after parsing into \<^verbatim>\<open>any\<close>, and \<^verbatim>\<open>encoding/json.Marshal\<close>: no
  spaces, object keys in byte order, quotes, backslashes and control characters escaped, and the
  characters special to HTML written as code points. A number is its literal text; text above
  ASCII is passed through byte by byte, except the two line separators that \<^verbatim>\<open>Marshal\<close> escapes.
\<close>

datatype json = JNull | JBool bool | JNum string | JStr string | JArr "json list" | JObj "(string \<times> json) list"

definition esc_u :: "nat \<Rightarrow> string" where
  "esc_u n = [CHR 0x5C, CHR ''u''] @ ''00'' @ [hex_digit (n div 16), hex_digit (n mod 16)]"

definition esc_char :: "char \<Rightarrow> string" where
  "esc_char c =
     (if c = CHR 0x22 then [CHR 0x5C, CHR 0x22]
      else if c = CHR 0x5C then [CHR 0x5C, CHR 0x5C]
      else if c = CHR 0x08 then [CHR 0x5C, CHR ''b'']
      else if c = CHR 0x0C then [CHR 0x5C, CHR ''f'']
      else if c = CHR 0x0A then [CHR 0x5C, CHR ''n'']
      else if c = CHR 0x0D then [CHR 0x5C, CHR ''r'']
      else if c = CHR 0x09 then [CHR 0x5C, CHR ''t'']
      else if of_char c < (32 :: nat) \<or> c \<in> {CHR ''<'', CHR ''>'', CHR ''&''} then esc_u (of_char c)
      else [c])"

fun esc_text :: "string \<Rightarrow> string" where
  "esc_text (a # b # c # r) =
     (if a = CHR 0xE2 \<and> b = CHR 0x80 \<and> c = CHR 0xA8 then [CHR 0x5C] @ ''u2028'' @ esc_text r
      else if a = CHR 0xE2 \<and> b = CHR 0x80 \<and> c = CHR 0xA9 then [CHR 0x5C] @ ''u2029'' @ esc_text r
      else esc_char a @ esc_text (b # c # r))"
| "esc_text (a # r) = esc_char a @ esc_text r"
| "esc_text [] = []"

definition quoted :: "string \<Rightarrow> string" where
  "quoted s = [CHR 0x22] @ esc_text s @ [CHR 0x22]"

fun join_with :: "string \<Rightarrow> string list \<Rightarrow> string" where
  "join_with sep [] = []"
| "join_with sep [x] = x"
| "join_with sep (x # y # xs) = x @ sep @ join_with sep (y # xs)"

text \<open>\<^verbatim>\<open>strings.Contains\<close>.\<close>

definition containsText :: "string \<Rightarrow> string \<Rightarrow> bool" where
  "containsText s sub \<longleftrightarrow> list_ex (\<lambda>i. has_prefix (drop i s) sub) [0..<Suc (length s)]"

function json_encode :: "json \<Rightarrow> string" where
  "json_encode JNull = ''null''"
| "json_encode (JBool b) = (if b then ''true'' else ''false'')"
| "json_encode (JNum s) = s"
| "json_encode (JStr s) = quoted s"
| "json_encode (JArr xs) = ''['' @ join_with '','' (map json_encode xs) @ '']''"
| "json_encode (JObj kvs) =
     [CHR 0x7B] @ join_with '','' (map (\<lambda>(k, v). quoted k @ '':'' @ json_encode v) (sort_key fst kvs)) @ [CHR 0x7D]"
  by pat_completeness auto
termination
proof (relation "measure size", goal_cases)
  case (2 xs x)
  then show ?case by (simp add: size_list_estimation' le_imp_less_Suc)
next
  case (3 kvs p k v)
  then have "(k, v) \<in> set kvs" by simp
  then have "size v \<le> size_list (size_prod (\<lambda>_. 0) size) kvs"
    by (auto intro: size_list_estimation' [of "(k, v)"])
  then show ?case by simp
qed simp


end
