(* ===== verification/Redact.thy ===== *)
theory Redact
  imports Records Hashing Json
begin

text \<open>
  Redaction (\<^verbatim>\<open>src/collector/redact\<close>: \<^verbatim>\<open>redact.go\<close>, \<^verbatim>\<open>detector.go\<close>, \<^verbatim>\<open>clone.go\<close>).

  A compiled regular expression is what the code asks of it: the byte ranges of its successive
  non-overlapping matches, and the text a replacement template expands to at a match. A compiled
  JSONPath (a third-party package) is its \<^verbatim>\<open>Get\<close> and \<^verbatim>\<open>Set\<close>, and the JSON parser of the same package
  is a parameter of the functions that parse. The entity detector is a function from the text to
  its findings or to failure.

  An operation takes and returns the counters; an error is a value. Slicing a string outside its
  bounds, which makes the code panic, is the error \<open>SlicePanic\<close>.
\<close>

section \<open>Data\<close>

definition ActionTokenize :: string where "ActionTokenize = ''tokenize''"
definition ActionDrop :: string where "ActionDrop = ''drop''"

record Regexp =
  FindAllStringIndex :: "string \<Rightarrow> (nat \<times> nat) list"
  expandAt :: "string \<Rightarrow> string \<Rightarrow> nat \<times> nat \<Rightarrow> string"

record JsonPath =
  pathGet :: "json \<Rightarrow> json list"
  pathSet :: "json \<Rightarrow> json \<Rightarrow> json option"

record Rule =
  ruleID :: string
  ruleRe :: "Regexp option"
  rulePath :: "JsonPath option"
  ruleAction :: string
  ruleFields :: "string list"

record ManifestEntry =
  meRuleID :: string
  mePath :: string
  meAction :: string
  meMatches :: int

record Manifest =
  mfEpisodeID :: string
  mfEntries :: "ManifestEntry list"

record Finding =
  fEntityType :: string
  fStart :: int
  fEnd :: int
  fScore :: rat

record RedactStats =
  rsMatches :: "string \<Rightarrow> int"
  rsErrors :: "string \<Rightarrow> int"
  rsQuarantined :: int

record Redactor =
  rules :: "Rule list"
  allow :: "string list"
  deny :: "string list"
  denyDefault :: bool
  metadataOnly :: bool
  tokenKey :: "byte list"
  keyID :: string
  onManifest :: bool
  detector :: "(string \<Rightarrow> Finding list option) option"
  detectAction :: string

datatype redactError =
    TokenizeNeedsKey string | UnknownAction string string | PathRewrite string
  | DetectorFailed | DetectorNeedsKey | SlicePanic
  | BadRegex string | BadPath string | MatchesNothing string

section \<open>Counters\<close>

definition zeroRedactStats :: RedactStats where
  "zeroRedactStats = \<lparr>rsMatches = (\<lambda>_. 0), rsErrors = (\<lambda>_. 0), rsQuarantined = 0\<rparr>"

definition countMatch :: "string \<Rightarrow> int \<Rightarrow> RedactStats \<Rightarrow> RedactStats" where
  "countMatch i n st = st\<lparr>rsMatches := (rsMatches st)(i := rsMatches st i + n)\<rparr>"

definition countError :: "string \<Rightarrow> RedactStats \<Rightarrow> RedactStats" where
  "countError i st = st\<lparr>rsErrors := (rsErrors st)(i := rsErrors st i + 1)\<rparr>"

definition countQuarantine :: "RedactStats \<Rightarrow> RedactStats" where
  "countQuarantine st = st\<lparr>rsQuarantined := rsQuarantined st + 1\<rparr>"

section \<open>Strings\<close>

definition slice :: "nat \<Rightarrow> nat \<Rightarrow> string \<Rightarrow> string" where
  "slice a b s = take (b - a) (drop a s)"

text \<open>Rewrite the given ranges of a string, from left to right.\<close>

fun rewrite :: "(nat \<times> nat \<Rightarrow> string) \<Rightarrow> string \<Rightarrow> nat \<Rightarrow> (nat \<times> nat) list \<Rightarrow> string" where
  "rewrite f s pos [] = drop pos s"
| "rewrite f s pos ((a, b) # r) = slice pos a s @ f (a, b) @ rewrite f s b r"

definition ReplaceAllStringFunc :: "Regexp \<Rightarrow> string \<Rightarrow> (string \<Rightarrow> string) \<Rightarrow> string" where
  "ReplaceAllStringFunc re s f = rewrite (\<lambda>(a, b). f (slice a b s)) s 0 (FindAllStringIndex re s)"

definition ReplaceAllString :: "Regexp \<Rightarrow> string \<Rightarrow> string \<Rightarrow> string" where
  "ReplaceAllString re s tmpl = rewrite (expandAt re tmpl s) s 0 (FindAllStringIndex re s)"

definition MatchString :: "Regexp \<Rightarrow> string \<Rightarrow> bool" where
  "MatchString re s \<longleftrightarrow> FindAllStringIndex re s \<noteq> []"

function indexWildcard :: "string \<Rightarrow> string" where
  "indexWildcard [] = []"
| "indexWildcard (c # s) =
     (let ds = takeWhile is_digit s; rest = dropWhile is_digit s
      in if c = CHR ''['' \<and> ds \<noteq> [] \<and> rest \<noteq> [] \<and> hd rest = CHR '']''
         then ''[*]'' @ indexWildcard (tl rest)
         else c # indexWildcard s)"
  by pat_completeness auto
termination
proof (relation "measure length", goal_cases)
  case (2 c s ds rest)
  have "length (tl (dropWhile is_digit s)) \<le> length s"
    by (metis diff_le_self le_trans length_dropWhile_le length_tl)
  then show ?case using 2 by simp
qed simp_all

definition matchOne :: "string \<Rightarrow> string \<Rightarrow> bool" where
  "matchOne pat path =
     (let norm = indexWildcard path; p = indexWildcard pat
      in p = path \<or> p = norm \<or> has_prefix norm (p @ ''.'')
         \<or> has_suffix p ''.*'' \<and> has_prefix norm (butlast p))"

definition matchAny :: "string list \<Rightarrow> string \<Rightarrow> bool" where
  "matchAny patterns path \<longleftrightarrow> list_ex (\<lambda>pat. matchOne pat path) patterns"

definition tokenize :: "byte list \<Rightarrow> string \<Rightarrow> string" where
  "tokenize key v = ''tok_'' @ take 24 (hex_encode (hmac_sha256 key (bytes_of v)))"

definition redactedText :: "string \<Rightarrow> string" where
  "redactedText i = ''[redacted:'' @ i @ '']''"

fun stringify :: "json \<Rightarrow> string" where
  "stringify (JStr s) = s"
| "stringify JNull = []"
| "stringify v = json_encode v"

section \<open>Rules\<close>

definition applyAction :: "Redactor \<Rightarrow> Rule \<Rightarrow> Regexp \<Rightarrow> string \<Rightarrow> redactError + string" where
  "applyAction r rule re value =
     (if ruleAction rule = ActionTokenize then
        (if tokenKey r = [] then Inl (TokenizeNeedsKey (ruleID rule))
         else Inr (ReplaceAllStringFunc re value (tokenize (tokenKey r))))
      else if ruleAction rule = ActionDrop then Inr (ReplaceAllString re value (redactedText (ruleID rule)))
      else Inl (UnknownAction (ruleID rule) (ruleAction rule)))"

definition redactWhole :: "Redactor \<Rightarrow> Rule \<Rightarrow> string \<Rightarrow> redactError + string" where
  "redactWhole r rule value =
     (if ruleAction rule = ActionTokenize then
        (if tokenKey r = [] then Inl (TokenizeNeedsKey (ruleID rule)) else Inr (tokenize (tokenKey r) value))
      else if ruleAction rule = ActionDrop then Inr (redactedText (ruleID rule))
      else Inl (UnknownAction (ruleID rule) (ruleAction rule)))"

text \<open>The loop over the selected nodes: the document as rewritten so far and the count.\<close>

fun pathNodes :: "Redactor \<Rightarrow> Rule \<Rightarrow> JsonPath \<Rightarrow> json list \<Rightarrow> json \<Rightarrow> nat \<Rightarrow> redactError + json \<times> nat" where
  "pathNodes r rule p [] doc n = Inr (doc, n)"
| "pathNodes r rule p (node # nodes) doc n =
     (let s = stringify node
      in if s = [] then pathNodes r rule p nodes doc n
         else
           case ruleRe rule of
             Some re \<Rightarrow>
               if \<not> MatchString re s then pathNodes r rule p nodes doc n
               else
                 (case applyAction r rule re s of
                    Inl e \<Rightarrow> Inl e
                  | Inr red \<Rightarrow>
                      (case pathSet p doc (JStr red) of
                         None \<Rightarrow> Inl (PathRewrite (ruleID rule))
                       | Some doc' \<Rightarrow> pathNodes r rule p nodes doc' (n + 1)))
           | None \<Rightarrow>
               (case redactWhole r rule s of
                  Inl e \<Rightarrow> Inl e
                | Inr red \<Rightarrow>
                    (case pathSet p doc (JStr red) of
                       None \<Rightarrow> Inl (PathRewrite (ruleID rule))
                     | Some doc' \<Rightarrow> pathNodes r rule p nodes doc' (n + 1))))"

definition applyPathRule ::
  "(string \<Rightarrow> json option) \<Rightarrow> Redactor \<Rightarrow> Rule \<Rightarrow> JsonPath \<Rightarrow> string \<Rightarrow> redactError + string \<times> nat"
where
  "applyPathRule parse r rule p value =
     (case parse value of
        None \<Rightarrow> Inr (value, 0)
      | Some doc \<Rightarrow>
          (let found = pathGet p doc
           in if found = [] then Inr (value, 0)
              else
                case pathNodes r rule p found doc 0 of
                  Inl e \<Rightarrow> Inl e
                | Inr (doc', n) \<Rightarrow> if n = 0 then Inr (value, 0) else Inr (json_encode doc', n)))"

text \<open>The loop over the rules: the value so far, the manifest entries so far, and the counters.\<close>

fun applyRules ::
  "(string \<Rightarrow> json option) \<Rightarrow> Redactor \<Rightarrow> string \<Rightarrow> Rule list \<Rightarrow> string \<Rightarrow> ManifestEntry list \<Rightarrow> RedactStats
     \<Rightarrow> (redactError + string \<times> ManifestEntry list) \<times> RedactStats"
where
  "applyRules parse r path [] out ents st = (Inr (out, ents), st)"
| "applyRules parse r path (rule # rest) out ents st =
     (if ruleFields rule \<noteq> [] \<and> \<not> matchAny (ruleFields rule) path
      then applyRules parse r path rest out ents st
      else
        case rulePath rule of
          Some p \<Rightarrow>
            (case applyPathRule parse r rule p out of
               Inl e \<Rightarrow> (Inl e, countError (ruleID rule) st)
             | Inr (nxt, n) \<Rightarrow>
                 if n > 0 then
                   applyRules parse r path rest nxt
                     (ents @ [\<lparr>meRuleID = ruleID rule, mePath = path, meAction = ruleAction rule, meMatches = int n\<rparr>])
                     (countMatch (ruleID rule) (int n) st)
                 else applyRules parse r path rest out ents st)
        | None \<Rightarrow>
            (case ruleRe rule of
               None \<Rightarrow> applyRules parse r path rest out ents st
             | Some re \<Rightarrow>
                 let n = length (FindAllStringIndex re out)
                 in if n = 0 then applyRules parse r path rest out ents st
                    else
                      let st1 = countMatch (ruleID rule) (int n) st
                      in case applyAction r rule re out of
                           Inl e \<Rightarrow> (Inl e, countError (ruleID rule) st1)
                         | Inr nxt \<Rightarrow>
                             applyRules parse r path rest nxt
                               (ents @ [\<lparr>meRuleID = ruleID rule, mePath = path, meAction = ruleAction rule,
                                         meMatches = int n\<rparr>]) st1))"

section \<open>The entity detector\<close>

text \<open>\<^verbatim>\<open>Detect\<close> of the Presidio client: the service's answer (\<open>None\<close> for any failure), filtered.\<close>

definition PresidioDetect :: "(string \<Rightarrow> Finding list option) \<Rightarrow> rat \<Rightarrow> string \<Rightarrow> Finding list option" where
  "PresidioDetect service minScore text =
     map_option (filter (\<lambda>f. fScore f \<ge> minScore \<and> fStart f \<ge> 0 \<and> fEnd f \<le> int (length text) \<and> fStart f < fEnd f))
       (service text)"

fun mergeFindings :: "Finding \<Rightarrow> Finding list \<Rightarrow> Finding list" where
  "mergeFindings l [] = [l]"
| "mergeFindings l (f # fs) =
     (if fStart f < fEnd l
      then mergeFindings (if fEnd f > fEnd l then l\<lparr>fEnd := fEnd f\<rparr> else l) fs
      else l # mergeFindings f fs)"

fun replaceFindings ::
  "Redactor \<Rightarrow> Finding list \<Rightarrow> string \<Rightarrow> (string, int) gomap \<Rightarrow> redactError + string \<times> (string, int) gomap"
where
  "replaceFindings r [] out counts = Inr (out, counts)"
| "replaceFindings r (f # fs) out counts =
     (if detectAction r = ActionTokenize \<and> tokenKey r = [] then Inl DetectorNeedsKey
      else if fStart f < 0 \<or> int (length out) < fStart f \<or> fEnd f < 0 \<or> int (length out) < fEnd f
           \<or> detectAction r = ActionTokenize \<and> fEnd f < fStart f
      then Inl SlicePanic
      else
        let a = nat (fStart f); b = nat (fEnd f);
            repl = (if detectAction r = ActionTokenize then tokenize (tokenKey r) (slice a b out)
                    else redactedText (fEntityType f));
            n = (case map_of counts (fEntityType f) of None \<Rightarrow> 0 | Some k \<Rightarrow> k)
        in replaceFindings r fs (take a out @ repl @ drop b out) (AList.update (fEntityType f) (n + 1) counts))"

fun detectorEntries ::
  "Redactor \<Rightarrow> string \<Rightarrow> (string \<times> int) list \<Rightarrow> ManifestEntry list \<Rightarrow> RedactStats \<Rightarrow> ManifestEntry list \<times> RedactStats"
where
  "detectorEntries r path [] ents st = (ents, st)"
| "detectorEntries r path ((t, n) # rest) ents st =
     detectorEntries r path rest
       (ents @ [\<lparr>meRuleID = ''detector:'' @ t, mePath = path, meAction = detectAction r, meMatches = n\<rparr>])
       (countMatch (''detector:'' @ t) n st)"

definition applyDetector ::
  "Redactor \<Rightarrow> (string \<Rightarrow> Finding list option) \<Rightarrow> string \<Rightarrow> string \<Rightarrow> RedactStats
     \<Rightarrow> (redactError + string \<times> ManifestEntry list) \<times> RedactStats"
where
  "applyDetector r detect path value st =
     (case detect value of
        None \<Rightarrow> (Inl DetectorFailed, countError ''detector'' st)
      | Some found \<Rightarrow>
          (case sort_key fStart found of
             [] \<Rightarrow> (Inr (value, []), st)
           | f # fs \<Rightarrow>
               (case replaceFindings r (rev (mergeFindings f fs)) value [] of
                  Inl DetectorNeedsKey \<Rightarrow> (Inl DetectorNeedsKey, countError ''detector'' st)
                | Inl e \<Rightarrow> (Inl e, st)
                | Inr (out, counts) \<Rightarrow>
                    (case detectorEntries r path (sort_key fst counts) [] st of
                       (ents, st1) \<Rightarrow> (Inr (out, ents), st1)))))"

section \<open>Fields and episodes\<close>

definition dropEntry :: "string \<Rightarrow> string \<Rightarrow> ManifestEntry" where
  "dropEntry i path = \<lparr>meRuleID = i, mePath = path, meAction = ActionDrop, meMatches = 1\<rparr>"

definition applyField ::
  "(string \<Rightarrow> json option) \<Rightarrow> Redactor \<Rightarrow> string \<Rightarrow> string \<Rightarrow> RedactStats
     \<Rightarrow> (redactError + string \<times> ManifestEntry list) \<times> RedactStats"
where
  "applyField parse r path value st =
     (if metadataOnly r then (Inr ([], [dropEntry ''metadata_only'' path]), st)
      else if matchAny (deny r) path then (Inr ([], [dropEntry ''explicit:deny'' path]), st)
      else if denyDefault r \<and> \<not> matchAny (allow r) path then (Inr ([], [dropEntry ''default:deny'' path]), st)
      else
        case applyRules parse r path (rules r) value [] st of
          (Inl e, st1) \<Rightarrow> (Inl e, st1)
        | (Inr (out, ents), st1) \<Rightarrow>
            (case detector r of
               None \<Rightarrow> (Inr (out, ents), st1)
             | Some detect \<Rightarrow>
                 if out = [] then (Inr (out, ents), st1)
                 else
                   (case applyDetector r detect path out st1 of
                      (Inl e, st2) \<Rightarrow> (Inl e, st2)
                    | (Inr (out', ents'), st2) \<Rightarrow> (Inr (out', ents @ ents'), st2))))"

text \<open>The loop over the sorted keys of a raw map, with the prefix of its field paths.\<close>

fun applyRaw ::
  "(string \<Rightarrow> json option) \<Rightarrow> Redactor \<Rightarrow> string \<Rightarrow> string list \<Rightarrow> (string, string) gomap \<Rightarrow> ManifestEntry list
     \<Rightarrow> RedactStats \<Rightarrow> (redactError + (string, string) gomap \<times> ManifestEntry list) \<times> RedactStats"
where
  "applyRaw parse r pre [] m ents st = (Inr (m, ents), st)"
| "applyRaw parse r pre (k # ks) m ents st =
     (case applyField parse r (pre @ k) (case map_of m k of None \<Rightarrow> [] | Some v \<Rightarrow> v) st of
        (Inl e, st1) \<Rightarrow> (Inl e, st1)
      | (Inr (out, es), st1) \<Rightarrow>
          applyRaw parse r pre ks (if out = [] then AList.delete k m else AList.update k out m) (ents @ es) st1)"

definition sortedKeys :: "(string, string) gomap \<Rightarrow> string list" where
  "sortedKeys m = sort (map fst m)"

definition stepPath :: "nat \<Rightarrow> string" where
  "stepPath i = ''steps['' @ nat_digits i @ ''].''"

definition applyStep ::
  "(string \<Rightarrow> json option) \<Rightarrow> Redactor \<Rightarrow> nat \<Rightarrow> Step \<Rightarrow> ManifestEntry list \<Rightarrow> RedactStats
     \<Rightarrow> (redactError + Step \<times> ManifestEntry list) \<times> RedactStats"
where
  "applyStep parse r i s ents st =
     (case (case stContentInline s of
              None \<Rightarrow> (Inr (s, ents), st)
            | Some c \<Rightarrow>
                (case applyField parse r (stepPath i @ ''content_inline'') c st of
                   (Inl e, st1) \<Rightarrow> (Inl e, st1)
                 | (Inr (out, es), st1) \<Rightarrow>
                     (Inr (s\<lparr>stContentInline := (if out = [] then None else Some out)\<rparr>, ents @ es), st1))) of
        (Inl e, st1) \<Rightarrow> (Inl e, st1)
      | (Inr (s1, ents1), st1) \<Rightarrow>
          (case applyRaw parse r (stepPath i @ ''raw.'') (sortedKeys (stRaw s1)) (stRaw s1) ents1 st1 of
             (Inl e, st2) \<Rightarrow> (Inl e, st2)
           | (Inr (m, ents2), st2) \<Rightarrow> (Inr (s1\<lparr>stRaw := m\<rparr>, ents2), st2)))"

fun applySteps ::
  "(string \<Rightarrow> json option) \<Rightarrow> Redactor \<Rightarrow> nat \<Rightarrow> Step list \<Rightarrow> ManifestEntry list \<Rightarrow> RedactStats
     \<Rightarrow> (redactError + Step list \<times> ManifestEntry list) \<times> RedactStats"
where
  "applySteps parse r i [] ents st = (Inr ([], ents), st)"
| "applySteps parse r i (s # ss) ents st =
     (case applyStep parse r i s ents st of
        (Inl e, st1) \<Rightarrow> (Inl e, st1)
      | (Inr (s', ents1), st1) \<Rightarrow>
          (case applySteps parse r (i + 1) ss ents1 st1 of
             (Inl e, st2) \<Rightarrow> (Inl e, st2)
           | (Inr (ss', ents2), st2) \<Rightarrow> (Inr (s' # ss', ents2), st2)))"

definition applyPolicy ::
  "(string \<Rightarrow> json option) \<Rightarrow> Redactor \<Rightarrow> Assembled \<Rightarrow> RedactStats
     \<Rightarrow> (redactError + Assembled \<times> ManifestEntry list) \<times> RedactStats"
where
  "applyPolicy parse r ep st =
     (case applySteps parse r 0 (asSteps ep) [] st of
        (Inl e, st1) \<Rightarrow> (Inl e, st1)
      | (Inr (ss, ents), st1) \<Rightarrow>
          (case applyRaw parse r ''episode.raw.'' (sortedKeys (epRaw (asEpisode ep))) (epRaw (asEpisode ep)) ents st1 of
             (Inl e, st2) \<Rightarrow> (Inl e, st2)
           | (Inr (m, ents2), st2) \<Rightarrow>
               (Inr (ep\<lparr>asSteps := ss, asEpisode := (asEpisode ep)\<lparr>epRaw := m\<rparr>\<rparr>, ents2), st2)))"

text \<open>\<^verbatim>\<open>Process\<close>: the error or the redacted episode, the manifest handed on, and the counters.\<close>

definition Process ::
  "(string \<Rightarrow> json option) \<Rightarrow> Redactor \<Rightarrow> Assembled \<Rightarrow> RedactStats
     \<Rightarrow> (redactError + Assembled \<times> Manifest option) \<times> RedactStats"
where
  "Process parse r ep st =
     (case applyPolicy parse r ep st of
        (Inl e, st1) \<Rightarrow> (Inl e, countQuarantine st1)
      | (Inr (ep', ents), st1) \<Rightarrow>
          (Inr (ep', if onManifest r
                     then Some \<lparr>mfEpisodeID = epEpisodeID (asEpisode ep'),
                                mfEntries = sort_key (\<lambda>e. (mePath e, meRuleID e)) ents\<rparr>
                     else None), st1))"

definition Preview ::
  "(string \<Rightarrow> json option) \<Rightarrow> Redactor \<Rightarrow> Assembled \<Rightarrow> RedactStats \<Rightarrow> (redactError + ManifestEntry list) \<times> RedactStats"
where
  "Preview parse r ep st =
     (case applyPolicy parse r ep st of
        (Inl e, st1) \<Rightarrow> (Inl e, st1)
      | (Inr (_, ents), st1) \<Rightarrow> (Inr ents, st1))"

fun transformRules :: "Redactor \<Rightarrow> Rule list \<Rightarrow> string \<Rightarrow> redactError + string" where
  "transformRules r [] out = Inr out"
| "transformRules r (rule # rest) out =
     (case (ruleRe rule, rulePath rule) of
        (Some re, None) \<Rightarrow>
          if \<not> MatchString re out then transformRules r rest out
          else (case applyAction r rule re out of Inl e \<Rightarrow> Inl e | Inr nxt \<Rightarrow> transformRules r rest nxt)
      | _ \<Rightarrow> transformRules r rest out)"

definition TransformKey :: "Redactor \<Rightarrow> string \<Rightarrow> redactError + string" where
  "TransformKey r value = transformRules r (rules r) value"

section \<open>Construction\<close>

record RuleConfig =
  rcID :: string
  rcRegex :: string
  rcPath :: string
  rcAction :: string
  rcFields :: "string list"

record DetectorConfig =
  dcEndpoint :: string
  dcMinScore :: rat
  dcAction :: string

record RedactionConfig =
  rdDefault :: string
  rdAllow :: "string list"
  rdDeny :: "string list"
  rdRules :: "RuleConfig list"
  rdDetector :: DetectorConfig
  rdMetadataOnly :: bool

definition orDefault :: "string \<Rightarrow> string \<Rightarrow> string" where
  "orDefault s d = (if s = [] then d else s)"

definition compileRule ::
  "(string \<Rightarrow> Regexp option) \<Rightarrow> (string \<Rightarrow> JsonPath option) \<Rightarrow> RuleConfig \<Rightarrow> redactError + Rule"
where
  "compileRule compile parsePath rc =
     (if rcRegex rc \<noteq> [] \<and> compile (rcRegex rc) = None then Inl (BadRegex (rcID rc))
      else if rcPath rc \<noteq> [] \<and> parsePath (rcPath rc) = None then Inl (BadPath (rcID rc))
      else if rcRegex rc = [] \<and> rcPath rc = [] then Inl (MatchesNothing (rcID rc))
      else Inr \<lparr>ruleID = rcID rc,
                ruleRe = (if rcRegex rc = [] then None else compile (rcRegex rc)),
                rulePath = (if rcPath rc = [] then None else parsePath (rcPath rc)),
                ruleAction = rcAction rc, ruleFields = rcFields rc\<rparr>)"

fun redactRules ::
  "(string \<Rightarrow> Regexp option) \<Rightarrow> (string \<Rightarrow> JsonPath option) \<Rightarrow> RuleConfig list \<Rightarrow> redactError + Rule list"
where
  "redactRules compile parsePath [] = Inr []"
| "redactRules compile parsePath (rc # rcs) =
     (case compileRule compile parsePath rc of
        Inl e \<Rightarrow> Inl e
      | Inr rule \<Rightarrow>
          (case redactRules compile parsePath rcs of Inl e \<Rightarrow> Inl e | Inr rs \<Rightarrow> Inr (rule # rs)))"

definition NewRedactor ::
  "(string \<Rightarrow> Regexp option) \<Rightarrow> (string \<Rightarrow> JsonPath option) \<Rightarrow> (string \<Rightarrow> Finding list option) \<Rightarrow> RedactionConfig
     \<Rightarrow> byte list \<Rightarrow> bool \<Rightarrow> redactError + Redactor"
where
  "NewRedactor compile parsePath service cfg key withManifest =
     (case redactRules compile parsePath (rdRules cfg) of
        Inl e \<Rightarrow> Inl e
      | Inr rs \<Rightarrow>
          Inr \<lparr>rules = rs, allow = rdAllow cfg, deny = rdDeny cfg, denyDefault = (rdDefault cfg = ''deny''),
               metadataOnly = rdMetadataOnly cfg, tokenKey = key,
               keyID = (if key = [] then [] else hex_encode (take 4 (sha256 key))),
               onManifest = withManifest,
               detector = (if dcEndpoint (rdDetector cfg) = [] then None
                           else Some (PresidioDetect service (dcMinScore (rdDetector cfg)))),
               detectAction = (if dcEndpoint (rdDetector cfg) = [] then []
                               else orDefault (dcAction (rdDetector cfg)) ActionTokenize)\<rparr>)"

definition SetDetector :: "(string \<Rightarrow> Finding list option) \<Rightarrow> string \<Rightarrow> Redactor \<Rightarrow> Redactor" where
  "SetDetector d action r = r\<lparr>detector := Some d, detectAction := orDefault action ActionTokenize\<rparr>"

end
