(* ===== verification/Redact_Props.thy ===== *)
theory Redact_Props
  imports Redact
begin

text \<open>
  What redaction guarantees of the episodes it lets through, of its manifest, of the entity
  detector's rewriting, and of entity keys.
\<close>

section \<open>What survives\<close>

text \<open>The policy admits a field path; a value is what the policy made of an original one.\<close>

definition admitted :: "Redactor \<Rightarrow> string \<Rightarrow> bool" where
  "admitted r path \<longleftrightarrow> \<not> metadataOnly r \<and> \<not> matchAny (deny r) path \<and> (denyDefault r \<longrightarrow> matchAny (allow r) path)"

definition redactedFrom :: "(string \<Rightarrow> json option) \<Rightarrow> Redactor \<Rightarrow> string \<Rightarrow> string \<Rightarrow> string \<Rightarrow> bool" where
  "redactedFrom parse r path v out \<longleftrightarrow>
     admitted r path \<and> out \<noteq> [] \<and> (\<exists>st ents st'. applyField parse r path v st = (Inr (out, ents), st'))"

lemma applyField_redacted:
  assumes "applyField parse r path v st = (Inr (out, ents), st')" and "out \<noteq> []"
  shows "redactedFrom parse r path v out"
proof -
  have "admitted r path"
    using assms by (auto simp: applyField_def admitted_def split: if_splits)
  with assms show ?thesis unfolding redactedFrom_def by blast
qed

lemma applyRaw_spec:
  assumes "applyRaw parse r pre ks m ents st = (Inr (m', ents'), st')" and "distinct ks"
    and "map_of m' k = Some v"
  shows "(if k \<in> set ks then redactedFrom parse r (pre @ k) (case map_of m k of None \<Rightarrow> [] | Some v0 \<Rightarrow> v0) v
          else map_of m k = Some v)"
  using assms
proof (induction ks arbitrary: m ents st)
  case (Cons k1 ks)
  obtain out es st1 where f: "applyField parse r (pre @ k1) (case map_of m k1 of None \<Rightarrow> [] | Some v0 \<Rightarrow> v0) st
      = (Inr (out, es), st1)"
    using Cons.prems(1) by (auto split: prod.splits sum.splits)
  define m1 where "m1 = (if out = [] then AList.delete k1 m else AList.update k1 out m)"
  have m1: "map_of m1 = (map_of m)(k1 := (if out = [] then None else Some out))"
    by (auto simp: m1_def delete_conv')
  have "applyRaw parse r pre ks m1 (ents @ es) st1 = (Inr (m', ents'), st')"
    using Cons.prems(1) f by (simp add: m1_def)
  from Cons.IH [OF this _ Cons.prems(3)] Cons.prems(2)
  have IH: "if k \<in> set ks then redactedFrom parse r (pre @ k) (case map_of m1 k of None \<Rightarrow> [] | Some v0 \<Rightarrow> v0) v
      else map_of m1 k = Some v" by simp
  show ?case
  proof (cases "k = k1")
    case True
    then have "k \<notin> set ks" using Cons.prems(2) by simp
    then have "out = v" and "out \<noteq> []" using IH m1 True by (auto split: if_splits)
    then show ?thesis using applyField_redacted [OF f] True by simp
  next
    case False
    then have "map_of m1 k = map_of m k" using m1 by simp
    then show ?thesis using IH False by (auto split: if_splits)
  qed
qed simp

definition wfMap :: "(string, string) gomap \<Rightarrow> bool" where
  "wfMap m \<longleftrightarrow> distinct (map fst m)"

lemma applyRaw_all:
  assumes "applyRaw parse r pre (sortedKeys m) m ents st = (Inr (m', ents'), st')" and "wfMap m"
    and "map_of m' k = Some v"
  shows "\<exists>v0. map_of m k = Some v0 \<and> redactedFrom parse r (pre @ k) v0 v"
proof -
  have d: "distinct (sortedKeys m)" and s: "set (sortedKeys m) = fst ` set m"
    using assms(2) by (simp_all add: sortedKeys_def wfMap_def)
  note S = applyRaw_spec [OF assms(1) d assms(3)]
  show ?thesis
  proof (cases "k \<in> fst ` set m")
    case True
    then obtain v0 where "map_of m k = Some v0" by (metis map_of_eq_None_iff not_None_eq)
    then show ?thesis using S True s by auto
  next
    case False
    then have "map_of m k = None" by (simp add: map_of_eq_None_iff)
    then show ?thesis using S False s by simp
  qed
qed

text \<open>A redacted step: what is left of its payload and of its unmapped attributes.\<close>

definition stepRedacted :: "(string \<Rightarrow> json option) \<Rightarrow> Redactor \<Rightarrow> nat \<Rightarrow> Step \<Rightarrow> Step \<Rightarrow> bool" where
  "stepRedacted parse r i s s' \<longleftrightarrow>
     (\<forall>c. stContentInline s' = Some c \<longrightarrow>
        (\<exists>c0. stContentInline s = Some c0 \<and> redactedFrom parse r (stepPath i @ ''content_inline'') c0 c)) \<and>
     (\<forall>k v. map_of (stRaw s') k = Some v \<longrightarrow>
        (\<exists>v0. map_of (stRaw s) k = Some v0 \<and> redactedFrom parse r (stepPath i @ ''raw.'' @ k) v0 v)) \<and>
     s' = s\<lparr>stContentInline := stContentInline s', stRaw := stRaw s'\<rparr>"

lemma applyStep_redacted:
  assumes "applyStep parse r i s ents st = (Inr (s', ents'), st')" and "wfMap (stRaw s)"
  shows "stepRedacted parse r i s s'"
proof -
  obtain s1 ents1 st1 where c: "(case stContentInline s of
              None \<Rightarrow> (Inr (s, ents), st)
            | Some c \<Rightarrow>
                (case applyField parse r (stepPath i @ ''content_inline'') c st of
                   (Inl e, st1) \<Rightarrow> (Inl e, st1)
                 | (Inr (out, es), st1) \<Rightarrow>
                     (Inr (s\<lparr>stContentInline := (if out = [] then None else Some out)\<rparr>, ents @ es), st1)))
      = (Inr (s1, ents1), st1)"
    and m: "\<exists>m ents2. applyRaw parse r (stepPath i @ ''raw.'') (sortedKeys (stRaw s1)) (stRaw s1) ents1 st1
        = (Inr (m, ents2), st') \<and> s' = s1\<lparr>stRaw := m\<rparr>"
    using assms(1) unfolding applyStep_def by (auto split: prod.splits sum.splits)
  have s1: "s1 = s\<lparr>stContentInline := stContentInline s1\<rparr>" "stRaw s1 = stRaw s"
    "\<forall>x. stContentInline s1 = Some x \<longrightarrow> (\<exists>c0. stContentInline s = Some c0
        \<and> redactedFrom parse r (stepPath i @ ''content_inline'') c0 x)"
    using c applyField_redacted by (auto split: option.splits prod.splits sum.splits if_splits)
  obtain m' ents2 where r: "applyRaw parse r (stepPath i @ ''raw.'') (sortedKeys (stRaw s1)) (stRaw s1) ents1 st1
        = (Inr (m', ents2), st')" "s' = s1\<lparr>stRaw := m'\<rparr>" using m by blast
  have raw: "\<exists>v0. map_of (stRaw s) k = Some v0 \<and> redactedFrom parse r (stepPath i @ ''raw.'' @ k) v0 v"
    if "map_of m' k = Some v" for k v
    using applyRaw_all [OF r(1) _ that] assms(2) s1(2) by simp
  have "s' = s\<lparr>stContentInline := stContentInline s', stRaw := stRaw s'\<rparr>"
    unfolding r(2) by (subst s1(1)) simp
  then show ?thesis unfolding stepRedacted_def using s1(3) raw r(2) by simp
qed

lemma applySteps_redacted:
  "applySteps parse r i ss ents st = (Inr (ss', ents'), st') \<Longrightarrow> \<forall>s \<in> set ss. wfMap (stRaw s) \<Longrightarrow>
    length ss' = length ss \<and> (\<forall>j < length ss. stepRedacted parse r (i + j) (ss ! j) (ss' ! j))"
proof (induction ss arbitrary: i ents st ss')
  case (Cons s ss)
  obtain s1 ents1 st1 where a: "applyStep parse r i s ents st = (Inr (s1, ents1), st1)"
    using Cons.prems(1) by (auto split: prod.splits sum.splits)
  then obtain ss1 where b: "applySteps parse r (i + 1) ss ents1 st1 = (Inr (ss1, ents'), st')" "ss' = s1 # ss1"
    using Cons.prems(1) by (auto split: prod.splits sum.splits)
  show ?case
    using Cons.IH [OF b(1)] applyStep_redacted [OF a] Cons.prems(2) b(2)
    by (auto simp: less_Suc_eq_0_disj)
qed simp

definition wfEpisode :: "Assembled \<Rightarrow> bool" where
  "wfEpisode ep \<longleftrightarrow> wfMap (epRaw (asEpisode ep)) \<and> (\<forall>s \<in> set (asSteps ep). wfMap (stRaw s))"

text \<open>
  C7. Redaction fails closed: when \<^verbatim>\<open>Process\<close> lets an episode through, every inline payload and every
  unmapped attribute of it, of its steps and of the episode, is on a path the policy admits (never
  in metadata-only mode, not denied, and allowed when the default is to deny) and is exactly what
  the policy made of the original value; nothing else of a step changed. When it does not, the
  episode is an error and is counted as quarantined.
\<close>

theorem redaction_fails_closed:
  assumes "wfEpisode ep" and "Process parse r ep st = (res, st')"
  shows "case res of
      Inl e \<Rightarrow> (\<exists>st1. applyPolicy parse r ep st = (Inl e, st1) \<and> rsQuarantined st' = rsQuarantined st1 + 1)
    | Inr (ep', mf) \<Rightarrow>
        length (asSteps ep') = length (asSteps ep) \<and>
        (\<forall>i < length (asSteps ep). stepRedacted parse r i (asSteps ep ! i) (asSteps ep' ! i)) \<and>
        (\<forall>k v. map_of (epRaw (asEpisode ep')) k = Some v \<longrightarrow>
           (\<exists>v0. map_of (epRaw (asEpisode ep)) k = Some v0 \<and> redactedFrom parse r (''episode.raw.'' @ k) v0 v)) \<and>
        (asEpisode ep') = (asEpisode ep)\<lparr>epRaw := epRaw (asEpisode ep')\<rparr>"
proof (cases "applyPolicy parse r ep st")
  case (Pair pr st1)
  show ?thesis
  proof (cases pr)
    case (Inl e)
    then show ?thesis using Pair assms(2) by (auto simp: Process_def countQuarantine_def)
  next
    case (Inr q)
    obtain ep' ents where q: "q = (ep', ents)" by (cases q)
    obtain ss ents1 st2 where s: "applySteps parse r 0 (asSteps ep) [] st = (Inr (ss, ents1), st2)"
      using Pair Inr by (auto simp: applyPolicy_def split: prod.splits sum.splits)
    then obtain m where m: "applyRaw parse r ''episode.raw.'' (sortedKeys (epRaw (asEpisode ep))) (epRaw (asEpisode ep))
        ents1 st2 = (Inr (m, ents), st1)" "ep' = ep\<lparr>asSteps := ss, asEpisode := (asEpisode ep)\<lparr>epRaw := m\<rparr>\<rparr>"
      using Pair Inr q by (auto simp: applyPolicy_def split: prod.splits sum.splits)
    have res: "\<exists>mf. res = Inr (ep', mf)" using assms(2) Pair Inr q by (auto simp: Process_def)
    show ?thesis
      using res applySteps_redacted [OF s] applyRaw_all [OF m(1)] assms(1) m(2)
      by (auto simp: wfEpisode_def)
  qed
qed

section \<open>The manifest\<close>

text \<open>The field paths of an episode, and what a manifest entry for a policy may say.\<close>

definition entryOf :: "Redactor \<Rightarrow> string \<Rightarrow> ManifestEntry \<Rightarrow> bool" where
  "entryOf r path e \<longleftrightarrow> mePath e = path \<and>
     (meRuleID e \<in> {''metadata_only'', ''explicit:deny'', ''default:deny''} \<and> meAction e = ActionDrop
      \<or> (\<exists>rule \<in> set (rules r). meRuleID e = ruleID rule \<and> meAction e = ruleAction rule)
      \<or> has_prefix (meRuleID e) ''detector:'' \<and> meAction e = detectAction r)"

definition fieldPaths :: "Assembled \<Rightarrow> string set" where
  "fieldPaths ep =
     {stepPath i @ ''content_inline'' |i. i < length (asSteps ep)}
     \<union> {stepPath i @ ''raw.'' @ k |i k. i < length (asSteps ep) \<and> k \<in> fst ` set (stRaw (asSteps ep ! i))}
     \<union> {''episode.raw.'' @ k |k. k \<in> fst ` set (epRaw (asEpisode ep))}"

lemma applyRules_entries:
  "applyRules parse r path rls out ents st = (Inr (out', ents'), st') \<Longrightarrow> set rls \<subseteq> set (rules r) \<Longrightarrow>
    \<forall>e \<in> set ents. entryOf r path e \<Longrightarrow> \<forall>e \<in> set ents'. entryOf r path e"
proof (induction parse r path rls out ents st rule: applyRules.induct)
  case (2 parse r path rule rest out ents st)
  have new: "entryOf r path \<lparr>meRuleID = ruleID rule, mePath = path, meAction = ruleAction rule, meMatches = n\<rparr>" for n
    using 2(8) by (auto simp: entryOf_def)
  show ?case
    using 2 new by (auto simp: Let_def split: if_splits option.splits sum.splits prod.splits)
qed simp

lemma detectorEntries_entries:
  "detectorEntries r path ks ents st = (ents', st') \<Longrightarrow> \<forall>e \<in> set ents. entryOf r path e \<Longrightarrow>
    \<forall>e \<in> set ents'. entryOf r path e"
proof (induction r path ks ents st rule: detectorEntries.induct)
  case (2 r path t n rest ents st)
  have "entryOf r path \<lparr>meRuleID = ''detector:'' @ t, mePath = path, meAction = detectAction r, meMatches = n\<rparr>"
    by (simp add: entryOf_def has_prefix_def)
  then show ?case using 2 by auto
qed simp

lemma applyField_entries:
  assumes "applyField parse r path v st = (Inr (out, ents), st')"
  shows "\<forall>e \<in> set ents. entryOf r path e"
proof -
  have d: "\<forall>e \<in> set es. entryOf r path e" if det: "applyDetector r detect path x s = (Inr (o1, es), s')" for detect x s o1 es s'
  proof -
    consider "es = []" | ks where "detectorEntries r path ks [] s = (es, s')"
      using det by (auto simp: applyDetector_def split: option.splits list.splits sum.splits prod.splits redactError.splits)
    then show ?thesis by cases (simp, drule detectorEntries_entries, simp_all)
  qed
  have k: "entryOf r path (dropEntry i path)" if "i \<in> {''metadata_only'', ''explicit:deny'', ''default:deny''}" for i
    using that by (auto simp: entryOf_def dropEntry_def)
  consider i where "i \<in> {''metadata_only'', ''explicit:deny'', ''default:deny''}" "ents = [dropEntry i path]"
    | o1 st1 where "applyRules parse r path (rules r) v [] st = (Inr (o1, ents), st1)"
    | o1 es1 st1 detect es2 where "applyRules parse r path (rules r) v [] st = (Inr (o1, es1), st1)"
        "applyDetector r detect path o1 st1 = (Inr (out, es2), st')" "ents = es1 @ es2"
    using assms by (auto simp: applyField_def split: if_splits prod.splits sum.splits option.splits)
  then show ?thesis
  proof cases
    case 1
    then show ?thesis using k by simp
  next
    case 2
    then show ?thesis using applyRules_entries [OF 2] by simp
  next
    case 3
    then show ?thesis using applyRules_entries [OF 3(1)] d [OF 3(2)] by auto
  qed
qed

text \<open>Entries that speak of paths of a given set.\<close>

definition entriesIn :: "Redactor \<Rightarrow> string set \<Rightarrow> ManifestEntry list \<Rightarrow> bool" where
  "entriesIn r paths ents \<longleftrightarrow> (\<forall>e \<in> set ents. \<exists>path \<in> paths. entryOf r path e)"

lemma entriesIn_append [simp]: "entriesIn r P (xs @ ys) \<longleftrightarrow> entriesIn r P xs \<and> entriesIn r P ys"
  by (auto simp: entriesIn_def)

lemma entriesIn_field:
  "applyField parse r path v st = (Inr (out, ents), st') \<Longrightarrow> path \<in> P \<Longrightarrow> entriesIn r P ents"
  using applyField_entries unfolding entriesIn_def by blast

lemma applyRaw_entries:
  "applyRaw parse r pre ks m ents st = (Inr (m', ents'), st') \<Longrightarrow> entriesIn r P ents \<Longrightarrow>
    \<forall>k \<in> set ks. pre @ k \<in> P \<Longrightarrow> entriesIn r P ents'"
proof (induction ks arbitrary: m ents st)
  case (Cons k ks)
  obtain out es st1 where f: "applyField parse r (pre @ k) (case map_of m k of None \<Rightarrow> [] | Some v0 \<Rightarrow> v0) st
      = (Inr (out, es), st1)"
    using Cons.prems(1) by (auto split: prod.splits sum.splits)
  have "entriesIn r P es" using entriesIn_field [OF f] Cons.prems(3) by simp
  then show ?case using Cons.IH Cons.prems f by auto
qed simp

lemma applyStep_entries:
  assumes "applyStep parse r i s ents st = (Inr (s', ents'), st')" and "entriesIn r P ents"
    and "stepPath i @ ''content_inline'' \<in> P" and "\<forall>k \<in> fst ` set (stRaw s). stepPath i @ ''raw.'' @ k \<in> P"
  shows "entriesIn r P ents'"
proof -
  let ?c = "case stContentInline s of
              None \<Rightarrow> (Inr (s, ents), st)
            | Some c \<Rightarrow>
                (case applyField parse r (stepPath i @ ''content_inline'') c st of
                   (Inl e, st1) \<Rightarrow> (Inl e, st1)
                 | (Inr (out, es), st1) \<Rightarrow>
                     (Inr (s\<lparr>stContentInline := (if out = [] then None else Some out)\<rparr>, ents @ es), st1))"
  obtain s1 ents1 st1 m where c: "?c = (Inr (s1, ents1), st1)"
    and m: "applyRaw parse r (stepPath i @ ''raw.'') (sortedKeys (stRaw s1)) (stRaw s1) ents1 st1 = (Inr (m, ents'), st')"
    using assms(1) unfolding applyStep_def by (auto split: prod.splits sum.splits)
  have "entriesIn r P ents1" and "stRaw s1 = stRaw s"
    using c assms(2) entriesIn_field [where P = P, OF _ assms(3)]
    by (auto split: option.splits prod.splits sum.splits)
  then show ?thesis
    using applyRaw_entries [OF m] assms(4) by (simp add: sortedKeys_def)
qed

lemma applySteps_entries:
  "applySteps parse r i ss ents st = (Inr (ss', ents'), st') \<Longrightarrow> entriesIn r P ents \<Longrightarrow>
    \<forall>j < length ss. stepPath (i + j) @ ''content_inline'' \<in> P
      \<and> (\<forall>k \<in> fst ` set (stRaw (ss ! j)). stepPath (i + j) @ ''raw.'' @ k \<in> P) \<Longrightarrow>
    entriesIn r P ents'"
proof (induction ss arbitrary: i ents st ss')
  case (Cons s ss)
  obtain s1 ents1 st1 where a: "applyStep parse r i s ents st = (Inr (s1, ents1), st1)"
    using Cons.prems(1) by (auto split: prod.splits sum.splits)
  then obtain ss1 where b: "applySteps parse r (i + 1) ss ents1 st1 = (Inr (ss1, ents'), st')"
    using Cons.prems(1) by (auto split: prod.splits sum.splits)
  have "entriesIn r P ents1"
    using applyStep_entries [OF a Cons.prems(2)] Cons.prems(3) by fastforce
  moreover have "\<forall>j < length ss. stepPath (i + 1 + j) @ ''content_inline'' \<in> P
      \<and> (\<forall>k \<in> fst ` set (stRaw (ss ! j)). stepPath (i + 1 + j) @ ''raw.'' @ k \<in> P)"
  proof (intro allI impI)
    fix j
    assume "j < length ss"
    then show "stepPath (i + 1 + j) @ ''content_inline'' \<in> P
      \<and> (\<forall>k \<in> fst ` set (stRaw (ss ! j)). stepPath (i + 1 + j) @ ''raw.'' @ k \<in> P)"
      using Cons.prems(3) [rule_format, of "Suc j"] by simp
  qed
  ultimately show ?case using Cons.IH [OF b] by blast
qed simp

text \<open>
  The manifest carries no payload: every entry handed to the callback names a field path of the
  episode and either one of the three built-in rules, a rule of the policy with that rule's
  action, or an entity type of the detector, and the entries are sorted by path and rule.
\<close>

theorem manifest_names_policy_only:
  assumes "Process parse r ep st = (Inr (ep', Some mf), st')"
  shows "mfEpisodeID mf = epEpisodeID (asEpisode ep) \<and>
    (\<forall>e \<in> set (mfEntries mf). \<exists>path \<in> fieldPaths ep. entryOf r path e) \<and>
    sorted (map (\<lambda>e. (mePath e, meRuleID e)) (mfEntries mf))"
proof -
  obtain ents st1 where p: "applyPolicy parse r ep st = (Inr (ep', ents), st1)"
    and mf: "mf = \<lparr>mfEpisodeID = epEpisodeID (asEpisode ep'), mfEntries = sort_key (\<lambda>e. (mePath e, meRuleID e)) ents\<rparr>"
    using assms by (auto simp: Process_def split: prod.splits sum.splits if_splits)
  obtain ss ents1 st2 m where s: "applySteps parse r 0 (asSteps ep) [] st = (Inr (ss, ents1), st2)"
    and m: "applyRaw parse r ''episode.raw.'' (sortedKeys (epRaw (asEpisode ep))) (epRaw (asEpisode ep))
        ents1 st2 = (Inr (m, ents), st1)" "ep' = ep\<lparr>asSteps := ss, asEpisode := (asEpisode ep)\<lparr>epRaw := m\<rparr>\<rparr>"
    using p by (auto simp: applyPolicy_def split: prod.splits sum.splits)
  have "entriesIn r (fieldPaths ep) ents1"
    by (rule applySteps_entries [OF s]) (auto simp: entriesIn_def fieldPaths_def)
  then have "entriesIn r (fieldPaths ep) ents"
    by (rule applyRaw_entries [OF m(1)]) (auto simp: fieldPaths_def sortedKeys_def)
  then show ?thesis using mf m(2) by (simp add: entriesIn_def)
qed

section \<open>The detector\<close>

definition rangeOf :: "Finding \<Rightarrow> nat \<times> nat" where
  "rangeOf f = (nat (fStart f), nat (fEnd f))"

definition covers :: "Finding list \<Rightarrow> int \<Rightarrow> bool" where
  "covers fs i \<longleftrightarrow> (\<exists>f \<in> set fs. fStart f \<le> i \<and> i < fEnd f)"

definition inRange :: "string \<Rightarrow> Finding \<Rightarrow> bool" where
  "inRange s f \<longleftrightarrow> 0 \<le> fStart f \<and> fStart f < fEnd f \<and> fEnd f \<le> int (length s)"

text \<open>Merged findings are in order and disjoint and cover what the findings covered.\<close>

lemma mergeFindings_spec:
  assumes "\<forall>f \<in> set (l # fs). inRange s f" and "sorted (map fStart (l # fs))"
  shows "(\<forall>f \<in> set (mergeFindings l fs). inRange s f) \<and>
    sorted_wrt (\<lambda>f g. fEnd f \<le> fStart g) (mergeFindings l fs) \<and>
    (\<forall>g \<in> set (mergeFindings l fs). fStart l \<le> fStart g) \<and>
    (\<forall>i. covers (mergeFindings l fs) i \<longleftrightarrow> covers (l # fs) i)"
  using assms
proof (induction l fs rule: mergeFindings.induct)
  case (1 l)
  then show ?case by simp
next
  case (2 l f fs)
  show ?case
  proof (cases "fStart f < fEnd l")
    case True
    define l' where "l' = (if fEnd f > fEnd l then l\<lparr>fEnd := fEnd f\<rparr> else l)"
    have start: "fStart l' = fStart l" by (simp add: l'_def)
    have "\<forall>g \<in> set (l' # fs). inRange s g" "sorted (map fStart (l' # fs))"
      using 2(3,4) by (auto simp: l'_def inRange_def)
    from 2(1) [OF True, folded l'_def, OF this]
    have IH: "(\<forall>g \<in> set (mergeFindings l' fs). inRange s g) \<and>
      sorted_wrt (\<lambda>f g. fEnd f \<le> fStart g) (mergeFindings l' fs) \<and>
      (\<forall>g \<in> set (mergeFindings l' fs). fStart l \<le> fStart g) \<and>
      (\<forall>i. covers (mergeFindings l' fs) i \<longleftrightarrow> covers (l' # fs) i)" using start by simp
    have "covers (l' # fs) i \<longleftrightarrow> covers (l # f # fs) i" for i
      using True 2(4) by (auto simp: covers_def l'_def)
    then show ?thesis using IH True by (simp add: l'_def [symmetric])
  next
    case False
    have prem: "\<forall>g \<in> set (f # fs). inRange s g" "sorted (map fStart (f # fs))"
      using 2(3,4) by auto
    note IH = 2(2) [OF False prem]
    have "\<forall>g \<in> set (mergeFindings f fs). fEnd l \<le> fStart g" using IH False by fastforce
    then show ?thesis
      using IH False 2(3,4) by (auto simp: covers_def inRange_def)
  qed
qed

text \<open>The reference: render a value from left to right, replacing each finding.\<close>

fun render :: "(Finding \<Rightarrow> string) \<Rightarrow> string \<Rightarrow> nat \<Rightarrow> Finding list \<Rightarrow> string" where
  "render f s pos [] = drop pos s"
| "render f s pos (g # gs) = slice pos (nat (fStart g)) s @ f g @ render f s (nat (fEnd g)) gs"

fun renderTo :: "(Finding \<Rightarrow> string) \<Rightarrow> string \<Rightarrow> nat \<Rightarrow> Finding list \<Rightarrow> nat \<Rightarrow> string \<Rightarrow> string" where
  "renderTo f s pos [] p rest = slice pos p s @ rest"
| "renderTo f s pos (g # gs) p rest = slice pos (nat (fStart g)) s @ f g @ renderTo f s (nat (fEnd g)) gs p rest"

lemma renderTo_render: "renderTo f s pos gs (length s) [] = render f s pos gs"
  by (induction gs arbitrary: pos) (simp_all add: slice_def)

lemma renderTo_snoc:
  "renderTo f s pos (gs @ [g]) p rest
    = renderTo f s pos gs (nat (fStart g)) (f g @ slice (nat (fEnd g)) p s @ rest)"
  by (induction gs arbitrary: pos) simp_all

definition replacement :: "Redactor \<Rightarrow> string \<Rightarrow> Finding \<Rightarrow> string" where
  "replacement r s g =
     (if detectAction r = ActionTokenize then tokenize (tokenKey r) (slice (nat (fStart g)) (nat (fEnd g)) s)
      else redactedText (fEntityType g))"

lemma slice_alt: "slice a b s = drop a (take b s)"
  by (cases "a \<le> b") (simp_all add: slice_def take_drop)

lemma slice_prefix:
  assumes "b \<le> p" and "p \<le> length s"
  shows "slice a b (take p s @ t) = slice a b s" and "a \<le> p \<Longrightarrow> take a (take p s @ t) = take a s"
    and "drop b (take p s @ t) = slice b p s @ t"
  using assms by (simp_all add: slice_alt min_def)

lemma replaceFindings_render:
  assumes "detectAction r = ActionTokenize \<Longrightarrow> tokenKey r \<noteq> []" and "p \<le> length s"
    and "\<forall>g \<in> set gs. inRange s g \<and> nat (fEnd g) \<le> p" and "sorted_wrt (\<lambda>f g. fEnd f \<le> fStart g) gs"
  shows "\<exists>counts'. replaceFindings r (rev gs) (take p s @ t) counts
    = Inr (renderTo (replacement r s) s 0 gs p t, counts')"
  using assms(2-)
proof (induction gs arbitrary: p t counts rule: rev_induct)
  case Nil
  then show ?case by (simp add: slice_def)
next
  case (snoc g gs)
  let ?a = "nat (fStart g)" and ?b = "nat (fEnd g)"
  have g: "inRange s g" "?b \<le> p" using snoc.prems(2) by simp_all
  then have ab: "?a \<le> ?b" "?a \<le> p" "?a \<le> length s" by (auto simp: inRange_def)
  note S = slice_prefix [OF g(2) snoc.prems(1), where t = t]
  define out where "out = take p s @ t"
  define n where "n = (case map_of counts (fEntityType g) of None \<Rightarrow> 0 | Some k \<Rightarrow> k)"
  have ok: "\<not> (fStart g < 0 \<or> int (length out) < fStart g \<or> fEnd g < 0 \<or> int (length out) < fEnd g
      \<or> detectAction r = ActionTokenize \<and> fEnd g < fStart g)"
    using g snoc.prems(1) by (auto simp: inRange_def out_def)
  have key: "\<not> (detectAction r = ActionTokenize \<and> tokenKey r = [])" using assms(1) by blast
  have "(if detectAction r = ActionTokenize then tokenize (tokenKey r) (slice ?a ?b out)
    else redactedText (fEntityType g)) = replacement r s g"
    using S(1) by (simp add: replacement_def out_def)
  then have step: "replaceFindings r (rev (gs @ [g])) out counts
    = replaceFindings r (rev gs) (take ?a s @ replacement r s g @ slice ?b p s @ t)
        (AList.update (fEntityType g) (n + 1) counts)"
    using ok key S(2) [OF ab(2)] S(3)
    by (simp only: rev.simps rev_append append.simps replaceFindings.simps Let_def n_def [symmetric]
        out_def [symmetric] if_False)
  have "\<forall>h \<in> set gs. inRange s h \<and> nat (fEnd h) \<le> ?a"
    using snoc.prems(2,3) by (auto simp: sorted_wrt_append)
  moreover have "sorted_wrt (\<lambda>f g. fEnd f \<le> fStart g) gs" using snoc.prems(3) by (simp add: sorted_wrt_append)
  ultimately show ?case
    unfolding out_def [symmetric] step renderTo_snoc using snoc.IH [OF ab(3)] by blast
qed

text \<open>
  The detector's rewriting from the end is the left-to-right rendering: whatever a Presidio
  service answers, overlapping findings and out-of-range ones included, the findings kept are
  merged into disjoint ranges in order that cover exactly the bytes the findings covered, and the
  result is the text with every such range replaced by its token or marker and every byte outside
  them kept. It never slices out of bounds.
\<close>

theorem detector_replaces_exactly_findings:
  assumes "PresidioDetect service minScore value = Some found" and "found \<noteq> []"
    and "detectAction r = ActionTokenize \<longrightarrow> tokenKey r \<noteq> []"
  shows "\<exists>merged ents st'.
    applyDetector r (PresidioDetect service minScore) path value st
      = (Inr (render (replacement r value) value 0 merged, ents), st') \<and>
    (\<forall>g \<in> set merged. inRange value g) \<and> sorted_wrt (\<lambda>f g. fEnd f \<le> fStart g) merged \<and>
    (\<forall>i. covers merged i \<longleftrightarrow> covers found i)"
proof -
  have rng: "\<forall>f \<in> set found. inRange value f"
    using assms(1) by (auto simp: PresidioDetect_def inRange_def)
  obtain f fs where srt: "sort_key fStart found = f # fs"
    using assms(2) by (cases "sort_key fStart found") (auto dest: arg_cong [where f = length])
  have "set (f # fs) = set found" by (metis set_sort srt)
  moreover have "sorted (map fStart (f # fs))" by (metis sorted_sort_key srt)
  ultimately have M: "(\<forall>g \<in> set (mergeFindings f fs). inRange value g)"
    "sorted_wrt (\<lambda>f g. fEnd f \<le> fStart g) (mergeFindings f fs)"
    "\<forall>i. covers (mergeFindings f fs) i \<longleftrightarrow> covers found i"
    using mergeFindings_spec [of f fs "value"] rng by (auto simp: covers_def)
  have "\<forall>g \<in> set (mergeFindings f fs). inRange value g \<and> nat (fEnd g) \<le> length value"
    using M(1) by (auto simp: inRange_def)
  then obtain counts where "replaceFindings r (rev (mergeFindings f fs)) value []
      = Inr (render (replacement r value) value 0 (mergeFindings f fs), counts)"
    using replaceFindings_render [OF _ le_refl _ M(2), of r "value" "[]" "[]"] assms(3)
    by (auto simp: renderTo_render)
  then show ?thesis
    using assms(1) srt M by (auto simp: applyDetector_def split: prod.splits)
qed

section \<open>Entity keys\<close>

lemma applyRules_transform:
  assumes "\<forall>rule \<in> set rls. ruleFields rule = [] \<and> rulePath rule = None \<and> ruleRe rule \<noteq> None"
  shows "(case fst (applyRules parse r path rls out ents st) of Inl e \<Rightarrow> Inl e | Inr (o1, _) \<Rightarrow> Inr o1)
    = transformRules r rls out"
  using assms
proof (induction rls arbitrary: out ents st)
  case (Cons rule rls)
  then obtain re where "ruleFields rule = []" "rulePath rule = None" "ruleRe rule = Some re" by auto
  then show ?case using Cons by (auto simp: Let_def MatchString_def split: sum.splits)
qed simp

text \<open>
  An outcome's key meets the episode's: when every rule is a regular expression that is not
  narrowed to particular fields, a key sent through \<^verbatim>\<open>TransformKey\<close> comes out as the same text (or
  the same error) as the same value redacted as a payload on any admitted path, without a
  detector.
\<close>

theorem transform_key_joins:
  assumes "\<forall>rule \<in> set (rules r). ruleFields rule = [] \<and> rulePath rule = None \<and> ruleRe rule \<noteq> None"
    and "admitted r path" and "detector r = None"
  shows "(case fst (applyField parse r path v st) of Inl e \<Rightarrow> Inl e | Inr (out, _) \<Rightarrow> Inr out) = TransformKey r v"
  using applyRules_transform [OF assms(1), of parse r path v "[]" st] assms(2,3)
  by (auto simp: applyField_def admitted_def TransformKey_def split: prod.splits sum.splits)

text \<open>A regular expression that matches one literal text, and policies built on it.\<close>

fun findLiteral :: "string \<Rightarrow> nat \<Rightarrow> nat \<Rightarrow> string \<Rightarrow> (nat \<times> nat) list" where
  "findLiteral lit skip pos [] = []"
| "findLiteral lit skip pos (c # s) =
     (if skip > 0 then findLiteral lit (skip - 1) (pos + 1) s
      else if lit \<noteq> [] \<and> has_prefix (c # s) lit
      then (pos, pos + length lit) # findLiteral lit (length lit - 1) (pos + 1) s
      else findLiteral lit 0 (pos + 1) s)"

definition literalRe :: "string \<Rightarrow> Regexp" where
  "literalRe lit = \<lparr>FindAllStringIndex = findLiteral lit 0 0, expandAt = (\<lambda>tmpl _ _. tmpl)\<rparr>"

definition dropPolicy :: "string list \<Rightarrow> Redactor" where
  "dropPolicy flds =
     \<lparr>rules = [\<lparr>ruleID = ''id'', ruleRe = Some (literalRe ''42''), rulePath = None, ruleAction = ActionDrop,
                ruleFields = flds\<rparr>],
      allow = [''steps[0].content_inline''], deny = [], denyDefault = True, metadataOnly = False, tokenKey = [],
      keyID = [], onManifest = True, detector = None, detectAction = []\<rparr>"

lemma dropPolicy_admits: "admitted (dropPolicy flds) (stepPath 0 @ ''content_inline'')"
proof -
  have "stepPath 0 @ ''content_inline'' = ''steps[0].content_inline''"
    by (simp add: stepPath_def nat_digits.simps hex_digit_def)
  moreover have "matchOne ''steps[0].content_inline'' ''steps[0].content_inline''"
    by (simp add: matchOne_def Let_def)
  ultimately show ?thesis by (simp add: admitted_def dropPolicy_def matchAny_def)
qed

theorem transform_key_joins_witness:
  "(case fst (applyField (\<lambda>_. None) (dropPolicy []) (stepPath 0 @ ''content_inline'') ''ticket 42'' zeroRedactStats) of
      Inl e \<Rightarrow> Inl e | Inr (out, _) \<Rightarrow> Inr out) = TransformKey (dropPolicy []) ''ticket 42''"
  by (rule transform_key_joins [OF _ dropPolicy_admits]) (simp_all add: dropPolicy_def)

text \<open>
  A rule narrowed to some fields breaks that promise: \<^verbatim>\<open>TransformKey\<close> ignores the field list, so a
  value that the rule leaves alone in the payload (its field is not listed) is rewritten in the
  outcome's key, and the two sides no longer meet.
\<close>

theorem transform_key_ignores_fields:
  "fst (applyField (\<lambda>_. None) (dropPolicy [''episode.raw.note'']) ''steps[0].content_inline'' ''42'' zeroRedactStats)
      = Inr (''42'', [])
    \<and> TransformKey (dropPolicy [''episode.raw.note'']) ''42'' = Inr ''[redacted:id]''"
  by code_simp

section \<open>Field patterns\<close>

lemma wildcard_index:
  "indexWildcard (''steps['' @ nat_digits i @ '']'' @ s) = ''steps[*]'' @ indexWildcard s"
proof -
  have "takeWhile is_digit (nat_digits i @ '']'' @ s) = nat_digits i"
    and "dropWhile is_digit (nat_digits i @ '']'' @ s) = '']'' @ s"
    using nat_digits_val [of i] by (auto simp: takeWhile_append2 dropWhile_append2 list_all_iff is_digit_def)
  moreover have "nat_digits i \<noteq> []" using nat_digits_val by blast
  ultimately show ?thesis by (simp add: Let_def is_digit_def)
qed

text \<open>
  An index in a field pattern does not narrow it: a pattern written for one step matches the same
  field of every step, because both sides have their indices replaced by a wildcard. An allow
  list naming one step's payload admits every step's.
\<close>

theorem indexed_pattern_matches_every_step:
  "matchAny (pats @ [stepPath i @ field]) (stepPath j @ field)"
proof -
  have "indexWildcard (stepPath i @ field) = indexWildcard (stepPath j @ field)"
    using wildcard_index [of i "''.'' @ field"] wildcard_index [of j "''.'' @ field"]
    by (simp add: stepPath_def)
  then show ?thesis by (simp add: matchAny_def matchOne_def Let_def)
qed

section \<open>Examples\<close>

definition sampleStep :: Step where
  "sampleStep =
     \<lparr>stEpisodeID = ''e'', stStepIdx = 0, stParentIdx = None, stAttempt = 0, stKind = ''llm'', stRole = None,
      stContentRef = None, stContentInline = Some ''ticket 42'', stTruncated = False, stToolName = None,
      stToolVersion = None, stArgsHash = None, stModel = None, stProvider = None, stParams = None,
      stTokenCounts = None, stTokenSpans = [], stTrainable = [], stLogprobsRef = None, stFinishReason = None,
      stStartedAt = 0, stLatencyMs = None, stError = None, stRaw = [(''user'', ''ann'')], stCostUSD = None\<rparr>"

definition sampleEpisode :: Assembled where
  "sampleEpisode =
     \<lparr>asEpisode = \<lparr>epEpisodeID = ''e'', epTenant = ''t'', epGroupID = None, epTaskType = None, epSource = ''s'',
        epInstrumentation = None, epInstrumentationVersion = None, epEntityKeys = [], epStatus = ''complete'',
        epFidelity = None, epSampledBy = None, epStartedAt = 0, epEndedAt = None, epReceivedAt = 0,
        epStepCount = 1, epError = None, epSchemaVersion = [], epRaw = []\<rparr>,
      asSteps = [sampleStep]\<rparr>"

definition sampleRun :: "(redactError + Assembled \<times> Manifest option) \<times> RedactStats" where
  "sampleRun = Process (\<lambda>_. None) (dropPolicy []) sampleEpisode zeroRedactStats"

lemma sampleRun_result:
  "case fst sampleRun of Inl _ \<Rightarrow> False
   | Inr (ep, mf) \<Rightarrow> mf \<noteq> None \<and> map stContentInline (asSteps ep) = [Some ''ticket [redacted:id]'']
       \<and> map stRaw (asSteps ep) = [[]]"
  by code_simp

theorem redaction_fails_closed_witness:
  "\<exists>ep' mf st'. Process (\<lambda>_. None) (dropPolicy []) sampleEpisode zeroRedactStats = (Inr (ep', mf), st') \<and>
    stepRedacted (\<lambda>_. None) (dropPolicy []) 0 sampleStep (asSteps ep' ! 0)"
proof -
  obtain ep' mf st' where r: "Process (\<lambda>_. None) (dropPolicy []) sampleEpisode zeroRedactStats = (Inr (ep', mf), st')"
    using sampleRun_result by (cases sampleRun) (auto simp: sampleRun_def split: sum.splits)
  have "wfEpisode sampleEpisode" by (simp add: wfEpisode_def sampleEpisode_def sampleStep_def wfMap_def)
  from redaction_fails_closed [OF this r] r show ?thesis by (auto simp: sampleEpisode_def)
qed

theorem manifest_names_policy_only_witness:
  "\<exists>ep' mf st'. Process (\<lambda>_. None) (dropPolicy []) sampleEpisode zeroRedactStats = (Inr (ep', Some mf), st') \<and>
    (\<forall>e \<in> set (mfEntries mf). \<exists>path \<in> fieldPaths sampleEpisode. entryOf (dropPolicy []) path e)"
proof -
  obtain ep' mf st' where r: "Process (\<lambda>_. None) (dropPolicy []) sampleEpisode zeroRedactStats = (Inr (ep', Some mf), st')"
    using sampleRun_result by (cases sampleRun) (auto simp: sampleRun_def split: sum.splits)
  from manifest_names_policy_only [OF r] r show ?thesis by blast
qed

definition twoFindings :: "Finding list" where
  "twoFindings = [\<lparr>fEntityType = ''NAME'', fStart = 2, fEnd = 5, fScore = 1\<rparr>,
                  \<lparr>fEntityType = ''ORG'', fStart = 0, fEnd = 3, fScore = 1\<rparr>]"

theorem detector_replaces_exactly_findings_witness:
  "\<exists>merged ents st'.
    applyDetector (dropPolicy []) (PresidioDetect (\<lambda>_. Some twoFindings) 0) ''p'' ''abcdefg'' zeroRedactStats
      = (Inr (render (replacement (dropPolicy []) ''abcdefg'') ''abcdefg'' 0 merged, ents), st') \<and>
    (\<forall>g \<in> set merged. inRange ''abcdefg'' g) \<and> sorted_wrt (\<lambda>f g. fEnd f \<le> fStart g) merged \<and>
    (\<forall>i. covers merged i \<longleftrightarrow> covers twoFindings i)"
  by (rule detector_replaces_exactly_findings)
    (simp_all add: PresidioDetect_def twoFindings_def dropPolicy_def ActionTokenize_def)

text \<open>
  A path rule rewrites every node of its path with the replacement of each matching one: with the
  selection of all elements of an array (whose \<^verbatim>\<open>Set\<close> sets every selected element, as the JSONPath
  package documents), an element the narrowing expression does not match is overwritten too.
\<close>

definition allElements :: JsonPath where
  "allElements =
     \<lparr>pathGet = (\<lambda>d. case d of JArr xs \<Rightarrow> xs | _ \<Rightarrow> []),
      pathSet = (\<lambda>d v. case d of JArr xs \<Rightarrow> Some (JArr (map (\<lambda>_. v) xs)) | _ \<Rightarrow> None)\<rparr>"

theorem path_rule_overwrites_unmatched:
  "applyPathRule (\<lambda>_. Some (JArr [JStr ''42'', JStr ''keep''])) (dropPolicy [])
      ((hd (rules (dropPolicy [])))\<lparr>rulePath := Some allElements\<rparr>) allElements ''doc''
    = Inr ([CHR ''['', CHR 0x22] @ ''[redacted:id]'' @ [CHR 0x22, CHR '','', CHR 0x22] @ ''[redacted:id]''
           @ [CHR 0x22, CHR '']''], 1)"
  by code_simp

end
