(* ===== verification/Lakeread.thy ===== *)
theory Lakeread
  imports Assembly_Order
begin

text \<open>
  Reading a lake back (\<^verbatim>\<open>src/pkg/lakeread/lakeread.go\<close>) and the table names of
  \<^verbatim>\<open>src/pkg/record/schema.go\<close>.

  The directory is what the code sees of it: the entries a walk visits, in order, and for each
  file the rows its Parquet decoder returns (the decoder is a third-party package) or failure. A
  manifest is visited with its decoded content. Episodes are shared by pointer between the list
  and the index by id; here the index is the search by id in the list, which holds each id once.
\<close>

section \<open>Data\<close>

definition TableEpisodes :: string where "TableEpisodes = ''episodes''"
definition TableSteps :: string where "TableSteps = ''steps''"
definition TableBlobs :: string where "TableBlobs = ''blobs''"
definition TableOutcomes :: string where "TableOutcomes = ''outcomes''"
definition TableLabels :: string where "TableLabels = ''labels''"
definition TableRewards :: string where "TableRewards = ''rewards''"

definition Written :: "string list" where
  "Written = [TableEpisodes, TableSteps, TableBlobs, TableOutcomes, TableRewards]"

lemmas table_names =
  TableEpisodes_def TableSteps_def TableBlobs_def TableOutcomes_def TableLabels_def TableRewards_def

record LakeEpisode =
  leEpisode :: Episode
  leSteps :: "Step list"
  lePatched :: bool

record Lake =
  lkEpisodes :: "LakeEpisode list"
  lkOutcomes :: "Outcome list"
  lkRewards :: "Reward list"
  lkUnmanifested :: int
  lkBlob :: "string \<Rightarrow> string option"

record listedFile =
  lfPath :: string
  lfTable :: string

text \<open>One entry of a directory walk: an error (\<open>True\<close> when the entry does not exist), a directory,
  or a file with the manifest decoded from it (\<open>Inl\<close>: unreadable or not a manifest).\<close>

datatype visit = WalkErr bool | WalkDir | WalkFile string "unit + listedFile list"

record Directory =
  dirManifests :: "visit list"
  dirTables :: "string \<Rightarrow> visit list"
  readEpisodes :: "string \<Rightarrow> Episode list option"
  readSteps :: "string \<Rightarrow> Step list option"
  readOutcomes :: "string \<Rightarrow> Outcome list option"
  readRewards :: "string \<Rightarrow> Reward list option"
  readBlob :: "string \<Rightarrow> string option"

datatype lakeError = BadManifest | WalkFailed | BadTable string | MalformedRef string | BlobMissing string | SliceBounds

section \<open>Which files count\<close>

definition addListed :: "listedFile list \<Rightarrow> listedFile list \<Rightarrow> listedFile list" where
  "addListed fs out = foldl (\<lambda>acc f. if lfPath f \<in> set (map lfPath acc) then acc else acc @ [f]) out fs"

fun walkManifests :: "visit list \<Rightarrow> listedFile list \<Rightarrow> lakeError + listedFile list" where
  "walkManifests [] out = Inr out"
| "walkManifests (WalkErr absent # vs) out = (if absent then walkManifests vs out else Inl WalkFailed)"
| "walkManifests (WalkDir # vs) out = walkManifests vs out"
| "walkManifests (WalkFile p m # vs) out =
     (if \<not> has_suffix p ''.json'' then walkManifests vs out
      else case m of Inl _ \<Rightarrow> Inl BadManifest | Inr fs \<Rightarrow> walkManifests vs (addListed fs out))"

definition manifestedFiles :: "Directory \<Rightarrow> lakeError + listedFile list" where
  "manifestedFiles d =
     (case walkManifests (dirManifests d) [] of Inl e \<Rightarrow> Inl e | Inr out \<Rightarrow> Inr (sort_key lfPath out))"

fun unlisted :: "listedFile list \<Rightarrow> visit \<Rightarrow> bool" where
  "unlisted listed (WalkFile p m) \<longleftrightarrow> has_suffix p ''.parquet'' \<and> p \<notin> set (map lfPath listed)"
| "unlisted listed (WalkErr absent) \<longleftrightarrow> False"
| "unlisted listed WalkDir \<longleftrightarrow> False"

definition countUnmanifested :: "Directory \<Rightarrow> listedFile list \<Rightarrow> int" where
  "countUnmanifested d listed =
     sum_list (map (\<lambda>t. int (length (filter (unlisted listed) (dirTables d t))))
       [TableEpisodes, TableSteps, TableOutcomes, TableRewards])"

section \<open>Steps\<close>

fun dropSeen :: "int list \<Rightarrow> Step list \<Rightarrow> Step list" where
  "dropSeen seen [] = []"
| "dropSeen seen (s # ss) =
     (if stStepIdx s \<in> set seen then dropSeen seen ss else s # dropSeen (stStepIdx s # seen) ss)"

definition dedupeSteps :: "Step list \<Rightarrow> Step list" where
  "dedupeSteps steps = dropSeen [] (sort_key (\<lambda>s. (stStartedAt s, stStepIdx s)) steps)"

section \<open>Loading\<close>

definition zeroLake :: "Directory \<Rightarrow> Lake" where
  "zeroLake d = \<lparr>lkEpisodes = [], lkOutcomes = [], lkRewards = [], lkUnmanifested = 0, lkBlob = readBlob d\<rparr>"

definition lakeEpisode :: "Lake \<Rightarrow> string \<Rightarrow> LakeEpisode option" where
  "lakeEpisode l i = find (\<lambda>e. epEpisodeID (leEpisode e) = i) (lkEpisodes l)"

text \<open>The state of the loop over the listed files.\<close>

record loading =
  ldLake :: Lake
  ldPatches :: "Episode list"
  ldSteps :: "(string, Step list) gomap"

definition addEpisode :: "Episode \<Rightarrow> loading \<Rightarrow> loading" where
  "addEpisode e ld =
     (if epStatus e = StatusPatched then ld\<lparr>ldPatches := ldPatches ld @ [e]\<rparr>
      else if lakeEpisode (ldLake ld) (epEpisodeID e) \<noteq> None then ld
      else ld\<lparr>ldLake := (ldLake ld)\<lparr>lkEpisodes := lkEpisodes (ldLake ld)
                @ [\<lparr>leEpisode = e, leSteps = [], lePatched = False\<rparr>]\<rparr>\<rparr>)"

definition addStep :: "Step \<Rightarrow> loading \<Rightarrow> loading" where
  "addStep s ld =
     ld\<lparr>ldSteps := AList.update (stEpisodeID s) (goget [] (ldSteps ld) (stEpisodeID s) @ [s]) (ldSteps ld)\<rparr>"

definition loadFile :: "Directory \<Rightarrow> listedFile \<Rightarrow> loading \<Rightarrow> lakeError + loading" where
  "loadFile d f ld =
     (if lfTable f = TableEpisodes then
        (case readEpisodes d (lfPath f) of
           None \<Rightarrow> Inl (BadTable (lfPath f)) | Some rows \<Rightarrow> Inr (fold addEpisode rows ld))
      else if lfTable f = TableSteps then
        (case readSteps d (lfPath f) of
           None \<Rightarrow> Inl (BadTable (lfPath f)) | Some rows \<Rightarrow> Inr (fold addStep rows ld))
      else if lfTable f = TableOutcomes then
        (case readOutcomes d (lfPath f) of
           None \<Rightarrow> Inl (BadTable (lfPath f))
         | Some rows \<Rightarrow> Inr (ld\<lparr>ldLake := (ldLake ld)\<lparr>lkOutcomes := lkOutcomes (ldLake ld) @ rows\<rparr>\<rparr>))
      else if lfTable f = TableRewards then
        (case readRewards d (lfPath f) of
           None \<Rightarrow> Inl (BadTable (lfPath f))
         | Some rows \<Rightarrow> Inr (ld\<lparr>ldLake := (ldLake ld)\<lparr>lkRewards := lkRewards (ldLake ld) @ rows\<rparr>\<rparr>))
      else Inr ld)"

fun loadFiles :: "Directory \<Rightarrow> listedFile list \<Rightarrow> loading \<Rightarrow> lakeError + loading" where
  "loadFiles d [] ld = Inr ld"
| "loadFiles d (f # fs) ld = (case loadFile d f ld of Inl e \<Rightarrow> Inl e | Inr ld1 \<Rightarrow> loadFiles d fs ld1)"

text \<open>Writing through the pointer the index holds for an id.\<close>

definition atEpisode :: "string \<Rightarrow> (LakeEpisode \<Rightarrow> LakeEpisode) \<Rightarrow> LakeEpisode list \<Rightarrow> LakeEpisode list" where
  "atEpisode i f eps = map (\<lambda>e. if epEpisodeID (leEpisode e) = i then f e else e) eps"

definition attachSteps :: "(string, Step list) gomap \<Rightarrow> LakeEpisode list \<Rightarrow> LakeEpisode list" where
  "attachSteps m eps = fold (\<lambda>(i, steps). atEpisode i (leSteps_update (\<lambda>_. dedupeSteps steps))) m eps"

definition markPatched :: "Episode list \<Rightarrow> LakeEpisode list \<Rightarrow> LakeEpisode list" where
  "markPatched ps eps = fold (\<lambda>p. atEpisode (epEpisodeID p) (lePatched_update (\<lambda>_. True))) ps eps"

definition lakeOrder :: "LakeEpisode \<Rightarrow> int \<times> string" where
  "lakeOrder e = (epStartedAt (leEpisode e), epEpisodeID (leEpisode e))"

definition Load :: "Directory \<Rightarrow> lakeError + Lake" where
  "Load d =
     (case manifestedFiles d of
        Inl e \<Rightarrow> Inl e
      | Inr listed \<Rightarrow>
          (case loadFiles d listed \<lparr>ldLake = zeroLake d, ldPatches = [], ldSteps = []\<rparr> of
             Inl e \<Rightarrow> Inl e
           | Inr ld \<Rightarrow>
               Inr ((ldLake ld)\<lparr>lkEpisodes := sort_key lakeOrder
                                  (markPatched (ldPatches ld) (attachSteps (ldSteps ld) (lkEpisodes (ldLake ld)))),
                                lkUnmanifested := countUnmanifested d listed\<rparr>)))"

section \<open>Payloads\<close>

definition blobPath :: "string \<Rightarrow> string" where
  "blobPath h = TableBlobs @ ''/sha256/'' @ take 2 h @ ''/'' @ take 2 (drop 2 h) @ ''/'' @ h"

definition Payload :: "Lake \<Rightarrow> Step \<Rightarrow> lakeError + string" where
  "Payload l s =
     (case stContentInline s of
        Some c \<Rightarrow> Inr c
      | None \<Rightarrow>
          (case stContentRef s of
             None \<Rightarrow> Inr []
           | Some h \<Rightarrow>
               if length h < 4 then Inl (MalformedRef h)
               else
                 (case lkBlob l (blobPath h) of
                    Some b \<Rightarrow> Inr b
                  | None \<Rightarrow> if length h < 12 then Inl SliceBounds else Inl (BlobMissing (take 12 h)))))"

end
