(* ===== verification/Join.thy ===== *)
theory Join
  imports Lakeread
begin

text \<open>
  The outcome join (\<^verbatim>\<open>src/pkg/join/join.go\<close>).

  A label is found through its episode's position in the lake, which is what the code's index by
  pointer holds. The three calls of \<^verbatim>\<open>sort.Slice\<close> do not say how elements with equal keys are
  ordered; the model keeps their order, as the implementation does for up to twelve elements.
  Times are microseconds; the sum that closes a horizon wraps at 64 bits.
\<close>

section \<open>Data\<close>

definition StatusFinal :: string where "StatusFinal = ''final''"
definition StatusProvisional :: string where "StatusProvisional = ''provisional''"
definition StatusUnjoinable :: string where "StatusUnjoinable = ''unjoinable''"

lemmas label_statuses = StatusFinal_def StatusProvisional_def StatusUnjoinable_def

record JoinOptions =
  joAsOf :: "time option"
  joHorizon :: duration
  joAttribution :: string

record JoinOutcome =
  joOutcomeID :: string
  joEntityName :: string
  joEntityKey :: string
  joKind :: string
  joValue :: string
  joOccurredAt :: int
  joObservedAt :: int
  joSource :: string

record Label =
  lbEpisodeID :: string
  lbTenant :: string
  lbTaskType :: string
  lbGroupID :: string
  lbStatus :: string
  lbStartedAt :: int
  lbEndedAt :: int
  lbStepCount :: int
  lbHasError :: bool
  lbLabelStatus :: string
  lbHorizonClosesAt :: int
  lbAsOf :: int
  lbEntityKeys :: "EntityKey list"
  lbFidelity :: "Fidelity option"
  lbOutcomes :: "JoinOutcome list"
  lbLatest :: "(string, string) gomap"

record JoinStats =
  jsEpisodes :: int
  jsFinal :: int
  jsProvisional :: int
  jsUnjoinable :: int
  jsWithOutcomes :: int
  jsOutcomes :: int
  jsAttributed :: int
  jsUnattributed :: int
  jsFutureObserved :: int
  jsDuplicates :: int

definition zeroJoinStats :: JoinStats where
  "zeroJoinStats = \<lparr>jsEpisodes = 0, jsFinal = 0, jsProvisional = 0, jsUnjoinable = 0, jsWithOutcomes = 0,
     jsOutcomes = 0, jsAttributed = 0, jsUnattributed = 0, jsFutureObserved = 0, jsDuplicates = 0\<rparr>"

type_synonym keyID = "string \<times> string"

section \<open>Outcomes\<close>

text \<open>\<^verbatim>\<open>time.UnixMicro(t).UTC().Format(time.RFC3339Nano)\<close>: the civil date of a count of microseconds,
  with the fraction printed without trailing zeros.\<close>

definition civil :: "int \<Rightarrow> int \<times> int \<times> int" where
  "civil days =
     (let z = days + 719468; era = z div 146097; doe = z mod 146097;
          yoe = (doe - doe div 1460 + doe div 36524 - doe div 146096) div 365;
          doy = doe - (365 * yoe + yoe div 4 - yoe div 100);
          mp = (5 * doy + 2) div 153;
          d = doy - (153 * mp + 2) div 5 + 1;
          m = (if mp < 10 then mp + 3 else mp - 9)
      in (yoe + era * 400 + (if m \<le> 2 then 1 else 0), m, d))"

definition padded :: "nat \<Rightarrow> int \<Rightarrow> string" where
  "padded w n =
     (if n < 0 then ''-'' else []) @
     (let ds = nat_digits (nat \<bar>n\<bar>) in replicate (w - length ds) (CHR ''0'') @ ds)"

definition formatRFC3339Nano :: "int \<Rightarrow> string" where
  "formatRFC3339Nano us =
     (let secs = us div 1000000; frac = us mod 1000000; days = secs div 86400; sod = secs mod 86400
      in case civil days of
           (y, m, d) \<Rightarrow>
             padded 4 y @ ''-'' @ padded 2 m @ ''-'' @ padded 2 d @ ''T''
             @ padded 2 (sod div 3600) @ '':'' @ padded 2 (sod div 60 mod 60) @ '':'' @ padded 2 (sod mod 60)
             @ (if frac = 0 then [] else ''.'' @ rev (dropWhile (\<lambda>c. c = CHR ''0'') (rev (padded 6 frac))))
             @ ''Z'')"

definition nameOf :: "Outcome \<Rightarrow> string" where
  "nameOf oc = (case ocEntityName oc of None \<Rightarrow> [] | Some n \<Rightarrow> n)"

definition dedupeKey :: "Outcome \<Rightarrow> string" where
  "dedupeKey oc =
     (case ocOutcomeID oc of
        Some (c # i) \<Rightarrow> ''id:'' @ c # i
      | _ \<Rightarrow> nameOf oc @ [CHR 0x00] @ ocEntityKey oc @ [CHR 0x00] @ ocKind oc @ [CHR 0x00] @ ocValue oc @ [CHR 0x00]
             @ formatRFC3339Nano (ocOccurredAt oc))"

fun dropRepeats :: "string list \<Rightarrow> Outcome list \<Rightarrow> JoinStats \<Rightarrow> Outcome list \<times> JoinStats" where
  "dropRepeats seen [] st = ([], st)"
| "dropRepeats seen (oc # ocs) st =
     (if dedupeKey oc \<in> set seen then dropRepeats seen ocs (st\<lparr>jsDuplicates := jsDuplicates st + 1\<rparr>)
      else (case dropRepeats (dedupeKey oc # seen) ocs st of (out, st1) \<Rightarrow> (oc # out, st1)))"

definition dedupe :: "Outcome list \<Rightarrow> JoinStats \<Rightarrow> Outcome list \<times> JoinStats" where
  "dedupe ocs st = dropRepeats [] (sort_key ocObservedAt ocs) st"

definition toOutcome :: "Outcome \<Rightarrow> string \<Rightarrow> JoinOutcome" where
  "toOutcome oc name =
     \<lparr>joOutcomeID = (case ocOutcomeID oc of None \<Rightarrow> [] | Some i \<Rightarrow> i), joEntityName = name,
      joEntityKey = ocEntityKey oc, joKind = ocKind oc, joValue = ocValue oc,
      joOccurredAt = ocOccurredAt oc, joObservedAt = ocObservedAt oc, joSource = ocSource oc\<rparr>"

section \<open>The join\<close>

definition episodeEnd :: "Episode \<Rightarrow> int" where
  "episodeEnd e = (case epEndedAt e of
     Some t \<Rightarrow> (if t > epStartedAt e then t else epStartedAt e) | None \<Rightarrow> epStartedAt e)"

definition horizonOf :: "int \<Rightarrow> LakeEpisode \<Rightarrow> int" where
  "horizonOf horizonUS ep = wrap64 (episodeEnd (leEpisode ep) + horizonUS)"

definition newLabel :: "int \<Rightarrow> int \<Rightarrow> LakeEpisode \<Rightarrow> Label" where
  "newLabel asOfUS horizonUS ep =
     (let e = leEpisode ep
      in \<lparr>lbEpisodeID = epEpisodeID e, lbTenant = epTenant e,
          lbTaskType = (case epTaskType e of None \<Rightarrow> [] | Some t \<Rightarrow> t),
          lbGroupID = (case epGroupID e of None \<Rightarrow> [] | Some g \<Rightarrow> g),
          lbStatus = epStatus e, lbStartedAt = epStartedAt e, lbEndedAt = episodeEnd e,
          lbStepCount = wrap32 (int (length (leSteps ep))), lbHasError = (epError e \<noteq> None),
          lbLabelStatus = (if epEntityKeys e = [] then StatusUnjoinable
                           else if asOfUS \<ge> horizonOf horizonUS ep then StatusFinal else StatusProvisional),
          lbHorizonClosesAt = horizonOf horizonUS ep, lbAsOf = asOfUS,
          lbEntityKeys = epEntityKeys e, lbFidelity = epFidelity e, lbOutcomes = [], lbLatest = []\<rparr>)"

definition indexEpisode :: "nat \<times> LakeEpisode \<Rightarrow> (keyID \<Rightarrow> nat list) \<Rightarrow> keyID \<Rightarrow> nat list" where
  "indexEpisode = (\<lambda>(i, ep) byKey.
     fold (\<lambda>k m. m((ekName k, ekValue k) := m (ekName k, ekValue k) @ [i])) (epEntityKeys (leEpisode ep)) byKey)"

definition startOf :: "LakeEpisode list \<Rightarrow> nat \<Rightarrow> int" where
  "startOf eps i = epStartedAt (leEpisode (eps ! i))"

definition byKeyNewest :: "LakeEpisode list \<Rightarrow> keyID \<Rightarrow> nat list" where
  "byKeyNewest eps k = sort_key (\<lambda>i. - startOf eps i) (fold indexEpisode (List.enumerate 0 eps) (\<lambda>_. []) k)"

text \<open>The loop over the episodes of an outcome's key: the labels so far, and whether one matched.\<close>

fun attach :: "bool \<Rightarrow> LakeEpisode list \<Rightarrow> Outcome \<Rightarrow> nat list \<Rightarrow> bool \<times> Label list \<Rightarrow> bool \<times> Label list" where
  "attach all eps oc [] (matched, labels) = (matched, labels)"
| "attach all eps oc (i # is) (matched, labels) =
     (if ocOccurredAt oc < startOf eps i \<or> ocOccurredAt oc > lbHorizonClosesAt (labels ! i)
      then attach all eps oc is (matched, labels)
      else
        let labels1 = labels[i := (labels ! i)\<lparr>lbOutcomes := lbOutcomes (labels ! i) @ [toOutcome oc (nameOf oc)]\<rparr>]
        in if all then attach all eps oc is (True, labels1) else (True, labels1))"

definition joinOutcome ::
  "bool \<Rightarrow> int \<Rightarrow> LakeEpisode list \<Rightarrow> Outcome \<Rightarrow> Label list \<times> JoinStats \<Rightarrow> Label list \<times> JoinStats"
where
  "joinOutcome all asOfUS eps oc = (\<lambda>(labels, st).
     if ocObservedAt oc > asOfUS then (labels, st\<lparr>jsFutureObserved := jsFutureObserved st + 1\<rparr>)
     else
       let st1 = st\<lparr>jsOutcomes := jsOutcomes st + 1\<rparr>
       in case attach all eps oc (byKeyNewest eps (nameOf oc, ocEntityKey oc)) (False, labels) of
            (matched, labels1) \<Rightarrow>
              (labels1, if matched then st1\<lparr>jsAttributed := jsAttributed st1 + 1\<rparr>
                        else st1\<lparr>jsUnattributed := jsUnattributed st1 + 1\<rparr>))"

definition finishLabel :: "Label \<Rightarrow> Label" where
  "finishLabel lb =
     (let os = sort_key (\<lambda>x. (joOccurredAt x, joObservedAt x)) (lbOutcomes lb)
      in lb\<lparr>lbOutcomes := os, lbLatest := fold (\<lambda>x m. AList.update (joKind x) (joValue x) m) os (lbLatest lb)\<rparr>)"

definition countLabel :: "Label \<Rightarrow> JoinStats \<Rightarrow> JoinStats" where
  "countLabel lb st =
     (let st1 = st\<lparr>jsEpisodes := jsEpisodes st + 1\<rparr>;
          st2 = (if lbLabelStatus lb = StatusFinal then st1\<lparr>jsFinal := jsFinal st1 + 1\<rparr>
                 else if lbLabelStatus lb = StatusProvisional then st1\<lparr>jsProvisional := jsProvisional st1 + 1\<rparr>
                 else if lbLabelStatus lb = StatusUnjoinable then st1\<lparr>jsUnjoinable := jsUnjoinable st1 + 1\<rparr>
                 else st1)
      in if lbOutcomes lb \<noteq> [] then st2\<lparr>jsWithOutcomes := jsWithOutcomes st2 + 1\<rparr> else st2)"

definition asOfMicro :: "JoinOptions \<Rightarrow> time \<Rightarrow> int" where
  "asOfMicro o0 now = unixMicro (case joAsOf o0 of None \<Rightarrow> now | Some t \<Rightarrow> t)"

definition horizonMicro :: "JoinOptions \<Rightarrow> int" where
  "horizonMicro o0 = (if joHorizon o0 \<le> 0 then 30 * 24 * 3600 * 1000000000 else joHorizon o0) div 1000"

definition Run :: "Lake \<Rightarrow> JoinOptions \<Rightarrow> time \<Rightarrow> Label list \<times> JoinStats" where
  "Run l o0 now =
     (let asOfUS = asOfMicro o0 now; horizonUS = horizonMicro o0; eps = lkEpisodes l;
          labels0 = map (newLabel asOfUS horizonUS) eps;
          (ocs, st0) = dedupe (lkOutcomes l) zeroJoinStats;
          (labels1, st1) = fold (joinOutcome (joAttribution o0 = ''all'') asOfUS eps) ocs (labels0, st0);
          labels2 = map finishLabel labels1
      in (labels2, fold countLabel labels2 st1))"

end
