(* ===== verification/Export.thy ===== *)
theory Export
  imports Join Json
begin

text \<open>
  Training data from a labelled, scored lake (\<^verbatim>\<open>src/pkg/export/export.go\<close>, \<^verbatim>\<open>lines.go\<close>).

  The writer is the list of the lines written so far and a function that says whether the next
  write succeeds. A line is the value handed to the JSON encoder. The JSON decoder is a parameter
  that returns the decoded value with the keys of an object in their order in the text; decoding
  into a struct takes, for each field, the last key that equals its name up to ASCII case.
\<close>

section \<open>Data\<close>

definition FormatTrajectories :: string where "FormatTrajectories = ''trajectories''"
definition FormatChat :: string where "FormatChat = ''chat''"
definition FormatPreference :: string where "FormatPreference = ''preference''"

lemmas format_names = FormatTrajectories_def FormatChat_def FormatPreference_def

record ExportOptions =
  exFormat :: string
  exVerifier :: string
  exMinReward :: "rat option"
  exRequireReward :: bool
  exRequireFinal :: bool
  exRequireFidelity :: "string list"

record ExportStats =
  xsConsidered :: int
  xsWritten :: int
  xsDropped :: "(string, int) gomap"
  xsVerifier :: string

record kept =
  kLabel :: Label
  kEp :: LakeEpisode
  kReward :: "Reward option"

record stepLine =
  slIdx :: int
  slParent :: "int option"
  slAttempt :: int
  slKind :: string
  slToolName :: string
  slToolVersion :: string
  slModel :: string
  slParams :: "Params option"
  slContent :: "string option"
  slTrainable :: string
  slTokenSpans :: "TokenSpan list"
  slError :: "Error option"
  slTruncated :: bool

record trajectory =
  tjEpisodeID :: string
  tjTaskType :: string
  tjGroupID :: string
  tjLabelStatus :: string
  tjReward :: "rat option"
  tjClauses :: "(string, rat) gomap"
  tjVerifier :: string
  tjOutcomes :: "JoinOutcome list"
  tjFidelity :: "Fidelity option"
  tjSteps :: "stepLine list"

datatype exportLine =
    TrajectoryLine trajectory
  | ChatLine "json list" string int "rat option"
  | PreferenceLine string "json list" trajectory trajectory

datatype exportError = NoSuchVerifier string | ManyVerifiers nat | PayloadError lakeError | WriteFailed | UnknownFormat string

section \<open>Rewards\<close>

definition verifierIDs :: "Reward list \<Rightarrow> string list" where
  "verifierIDs rewards = remdups (map rwVerifierID rewards)"

definition chooseVerifier :: "Reward list \<Rightarrow> string \<Rightarrow> exportError + string" where
  "chooseVerifier rewards want =
     (let ids = verifierIDs rewards
      in if want \<noteq> [] then (if rewards \<noteq> [] \<and> want \<notin> set ids then Inl (NoSuchVerifier want) else Inr want)
         else case ids of [] \<Rightarrow> Inr [] | [i] \<Rightarrow> Inr i | _ \<Rightarrow> Inl (ManyVerifiers (length ids)))"

definition replaces :: "Reward \<Rightarrow> Reward \<Rightarrow> bool" where
  "replaces r prev \<longleftrightarrow>
     rwVerifierVersion r > rwVerifierVersion prev
     \<or> rwVerifierVersion r = rwVerifierVersion prev \<and> rwAt r > rwAt prev"

definition latestRewards :: "Reward list \<Rightarrow> string \<Rightarrow> string \<rightharpoonup> Reward" where
  "latestRewards rewards verifier =
     fold (\<lambda>r out. if rwVerifierID r \<noteq> verifier then out
                    else case out (rwEpisodeID r) of
                           None \<Rightarrow> out(rwEpisodeID r \<mapsto> r)
                         | Some prev \<Rightarrow> if replaces r prev then out(rwEpisodeID r \<mapsto> r) else out) rewards Map.empty"

definition fidelityFlag :: "Fidelity option \<Rightarrow> string \<Rightarrow> bool" where
  "fidelityFlag f w =
     (case f of None \<Rightarrow> False
      | Some fd \<Rightarrow> if w = ''params'' then HasParams fd
                   else if w = ''token_spans'' then HasTokenSpans fd
                   else if w = ''tool_versions'' then HasToolVersions fd else False)"

fun missingFidelity :: "Fidelity option \<Rightarrow> string list \<Rightarrow> string" where
  "missingFidelity f [] = []"
| "missingFidelity f (w # ws) = (if fidelityFlag f w then missingFidelity f ws else w)"

section \<open>Selection\<close>

definition drop1 :: "string \<Rightarrow> int \<Rightarrow> ExportStats \<Rightarrow> ExportStats" where
  "drop1 reason n st = st\<lparr>xsDropped := AList.update reason (goget 0 (xsDropped st) reason + n) (xsDropped st)\<rparr>"

definition dropReason :: "ExportOptions \<Rightarrow> Label \<Rightarrow> LakeEpisode \<Rightarrow> Reward option \<Rightarrow> string option" where
  "dropReason o0 lb ep rw =
     (if exRequireFinal o0 \<and> lbLabelStatus lb \<noteq> StatusFinal then Some (''label_'' @ lbLabelStatus lb)
      else if exRequireReward o0 \<and> rw = None then Some ''not_scored''
      else if (case exMinReward o0 of None \<Rightarrow> False
               | Some m \<Rightarrow> (case rw of None \<Rightarrow> True | Some r \<Rightarrow> rwReward r < m)) then Some ''below_min_reward''
      else
        let missing = missingFidelity (epFidelity (leEpisode ep)) (exRequireFidelity o0)
        in if missing \<noteq> [] then Some (''fidelity_'' @ missing) else None)"

definition selectLabel ::
  "Lake \<Rightarrow> ExportOptions \<Rightarrow> (string \<rightharpoonup> Reward) \<Rightarrow> Label \<Rightarrow> kept list \<times> ExportStats \<Rightarrow> kept list \<times> ExportStats"
where
  "selectLabel l o0 rewards lb = (\<lambda>(sel, st).
     let st1 = st\<lparr>xsConsidered := xsConsidered st + 1\<rparr>
     in case lakeEpisode l (lbEpisodeID lb) of
          None \<Rightarrow> (sel, drop1 ''missing_episode'' 1 st1)
        | Some ep \<Rightarrow>
            (case dropReason o0 lb ep (rewards (lbEpisodeID lb)) of
               Some reason \<Rightarrow> (sel, drop1 reason 1 st1)
             | None \<Rightarrow> (sel @ [\<lparr>kLabel = lb, kEp = ep, kReward = rewards (lbEpisodeID lb)\<rparr>], st1)))"

section \<open>Lines\<close>

definition asJSON :: "(string \<Rightarrow> json option) \<Rightarrow> string \<Rightarrow> string" where
  "asJSON parse s = (if parse s \<noteq> None then s else json_encode (JStr s))"

definition derefStr :: "string option \<Rightarrow> string" where
  "derefStr p = (case p of None \<Rightarrow> [] | Some s \<Rightarrow> s)"

definition toStepLine :: "(string \<Rightarrow> json option) \<Rightarrow> Step \<Rightarrow> string \<Rightarrow> stepLine" where
  "toStepLine parse s body =
     \<lparr>slIdx = stStepIdx s, slParent = stParentIdx s, slAttempt = stAttempt s, slKind = stKind s,
      slToolName = derefStr (stToolName s), slToolVersion = derefStr (stToolVersion s),
      slModel = derefStr (stModel s), slParams = stParams s,
      slContent = (if body = [] then None else Some (asJSON parse body)),
      slTrainable = stTrainable s, slTokenSpans = stTokenSpans s, slError = stError s,
      slTruncated = stTruncated s\<rparr>"

fun stepLines :: "(string \<Rightarrow> json option) \<Rightarrow> Lake \<Rightarrow> Step list \<Rightarrow> lakeError + stepLine list" where
  "stepLines parse l [] = Inr []"
| "stepLines parse l (s # ss) =
     (case Payload l s of
        Inl e \<Rightarrow> Inl e
      | Inr body \<Rightarrow>
          (case stepLines parse l ss of Inl e \<Rightarrow> Inl e | Inr sls \<Rightarrow> Inr (toStepLine parse s body # sls)))"

definition trajectoryLine :: "(string \<Rightarrow> json option) \<Rightarrow> Lake \<Rightarrow> kept \<Rightarrow> exportError + trajectory" where
  "trajectoryLine parse l k =
     (case stepLines parse l (leSteps (kEp k)) of
        Inl e \<Rightarrow> Inl (PayloadError e)
      | Inr sls \<Rightarrow>
          Inr \<lparr>tjEpisodeID = lbEpisodeID (kLabel k), tjTaskType = lbTaskType (kLabel k),
               tjGroupID = lbGroupID (kLabel k), tjLabelStatus = lbLabelStatus (kLabel k),
               tjReward = map_option rwReward (kReward k),
               tjClauses = (case kReward k of None \<Rightarrow> [] | Some r \<Rightarrow> rwClauses r),
               tjVerifier = (case kReward k of None \<Rightarrow> []
                             | Some r \<Rightarrow> rwVerifierID r @ ''@'' @ rwVerifierVersion r),
               tjOutcomes = lbOutcomes (kLabel k), tjFidelity = epFidelity (leEpisode (kEp k)),
               tjSteps = sls\<rparr>)"

definition jget :: "(string \<times> json) list \<Rightarrow> string \<Rightarrow> json option" where
  "jget kvs k = map_of (rev kvs) k"

text \<open>Decoding a payload into a struct: the value of a field, or failure.\<close>

definition structField :: "string \<Rightarrow> (string \<times> json) list \<Rightarrow> json" where
  "structField name kvs = (case map_of (rev (map (\<lambda>(k, v). (to_lower k, v)) kvs)) name of None \<Rightarrow> JNull | Some v \<Rightarrow> v)"

definition decodePayload :: "(string \<Rightarrow> json option) \<Rightarrow> string \<Rightarrow> (string \<times> json) list option" where
  "decodePayload parse body =
     (case parse body of Some (JObj kvs) \<Rightarrow> Some kvs | Some JNull \<Rightarrow> Some [] | _ \<Rightarrow> None)"

fun hasRole :: "json \<Rightarrow> bool" where
  "hasRole (JObj kvs) = (case jget kvs ''role'' of None \<Rightarrow> False | Some JNull \<Rightarrow> False | _ \<Rightarrow> True)"
| "hasRole _ = False"

function toMessages :: "json \<Rightarrow> json list" where
  "toMessages (JStr s) = (if s = [] then [] else [JObj [(''role'', JStr ''user''), (''content'', JStr s)]])"
| "toMessages (JArr xs) = filter hasRole xs"
| "toMessages (JObj kvs) = (case jget kvs ''messages'' of None \<Rightarrow> [] | Some m \<Rightarrow> toMessages m)"
| "toMessages JNull = []"
| "toMessages (JBool b) = []"
| "toMessages (JNum n) = []"
  by pat_completeness auto
termination
proof (relation "measure size", goal_cases)
  case (2 kvs m)
  then have "(''messages'', m) \<in> set kvs" by (auto simp: jget_def dest: map_of_SomeD)
  then have "size m \<le> size_list (size_prod (\<lambda>_. 0) size) kvs"
    by (auto intro: size_list_estimation' [of "(''messages'', m)"])
  then show ?case by simp
qed simp

definition nullable :: "json option \<Rightarrow> json" where
  "nullable v = (case v of None \<Rightarrow> JNull | Some x \<Rightarrow> x)"

fun toAssistant :: "json \<Rightarrow> json option" where
  "toAssistant (JStr s) =
     (if s = [] then None else Some (JObj [(''role'', JStr ''assistant''), (''content'', JStr s)]))"
| "toAssistant (JArr (JObj c # _)) =
     (case jget c ''message'' of
        Some (JObj m) \<Rightarrow>
          Some (JObj ([(''role'', JStr ''assistant''), (''content'', nullable (jget m ''content''))]
            @ (case jget m ''tool_calls'' of None \<Rightarrow> [] | Some JNull \<Rightarrow> [] | Some tc \<Rightarrow> [(''tool_calls'', tc)])))
      | _ \<Rightarrow> None)"
| "toAssistant (JObj kvs) =
     (case jget kvs ''content'' of None \<Rightarrow> None
      | Some c \<Rightarrow> Some (JObj [(''role'', JStr ''assistant''), (''content'', c)]))"
| "toAssistant _ = None"

fun firstPrompt :: "(string \<Rightarrow> json option) \<Rightarrow> Lake \<Rightarrow> Step list \<Rightarrow> json list" where
  "firstPrompt parse l [] = []"
| "firstPrompt parse l (s # ss) =
     (if stKind s \<noteq> KindLLM then firstPrompt parse l ss
      else case Payload l s of
             Inl e \<Rightarrow> []
           | Inr body \<Rightarrow>
               (case decodePayload parse body of
                  None \<Rightarrow> firstPrompt parse l ss
                | Some kvs \<Rightarrow> toMessages (structField ''input'' kvs)))"

section \<open>Writing\<close>

definition encode :: "(nat \<Rightarrow> bool) \<Rightarrow> exportLine \<Rightarrow> exportLine list \<Rightarrow> exportError + exportLine list" where
  "encode accepts line w = (if accepts (length w) then Inr (w @ [line]) else Inl WriteFailed)"

text \<open>The result of a run: the error, if any, with the statistics and the lines written so far.\<close>

type_synonym exported = "exportError option \<times> ExportStats \<times> exportLine list"

definition countWritten :: "int \<Rightarrow> ExportStats \<Rightarrow> ExportStats" where
  "countWritten n st = st\<lparr>xsWritten := xsWritten st + n\<rparr>"

fun writeTrajectories ::
  "(string \<Rightarrow> json option) \<Rightarrow> (nat \<Rightarrow> bool) \<Rightarrow> Lake \<Rightarrow> kept list \<Rightarrow> ExportStats \<Rightarrow> exportLine list \<Rightarrow> exported"
where
  "writeTrajectories parse accepts l [] st w = (None, st, w)"
| "writeTrajectories parse accepts l (k # ks) st w =
     (case trajectoryLine parse l k of
        Inl e \<Rightarrow> (Some e, st, w)
      | Inr t \<Rightarrow>
          (case encode accepts (TrajectoryLine t) w of
             Inl e \<Rightarrow> (Some e, st, w)
           | Inr w1 \<Rightarrow> writeTrajectories parse accepts l ks (countWritten 1 st) w1))"

text \<open>\<^verbatim>\<open>writeChat\<close>: the examples written, the unusable steps, the error and the lines.\<close>

fun writeChat ::
  "(string \<Rightarrow> json option) \<Rightarrow> (nat \<Rightarrow> bool) \<Rightarrow> Lake \<Rightarrow> kept \<Rightarrow> Step list \<Rightarrow> int \<Rightarrow> int \<Rightarrow> exportLine list
     \<Rightarrow> int \<times> int \<times> exportError option \<times> exportLine list"
where
  "writeChat parse accepts l k [] n unusable w = (n, unusable, None, w)"
| "writeChat parse accepts l k (s # ss) n unusable w =
     (if stKind s \<noteq> KindLLM then writeChat parse accepts l k ss n unusable w
      else
        case Payload l s of
          Inl e \<Rightarrow> (n, unusable, Some (PayloadError e), w)
        | Inr body \<Rightarrow>
            (case decodePayload parse body of
               None \<Rightarrow> writeChat parse accepts l k ss n (unusable + 1) w
             | Some kvs \<Rightarrow>
                 (case (toMessages (structField ''input'' kvs), toAssistant (structField ''output'' kvs)) of
                    (m # ms, Some reply) \<Rightarrow>
                      (case encode accepts (ChatLine ((m # ms) @ [reply]) (epEpisodeID (leEpisode (kEp k)))
                                              (stStepIdx s) (map_option rwReward (kReward k))) w of
                         Inl e \<Rightarrow> (n, unusable, Some e, w)
                       | Inr w1 \<Rightarrow> writeChat parse accepts l k ss (n + 1) unusable w1)
                  | _ \<Rightarrow> writeChat parse accepts l k ss n (unusable + 1) w)))"

fun writeChats ::
  "(string \<Rightarrow> json option) \<Rightarrow> (nat \<Rightarrow> bool) \<Rightarrow> Lake \<Rightarrow> kept list \<Rightarrow> ExportStats \<Rightarrow> exportLine list \<Rightarrow> exported"
where
  "writeChats parse accepts l [] st w = (None, st, w)"
| "writeChats parse accepts l (k # ks) st w =
     (case writeChat parse accepts l k (leSteps (kEp k)) 0 0 w of
        (n, unusable, Some e, w1) \<Rightarrow> (Some e, st, w1)
      | (n, unusable, None, w1) \<Rightarrow>
          writeChats parse accepts l ks
            (if unusable > 0 then drop1 ''llm_step_without_prompt_or_reply'' unusable (countWritten n st)
             else countWritten n st) w1)"

definition rewardOf0 :: "kept \<Rightarrow> rat" where
  "rewardOf0 k = (case kReward k of None \<Rightarrow> 0 | Some r \<Rightarrow> rwReward r)"

definition groupKept :: "kept \<Rightarrow> (string, kept list) gomap \<times> ExportStats \<Rightarrow> (string, kept list) gomap \<times> ExportStats" where
  "groupKept k = (\<lambda>(groups, st).
     if lbGroupID (kLabel k) = [] then (groups, drop1 ''no_group_id'' 1 st)
     else if kReward k = None then (groups, drop1 ''not_scored'' 1 st)
     else (AList.update (lbGroupID (kLabel k)) (goget [] groups (lbGroupID (kLabel k)) @ [k]) groups, st))"

fun writeGroups ::
  "(string \<Rightarrow> json option) \<Rightarrow> (nat \<Rightarrow> bool) \<Rightarrow> Lake \<Rightarrow> (string, kept list) gomap \<Rightarrow> string list \<Rightarrow> ExportStats
     \<Rightarrow> exportLine list \<Rightarrow> exported"
where
  "writeGroups parse accepts l groups [] st w = (None, st, w)"
| "writeGroups parse accepts l groups (g # gs) st w =
     (let ks = sort_key (\<lambda>k. (- rewardOf0 k, lbEpisodeID (kLabel k))) (goget [] groups g);
          best = hd ks; worst = last ks
      in if length ks < 2 \<or> rewardOf0 best = rewardOf0 worst
         then writeGroups parse accepts l groups gs (drop1 ''group_without_contrast'' (int (length ks)) st) w
         else
           case trajectoryLine parse l best of
             Inl e \<Rightarrow> (Some e, st, w)
           | Inr chosen \<Rightarrow>
               (case trajectoryLine parse l worst of
                  Inl e \<Rightarrow> (Some e, st, w)
                | Inr rejected \<Rightarrow>
                    (case encode accepts (PreferenceLine g (firstPrompt parse l (leSteps (kEp best))) chosen rejected) w of
                       Inl e \<Rightarrow> (Some e, st, w)
                     | Inr w1 \<Rightarrow> writeGroups parse accepts l groups gs (countWritten 1 st) w1)))"

definition selectAll :: "Lake \<Rightarrow> Label list \<Rightarrow> ExportOptions \<Rightarrow> string \<Rightarrow> kept list \<times> ExportStats" where
  "selectAll l labels o0 verifier =
     fold (selectLabel l o0 (latestRewards (lkRewards l) verifier)) labels
       ([], \<lparr>xsConsidered = 0, xsWritten = 0, xsDropped = [], xsVerifier = verifier\<rparr>)"

definition RunExport ::
  "(string \<Rightarrow> json option) \<Rightarrow> (nat \<Rightarrow> bool) \<Rightarrow> Lake \<Rightarrow> Label list \<Rightarrow> ExportOptions \<Rightarrow> exported"
where
  "RunExport parse accepts l labels o0 =
     (case chooseVerifier (lkRewards l) (exVerifier o0) of
        Inl e \<Rightarrow> (Some e, \<lparr>xsConsidered = 0, xsWritten = 0, xsDropped = [], xsVerifier = []\<rparr>, [])
      | Inr verifier \<Rightarrow>
          (case selectAll l labels o0 verifier of
             (selected, st) \<Rightarrow>
               if exFormat o0 = FormatTrajectories \<or> exFormat o0 = [] then writeTrajectories parse accepts l selected st []
               else if exFormat o0 = FormatChat then writeChats parse accepts l selected st []
               else if exFormat o0 = FormatPreference then
                 (case fold groupKept selected ([], st) of
                    (groups, st1) \<Rightarrow> writeGroups parse accepts l groups (sort (map fst groups)) st1 [])
               else (Some (UnknownFormat (exFormat o0)), st, [])))"

end
