(* ===== verification/Score.thy ===== *)
theory Score
  imports Join Sample
begin

text \<open>
  The rules scorer (\<^verbatim>\<open>src/pkg/scorer/scorer.go\<close>, \<^verbatim>\<open>src/pkg/scorer/rules/rules.go\<close>) and the scoring
  loop of \<^verbatim>\<open>cc score\<close> (\<^verbatim>\<open>src/cmd/cc/outcomejoin.go\<close>).

  The YAML decoder and the expression language are third-party packages: parsing starts from the
  decoded configuration, and compiling an expression is a parameter, as in \<open>Sample\<close>. A compiled
  rule is a function from the declared variables to an evaluation error, true, or another value.
\<close>

section \<open>Data\<close>

record ScorerEpisode =
  seEpisode :: Episode
  seSteps :: "Step list"
  sePayloads :: "int \<rightharpoonup> string"
  seLatest :: "(string, string) gomap"
  seLabelStatus :: string
  seOutcomeCount :: int

record ScoreRule =
  srClause :: string
  srWhen :: string
  srReward :: rat

record RulesConfig =
  rlVerifierID :: string
  rlVersion :: string
  rlRequireFinal :: "bool option"
  rlRules :: "ScoreRule list"
  rlDefaultReward :: "rat option"

record ScoreVars =
  sv_latest :: "(string, string) gomap"
  sv_outcome_count :: int
  sv_label_status :: string
  sv_episode_status :: string
  sv_has_error :: bool
  sv_step_count :: int
  sv_task_type :: string

record RulesScorer =
  rsCfg :: RulesConfig
  rsPrograms :: "(ScoreVars \<Rightarrow> celOut) list"

datatype scoreError =
    DecodeFailed | NeedsIdentity | ScoresNothing | NoClause nat | ClauseTwice string
  | BadRule string string | RuleNotBool string | BadProgram string | RuleFailed string | IndexPanic

section \<open>Parsing\<close>

fun compileScoreRules ::
  "(string \<Rightarrow> string + 'ast) \<Rightarrow> ('ast \<Rightarrow> bool) \<Rightarrow> ('ast \<Rightarrow> string + (ScoreVars \<Rightarrow> celOut)) \<Rightarrow>
    nat \<Rightarrow> string list \<Rightarrow> ScoreRule list \<Rightarrow> scoreError + (ScoreVars \<Rightarrow> celOut) list"
where
  "compileScoreRules compile isBool program i seen [] = Inr []"
| "compileScoreRules compile isBool program i seen (r # rs) =
     (if srClause r = [] then Inl (NoClause i)
      else if srClause r \<in> set seen then Inl (ClauseTwice (srClause r))
      else
        case compile (srWhen r) of
          Inl e \<Rightarrow> Inl (BadRule (srClause r) e)
        | Inr ast \<Rightarrow>
            if \<not> isBool ast then Inl (RuleNotBool (srClause r))
            else
              (case program ast of
                 Inl e \<Rightarrow> Inl (BadProgram e)
               | Inr prg \<Rightarrow>
                   (case compileScoreRules compile isBool program (i + 1) (srClause r # seen) rs of
                      Inl e \<Rightarrow> Inl e
                    | Inr prgs \<Rightarrow> Inr (prg # prgs))))"

definition Parse ::
  "(string \<Rightarrow> string + 'ast) \<Rightarrow> ('ast \<Rightarrow> bool) \<Rightarrow> ('ast \<Rightarrow> string + (ScoreVars \<Rightarrow> celOut)) \<Rightarrow>
    RulesConfig option \<Rightarrow> scoreError + RulesScorer"
where
  "Parse compile isBool program decoded =
     (case decoded of
        None \<Rightarrow> Inl DecodeFailed
      | Some cfg \<Rightarrow>
          if rlVerifierID cfg = [] \<or> rlVersion cfg = [] then Inl NeedsIdentity
          else if rlRules cfg = [] \<and> rlDefaultReward cfg = None then Inl ScoresNothing
          else
            let cfg1 = (if rlRequireFinal cfg = None then cfg\<lparr>rlRequireFinal := Some True\<rparr> else cfg)
            in case compileScoreRules compile isBool program 0 [] (rlRules cfg1) of
                 Inl e \<Rightarrow> Inl e
               | Inr prgs \<Rightarrow> Inr \<lparr>rsCfg = cfg1, rsPrograms = prgs\<rparr>)"

definition RequireFinal :: "RulesScorer \<Rightarrow> bool" where
  "RequireFinal s = (rlRequireFinal (rsCfg s) = Some True)"

section \<open>Scoring\<close>

definition scoreVars :: "ScorerEpisode \<Rightarrow> ScoreVars" where
  "scoreVars ep =
     \<lparr>sv_latest = seLatest ep, sv_outcome_count = seOutcomeCount ep, sv_label_status = seLabelStatus ep,
      sv_episode_status = epStatus (seEpisode ep), sv_has_error = (epError (seEpisode ep) \<noteq> None),
      sv_step_count = epStepCount (seEpisode ep),
      sv_task_type = (case epTaskType (seEpisode ep) of None \<Rightarrow> [] | Some t \<Rightarrow> t)\<rparr>"

definition rewardFor :: "RulesScorer \<Rightarrow> ScorerEpisode \<Rightarrow> string \<Rightarrow> rat \<Rightarrow> Reward" where
  "rewardFor s ep clause v =
     \<lparr>rwEpisodeID = epEpisodeID (seEpisode ep), rwVerifierID = rlVerifierID (rsCfg s),
      rwVerifierVersion = rlVersion (rsCfg s), rwReward = v, rwClauses = [(clause, v)], rwAt = 0\<rparr>"

text \<open>The loop over the programs, each with the rule at its position. An error is \<open>Inl\<close>; otherwise
  the reward, if the scorer applies.\<close>

fun firstMatch ::
  "RulesScorer \<Rightarrow> ScorerEpisode \<Rightarrow> (ScoreVars \<Rightarrow> celOut) list \<Rightarrow> ScoreRule list \<Rightarrow> scoreError + Reward option"
where
  "firstMatch s ep [] rs =
     Inr (case rlDefaultReward (rsCfg s) of None \<Rightarrow> None | Some v \<Rightarrow> Some (rewardFor s ep ''default'' v))"
| "firstMatch s ep (prg # prgs) (r # rs) =
     (case prg (scoreVars ep) of
        EvalError \<Rightarrow> Inl (RuleFailed (srClause r))
      | EvalTrue \<Rightarrow> Inr (Some (rewardFor s ep (srClause r) (srReward r)))
      | EvalOther \<Rightarrow> firstMatch s ep prgs rs)"
| "firstMatch s ep (prg # prgs) [] =
     (case prg (scoreVars ep) of EvalOther \<Rightarrow> firstMatch s ep prgs [] | _ \<Rightarrow> Inl IndexPanic)"

definition Score :: "RulesScorer \<Rightarrow> ScorerEpisode \<Rightarrow> scoreError + Reward option" where
  "Score s ep =
     (if RequireFinal s \<and> seLabelStatus ep \<noteq> ''final'' then Inr None
      else firstMatch s ep (rsPrograms s) (rlRules (rsCfg s)))"

section \<open>The scoring command\<close>

record ScoreRun =
  scOut :: "Reward list"
  scByClause :: "(string, int) gomap"
  scSkipped :: int
  scNotApplicable :: int
  scFailed :: int

definition zeroScoreRun :: ScoreRun where
  "zeroScoreRun = \<lparr>scOut = [], scByClause = [], scSkipped = 0, scNotApplicable = 0, scFailed = 0\<rparr>"

definition alreadyScored :: "RulesScorer \<Rightarrow> Reward list \<Rightarrow> string \<Rightarrow> bool" where
  "alreadyScored s rewards i \<longleftrightarrow>
     list_ex (\<lambda>r. rwVerifierID r = rlVerifierID (rsCfg s) \<and> rwVerifierVersion r = rlVersion (rsCfg s)
                  \<and> rwEpisodeID r = i) rewards"

text \<open>The episode of a label. A label whose id is not in the lake would make the code panic; labels
  come from the episodes of the same lake.\<close>

definition scorerEpisode :: "LakeEpisode \<Rightarrow> Label \<Rightarrow> ScorerEpisode" where
  "scorerEpisode ep lb =
     \<lparr>seEpisode = leEpisode ep, seSteps = leSteps ep, sePayloads = Map.empty, seLatest = lbLatest lb,
      seLabelStatus = lbLabelStatus lb, seOutcomeCount = int (length (lbOutcomes lb))\<rparr>"

definition scoreLabel ::
  "RulesScorer \<Rightarrow> Lake \<Rightarrow> int \<Rightarrow> Label \<Rightarrow> ScoreRun \<Rightarrow> scoreError + ScoreRun"
where
  "scoreLabel s l asOfUS lb run =
     (if alreadyScored s (lkRewards l) (lbEpisodeID lb) then Inr (run\<lparr>scSkipped := scSkipped run + 1\<rparr>)
      else
        case lakeEpisode l (lbEpisodeID lb) of
          None \<Rightarrow> Inl IndexPanic
        | Some ep \<Rightarrow>
            (case Score s (scorerEpisode ep lb) of
               Inl e \<Rightarrow> Inr (run\<lparr>scFailed := scFailed run + 1\<rparr>)
             | Inr None \<Rightarrow> Inr (run\<lparr>scNotApplicable := scNotApplicable run + 1\<rparr>)
             | Inr (Some r) \<Rightarrow>
                 Inr (run\<lparr>scOut := scOut run @ [r\<lparr>rwAt := asOfUS\<rparr>],
                          scByClause := fold (\<lambda>(c, _) m. AList.update c (goget 0 m c + 1) m) (rwClauses r) (scByClause run)\<rparr>)))"

fun scoreLabels ::
  "RulesScorer \<Rightarrow> Lake \<Rightarrow> int \<Rightarrow> Label list \<Rightarrow> ScoreRun \<Rightarrow> scoreError + ScoreRun"
where
  "scoreLabels s l asOfUS [] run = Inr run"
| "scoreLabels s l asOfUS (lb # lbs) run =
     (case scoreLabel s l asOfUS lb run of Inl e \<Rightarrow> Inl e | Inr run1 \<Rightarrow> scoreLabels s l asOfUS lbs run1)"

text \<open>The rewards \<^verbatim>\<open>cc score\<close> computes and writes for a lake.\<close>

definition cmdScore :: "RulesScorer \<Rightarrow> Lake \<Rightarrow> JoinOptions \<Rightarrow> time \<Rightarrow> scoreError + ScoreRun" where
  "cmdScore s l o0 now = scoreLabels s l (asOfMicro o0 now) (fst (Run l o0 now)) zeroScoreRun"

end
