(* ===== verification/Lakeread_Props.thy ===== *)
theory Lakeread_Props
  imports Lakeread
begin

text \<open>
  What a reader of the lake sees: the rows of the listed files, each episode once, and its steps
  in time order with redeliveries removed. The last property composes the assembler with the
  reader: whatever number of copies of an assembled episode was written, in whatever files and
  order, one copy of it is read.
\<close>

section \<open>Deduplicated steps\<close>

abbreviation stepOrder :: "Step \<Rightarrow> int \<times> int" where
  "stepOrder \<equiv> (\<lambda>s. (stStartedAt s, stStepIdx s))"

lemma dropSeen_idx: "set (map stStepIdx (dropSeen seen ss)) = set (map stStepIdx ss) - set seen"
  by (induction seen ss rule: dropSeen.induct) auto

lemma distinct_dropSeen: "distinct (map stStepIdx (dropSeen seen ss))"
  by (induction seen ss rule: dropSeen.induct) (use dropSeen_idx in auto)

lemma set_dropSeen: "set (dropSeen seen ss) \<subseteq> set ss"
  by (induction seen ss rule: dropSeen.induct) auto

lemma sorted_dropSeen: "sorted (map stepOrder ss) \<Longrightarrow> sorted (map stepOrder (dropSeen seen ss))"
  by (induction seen ss rule: dropSeen.induct) (use set_dropSeen in fastforce)+

lemma dropSeen_first:
  "s \<in> set (dropSeen seen ss) \<Longrightarrow> find (\<lambda>x. stStepIdx x = stStepIdx s) ss = Some s"
proof (induction seen ss rule: dropSeen.induct)
  case (2 seen x ss)
  show ?case
  proof (cases "stStepIdx x \<in> set seen")
    case True
    then have "stStepIdx s \<notin> set seen"
      using 2(3) dropSeen_idx [of seen ss] by (simp add: set_eq_iff image_iff) metis
    then show ?thesis using 2 True by auto
  next
    case False
    then show ?thesis
      using 2 dropSeen_idx [of "stStepIdx x # seen" ss] by (auto simp: set_eq_iff image_iff)
  qed
qed simp

lemma dedupeSteps_exact:
  assumes rows: "set rows = set steps" and ord: "sorted (map stepOrder steps)" and idx: "distinct (map stStepIdx steps)"
  shows "dedupeSteps rows = steps"
proof -
  let ?out = "dedupeSteps rows"
  have sub: "set ?out \<subseteq> set steps"
    using set_dropSeen [of "[]" "sort_key stepOrder rows"] rows by (simp add: dedupeSteps_def)
  have ix: "stStepIdx ` set ?out = stStepIdx ` set steps"
    using dropSeen_idx [of "[]" "sort_key stepOrder rows"] rows by (simp add: dedupeSteps_def)
  have inj: "inj_on stStepIdx (set steps)" using idx by (simp add: distinct_map)
  have "set ?out = set steps"
    using inj_on_image_eq_iff [OF inj sub subset_refl] ix by simp
  moreover have "distinct (map stepOrder ?out)" and "distinct (map stepOrder steps)"
  proof -
    have "distinct (map stepOrder xs)" if "distinct (map stStepIdx xs)" for xs
      using that by (auto simp: distinct_map inj_on_def)
    then show "distinct (map stepOrder ?out)" and "distinct (map stepOrder steps)"
      using distinct_dropSeen [of "[]"] idx by (auto simp: dedupeSteps_def)
  qed
  moreover have "sorted (map stepOrder ?out)" by (simp add: dedupeSteps_def sorted_dropSeen)
  ultimately show ?thesis
    using ord inj by (intro map_sorted_distinct_set_unique [of stepOrder]) (auto simp: inj_on_def)
qed

section \<open>The rows of the listed files\<close>

definition rowsOf :: "string \<Rightarrow> (string \<Rightarrow> 'r list option) \<Rightarrow> listedFile list \<Rightarrow> 'r list" where
  "rowsOf table rd fs =
     concat (map (\<lambda>f. if lfTable f = table then (case rd (lfPath f) of None \<Rightarrow> [] | Some rows \<Rightarrow> rows) else []) fs)"

lemma rowsOf_Nil [simp]: "rowsOf table rd [] = []"
  by (simp add: rowsOf_def)

lemma rowsOf_Cons:
  "rowsOf table rd (f # fs) =
     (if lfTable f = table then (case rd (lfPath f) of None \<Rightarrow> [] | Some rows \<Rightarrow> rows) else []) @ rowsOf table rd fs"
  by (simp add: rowsOf_def)

definition stepsIn :: "string \<Rightarrow> Step list \<Rightarrow> Step list" where
  "stepsIn i rows = filter (\<lambda>s. stEpisodeID s = i) rows"

definition firstCopy :: "string \<Rightarrow> Episode list \<Rightarrow> Episode option" where
  "firstCopy i rows = find (\<lambda>e. epStatus e \<noteq> StatusPatched \<and> epEpisodeID e = i) rows"

subsection \<open>The loop over the files\<close>


fun keepFirst :: "Episode list \<Rightarrow> LakeEpisode list \<Rightarrow> LakeEpisode list" where
  "keepFirst [] eps = eps"
| "keepFirst (e # rows) eps =
     keepFirst rows
       (if epStatus e = StatusPatched \<or> epEpisodeID e \<in> set (map (\<lambda>x. epEpisodeID (leEpisode x)) eps) then eps
        else eps @ [\<lparr>leEpisode = e, leSteps = [], lePatched = False\<rparr>])"

lemma lakeEpisode_None:
  "lakeEpisode l i = None \<longleftrightarrow> i \<notin> set (map (\<lambda>x. epEpisodeID (leEpisode x)) (lkEpisodes l))"
  by (auto simp: lakeEpisode_def find_None_iff)

lemma fold_addEpisode:
  "fold addEpisode rows ld =
     ld\<lparr>ldLake := (ldLake ld)\<lparr>lkEpisodes := keepFirst rows (lkEpisodes (ldLake ld))\<rparr>,
        ldPatches := ldPatches ld @ filter (\<lambda>e. epStatus e = StatusPatched) rows\<rparr>"
proof (induction rows arbitrary: ld)
  case (Cons e rows)
  then show ?case
    using lakeEpisode_None [of "ldLake ld" "epEpisodeID e"] by (simp add: addEpisode_def del: not_None_eq)
qed simp

lemma fold_addStep_frame [op_frame]:
  "ldLake (fold addStep rows ld) = ldLake ld" "ldPatches (fold addStep rows ld) = ldPatches ld"
  by (induction rows arbitrary: ld) (simp_all add: addStep_def)

lemma fold_addStep_lookup:
  "goget [] (ldSteps (fold addStep rows ld)) i = goget [] (ldSteps ld) i @ stepsIn i rows"
  by (induction rows arbitrary: ld) (simp_all add: addStep_def stepsIn_def goget_def)

lemma fold_addStep_distinct:
  "distinct (map fst (ldSteps ld)) \<Longrightarrow> distinct (map fst (ldSteps (fold addStep rows ld)))"
  by (induction rows arbitrary: ld) (simp_all add: addStep_def distinct_update)

lemma keepFirst_append: "keepFirst (xs @ ys) eps = keepFirst ys (keepFirst xs eps)"
  by (induction xs arbitrary: eps) simp_all

lemma loadFiles_rows:
  assumes "loadFiles d fs ld = Inr ld'" and "distinct (map fst (ldSteps ld))"
  shows "lkEpisodes (ldLake ld') = keepFirst (rowsOf TableEpisodes (readEpisodes d) fs) (lkEpisodes (ldLake ld)) \<and>
    ldPatches ld' = ldPatches ld @ filter (\<lambda>e. epStatus e = StatusPatched) (rowsOf TableEpisodes (readEpisodes d) fs) \<and>
    (\<forall>i. goget [] (ldSteps ld') i = goget [] (ldSteps ld) i @ stepsIn i (rowsOf TableSteps (readSteps d) fs)) \<and>
    distinct (map fst (ldSteps ld')) \<and>
    lkOutcomes (ldLake ld') = lkOutcomes (ldLake ld) @ rowsOf TableOutcomes (readOutcomes d) fs \<and>
    lkRewards (ldLake ld') = lkRewards (ldLake ld) @ rowsOf TableRewards (readRewards d) fs \<and>
    lkBlob (ldLake ld') = lkBlob (ldLake ld)"
  using assms
proof (induction fs arbitrary: ld)
  case Nil
  then show ?case by (simp add: stepsIn_def)
next
  case (Cons f fs)
  obtain ld1 where L: "loadFile d f ld = Inr ld1" and R: "loadFiles d fs ld1 = Inr ld'"
    using Cons.prems(1) by (auto split: sum.splits)
  have D: "distinct (map fst (ldSteps ld1))"
    using L Cons.prems(2)
    by (auto simp: loadFile_def fold_addEpisode fold_addStep_distinct split: if_splits option.splits)
  note IH = Cons.IH [OF R D]
  consider "lfTable f = TableEpisodes" | "lfTable f = TableSteps" | "lfTable f = TableOutcomes"
    | "lfTable f = TableRewards" | "lfTable f \<notin> {TableEpisodes, TableSteps, TableOutcomes, TableRewards}" by auto
  then show ?case
  proof cases
    case 1
    then show ?thesis using IH L
      by (auto simp: loadFile_def fold_addEpisode rowsOf_Cons table_names keepFirst_append stepsIn_def split: option.splits)
  next
    case 2
    then show ?thesis using IH L
      by (auto simp: loadFile_def fold_addStep_lookup op_frame rowsOf_Cons table_names stepsIn_def split: option.splits)
  next
    case 3
    then show ?thesis using IH L by (auto simp: loadFile_def rowsOf_Cons table_names split: option.splits)
  next
    case 4
    then show ?thesis using IH L by (auto simp: loadFile_def rowsOf_Cons table_names split: option.splits)
  next
    case 5
    then show ?thesis using IH L by (auto simp: loadFile_def rowsOf_Cons)
  qed
qed

subsection \<open>The loaded lake\<close>

lemma attachSteps_map:
  "distinct (map fst m) \<Longrightarrow> attachSteps m eps =
     map (\<lambda>e. e\<lparr>leSteps := (case map_of m (epEpisodeID (leEpisode e)) of None \<Rightarrow> leSteps e | Some s \<Rightarrow> dedupeSteps s)\<rparr>) eps"
proof (induction m arbitrary: eps)
  case (Cons p m)
  obtain i steps where p: "p = (i, steps)" by (cases p)
  have "map_of m i = None" using Cons.prems p by (simp add: map_of_eq_None_iff)
  then show ?case
    using Cons p by (auto simp: attachSteps_def atEpisode_def)
qed (simp add: attachSteps_def)

lemma markPatched_map:
  "markPatched ps eps =
     map (\<lambda>e. e\<lparr>lePatched := (lePatched e \<or> epEpisodeID (leEpisode e) \<in> set (map epEpisodeID ps))\<rparr>) eps"
  by (induction ps arbitrary: eps) (auto simp: markPatched_def atEpisode_def)

lemma keepFirst_fresh:
  "e \<in> set (keepFirst rows eps) \<Longrightarrow> e \<in> set eps \<or> leSteps e = [] \<and> \<not> lePatched e"
  by (induction rows eps rule: keepFirst.induct) (auto split: if_splits)

lemma keepFirst_distinct:
  "distinct (map (\<lambda>x. epEpisodeID (leEpisode x)) eps) \<Longrightarrow>
   distinct (map (\<lambda>x. epEpisodeID (leEpisode x)) (keepFirst rows eps))"
  by (induction rows eps rule: keepFirst.induct) auto

lemma find_keepFirst:
  "find (\<lambda>e. epEpisodeID (leEpisode e) = i) (keepFirst rows eps) =
     (case find (\<lambda>e. epEpisodeID (leEpisode e) = i) eps of
        Some e \<Rightarrow> Some e
      | None \<Rightarrow> map_option (\<lambda>e. \<lparr>leEpisode = e, leSteps = [], lePatched = False\<rparr>) (firstCopy i rows))"
proof (induction rows eps rule: keepFirst.induct)
  case (2 e rows eps)
  have app: "find P (xs @ [x]) = (case find P xs of None \<Rightarrow> if P x then Some x else None | Some y \<Rightarrow> Some y)"
    for P xs and x :: LakeEpisode by (induction xs) auto
  show ?case
  proof (cases "find (\<lambda>e. epEpisodeID (leEpisode e) = i) eps")
    case None
    then have "i \<notin> set (map (\<lambda>x. epEpisodeID (leEpisode x)) eps)" by (auto simp: find_None_iff)
    then show ?thesis using 2 None by (auto simp: firstCopy_def app)
  next
    case (Some x)
    then show ?thesis using 2 by (simp add: app)
  qed
qed (simp add: firstCopy_def split: option.splits)

lemma find_by_key_mset:
  assumes "mset xs = mset ys" and "distinct (map g xs)"
  shows "find (\<lambda>x. g x = i) xs = find (\<lambda>x. g x = i) ys"
proof -
  have eq: "find (\<lambda>x. g x = i) zs = map_of (map (\<lambda>x. (g x, x)) zs) i" for zs
    by (induction zs) auto
  have "mset (map g xs) = mset (map g ys)" using assms(1) by simp
  then have "distinct (map g ys)" using assms(2) by (metis mset_eq_imp_distinct_iff)
  then have "map_of (map (\<lambda>x. (g x, x)) xs) = map_of (map (\<lambda>x. (g x, x)) ys)"
    using assms(2) mset_eq_setD [OF assms(1)] by (subst map_of_inject_set) (simp_all add: comp_def)
  then show ?thesis by (simp add: eq)
qed

lemma find_map: "find P (map f xs) = map_option f (find (P \<circ> f) xs)"
  by (induction xs) auto

text \<open>The lake a directory should be read as: the reference for \<open>Load\<close>.\<close>

definition readEpisode :: "Directory \<Rightarrow> listedFile list \<Rightarrow> string \<Rightarrow> LakeEpisode option" where
  "readEpisode d listed i =
     map_option
       (\<lambda>e. \<lparr>leEpisode = e,
             leSteps = dedupeSteps (stepsIn i (rowsOf TableSteps (readSteps d) listed)),
             lePatched = (\<exists>p \<in> set (rowsOf TableEpisodes (readEpisodes d) listed).
                            epStatus p = StatusPatched \<and> epEpisodeID p = i)\<rparr>)
       (firstCopy i (rowsOf TableEpisodes (readEpisodes d) listed))"

lemma dedupeSteps_Nil [simp]: "dedupeSteps [] = []"
  by (simp add: dedupeSteps_def)

lemma firstCopy_id: "firstCopy i rows = Some e \<Longrightarrow> epEpisodeID e = i \<and> e \<in> set rows"
  by (auto simp: firstCopy_def find_Some_iff)

lemma Load_cases:
  assumes "Load d = Inr l"
  obtains listed ld where "manifestedFiles d = Inr listed"
    "loadFiles d listed \<lparr>ldLake = zeroLake d, ldPatches = [], ldSteps = []\<rparr> = Inr ld"
    "l = (ldLake ld)\<lparr>lkEpisodes := sort_key lakeOrder
           (markPatched (ldPatches ld) (attachSteps (ldSteps ld) (lkEpisodes (ldLake ld)))),
         lkUnmanifested := countUnmanifested d listed\<rparr>"
  using assms by (auto simp: Load_def split: sum.splits)

lemma addListed_paths:
  "distinct (map lfPath out) \<Longrightarrow> distinct (map lfPath (addListed fs out)) \<and>
     set (map lfPath (addListed fs out)) = set (map lfPath out) \<union> set (map lfPath fs)"
proof (induction fs arbitrary: out)
  case (Cons f fs)
  then show ?case
    using Cons.IH [of out] Cons.IH [of "out @ [f]"] by (auto simp: addListed_def)
qed (simp add: addListed_def)

fun namedIn :: "visit \<Rightarrow> string set" where
  "namedIn (WalkFile p m) =
     (if has_suffix p ''.json'' then (case m of Inl _ \<Rightarrow> {} | Inr fs \<Rightarrow> lfPath ` set fs) else {})"
| "namedIn (WalkErr absent) = {}"
| "namedIn WalkDir = {}"

lemma walkManifests_paths:
  "walkManifests vs out = Inr out' \<Longrightarrow> distinct (map lfPath out) \<Longrightarrow>
     distinct (map lfPath out') \<and> set (map lfPath out') = set (map lfPath out) \<union> (\<Union>v\<in>set vs. namedIn v)"
proof (induction vs out rule: walkManifests.induct)
  case (4 p m vs out)
  show ?case
  proof (cases "has_suffix p ''.json''")
    case True
    then obtain fs where m: "m = Inr fs" using 4(3) by (cases m) auto
    then have "walkManifests vs (addListed fs out) = Inr out'" using 4(3) True by simp
    with 4(2) [OF _ m] True addListed_paths [OF 4(4), of fs]
    show ?thesis using m by auto
  qed (use 4 in simp)
qed (auto split: if_splits)

lemma manifestedFiles_paths:
  assumes "manifestedFiles d = Inr listed"
  shows "distinct (map lfPath listed) \<and> set (map lfPath listed) = (\<Union>v\<in>set (dirManifests d). namedIn v)"
proof -
  obtain out where w: "walkManifests (dirManifests d) [] = Inr out" and l: "listed = sort_key lfPath out"
    using assms by (auto simp: manifestedFiles_def split: sum.splits)
  have "mset (map lfPath listed) = mset (map lfPath out)" by (simp add: l)
  then show ?thesis
    using walkManifests_paths [OF w] by (metis UN_simps(2) distinct.simps(1) list.map(1) list.set(1) mset_eq_imp_distinct_iff mset_eq_setD sup_bot_left)
qed

lemma Load_episode:
  assumes "Load d = Inr l" and m: "manifestedFiles d = Inr listed"
  shows "lakeEpisode l i = readEpisode d listed i"
proof -
  obtain ld where L: "loadFiles d listed \<lparr>ldLake = zeroLake d, ldPatches = [], ldSteps = []\<rparr> = Inr ld"
    and l: "l = (ldLake ld)\<lparr>lkEpisodes := sort_key lakeOrder
           (markPatched (ldPatches ld) (attachSteps (ldSteps ld) (lkEpisodes (ldLake ld)))),
         lkUnmanifested := countUnmanifested d listed\<rparr>"
    using Load_cases [OF assms(1)] m by (metis sum.inject(2))
  let ?eps = "keepFirst (rowsOf TableEpisodes (readEpisodes d) listed) []"
  let ?fin = "markPatched (ldPatches ld) (attachSteps (ldSteps ld) ?eps)"
  note R = loadFiles_rows [OF L]
  have fin: "?fin = map (\<lambda>e. e\<lparr>leSteps := (case map_of (ldSteps ld) (epEpisodeID (leEpisode e)) of
                                None \<Rightarrow> leSteps e | Some s \<Rightarrow> dedupeSteps s),
                              lePatched := (lePatched e \<or> epEpisodeID (leEpisode e) \<in> set (map epEpisodeID (ldPatches ld)))\<rparr>) ?eps"
    using R by (simp add: attachSteps_map markPatched_map)
  have D: "distinct (map (\<lambda>x. epEpisodeID (leEpisode x)) ?fin)"
    using keepFirst_distinct [of "[]"] unfolding fin by (simp add: comp_def)
  have "lakeEpisode l i = find (\<lambda>e. epEpisodeID (leEpisode e) = i) ?fin"
    using find_by_key_mset [OF _ D, of "sort_key lakeOrder ?fin" i] R by (simp add: lakeEpisode_def l zeroLake_def)
  also have "\<dots> = readEpisode d listed i"
  proof (cases "firstCopy i (rowsOf TableEpisodes (readEpisodes d) listed)")
    case None
    then show ?thesis unfolding fin by (simp add: find_map find_keepFirst readEpisode_def comp_def)
  next
    case (Some e)
    have "goget [] (ldSteps ld) i = stepsIn i (rowsOf TableSteps (readSteps d) listed)"
      using R by (simp add: goget_def)
    then have "(case map_of (ldSteps ld) i of None \<Rightarrow> [] | Some s \<Rightarrow> dedupeSteps s) =
        dedupeSteps (stepsIn i (rowsOf TableSteps (readSteps d) listed))"
      by (auto simp: goget_def split: option.splits)
    then show ?thesis
      using Some firstCopy_id [OF Some] R unfolding fin
      by (auto simp: find_map find_keepFirst readEpisode_def comp_def image_iff cong: option.case_cong)
  qed
  finally show ?thesis .
qed

lemma Load_lists:
  assumes "Load d = Inr l" and m: "manifestedFiles d = Inr listed"
  shows "distinct (map (\<lambda>x. epEpisodeID (leEpisode x)) (lkEpisodes l)) \<and> sorted (map lakeOrder (lkEpisodes l)) \<and>
    lkOutcomes l = rowsOf TableOutcomes (readOutcomes d) listed \<and> lkRewards l = rowsOf TableRewards (readRewards d) listed"
proof -
  obtain ld where L: "loadFiles d listed \<lparr>ldLake = zeroLake d, ldPatches = [], ldSteps = []\<rparr> = Inr ld"
    and l: "l = (ldLake ld)\<lparr>lkEpisodes := sort_key lakeOrder
           (markPatched (ldPatches ld) (attachSteps (ldSteps ld) (lkEpisodes (ldLake ld)))),
         lkUnmanifested := countUnmanifested d listed\<rparr>"
    using Load_cases [OF assms(1)] m by (metis sum.inject(2))
  note R = loadFiles_rows [OF L]
  let ?eps = "keepFirst (rowsOf TableEpisodes (readEpisodes d) listed) []"
  let ?fin = "markPatched (ldPatches ld) (attachSteps (ldSteps ld) ?eps)"
  have D: "distinct (map (\<lambda>x. epEpisodeID (leEpisode x)) ?fin)"
    using keepFirst_distinct [of "[]"] R by (simp add: attachSteps_map markPatched_map comp_def)
  have "mset (map (\<lambda>x. epEpisodeID (leEpisode x)) (sort_key lakeOrder ?fin)) = mset (map (\<lambda>x. epEpisodeID (leEpisode x)) ?fin)"
    by simp
  then have "distinct (map (\<lambda>x. epEpisodeID (leEpisode x)) (sort_key lakeOrder ?fin))"
    using D by (metis mset_eq_imp_distinct_iff)
  then show ?thesis using R by (simp add: l zeroLake_def)
qed

text \<open>A load fails only on a manifest or a listed file it cannot read.\<close>

definition readable :: "Directory \<Rightarrow> listedFile \<Rightarrow> bool" where
  "readable d f \<longleftrightarrow>
     (lfTable f = TableEpisodes \<longrightarrow> readEpisodes d (lfPath f) \<noteq> None) \<and>
     (lfTable f = TableSteps \<longrightarrow> readSteps d (lfPath f) \<noteq> None) \<and>
     (lfTable f = TableOutcomes \<longrightarrow> readOutcomes d (lfPath f) \<noteq> None) \<and>
     (lfTable f = TableRewards \<longrightarrow> readRewards d (lfPath f) \<noteq> None)"

lemma loadFiles_succeeds: "list_all (readable d) fs \<Longrightarrow> \<exists>ld'. loadFiles d fs ld = Inr ld'"
proof (induction fs arbitrary: ld)
  case (Cons f fs)
  then have "\<exists>ld1. loadFile d f ld = Inr ld1" by (auto simp: loadFile_def readable_def)
  then show ?case using Cons by auto
qed simp

lemma Load_succeeds: "manifestedFiles d = Inr listed \<Longrightarrow> list_all (readable d) listed \<Longrightarrow> \<exists>l. Load d = Inr l"
  using loadFiles_succeeds [of d listed "\<lparr>ldLake = zeroLake d, ldPatches = [], ldSteps = []\<rparr>"] by (auto simp: Load_def)

section \<open>Properties\<close>

lemma orderedSteps_key:
  assumes "length (spans f) < 2 ^ 31"
  shows "sorted (map stepOrder (orderedSteps f)) \<and> distinct (map stStepIdx (orderedSteps f))"
proof
  have idx: "stStepIdx (orderedSteps f ! i) = int i" if "i < length (orderedSteps f)" for i
    using that assms by (simp add: nth_orderedSteps)
  then show "distinct (map stStepIdx (orderedSteps f))"
    by (simp add: distinct_conv_nth)
  show "sorted (map stepOrder (orderedSteps f))"
    using sorted_startedAt_orderedSteps [of f] idx
    by (auto simp: sorted_iff_nth_mono less_eq_prod_def intro: order_le_neq_trans)
qed

text \<open>
  C9. A load reads exactly the manifested rows: the files read are those some manifest names, each
  once; every episode id appears once, in order of start and id; the episode read for an id is the
  first row of that id that is not a patch, with the deduplicated steps of that id from all listed
  step files, marked when a patch row exists; outcomes and rewards are all listed rows.
\<close>

theorem load_reads_manifested_rows:
  assumes "Load d = Inr l"
  shows "\<exists>listed. manifestedFiles d = Inr listed \<and> distinct (map lfPath listed) \<and>
    set (map lfPath listed) = (\<Union>v\<in>set (dirManifests d). namedIn v) \<and>
    distinct (map (\<lambda>x. epEpisodeID (leEpisode x)) (lkEpisodes l)) \<and> sorted (map lakeOrder (lkEpisodes l)) \<and>
    (\<forall>i. lakeEpisode l i = readEpisode d listed i) \<and>
    lkOutcomes l = rowsOf TableOutcomes (readOutcomes d) listed \<and>
    lkRewards l = rowsOf TableRewards (readRewards d) listed"
proof -
  obtain listed where "manifestedFiles d = Inr listed"
    using Load_cases [OF assms] by metis
  then show ?thesis
    using manifestedFiles_paths Load_lists [OF assms] Load_episode [OF assms] by blast
qed

text \<open>
  C10. An assembled episode is read back exactly: take an episode as the assembler closed it,
  written any number of times, its step rows spread over any listed files in any order. If the
  listed rows of its id are copies of its rows, at least one of each, the reader returns the
  episode once, with precisely the assembler's steps in the assembler's order.
\<close>

theorem assembled_episode_read_back:
  assumes "Load d = Inr l" and "manifestedFiles d = Inr listed" and "length (spans f) < 2 ^ 31"
    and "status \<noteq> StatusPatched" and "out = closedEpisode a f status now"
    and "set (stepsIn (episodeID f) (rowsOf TableSteps (readSteps d) listed)) = set (asSteps out)"
    and "asEpisode out \<in> set (rowsOf TableEpisodes (readEpisodes d) listed)"
    and "\<forall>e \<in> set (rowsOf TableEpisodes (readEpisodes d) listed). epEpisodeID e = episodeID f \<longrightarrow> e = asEpisode out"
  shows "lakeEpisode l (episodeID f) = Some \<lparr>leEpisode = asEpisode out, leSteps = asSteps out, lePatched = False\<rparr>"
proof -
  have out: "asSteps out = orderedSteps f" "epEpisodeID (asEpisode out) = episodeID f" "epStatus (asEpisode out) = status"
    using assms(5) by (simp_all add: closedEpisode_def Let_def)
  have "dedupeSteps (stepsIn (episodeID f) (rowsOf TableSteps (readSteps d) listed)) = asSteps out"
    using assms(6) orderedSteps_key [OF assms(3)] by (intro dedupeSteps_exact) (simp_all add: out)
  moreover have "firstCopy (episodeID f) (rowsOf TableEpisodes (readEpisodes d) listed) = Some (asEpisode out)"
  proof (cases "firstCopy (episodeID f) (rowsOf TableEpisodes (readEpisodes d) listed)")
    case None
    then show ?thesis using assms(4,7) out by (auto simp: firstCopy_def find_None_iff)
  next
    case (Some e)
    then show ?thesis using firstCopy_id assms(8) by metis
  qed
  moreover have "\<not> (\<exists>p \<in> set (rowsOf TableEpisodes (readEpisodes d) listed). epStatus p = StatusPatched \<and> epEpisodeID p = episodeID f)"
    using assms(4,8) out by metis
  ultimately show ?thesis
    using Load_episode [OF assms(1,2), of "episodeID f"] by (simp add: readEpisode_def)
qed

subsection \<open>An example lake\<close>

text \<open>The two-span episode of the assembler's example, written twice; the second copy of the steps
  is in reverse order.\<close>

definition exAssembled :: Assembled where
  "exAssembled = closedEpisode
     (New \<lparr>Tenant = ''t'', Window = 1, MaxInFlight = 1, SettleAfterTerminal = 1, PatchMemory = 1,
           Now = (\<lambda>_. 0), NewID = (\<lambda>_. ''e'')\<rparr>) exLinked StatusComplete 0"

definition exDirectory :: Directory where
  "exDirectory =
     \<lparr>dirManifests = [WalkDir, WalkFile ''m.json'' (Inr [\<lparr>lfPath = ''s1'', lfTable = TableSteps\<rparr>,
        \<lparr>lfPath = ''ep'', lfTable = TableEpisodes\<rparr>, \<lparr>lfPath = ''s2'', lfTable = TableSteps\<rparr>])],
      dirTables = (\<lambda>t. []), readEpisodes = (\<lambda>p. Some [asEpisode exAssembled, asEpisode exAssembled]),
      readSteps = (\<lambda>p. Some (if p = ''s1'' then asSteps exAssembled else rev (asSteps exAssembled))),
      readOutcomes = (\<lambda>p. None), readRewards = (\<lambda>p. None), readBlob = (\<lambda>p. None)\<rparr>"

lemma exDirectory_listed:
  "manifestedFiles exDirectory = Inr [\<lparr>lfPath = ''ep'', lfTable = TableEpisodes\<rparr>,
     \<lparr>lfPath = ''s1'', lfTable = TableSteps\<rparr>, \<lparr>lfPath = ''s2'', lfTable = TableSteps\<rparr>]"
  by (simp add: manifestedFiles_def exDirectory_def has_suffix_def addListed_def)

lemma exDirectory_loads: "\<exists>l. Load exDirectory = Inr l"
  by (rule Load_succeeds [OF exDirectory_listed]) (simp add: readable_def exDirectory_def table_names)

lemma exDirectory_rows:
  "rowsOf TableEpisodes (readEpisodes exDirectory) [\<lparr>lfPath = ''ep'', lfTable = TableEpisodes\<rparr>,
     \<lparr>lfPath = ''s1'', lfTable = TableSteps\<rparr>, \<lparr>lfPath = ''s2'', lfTable = TableSteps\<rparr>] =
     [asEpisode exAssembled, asEpisode exAssembled]"
  "rowsOf TableSteps (readSteps exDirectory) [\<lparr>lfPath = ''ep'', lfTable = TableEpisodes\<rparr>,
     \<lparr>lfPath = ''s1'', lfTable = TableSteps\<rparr>, \<lparr>lfPath = ''s2'', lfTable = TableSteps\<rparr>] =
     asSteps exAssembled @ rev (asSteps exAssembled)"
  by (simp_all add: rowsOf_def exDirectory_def table_names)

theorem load_reads_manifested_rows_witness:
  "\<exists>l listed. Load exDirectory = Inr l \<and> manifestedFiles exDirectory = Inr listed \<and>
     lakeEpisode l ''e'' = readEpisode exDirectory listed ''e''"
  using exDirectory_loads load_reads_manifested_rows [of exDirectory] by metis

theorem assembled_episode_read_back_witness:
  "\<exists>l. Load exDirectory = Inr l \<and>
     lakeEpisode l ''e'' = Some \<lparr>leEpisode = asEpisode exAssembled, leSteps = asSteps exAssembled, lePatched = False\<rparr>"
proof -
  obtain l where l: "Load exDirectory = Inr l" using exDirectory_loads ..
  have e: "episodeID exLinked = ''e''" and n: "length (spans exLinked) < 2 ^ 31"
    by (simp_all add: exLinked_def exInFlight_def)
  have "stEpisodeID s = ''e''" if "s \<in> set (asSteps exAssembled)" for s
    using that by (auto simp: exAssembled_def closedEpisode_def Let_def in_set_conv_nth nth_orderedSteps e)
  then have "stepsIn ''e'' (asSteps exAssembled @ rev (asSteps exAssembled)) = asSteps exAssembled @ rev (asSteps exAssembled)"
    by (simp add: stepsIn_def filter_id_conv)
  then have steps: "set (stepsIn (episodeID exLinked) (asSteps exAssembled @ rev (asSteps exAssembled))) = set (asSteps exAssembled)"
    by (simp add: e)
  have "lakeEpisode l (episodeID exLinked) =
      Some \<lparr>leEpisode = asEpisode exAssembled, leSteps = asSteps exAssembled, lePatched = False\<rparr>"
    by (rule assembled_episode_read_back [OF l exDirectory_listed n _ exAssembled_def])
      (unfold exDirectory_rows, simp add: enum_values, rule steps, simp_all)
  then show ?thesis using l by (simp add: e)
qed

end
