(* ===== verification/Join_Props.thy ===== *)
theory Join_Props
  imports Join Lakeread_Props
begin

text \<open>
  The promises of the outcome join: the same as-of gives the same labels whatever is observed
  later, an outcome goes to the newest episode that can have caused it, and every outcome is
  counted once. A last theorem shows what a final label does not promise.
\<close>

section \<open>Episodes by key\<close>

definition keysOf :: "LakeEpisode \<Rightarrow> keyID set" where
  "keysOf ep = (\<lambda>k. (ekName k, ekValue k)) ` set (epEntityKeys (leEpisode ep))"

lemma set_indexEpisode:
  "set (indexEpisode (i, ep) m k) = set (m k) \<union> (if k \<in> keysOf ep then {i} else {})"
proof -
  have "set (fold (\<lambda>k m. m((ekName k, ekValue k) := m (ekName k, ekValue k) @ [i])) ks m k) =
      set (m k) \<union> (if k \<in> (\<lambda>k. (ekName k, ekValue k)) ` set ks then {i} else {})" for ks
    by (induction ks arbitrary: m) auto
  from this [of "epEntityKeys (leEpisode ep)"] show ?thesis by (simp add: indexEpisode_def keysOf_def)
qed

lemma set_fold_indexEpisode:
  "set (fold indexEpisode (List.enumerate n eps) m k) =
     set (m k) \<union> {n + i |i. i < length eps \<and> k \<in> keysOf (eps ! i)}"
proof (induction eps arbitrary: n m)
  case (Cons ep eps)
  have "{n + i |i. i < length (ep # eps) \<and> k \<in> keysOf ((ep # eps) ! i)} =
      (if k \<in> keysOf ep then {n} else {}) \<union> {Suc n + i |i. i < length eps \<and> k \<in> keysOf (eps ! i)}"
    (is "?L = ?R")
  proof (rule set_eqI)
    fix j
    show "j \<in> ?L \<longleftrightarrow> j \<in> ?R"
      by (cases "j = n") (auto simp: less_Suc_eq_0_disj)
  qed
  then show ?case using Cons [of "Suc n"] by (simp add: set_indexEpisode Un_assoc)
qed simp

lemma set_byKeyNewest: "set (byKeyNewest eps k) = {i. i < length eps \<and> k \<in> keysOf (eps ! i)}"
  using set_fold_indexEpisode [of 0 eps "\<lambda>_. []" k] by (simp add: byKeyNewest_def)

lemma sorted_byKeyNewest: "sorted (map (\<lambda>i. - startOf eps i) (byKeyNewest eps k))"
  by (simp add: byKeyNewest_def)

section \<open>Attribution\<close>

text \<open>The reference: an episode can have caused an outcome when it touched the key, began before the
  outcome and its horizon was open when the outcome occurred.\<close>

definition eligible :: "int \<Rightarrow> LakeEpisode list \<Rightarrow> Outcome \<Rightarrow> nat \<Rightarrow> bool" where
  "eligible horizonUS eps oc i \<longleftrightarrow>
     i < length eps \<and> (nameOf oc, ocEntityKey oc) \<in> keysOf (eps ! i) \<and>
     startOf eps i \<le> ocOccurredAt oc \<and> ocOccurredAt oc \<le> horizonOf horizonUS (eps ! i)"

definition touched :: "bool \<Rightarrow> int \<Rightarrow> LakeEpisode list \<Rightarrow> Outcome \<Rightarrow> nat list" where
  "touched all horizonUS eps oc =
     (let ok = filter (eligible horizonUS eps oc) (byKeyNewest eps (nameOf oc, ocEntityKey oc))
      in if all then ok else take 1 ok)"

lemma touched_eligible: "i \<in> set (touched all horizonUS eps oc) \<Longrightarrow> eligible horizonUS eps oc i"
  by (auto simp: touched_def Let_def dest: in_set_takeD split: if_splits)

lemma touched_None:
  "touched all horizonUS eps oc = [] \<longleftrightarrow> (\<forall>i. \<not> eligible horizonUS eps oc i)"
proof -
  have "eligible horizonUS eps oc i \<Longrightarrow> i \<in> set (byKeyNewest eps (nameOf oc, ocEntityKey oc))" for i
    by (simp add: set_byKeyNewest eligible_def)
  then show ?thesis by (auto simp: touched_def Let_def filter_empty_conv)
qed

lemma touched_newest:
  assumes "touched False horizonUS eps oc = [i]" and "eligible horizonUS eps oc j"
  shows "startOf eps j \<le> startOf eps i"
proof -
  let ?ok = "filter (eligible horizonUS eps oc) (byKeyNewest eps (nameOf oc, ocEntityKey oc))"
  obtain rest where ok: "?ok = i # rest"
    using assms(1) by (cases ?ok) (auto simp: touched_def Let_def)
  have "sorted (map (\<lambda>i. - startOf eps i) ?ok)"
    using sorted_byKeyNewest by (rule sorted_filter)
  moreover have "j \<in> set ?ok"
    using assms(2) by (simp add: set_byKeyNewest eligible_def)
  ultimately show ?thesis unfolding ok by auto
qed

lemma touched_last: "touched False horizonUS eps oc = [] \<or> (\<exists>i. touched False horizonUS eps oc = [i])"
  by (cases "filter (eligible horizonUS eps oc) (byKeyNewest eps (nameOf oc, ocEntityKey oc))")
    (auto simp: touched_def Let_def)

text \<open>What every step of the join keeps of the labels: their number and their fixed fields.\<close>

definition joined :: "int \<Rightarrow> LakeEpisode list \<Rightarrow> Label list \<Rightarrow> bool" where
  "joined horizonUS eps labels \<longleftrightarrow> map lbHorizonClosesAt labels = map (horizonOf horizonUS) eps"

lemma joined_nth:
  "joined horizonUS eps labels \<Longrightarrow>
     length labels = length eps \<and> (i < length eps \<longrightarrow> lbHorizonClosesAt (labels ! i) = horizonOf horizonUS (eps ! i))"
  unfolding joined_def by (metis length_map nth_map)

definition addOutcome :: "Outcome \<Rightarrow> nat \<Rightarrow> Label list \<Rightarrow> Label list" where
  "addOutcome oc i labels =
     labels[i := (labels ! i)\<lparr>lbOutcomes := lbOutcomes (labels ! i) @ [toOutcome oc (nameOf oc)]\<rparr>]"

lemma joined_addOutcome [inv_keep]:
  "joined horizonUS eps labels \<Longrightarrow> joined horizonUS eps (addOutcome oc i labels)"
  unfolding joined_def addOutcome_def by (metis Label.ext_inject Label.surjective Label.update_convs(15) list_update_id map_update)

lemma joined_fold_addOutcome [inv_keep]:
  "joined horizonUS eps labels \<Longrightarrow> joined horizonUS eps (fold (addOutcome oc) ts labels)"
  by (induction ts arbitrary: labels) (simp_all add: inv_keep)

lemma fold_addOutcome_nth:
  "i < length labels \<Longrightarrow>
     fold (addOutcome oc) ts labels ! i =
       (labels ! i)\<lparr>lbOutcomes := lbOutcomes (labels ! i) @ replicate (count_list ts i) (toOutcome oc (nameOf oc))\<rparr>"
proof (induction ts arbitrary: labels)
  case (Cons t ts)
  have "i < length (addOutcome oc t labels)" using Cons.prems by (simp add: addOutcome_def)
  then show ?case
    using Cons by (cases "t = i") (simp_all add: addOutcome_def replicate_app_Cons_same)
qed simp

lemma attach_touched:
  assumes "joined horizonUS eps labels" and "set is \<subseteq> set (byKeyNewest eps (nameOf oc, ocEntityKey oc))"
  shows "attach all eps oc is (matched, labels) =
    (let ok = filter (eligible horizonUS eps oc) is; ts = (if all then ok else take 1 ok)
     in (matched \<or> ts \<noteq> [], fold (addOutcome oc) ts labels))"
  using assms
proof (induction "is" arbitrary: labels matched)
  case (Cons i "is")
  have i: "i < length eps" "(nameOf oc, ocEntityKey oc) \<in> keysOf (eps ! i)"
    using Cons.prems(2) by (auto simp: set_byKeyNewest)
  then have elig: "eligible horizonUS eps oc i \<longleftrightarrow>
      \<not> (ocOccurredAt oc < startOf eps i \<or> ocOccurredAt oc > lbHorizonClosesAt (labels ! i))"
    using joined_nth [OF Cons.prems(1), of i] by (auto simp: eligible_def)
  show ?case
  proof (cases "eligible horizonUS eps oc i")
    case False
    then show ?thesis using Cons elig by (auto simp: Let_def)
  next
    case True
    then have "attach all eps oc (i # is) (matched, labels) =
        (if all then attach all eps oc is (True, addOutcome oc i labels) else (True, addOutcome oc i labels))"
      using elig by (simp add: addOutcome_def)
    then show ?thesis
      using True Cons.IH [OF joined_addOutcome [OF Cons.prems(1)]] Cons.prems(2)
      by (cases all) (simp_all add: Let_def)
  qed
qed simp

lemma joinOutcome_visible:
  assumes "joined horizonUS eps labels" and "ocObservedAt oc \<le> asOfUS"
  shows "joinOutcome all asOfUS eps oc (labels, st) =
    (fold (addOutcome oc) (touched all horizonUS eps oc) labels,
     if touched all horizonUS eps oc \<noteq> []
     then st\<lparr>jsOutcomes := jsOutcomes st + 1, jsAttributed := jsAttributed st + 1\<rparr>
     else st\<lparr>jsOutcomes := jsOutcomes st + 1, jsUnattributed := jsUnattributed st + 1\<rparr>)"
  using assms(2) attach_touched [OF assms(1) subset_refl, of all oc False]
  by (simp add: joinOutcome_def touched_def Let_def)

lemma joinOutcome_future:
  "ocObservedAt oc > asOfUS \<Longrightarrow>
     joinOutcome all asOfUS eps oc (labels, st) = (labels, st\<lparr>jsFutureObserved := jsFutureObserved st + 1\<rparr>)"
  by (simp add: joinOutcome_def)

definition visible :: "int \<Rightarrow> Outcome list \<Rightarrow> Outcome list" where
  "visible asOfUS ocs = filter (\<lambda>oc. ocObservedAt oc \<le> asOfUS) ocs"

definition received :: "bool \<Rightarrow> int \<Rightarrow> LakeEpisode list \<Rightarrow> Outcome list \<Rightarrow> nat \<Rightarrow> JoinOutcome list" where
  "received all horizonUS eps ocs i =
     concat (map (\<lambda>oc. replicate (count_list (touched all horizonUS eps oc) i) (toOutcome oc (nameOf oc))) ocs)"

lemma fold_joinOutcome_labels:
  assumes "joined horizonUS eps labels"
  shows "joined horizonUS eps (fst (fold (joinOutcome all asOfUS eps) ocs (labels, st))) \<and>
    (\<forall>i < length eps. fst (fold (joinOutcome all asOfUS eps) ocs (labels, st)) ! i =
       (labels ! i)\<lparr>lbOutcomes := lbOutcomes (labels ! i) @ received all horizonUS eps (visible asOfUS ocs) i\<rparr>)"
  using assms
proof (induction ocs arbitrary: labels st)
  case Nil
  then show ?case by (simp add: received_def visible_def)
next
  case (Cons oc ocs)
  show ?case
  proof (cases "ocObservedAt oc \<le> asOfUS")
    case True
    let ?labels = "fold (addOutcome oc) (touched all horizonUS eps oc) labels"
    have J: "joined horizonUS eps ?labels" using Cons.prems by (rule joined_fold_addOutcome)
    have N: "?labels ! i = (labels ! i)\<lparr>lbOutcomes := lbOutcomes (labels ! i)
        @ replicate (count_list (touched all horizonUS eps oc) i) (toOutcome oc (nameOf oc))\<rparr>" if "i < length eps" for i
      using that joined_nth [OF Cons.prems] by (simp add: fold_addOutcome_nth)
    have R: "received all horizonUS eps (visible asOfUS (oc # ocs)) i =
        replicate (count_list (touched all horizonUS eps oc) i) (toOutcome oc (nameOf oc))
        @ received all horizonUS eps (visible asOfUS ocs) i" for i
      using True by (simp add: received_def visible_def)
    show ?thesis
      using Cons.IH [OF J] by (simp add: joinOutcome_visible [OF Cons.prems True] N R)
  next
    case False
    then show ?thesis
      using Cons.IH [OF Cons.prems] by (simp add: joinOutcome_future visible_def)
  qed
qed

section \<open>Counters\<close>

lemma fold_joinOutcome_stats:
  assumes "joined horizonUS eps labels"
  shows "snd (fold (joinOutcome all asOfUS eps) ocs (labels, st)) =
    st\<lparr>jsOutcomes := jsOutcomes st + int (length (visible asOfUS ocs)),
       jsAttributed := jsAttributed st + int (length (filter (\<lambda>oc. touched all horizonUS eps oc \<noteq> []) (visible asOfUS ocs))),
       jsUnattributed := jsUnattributed st + int (length (filter (\<lambda>oc. touched all horizonUS eps oc = []) (visible asOfUS ocs))),
       jsFutureObserved := jsFutureObserved st + int (length (filter (\<lambda>oc. ocObservedAt oc > asOfUS) ocs))\<rparr>"
  using assms
proof (induction ocs arbitrary: labels st)
  case (Cons oc ocs)
  show ?case
  proof (cases "ocObservedAt oc \<le> asOfUS")
    case True
    then show ?thesis
      using Cons.IH [OF joined_fold_addOutcome [OF Cons.prems]]
      by (simp add: joinOutcome_visible [OF Cons.prems True] visible_def)
  next
    case False
    then show ?thesis
      using Cons.IH [OF Cons.prems] by (simp add: joinOutcome_future visible_def)
  qed
qed (simp add: visible_def)

lemma dropRepeats_stats:
  "snd (dropRepeats seen ocs st) =
     st\<lparr>jsDuplicates := jsDuplicates st + int (length ocs) - int (length (fst (dropRepeats seen ocs st)))\<rparr>"
  by (induction seen ocs st rule: dropRepeats.induct) (auto split: prod.splits)

lemma dedupe_stats:
  "snd (dedupe ocs st) =
     st\<lparr>jsDuplicates := jsDuplicates st + int (length ocs) - int (length (fst (dedupe ocs st)))\<rparr>"
  unfolding dedupe_def by (subst dropRepeats_stats) simp

lemma dropRepeats_stats_indep: "fst (dropRepeats seen ocs st) = fst (dropRepeats seen ocs st')"
proof (induction seen ocs st arbitrary: st' rule: dropRepeats.induct)
  case (2 seen oc ocs st)
  show ?case
  proof (cases "dedupeKey oc \<in> set seen")
    case True
    then show ?thesis using 2(1) by simp
  next
    case False
    then show ?thesis using 2(2) [of st'] by (simp add: case_prod_beta)
  qed
qed simp

lemma dropRepeats_visible:
  "sorted (map ocObservedAt ocs) \<Longrightarrow>
     visible asOfUS (fst (dropRepeats seen ocs st)) = fst (dropRepeats seen (visible asOfUS ocs) st)"
proof (induction seen ocs st rule: dropRepeats.induct)
  case (2 seen oc ocs st)
  show ?case
  proof (cases "ocObservedAt oc \<le> asOfUS")
    case False
    have sub: "set (fst (dropRepeats seen ocs st)) \<subseteq> set ocs" for seen ocs st
      by (induction seen ocs st rule: dropRepeats.induct) (auto split: prod.splits)
    have "visible asOfUS xs = []" if "set xs \<subseteq> set (oc # ocs)" for xs
      using that False "2.prems" by (fastforce simp: visible_def filter_empty_conv)
    then show ?thesis using sub [of seen "oc # ocs" st] by simp
  next
    case True
    then show ?thesis
      using 2 dropRepeats_stats_indep [of seen "visible asOfUS ocs" "st\<lparr>jsDuplicates := jsDuplicates st + 1\<rparr>" st]
      by (simp add: visible_def case_prod_beta)
  qed
qed (simp add: visible_def)

lemma dedupe_visible:
  "visible asOfUS (fst (dedupe ocs st)) = fst (dedupe (visible asOfUS ocs) st)"
  by (simp add: dedupe_def dropRepeats_visible) (simp add: visible_def filter_sort)

lemma fold_countLabel:
  "\<forall>lb \<in> set labels. lbLabelStatus lb \<in> {StatusFinal, StatusProvisional, StatusUnjoinable} \<Longrightarrow>
   jsEpisodes (fold countLabel labels st) = jsEpisodes st + int (length labels) \<and>
   jsFinal (fold countLabel labels st) + jsProvisional (fold countLabel labels st) + jsUnjoinable (fold countLabel labels st) =
     jsFinal st + jsProvisional st + jsUnjoinable st + int (length labels)"
  by (induction labels arbitrary: st) (auto simp: countLabel_def Let_def)

lemma fold_countLabel_frame [op_frame]:
  "jsOutcomes (fold countLabel labels st) = jsOutcomes st"
  "jsAttributed (fold countLabel labels st) = jsAttributed st"
  "jsUnattributed (fold countLabel labels st) = jsUnattributed st"
  "jsFutureObserved (fold countLabel labels st) = jsFutureObserved st"
  "jsDuplicates (fold countLabel labels st) = jsDuplicates st"
  by (induction labels arbitrary: st) (simp_all add: countLabel_def Let_def)

section \<open>The result of a join\<close>

lemma joined_newLabels: "joined horizonUS eps (map (newLabel asOfUS horizonUS) eps)"
  by (simp add: joined_def newLabel_def Let_def)

definition facts :: "Lake \<Rightarrow> Outcome list" where
  "facts l = fst (dedupe (lkOutcomes l) zeroJoinStats)"

lemma Run_eq:
  "Run l o0 now =
     (let r = fold (joinOutcome (joAttribution o0 = ''all'') (asOfMicro o0 now) (lkEpisodes l)) (facts l)
                (map (newLabel (asOfMicro o0 now) (horizonMicro o0)) (lkEpisodes l),
                 snd (dedupe (lkOutcomes l) zeroJoinStats))
      in (map finishLabel (fst r), fold countLabel (map finishLabel (fst r)) (snd r)))"
  by (simp add: Run_def facts_def Let_def split: prod.splits)

lemma Run_label:
  assumes "i < length (lkEpisodes l)"
  shows "length (fst (Run l o0 now)) = length (lkEpisodes l) \<and>
    fst (Run l o0 now) ! i =
      finishLabel ((newLabel (asOfMicro o0 now) (horizonMicro o0) (lkEpisodes l ! i))\<lparr>lbOutcomes :=
        received (joAttribution o0 = ''all'') (horizonMicro o0) (lkEpisodes l) (visible (asOfMicro o0 now) (facts l)) i\<rparr>)"
proof -
  note F = fold_joinOutcome_labels [OF joined_newLabels [of "horizonMicro o0" "lkEpisodes l" "asOfMicro o0 now"],
      where all = "joAttribution o0 = ''all''" and asOfUS = "asOfMicro o0 now" and ocs = "facts l"
        and st = "snd (dedupe (lkOutcomes l) zeroJoinStats)"]
  show ?thesis
    using F assms joined_nth [OF conjunct1 [OF F]] by (simp add: Run_eq Let_def newLabel_def)
qed

lemma received_last:
  "received False horizonUS eps ocs i =
     map (\<lambda>oc. toOutcome oc (nameOf oc)) (filter (\<lambda>oc. touched False horizonUS eps oc = [i]) ocs)"
proof (induction ocs)
  case (Cons oc ocs)
  then show ?case using touched_last [of horizonUS eps oc] by (auto simp: received_def)
qed (simp add: received_def)

lemma label_status_newLabel:
  "lbLabelStatus (newLabel asOfUS horizonUS ep) \<in> {StatusFinal, StatusProvisional, StatusUnjoinable}"
  by (simp add: newLabel_def Let_def)

lemma Run_length [simp]: "length (fst (Run l o0 now)) = length (lkEpisodes l)"
  using fold_joinOutcome_labels [OF joined_newLabels [of "horizonMicro o0" "lkEpisodes l" "asOfMicro o0 now"], THEN conjunct1, THEN joined_nth]
  by (simp add: Run_eq Let_def)

lemma Run_label_status:
  assumes "lb \<in> set (fst (Run l o0 now))"
  shows "lbLabelStatus lb \<in> {StatusFinal, StatusProvisional, StatusUnjoinable}"
proof -
  obtain i where i: "i < length (fst (Run l o0 now))" and lb: "lb = fst (Run l o0 now) ! i"
    using assms by (metis in_set_conv_nth)
  have "lb = finishLabel ((newLabel (asOfMicro o0 now) (horizonMicro o0) (lkEpisodes l ! i))\<lparr>lbOutcomes :=
      received (joAttribution o0 = ''all'') (horizonMicro o0) (lkEpisodes l) (visible (asOfMicro o0 now) (facts l)) i\<rparr>)"
    using Run_label [of i l o0 now] i lb by simp
  then show ?thesis using label_status_newLabel by (simp add: finishLabel_def Let_def)
qed

section \<open>Properties\<close>

text \<open>
  C23. The join is evaluated as of its point in time: two lakes with the same episodes whose outcomes
  agree on everything observed up to \<open>as_of\<close> give the same labels and the same attribution counts,
  whatever was observed later and whenever the join is run.
\<close>

theorem join_as_of_stable:
  assumes "lkEpisodes l = lkEpisodes l'" and "joAsOf o0 = Some t"
    and "visible (unixMicro t) (lkOutcomes l) = visible (unixMicro t) (lkOutcomes l')"
  shows "fst (Run l o0 now) = fst (Run l' o0 now') \<and>
    jsAttributed (snd (Run l o0 now)) = jsAttributed (snd (Run l' o0 now')) \<and>
    jsUnattributed (snd (Run l o0 now)) = jsUnattributed (snd (Run l' o0 now'))"
proof -
  have T: "asOfMicro o0 n = unixMicro t" for n using assms(2) by (simp add: asOfMicro_def)
  have V: "visible (unixMicro t) (facts l) = visible (unixMicro t) (facts l')"
    by (simp add: facts_def dedupe_visible assms(3))
  have "fst (Run l o0 now) = fst (Run l' o0 now')"
  proof (rule nth_equalityI)
    fix i
    assume "i < length (fst (Run l o0 now))"
    then show "fst (Run l o0 now) ! i = fst (Run l' o0 now') ! i"
      using Run_label [of i l o0 now] Run_label [of i l' o0 now'] assms(1) V by (simp add: T)
  qed (simp add: assms(1))
  moreover have Z: "jsAttributed (snd (dedupe ocs zeroJoinStats)) = 0" "jsUnattributed (snd (dedupe ocs zeroJoinStats)) = 0" for ocs
    by (simp_all add: dedupe_stats zeroJoinStats_def)
  ultimately show ?thesis
    using assms(1) V by (simp add: Run_eq Let_def op_frame fold_joinOutcome_stats [OF joined_newLabels] T Z)
qed

text \<open>
  C24. Last touch: without the attribution mode \<^verbatim>\<open>all\<close>, the outcomes of the \<open>i\<close>-th label are, oldest
  first, exactly the deduplicated outcomes observed by \<open>as_of\<close> whose target is that episode. The
  target is an episode that carries the outcome's key, started no later than the outcome and had
  its horizon open, and no such episode started later; an outcome without one is in no label.
\<close>

theorem join_last_touch:
  assumes "joAttribution o0 \<noteq> ''all''" and "i < length (lkEpisodes l)"
  shows "lbOutcomes (fst (Run l o0 now) ! i) =
      sort_key (\<lambda>x. (joOccurredAt x, joObservedAt x))
        (map (\<lambda>oc. toOutcome oc (nameOf oc))
          (filter (\<lambda>oc. touched False (horizonMicro o0) (lkEpisodes l) oc = [i]) (visible (asOfMicro o0 now) (facts l)))) \<and>
    (\<forall>oc. case touched False (horizonMicro o0) (lkEpisodes l) oc of
        [] \<Rightarrow> (\<forall>j. \<not> eligible (horizonMicro o0) (lkEpisodes l) oc j)
      | k # r \<Rightarrow> r = [] \<and> eligible (horizonMicro o0) (lkEpisodes l) oc k \<and>
          (\<forall>j. eligible (horizonMicro o0) (lkEpisodes l) oc j \<longrightarrow> startOf (lkEpisodes l) j \<le> startOf (lkEpisodes l) k))"
proof (intro conjI allI)
  show "lbOutcomes (fst (Run l o0 now) ! i) =
      sort_key (\<lambda>x. (joOccurredAt x, joObservedAt x))
        (map (\<lambda>oc. toOutcome oc (nameOf oc))
          (filter (\<lambda>oc. touched False (horizonMicro o0) (lkEpisodes l) oc = [i]) (visible (asOfMicro o0 now) (facts l))))"
    using Run_label [OF assms(2), of o0 now] assms(1) by (simp add: received_last finishLabel_def Let_def)
next
  fix oc
  consider "touched False (horizonMicro o0) (lkEpisodes l) oc = []"
    | k where "touched False (horizonMicro o0) (lkEpisodes l) oc = [k]" using touched_last by blast
  then show "case touched False (horizonMicro o0) (lkEpisodes l) oc of
        [] \<Rightarrow> (\<forall>j. \<not> eligible (horizonMicro o0) (lkEpisodes l) oc j)
      | k # r \<Rightarrow> r = [] \<and> eligible (horizonMicro o0) (lkEpisodes l) oc k \<and>
          (\<forall>j. eligible (horizonMicro o0) (lkEpisodes l) oc j \<longrightarrow> startOf (lkEpisodes l) j \<le> startOf (lkEpisodes l) k)"
  proof cases
    case 1
    then have "\<forall>j. \<not> eligible (horizonMicro o0) (lkEpisodes l) oc j"
      using touched_None [of False "horizonMicro o0" "lkEpisodes l" oc] by blast
    then show ?thesis using 1 by simp
  next
    case (2 k)
    moreover have "eligible (horizonMicro o0) (lkEpisodes l) oc k"
      using touched_eligible [of k False "horizonMicro o0" "lkEpisodes l" oc] 2 by simp
    ultimately show ?thesis using touched_newest [OF 2] by simp
  qed
qed

text \<open>
  Every outcome is accounted for: duplicates, outcomes observed too late and counted outcomes add
  up to the lake's outcomes; a counted outcome is attributed or not; and every episode has one label
  that is final, provisional or unjoinable.
\<close>

theorem join_conserves_outcomes:
  assumes "Run l o0 now = (labels, st)"
  shows "jsOutcomes st + jsFutureObserved st + jsDuplicates st = int (length (lkOutcomes l)) \<and>
    jsAttributed st + jsUnattributed st = jsOutcomes st \<and>
    length labels = length (lkEpisodes l) \<and> jsEpisodes st = int (length (lkEpisodes l)) \<and>
    jsFinal st + jsProvisional st + jsUnjoinable st = jsEpisodes st"
proof -
  let ?r = "fold (joinOutcome (joAttribution o0 = ''all'') (asOfMicro o0 now) (lkEpisodes l)) (facts l)
      (map (newLabel (asOfMicro o0 now) (horizonMicro o0)) (lkEpisodes l), snd (dedupe (lkOutcomes l) zeroJoinStats))"
  have R: "labels = fst (Run l o0 now)" "labels = map finishLabel (fst ?r)" "st = fold countLabel labels (snd ?r)"
    using assms by (simp_all add: Run_eq Let_def) (auto simp: Run_eq Let_def)
  have S: "snd ?r = (zeroJoinStats\<lparr>jsDuplicates := int (length (lkOutcomes l)) - int (length (facts l))\<rparr>)
      \<lparr>jsOutcomes := int (length (visible (asOfMicro o0 now) (facts l))),
       jsAttributed := int (length (filter (\<lambda>oc. touched (joAttribution o0 = ''all'') (horizonMicro o0) (lkEpisodes l) oc \<noteq> []) (visible (asOfMicro o0 now) (facts l)))),
       jsUnattributed := int (length (filter (\<lambda>oc. touched (joAttribution o0 = ''all'') (horizonMicro o0) (lkEpisodes l) oc = []) (visible (asOfMicro o0 now) (facts l)))),
       jsFutureObserved := int (length (filter (\<lambda>oc. ocObservedAt oc > asOfMicro o0 now) (facts l)))\<rparr>"
    by (simp add: fold_joinOutcome_stats [OF joined_newLabels] dedupe_stats facts_def zeroJoinStats_def)
  have split: "length (filter P xs) + length (filter (\<lambda>x. \<not> P x) xs) = length xs" for P and xs :: "Outcome list"
    by (rule sum_length_filter_compl)
  have V: "int (length (visible (asOfMicro o0 now) (facts l))) + int (length (filter (\<lambda>oc. ocObservedAt oc > asOfMicro o0 now) (facts l))) = int (length (facts l))"
    using split [of "\<lambda>oc. ocObservedAt oc \<le> asOfMicro o0 now" "facts l"] by (simp add: visible_def not_le)
  have A: "int (length (filter (\<lambda>oc. touched all h e oc \<noteq> []) xs)) + int (length (filter (\<lambda>oc. touched all h e oc = []) xs)) = int (length xs)"
    for all h e xs using split [of "\<lambda>oc. touched all h e oc \<noteq> []" xs] by simp
  have "\<forall>lb \<in> set labels. lbLabelStatus lb \<in> {StatusFinal, StatusProvisional, StatusUnjoinable}"
    using Run_label_status R(1) by blast
  from fold_countLabel [OF this, of "snd ?r"] show ?thesis
    using V A R(1) unfolding R(3) S by (simp add: op_frame zeroJoinStats_def)
qed

subsection \<open>Examples\<close>

definition exEpisode :: "string \<Rightarrow> int \<Rightarrow> LakeEpisode" where
  "exEpisode i t = \<lparr>leEpisode = zeroEpisode\<lparr>epEpisodeID := i, epStartedAt := t,
     epEntityKeys := [\<lparr>ekName = ''ticket'', ekValue = ''7''\<rparr>]\<rparr>, leSteps = [], lePatched = False\<rparr>"

definition exOutcome :: "string \<Rightarrow> int \<Rightarrow> int \<Rightarrow> Outcome" where
  "exOutcome v occurred observed = \<lparr>ocEntityKey = ''7'', ocKind = ''status'', ocValue = v, ocOccurredAt = occurred,
     ocObservedAt = observed, ocSource = ''crm'', ocEntityName = Some ''ticket'', ocOutcomeID = Some v\<rparr>"

definition exLake :: "Outcome list \<Rightarrow> Lake" where
  "exLake ocs = \<lparr>lkEpisodes = [exEpisode ''a'' 0, exEpisode ''b'' 4], lkOutcomes = ocs, lkRewards = [],
     lkUnmanifested = 0, lkBlob = (\<lambda>_. None)\<rparr>"

text \<open>An as-of and a horizon in microseconds.\<close>

definition exJoin :: "int \<Rightarrow> JoinOptions" where
  "exJoin t = \<lparr>joAsOf = Some (t * 1000), joHorizon = 10000, joAttribution = []\<rparr>"

theorem join_as_of_stable_witness:
  "fst (Run (exLake [exOutcome ''open'' 5 6]) (exJoin 20) 0) =
   fst (Run (exLake [exOutcome ''closed'' 7 30, exOutcome ''open'' 5 6]) (exJoin 20) 99)"
  using join_as_of_stable [of "exLake [exOutcome ''open'' 5 6]"
      "exLake [exOutcome ''closed'' 7 30, exOutcome ''open'' 5 6]" "exJoin 20" 20000 0 99]
  by (simp add: exLake_def exJoin_def visible_def exOutcome_def unixMicro_def)

theorem join_last_touch_witness:
  "lbOutcomes (fst (Run (exLake [exOutcome ''open'' 5 6]) (exJoin 20) 0) ! 1) =
     [toOutcome (exOutcome ''open'' 5 6) ''ticket''] \<and>
   lbOutcomes (fst (Run (exLake [exOutcome ''open'' 5 6]) (exJoin 20) 0) ! 0) = []"
proof -
  have f: "facts (exLake [exOutcome ''open'' 5 6]) = [exOutcome ''open'' 5 6]"
    by (simp add: facts_def exLake_def dedupe_def)
  have t: "touched False (horizonMicro (exJoin 20)) (lkEpisodes (exLake [exOutcome ''open'' 5 6])) (exOutcome ''open'' 5 6) = [1]"
    by (code_simp)
  have v: "visible (asOfMicro (exJoin 20) 0) [exOutcome ''open'' 5 6] = [exOutcome ''open'' 5 6]"
    by (simp add: visible_def asOfMicro_def exJoin_def unixMicro_def exOutcome_def)
  have n: "nameOf (exOutcome ''open'' 5 6) = ''ticket''" by (simp add: nameOf_def exOutcome_def)
  have "joAttribution (exJoin 20) \<noteq> ''all''" and "i < length (lkEpisodes (exLake [exOutcome ''open'' 5 6]))" if "i < 2" for i
    using that by (simp_all add: exJoin_def exLake_def)
  note W = join_last_touch [OF this, THEN conjunct1]
  show ?thesis using W [of 1] W [of 0] by (simp add: f t v n)
qed

theorem join_conserves_outcomes_witness:
  "\<exists>labels st. Run (exLake [exOutcome ''open'' 5 6, exOutcome ''open'' 5 9, exOutcome ''closed'' 7 30]) (exJoin 20) 0 = (labels, st) \<and>
     jsOutcomes st + jsFutureObserved st + jsDuplicates st = 3"
proof -
  obtain labels st where R: "Run (exLake [exOutcome ''open'' 5 6, exOutcome ''open'' 5 9, exOutcome ''closed'' 7 30]) (exJoin 20) 0 = (labels, st)"
    by fastforce
  from join_conserves_outcomes [OF this] have "jsOutcomes st + jsFutureObserved st + jsDuplicates st = 3"
    by (simp add: exLake_def)
  then show ?thesis using R by blast
qed

text \<open>
  A final label can still change: the horizon of an episode has closed at both as-of points, the
  outcome occurred inside it but was observed between them, so the label is final without the
  outcome at the first and final with it at the second.
\<close>

theorem final_label_changes:
  "\<exists>l o1 o2. joHorizon o1 = joHorizon o2 \<and> joAttribution o1 = joAttribution o2 \<and>
     lbLabelStatus (fst (Run l o1 0) ! 1) = StatusFinal \<and> lbOutcomes (fst (Run l o1 0) ! 1) = [] \<and>
     lbLabelStatus (fst (Run l o2 0) ! 1) = StatusFinal \<and>
     lbOutcomes (fst (Run l o2 0) ! 1) = [toOutcome (exOutcome ''reopened'' 12 25) ''ticket'']"
  by (rule exI [of _ "exLake [exOutcome ''reopened'' 12 25]"], rule exI [of _ "exJoin 20"], rule exI [of _ "exJoin 40"])
    code_simp

end
