(* ===== verification/Score_Props.thy ===== *)
theory Score_Props
  imports Score Join_Props
begin

text \<open>
  What a reward in the lake means: which rule decided it, and that scoring again neither repeats nor
  replaces a reward of the same verifier version.
\<close>

section \<open>The first matching rule\<close>

lemma compileScoreRules_clauses:
  "compileScoreRules compile isBool program i seen rs = Inr prgs \<Longrightarrow>
     length prgs = length rs \<and> distinct (map srClause rs) \<and> [] \<notin> set (map srClause rs) \<and>
     set (map srClause rs) \<inter> set seen = {}"
proof (induction rs arbitrary: i seen prgs)
  case (Cons r rs)
  then obtain prg prgs' where "compileScoreRules compile isBool program (i + 1) (srClause r # seen) rs = Inr prgs'"
    and "prgs = prg # prgs'" and "srClause r \<noteq> []" and "srClause r \<notin> set seen"
    by (auto split: if_splits sum.splits)
  then show ?case using Cons.IH by fastforce
qed simp

lemma Parse_cases:
  assumes "Parse compile isBool program decoded = Inr s"
  shows "length (rsPrograms s) = length (rlRules (rsCfg s)) \<and> distinct (map srClause (rlRules (rsCfg s))) \<and>
    [] \<notin> set (map srClause (rlRules (rsCfg s))) \<and> rlVerifierID (rsCfg s) \<noteq> [] \<and> rlVersion (rsCfg s) \<noteq> []"
proof -
  obtain cfg where D: "decoded = Some cfg" using assms by (cases decoded) (simp_all add: Parse_def)
  let ?cfg = "if rlRequireFinal cfg = None then cfg\<lparr>rlRequireFinal := Some True\<rparr> else cfg"
  have I: "rlVerifierID cfg \<noteq> []" "rlVersion cfg \<noteq> []"
    using assms D by (auto simp: Parse_def)
  obtain prgs where P: "compileScoreRules compile isBool program 0 [] (rlRules ?cfg) = Inr prgs"
    and s: "s = \<lparr>rsCfg = ?cfg, rsPrograms = prgs\<rparr>"
    using assms I D by (cases "compileScoreRules compile isBool program 0 [] (rlRules ?cfg)")
      (simp_all add: Parse_def Let_def split: if_splits)
  show ?thesis using compileScoreRules_clauses [OF P] I by (simp add: s)
qed

lemma firstMatch_other:
  "length prgs = length rs \<Longrightarrow> i \<le> length rs \<Longrightarrow> \<forall>j < i. (prgs ! j) (scoreVars ep) = EvalOther \<Longrightarrow>
     firstMatch s ep prgs rs = firstMatch s ep (drop i prgs) (drop i rs)"
proof (induction prgs rs arbitrary: i rule: list_induct2')
  case (4 prg prgs r rs)
  show ?case
  proof (cases i)
    case (Suc k)
    have "prg (scoreVars ep) = EvalOther" using 4(4) Suc by force
    moreover have "\<forall>j < k. (prgs ! j) (scoreVars ep) = EvalOther" using 4(4) Suc by force
    ultimately show ?thesis using 4(1) [of k] 4(2,3) Suc by simp
  qed simp
qed simp_all

section \<open>Scoring a lake\<close>

definition rewardOf :: "RulesScorer \<Rightarrow> Lake \<Rightarrow> int \<Rightarrow> Label \<Rightarrow> Reward option" where
  "rewardOf s l asOfUS lb =
     (if alreadyScored s (lkRewards l) (lbEpisodeID lb) then None
      else case lakeEpisode l (lbEpisodeID lb) of
             None \<Rightarrow> None
           | Some ep \<Rightarrow>
               (case Score s (scorerEpisode ep lb) of
                  Inr (Some r) \<Rightarrow> Some (r\<lparr>rwAt := asOfUS\<rparr>) | _ \<Rightarrow> None))"

lemma scoreLabel_step:
  assumes ep: "lakeEpisode l (lbEpisodeID lb) = Some ep"
  shows "\<exists>run1. scoreLabel s l asOfUS lb run = Inr run1 \<and>
    scOut run1 = scOut run @ (case rewardOf s l asOfUS lb of None \<Rightarrow> [] | Some r \<Rightarrow> [r]) \<and>
    int (length (scOut run1)) + scSkipped run1 + scNotApplicable run1 + scFailed run1 =
      int (length (scOut run)) + scSkipped run + scNotApplicable run + scFailed run + 1"
proof (cases "alreadyScored s (lkRewards l) (lbEpisodeID lb)")
  case True
  then show ?thesis by (simp add: scoreLabel_def rewardOf_def)
next
  case new: False
  consider e where "Score s (scorerEpisode ep lb) = Inl e" | "Score s (scorerEpisode ep lb) = Inr None"
    | r where "Score s (scorerEpisode ep lb) = Inr (Some r)"
    by (metis not_None_eq sum.exhaust)
  then show ?thesis by cases (simp_all add: scoreLabel_def rewardOf_def ep new)
qed

lemma scoreLabels_spec:
  assumes "\<forall>lb \<in> set lbs. lakeEpisode l (lbEpisodeID lb) \<noteq> None"
  shows "\<exists>run'. scoreLabels s l asOfUS lbs run = Inr run' \<and>
    scOut run' = scOut run @ List.map_filter (rewardOf s l asOfUS) lbs \<and>
    int (length (scOut run')) + scSkipped run' + scNotApplicable run' + scFailed run' =
      int (length (scOut run)) + scSkipped run + scNotApplicable run + scFailed run + int (length lbs)"
  using assms
proof (induction lbs arbitrary: run)
  case (Cons lb lbs)
  obtain ep where ep: "lakeEpisode l (lbEpisodeID lb) = Some ep" using Cons.prems by auto
  obtain run1 where R: "scoreLabel s l asOfUS lb run = Inr run1"
    and O: "scOut run1 = scOut run @ (case rewardOf s l asOfUS lb of None \<Rightarrow> [] | Some r \<Rightarrow> [r])"
    and N: "int (length (scOut run1)) + scSkipped run1 + scNotApplicable run1 + scFailed run1 =
      int (length (scOut run)) + scSkipped run + scNotApplicable run + scFailed run + 1"
    using scoreLabel_step [OF ep] by metis
  from Cons.IH [of run1] Cons.prems show ?case
    using R O N by (auto simp: List.map_filter_simps split: option.splits)
qed (simp add: List.map_filter_simps)

lemma firstMatch_id: "firstMatch s ep prgs rs = Inr (Some r) \<Longrightarrow>
    rwEpisodeID r = epEpisodeID (seEpisode ep) \<and> rwVerifierID r = rlVerifierID (rsCfg s) \<and>
    rwVerifierVersion r = rlVersion (rsCfg s)"
  by (induction s ep prgs rs rule: firstMatch.induct)
    (auto simp: rewardFor_def split: celOut.splits option.splits)

lemma rewardOf_id:
  assumes "rewardOf s l asOfUS lb = Some r"
  shows "rwEpisodeID r = lbEpisodeID lb \<and> rwVerifierID r = rlVerifierID (rsCfg s) \<and>
    rwVerifierVersion r = rlVersion (rsCfg s) \<and> \<not> alreadyScored s (lkRewards l) (lbEpisodeID lb)"
proof -
  obtain ep r' where ep: "lakeEpisode l (lbEpisodeID lb) = Some ep" and S: "Score s (scorerEpisode ep lb) = Inr (Some r')"
    and r: "r = r'\<lparr>rwAt := asOfUS\<rparr>" and new: "\<not> alreadyScored s (lkRewards l) (lbEpisodeID lb)"
    using assms by (auto simp: rewardOf_def split: if_splits option.splits sum.splits)
  have "epEpisodeID (leEpisode ep) = lbEpisodeID lb" using ep by (auto simp: lakeEpisode_def find_Some_iff)
  moreover have "firstMatch s (scorerEpisode ep lb) (rsPrograms s) (rlRules (rsCfg s)) = Inr (Some r')"
    using S by (simp add: Score_def split: if_splits)
  ultimately show ?thesis using firstMatch_id r new by (fastforce simp: scorerEpisode_def)
qed

definition ofVersion :: "RulesScorer \<Rightarrow> Reward \<Rightarrow> bool" where
  "ofVersion s r \<longleftrightarrow> rwVerifierID r = rlVerifierID (rsCfg s) \<and> rwVerifierVersion r = rlVersion (rsCfg s)"

lemma alreadyScored_iff:
  "alreadyScored s rewards i \<longleftrightarrow> i \<in> set (map rwEpisodeID (filter (ofVersion s) rewards))"
  by (auto simp: alreadyScored_def list_ex_iff ofVersion_def)

lemma map_filter_rewards:
  assumes "distinct (map lbEpisodeID lbs)"
  shows "distinct (map rwEpisodeID (List.map_filter (rewardOf s l asOfUS) lbs)) \<and>
    list_all (ofVersion s) (List.map_filter (rewardOf s l asOfUS) lbs) \<and>
    set (map rwEpisodeID (List.map_filter (rewardOf s l asOfUS) lbs)) \<subseteq>
      set (map lbEpisodeID lbs) - {i. alreadyScored s (lkRewards l) i}"
  using assms
proof (induction lbs)
  case (Cons lb lbs)
  show ?case
  proof (cases "rewardOf s l asOfUS lb")
    case None
    then show ?thesis using Cons by (auto simp: List.map_filter_simps)
  next
    case (Some r)
    then show ?thesis using Cons rewardOf_id [OF Some] by (auto simp: List.map_filter_simps ofVersion_def)
  qed
qed (simp add: List.map_filter_simps)

lemma labels_ids: "map lbEpisodeID (fst (Run l o0 now)) = map (\<lambda>e. epEpisodeID (leEpisode e)) (lkEpisodes l)"
  by (rule nth_equalityI) (simp_all add: Run_label finishLabel_def newLabel_def Let_def)

lemma labels_found:
  "\<forall>lb \<in> set (fst (Run l o0 now)). lakeEpisode l (lbEpisodeID lb) \<noteq> None"
proof
  fix lb
  assume "lb \<in> set (fst (Run l o0 now))"
  then have "lbEpisodeID lb \<in> set (map (\<lambda>e. epEpisodeID (leEpisode e)) (lkEpisodes l))"
    using labels_ids [of l o0 now] by (metis image_eqI set_map)
  then show "lakeEpisode l (lbEpisodeID lb) \<noteq> None" by (simp add: lakeEpisode_None del: not_None_eq)
qed

lemma Run_rewards_irrelevant: "Run (l\<lparr>lkRewards := rs\<rparr>) o0 now = Run l o0 now"
  by (simp add: Run_def)

section \<open>Properties\<close>

text \<open>
  The first rule that does not evaluate to false decides. For a scorer that parsed, clauses are
  non-empty and distinct, so a clause identifies its rule. An episode that is not final is not scored
  when finality is required. Otherwise let \<open>i\<close> be the first rule whose expression gives true or an
  error: if true, the reward is that rule's, recorded under its clause; if an error, the episode is
  not scored at all. When there is no such rule the default applies, if there is one.
\<close>

theorem score_first_match:
  assumes "Parse compile isBool program decoded = Inr s"
  shows "distinct (map srClause (rlRules (rsCfg s))) \<and> [] \<notin> set (map srClause (rlRules (rsCfg s))) \<and>
    (RequireFinal s \<and> seLabelStatus ep \<noteq> StatusFinal \<longrightarrow> Score s ep = Inr None) \<and>
    ((RequireFinal s \<longrightarrow> seLabelStatus ep = StatusFinal) \<longrightarrow>
      (\<forall>i < length (rlRules (rsCfg s)). (\<forall>j < i. (rsPrograms s ! j) (scoreVars ep) = EvalOther) \<longrightarrow>
        (case (rsPrograms s ! i) (scoreVars ep) of
           EvalTrue \<Rightarrow> Score s ep = Inr (Some (rewardFor s ep (srClause (rlRules (rsCfg s) ! i)) (srReward (rlRules (rsCfg s) ! i))))
         | EvalError \<Rightarrow> Score s ep = Inl (RuleFailed (srClause (rlRules (rsCfg s) ! i)))
         | EvalOther \<Rightarrow> True)) \<and>
      ((\<forall>j < length (rlRules (rsCfg s)). (rsPrograms s ! j) (scoreVars ep) = EvalOther) \<longrightarrow>
        Score s ep = Inr (map_option (rewardFor s ep ''default'') (rlDefaultReward (rsCfg s)))))"
proof -
  note P = Parse_cases [OF assms]
  let ?rs = "rlRules (rsCfg s)" and ?prgs = "rsPrograms s"
  have go: "Score s ep = firstMatch s ep (drop i ?prgs) (drop i ?rs)"
    if "RequireFinal s \<longrightarrow> seLabelStatus ep = StatusFinal" "i \<le> length ?rs" "\<forall>j < i. (?prgs ! j) (scoreVars ep) = EvalOther" for i
    using that P firstMatch_other [of ?prgs ?rs i ep s] by (auto simp: Score_def StatusFinal_def)
  have "case (?prgs ! i) (scoreVars ep) of
           EvalTrue \<Rightarrow> Score s ep = Inr (Some (rewardFor s ep (srClause (?rs ! i)) (srReward (?rs ! i))))
         | EvalError \<Rightarrow> Score s ep = Inl (RuleFailed (srClause (?rs ! i)))
         | EvalOther \<Rightarrow> True"
    if "RequireFinal s \<longrightarrow> seLabelStatus ep = StatusFinal" "i < length ?rs" "\<forall>j < i. (?prgs ! j) (scoreVars ep) = EvalOther" for i
    using go [OF that(1) less_imp_le [OF that(2)] that(3)] that(2) P
    by (simp add: Cons_nth_drop_Suc [symmetric] split: celOut.splits)
  moreover have "Score s ep = Inr (map_option (rewardFor s ep ''default'') (rlDefaultReward (rsCfg s)))"
    if "RequireFinal s \<longrightarrow> seLabelStatus ep = StatusFinal" "\<forall>j < length ?rs. (?prgs ! j) (scoreVars ep) = EvalOther"
    using go [OF that(1) order_refl that(2)] P by (simp add: map_option_case)
  moreover have "RequireFinal s \<and> seLabelStatus ep \<noteq> StatusFinal \<longrightarrow> Score s ep = Inr None"
    by (simp add: Score_def StatusFinal_def)
  ultimately show ?thesis using P by blast
qed

text \<open>
  C25. An episode is scored once per verifier version: on a lake with each episode once and at most one
  reward of the version per episode, the command completes, every episode is scored, skipped, not
  applicable or failed, the lake with the new rewards still has at most one reward of the version per
  episode, and scoring that lake again for the same point in time adds nothing.
\<close>

theorem score_once_per_version:
  assumes "distinct (map (\<lambda>e. epEpisodeID (leEpisode e)) (lkEpisodes l))"
    and "distinct (map rwEpisodeID (filter (ofVersion s) (lkRewards l)))"
  shows "\<exists>run run'. cmdScore s l o0 now = Inr run \<and>
    int (length (scOut run)) + scSkipped run + scNotApplicable run + scFailed run = int (length (lkEpisodes l)) \<and>
    distinct (map rwEpisodeID (filter (ofVersion s) (lkRewards l @ scOut run))) \<and>
    cmdScore s (l\<lparr>lkRewards := lkRewards l @ scOut run\<rparr>) o0 now = Inr run' \<and> scOut run' = []"
proof -
  let ?lbs = "fst (Run l o0 now)" and ?T = "asOfMicro o0 now"
  obtain run where R: "cmdScore s l o0 now = Inr run" and O: "scOut run = List.map_filter (rewardOf s l ?T) ?lbs"
    and N: "int (length (scOut run)) + scSkipped run + scNotApplicable run + scFailed run = int (length (lkEpisodes l))"
    using scoreLabels_spec [OF labels_found, of s l ?T o0 now zeroScoreRun] by (auto simp: cmdScore_def zeroScoreRun_def)
  let ?l' = "l\<lparr>lkRewards := lkRewards l @ scOut run\<rparr>"
  obtain run' where R': "cmdScore s ?l' o0 now = Inr run'" and O': "scOut run' = List.map_filter (rewardOf s ?l' ?T) ?lbs"
    using scoreLabels_spec [OF labels_found, of s ?l' ?T o0 now zeroScoreRun]
    by (auto simp: cmdScore_def zeroScoreRun_def Run_rewards_irrelevant)
  have D: "distinct (map lbEpisodeID ?lbs)" using assms(1) by (simp add: labels_ids)
  note M = map_filter_rewards [OF D, of s l ?T, folded O]
  have all: "filter (ofVersion s) (scOut run) = scOut run" using M by (simp add: list_all_iff filter_id_conv)
  have "rewardOf s ?l' ?T lb = None" if "lb \<in> set ?lbs" for lb
  proof (cases "rewardOf s l ?T lb")
    case None
    then show ?thesis
      by (auto simp: rewardOf_def alreadyScored_def lakeEpisode_def split: if_splits option.splits sum.splits)
  next
    case (Some r)
    then have "r \<in> set (scOut run)" using that by (force simp: O map_filter_def)
    then have "alreadyScored s (lkRewards ?l') (lbEpisodeID lb)"
      using rewardOf_id [OF Some] by (auto simp: alreadyScored_def list_ex_iff)
    then show ?thesis by (simp add: rewardOf_def)
  qed
  then have "scOut run' = []" unfolding O' by (simp add: map_filter_def filter_empty_conv)
  moreover have "distinct (map rwEpisodeID (filter (ofVersion s) (lkRewards l @ scOut run)))"
    using assms(2) M all alreadyScored_iff [of s "lkRewards l"] by auto
  ultimately show ?thesis using R R' N by blast
qed

subsection \<open>Examples\<close>

text \<open>A scorer with two rules over the latest status; the compiler reads a rule as the status it asks for.\<close>

definition exScoreConfig :: RulesConfig where
  "exScoreConfig = \<lparr>rlVerifierID = ''v'', rlVersion = ''1'', rlRequireFinal = Some False,
     rlRules = [\<lparr>srClause = ''reopened'', srWhen = ''reopened'', srReward = 0\<rparr>,
                \<lparr>srClause = ''done'', srWhen = ''closed'', srReward = 1\<rparr>], rlDefaultReward = None\<rparr>"

definition exProgram :: "string \<Rightarrow> ScoreVars \<Rightarrow> celOut" where
  "exProgram w vars = (if lenientGet (sv_latest vars) ''status'' = w then EvalTrue else EvalOther)"

definition exScorer :: RulesScorer where
  "exScorer = \<lparr>rsCfg = exScoreConfig, rsPrograms = [exProgram ''reopened'', exProgram ''closed'']\<rparr>"

lemma exScorer_parses: "Parse Inr (\<lambda>_. True) (\<lambda>ast. Inr (exProgram ast)) (Some exScoreConfig) = Inr exScorer"
  by (simp add: Parse_def exScoreConfig_def exScorer_def)

definition exScored :: ScorerEpisode where
  "exScored = \<lparr>seEpisode = zeroEpisode\<lparr>epEpisodeID := ''e''\<rparr>, seSteps = [], sePayloads = Map.empty,
     seLatest = [(''status'', ''closed'')], seLabelStatus = StatusProvisional, seOutcomeCount = 1\<rparr>"

theorem score_first_match_witness:
  "Score exScorer exScored = Inr (Some (rewardFor exScorer exScored ''done'' 1))"
proof -
  have n: "length (rlRules (rsCfg exScorer)) = 2" and q: "\<not> RequireFinal exScorer"
    by (simp_all add: exScorer_def exScoreConfig_def RequireFinal_def)
  have e: "(rsPrograms exScorer ! 0) (scoreVars exScored) = EvalOther"
    "(rsPrograms exScorer ! 1) (scoreVars exScored) = EvalTrue"
    by (simp_all add: exScorer_def exScored_def exProgram_def scoreVars_def lenientGet_def lenientFind_def)
  have "\<forall>i < length (rlRules (rsCfg exScorer)). (\<forall>j < i. (rsPrograms exScorer ! j) (scoreVars exScored) = EvalOther) \<longrightarrow>
      (case (rsPrograms exScorer ! i) (scoreVars exScored) of
         EvalTrue \<Rightarrow> Score exScorer exScored = Inr (Some (rewardFor exScorer exScored
           (srClause (rlRules (rsCfg exScorer) ! i)) (srReward (rlRules (rsCfg exScorer) ! i))))
       | EvalError \<Rightarrow> Score exScorer exScored = Inl (RuleFailed (srClause (rlRules (rsCfg exScorer) ! i)))
       | EvalOther \<Rightarrow> True)"
    using score_first_match [OF exScorer_parses, of exScored] q by blast
  from this [rule_format, of 1] show ?thesis
    using n e by (simp add: exScorer_def exScoreConfig_def)
qed

theorem score_once_per_version_witness:
  "\<exists>run run'. cmdScore exScorer (exLake [exOutcome ''closed'' 5 6]) (exJoin 20) 0 = Inr run \<and>
     cmdScore exScorer ((exLake [exOutcome ''closed'' 5 6])\<lparr>lkRewards := scOut run\<rparr>) (exJoin 20) 0 = Inr run' \<and> scOut run' = []"
proof -
  have "distinct (map (\<lambda>e. epEpisodeID (leEpisode e)) (lkEpisodes (exLake [exOutcome ''closed'' 5 6])))"
    and r: "lkRewards (exLake [exOutcome ''closed'' 5 6]) = []"
    by (simp_all add: exLake_def exEpisode_def)
  then show ?thesis using score_once_per_version [of "exLake [exOutcome ''closed'' 5 6]" exScorer "exJoin 20" 0] by auto
qed

end
