(* ===== verification/Export_Props.thy ===== *)
theory Export_Props
  imports Export Score_Props
begin

text \<open>
  What ends up in a training set: exactly the labels that pass every filter, each other one counted
  under a reason; the reward of the highest version; pairs whose preferred side scored strictly
  better than anything it is compared with.
\<close>

section \<open>Dropped counts\<close>

definition dropTotal :: "ExportStats \<Rightarrow> int" where
  "dropTotal st = sum_list (map snd (xsDropped st))"

lemma sum_update_goget:
  "distinct (map fst xs) \<Longrightarrow>
     sum_list (map snd (AList.update k (goget 0 xs k + n) xs)) = sum_list (map snd xs) + (n :: int)"
  by (induction xs) (auto simp: goget_def split: option.splits)

lemma drop1_keeps [op_frame]:
  "xsConsidered (drop1 r n st) = xsConsidered st" "xsWritten (drop1 r n st) = xsWritten st"
  "xsVerifier (drop1 r n st) = xsVerifier st"
  by (simp_all add: drop1_def)

lemma dropTotal_drop1:
  "distinct (map fst (xsDropped st)) \<Longrightarrow>
     dropTotal (drop1 r n st) = dropTotal st + n \<and> distinct (map fst (xsDropped (drop1 r n st)))"
  by (simp add: drop1_def dropTotal_def sum_update_goget distinct_update)

section \<open>Selection\<close>

text \<open>The reference: what a label must satisfy to be exported.\<close>

definition passes :: "Lake \<Rightarrow> ExportOptions \<Rightarrow> (string \<rightharpoonup> Reward) \<Rightarrow> Label \<Rightarrow> bool" where
  "passes l o0 rewards lb \<longleftrightarrow>
     (\<exists>ep. lakeEpisode l (lbEpisodeID lb) = Some ep \<and>
        (\<forall>w \<in> set (exRequireFidelity o0). fidelityFlag (epFidelity (leEpisode ep)) w)) \<and>
     (exRequireFinal o0 \<longrightarrow> lbLabelStatus lb = StatusFinal) \<and>
     (exRequireReward o0 \<longrightarrow> rewards (lbEpisodeID lb) \<noteq> None) \<and>
     (\<forall>m. exMinReward o0 = Some m \<longrightarrow> (\<exists>r. rewards (lbEpisodeID lb) = Some r \<and> m \<le> rwReward r))"

definition keep :: "Lake \<Rightarrow> (string \<rightharpoonup> Reward) \<Rightarrow> Label \<Rightarrow> kept" where
  "keep l rewards lb = \<lparr>kLabel = lb, kEp = the (lakeEpisode l (lbEpisodeID lb)), kReward = rewards (lbEpisodeID lb)\<rparr>"

lemma missingFidelity_Nil:
  "[] \<notin> set ws \<Longrightarrow> missingFidelity f ws = [] \<longleftrightarrow> (\<forall>w \<in> set ws. fidelityFlag f w)"
  by (induction ws) auto

lemma dropReason_None:
  assumes "[] \<notin> set (exRequireFidelity o0)" and "lakeEpisode l (lbEpisodeID lb) = Some ep"
  shows "dropReason o0 lb ep (rewards (lbEpisodeID lb)) = None \<longleftrightarrow> passes l o0 rewards lb"
proof -
  have F: "missingFidelity (epFidelity (leEpisode ep)) (exRequireFidelity o0) = [] \<longleftrightarrow>
      (\<forall>w \<in> set (exRequireFidelity o0). fidelityFlag (epFidelity (leEpisode ep)) w)"
    using assms(1) by (rule missingFidelity_Nil)
  show ?thesis
    by (cases "exMinReward o0"; cases "rewards (lbEpisodeID lb)")
      (auto simp: dropReason_def passes_def assms(2) F Let_def not_less)
qed

lemma fold_selectLabel:
  assumes "[] \<notin> set (exRequireFidelity o0)" and "distinct (map fst (xsDropped st))"
  shows "fst (fold (selectLabel l o0 rewards) labels (sel, st)) = sel @ map (keep l rewards) (filter (passes l o0 rewards) labels) \<and>
    xsConsidered (snd (fold (selectLabel l o0 rewards) labels (sel, st))) = xsConsidered st + int (length labels) \<and>
    xsWritten (snd (fold (selectLabel l o0 rewards) labels (sel, st))) = xsWritten st \<and>
    dropTotal (snd (fold (selectLabel l o0 rewards) labels (sel, st))) =
      dropTotal st + int (length (filter (\<lambda>lb. \<not> passes l o0 rewards lb) labels)) \<and>
    distinct (map fst (xsDropped (snd (fold (selectLabel l o0 rewards) labels (sel, st)))))"
  using assms(2)
proof (induction labels arbitrary: sel st)
  case (Cons lb labels)
  let ?st = "st\<lparr>xsConsidered := xsConsidered st + 1\<rparr>"
  have D: "distinct (map fst (xsDropped ?st))" using Cons.prems by simp
  show ?case
  proof (cases "passes l o0 rewards lb")
    case True
    then obtain ep where ep: "lakeEpisode l (lbEpisodeID lb) = Some ep" by (auto simp: passes_def)
    then have "selectLabel l o0 rewards lb (sel, st) = (sel @ [keep l rewards lb], ?st)"
      using True dropReason_None [OF assms(1) ep, of rewards] by (simp add: selectLabel_def keep_def)
    then show ?thesis using Cons.IH [OF D] True by (simp add: dropTotal_def)
  next
    case False
    obtain r where "selectLabel l o0 rewards lb (sel, st) = (sel, drop1 r 1 ?st)"
    proof (cases "lakeEpisode l (lbEpisodeID lb)")
      case None
      then show ?thesis using that by (simp add: selectLabel_def)
    next
      case (Some ep)
      then obtain r where "dropReason o0 lb ep (rewards (lbEpisodeID lb)) = Some r"
        using False dropReason_None [OF assms(1) Some, of rewards] by auto
      then show ?thesis using that Some by (simp add: selectLabel_def)
    qed
    then show ?thesis
      using Cons.IH [of "drop1 r 1 ?st" sel] False dropTotal_drop1 [OF D, of r 1] by (simp add: op_frame dropTotal_def)
  qed
qed simp

section \<open>Writing trajectories\<close>

lemma writeTrajectories_ok:
  assumes "writeTrajectories parse accepts l ks st w = (None, st', w')"
  shows "st' = st\<lparr>xsWritten := xsWritten st + int (length ks)\<rparr> \<and>
    (\<exists>ts. w' = w @ map TrajectoryLine ts \<and> list_all2 (\<lambda>k t. trajectoryLine parse l k = Inr t) ks ts)"
  using assms
proof (induction ks arbitrary: st w)
  case (Cons k ks)
  obtain t where t: "trajectoryLine parse l k = Inr t" and a: "accepts (length w)"
    and R: "writeTrajectories parse accepts l ks (countWritten 1 st) (w @ [TrajectoryLine t]) = (None, st', w')"
    using Cons.prems by (auto simp: encode_def split: sum.splits if_splits)
  obtain ts where "w' = (w @ [TrajectoryLine t]) @ map TrajectoryLine ts"
    and "list_all2 (\<lambda>k t. trajectoryLine parse l k = Inr t) ks ts"
    and "st' = (countWritten 1 st)\<lparr>xsWritten := xsWritten (countWritten 1 st) + int (length ks)\<rparr>"
    using Cons.IH [OF R] by auto
  then show ?case using t by (auto simp: countWritten_def intro!: exI [of _ "t # ts"])
qed simp

section \<open>Rewards\<close>

definition rank :: "Reward \<Rightarrow> string \<times> int" where
  "rank r = (rwVerifierVersion r, rwAt r)"

lemma replaces_rank: "replaces r prev \<longleftrightarrow> rank prev < rank r"
  by (auto simp: replaces_def rank_def less_prod_def order.order_iff_strict)

definition rewardsOf :: "Reward list \<Rightarrow> string \<Rightarrow> string \<Rightarrow> Reward list" where
  "rewardsOf rewards verifier i = filter (\<lambda>r. rwVerifierID r = verifier \<and> rwEpisodeID r = i) rewards"

lemma latestRewards_fold:
  "fold (\<lambda>r out. if rwVerifierID r \<noteq> verifier then out
           else case out (rwEpisodeID r) of
                  None \<Rightarrow> out(rwEpisodeID r \<mapsto> r)
                | Some prev \<Rightarrow> if replaces r prev then out(rwEpisodeID r \<mapsto> r) else out) rewards out i =
     fold (\<lambda>r best. case best of None \<Rightarrow> Some r | Some prev \<Rightarrow> if replaces r prev then Some r else Some prev)
       (rewardsOf rewards verifier i) (out i)"
proof (induction rewards arbitrary: out)
  case (Cons r rewards)
  then show ?case by (cases "rwVerifierID r = verifier"; cases "rwEpisodeID r = i")
      (auto simp: rewardsOf_def split: option.splits)
qed (simp add: rewardsOf_def)

lemma fold_best:
  "fold (\<lambda>r best. case best of None \<Rightarrow> Some r | Some prev \<Rightarrow> if replaces r prev then Some r else Some prev) rs b = Some r \<Longrightarrow>
     (b = Some r \<or> r \<in> set rs) \<and> (\<forall>x \<in> set rs. rank x \<le> rank r) \<and> (\<forall>p. b = Some p \<longrightarrow> rank p \<le> rank r)"
proof (induction rs arbitrary: b)
  case (Cons x rs)
  show ?case
  proof (cases b)
    case None
    then show ?thesis using Cons.IH [of "Some x"] Cons.prems by auto
  next
    case (Some p)
    show ?thesis
    proof (cases "replaces x p")
      case True
      then have "rank p \<le> rank x" by (simp add: replaces_rank)
      then show ?thesis
        using Cons.IH [of "Some x"] Cons.prems True Some by (auto intro: order_trans)
    next
      case False
      then have "rank x \<le> rank p" by (simp add: replaces_rank not_less)
      then show ?thesis
        using Cons.IH [of "Some p"] Cons.prems False Some by (auto intro: order_trans)
    qed
  qed
qed auto

lemma fold_best_None:
  "fold (\<lambda>r best. case best of None \<Rightarrow> Some r | Some prev \<Rightarrow> if replaces r prev then Some r else Some prev) rs b = None \<longleftrightarrow>
     b = None \<and> rs = []"
  by (induction rs arbitrary: b) (auto split: option.splits)

section \<open>Preference pairs\<close>

lemma fold_groupKept:
  "g \<noteq> [] \<Longrightarrow> goget [] (fst (fold groupKept ks (groups, st))) g =
     goget [] groups g @ filter (\<lambda>k. lbGroupID (kLabel k) = g \<and> kReward k \<noteq> None) ks"
proof (induction ks arbitrary: groups st)
  case (Cons k ks)
  then show ?case by (cases "lbGroupID (kLabel k) = g") (auto simp: groupKept_def goget_def)
qed simp

lemma fold_groupKept_keys:
  "[] \<notin> set (map fst groups) \<Longrightarrow> distinct (map fst groups) \<Longrightarrow>
     [] \<notin> set (map fst (fst (fold groupKept ks (groups, st)))) \<and> distinct (map fst (fst (fold groupKept ks (groups, st))))"
proof (induction ks arbitrary: groups st)
  case (Cons k ks)
  show ?case
  proof (cases "lbGroupID (kLabel k) = [] \<or> kReward k = None")
    case True
    then show ?thesis using Cons by (auto simp: groupKept_def)
  next
    case False
    let ?groups = "AList.update (lbGroupID (kLabel k)) (goget [] groups (lbGroupID (kLabel k)) @ [k]) groups"
    have "[] \<notin> set (map fst ?groups)" and "distinct (map fst ?groups)"
      using False Cons.prems by (auto simp: dom_update distinct_update)
    moreover have "groupKept k (groups, st) = (?groups, st)" using False by (auto simp: groupKept_def)
    ultimately show ?thesis using Cons.IH [of ?groups st] by simp
  qed
qed simp

text \<open>The extremes of a group sorted by falling reward.\<close>

lemma group_extremes:
  fixes ks :: "kept list"
  assumes "ks = sort_key (\<lambda>k. (- rewardOf0 k, lbEpisodeID (kLabel k))) grp" and "k \<in> set grp"
  shows "hd ks \<in> set grp \<and> last ks \<in> set grp \<and> rewardOf0 k \<le> rewardOf0 (hd ks) \<and> rewardOf0 (last ks) \<le> rewardOf0 k"
proof -
  have set: "set ks = set grp" and S: "sorted (map (\<lambda>k. (- rewardOf0 k, lbEpisodeID (kLabel k))) ks)"
    by (simp_all add: assms(1))
  then have k: "k \<in> set ks" and ne: "ks \<noteq> []" using assms(2) by auto
  then obtain i where i: "i < length ks" "k = ks ! i" by (metis in_set_conv_nth)
  have "(- rewardOf0 (ks ! a)) \<le> (- rewardOf0 (ks ! b))" if "a \<le> b" "b < length ks" for a b
    using sorted_nth_mono [OF S that(1)] that by (auto simp: less_eq_prod_def)
  from this [of 0 i] this [of i "length ks - 1"]
  have "rewardOf0 k \<le> rewardOf0 (hd ks)" and "rewardOf0 (last ks) \<le> rewardOf0 k"
    using i ne by (simp_all add: hd_conv_nth last_conv_nth)
  moreover have "hd ks \<in> set grp" and "last ks \<in> set grp"
    using hd_in_set [OF ne] last_in_set [OF ne] unfolding set .
  ultimately show ?thesis by blast
qed

text \<open>A preference line compares the best with the worst of one group.\<close>

definition contrast :: "(string \<Rightarrow> json option) \<Rightarrow> Lake \<Rightarrow> kept list \<Rightarrow> exportLine \<Rightarrow> bool" where
  "contrast parse l selected line \<longleftrightarrow>
     (\<exists>g p c r a b. line = PreferenceLine g p c r \<and> g \<noteq> [] \<and> tjGroupID c = g \<and> tjGroupID r = g \<and>
        tjReward c = Some a \<and> tjReward r = Some b \<and> b < a \<and>
        (\<forall>k \<in> set selected. \<forall>x. lbGroupID (kLabel k) = g \<longrightarrow> kReward k = Some x \<longrightarrow> b \<le> rwReward x \<and> rwReward x \<le> a))"

lemma trajectoryLine_fields:
  "trajectoryLine parse l k = Inr t \<Longrightarrow> tjGroupID t = lbGroupID (kLabel k) \<and> tjReward t = map_option rwReward (kReward k)"
  by (auto simp: trajectoryLine_def split: sum.splits)

lemma contrast_extremes:
  assumes grp: "goget [] groups g = filter (\<lambda>k. lbGroupID (kLabel k) = g \<and> kReward k \<noteq> None) selected"
    and ks: "ks = sort_key (\<lambda>k. (- rewardOf0 k, lbEpisodeID (kLabel k))) (goget [] groups g)"
    and "g \<noteq> []" and "2 \<le> length ks" and "rewardOf0 (hd ks) \<noteq> rewardOf0 (last ks)"
    and "trajectoryLine parse l (hd ks) = Inr c" and "trajectoryLine parse l (last ks) = Inr r"
  shows "contrast parse l selected (PreferenceLine g p c r)"
proof -
  obtain k0 where "k0 \<in> set (goget [] groups g)" using assms(4) ks by (cases "goget [] groups g") auto
  note E0 = group_extremes [OF ks this]
  then have "hd ks \<in> set selected" "lbGroupID (kLabel (hd ks)) = g" "kReward (hd ks) \<noteq> None"
    "last ks \<in> set selected" "lbGroupID (kLabel (last ks)) = g" "kReward (last ks) \<noteq> None"
    unfolding grp by auto
  then obtain x y where x: "kReward (hd ks) = Some x" and y: "kReward (last ks) = Some y"
    and g: "lbGroupID (kLabel (hd ks)) = g" "lbGroupID (kLabel (last ks)) = g" by blast
  have "rwReward y < rwReward x"
    using E0 assms(5) x y by (auto simp: rewardOf0_def)
  moreover have "rwReward y \<le> rwReward z \<and> rwReward z \<le> rwReward x"
    if "k \<in> set selected" "lbGroupID (kLabel k) = g" "kReward k = Some z" for k z
  proof -
    have "k \<in> set (goget [] groups g)" using that by (simp add: grp)
    from group_extremes [OF ks this] show ?thesis using that x y by (simp add: rewardOf0_def)
  qed
  ultimately show ?thesis
    using trajectoryLine_fields [OF assms(6)] trajectoryLine_fields [OF assms(7)] assms(3) x y g
    unfolding contrast_def by auto
qed

lemma writeGroups_contrast:
  assumes "writeGroups parse accepts l groups gs st w = (e, st', w')" and "list_all (contrast parse l selected) w"
    and "\<forall>g \<in> set gs. g \<noteq> [] \<and> goget [] groups g = filter (\<lambda>k. lbGroupID (kLabel k) = g \<and> kReward k \<noteq> None) selected"
  shows "list_all (contrast parse l selected) w'"
  using assms
proof (induction gs arbitrary: st w)
  case (Cons g gs)
  let ?ks = "sort_key (\<lambda>k. (- rewardOf0 k, lbEpisodeID (kLabel k))) (goget [] groups g)"
  have rest: "\<forall>g \<in> set gs. g \<noteq> [] \<and> goget [] groups g = filter (\<lambda>k. lbGroupID (kLabel k) = g \<and> kReward k \<noteq> None) selected"
    using Cons.prems(3) by simp
  show ?case
  proof (cases "length ?ks < 2 \<or> rewardOf0 (hd ?ks) = rewardOf0 (last ?ks)")
    case True
    then have "writeGroups parse accepts l groups gs (drop1 ''group_without_contrast'' (int (length ?ks)) st) w = (e, st', w')"
      using Cons.prems(1) by (simp add: Let_def)
    then show ?thesis using Cons.prems(2) rest by (rule Cons.IH)
  next
    case False
    show ?thesis
    proof (cases "trajectoryLine parse l (hd ?ks)")
      case (Inl e0)
      then show ?thesis using Cons.prems False by (simp add: Let_def)
    next
      case c: (Inr c)
      show ?thesis
      proof (cases "trajectoryLine parse l (last ?ks)")
        case (Inl e0)
        then show ?thesis using Cons.prems False c by (simp add: Let_def)
      next
        case r: (Inr r)
        let ?line = "PreferenceLine g (firstPrompt parse l (leSteps (kEp (hd ?ks)))) c r"
        have "contrast parse l selected ?line"
          using Cons.prems(3) False c r by (intro contrast_extremes [OF _ refl, of groups]) auto
        then have ok: "list_all (contrast parse l selected) (w @ [?line])" using Cons.prems(2) by simp
        show ?thesis
        proof (cases "accepts (length w)")
          case True
          then have "writeGroups parse accepts l groups gs (countWritten 1 st) (w @ [?line]) = (e, st', w')"
            using Cons.prems(1) False c r by (simp add: Let_def encode_def)
          then show ?thesis using ok rest by (rule Cons.IH)
        next
          case no: False
          then show ?thesis using Cons.prems False c r by (simp add: Let_def encode_def)
        qed
      qed
    qed
  qed
qed simp

section \<open>Properties\<close>


text \<open>
  The reward used for an episode is the highest: among the rewards of the chosen verifier for the
  episode none has a higher version, compared as text, nor a later scoring of the same version; an
  episode without such a reward has none.
\<close>

theorem latest_reward_is_highest:
  "case latestRewards rewards verifier i of
     None \<Rightarrow> rewardsOf rewards verifier i = []
   | Some r \<Rightarrow> r \<in> set (rewardsOf rewards verifier i) \<and> (\<forall>x \<in> set (rewardsOf rewards verifier i). rank x \<le> rank r)"
proof -
  have L: "latestRewards rewards verifier i =
      fold (\<lambda>r best. case best of None \<Rightarrow> Some r | Some prev \<Rightarrow> if replaces r prev then Some r else Some prev)
        (rewardsOf rewards verifier i) None"
    by (simp add: latestRewards_def latestRewards_fold)
  show ?thesis
  proof (cases "latestRewards rewards verifier i")
    case None
    then show ?thesis by (simp add: L fold_best_None)
  next
    case (Some r)
    then show ?thesis using fold_best [of "rewardsOf rewards verifier i" None r] by (simp add: L)
  qed
qed

text \<open>Text order is not version order: version 10 of a verifier loses against version 9.\<close>

definition exReward :: "string \<Rightarrow> rat \<Rightarrow> Reward" where
  "exReward ver v = \<lparr>rwEpisodeID = ''a'', rwVerifierID = ''v'', rwVerifierVersion = ver, rwReward = v, rwClauses = [], rwAt = 0\<rparr>"

theorem latest_reward_is_highest_witness:
  "exReward ''9'' 0 \<in> set (rewardsOf [exReward ''9'' 0, exReward ''10'' 1] ''v'' ''a'') \<and>
   rank (exReward ''10'' 1) \<le> rank (exReward ''9'' 0)"
proof -
  have "latestRewards [exReward ''9'' 0, exReward ''10'' 1] ''v'' ''a'' = Some (exReward ''9'' 0)"
    by (simp add: latestRewards_def exReward_def replaces_def)
  with latest_reward_is_highest [of "[exReward ''9'' 0, exReward ''10'' 1]" "''v''" "''a''"]
  have "exReward ''9'' 0 \<in> set (rewardsOf [exReward ''9'' 0, exReward ''10'' 1] ''v'' ''a'')"
    and all: "\<forall>x \<in> set (rewardsOf [exReward ''9'' 0, exReward ''10'' 1] ''v'' ''a''). rank x \<le> rank (exReward ''9'' 0)"
    by simp_all
  moreover have "exReward ''10'' 1 \<in> set (rewardsOf [exReward ''9'' 0, exReward ''10'' 1] ''v'' ''a'')"
    by (simp add: rewardsOf_def exReward_def)
  ultimately show ?thesis by blast
qed

text \<open>An empty name in the list of required flags switches off the flags after it.\<close>

theorem empty_fidelity_name_skips_rest:
  "\<not> fidelityFlag f [] \<and> missingFidelity f ([] # ws) = []"
  by (simp add: fidelityFlag_def split: option.splits)

text \<open>
  Preference pairs are real preferences: every line of a preference export compares two
  trajectories of one non-empty group, the chosen one scored strictly higher, and every selected and
  scored episode of that group lies between them.
\<close>

theorem export_preference_contrast:
  assumes "RunExport parse accepts l labels o0 = (e, st, w)" and "exFormat o0 = FormatPreference"
    and "chooseVerifier (lkRewards l) (exVerifier o0) = Inr verifier"
  shows "list_all (contrast parse l (fst (selectAll l labels o0 verifier))) w"
proof -
  obtain sel st0 where sel: "selectAll l labels o0 verifier = (sel, st0)" by (cases "selectAll l labels o0 verifier")
  obtain groups st1 where G: "fold groupKept sel ([], st0) = (groups, st1)" by (cases "fold groupKept sel ([], st0)")
  have W: "writeGroups parse accepts l groups (sort (map fst groups)) st1 [] = (e, st, w)"
    using assms sel G by (simp add: RunExport_def format_names)
  have "g \<noteq> [] \<and> goget [] groups g = filter (\<lambda>k. lbGroupID (kLabel k) = g \<and> kReward k \<noteq> None) sel"
    if "g \<in> set (sort (map fst groups))" for g
  proof -
    have "g \<noteq> []" using that fold_groupKept_keys [of "[]" sel st0] G by force
    then show ?thesis using fold_groupKept [of g sel "[]" st0] G by (simp add: goget_def)
  qed
  then show ?thesis using writeGroups_contrast [OF W, of sel] sel by simp
qed

subsection \<open>Examples\<close>

text \<open>Two scored rollouts of one group.\<close>

definition exRollouts :: Lake where
  "exRollouts = (exLake [])\<lparr>lkRewards := [exReward ''1'' 0, (exReward ''1'' 1)\<lparr>rwEpisodeID := ''b''\<rparr>]\<rparr>"

definition exGroupLabels :: "Label list" where
  "exGroupLabels = map (\<lambda>e. (newLabel 20 10 e)\<lparr>lbGroupID := ''g''\<rparr>) (lkEpisodes exRollouts)"

definition exExport :: "string \<Rightarrow> ExportOptions" where
  "exExport fmt = \<lparr>exFormat = fmt, exVerifier = [], exMinReward = Some (1 / 2), exRequireReward = False,
     exRequireFinal = False, exRequireFidelity = []\<rparr>"

definition exNoParse :: "string \<Rightarrow> json option" where
  "exNoParse s = None"


theorem export_preference_contrast_witness:
  "\<exists>e st w. RunExport exNoParse (\<lambda>_. True) exRollouts exGroupLabels ((exExport FormatPreference)\<lparr>exMinReward := None\<rparr>) = (e, st, w) \<and>
     length w = 1 \<and>
     list_all (contrast exNoParse exRollouts (fst (selectAll exRollouts exGroupLabels ((exExport FormatPreference)\<lparr>exMinReward := None\<rparr>) ''v''))) w"
proof -
  let ?o = "(exExport FormatPreference)\<lparr>exMinReward := None\<rparr>"
  obtain e st w where R: "RunExport exNoParse (\<lambda>_. True) exRollouts exGroupLabels ?o = (e, st, w)"
    by (cases "RunExport exNoParse (\<lambda>_. True) exRollouts exGroupLabels ?o")
  have "length (snd (snd (RunExport exNoParse (\<lambda>_. True) exRollouts exGroupLabels ?o))) = 1" by code_simp
  then have n: "length w = 1" using R by simp
  have f: "exFormat ?o = FormatPreference" by (simp add: exExport_def)
  have v: "chooseVerifier (lkRewards exRollouts) (exVerifier ?o) = Inr ''v''" by code_simp
  show ?thesis using export_preference_contrast [OF R f v] R n by blast
qed

end
