(* ===== verification/Extract.thy ===== *)
theory Extract
  imports Redact
begin

text \<open>
  Entity keys (\<^verbatim>\<open>src/collector/extract/extract.go\<close>): per tool, JSONPath expressions that are evaluated
  on a step's payload. The JSONPath package is a parameter, as in redaction.
\<close>

section \<open>Data\<close>

record Entity =
  enTool :: string
  enKeys :: "(string, string) gomap"

record keyExpr =
  keName :: string
  keExpr :: JsonPath
  keSrc :: string

record ExtractStats =
  xtEpisodes :: int
  xtEpisodesWithoutKeys :: int
  xtKeysExtracted :: int

record Extractor =
  byTool :: "(string, keyExpr list) gomap"
  xtStats :: ExtractStats

datatype extractError = BadKeyPath string string string

section \<open>Construction\<close>

text \<open>The inner loop of \<^verbatim>\<open>New\<close>: the names of one entity, sorted.\<close>

fun compileKeys ::
  "(string \<Rightarrow> JsonPath option) \<Rightarrow> Entity \<Rightarrow> string list \<Rightarrow> Extractor \<Rightarrow> extractError + Extractor"
where
  "compileKeys parsePath ent [] e = Inr e"
| "compileKeys parsePath ent (name # names) e =
     (let src = goget [] (enKeys ent) name
      in case parsePath src of
           None \<Rightarrow> Inl (BadKeyPath (enTool ent) name src)
         | Some expr \<Rightarrow>
             compileKeys parsePath ent names
               (e\<lparr>byTool := AList.update (enTool ent)
                   (goget [] (byTool e) (enTool ent) @ [\<lparr>keName = name, keExpr = expr, keSrc = src\<rparr>]) (byTool e)\<rparr>))"

fun compileEntities ::
  "(string \<Rightarrow> JsonPath option) \<Rightarrow> Entity list \<Rightarrow> Extractor \<Rightarrow> extractError + Extractor"
where
  "compileEntities parsePath [] e = Inr e"
| "compileEntities parsePath (ent # ents) e =
     (case compileKeys parsePath ent (sort (map fst (enKeys ent))) e of
        Inl err \<Rightarrow> Inl err
      | Inr e1 \<Rightarrow> compileEntities parsePath ents e1)"

definition NewExtractor :: "(string \<Rightarrow> JsonPath option) \<Rightarrow> Entity list \<Rightarrow> extractError + Extractor" where
  "NewExtractor parsePath entities =
     compileEntities parsePath entities
       \<lparr>byTool = [], xtStats = \<lparr>xtEpisodes = 0, xtEpisodesWithoutKeys = 0, xtKeysExtracted = 0\<rparr>\<rparr>"

section \<open>Extraction\<close>

text \<open>\<^verbatim>\<open>stringify\<close>: a JSON value that is not text is printed; quotes around the printed text are removed.\<close>

definition trimQuotes :: "string \<Rightarrow> string" where
  "trimQuotes s =
     (if length s \<ge> 2 \<and> hd s = CHR 0x22 \<and> last s = CHR 0x22 then butlast (tl s) else s)"

fun keyText :: "json \<Rightarrow> string" where
  "keyText (JStr s) = s"
| "keyText JNull = []"
| "keyText v = trimQuotes (json_encode v)"

definition exprKeys :: "json \<Rightarrow> keyExpr \<Rightarrow> EntityKey list" where
  "exprKeys doc ke =
     map (\<lambda>v. \<lparr>ekName = keName ke, ekValue = v\<rparr>) (filter (\<lambda>v. v \<noteq> []) (map keyText (pathGet (keExpr ke) doc)))"

text \<open>What one step contributes; a step that is no tool call, has no inline payload, whose tool has no
  expressions or whose payload does not parse contributes nothing.\<close>

definition stepKeys :: "(string \<Rightarrow> json option) \<Rightarrow> Extractor \<Rightarrow> Step \<Rightarrow> EntityKey list" where
  "stepKeys parse e s =
     (case (stToolName s, stContentInline s) of
        (Some tool, Some content) \<Rightarrow>
          (case map_of (byTool e) tool of
             None \<Rightarrow> []
           | Some exprs \<Rightarrow>
               (case parse content of None \<Rightarrow> [] | Some doc \<Rightarrow> concat (map (exprKeys doc) exprs)))
      | _ \<Rightarrow> [])"

fun dropSeenKeys :: "EntityKey list \<Rightarrow> EntityKey list \<Rightarrow> EntityKey list" where
  "dropSeenKeys seen [] = []"
| "dropSeenKeys seen (k # ks) = (if k \<in> set seen then dropSeenKeys seen ks else k # dropSeenKeys (k # seen) ks)"

definition dedupeKeys :: "EntityKey list \<Rightarrow> EntityKey list" where
  "dedupeKeys ks = (if ks = [] then [] else sort_key (\<lambda>k. (ekName k, ekValue k)) (dropSeenKeys [] ks))"

definition ExtractProcess :: "(string \<Rightarrow> json option) \<Rightarrow> Assembled \<Rightarrow> Extractor \<Rightarrow> Assembled \<times> Extractor" where
  "ExtractProcess parse ep e =
     (let ks = dedupeKeys (concat (map (stepKeys parse e) (asSteps ep)));
          st = xtStats e;
          st1 = st\<lparr>xtEpisodes := xtEpisodes st + 1, xtKeysExtracted := xtKeysExtracted st + int (length ks)\<rparr>;
          st2 = (if ks = [] then st1\<lparr>xtEpisodesWithoutKeys := xtEpisodesWithoutKeys st1 + 1\<rparr> else st1)
      in (ep\<lparr>asEpisode := (asEpisode ep)\<lparr>epEntityKeys := ks\<rparr>\<rparr>, e\<lparr>xtStats := st2\<rparr>))"

definition CoverageRatio :: "Extractor \<Rightarrow> rat" where
  "CoverageRatio e =
     (if xtEpisodes (xtStats e) = 0 then 0
      else of_int (xtEpisodesWithoutKeys (xtStats e)) / of_int (xtEpisodes (xtStats e)))"

section \<open>The keys of an episode\<close>

lemma set_dropSeenKeys: "set (dropSeenKeys seen ks) = set ks - set seen"
  by (induction seen ks rule: dropSeenKeys.induct) auto

lemma distinct_dropSeenKeys: "distinct (dropSeenKeys seen ks)"
  by (induction seen ks rule: dropSeenKeys.induct) (auto simp: set_dropSeenKeys)

lemma dedupeKeys_spec:
  "set (dedupeKeys ks) = set ks" "distinct (dedupeKeys ks)" "sorted (map (\<lambda>k. (ekName k, ekValue k)) (dedupeKeys ks))"
  by (simp_all add: dedupeKeys_def set_dropSeenKeys distinct_dropSeenKeys)

lemma inj_nameValue: "inj (\<lambda>k :: EntityKey. (ekName k, ekValue k))"
  by (auto simp: inj_def)

text \<open>Sorted lists without repetition are determined by their elements.\<close>

lemma dedupeKeys_cong:
  assumes "set ks = set ks'"
  shows "dedupeKeys ks = dedupeKeys ks'"
proof -
  let ?f = "\<lambda>k :: EntityKey. (ekName k, ekValue k)"
  have d: "sorted (map ?f (dedupeKeys xs)) \<and> distinct (map ?f (dedupeKeys xs))" for xs
    using dedupeKeys_spec [of xs] inj_nameValue by (auto simp: distinct_map intro: inj_on_subset)
  have "set (map ?f (dedupeKeys ks)) = set (map ?f (dedupeKeys ks'))"
    using assms by (simp add: dedupeKeys_spec)
  then have "map ?f (dedupeKeys ks) = map ?f (dedupeKeys ks')"
    using d [of ks] d [of ks'] sorted_distinct_set_unique by blast
  then show ?thesis using inj_map_eq_map [OF inj_nameValue] by blast
qed

text \<open>
  The entity keys of an episode are the values its tools' expressions select, each once and in
  order of name and value; they depend on the set of its steps only, not on the order or number of
  times the steps arrived.
\<close>

theorem entity_keys_canonical:
  assumes "set (asSteps ep) = set (asSteps ep')"
  shows "set (epEntityKeys (asEpisode (fst (ExtractProcess parse ep e)))) = (\<Union>s \<in> set (asSteps ep). set (stepKeys parse e s)) \<and>
    distinct (epEntityKeys (asEpisode (fst (ExtractProcess parse ep e)))) \<and>
    sorted (map (\<lambda>k. (ekName k, ekValue k)) (epEntityKeys (asEpisode (fst (ExtractProcess parse ep e))))) \<and>
    epEntityKeys (asEpisode (fst (ExtractProcess parse ep e))) = epEntityKeys (asEpisode (fst (ExtractProcess parse ep' e)))"
proof -
  have "set (concat (map (stepKeys parse e) (asSteps ep))) = set (concat (map (stepKeys parse e) (asSteps ep')))"
    using assms by simp
  from dedupeKeys_cong [OF this] show ?thesis
    using assms by (simp add: ExtractProcess_def Let_def dedupeKeys_spec)
qed

text \<open>A path that selects the whole document, and two tool calls that name one order in two forms.\<close>

definition wholeDoc :: JsonPath where
  "wholeDoc = \<lparr>pathGet = (\<lambda>d. [d]), pathSet = (\<lambda>_ v. Some v)\<rparr>"

definition orderExtractor :: Extractor where
  "orderExtractor = \<lparr>byTool = [(''orders'', [\<lparr>keName = ''order'', keExpr = wholeDoc, keSrc = ''$''\<rparr>])],
     xtStats = \<lparr>xtEpisodes = 0, xtEpisodesWithoutKeys = 0, xtKeysExtracted = 0\<rparr>\<rparr>"

definition orderStep :: "string \<Rightarrow> Step" where
  "orderStep c = zeroStep\<lparr>stToolName := Some ''orders'', stContentInline := Some c\<rparr>"

definition orderParse :: "string \<Rightarrow> json option" where
  "orderParse s = (if s = ''7'' then Some (JNum ''7'') else if s = ''q7'' then Some (JStr ''7'') else None)"

theorem entity_keys_canonical_witness:
  "epEntityKeys (asEpisode (fst (ExtractProcess orderParse
       \<lparr>asEpisode = zeroEpisode, asSteps = [orderStep ''7'', orderStep ''q7'', orderStep ''x'']\<rparr> orderExtractor)))
     = [\<lparr>ekName = ''order'', ekValue = ''7''\<rparr>] \<and>
   epEntityKeys (asEpisode (fst (ExtractProcess orderParse
       \<lparr>asEpisode = zeroEpisode, asSteps = [orderStep ''x'', orderStep ''7'', orderStep ''7'', orderStep ''q7'']\<rparr> orderExtractor)))
     = [\<lparr>ekName = ''order'', ekValue = ''7''\<rparr>]"
proof -
  let ?a = "\<lparr>asEpisode = zeroEpisode, asSteps = [orderStep ''7'', orderStep ''q7'', orderStep ''x'']\<rparr>"
  let ?b = "\<lparr>asEpisode = zeroEpisode, asSteps = [orderStep ''x'', orderStep ''7'', orderStep ''7'', orderStep ''q7'']\<rparr>"
  have a: "epEntityKeys (asEpisode (fst (ExtractProcess orderParse ?a orderExtractor))) = [\<lparr>ekName = ''order'', ekValue = ''7''\<rparr>]"
    by code_simp
  have "set (asSteps ?a) = set (asSteps ?b)" by auto
  from entity_keys_canonical [OF this, of orderParse orderExtractor] a show ?thesis by simp
qed

text \<open>Every episode is counted, and counted as uncovered exactly when it has no keys.\<close>

lemma ExtractProcess_counts:
  "xtEpisodes (xtStats (snd (ExtractProcess parse ep e))) = xtEpisodes (xtStats e) + 1"
  "xtEpisodesWithoutKeys (xtStats (snd (ExtractProcess parse ep e))) = xtEpisodesWithoutKeys (xtStats e)
     + (if epEntityKeys (asEpisode (fst (ExtractProcess parse ep e))) = [] then 1 else 0)"
  by (simp_all add: ExtractProcess_def Let_def)

lemma ExtractProcess_keeps:
  "asSteps (fst (ExtractProcess parse ep e)) = asSteps ep"
  "asEpisode (fst (ExtractProcess parse ep e)) = (asEpisode ep)\<lparr>epEntityKeys := epEntityKeys (asEpisode (fst (ExtractProcess parse ep e)))\<rparr>"
  "byTool (snd (ExtractProcess parse ep e)) = byTool e"
  by (simp_all add: ExtractProcess_def Let_def)

end
