(* ===== verification/Wire.thy ===== *)
theory Wire
  imports Records
begin

text \<open>
  The native wire format (\<^verbatim>\<open>src/collector/wire\<close>): \<^verbatim>\<open>enum.go\<close>, \<^verbatim>\<open>decode.go\<close>, \<^verbatim>\<open>spans.go\<close>, \<^verbatim>\<open>proto.go\<close>,
  \<^verbatim>\<open>outcome.go\<close> and \<^verbatim>\<open>outcome_csv.go\<close>. The decoders of the standard library and of protobuf, which
  turn bytes into the structs, are parameters; a message of the generated protobuf package is a
  record with the fields of its \<^verbatim>\<open>.proto\<close> file, and a getter is the field, with the zero value for a
  field that is not set. The clock is a parameter: the reading for the step with a given index.
\<close>

datatype wireError =
    EmptyBody | BadBody string | UnknownEnum string string | EpisodeIDRequired | NoSteps string
  | StepError string nat wireError | SpanEndBeforeStart int int | TokenSpanError wireError
  | SessionIDRequired | SpanIDRequired | NoEpisodes | EpisodeMissing nat
  | MissingField string | BadTimestamp string | MissingColumn string | LineError nat wireError | BadInt string

section \<open>Enums\<close>

record enumSet =
  enName :: string
  enPrefix :: string
  enValues :: "string list"

definition statusSet :: enumSet where
  "statusSet = \<lparr>enName = ''status'', enPrefix = ''STATUS_'',
     enValues = [StatusComplete, StatusTimedOut, StatusEvicted, StatusPatched]\<rparr>"

definition kindSet :: enumSet where
  "kindSet = \<lparr>enName = ''kind'', enPrefix = ''KIND_'',
     enValues = [KindLLM, KindTool, KindRetrieval, KindHuman, KindOther]\<rparr>"

definition trainableSet :: enumSet where
  "trainableSet = \<lparr>enName = ''trainable'', enPrefix = ''TRAINABLE_'',
     enValues = [TrainableTrue, TrainableFalse, TrainableUnknown]\<rparr>"

definition encodingSet :: enumSet where
  "encodingSet = \<lparr>enName = ''encoding'', enPrefix = ''ENCODING_'',
     enValues = [EncodingUTF8, EncodingBase64, EncodingZstd]\<rparr>"

definition normalise :: "enumSet \<Rightarrow> string \<Rightarrow> wireError + string" where
  "normalise e v =
     (let t = trim_space v
      in if t = [] then Inr []
         else if to_lower t \<in> set (enValues e) then Inr (to_lower t)
         else
           let up = to_upper t; rest = to_lower (drop (length (enPrefix e)) up)
           in if has_prefix up (enPrefix e) \<and> rest = ''unspecified'' then Inr []
              else if has_prefix up (enPrefix e) \<and> rest \<in> set (enValues e) then Inr rest
              else Inl (UnknownEnum (enName e) v))"

definition NormaliseStatus :: "string \<Rightarrow> wireError + string" where "NormaliseStatus v = normalise statusSet v"
definition NormaliseKind :: "string \<Rightarrow> wireError + string" where "NormaliseKind v = normalise kindSet v"
definition NormaliseEncoding :: "string \<Rightarrow> wireError + string" where "NormaliseEncoding v = normalise encodingSet v"

definition NormaliseTrainable :: "string \<Rightarrow> wireError + string" where
  "NormaliseTrainable v =
     (case normalise trainableSet v of
        Inl e \<Rightarrow> Inl e
      | Inr out \<Rightarrow> Inr (if out = [] then TrainableUnknown else out))"

section \<open>Numbers\<close>

text \<open>\<^verbatim>\<open>strings.Trim(s, q)\<close> for one character, and \<^verbatim>\<open>strconv.ParseInt(s, 10, 64)\<close>.\<close>

definition trim_char :: "char \<Rightarrow> string \<Rightarrow> string" where
  "trim_char c s = rev (dropWhile (\<lambda>x. x = c) (rev (dropWhile (\<lambda>x. x = c) s)))"

definition ParseInt :: "string \<Rightarrow> int option" where
  "ParseInt s =
     (let neg = has_prefix s ''-''; ds = (if neg \<or> has_prefix s ''+'' then tl s else s);
          n = (if neg then - int (digits_val ds) else int (digits_val ds))
      in if ds \<noteq> [] \<and> list_all is_digit ds \<and> - (2 ^ 63) \<le> n \<and> n < 2 ^ 63 then Some n else None)"

text \<open>\<^verbatim>\<open>Int64.UnmarshalJSON\<close>, with the value the field has before.\<close>

definition Int64_Unmarshal :: "string \<Rightarrow> int \<Rightarrow> wireError + int" where
  "Int64_Unmarshal b old =
     (let s = trim_space b
      in if s = ''null'' then Inr old
         else
           let s1 = trim_char (CHR 0x22) s
           in if s1 = [] then Inr old
              else case ParseInt s1 of None \<Rightarrow> Inl (BadInt b) | Some n \<Rightarrow> Inr n)"

section \<open>Episodes\<close>

record WireStep =
  wsStepIdx :: "int option"
  wsParentIdx :: "int option"
  wsAttempt :: int
  wsKind :: string
  wsRole :: string
  wsContent :: string
  wsTruncated :: bool
  wsToolName :: string
  wsToolVersion :: string
  wsModel :: string
  wsProvider :: string
  wsParams :: "Params option"
  wsTokenCounts :: "TokenCounts option"
  wsTokenSpans :: "TokenSpan list"
  wsTrainable :: string
  wsFinishReason :: string
  wsCostUSD :: "rat option"
  wsStartedAt :: int
  wsLatencyMs :: "int option"
  wsError :: "Error option"
  wsRaw :: "(string, string) gomap"

record WireEpisode =
  weEpisodeID :: string
  weTenant :: string
  weGroupID :: string
  weTaskType :: string
  weSource :: string
  weInstrumentation :: string
  weInstrumentationVersion :: string
  weStatus :: string
  weStartedAt :: int
  weEndedAt :: "int option"
  weError :: "Error option"
  weRaw :: "(string, string) gomap"
  weSteps :: "WireStep list"

text \<open>One body or an array, decided by the first character (\<^verbatim>\<open>DecodeEpisodes\<close>, \<^verbatim>\<open>DecodeSpans\<close>, \<^verbatim>\<open>DecodeOutcomes\<close>).\<close>

definition decodeBody :: "(string \<Rightarrow> 'a list option) \<Rightarrow> (string \<Rightarrow> 'a option) \<Rightarrow> string \<Rightarrow> string \<Rightarrow> wireError + 'a list" where
  "decodeBody unmarshalArray unmarshal what body =
     (let t = trim_space body
      in if t = [] then Inl EmptyBody
         else if hd t = CHR ''['' then
           (case unmarshalArray body of None \<Rightarrow> Inl (BadBody (what @ '' array'')) | Some xs \<Rightarrow> Inr xs)
         else (case unmarshal body of None \<Rightarrow> Inl (BadBody what) | Some x \<Rightarrow> Inr [x]))"

definition DecodeEpisodes :: "(string \<Rightarrow> WireEpisode list option) \<Rightarrow> (string \<Rightarrow> WireEpisode option) \<Rightarrow> string \<Rightarrow> wireError + WireEpisode list" where
  "DecodeEpisodes unmarshalArray unmarshal body = decodeBody unmarshalArray unmarshal ''episode'' body"

definition setStr :: "string \<Rightarrow> string option" where
  "setStr v = (if v = [] then None else Some v)"

fun toTokenSpans :: "TokenSpan list \<Rightarrow> wireError + TokenSpan list" where
  "toTokenSpans [] = Inr []"
| "toTokenSpans (ts # rest) =
     (case NormaliseTrainable (tsTrainable ts) of
        Inl e \<Rightarrow> Inl (TokenSpanError e)
      | Inr tr \<Rightarrow>
          if tsEnd ts < tsStart ts then Inl (SpanEndBeforeStart (tsEnd ts) (tsStart ts))
          else (case toTokenSpans rest of Inl e \<Rightarrow> Inl e | Inr r \<Rightarrow> Inr (ts\<lparr>tsTrainable := tr\<rparr> # r)))"

definition toRecord :: "nat \<Rightarrow> WireStep \<Rightarrow> wireError + Step" where
  "toRecord idx w =
     (case NormaliseKind (wsKind w) of
        Inl e \<Rightarrow> Inl e
      | Inr kind0 \<Rightarrow>
          (case NormaliseTrainable (wsTrainable w) of
             Inl e \<Rightarrow> Inl e
           | Inr tr \<Rightarrow>
               let s = zeroStep
                 \<lparr>stCostUSD := wsCostUSD w,
                  stStepIdx := (case wsStepIdx w of None \<Rightarrow> wrap32 (int idx) | Some i \<Rightarrow> i),
                  stAttempt := wsAttempt w,
                  stKind := (if kind0 = [] then KindOther else kind0),
                  stTruncated := wsTruncated w,
                  stTrainable := tr,
                  stStartedAt := wsStartedAt w,
                  stLatencyMs := wsLatencyMs w,
                  stRaw := wsRaw w,
                  stParentIdx := wsParentIdx w,
                  stRole := setStr (wsRole w),
                  stToolName := setStr (wsToolName w),
                  stToolVersion := setStr (wsToolVersion w),
                  stModel := setStr (wsModel w),
                  stProvider := setStr (wsProvider w),
                  stFinishReason := setStr (wsFinishReason w),
                  stContentInline := setStr (wsContent w),
                  stError := wsError w,
                  stParams := wsParams w,
                  stTokenCounts := wsTokenCounts w\<rparr>
               in (case toTokenSpans (wsTokenSpans w) of
                     Inl e \<Rightarrow> Inl e
                   | Inr spans \<Rightarrow> Inr (s\<lparr>stTokenSpans := spans\<rparr>))))"

definition stepSpanID :: "string \<Rightarrow> int \<Rightarrow> string" where
  "stepSpanID epID i = epID @ ''#'' @ format_int i"

definition metaOf :: "string \<Rightarrow> string \<Rightarrow> string \<Rightarrow> string \<Rightarrow> (string, string) gomap \<Rightarrow> EpisodeMeta" where
  "metaOf taskType groupID instr instrVersion raw =
     \<lparr>mtTaskType = taskType, mtGroupID = groupID,
      mtInstrumentation = (if instr = [] then ''native'' else instr),
      mtInstrumentationVersion = instrVersion, mtRaw = raw\<rparr>"

text \<open>The envelope of step \<open>i\<close>; the last step carries the terminal marker and the episode's error.\<close>

definition stepEnvelope ::
  "(nat \<Rightarrow> int) \<Rightarrow> string \<Rightarrow> WireEpisode \<Rightarrow> bool \<Rightarrow> nat \<Rightarrow> WireStep \<Rightarrow> Step \<Rightarrow> Envelope"
where
  "stepEnvelope now sourceName e terminal i ws step0 =
     (let step1 = (if stStartedAt step0 = 0 then step0\<lparr>stStartedAt := weStartedAt e\<rparr> else step0);
          step = (if stStartedAt step1 = 0 then step1\<lparr>stStartedAt := now i\<rparr> else step1);
          isLast = (Suc i = length (weSteps e))
      in \<lparr>envSessionKey = weEpisodeID e, envEpisodeID = weEpisodeID e, envSource = sourceName,
          envSpanID = stepSpanID (weEpisodeID e) (stStepIdx step),
          envParentSpanID = (case wsParentIdx ws of None \<Rightarrow> [] | Some p \<Rightarrow> stepSpanID (weEpisodeID e) p),
          envTerminal = (isLast \<and> terminal),
          envError = (if isLast then weError e else None),
          envMeta = metaOf (weTaskType e) (weGroupID e) (weInstrumentation e) (weInstrumentationVersion e) (weRaw e),
          envStep = step\<rparr>)"

fun stepEnvelopes ::
  "(nat \<Rightarrow> int) \<Rightarrow> string \<Rightarrow> WireEpisode \<Rightarrow> bool \<Rightarrow> nat \<Rightarrow> WireStep list \<Rightarrow> wireError + Envelope list"
where
  "stepEnvelopes now sourceName e terminal i [] = Inr []"
| "stepEnvelopes now sourceName e terminal i (ws # rest) =
     (case toRecord i ws of
        Inl err \<Rightarrow> Inl (StepError (weEpisodeID e) i err)
      | Inr step \<Rightarrow>
          (case stepEnvelopes now sourceName e terminal (Suc i) rest of
             Inl err \<Rightarrow> Inl err
           | Inr out \<Rightarrow> Inr (stepEnvelope now sourceName e terminal i ws step # out)))"

definition ToEnvelopes :: "(nat \<Rightarrow> int) \<Rightarrow> string \<Rightarrow> WireEpisode \<Rightarrow> wireError + Envelope list" where
  "ToEnvelopes now sourceName e =
     (if weEpisodeID e = [] then Inl EpisodeIDRequired
      else if weSteps e = [] then Inl (NoSteps (weEpisodeID e))
      else
        case NormaliseStatus (weStatus e) of
          Inl err \<Rightarrow> Inl err
        | Inr status \<Rightarrow>
            stepEnvelopes now sourceName e (status = [] \<or> status = StatusComplete) 0 (weSteps e))"

section \<open>Spans\<close>

record SpanRecord =
  srSessionID :: string
  srEpisodeID :: string
  srSpanID :: string
  srParentSpanID :: string
  srTerminal :: bool
  srTaskType :: string
  srGroupID :: string
  srInstrumentation :: string
  srInstrumentationVersion :: string
  srEpisodeError :: "Error option"
  srEpisodeRaw :: "(string, string) gomap"
  srStep :: WireStep

definition DecodeSpans :: "(string \<Rightarrow> SpanRecord list option) \<Rightarrow> (string \<Rightarrow> SpanRecord option) \<Rightarrow> string \<Rightarrow> wireError + SpanRecord list" where
  "DecodeSpans unmarshalArray unmarshal body = decodeBody unmarshalArray unmarshal ''span'' body"

definition ToEnvelope :: "int \<Rightarrow> string \<Rightarrow> SpanRecord \<Rightarrow> wireError + Envelope" where
  "ToEnvelope now sourceName r =
     (if srSessionID r = [] then Inl SessionIDRequired
      else if srSpanID r = [] then Inl SpanIDRequired
      else
        case toRecord 0 (srStep r) of
          Inl e \<Rightarrow> Inl e
        | Inr step \<Rightarrow>
            Inr \<lparr>envSessionKey = srSessionID r, envEpisodeID = srEpisodeID r, envSource = sourceName,
                 envSpanID = srSpanID r, envParentSpanID = srParentSpanID r, envTerminal = srTerminal r,
                 envError = srEpisodeError r,
                 envMeta = metaOf (srTaskType r) (srGroupID r) (srInstrumentation r) (srInstrumentationVersion r) (srEpisodeRaw r),
                 envStep = (if stStartedAt step = 0 then step\<lparr>stStartedAt := now\<rparr> else step)\<rparr>)"

section \<open>Protobuf\<close>

record ProtoTokenSpan =
  ptsStart :: int
  ptsEnd :: int
  ptsTrainable :: int

record ProtoStep =
  psStepIdx :: int
  psParentIdx :: "int option"
  psAttempt :: int
  psKind :: int
  psRole :: "string option"
  psContentInline :: "string option"
  psTruncated :: bool
  psToolName :: "string option"
  psToolVersion :: "string option"
  psModel :: "string option"
  psProvider :: "string option"
  psParams :: "Params option"
  psTokenCounts :: "TokenCounts option"
  psTokenSpans :: "ProtoTokenSpan list"
  psTrainable :: int
  psFinishReason :: "string option"
  psStartedAt :: int
  psLatencyMs :: "int option"
  psError :: "Error option"
  psRaw :: "(string, string) gomap"
  psCostUsd :: "rat option"

record ProtoEpisode =
  peEpisodeId :: string
  peTenant :: string
  peGroupId :: "string option"
  peTaskType :: "string option"
  peSource :: string
  peInstrumentation :: "string option"
  peInstrumentationVersion :: "string option"
  peStatus :: int
  peStartedAt :: int
  peEndedAt :: "int option"
  peError :: "Error option"
  peRaw :: "(string, string) gomap"

record EpisodeWithSteps =
  ewEpisode :: "ProtoEpisode option"
  ewSteps :: "ProtoStep list"

record ProtoSpan =
  pnSessionId :: string
  pnSpanId :: string
  pnParentSpanId :: string
  pnTerminal :: bool
  pnTaskType :: "string option"
  pnGroupId :: "string option"
  pnInstrumentation :: "string option"
  pnInstrumentationVersion :: "string option"
  pnEpisodeError :: "Error option"
  pnEpisodeRaw :: "(string, string) gomap"
  pnStep :: "ProtoStep option"

text \<open>A getter of an optional text field.\<close>

definition getStr :: "string option \<Rightarrow> string" where
  "getStr x = (case x of None \<Rightarrow> [] | Some s \<Rightarrow> s)"

definition stepFromProto :: "ProtoStep \<Rightarrow> WireStep" where
  "stepFromProto ps =
     \<lparr>wsStepIdx = Some (psStepIdx ps), wsParentIdx = psParentIdx ps, wsAttempt = psAttempt ps,
      wsKind = KindFromProto (psKind ps), wsRole = getStr (psRole ps), wsContent = getStr (psContentInline ps),
      wsTruncated = psTruncated ps, wsToolName = getStr (psToolName ps), wsToolVersion = getStr (psToolVersion ps),
      wsModel = getStr (psModel ps), wsProvider = getStr (psProvider ps), wsParams = psParams ps,
      wsTokenCounts = psTokenCounts ps,
      wsTokenSpans = map (\<lambda>ts. \<lparr>tsStart = ptsStart ts, tsEnd = ptsEnd ts, tsTrainable = TrainableFromProto (ptsTrainable ts)\<rparr>) (psTokenSpans ps),
      wsTrainable = TrainableFromProto (psTrainable ps), wsFinishReason = getStr (psFinishReason ps),
      wsCostUSD = psCostUsd ps, wsStartedAt = psStartedAt ps, wsLatencyMs = psLatencyMs ps,
      wsError = psError ps, wsRaw = psRaw ps\<rparr>"

definition fromProto :: "ProtoEpisode \<Rightarrow> ProtoStep list \<Rightarrow> WireEpisode" where
  "fromProto pe steps =
     \<lparr>weEpisodeID = peEpisodeId pe, weTenant = peTenant pe, weGroupID = getStr (peGroupId pe),
      weTaskType = getStr (peTaskType pe), weSource = peSource pe,
      weInstrumentation = getStr (peInstrumentation pe),
      weInstrumentationVersion = getStr (peInstrumentationVersion pe),
      weStatus = StatusFromProto (peStatus pe), weStartedAt = peStartedAt pe, weEndedAt = peEndedAt pe,
      weError = peError pe, weRaw = peRaw pe, weSteps = map stepFromProto steps\<rparr>"

fun fromProtos :: "nat \<Rightarrow> EpisodeWithSteps list \<Rightarrow> wireError + WireEpisode list" where
  "fromProtos i [] = Inr []"
| "fromProtos i (ews # rest) =
     (case ewEpisode ews of
        None \<Rightarrow> Inl (EpisodeMissing i)
      | Some pe \<Rightarrow>
          (case fromProtos (Suc i) rest of
             Inl err \<Rightarrow> Inl err
           | Inr out \<Rightarrow> Inr (fromProto pe (ewSteps ews) # out)))"

definition DecodeEpisodesProto :: "(string \<Rightarrow> EpisodeWithSteps list option) \<Rightarrow> string \<Rightarrow> wireError + WireEpisode list" where
  "DecodeEpisodesProto unmarshal body =
     (case unmarshal body of
        None \<Rightarrow> Inl (BadBody ''EpisodeBatch'')
      | Some eps \<Rightarrow> if eps = [] then Inl NoEpisodes else fromProtos 0 eps)"

definition zeroWireStep :: WireStep where
  "zeroWireStep = \<lparr>wsStepIdx = None, wsParentIdx = None, wsAttempt = 0, wsKind = [], wsRole = [], wsContent = [],
     wsTruncated = False, wsToolName = [], wsToolVersion = [], wsModel = [], wsProvider = [], wsParams = None,
     wsTokenCounts = None, wsTokenSpans = [], wsTrainable = [], wsFinishReason = [], wsCostUSD = None,
     wsStartedAt = 0, wsLatencyMs = None, wsError = None, wsRaw = []\<rparr>"

definition spanFromProto :: "ProtoSpan \<Rightarrow> SpanRecord" where
  "spanFromProto p =
     \<lparr>srSessionID = pnSessionId p, srEpisodeID = [], srSpanID = pnSpanId p, srParentSpanID = pnParentSpanId p,
      srTerminal = pnTerminal p, srTaskType = getStr (pnTaskType p), srGroupID = getStr (pnGroupId p),
      srInstrumentation = getStr (pnInstrumentation p),
      srInstrumentationVersion = getStr (pnInstrumentationVersion p),
      srEpisodeError = pnEpisodeError p, srEpisodeRaw = pnEpisodeRaw p,
      srStep = (case pnStep p of None \<Rightarrow> zeroWireStep | Some ps \<Rightarrow> stepFromProto ps)\<rparr>"

definition DecodeSpansProto :: "(string \<Rightarrow> ProtoSpan list option) \<Rightarrow> string \<Rightarrow> wireError + SpanRecord list" where
  "DecodeSpansProto unmarshal body =
     (case unmarshal body of None \<Rightarrow> Inl (BadBody ''SpanBatch'') | Some ps \<Rightarrow> Inr (map spanFromProto ps))"

section \<open>Outcomes\<close>

record WireOutcome =
  woOutcomeID :: string
  woEntityName :: string
  woEntityKey :: string
  woKind :: string
  woValue :: string
  woOccurredAt :: int
  woObservedAt :: int
  woSource :: string

text \<open>
  \<^verbatim>\<open>time.Parse\<close> for one layout (as microseconds), \<^verbatim>\<open>strconv.ParseFloat\<close> and the rounding of a
  floating-point product are parameters of \<^verbatim>\<open>ParseTimestamp\<close>.
\<close>

record TimeLib =
  timeParse :: "string \<Rightarrow> string \<Rightarrow> int option"
  parseFloat :: "string \<Rightarrow> rat option"
  roundFloat :: "rat \<Rightarrow> rat"

definition truncRat :: "rat \<Rightarrow> int" where
  "truncRat x = (if x < 0 then - \<lfloor>- x\<rfloor> else \<lfloor>x\<rfloor>)"

definition timeLayouts :: "string list" where
  "timeLayouts = [''2006-01-02T15:04:05.999999999Z07:00'', ''2006-01-02T15:04:05Z07:00'', ''2006-01-02 15:04:05'', ''2006-01-02'']"

fun firstLayout :: "TimeLib \<Rightarrow> string list \<Rightarrow> string \<Rightarrow> int option" where
  "firstLayout L [] s = None"
| "firstLayout L (l # ls) s = (case timeParse L l s of Some t \<Rightarrow> Some t | None \<Rightarrow> firstLayout L ls s)"

definition ParseTimestamp :: "TimeLib \<Rightarrow> string \<Rightarrow> wireError + int" where
  "ParseTimestamp L s0 =
     (let s = trim_space s0
      in case firstLayout L timeLayouts s of
           Some t \<Rightarrow> Inr t
         | None \<Rightarrow>
             (case parseFloat L s of
                None \<Rightarrow> Inl (BadTimestamp s)
              | Some f \<Rightarrow>
                  if f < 10 ^ 11 then Inr (truncRat (roundFloat L (f * 10 ^ 6)))
                  else if f < 10 ^ 14 then Inr (truncRat (roundFloat L (f * 10 ^ 3)))
                  else Inr (truncRat f)))"

definition Timestamp_Unmarshal :: "TimeLib \<Rightarrow> string \<Rightarrow> int \<Rightarrow> wireError + int" where
  "Timestamp_Unmarshal L b old =
     (let s = trim_char (CHR 0x22) (trim_space b)
      in if s = [] \<or> s = ''null'' then Inr old else ParseTimestamp L s)"

definition DecodeOutcomes :: "(string \<Rightarrow> WireOutcome list option) \<Rightarrow> (string \<Rightarrow> WireOutcome option) \<Rightarrow> string \<Rightarrow> wireError + WireOutcome list" where
  "DecodeOutcomes unmarshalArray unmarshal body = decodeBody unmarshalArray unmarshal ''outcome'' body"

definition ValidateOutcome :: "WireOutcome \<Rightarrow> wireError option" where
  "ValidateOutcome w =
     (if woEntityName w = [] then Some (MissingField ''entity_name'')
      else if woEntityKey w = [] then Some (MissingField ''entity_key'')
      else if woKind w = [] then Some (MissingField ''kind'')
      else if woOccurredAt w = 0 then Some (MissingField ''occurred_at'')
      else None)"

section \<open>Outcomes from CSV\<close>

text \<open>The rows as the CSV reader delivers them: the header, then rows up to the end or an error.\<close>

definition headerIndex :: "string list \<Rightarrow> (string, nat) gomap" where
  "headerIndex header = fold (\<lambda>(i, h) m. AList.update (to_lower (trim_space h)) i m) (enumerate 0 header) []"

definition csvGet :: "(string, nat) gomap \<Rightarrow> string list \<Rightarrow> string \<Rightarrow> string" where
  "csvGet idx row col =
     (case map_of idx col of Some i \<Rightarrow> if i < length row then trim_space (row ! i) else [] | None \<Rightarrow> [])"

definition csvTime :: "TimeLib \<Rightarrow> (string, nat) gomap \<Rightarrow> string list \<Rightarrow> string \<Rightarrow> wireError + int" where
  "csvTime L idx row col =
     (let v = csvGet idx row col in if v = [] then Inr 0 else ParseTimestamp L v)"

definition csvOutcome :: "TimeLib \<Rightarrow> (string, nat) gomap \<Rightarrow> string list \<Rightarrow> wireError + WireOutcome" where
  "csvOutcome L idx row =
     (case csvTime L idx row ''occurred_at'' of
        Inl e \<Rightarrow> Inl e
      | Inr occ \<Rightarrow>
          (case csvTime L idx row ''observed_at'' of
             Inl e \<Rightarrow> Inl e
           | Inr obs \<Rightarrow>
               let w = \<lparr>woOutcomeID = csvGet idx row ''outcome_id'', woEntityName = csvGet idx row ''entity_name'',
                        woEntityKey = csvGet idx row ''entity_key'', woKind = csvGet idx row ''kind'',
                        woValue = csvGet idx row ''value'', woOccurredAt = occ, woObservedAt = obs,
                        woSource = csvGet idx row ''source''\<rparr>
               in (case ValidateOutcome w of Some e \<Rightarrow> Inl e | None \<Rightarrow> Inr w)))"

fun csvRows :: "TimeLib \<Rightarrow> (string, nat) gomap \<Rightarrow> nat \<Rightarrow> (string list option) list \<Rightarrow> wireError + WireOutcome list" where
  "csvRows L idx line [] = Inr []"
| "csvRows L idx line (None # rows) = Inl (LineError (Suc line) (BadBody ''csv''))"
| "csvRows L idx line (Some row # rows) =
     (case csvOutcome L idx row of
        Inl e \<Rightarrow> Inl (LineError (Suc line) e)
      | Inr w \<Rightarrow>
          (case csvRows L idx (Suc line) rows of Inl e \<Rightarrow> Inl e | Inr ws \<Rightarrow> Inr (w # ws)))"

definition requiredColumns :: "string list" where
  "requiredColumns = [''entity_name'', ''entity_key'', ''kind'', ''occurred_at'']"

definition ReadOutcomesCSV :: "TimeLib \<Rightarrow> (string list option) list \<Rightarrow> wireError + WireOutcome list" where
  "ReadOutcomesCSV L input =
     (case input of
        Some header # rows \<Rightarrow>
          let idx = headerIndex header
          in (case find (\<lambda>c. c \<notin> fst ` set idx) requiredColumns of
                Some c \<Rightarrow> Inl (MissingColumn c)
              | None \<Rightarrow> csvRows L idx 1 rows)
      | _ \<Rightarrow> Inl (BadBody ''header''))"

end
