(* ===== verification/Config.thy ===== *)
theory Config
  imports Assemble Sample Extract Wire
begin

text \<open>
  The configuration (\<^verbatim>\<open>src/collector/config\<close>: \<^verbatim>\<open>config.go\<close>, \<^verbatim>\<open>validate.go\<close>, \<^verbatim>\<open>bytesize.go\<close>; the listener
  settings of \<^verbatim>\<open>src/collector/tlsconf\<close>): its structs, the expansion of environment references, the
  defaults, and validation. A problem that validation reports is its key; the text that explains it
  is not modelled. The YAML decoder is a parameter of \<^verbatim>\<open>Parse\<close>. What validation asks of the system is
  the record \<open>Sys\<close>: environment variables, whether a path can be read or is a directory, whether a
  regular expression compiles or a glob is well-formed, and the parts of a listen address.
\<close>

section \<open>Structs\<close>

record TLSConfig =
  tlCertFile :: string
  tlKeyFile :: string
  tlClientCAFile :: string
  tlMinVersion :: string

record Redaction =
  rnPolicy :: RedactionConfig
  rnOnError :: string
  rnKeyEnv :: string

record Source =
  soName :: string
  soType :: string
  soPath :: string
  soMapping :: string
  soInclude :: "string list"
  soStartAt :: string
  soPollInterval :: duration
  soHTTPListen :: string
  soHTTPTLS :: TLSConfig
  soGRPCListen :: string
  soGRPCTLS :: TLSConfig
  soAuthType :: string
  soTokenEnv :: string
  soMaxRequestBytes :: int
  soHeadSampleRate :: "rat option"
  soRecordsPerSecond :: rat
  soBurst :: int
  soRedaction :: "Redaction option"
  soMappingsDir :: string

record AssemblyConfig =
  acSessionKey :: "string list"
  acWindow :: duration
  acMaxInFlight :: int
  acSettleAfterTerminal :: duration
  acPatchMemory :: int

record BufferConfig =
  bcDir :: string
  bcMaxBytes :: int
  bcMaxAge :: duration
  bcSegmentBytes :: int
  bcBackpressureAt :: rat
  bcMaxAttempts :: int
  bcBatchSize :: int
  bcRetryBaseDelay :: duration
  bcRetryMaxDelay :: duration
  bcDeadLetterDir :: string
  bcKeyEnv :: string

record SinkConfig =
  skName :: string
  skType :: string
  skDir :: string
  skBucket :: string
  skPrefix :: string
  skRegion :: string
  skEndpoint :: string
  skPathStyle :: bool
  skAccessKeyID :: string
  skSecretAccessKey :: string
  skSessionToken :: string
  skSSEType :: string
  skSSEKeyID :: string
  skTargetFileBytes :: int
  skRollInterval :: duration
  skCompression :: string
  skPartitionBy :: "string list"
  skBlobThresholdBytes :: int
  skMaxPayloadBytes :: int

record Config =
  cfSchemaVersion :: string
  cfTenant :: string
  cfSources :: "Source list"
  cfAssembly :: AssemblyConfig
  cfRedaction :: Redaction
  cfEntities :: "Entity list"
  cfSampling :: SamplingConfig
  cfBuffer :: BufferConfig
  cfShutdownTimeout :: duration
  cfSinks :: "SinkConfig list"
  cfLogLevel :: string

record Sys =
  lookupEnv :: "string \<Rightarrow> string option"
  canStat :: "string \<Rightarrow> bool"
  isDir :: "string \<Rightarrow> bool"
  regexOK :: "string \<Rightarrow> bool"
  globOK :: "string \<Rightarrow> bool"
  splitHost :: "string \<Rightarrow> string option"
  loopbackIP :: "string \<Rightarrow> bool"

definition getenv :: "Sys \<Rightarrow> string \<Rightarrow> string" where
  "getenv sys v = (case lookupEnv sys v of None \<Rightarrow> [] | Some x \<Rightarrow> x)"

section \<open>Environment references\<close>

definition nameStart :: "char \<Rightarrow> bool" where
  "nameStart c \<longleftrightarrow> CHR ''A'' \<le> c \<and> c \<le> CHR ''Z'' \<or> CHR ''a'' \<le> c \<and> c \<le> CHR ''z'' \<or> c = CHR ''_''"

definition nameChar :: "char \<Rightarrow> bool" where
  "nameChar c \<longleftrightarrow> nameStart c \<or> is_digit c"

text \<open>A reference at the start of the text, after the dollar sign: the name and what follows it.\<close>

definition refAt :: "string \<Rightarrow> (string \<times> string) option" where
  "refAt s =
     (case s of
        b # c # r \<Rightarrow>
          if b = CHR 0x7B \<and> nameStart c then
            (case dropWhile nameChar r of
               e # rest \<Rightarrow> if e = CHR 0x7D then Some (c # takeWhile nameChar r, rest) else None
             | [] \<Rightarrow> None)
          else None
      | _ \<Rightarrow> None)"

lemma refAt_shorter: "refAt s = Some (n, rest) \<Longrightarrow> length rest < length s"
proof -
  assume r: "refAt s = Some (n, rest)"
  obtain b c t where s: "s = b # c # t" using r by (auto simp: refAt_def split: list.splits)
  have "length (dropWhile nameChar t) \<le> length t" by (rule length_dropWhile_le)
  then show ?thesis using r s by (auto simp: refAt_def split: list.splits if_splits)
qed

text \<open>The expanded text and the names that are not set; an unset reference is left as it is.\<close>

function expand :: "(string \<Rightarrow> string option) \<Rightarrow> string \<Rightarrow> string \<times> string list" where
  "expand env [] = ([], [])"
| "expand env (c # s) =
     (case (if c = CHR ''$'' then refAt s else None) of
        None \<Rightarrow> (case expand env s of (out, missing) \<Rightarrow> (c # out, missing))
      | Some (n, rest) \<Rightarrow>
          (case expand env rest of
             (out, missing) \<Rightarrow>
               (case env n of
                  Some v \<Rightarrow> (v @ out, missing)
                | None \<Rightarrow> (CHR ''$'' # CHR 0x7B # n @ CHR 0x7D # out, n # missing))))"
  by pat_completeness auto
termination
  by (relation "measure (\<lambda>(env, s). length s)") (auto dest!: refAt_shorter split: if_splits)

datatype configError = UndefinedEnv "string list" | BadYAML | Invalid "string list"

definition interpolate :: "Sys \<Rightarrow> string \<Rightarrow> configError + string" where
  "interpolate sys s =
     (case expand (lookupEnv sys) s of
        (out, missing) \<Rightarrow> if missing \<noteq> [] then Inl (UndefinedEnv missing) else Inr out)"

section \<open>Defaults\<close>

definition orZero :: "int \<Rightarrow> int \<Rightarrow> int" where "orZero d x = (if x = 0 then d else x)"
definition orNone :: "'a list \<Rightarrow> 'a list \<Rightarrow> 'a list" where "orNone d xs = (if xs = [] then d else xs)"

definition applyRedactionDefaults :: "Redaction \<Rightarrow> Redaction" where
  "applyRedactionDefaults r =
     r\<lparr>rnPolicy := (rnPolicy r)\<lparr>rdDefault := orNone ''deny'' (rdDefault (rnPolicy r))\<rparr>,
       rnOnError := orNone ''quarantine'' (rnOnError r)\<rparr>"

definition sinkDefaults :: "SinkConfig \<Rightarrow> SinkConfig" where
  "sinkDefaults s = s
     \<lparr>skBlobThresholdBytes := orZero 8192 (skBlobThresholdBytes s),
      skMaxPayloadBytes := orZero 8388608 (skMaxPayloadBytes s),
      skPartitionBy := orNone [''dt'', ''tenant'', ''task_type''] (skPartitionBy s),
      skTargetFileBytes := orZero 268435456 (skTargetFileBytes s),
      skRollInterval := orZero 900000000000 (skRollInterval s),
      skCompression := orNone ''zstd'' (skCompression s)\<rparr>"

definition bufferDefaults :: "BufferConfig \<Rightarrow> BufferConfig" where
  "bufferDefaults b = b
     \<lparr>bcMaxBytes := orZero 8589934592 (bcMaxBytes b),
      bcMaxAge := orZero 86400000000000 (bcMaxAge b),
      bcSegmentBytes := orZero 67108864 (bcSegmentBytes b),
      bcBackpressureAt := (if bcBackpressureAt b = 0 then 8 / 10 else bcBackpressureAt b),
      bcMaxAttempts := orZero 8 (bcMaxAttempts b),
      bcBatchSize := orZero 256 (bcBatchSize b),
      bcRetryBaseDelay := orZero 500000000 (bcRetryBaseDelay b),
      bcRetryMaxDelay := orZero 60000000000 (bcRetryMaxDelay b)\<rparr>"

definition assemblyDefaults :: "AssemblyConfig \<Rightarrow> AssemblyConfig" where
  "assemblyDefaults a = a
     \<lparr>acWindow := orZero 300000000000 (acWindow a),
      acMaxInFlight := orZero 50000 (acMaxInFlight a),
      acSettleAfterTerminal := orZero 5000000000 (acSettleAfterTerminal a),
      acPatchMemory := orZero 10000 (acPatchMemory a),
      acSessionKey := orNone [''session.id'', ''gen_ai.conversation.id'', ''trace_id''] (acSessionKey a)\<rparr>"

definition sourceDefaults :: "Source \<Rightarrow> Source" where
  "sourceDefaults s = s
     \<lparr>soRedaction := map_option applyRedactionDefaults (soRedaction s),
      soMaxRequestBytes := orZero 16777216 (soMaxRequestBytes s)\<rparr>"

definition configDefaults :: "Config \<Rightarrow> Config" where
  "configDefaults c = c
     \<lparr>cfAssembly := assemblyDefaults (cfAssembly c),
      cfRedaction := applyRedactionDefaults (cfRedaction c),
      cfSources := map sourceDefaults (cfSources c),
      cfLogLevel := orNone ''info'' (cfLogLevel c),
      cfSinks := map sinkDefaults (cfSinks c),
      cfShutdownTimeout := orZero 30000000000 (cfShutdownTimeout c),
      cfBuffer := bufferDefaults (cfBuffer c)\<rparr>"

section \<open>Schema versions\<close>

fun splitN :: "nat \<Rightarrow> char \<Rightarrow> string \<Rightarrow> string \<Rightarrow> string list" where
  "splitN n sep cur [] = [cur]"
| "splitN n sep cur (c # s) =
     (if c = sep \<and> n > 1 then cur # splitN (n - 1) sep [] s else splitN n sep (cur @ [c]) s)"

definition majorMinor :: "string \<Rightarrow> (int \<times> int) option" where
  "majorMinor v =
     (case splitN 3 (CHR ''.'') [] (if has_prefix v ''v'' then tl v else v) of
        a # b # _ \<Rightarrow> (case (ParseInt a, ParseInt b) of (Some x, Some y) \<Rightarrow> Some (x, y) | _ \<Rightarrow> None)
      | _ \<Rightarrow> None)"

definition compatibleSchema :: "string \<Rightarrow> string \<Rightarrow> bool" where
  "compatibleSchema want have =
     (case (majorMinor want, majorMinor have) of
        (Some (wm, wn), Some (hm, hn)) \<Rightarrow> wm = hm \<and> wn \<le> hn
      | _ \<Rightarrow> False)"

section \<open>Validation\<close>

text \<open>\<open>bad b k\<close> reports the key \<open>k\<close> when \<open>b\<close> holds.\<close>

definition bad :: "bool \<Rightarrow> string \<Rightarrow> string list" where "bad b k = (if b then [k] else [])"

definition indexed :: "string \<Rightarrow> nat \<Rightarrow> string" where "indexed k i = k @ ''['' @ nat_digits i @ '']''"

definition tlsEnabled :: "TLSConfig \<Rightarrow> bool" where
  "tlsEnabled t \<longleftrightarrow> tlCertFile t \<noteq> [] \<or> tlKeyFile t \<noteq> []"

definition validateTLS :: "Sys \<Rightarrow> string \<Rightarrow> TLSConfig \<Rightarrow> string list" where
  "validateTLS sys k t =
     (if \<not> tlsEnabled t then bad (tlClientCAFile t \<noteq> []) (k @ ''.client_ca_file'')
      else
        bad (tlCertFile t = []) (k @ ''.cert_file'')
        @ bad (tlKeyFile t = []) (k @ ''.key_file'')
        @ concat (map (\<lambda>(n, p). bad (p \<noteq> [] \<and> \<not> canStat sys p) n)
            [(k @ ''.cert_file'', tlCertFile t), (k @ ''.key_file'', tlKeyFile t), (k @ ''.client_ca_file'', tlClientCAFile t)])
        @ bad (tlMinVersion t \<notin> {[], ''1.2'', ''1.3''}) (k @ ''.min_version''))"

definition isLoopback :: "Sys \<Rightarrow> string \<Rightarrow> bool" where
  "isLoopback sys addr =
     (case splitHost sys addr of None \<Rightarrow> False | Some h \<Rightarrow> h = ''localhost'' \<or> loopbackIP sys h)"

definition validateType :: "Sys \<Rightarrow> string \<Rightarrow> Source \<Rightarrow> string list" where
  "validateType sys k s =
     (if soType s = ''otlp'' then bad (soHTTPListen s = [] \<and> soGRPCListen s = []) k
      else if soType s = ''native'' then
        bad (soHTTPListen s = []) (k @ ''.http.listen'') @ bad (soGRPCListen s \<noteq> []) (k @ ''.grpc.listen'')
      else if soType s = ''webhook'' then
        bad (soHTTPListen s = []) (k @ ''.http.listen'')
        @ (if soMapping s = [] then [k @ ''.mapping''] else bad (\<not> canStat sys (soMapping s)) (k @ ''.mapping''))
      else if soType s = ''file'' then
        bad (soInclude s = []) (k @ ''.include'')
        @ concat (map (\<lambda>(j, pat). bad (\<not> globOK sys pat) (indexed (k @ ''.include'') j)) (enumerate 0 (soInclude s)))
        @ bad (soStartAt s \<notin> {[], ''end'', ''beginning''}) (k @ ''.start_at'')
        @ bad (soHTTPListen s \<noteq> [] \<or> soGRPCListen s \<noteq> []) k
      else [k @ ''.type''])"

definition validateAuth :: "Sys \<Rightarrow> string \<Rightarrow> Source \<Rightarrow> string list" where
  "validateAuth sys k s =
     bad (soAuthType s = ''bearer'' \<and> soHTTPListen s \<noteq> [] \<and> \<not> tlsEnabled (soHTTPTLS s) \<and> \<not> isLoopback sys (soHTTPListen s))
       (k @ ''.auth'')
     @ (if soAuthType s \<in> {[], ''none''} then []
        else if soAuthType s = ''bearer'' then
          bad (soTokenEnv s = [] \<or> getenv sys (soTokenEnv s) = []) (k @ ''.auth.token_env'')
        else [k @ ''.auth.type''])"

text \<open>The listen addresses of one source, with the addresses of the sources before it.\<close>

fun validateListeners :: "string \<Rightarrow> string list \<Rightarrow> string list \<Rightarrow> string list \<times> string list" where
  "validateListeners k [] taken = ([], taken)"
| "validateListeners k (a # as) taken =
     (if a = [] then validateListeners k as taken
      else case validateListeners k as (a # taken) of (errs, t) \<Rightarrow> (bad (a \<in> set taken) k @ errs, t))"

definition rateRange :: "rat option \<Rightarrow> bool" where
  "rateRange r = (case r of None \<Rightarrow> True | Some x \<Rightarrow> 0 \<le> x \<and> x \<le> 1)"

definition validateSource ::
  "Sys \<Rightarrow> nat \<Rightarrow> Source \<Rightarrow> string list \<times> string list \<Rightarrow> string list \<times> string list \<times> string list"
where
  "validateSource sys i s = (\<lambda>(seen, taken).
     let k = indexed ''sources'' i;
         (lerrs, taken') = validateListeners k [soHTTPListen s, soGRPCListen s] taken
     in (bad (soName s = []) (k @ ''.name'')
         @ bad (soName s \<in> set seen) (k @ ''.name'')
         @ validateType sys k s
         @ bad (\<not> rateRange (soHeadSampleRate s)) (k @ ''.head_sample_rate'')
         @ bad (soRecordsPerSecond s < 0) (k @ ''.rate_limit.records_per_second'')
         @ bad (soRecordsPerSecond s > 0 \<and> soBurst s \<le> 0) (k @ ''.rate_limit.burst'')
         @ validateTLS sys (k @ ''.http.tls'') (soHTTPTLS s)
         @ validateTLS sys (k @ ''.grpc.tls'') (soGRPCTLS s)
         @ validateAuth sys k s
         @ bad (soMappingsDir s \<noteq> [] \<and> \<not> (canStat sys (soMappingsDir s) \<and> isDir sys (soMappingsDir s))) (k @ ''.mappings_dir'')
         @ lerrs, soName s # seen, taken'))"

fun validateSourceList :: "Sys \<Rightarrow> nat \<Rightarrow> Source list \<Rightarrow> string list \<times> string list \<Rightarrow> string list" where
  "validateSourceList sys i [] st = []"
| "validateSourceList sys i (s # ss) st =
     (case validateSource sys i s st of (errs, st') \<Rightarrow> errs @ validateSourceList sys (Suc i) ss st')"

definition validateSources :: "Sys \<Rightarrow> Config \<Rightarrow> string list" where
  "validateSources sys c = bad (cfSources c = []) ''sources'' @ validateSourceList sys 0 (cfSources c) ([], [])"

definition validateAssembly :: "AssemblyConfig \<Rightarrow> string list" where
  "validateAssembly a =
     bad (acWindow a \<le> 0) ''assembly.window''
     @ bad (acMaxInFlight a \<le> 0) ''assembly.max_in_flight''
     @ bad (acSettleAfterTerminal a < 0) ''assembly.settle_after_terminal''
     @ bad (acSettleAfterTerminal a \<ge> acWindow a) ''assembly.settle_after_terminal''"

definition validateRule :: "Sys \<Rightarrow> string \<Rightarrow> RuleConfig \<Rightarrow> string list" where
  "validateRule sys k r =
     bad (rcID r = []) (k @ ''.id'')
     @ bad (rcRegex r = [] \<and> rcPath r = []) (k @ ''.match'')
     @ bad (rcRegex r \<noteq> [] \<and> \<not> regexOK sys (rcRegex r)) (k @ ''.match.regex'')
     @ bad (rcPath r \<noteq> [] \<and> \<not> has_prefix (rcPath r) ''$'') (k @ ''.match.path'')
     @ bad (rcAction r \<notin> {''tokenize'', ''drop''}) (k @ ''.action'')"

definition validateRedactionPolicy :: "Sys \<Rightarrow> string \<Rightarrow> Redaction \<Rightarrow> string list" where
  "validateRedactionPolicy sys pre rn =
     (let r = rnPolicy rn; needsKey = list_ex (\<lambda>rc. rcAction rc = ''tokenize'') (rdRules r)
      in bad (rdDefault r \<notin> {''deny'', ''allow''}) (pre @ ''.default'')
         @ bad (rnOnError rn \<notin> {''quarantine'', ''pass''}) (pre @ ''.on_error'')
         @ bad (rnOnError rn = ''pass'' \<and> getenv sys ''CC_ALLOW_REDACTION_PASS'' \<noteq> ''1'') (pre @ ''.on_error'')
         @ concat (map (\<lambda>(i, rc). validateRule sys (indexed (pre @ ''.rules'') i) rc) (enumerate 0 (rdRules r)))
         @ bad (rdMetadataOnly r \<and> (rdAllow r \<noteq> [] \<or> rdRules r \<noteq> [])) (pre @ ''.metadata_only'')
         @ bad (needsKey \<and> \<not> rdMetadataOnly r \<and> (rnKeyEnv rn = [] \<or> getenv sys (rnKeyEnv rn) = [])) (pre @ ''.tokenization.key_env''))"

definition validateRedaction :: "Sys \<Rightarrow> Config \<Rightarrow> string list" where
  "validateRedaction sys c =
     validateRedactionPolicy sys ''redaction'' (cfRedaction c)
     @ concat (map (\<lambda>(i, s). case soRedaction s of
                       None \<Rightarrow> []
                     | Some r \<Rightarrow> validateRedactionPolicy sys (indexed ''sources'' i @ ''.redaction'') (applyRedactionDefaults r))
          (enumerate 0 (cfSources c)))"

definition validateEntity :: "string \<Rightarrow> Entity \<Rightarrow> string list" where
  "validateEntity k e =
     bad (enTool e = []) (k @ ''.tool'')
     @ bad (enKeys e = []) (k @ ''.keys'')
     @ concat (map (\<lambda>(name, expr). bad (\<not> has_prefix expr ''$'') (k @ ''.keys.'' @ name)) (enKeys e))"

definition validateEntities :: "Config \<Rightarrow> string list" where
  "validateEntities c = concat (map (\<lambda>(i, e). validateEntity (indexed ''entities'' i) e) (enumerate 0 (cfEntities c)))"

definition belowOne :: "rat option \<Rightarrow> bool" where
  "belowOne r = (case r of None \<Rightarrow> False | Some x \<Rightarrow> x < 1)"

definition validateSampling :: "SamplingConfig \<Rightarrow> string list" where
  "validateSampling s =
     bad (\<not> rateRange (cfgHeadRate s)) ''sampling.head.rate''
     @ bad (\<not> rateRange (cfgOtherwiseRate s)) ''sampling.tail.otherwise_rate''
     @ bad (belowOne (cfgHeadRate s) \<and> belowOne (cfgOtherwiseRate s)) ''sampling''"

definition validateBuffer :: "Sys \<Rightarrow> BufferConfig \<Rightarrow> string list" where
  "validateBuffer sys b =
     bad (bcDir b = []) ''buffer.dir''
     @ bad (bcBackpressureAt b \<le> 0 \<or> bcBackpressureAt b > 1) ''buffer.backpressure_at''
     @ bad (bcMaxAttempts b \<le> 0) ''buffer.max_attempts''
     @ bad (bcSegmentBytes b > 0 \<and> bcMaxBytes b > 0 \<and> bcSegmentBytes b > bcMaxBytes b) ''buffer.segment_bytes''
     @ (if bcKeyEnv b = [] then []
        else
          let v = getenv sys (bcKeyEnv b)
          in bad (v = [] \<or> length v \<noteq> 32 \<and> length (trim_space v) \<noteq> 64) ''buffer.encryption.key_env'')
     @ bad (bcRetryBaseDelay b > bcRetryMaxDelay b \<and> bcRetryMaxDelay b > 0) ''buffer.retry_base_delay''"

definition validateSinkType :: "string \<Rightarrow> SinkConfig \<Rightarrow> string list" where
  "validateSinkType k s =
     (if skType s = ''fs'' then bad (skDir s = []) (k @ ''.dir'')
      else if skType s = ''s3'' then
        bad (skBucket s = []) (k @ ''.bucket'')
        @ bad (skRegion s = [] \<and> skEndpoint s = []) (k @ ''.region'')
        @ (if skSSEType s \<in> {[], ''AES256''} then []
           else if skSSEType s = ''aws:kms'' then bad (skSSEKeyID s = []) (k @ ''.sse.key_id'')
           else [k @ ''.sse.type''])
        @ bad (skAccessKeyID s \<noteq> [] \<and> skSecretAccessKey s = []) (k @ ''.secret_access_key'')
      else [k @ ''.type''])"

definition validateSink :: "string \<Rightarrow> SinkConfig \<Rightarrow> string list" where
  "validateSink k s =
     bad (skName s = []) (k @ ''.name'')
     @ validateSinkType k s
     @ bad (skCompression s \<notin> {[], ''zstd'', ''snappy'', ''none'', ''uncompressed''}) (k @ ''.compression'')
     @ bad (skBlobThresholdBytes s < 0) (k @ ''.blob_threshold_bytes'')
     @ bad (skMaxPayloadBytes s > 0 \<and> skMaxPayloadBytes s < skBlobThresholdBytes s) (k @ ''.max_payload_bytes'')
     @ concat (map (\<lambda>p. bad (p \<notin> {''dt'', ''tenant'', ''task_type''}) (k @ ''.partition_by'')) (skPartitionBy s))"

definition validateSinks :: "Config \<Rightarrow> string list" where
  "validateSinks c =
     bad (cfSinks c = []) ''sinks''
     @ concat (map (\<lambda>(i, s). validateSink (indexed ''sinks'' i) s) (enumerate 0 (cfSinks c)))"

definition Validate :: "Sys \<Rightarrow> Config \<Rightarrow> string list" where
  "Validate sys c =
     (if cfSchemaVersion c = [] then [''schema_version'']
      else bad (\<not> compatibleSchema (cfSchemaVersion c) schemaVersion) ''schema_version'')
     @ bad (cfTenant c = []) ''tenant''
     @ bad (cfShutdownTimeout c < 0) ''shutdown_timeout''
     @ validateSources sys c
     @ validateAssembly (cfAssembly c)
     @ validateRedaction sys c
     @ validateEntities c
     @ validateSampling (cfSampling c)
     @ validateBuffer sys (cfBuffer c)
     @ validateSinks c"

definition ParseConfig :: "(string \<Rightarrow> Config option) \<Rightarrow> Sys \<Rightarrow> string \<Rightarrow> configError + Config" where
  "ParseConfig decode sys raw =
     (case interpolate sys raw of
        Inl e \<Rightarrow> Inl e
      | Inr text \<Rightarrow>
          (case decode text of
             None \<Rightarrow> Inl BadYAML
           | Some c0 \<Rightarrow>
               let c = configDefaults c0; errs = Validate sys c
               in if errs \<noteq> [] then Inl (Invalid errs) else Inr c))"

section \<open>Sizes\<close>

definition byteUnits :: "(string \<times> int) list" where
  "byteUnits = [(''KiB'', 2 ^ 10), (''MiB'', 2 ^ 20), (''GiB'', 2 ^ 30), (''TiB'', 2 ^ 40),
     (''Ki'', 2 ^ 10), (''Mi'', 2 ^ 20), (''Gi'', 2 ^ 30), (''Ti'', 2 ^ 40),
     (''KB'', 1000), (''MB'', 1000 * 1000), (''GB'', 1000 * 1000 * 1000), (''TB'', 1000 * 1000 * 1000 * 1000),
     (''K'', 2 ^ 10), (''M'', 2 ^ 20), (''G'', 2 ^ 30), (''T'', 2 ^ 40), (''B'', 1)]"

datatype sizeError = InvalidSize string | NegativeSize string

definition ParseByteSize :: "TimeLib \<Rightarrow> string \<Rightarrow> sizeError + int" where
  "ParseByteSize L s =
     (let t = trim_space s
      in if t = [] then Inr 0
         else
           (case find (\<lambda>(suf, _). has_suffix t suf) byteUnits of
              Some (suf, unit) \<Rightarrow>
                (case parseFloat L (trim_space (take (length t - length suf) t)) of
                   None \<Rightarrow> Inl (InvalidSize s)
                 | Some f \<Rightarrow> if f < 0 then Inl (NegativeSize s) else Inr (truncRat (roundFloat L (f * of_int unit))))
            | None \<Rightarrow> (case ParseInt t of None \<Rightarrow> Inl (InvalidSize s) | Some n \<Rightarrow> Inr n)))"

definition sizeUnits :: "(string \<times> int) list" where
  "sizeUnits = [(''Ti'', 2 ^ 40), (''Gi'', 2 ^ 30), (''Mi'', 2 ^ 20), (''Ki'', 2 ^ 10)]"

definition ByteSize_String :: "int \<Rightarrow> string" where
  "ByteSize_String n =
     (case find (\<lambda>(_, unit). n \<ge> unit \<and> n mod unit = 0) sizeUnits of
        Some (suf, unit) \<Rightarrow> format_int (n div unit) @ suf
      | None \<Rightarrow> format_int n)"

end
