(* ===== verification/Policy.thy ===== *)
theory Policy
  imports Config
begin

text \<open>
  The policy of the service and its replacement (\<^verbatim>\<open>policy.go\<close>, \<^verbatim>\<open>quota.go\<close> and the comparison of
  configurations in \<^verbatim>\<open>reload.go\<close>, all of \<^verbatim>\<open>src/collector/service\<close>). The regular expression, JSONPath
  and CEL libraries, the detection service and the rate limiter are the parameters \<open>PolicyLib\<close> and
  \<open>LimiterLib\<close>. A redactor stands beside the counters that the Go object keeps.
\<close>

section \<open>Quotas\<close>

record 'l LimiterLib =
  newLimiter :: "rat \<Rightarrow> int \<Rightarrow> 'l"
  limiterAllow :: "time \<Rightarrow> 'l \<Rightarrow> bool \<times> 'l"

type_synonym 'l quotas = "(string, 'l) gomap"

definition newQuotas :: "'l LimiterLib \<Rightarrow> Source list \<Rightarrow> 'l quotas" where
  "newQuotas L sources =
     fold (\<lambda>s q. if soRecordsPerSecond s > 0
                 then AList.update (soName s) (newLimiter L (soRecordsPerSecond s) (soBurst s)) q else q) sources []"

definition quotaAllow :: "'l LimiterLib \<Rightarrow> time \<Rightarrow> string \<Rightarrow> 'l quotas \<Rightarrow> bool \<times> 'l quotas" where
  "quotaAllow L now src q =
     (case map_of q src of
        None \<Rightarrow> (True, q)
      | Some l \<Rightarrow> (case limiterAllow L now l of (ok, l') \<Rightarrow> (ok, AList.update src l' q)))"

section \<open>The policy\<close>

record PolicyLib =
  pyCompile :: "string \<Rightarrow> Regexp option"
  pyParsePath :: "string \<Rightarrow> JsonPath option"
  pyDetect :: "string \<Rightarrow> string \<Rightarrow> Finding list option"
  pyCel :: "string \<Rightarrow> string + (bool \<times> (string + (EpisodeVars \<Rightarrow> celOut)))"

record 'l policy =
  plRedactor :: "Redactor \<times> RedactStats"
  plBySource :: "(string, Redactor \<times> RedactStats) gomap"
  plExtractor :: Extractor
  plSampler :: Sampler
  plQuotas :: "'l quotas"

datatype policyError =
    PolicyRedaction redactError | PolicySource string redactError | PolicyEntity extractError | PolicySampling sampleError

text \<open>\<^verbatim>\<open>tokenKey\<close>: an unset or empty variable gives no key.\<close>

definition tokenKeyOf :: "Sys \<Rightarrow> Redaction \<Rightarrow> byte list" where
  "tokenKeyOf sys rn = (if rnKeyEnv rn \<noteq> [] \<and> getenv sys (rnKeyEnv rn) \<noteq> [] then bytes_of (getenv sys (rnKeyEnv rn)) else [])"

definition redactorOf :: "PolicyLib \<Rightarrow> Sys \<Rightarrow> Redaction \<Rightarrow> redactError + (Redactor \<times> RedactStats)" where
  "redactorOf P sys r =
     (case NewRedactor (pyCompile P) (pyParsePath P) (pyDetect P (dcEndpoint (rdDetector (rnPolicy r)))) (rnPolicy r)
             (tokenKeyOf sys r) True of
        Inl e \<Rightarrow> Inl e
      | Inr red \<Rightarrow> Inr (red, zeroRedactStats))"

fun sourceRedactors ::
  "PolicyLib \<Rightarrow> Sys \<Rightarrow> Source list \<Rightarrow> (string, Redactor \<times> RedactStats) gomap
     \<Rightarrow> policyError + (string, Redactor \<times> RedactStats) gomap"
where
  "sourceRedactors P sys [] m = Inr m"
| "sourceRedactors P sys (s # ss) m =
     (case soRedaction s of
        None \<Rightarrow> sourceRedactors P sys ss m
      | Some rn \<Rightarrow>
          (case redactorOf P sys rn of
             Inl e \<Rightarrow> Inl (PolicySource (soName s) e)
           | Inr r \<Rightarrow> sourceRedactors P sys ss (AList.update (soName s) r m)))"

definition sourceRates :: "Source list \<Rightarrow> Sampler \<Rightarrow> Sampler" where
  "sourceRates sources sm =
     fold (\<lambda>s t. case soHeadSampleRate s of None \<Rightarrow> t | Some r \<Rightarrow> SetSourceRate (soName s) r t) sources sm"

definition samplerOf :: "PolicyLib \<Rightarrow> SamplingConfig \<Rightarrow> sampleError + Sampler" where
  "samplerOf P c = NewSampler (pyCel P) fst snd c"

definition buildPolicy :: "PolicyLib \<Rightarrow> 'l LimiterLib \<Rightarrow> Sys \<Rightarrow> Config \<Rightarrow> policyError + 'l policy" where
  "buildPolicy P L sys cfg =
     (case redactorOf P sys (cfRedaction cfg) of
        Inl e \<Rightarrow> Inl (PolicyRedaction e)
      | Inr red \<Rightarrow>
          (case sourceRedactors P sys (cfSources cfg) [] of
             Inl e \<Rightarrow> Inl e
           | Inr bys \<Rightarrow>
               (case NewExtractor (pyParsePath P) (cfEntities cfg) of
                  Inl e \<Rightarrow> Inl (PolicyEntity e)
                | Inr ex \<Rightarrow>
                    (case samplerOf P (cfSampling cfg) of
                       Inl e \<Rightarrow> Inl (PolicySampling e)
                     | Inr sm \<Rightarrow>
                         Inr \<lparr>plRedactor = red, plBySource = bys, plExtractor = ex,
                              plSampler = sourceRates (cfSources cfg) sm, plQuotas = newQuotas L (cfSources cfg)\<rparr>))))"

definition redactorFor :: "'l policy \<Rightarrow> string \<Rightarrow> Redactor \<times> RedactStats" where
  "redactorFor p src = (case map_of (plBySource p) src of Some r \<Rightarrow> r | None \<Rightarrow> plRedactor p)"

text \<open>The counters of the redactor that \<^verbatim>\<open>redactorFor\<close> returned, after it worked.\<close>

definition setRedactStats :: "string \<Rightarrow> RedactStats \<Rightarrow> 'l policy \<Rightarrow> 'l policy" where
  "setRedactStats src st p =
     (case map_of (plBySource p) src of
        Some (r, _) \<Rightarrow> p\<lparr>plBySource := AList.update src (r, st) (plBySource p)\<rparr>
      | None \<Rightarrow> p\<lparr>plRedactor := (fst (plRedactor p), st)\<rparr>)"

section \<open>What a reload cannot change\<close>

text \<open>The text that the verb \<^verbatim>\<open>%v\<close> prints for the settings of a listener, and one entry of \<^verbatim>\<open>listeners\<close>.\<close>

definition tlsText :: "TLSConfig \<Rightarrow> string" where
  "tlsText t = [CHR 0x7B] @ join_with '' '' [tlCertFile t, tlKeyFile t, tlClientCAFile t, tlMinVersion t] @ [CHR 0x7D]"

definition listeners :: "Source list \<Rightarrow> string list" where
  "listeners ss =
     map (\<lambda>s. join_with ''|'' [soName s, soType s, soHTTPListen s, soGRPCListen s, soTokenEnv s,
                 tlsText (soHTTPTLS s), tlsText (soGRPCTLS s)]) ss"

definition structuralChanges :: "Config \<Rightarrow> Config \<Rightarrow> string list" where
  "structuralChanges prev next =
     bad (cfTenant prev \<noteq> cfTenant next) ''tenant''
     @ bad (cfAssembly prev \<noteq> cfAssembly next) ''assembly''
     @ bad (cfBuffer prev \<noteq> cfBuffer next) ''buffer''
     @ bad (cfSinks prev \<noteq> cfSinks next) ''sinks''
     @ bad (listeners (cfSources prev) \<noteq> listeners (cfSources next)) ''sources (listeners, auth or TLS)''"

definition mergeSourcePolicy :: "Source list \<Rightarrow> Source list \<Rightarrow> Source list" where
  "mergeSourcePolicy prev next =
     (let byName = fold (\<lambda>s m. AList.update (soName s) s m) next []
      in map (\<lambda>s. case map_of byName (soName s) of
                    Some n \<Rightarrow> s\<lparr>soRecordsPerSecond := soRecordsPerSecond n, soBurst := soBurst n, soRedaction := soRedaction n\<rparr>
                  | None \<Rightarrow> s) prev)"

definition mergedConfig :: "Config \<Rightarrow> Config \<Rightarrow> Config" where
  "mergedConfig prev next = next
     \<lparr>cfSources := mergeSourcePolicy (cfSources prev) (cfSources next), cfBuffer := cfBuffer prev,
      cfSinks := cfSinks prev, cfAssembly := cfAssembly prev, cfTenant := cfTenant prev\<rparr>"

end
