(* ===== verification/Object_Store.thy ===== *)
theory Object_Store
  imports Join Json
begin

text \<open>
  The object store behind the sinks (\<^verbatim>\<open>src/collector/sink/objstore\<close>): the contract of \<^verbatim>\<open>Store\<close> as a
  locale, and the filesystem store \<^verbatim>\<open>fs.go\<close>, which discharges it. Paths are those of Go's
  \<^verbatim>\<open>path\<close> and \<^verbatim>\<open>path/filepath\<close> on Unix.
\<close>

section \<open>Paths\<close>

fun splitSlash :: "string \<Rightarrow> string \<Rightarrow> string list" where
  "splitSlash cur [] = [cur]"
| "splitSlash cur (c # s) = (if c = CHR ''/'' then cur # splitSlash [] s else splitSlash (cur @ [c]) s)"

text \<open>\<^verbatim>\<open>Clean\<close>: the elements kept so far, last one first.\<close>

fun cleanElems :: "bool \<Rightarrow> string list \<Rightarrow> string list \<Rightarrow> string list" where
  "cleanElems rooted st [] = rev st"
| "cleanElems rooted st (e # es) =
     (if e = [] \<or> e = ''.'' then cleanElems rooted st es
      else if e = ''..'' then
        (case st of
           [] \<Rightarrow> cleanElems rooted (if rooted then [] else [''..'']) es
         | t # ts \<Rightarrow> if t = ''..'' then cleanElems rooted (''..'' # st) es else cleanElems rooted ts es)
      else cleanElems rooted (e # st) es)"

definition pathClean :: "string \<Rightarrow> string" where
  "pathClean p =
     (let rooted = has_prefix p ''/'';
          out = (if rooted then ''/'' else []) @ join_with ''/'' (cleanElems rooted [] (splitSlash [] p))
      in if out = [] then ''.'' else out)"

definition pathJoin :: "string list \<Rightarrow> string" where
  "pathJoin elems =
     (let es = filter (\<lambda>e. e \<noteq> []) elems
      in if es = [] then [] else pathClean (join_with ''/'' es))"

section \<open>The filesystem store\<close>

text \<open>
  The files below the root, and what the system calls of one operation answer. A call that fails
  ends the \<^verbatim>\<open>Put\<close>; the temporary file is removed by the deferred call. \<^verbatim>\<open>CreateTemp\<close> chooses a name
  from the existing files and the target.
\<close>

record FS =
  fsRoot :: string
  fsFiles :: "string \<rightharpoonup> string"

record FSCalls =
  mkdirOK :: bool
  createTemp :: "(string \<rightharpoonup> string) \<Rightarrow> string \<Rightarrow> string option"
  writeOK :: bool
  syncOK :: bool
  closeOK :: bool
  renameOK :: bool
  statOK :: bool

definition trimSlash :: "string \<Rightarrow> string" where
  "trimSlash s = (if has_prefix s ''/'' then tl s else s)"

text \<open>\<^verbatim>\<open>Rel(root, full)\<close> for a path \<open>full\<close> that was joined from the root: the rest, or the elements that
  lead out of the root.\<close>

definition relTo :: "string \<Rightarrow> string \<Rightarrow> string" where
  "relTo dir full =
     (if full = dir then ''.''
      else if dir = ''/'' then drop 1 full
      else if has_prefix full (dir @ ''/'') then drop (length dir + 1) full
      else ''../'' @ full)"

definition fsPath :: "FS \<Rightarrow> string \<Rightarrow> string option" where
  "fsPath f k =
     (let clean = pathClean (''/'' @ trimSlash k);
          full = pathJoin [fsRoot f, clean];
          rel = relTo (fsRoot f) full
      in if rel = ''..'' \<or> has_prefix rel ''../'' then None else Some full)"

definition fsPut :: "FSCalls \<Rightarrow> string \<Rightarrow> string \<Rightarrow> FS \<Rightarrow> bool \<times> FS" where
  "fsPut c k body f =
     (case fsPath f k of
        None \<Rightarrow> (False, f)
      | Some p \<Rightarrow>
          if \<not> mkdirOK c then (False, f)
          else
            (case createTemp c (fsFiles f) p of
               None \<Rightarrow> (False, f)
             | Some tmp \<Rightarrow>
                 let f1 = f\<lparr>fsFiles := (fsFiles f)(tmp \<mapsto> [])\<rparr>;
                     f2 = f1\<lparr>fsFiles := (fsFiles f1)(tmp \<mapsto> body)\<rparr>;
                     removed = (\<lambda>g. g\<lparr>fsFiles := (fsFiles g)(tmp := None)\<rparr>)
                 in if \<not> writeOK c then (False, removed f1)
                    else if \<not> syncOK c \<or> \<not> closeOK c \<or> \<not> renameOK c then (False, removed f2)
                    else (True, removed (f2\<lparr>fsFiles := (fsFiles f2)(p \<mapsto> body)\<rparr>))))"

definition fsGet :: "string \<Rightarrow> FS \<Rightarrow> string option" where
  "fsGet k f = (case fsPath f k of None \<Rightarrow> None | Some p \<Rightarrow> fsFiles f p)"

definition fsExists :: "FSCalls \<Rightarrow> string \<Rightarrow> FS \<Rightarrow> bool option" where
  "fsExists c k f =
     (case fsPath f k of
        None \<Rightarrow> None
      | Some p \<Rightarrow> if fsFiles f p \<noteq> None then (if statOK c then Some True else None)
                   else if statOK c then Some False else None)"

section \<open>Clean paths stay below the root\<close>

text \<open>An element of a cleaned rooted path: not empty, no slash, and neither of the dot names.\<close>

definition plainElem :: "string \<Rightarrow> bool" where
  "plainElem e \<longleftrightarrow> e \<noteq> [] \<and> CHR ''/'' \<notin> set e \<and> e \<noteq> ''.'' \<and> e \<noteq> ''..''"

lemma splitSlash_elems: "CHR ''/'' \<notin> set cur \<Longrightarrow> \<forall>e \<in> set (splitSlash cur s). CHR ''/'' \<notin> set e"
  by (induction cur s rule: splitSlash.induct) auto

lemma cleanElems_plain:
  "list_all plainElem st \<Longrightarrow> \<forall>e \<in> set es. CHR ''/'' \<notin> set e \<Longrightarrow> list_all plainElem (cleanElems True st es)"
proof (induction "True" st es rule: cleanElems.induct)
  case (2 st e es)
  then show ?case by (cases st) (auto simp: plainElem_def)
qed (simp add: list_all_iff)

lemma splitSlash_join:
  "list_all (\<lambda>e. CHR ''/'' \<notin> set e) (cur # es) \<Longrightarrow>
     splitSlash [] (join_with ''/'' (cur # es)) = cur # es"
proof -
  have pre: "splitSlash acc (xs @ r) = splitSlash (acc @ xs) r" if "CHR ''/'' \<notin> set xs" for acc xs r
    using that by (induction xs arbitrary: acc) auto
  show "list_all (\<lambda>e. CHR ''/'' \<notin> set e) (cur # es) \<Longrightarrow> ?thesis"
  proof (induction es arbitrary: cur)
    case Nil
    then show ?case using pre [of cur "[]" "[]"] by simp
  next
    case (Cons e es)
    then show ?case using pre [of cur "[]" "CHR ''/'' # join_with ''/'' (e # es)"] by simp
  qed
qed

lemma cleanElems_id: "list_all plainElem es \<Longrightarrow> cleanElems rooted st es = rev st @ es"
  by (induction rooted st es rule: cleanElems.induct) (auto simp: plainElem_def)

lemma cleanElems_nonempty: "cleanElems rooted st es = cleanElems rooted st (filter (\<lambda>e. e \<noteq> []) es)"
  by (induction rooted st es rule: cleanElems.induct) (auto split: list.splits)

lemma splitSlash_slash: "splitSlash cur (a @ CHR ''/'' # b) = splitSlash cur a @ splitSlash [] b"
  by (induction cur a rule: splitSlash.induct) auto

text \<open>The absolute path with the given elements.\<close>

definition absPath :: "string list \<Rightarrow> string" where
  "absPath es = ''/'' @ join_with ''/'' es"

lemma splitSlash_absPath:
  "list_all plainElem es \<Longrightarrow> filter (\<lambda>e. e \<noteq> []) (splitSlash [] (absPath es)) = es"
proof (cases es)
  case (Cons e r)
  assume "list_all plainElem es"
  then have "list_all (\<lambda>e. CHR ''/'' \<notin> set e) es" and ne: "\<forall>e \<in> set es. e \<noteq> []"
    by (auto simp: list_all_iff plainElem_def)
  then have "splitSlash [] (join_with ''/'' es) = es" using splitSlash_join [of e r] Cons by simp
  then show ?thesis using ne by (simp add: absPath_def filter_id_conv)
qed (simp add: absPath_def)

lemma pathClean_rooted:
  assumes "has_prefix p ''/''"
  shows "\<exists>es. list_all plainElem es \<and> pathClean p = absPath es"
proof -
  have "list_all plainElem (cleanElems True [] (splitSlash [] p))"
    using splitSlash_elems [of "[]" p] by (intro cleanElems_plain) simp_all
  then show ?thesis using assms by (auto simp: pathClean_def Let_def absPath_def)
qed

lemma pathClean_absPath:
  assumes "list_all plainElem rs" and "list_all plainElem es"
  shows "pathClean (absPath rs @ ''/'' @ absPath es) = absPath (rs @ es)"
proof -
  have "filter (\<lambda>e. e \<noteq> []) (splitSlash [] (absPath rs @ CHR ''/'' # absPath es)) = rs @ es"
    using assms by (simp add: splitSlash_slash splitSlash_absPath)
  then have "cleanElems True [] (splitSlash [] (absPath rs @ CHR ''/'' # absPath es)) = rs @ es"
    using assms by (subst cleanElems_nonempty) (simp add: cleanElems_id)
  moreover have "has_prefix (absPath rs @ CHR ''/'' # absPath es) ''/''" by (simp add: absPath_def has_prefix_def)
  ultimately show ?thesis by (simp add: pathClean_def Let_def absPath_def)
qed

section \<open>The contract\<close>

text \<open>A store as its clients call it: \<^verbatim>\<open>Put\<close> and \<^verbatim>\<open>Exists\<close>, on a state.\<close>

record 's Store =
  stPut :: "string \<Rightarrow> string \<Rightarrow> 's \<Rightarrow> bool \<times> 's"
  stExists :: "string \<Rightarrow> 's \<Rightarrow> bool option \<times> 's"

text \<open>What a client did to a store: the bodies it put successfully, in order.\<close>

inductive puts :: "'s Store \<Rightarrow> 's \<Rightarrow> (string \<times> string) list \<Rightarrow> 's \<Rightarrow> bool" for S where
  nothing: "puts S st [] st"
| stored: "stPut S k v st = (True, st1) \<Longrightarrow> puts S st1 lg st' \<Longrightarrow> puts S st ((k, v) # lg) st'"
| refused: "stPut S k v st = (False, st1) \<Longrightarrow> puts S st1 lg st' \<Longrightarrow> puts S st lg st'"
| probed: "stExists S k st = (r, st1) \<Longrightarrow> puts S st1 lg st' \<Longrightarrow> puts S st lg st'"

lemma puts_append: "puts S st lg st1 \<Longrightarrow> puts S st1 lg' st' \<Longrightarrow> puts S st (lg @ lg') st'"
  by (induction rule: puts.induct) (auto intro: puts.intros)

text \<open>
  What \<^verbatim>\<open>Store\<close> promises: an object is visible whole or not at all. A \<^verbatim>\<open>Put\<close> that succeeds makes the
  body readable under the key, one that fails changes nothing a reader can see, and neither touches
  an object with another address.
\<close>

locale object_store =
  fixes S :: "'s Store" and get :: "string \<Rightarrow> 's \<Rightarrow> string option" and good :: "'s \<Rightarrow> bool"
    and addr :: "'s \<Rightarrow> string \<Rightarrow> string"
  assumes put_good: "good s \<Longrightarrow> stPut S k v s = (ok, s') \<Longrightarrow> good s' \<and> addr s' = addr s"
    and put_ok: "good s \<Longrightarrow> stPut S k v s = (True, s') \<Longrightarrow> get k s' = Some v"
    and put_other: "good s \<Longrightarrow> stPut S k v s = (ok, s') \<Longrightarrow> \<not> ok \<or> addr s k' \<noteq> addr s k \<Longrightarrow> get k' s' = get k' s"
    and exists_same: "good s \<Longrightarrow> stExists S k s = (r, s') \<Longrightarrow>
      good s' \<and> addr s' = addr s \<and> get k' s' = get k' s \<and> (\<forall>b. r = Some b \<longrightarrow> b = (get k s \<noteq> None))"
    and addr_plain: "good s \<Longrightarrow> list_all plainElem es \<Longrightarrow> list_all plainElem es' \<Longrightarrow> es \<noteq> [] \<Longrightarrow> es' \<noteq> [] \<Longrightarrow>
      addr s (join_with ''/'' es) = addr s (join_with ''/'' es') \<Longrightarrow> es = es'"
begin

lemma puts_frame:
  "puts S st lg st' \<Longrightarrow> good st \<Longrightarrow>
     good st' \<and> addr st' = addr st \<and> ((\<forall>p \<in> set lg. addr st (fst p) \<noteq> addr st k) \<longrightarrow> get k st' = get k st)"
proof (induction rule: puts.induct)
  case (stored k' v st st1 lg st')
  then have "good st1 \<and> addr st1 = addr st" using put_good by blast
  then show ?case using stored put_other [OF stored.prems stored.hyps(1), of k] by auto
next
  case (refused k' v st st1 lg st')
  then have "good st1 \<and> addr st1 = addr st" using put_good by blast
  then show ?case using refused put_other [OF refused.prems refused.hyps(1), of k] by auto
next
  case (probed k' st r st1 lg st')
  then show ?case using exists_same [OF probed.prems probed.hyps(1), of k] by auto
qed simp

text \<open>A body that was put successfully is readable at the end, if no later put had its address.\<close>

lemma puts_present:
  "puts S st lg st' \<Longrightarrow> good st \<Longrightarrow> distinct (map (\<lambda>p. addr st (fst p)) lg) \<Longrightarrow> (k, v) \<in> set lg \<Longrightarrow> get k st' = Some v"
proof (induction rule: puts.induct)
  case (stored k' v' st st1 lg st')
  have g: "good st1" "addr st1 = addr st" using put_good stored by blast+
  show ?case
  proof (cases "(k, v) \<in> set lg")
    case True
    then show ?thesis using stored g by simp
  next
    case False
    then have kv: "k = k'" "v = v'" using stored.prems(3) by auto
    have "\<forall>p \<in> set lg. addr st1 (fst p) \<noteq> addr st1 k" using stored.prems(2) g(2) kv by force
    then have "get k st' = get k st1" using puts_frame [OF stored.hyps(2) g(1), of k] by blast
    then show ?thesis using put_ok [OF stored.prems(1) stored.hyps(1)] kv by simp
  qed
next
  case (refused k' v' st st1 lg st')
  have g: "good st1" "addr st1 = addr st" using put_good refused by blast+
  then show ?case using refused by simp
next
  case (probed k' st r st1 lg st')
  have g: "good st1" "addr st1 = addr st" using exists_same [OF probed.prems(1) probed.hyps(1)] by blast+
  then show ?case using probed by simp
qed simp

end

section \<open>The filesystem keeps the contract\<close>

record FSStore =
  fsOf :: FS
  fsAnswers :: "nat \<Rightarrow> FSCalls"
  fsCount :: nat

definition fsStore :: "FSStore Store" where
  "fsStore =
     \<lparr>stPut = (\<lambda>k body st.
        case fsPut (fsAnswers st (fsCount st)) k body (fsOf st) of
          (ok, f) \<Rightarrow> (ok, st\<lparr>fsOf := f, fsCount := fsCount st + 1\<rparr>)),
      stExists = (\<lambda>k st. (fsExists (fsAnswers st (fsCount st)) k (fsOf st), st\<lparr>fsCount := fsCount st + 1\<rparr>))\<rparr>"

text \<open>A store whose root is a clean absolute path, on a system whose \<^verbatim>\<open>CreateTemp\<close> creates new files.\<close>

definition goodFS :: "FSStore \<Rightarrow> bool" where
  "goodFS st \<longleftrightarrow>
     (\<exists>rs. list_all plainElem rs \<and> fsRoot (fsOf st) = absPath rs) \<and>
     (\<forall>i files p t. createTemp (fsAnswers st i) files p = Some t \<longrightarrow> files t = None \<and> t \<noteq> p)"

definition fsAddr :: "FSStore \<Rightarrow> string \<Rightarrow> string" where
  "fsAddr st k = (case fsPath (fsOf st) k of None \<Rightarrow> [] | Some p \<Rightarrow> p)"

lemma split_join_plain:
  "list_all plainElem es \<Longrightarrow> es \<noteq> [] \<Longrightarrow> splitSlash [] (join_with ''/'' es) = es"
proof (cases es)
  case (Cons e r)
  assume "list_all plainElem es"
  then have "list_all (\<lambda>e. CHR ''/'' \<notin> set e) (e # r)" by (auto simp: Cons list_all_iff plainElem_def)
  then show ?thesis unfolding Cons by (rule splitSlash_join)
qed simp

lemma join_plain_nonempty: "list_all plainElem es \<Longrightarrow> es \<noteq> [] \<Longrightarrow> join_with ''/'' es \<noteq> []"
  using split_join_plain [of es] by (cases es) (auto simp: plainElem_def)

lemma plain_not_dotdot:
  assumes "list_all plainElem es" and "es \<noteq> []"
  shows "join_with ''/'' es \<noteq> ''..'' \<and> \<not> has_prefix (join_with ''/'' es) ''../''"
proof (intro conjI notI)
  note S = split_join_plain [OF assms]
  assume "join_with ''/'' es = ''..''"
  then have "es = [''..'']" using S by simp
  then show False using assms(1) by (simp add: plainElem_def)
next
  note S = split_join_plain [OF assms]
  assume "has_prefix (join_with ''/'' es) ''../''"
  then obtain r where "join_with ''/'' es = ''..'' @ CHR ''/'' # r"
    unfolding has_prefix_def by (metis append_Cons append_Nil append_take_drop_id)
  then have "es = ''..'' # splitSlash [] r" using S splitSlash_slash [of "[]" "''..''" r] by simp
  then have "''..'' \<in> set es" by (metis list.set_intros(1))
  then show False using assms(1) by (auto simp: list_all_iff plainElem_def)
qed

lemma absPath_below:
  assumes "list_all plainElem rs" and "list_all plainElem es"
  shows "relTo (absPath rs) (absPath (rs @ es)) = (if es = [] then ''.'' else join_with ''/'' es)"
proof (cases "rs = [] \<or> es = []")
  case True
  then show ?thesis using join_plain_nonempty [OF assms(2)] by (auto simp: relTo_def absPath_def)
next
  case False
  have "join_with ''/'' (rs @ es) = join_with ''/'' rs @ ''/'' @ join_with ''/'' es"
    using False
  proof (induction rs rule: induct_list012)
    case (2 x)
    then show ?case by (cases es) auto
  next
    case (3 x y zs)
    then show ?case by simp
  qed simp
  moreover have "join_with ''/'' rs \<noteq> []" using assms(1) False by (simp add: join_plain_nonempty)
  ultimately show ?thesis using False by (simp add: relTo_def absPath_def has_prefix_def)
qed

lemma plain_no_slash:
  assumes "list_all plainElem es" and "es \<noteq> []"
  shows "\<not> has_prefix (join_with ''/'' es) ''/''"
proof
  assume "has_prefix (join_with ''/'' es) ''/''"
  then obtain r where "join_with ''/'' es = [] @ CHR ''/'' # r"
    unfolding has_prefix_def by (metis append_Cons append_Nil append_take_drop_id)
  then have "es = [] # splitSlash [] r"
    using split_join_plain [OF assms] splitSlash_slash [of "[]" "[]" r] by simp
  then show False using assms(1) by (simp add: plainElem_def)
qed

lemma pathClean_plain:
  assumes "list_all plainElem es" and "es \<noteq> []"
  shows "pathClean (CHR ''/'' # join_with ''/'' es) = absPath es"
proof -
  have "filter (\<lambda>e. e \<noteq> []) (splitSlash [] (absPath es)) = es" using assms(1) by (rule splitSlash_absPath)
  then have "cleanElems True [] (splitSlash [] (absPath es)) = es"
    using assms(1) by (subst cleanElems_nonempty) (simp add: cleanElems_id)
  then show ?thesis by (simp add: pathClean_def Let_def absPath_def has_prefix_def)
qed

lemma fsPath_below:
  assumes "fsRoot f = absPath rs" and "list_all plainElem rs"
  shows "\<exists>es. list_all plainElem es \<and> fsPath f k = Some (absPath (rs @ es))"
proof -
  obtain es where es: "list_all plainElem es" "pathClean (''/'' @ trimSlash k) = absPath es"
    using pathClean_rooted [of "''/'' @ trimSlash k"] by (auto simp: has_prefix_def)
  have "pathJoin [fsRoot f, absPath es] = absPath (rs @ es)"
    using pathClean_absPath [OF assms(2) es(1)] assms(1) by (simp add: pathJoin_def absPath_def)
  then have "fsPath f k = Some (absPath (rs @ es))"
    using absPath_below [OF assms(2) es(1)] plain_not_dotdot [OF es(1)] es(2) assms(1)
    by (simp add: fsPath_def Let_def has_prefix_def)
  then show ?thesis using es(1) by blast
qed

lemma fsPut_frame:
  "fsPut c k body f = (ok, f') \<Longrightarrow> fsRoot f' = fsRoot f"
  by (auto simp: fsPut_def Let_def split: option.splits if_splits)

lemma fsPut_files:
  assumes "fsPut c k body f = (ok, f')" and "fsPath f k = Some p"
    and "\<forall>files p t. createTemp c files p = Some t \<longrightarrow> files t = None \<and> t \<noteq> p"
  shows "fsFiles f' = (if ok then (fsFiles f)(p \<mapsto> body) else fsFiles f)"
proof (cases "mkdirOK c \<and> createTemp c (fsFiles f) p \<noteq> None")
  case False
  then show ?thesis using assms(1,2) by (auto simp: fsPut_def split: if_splits)
next
  case True
  then obtain t where t: "createTemp c (fsFiles f) p = Some t" by auto
  then have "fsFiles f t = None" "t \<noteq> p" using assms(3) by blast+
  then show ?thesis using assms(1,2) True t by (auto simp: fsPut_def Let_def fun_eq_iff split: if_splits)
qed

lemma fsPath_plain:
  assumes "fsRoot f = absPath rs" and "list_all plainElem rs" and "list_all plainElem es" and "es \<noteq> []"
  shows "fsPath f (join_with ''/'' es) = Some (absPath (rs @ es))"
proof -
  have "\<not> has_prefix (join_with ''/'' es) ''/''" by (rule plain_no_slash [OF assms(3,4)])
  then have "pathClean (''/'' @ trimSlash (join_with ''/'' es)) = absPath es"
    using pathClean_absPath [of "[]" es] assms(3,4) pathClean_plain [OF assms(3,4)] by (simp add: trimSlash_def)
  moreover have "pathJoin [fsRoot f, absPath es] = absPath (rs @ es)"
    using pathClean_absPath [OF assms(2,3)] assms(1) by (simp add: pathJoin_def absPath_def)
  ultimately show ?thesis
    using absPath_below [OF assms(2,3)] plain_not_dotdot [OF assms(3)] assms(1)
    by (simp add: fsPath_def Let_def has_prefix_def)
qed

lemma absPath_inj: "list_all plainElem es \<Longrightarrow> list_all plainElem es' \<Longrightarrow> absPath es = absPath es' \<Longrightarrow> es = es'"
  by (metis splitSlash_absPath)

interpretation fsys: object_store fsStore "\<lambda>k st. fsGet k (fsOf st)" goodFS fsAddr
proof
  fix s k v ok s'
  assume good: "goodFS s" and put: "stPut fsStore k v s = (ok, s')"
  obtain f where f: "fsPut (fsAnswers s (fsCount s)) k v (fsOf s) = (ok, f)" and s': "s' = s\<lparr>fsOf := f, fsCount := fsCount s + 1\<rparr>"
    using put by (auto simp: fsStore_def split: prod.splits)
  then show "goodFS s' \<and> fsAddr s' = fsAddr s"
    using good fsPut_frame [OF f] by (simp add: goodFS_def fsAddr_def fsPath_def fun_eq_iff)
next
  fix s k v s'
  assume good: "goodFS s" and put: "stPut fsStore k v s = (True, s')"
  then obtain rs where "list_all plainElem rs" "fsRoot (fsOf s) = absPath rs" by (auto simp: goodFS_def)
  then obtain p where p: "fsPath (fsOf s) k = Some p" using fsPath_below by blast
  obtain f where f: "fsPut (fsAnswers s (fsCount s)) k v (fsOf s) = (True, f)" and s': "s' = s\<lparr>fsOf := f, fsCount := fsCount s + 1\<rparr>"
    using put by (auto simp: fsStore_def split: prod.splits)
  have "fsFiles f p = Some v" using fsPut_files [OF f p] good by (simp add: goodFS_def)
  moreover have "fsPath f k = Some p" using p fsPut_frame [OF f] by (simp add: fsPath_def)
  ultimately show "fsGet k (fsOf s') = Some v" by (simp add: s' fsGet_def)
next
  fix s k v ok s' k'
  assume good: "goodFS s" and put: "stPut fsStore k v s = (ok, s')" and other: "\<not> ok \<or> fsAddr s k' \<noteq> fsAddr s k"
  then obtain rs where "list_all plainElem rs" "fsRoot (fsOf s) = absPath rs" by (auto simp: goodFS_def)
  then obtain p p' where p: "fsPath (fsOf s) k = Some p" and p': "fsPath (fsOf s) k' = Some p'" using fsPath_below by meson
  obtain f where f: "fsPut (fsAnswers s (fsCount s)) k v (fsOf s) = (ok, f)" and s': "s' = s\<lparr>fsOf := f, fsCount := fsCount s + 1\<rparr>"
    using put by (auto simp: fsStore_def split: prod.splits)
  have "fsFiles f p' = fsFiles (fsOf s) p'"
    using fsPut_files [OF f p] good other p p' by (auto simp: goodFS_def fsAddr_def)
  moreover have "fsPath f k' = Some p'" using p' fsPut_frame [OF f] by (simp add: fsPath_def)
  ultimately show "fsGet k' (fsOf s') = fsGet k' (fsOf s)" by (simp add: s' fsGet_def p')
next
  fix s k r s' k'
  assume good: "goodFS s" and ex: "stExists fsStore k s = (r, s')"
  then have s': "s' = s\<lparr>fsCount := fsCount s + 1\<rparr>" and r: "r = fsExists (fsAnswers s (fsCount s)) k (fsOf s)"
    by (auto simp: fsStore_def)
  show "goodFS s' \<and> fsAddr s' = fsAddr s \<and> fsGet k' (fsOf s') = fsGet k' (fsOf s) \<and>
      (\<forall>b. r = Some b \<longrightarrow> b = (fsGet k (fsOf s) \<noteq> None))"
    using good by (auto simp: s' r goodFS_def fsAddr_def fun_eq_iff fsExists_def fsGet_def split: option.splits if_splits)
next
  fix s es es'
  assume "goodFS s" and plain: "list_all plainElem es" "list_all plainElem es'" "es \<noteq> []" "es' \<noteq> []"
    and eq: "fsAddr s (join_with ''/'' es) = fsAddr s (join_with ''/'' es')"
  then obtain rs where rs: "list_all plainElem rs" "fsRoot (fsOf s) = absPath rs" by (auto simp: goodFS_def)
  have "absPath (rs @ es) = absPath (rs @ es')"
    using eq fsPath_plain [OF rs(2,1) plain(1,3)] fsPath_plain [OF rs(2,1) plain(2,4)] by (simp add: fsAddr_def)
  then have "rs @ es = rs @ es'" by (intro absPath_inj) (simp_all add: rs plain)
  then show "es = es'" by simp
qed

end
