(* ===== verification/Lake_Sink.thy ===== *)
theory Lake_Sink
  imports Object_Store Hashing
begin

text \<open>
  The lake sink (\<^verbatim>\<open>src/collector/sink/lake/lake.go\<close>, \<^verbatim>\<open>write.go\<close>): episodes, outcomes and rewards
  are buffered in memory and written as Parquet files with a manifest last.

  The store is a parameter (its contract is \<open>object_store\<close>), and so are the Parquet encoder, which
  may fail, and the JSON encoder of a manifest. The clock reading and the fresh id an operation asks
  for are its arguments. An operation returns whether it succeeded, the sink and the store.
\<close>

section \<open>Data\<close>

record LakeOptions =
  loName :: string
  loPartitionBy :: "string list"
  loBlobThreshold :: int
  loMaxPayload :: int
  loTargetFile :: int
  loRollInterval :: duration
  loCompression :: string

record partition =
  ptKey :: string
  ptEpisodes :: "Episode list"
  ptSteps :: "Step list"
  ptBytes :: int
  ptFirstSeen :: time

record LakeStats =
  ksFilesWritten :: int
  ksBytesWritten :: int
  ksEpisodesWritten :: int
  ksStepsWritten :: int
  ksBlobsNew :: int
  ksBlobsDeduped :: int
  ksTruncated :: int
  ksBatches :: int

record LakeSink =
  lsOpts :: LakeOptions
  lsPending :: "(string, partition) gomap"
  lsOutcomes :: "Outcome list"
  lsOutcomesSince :: time
  lsRewards :: "Reward list"
  lsBlobsSeen :: "string list"
  lsStats :: LakeStats

record Blob =
  blSha256 :: string
  blBytes :: int
  blContentType :: string
  blEncoding :: string
  blFirstSeenAt :: int

datatype rows =
    REpisodes "Episode list" | RSteps "Step list" | RBlobs "Blob list" | ROutcomes "Outcome list" | RRewards "Reward list"

record ManifestFile =
  mfPath :: string
  mfRows :: int
  mfBytes :: int
  mfTable :: string

record ManifestCounts =
  mcEpisodes :: int
  mcSteps :: int
  mcOutcomes :: int
  mcRewards :: int
  mcBlobsNew :: int
  mcBlobsDeduped :: int

record LakeManifest =
  lmBatchID :: string
  lmSchemaVersion :: string
  lmWrittenAt :: string
  lmVersion :: string
  lmInstance :: string
  lmRangeMin :: string
  lmRangeMax :: string
  lmFiles :: "ManifestFile list"
  lmCounts :: ManifestCounts

text \<open>The encoders, and what the process knows of its build and host.\<close>

record Codec =
  encRows :: "string \<Rightarrow> rows \<Rightarrow> string option"
  encManifest :: "LakeManifest \<Rightarrow> string"
  buildVersion :: string
  hostName :: string

fun rowCount :: "rows \<Rightarrow> nat" where
  "rowCount (REpisodes xs) = length xs"
| "rowCount (RSteps xs) = length xs"
| "rowCount (RBlobs xs) = length xs"
| "rowCount (ROutcomes xs) = length xs"
| "rowCount (RRewards xs) = length xs"

section \<open>Keys\<close>

definition formatDate :: "int \<Rightarrow> string" where
  "formatDate us = (case civil (us div 1000000 div 86400) of
     (y, m, d) \<Rightarrow> padded 4 y @ ''-'' @ padded 2 m @ ''-'' @ padded 2 d)"

definition formatRFC3339 :: "int \<Rightarrow> string" where
  "formatRFC3339 us =
     (let sod = us div 1000000 mod 86400
      in formatDate us @ ''T'' @ padded 2 (sod div 3600) @ '':'' @ padded 2 (sod div 60 mod 60)
         @ '':'' @ padded 2 (sod mod 60) @ ''Z'')"

fun replaceUnsafe :: "string \<Rightarrow> string" where
  "replaceUnsafe [] = []"
| "replaceUnsafe (c # s) =
     (if c \<in> {CHR ''/'', CHR 0x5C, CHR ''='', CHR 0x00} then CHR ''_'' # replaceUnsafe s
      else case s of
             d # r \<Rightarrow> if c = CHR ''.'' \<and> d = CHR ''.'' then CHR ''_'' # replaceUnsafe r else c # replaceUnsafe s
           | [] \<Rightarrow> [c])"

definition sanitise :: "string \<Rightarrow> string" where
  "sanitise v =
     (if v = [] then ''unknown''
      else
        let out = take 128 (replaceUnsafe v)
        in if out = [] \<or> out = ''.'' then ''unknown'' else out)"

definition partitionPart :: "Episode \<Rightarrow> string \<Rightarrow> string list" where
  "partitionPart ep k =
     (if k = ''dt'' then [''dt='' @ formatDate (epStartedAt ep)]
      else if k = ''tenant'' then [''tenant='' @ sanitise (epTenant ep)]
      else if k = ''task_type'' then
        [''task_type='' @ sanitise (case epTaskType ep of None \<Rightarrow> ''unknown'' | Some t \<Rightarrow> if t = [] then ''unknown'' else t)]
      else [])"

definition partitionKey :: "LakeOptions \<Rightarrow> Episode \<Rightarrow> string" where
  "partitionKey o0 ep = pathJoin (concat (map (partitionPart ep) (loPartitionBy o0)))"

definition BlobKey :: "string \<Rightarrow> string" where
  "BlobKey h =
     (if length h < 4 then pathJoin [TableBlobs, ''sha256'', h]
      else pathJoin [TableBlobs, ''sha256'', take 2 h, take 2 (drop 2 h), h])"

definition partFile :: "string \<Rightarrow> string" where
  "partFile batchID = ''part-'' @ batchID @ ''.parquet''"

section \<open>Writing objects\<close>

definition bumpStats :: "(LakeStats \<Rightarrow> LakeStats) \<Rightarrow> LakeSink \<Rightarrow> LakeSink" where
  "bumpStats f s = s\<lparr>lsStats := f (lsStats s)\<rparr>"

text \<open>\<^verbatim>\<open>putParquet\<close>: the bytes written, or failure; no rows give no object.\<close>

definition putParquet :: "Codec \<Rightarrow> 's Store \<Rightarrow> LakeSink \<Rightarrow> string \<Rightarrow> rows \<Rightarrow> 's \<Rightarrow> int option \<times> 's" where
  "putParquet cd S s k rs st =
     (if rowCount rs = 0 then (Some 0, st)
      else
        case encRows cd (to_lower (loCompression (lsOpts s))) rs of
          None \<Rightarrow> (None, st)
        | Some body \<Rightarrow>
            if body = [] then (Some 0, st)
            else (case stPut S k body st of (ok, st1) \<Rightarrow> (if ok then Some (int (length body)) else None, st1)))"

definition putBlob :: "'s Store \<Rightarrow> string \<Rightarrow> string \<Rightarrow> LakeSink \<times> 's \<Rightarrow> bool option \<times> LakeSink \<times> 's" where
  "putBlob S h content = (\<lambda>(s, st).
     let dedup = bumpStats (ksBlobsDeduped_update (\<lambda>n. n + 1))
     in if h \<in> set (lsBlobsSeen s) then (Some False, dedup s, st)
        else
          case stExists S (BlobKey h) st of
            (None, st1) \<Rightarrow> (None, s, st1)
          | (Some True, st1) \<Rightarrow> (Some False, dedup (s\<lparr>lsBlobsSeen := h # lsBlobsSeen s\<rparr>), st1)
          | (Some False, st1) \<Rightarrow>
              (case stPut S (BlobKey h) content st1 of
                 (False, st2) \<Rightarrow> (None, s, st2)
               | (True, st2) \<Rightarrow>
                   (Some True, bumpStats (ksBlobsNew_update (\<lambda>n. n + 1)) (s\<lparr>lsBlobsSeen := h # lsBlobsSeen s\<rparr>), st2)))"

section \<open>Payloads\<close>

text \<open>One step of \<^verbatim>\<open>externalise\<close>: the step as it is left, the new blob row if any, or failure.\<close>

definition externaliseStep ::
  "'s Store \<Rightarrow> time \<Rightarrow> Step \<Rightarrow> LakeSink \<times> 's \<Rightarrow> (Step \<times> Blob list) option \<times> LakeSink \<times> 's"
where
  "externaliseStep S now step = (\<lambda>(s, st).
     case stContentInline step of
       None \<Rightarrow> (Some (step, []), s, st)
     | Some content0 \<Rightarrow>
         let cut = (loMaxPayload (lsOpts s) > 0 \<and> int (length content0) > loMaxPayload (lsOpts s));
             content = (if cut then take (nat (loMaxPayload (lsOpts s))) content0 else content0);
             step1 = (if cut then step\<lparr>stTruncated := True\<rparr> else step);
             s1 = (if cut then bumpStats (ksTruncated_update (\<lambda>n. n + 1)) s else s)
         in if int (length content) \<le> loBlobThreshold (lsOpts s)
            then (Some (step1\<lparr>stContentInline := Some content\<rparr>, []), s1, st)
            else
              let h = hex_encode (sha256 (bytes_of content))
              in case putBlob S h content (s1, st) of
                   (None, s2, st2) \<Rightarrow> (None, s2, st2)
                 | (Some isNew, s2, st2) \<Rightarrow>
                     (Some (step1\<lparr>stContentRef := Some h, stContentInline := None\<rparr>,
                            if isNew then [\<lparr>blSha256 = h, blBytes = int (length content),
                                            blContentType = ''application/json'', blEncoding = EncodingUTF8,
                                            blFirstSeenAt = unixMicro now\<rparr>] else []), s2, st2))"

fun externaliseSteps ::
  "'s Store \<Rightarrow> time \<Rightarrow> Step list \<Rightarrow> LakeSink \<times> 's \<Rightarrow> (Step list \<times> Blob list) option \<times> LakeSink \<times> 's"
where
  "externaliseSteps S now [] w = (Some ([], []), w)"
| "externaliseSteps S now (p # ps) w =
     (case externaliseStep S now p w of
        (None, w1) \<Rightarrow> (None, w1)
      | (Some (p', bs), w1) \<Rightarrow>
          (case externaliseSteps S now ps w1 of
             (None, w2) \<Rightarrow> (None, w2)
           | (Some (ps', bs'), w2) \<Rightarrow> (Some (p' # ps', bs @ bs'), w2)))"

fun externaliseAll ::
  "'s Store \<Rightarrow> time \<Rightarrow> Assembled list \<Rightarrow> LakeSink \<times> 's \<Rightarrow> (Assembled list \<times> Blob list) option \<times> LakeSink \<times> 's"
where
  "externaliseAll S now [] w = (Some ([], []), w)"
| "externaliseAll S now (ep # eps) w =
     (case externaliseSteps S now (asSteps ep) w of
        (None, w1) \<Rightarrow> (None, w1)
      | (Some (ss, bs), w1) \<Rightarrow>
          (case externaliseAll S now eps w1 of
             (None, w2) \<Rightarrow> (None, w2)
           | (Some (eps', bs'), w2) \<Rightarrow> (Some (ep\<lparr>asSteps := ss\<rparr> # eps', bs @ bs'), w2)))"

definition writeBlobTable ::
  "Codec \<Rightarrow> 's Store \<Rightarrow> string \<Rightarrow> Blob list \<Rightarrow> LakeSink \<times> 's \<Rightarrow> bool \<times> LakeSink \<times> 's"
where
  "writeBlobTable cd S newID blobs = (\<lambda>(s, st).
     case putParquet cd S s (pathJoin [TableBlobs, partFile newID]) (RBlobs blobs) st of
       (None, st1) \<Rightarrow> (False, s, st1)
     | (Some n, st1) \<Rightarrow>
         (True, bumpStats (\<lambda>k. k\<lparr>ksFilesWritten := ksFilesWritten k + 1, ksBytesWritten := ksBytesWritten k + n\<rparr>) s, st1))"

section \<open>Buffering\<close>

definition estimateBytes :: "Assembled \<Rightarrow> int" where
  "estimateBytes ep =
     fold (\<lambda>p n. n + 256 + (case stContentInline p of None \<Rightarrow> 0 | Some c \<Rightarrow> int (length c))) (asSteps ep) 512"

definition bufferEpisode :: "time \<Rightarrow> Assembled \<Rightarrow> LakeSink \<Rightarrow> LakeSink" where
  "bufferEpisode now ep s =
     (let k = partitionKey (lsOpts s) (asEpisode ep);
          p = (case map_of (lsPending s) k of
                 Some p \<Rightarrow> p
               | None \<Rightarrow> \<lparr>ptKey = k, ptEpisodes = [], ptSteps = [], ptBytes = 0, ptFirstSeen = now\<rparr>);
          p1 = p\<lparr>ptEpisodes := ptEpisodes p @ [asEpisode ep], ptSteps := ptSteps p @ asSteps ep,
                 ptBytes := ptBytes p + estimateBytes ep\<rparr>
      in s\<lparr>lsPending := AList.update k p1 (lsPending s)\<rparr>)"

definition Write ::
  "Codec \<Rightarrow> 's Store \<Rightarrow> time \<Rightarrow> time \<Rightarrow> string \<Rightarrow> Assembled list \<Rightarrow> LakeSink \<times> 's \<Rightarrow> bool \<times> LakeSink \<times> 's"
where
  "Write cd S now0 now newID eps w =
     (case externaliseAll S now0 eps w of
        (None, w1) \<Rightarrow> (False, w1)
      | (Some (eps', blobs), w1) \<Rightarrow>
          (case (if blobs = [] then (True, w1)
                 else writeBlobTable cd S newID (sort_key blSha256 blobs) w1) of
             (False, w2) \<Rightarrow> (False, w2)
           | (True, s, st) \<Rightarrow> (True, fold (bufferEpisode now) eps' s, st)))"

definition WriteOutcomes :: "time \<Rightarrow> Outcome list \<Rightarrow> LakeSink \<Rightarrow> LakeSink" where
  "WriteOutcomes now rs s =
     (let s1 = (if lsOutcomes s = [] then s\<lparr>lsOutcomesSince := now\<rparr> else s)
      in s1\<lparr>lsOutcomes := lsOutcomes s1 @ rs\<rparr>)"

definition WriteRewards :: "Reward list \<Rightarrow> LakeSink \<Rightarrow> LakeSink" where
  "WriteRewards rs s = s\<lparr>lsRewards := lsRewards s @ rs\<rparr>"

section \<open>Flushing\<close>

definition partDue :: "bool \<Rightarrow> time \<Rightarrow> LakeOptions \<Rightarrow> partition \<Rightarrow> bool" where
  "partDue force now o0 p \<longleftrightarrow> force \<or> ptBytes p \<ge> loTargetFile o0 \<or> now - ptFirstSeen p \<ge> loRollInterval o0"

definition outcomesDue :: "bool \<Rightarrow> time \<Rightarrow> LakeSink \<Rightarrow> bool" where
  "outcomesDue force now s \<longleftrightarrow>
     lsOutcomes s \<noteq> [] \<and>
     (force \<or> length (lsOutcomes s) \<ge> 50000 \<or> now - lsOutcomesSince s \<ge> loRollInterval (lsOpts s))"

definition restore :: "partition \<Rightarrow> LakeSink \<Rightarrow> LakeSink" where
  "restore p s =
     (case map_of (lsPending s) (ptKey p) of
        Some q \<Rightarrow>
          s\<lparr>lsPending := AList.update (ptKey p)
              (q\<lparr>ptEpisodes := ptEpisodes q @ ptEpisodes p, ptSteps := ptSteps q @ ptSteps p,
                 ptBytes := ptBytes q + ptBytes p\<rparr>) (lsPending s)\<rparr>
      | None \<Rightarrow> s\<lparr>lsPending := AList.update (ptKey p) p (lsPending s)\<rparr>)"

text \<open>What the batch has collected so far.\<close>

record batch =
  bFiles :: "ManifestFile list"
  bCounts :: ManifestCounts
  bMin :: int
  bMax :: int

definition zeroBatch :: batch where
  "zeroBatch = \<lparr>bFiles = [], bCounts = \<lparr>mcEpisodes = 0, mcSteps = 0, mcOutcomes = 0, mcRewards = 0,
     mcBlobsNew = 0, mcBlobsDeduped = 0\<rparr>, bMin = 0, bMax = 0\<rparr>"

definition addFile :: "string \<Rightarrow> string \<Rightarrow> nat \<Rightarrow> int \<Rightarrow> batch \<Rightarrow> batch" where
  "addFile table k n bytes b = b\<lparr>bFiles := bFiles b @ [\<lparr>mfPath = k, mfRows = int n, mfBytes = bytes, mfTable = table\<rparr>]\<rparr>"

definition addTime :: "int \<Rightarrow> batch \<Rightarrow> batch" where
  "addTime t b =
     (let b1 = (if bMin b = 0 \<or> t < bMin b then b\<lparr>bMin := t\<rparr> else b)
      in if t > bMax b1 then b1\<lparr>bMax := t\<rparr> else b1)"

definition flushPart ::
  "Codec \<Rightarrow> 's Store \<Rightarrow> string \<Rightarrow> partition \<Rightarrow> batch \<Rightarrow> LakeSink \<times> 's \<Rightarrow> batch option \<times> LakeSink \<times> 's"
where
  "flushPart cd S batchID p b = (\<lambda>(s, st).
     let epKey = pathJoin [TableEpisodes, ptKey p, partFile batchID];
         stKey = pathJoin [TableSteps, ptKey p, partFile batchID]
     in case putParquet cd S s epKey (REpisodes (ptEpisodes p)) st of
          (None, st1) \<Rightarrow> (None, restore p s, st1)
        | (Some n, st1) \<Rightarrow>
            let b1 = addFile TableEpisodes epKey (length (ptEpisodes p)) n b;
                b2 = b1\<lparr>bCounts := (bCounts b1)\<lparr>mcEpisodes := mcEpisodes (bCounts b1) + int (length (ptEpisodes p))\<rparr>\<rparr>;
                b3 = fold (\<lambda>e. addTime (epStartedAt e)) (ptEpisodes p) b2
            in if ptSteps p = [] then (Some b3, s, st1)
               else
                 (case putParquet cd S s stKey (RSteps (ptSteps p)) st1 of
                    (None, st2) \<Rightarrow> (None, restore p s, st2)
                  | (Some m, st2) \<Rightarrow>
                      let b4 = addFile TableSteps stKey (length (ptSteps p)) m b3
                      in (Some (b4\<lparr>bCounts := (bCounts b4)\<lparr>mcSteps := mcSteps (bCounts b4) + int (length (ptSteps p))\<rparr>\<rparr>), s, st2)))"

fun flushParts ::
  "Codec \<Rightarrow> 's Store \<Rightarrow> string \<Rightarrow> partition list \<Rightarrow> batch \<Rightarrow> LakeSink \<times> 's \<Rightarrow> batch option \<times> LakeSink \<times> 's"
where
  "flushParts cd S batchID [] b w = (Some b, w)"
| "flushParts cd S batchID (p # ps) b w =
     (case flushPart cd S batchID p b w of
        (None, w1) \<Rightarrow> (None, w1)
      | (Some b1, w1) \<Rightarrow> flushParts cd S batchID ps b1 w1)"

definition flushOutcomes ::
  "Codec \<Rightarrow> 's Store \<Rightarrow> string \<Rightarrow> time \<Rightarrow> Outcome list \<Rightarrow> batch \<Rightarrow> LakeSink \<times> 's \<Rightarrow> batch option \<times> LakeSink \<times> 's"
where
  "flushOutcomes cd S batchID now ocs b = (\<lambda>(s, st).
     if ocs = [] then (Some b, s, st)
     else
       let k = pathJoin [TableOutcomes, ''dt='' @ formatDate (unixMicro now), partFile batchID]
       in case putParquet cd S s k (ROutcomes ocs) st of
            (None, st1) \<Rightarrow> (None, s\<lparr>lsOutcomes := ocs @ lsOutcomes s\<rparr>, st1)
          | (Some n, st1) \<Rightarrow>
              let b1 = addFile TableOutcomes k (length ocs) n b;
                  b2 = b1\<lparr>bCounts := (bCounts b1)\<lparr>mcOutcomes := mcOutcomes (bCounts b1) + int (length ocs)\<rparr>\<rparr>
              in (Some (fold (\<lambda>oc. addTime (ocOccurredAt oc)) ocs b2), s, st1))"

definition flushRewards ::
  "Codec \<Rightarrow> 's Store \<Rightarrow> string \<Rightarrow> time \<Rightarrow> Reward list \<Rightarrow> batch \<Rightarrow> LakeSink \<times> 's \<Rightarrow> batch option \<times> LakeSink \<times> 's"
where
  "flushRewards cd S batchID now rws b = (\<lambda>(s, st).
     case rws of
       [] \<Rightarrow> (Some b, s, st)
     | r0 # _ \<Rightarrow>
         let k = pathJoin [TableRewards, ''dt='' @ formatDate (unixMicro now), partFile batchID]
         in case putParquet cd S s k (RRewards rws) st of
              (None, st1) \<Rightarrow> (None, s\<lparr>lsRewards := rws @ lsRewards s\<rparr>, st1)
            | (Some n, st1) \<Rightarrow>
                let b1 = addFile TableRewards k (length rws) n b;
                    b2 = b1\<lparr>bCounts := (bCounts b1)\<lparr>mcRewards := mcRewards (bCounts b1) + int (length rws)\<rparr>\<rparr>
                in (Some (if bMin b2 = 0 then b2\<lparr>bMin := rwAt r0, bMax := rwAt r0\<rparr> else b2), s, st1))"

definition manifestKey :: "time \<Rightarrow> string \<Rightarrow> string" where
  "manifestKey now batchID = pathJoin [''manifests'', ''dt='' @ formatDate (unixMicro now), batchID @ ''.json'']"

definition manifestOf :: "Codec \<Rightarrow> string \<Rightarrow> time \<Rightarrow> batch \<Rightarrow> LakeSink \<Rightarrow> LakeManifest" where
  "manifestOf cd batchID now b s =
     \<lparr>lmBatchID = batchID, lmSchemaVersion = schemaVersion, lmWrittenAt = formatRFC3339 (unixMicro now),
      lmVersion = buildVersion cd, lmInstance = hostName cd,
      lmRangeMin = formatRFC3339 (bMin b), lmRangeMax = formatRFC3339 (bMax b), lmFiles = bFiles b,
      lmCounts = (bCounts b)\<lparr>mcBlobsNew := ksBlobsNew (lsStats s), mcBlobsDeduped := ksBlobsDeduped (lsStats s)\<rparr>\<rparr>"

definition writeManifest ::
  "Codec \<Rightarrow> 's Store \<Rightarrow> string \<Rightarrow> time \<Rightarrow> batch \<Rightarrow> LakeSink \<times> 's \<Rightarrow> bool \<times> 's"
where
  "writeManifest cd S batchID now b = (\<lambda>(s, st).
     stPut S (manifestKey now batchID) (encManifest cd (manifestOf cd batchID now b s)) st)"

definition countBatch :: "batch \<Rightarrow> LakeStats \<Rightarrow> LakeStats" where
  "countBatch b k =
     k\<lparr>ksFilesWritten := ksFilesWritten k + int (length (bFiles b)),
       ksBytesWritten := ksBytesWritten k + sum_list (map mfBytes (bFiles b)),
       ksEpisodesWritten := ksEpisodesWritten k + mcEpisodes (bCounts b),
       ksStepsWritten := ksStepsWritten k + mcSteps (bCounts b),
       ksBatches := ksBatches k + 1\<rparr>"

text \<open>What a flush takes out of the sink before it writes anything.\<close>

definition takeDue :: "bool \<Rightarrow> time \<Rightarrow> LakeSink \<Rightarrow> partition list \<times> Outcome list \<times> Reward list \<times> LakeSink" where
  "takeDue force now s =
     (let due = filter (partDue force now (lsOpts s)) (map snd (lsPending s));
          ocs = (if outcomesDue force now s then lsOutcomes s else []);
          rws = (if force then lsRewards s else [])
      in (sort_key ptKey due, ocs, rws,
          s\<lparr>lsPending := filter (\<lambda>(_, p). \<not> partDue force now (lsOpts s) p) (lsPending s),
            lsOutcomes := (if outcomesDue force now s then [] else lsOutcomes s),
            lsRewards := (if force then [] else lsRewards s)\<rparr>))"

text \<open>The part of \<^verbatim>\<open>flush\<close> behind the selection: the data files, then the manifest.\<close>

definition flushBatch ::
  "Codec \<Rightarrow> 's Store \<Rightarrow> time \<Rightarrow> string \<Rightarrow> partition list \<times> Outcome list \<times> Reward list \<Rightarrow> LakeSink \<times> 's
     \<Rightarrow> bool \<times> LakeSink \<times> 's"
where
  "flushBatch cd S now batchID = (\<lambda>(due, ocs, rws) w.
     case flushParts cd S batchID due zeroBatch w of
       (None, w1) \<Rightarrow> (False, w1)
     | (Some b1, w1) \<Rightarrow>
         (case flushOutcomes cd S batchID now ocs b1 w1 of
            (None, w2) \<Rightarrow> (False, w2)
          | (Some b2, w2) \<Rightarrow>
              (case flushRewards cd S batchID now rws b2 w2 of
                 (None, w3) \<Rightarrow> (False, w3)
               | (Some b3, s3, st3) \<Rightarrow>
                   (case writeManifest cd S batchID now b3 (s3, st3) of
                      (False, st4) \<Rightarrow> (False, s3, st4)
                    | (True, st4) \<Rightarrow> (True, bumpStats (countBatch b3) s3, st4)))))"

definition flushSink ::
  "Codec \<Rightarrow> 's Store \<Rightarrow> bool \<Rightarrow> time \<Rightarrow> string \<Rightarrow> LakeSink \<times> 's \<Rightarrow> bool \<times> LakeSink \<times> 's"
where
  "flushSink cd S force now batchID = (\<lambda>(s, st).
     case takeDue force now s of
       (due, ocs, rws, s1) \<Rightarrow>
         if due = [] \<and> ocs = [] \<and> rws = [] then (True, s1, st)
         else flushBatch cd S now batchID (due, ocs, rws) (s1, st))"

definition SinkFlush where "SinkFlush cd S now batchID w = flushSink cd S True now batchID w"
definition SinkFlushDue where "SinkFlushDue cd S now batchID w = flushSink cd S False now batchID w"

definition PendingRows :: "LakeSink \<Rightarrow> int" where
  "PendingRows s = int (length (lsOutcomes s)) + sum_list (map (\<lambda>(_, p). int (length (ptEpisodes p))) (lsPending s))"

section \<open>Construction\<close>

definition lakeDefaults :: "LakeOptions \<Rightarrow> LakeOptions" where
  "lakeDefaults o0 = o0
     \<lparr>loBlobThreshold := (if loBlobThreshold o0 \<le> 0 then 8192 else loBlobThreshold o0),
      loMaxPayload := (if loMaxPayload o0 \<le> 0 then 8388608 else loMaxPayload o0),
      loTargetFile := (if loTargetFile o0 \<le> 0 then 268435456 else loTargetFile o0),
      loRollInterval := (if loRollInterval o0 \<le> 0 then 15 * 60 * 1000000000 else loRollInterval o0),
      loPartitionBy := (if loPartitionBy o0 = [] then [''dt'', ''tenant'', ''task_type''] else loPartitionBy o0)\<rparr>"

definition zeroLakeSink :: "LakeOptions \<Rightarrow> LakeSink" where
  "zeroLakeSink o0 = \<lparr>lsOpts = o0, lsPending = [], lsOutcomes = [], lsOutcomesSince = 0, lsRewards = [],
     lsBlobsSeen = [], lsStats = \<lparr>ksFilesWritten = 0, ksBytesWritten = 0, ksEpisodesWritten = 0, ksStepsWritten = 0,
       ksBlobsNew = 0, ksBlobsDeduped = 0, ksTruncated = 0, ksBatches = 0\<rparr>\<rparr>"

fun writeSchemaDescriptors :: "(string \<Rightarrow> string) \<Rightarrow> 's Store \<Rightarrow> string list \<Rightarrow> 's \<Rightarrow> bool \<times> 's" where
  "writeSchemaDescriptors schemaText S [] st = (True, st)"
| "writeSchemaDescriptors schemaText S (t # ts) st =
     (case stPut S (pathJoin [''_schema'', ''v'' @ schemaVersion, t @ ''.txt'']) (schemaText t) st of
        (False, st1) \<Rightarrow> (False, st1)
      | (True, st1) \<Rightarrow> writeSchemaDescriptors schemaText S ts st1)"

definition NewLakeSink :: "(string \<Rightarrow> string) \<Rightarrow> 's Store \<Rightarrow> LakeOptions \<Rightarrow> 's \<Rightarrow> LakeSink option \<times> 's" where
  "NewLakeSink schemaText S o0 st =
     (case writeSchemaDescriptors schemaText S Written st of
        (False, st1) \<Rightarrow> (None, st1)
      | (True, st1) \<Rightarrow> (Some (zeroLakeSink (lakeDefaults o0)), st1))"

end
