(* ===== verification/Service.thy ===== *)
theory Service
  imports Policy Delivery Lake_Sink
begin

text \<open>
  The service (\<^verbatim>\<open>src/collector/service\<close>): the handlers that connect sources, assembler, processors,
  buffer and sink (\<^verbatim>\<open>service.go\<close>), outcomes (\<^verbatim>\<open>outcomes.go\<close>), counters
  (\<^verbatim>\<open>counters.go\<close>), the loss marker (\<^verbatim>\<open>restartloss.go\<close>) and hot reload (\<^verbatim>\<open>reload.go\<close>).

  State. \<open>Service\<close> has the fields of the Go struct. The buffer lives inside the deliverer, as the
  deliverer holds it, and the sink with its store is the world the deliverer sends to. Counters that
  are only added to are one map from label lists to numbers; gauges, histograms, spans and log lines
  are left out. \<open>svTrace\<close> records what the service did to the outside: payloads offered to the buffer
  and quarantine files. A handler is one atomic step of the model: the assembler and the buffer lock
  inside their own operations, and the policy is read once per record.

  \<open>Deps\<close> are the calls that leave the program: the JSON encoder and decoder of buffered records, the
  JSON parser, the store, the Parquet encoder, clock, fresh ids, rate limiter, and the file system.
\<close>

section \<open>State\<close>

record bufferedRecord =
  brEpisode :: "Episode option"
  brSteps :: "Step list"
  brOutcomes :: "Outcome list"

record 's LakeWorld =
  lkSink :: LakeSink
  lkStore :: 's
  lkTick :: nat

record ('l, 's) Deps =
  dpParse :: "string \<Rightarrow> json option"
  dpEncode :: "bufferedRecord \<Rightarrow> byte list option"
  dpDecode :: "byte list \<Rightarrow> bufferedRecord option"
  dpCodec :: Codec
  dpStore :: "'s Store"
  dpClock :: "nat \<Rightarrow> time"
  dpNewID :: "nat \<Rightarrow> string"
  dpLimits :: "'l LimiterLib"
  dpPolicy :: PolicyLib
  dpSys :: Sys
  dpBase :: "'s LakeWorld Env"
  dpMkdir :: "string \<Rightarrow> bool"
  dpEncodeQuarantine :: "Assembled \<Rightarrow> string \<Rightarrow> bool"
  dpWriteFile :: "string \<Rightarrow> bool"

datatype effect = Offered "byte list" | QuarantineFile string string

record assemblyMarker =
  amInFlight :: int
  amClean :: bool

record lastSeenTotals =
  ltFiles :: int
  ltBlobsDeduped :: int
  ltBytes :: "string \<Rightarrow> int"
  ltRejected :: "string \<Rightarrow> int"
  ltRedactErrors :: "string \<Rightarrow> int"
  ltDelivered :: int
  ltRetries :: int
  ltDeadLettered :: int

record ('l, 's) Service =
  svCfg :: Config
  svPol :: "'l policy"
  svAsm :: Assembler
  svDel :: "'s LakeWorld Deliverer"
  svQuarantineDir :: string
  svEmitted :: int
  svQuarantined :: int
  svSampledOut :: int
  svDryRun :: bool
  svLast :: lastSeenTotals
  svMetrics :: "string list \<Rightarrow> int"
  svMarker :: "assemblyMarker option"
  svReads :: nat
  svTrace :: "effect list"

datatype ingestError =
    QuotaExceeded | Backpressure | BadOutcome nat wireError | BadOutcomeKey nat redactError | EncodeOutcomes

definition countMetric :: "string list \<Rightarrow> int \<Rightarrow> ('l, 's) Service \<Rightarrow> ('l, 's) Service" where
  "countMetric labels n s = s\<lparr>svMetrics := (svMetrics s)(labels := svMetrics s labels + n)\<rparr>"

definition readClock :: "('l, 's) Deps \<Rightarrow> ('l, 's) Service \<Rightarrow> time \<times> ('l, 's) Service" where
  "readClock D s = (dpClock D (svReads s), s\<lparr>svReads := Suc (svReads s)\<rparr>)"

definition svBuf :: "('l, 's) Service \<Rightarrow> Buffer" where
  "svBuf s = dBuf (svDel s)"

definition svOS :: "('l, 's) Deps \<Rightarrow> ('l, 's) Service \<Rightarrow> OS" where
  "svOS D s = osOf (dpBase D) (dWorld (svDel s))"

text \<open>\<^verbatim>\<open>s.buf.Append\<close>: whether the buffer took the payload.\<close>

definition appendPayload :: "('l, 's) Deps \<Rightarrow> byte list \<Rightarrow> ('l, 's) Service \<Rightarrow> bool \<times> ('l, 's) Service" where
  "appendPayload D payload s =
     (case readClock D s of
        (now, s1) \<Rightarrow>
          (case Append (svOS D s1) now payload (svBuf s1) of
             (er, b) \<Rightarrow>
               (er = None, s1\<lparr>svDel := (svDel s1)\<lparr>dBuf := b\<rparr>, svTrace := svTrace s1 @ [Offered payload]\<rparr>)))"

section \<open>Quarantine\<close>

definition quarantinePath :: "string \<Rightarrow> time \<Rightarrow> string \<Rightarrow> string \<Rightarrow> string" where
  "quarantinePath dir now stage epID =
     pathJoin [pathJoin [dir, ''dt='' @ formatDate (unixMicro now), stage], epID @ ''.json'']"

definition quarantine :: "('l, 's) Deps \<Rightarrow> Assembled \<Rightarrow> string \<Rightarrow> ('l, 's) Service \<Rightarrow> ('l, 's) Service" where
  "quarantine D ep stage s =
     (let s1 = countMetric [''quarantined'', stage] 1 (s\<lparr>svQuarantined := svQuarantined s + 1\<rparr>)
      in case readClock D s1 of
           (now, s2) \<Rightarrow>
             let dir = pathJoin [svQuarantineDir s2, ''dt='' @ formatDate (unixMicro now), stage];
                 path = quarantinePath (svQuarantineDir s2) now stage (epEpisodeID (asEpisode ep))
             in if dpMkdir D dir \<and> dpEncodeQuarantine D ep stage \<and> dpWriteFile D path
                then s2\<lparr>svTrace := svTrace s2 @ [QuarantineFile path stage]\<rparr>
                else s2)"

section \<open>Episodes\<close>

definition countManifest :: "Manifest option \<Rightarrow> ('l, 's) Service \<Rightarrow> ('l, 's) Service" where
  "countManifest mf s =
     (case mf of
        None \<Rightarrow> s
      | Some m \<Rightarrow>
          fold (\<lambda>e. countMetric [''redaction_matches'', meRuleID e, meAction e] (meMatches e)) (mfEntries m) s)"

definition bufferedEpisode :: "Assembled \<Rightarrow> bufferedRecord" where
  "bufferedEpisode ep = \<lparr>brEpisode = Some (asEpisode ep), brSteps = asSteps ep, brOutcomes = []\<rparr>"

text \<open>The counters of an episode that is kept, and the part of \<^verbatim>\<open>onEpisode\<close> behind the samplers.\<close>

definition countKept :: "Assembled \<Rightarrow> ('l, 's) Service \<Rightarrow> ('l, 's) Service" where
  "countKept ep s =
     (let reason = (case epSampledBy (asEpisode ep) of None \<Rightarrow> ''tail'' | Some r \<Rightarrow> r);
          s1 = countMetric [''sampled'', ''kept'', reason] 1 s;
          s2 = countMetric [''episodes_emitted'', epStatus (asEpisode ep)] 1 s1
      in if epStatus (asEpisode ep) = StatusEvicted then countMetric [''evictions''] 1 s2 else s2)"

definition emitEpisode :: "('l, 's) Deps \<Rightarrow> Assembled \<Rightarrow> ('l, 's) Service \<Rightarrow> ('l, 's) Service" where
  "emitEpisode D ep s0 =
     (let s = countKept ep s0
      in if svDryRun s then s\<lparr>svEmitted := svEmitted s + 1\<rparr>
         else
           case dpEncode D (bufferedEpisode ep) of
             None \<Rightarrow> s
           | Some payload \<Rightarrow>
               (case appendPayload D payload s of
                  (False, s1) \<Rightarrow> countMetric [''sink_errors'', loName (lsOpts (lkSink (dWorld (svDel s1)))), ''buffer_full''] 1 s1
                | (True, s1) \<Rightarrow> s1\<lparr>svEmitted := svEmitted s1 + 1\<rparr>))"

definition onEpisode :: "('l, 's) Deps \<Rightarrow> Assembled \<Rightarrow> ('l, 's) Service \<Rightarrow> ('l, 's) Service" where
  "onEpisode D ep s =
     (let pol = svPol s;
          src = epSource (asEpisode ep);
          (red, st) = redactorFor pol src
      in case Redact.Process (dpParse D) red ep st of
           (Inl e, st') \<Rightarrow> quarantine D ep ''redact'' (s\<lparr>svPol := setRedactStats src st' pol\<rparr>)
         | (Inr (ep1, mf), st') \<Rightarrow>
             (case ExtractProcess (dpParse D) ep1 (plExtractor pol) of
                (ep2, ex) \<Rightarrow>
                  (case TailKeep ep2 (plSampler pol) of
                     (keep, ep3, sm) \<Rightarrow>
                       let s1 = countManifest mf
                             (s\<lparr>svPol := (setRedactStats src st' pol)\<lparr>plExtractor := ex, plSampler := sm\<rparr>\<rparr>)
                       in if \<not> keep
                          then countMetric [''sampled'', ''dropped'', ''tail''] 1 (s1\<lparr>svSampledOut := svSampledOut s1 + 1\<rparr>)
                          else emitEpisode D ep3 s1)))"

text \<open>The episodes an assembler operation emits, in order.\<close>

definition onEpisodes :: "('l, 's) Deps \<Rightarrow> Assembled list \<Rightarrow> ('l, 's) Service \<Rightarrow> ('l, 's) Service" where
  "onEpisodes D eps s = fold (onEpisode D) eps s"

section \<open>Envelopes\<close>

definition onEnvelope ::
  "('l, 's) Deps \<Rightarrow> Envelope \<Rightarrow> ('l, 's) Service \<Rightarrow> ingestError option \<times> ('l, 's) Service"
where
  "onEnvelope D env s =
     (case HeadKeepFrom (envSource env) (envSessionKey env) (plSampler (svPol s)) of
        (keep, sm) \<Rightarrow>
          let s1 = s\<lparr>svPol := (svPol s)\<lparr>plSampler := sm\<rparr>\<rparr>
          in if \<not> keep
             then (None, countMetric [''ingest'', envSource env, ''head_sampled''] 1
                           (countMetric [''sampled'', ''dropped'', ''head''] 1 s1))
             else
               (case readClock D s1 of
                  (now, s2) \<Rightarrow>
                    (case quotaAllow (dpLimits D) now (envSource env) (plQuotas (svPol s2)) of
                       (ok, q) \<Rightarrow>
                         let s3 = s2\<lparr>svPol := (svPol s2)\<lparr>plQuotas := q\<rparr>\<rparr>
                         in if \<not> ok
                            then (Some QuotaExceeded, countMetric [''ingest'', envSource env, ''quota''] 1
                                    (countMetric [''shed'', envSource env, ''quota''] 1 s3))
                            else if UnderBackpressure (svBuf s3)
                            then (Some Backpressure, countMetric [''shed'', envSource env, ''backpressure''] 1
                                    (countMetric [''ingest'', envSource env, ''backpressure''] 1 s3))
                            else
                              (case Add env (svAsm s3) of
                                 (eps, a) \<Rightarrow>
                                   (None, onEpisodes D eps
                                     ((countMetric [''ingest'', envSource env, ''accepted''] 1 s3)\<lparr>svAsm := a\<rparr>))))))"

section \<open>Delivery\<close>

text \<open>The send function of the deliverer: one buffered record into the sink.\<close>

definition sendRecord :: "('l, 's) Deps \<Rightarrow> 's LakeWorld \<Rightarrow> byte list \<Rightarrow> goError option \<times> 's LakeWorld" where
  "sendRecord D w payload =
     (case dpDecode D payload of
        None \<Rightarrow> (Permanent (Some (PlainError ''undecodable buffered record'')), w)
      | Some rec \<Rightarrow>
          if brOutcomes rec \<noteq> []
          then (None, w\<lparr>lkSink := WriteOutcomes (dpClock D (lkTick w)) (brOutcomes rec) (lkSink w), lkTick := lkTick w + 1\<rparr>)
          else
            (case brEpisode rec of
               None \<Rightarrow> (Permanent (Some (PlainError ''neither an episode nor outcomes'')), w)
             | Some e \<Rightarrow>
                 (case Write (dpCodec D) (dpStore D) (dpClock D (lkTick w)) (dpClock D (lkTick w + 1)) (dpNewID D (lkTick w))
                         [\<lparr>asEpisode = e, asSteps = brSteps rec\<rparr>] (lkSink w, lkStore w) of
                    (ok, sk, st) \<Rightarrow>
                      (if ok then None else Some (PlainError ''write''),
                       w\<lparr>lkSink := sk, lkStore := st, lkTick := lkTick w + 2\<rparr>))))"

definition flushWorld :: "('l, 's) Deps \<Rightarrow> bool \<Rightarrow> 's LakeWorld \<Rightarrow> goError option \<times> 's LakeWorld" where
  "flushWorld D force w =
     (case Lake_Sink.flushSink (dpCodec D) (dpStore D) force (dpClock D (lkTick w)) (dpNewID D (lkTick w)) (lkSink w, lkStore w) of
        (ok, sk, st) \<Rightarrow>
          (if ok then None else Some (PlainError ''flush''), w\<lparr>lkSink := sk, lkStore := st, lkTick := lkTick w + 1\<rparr>))"

text \<open>The deliverer's calls: \<^verbatim>\<open>Commit\<close> is \<^verbatim>\<open>FlushDue\<close> of the sink.\<close>

definition serviceEnv :: "('l, 's) Deps \<Rightarrow> 's LakeWorld Env" where
  "serviceEnv D = (dpBase D)\<lparr>send := sendRecord D, commit := Some (flushWorld D False)\<rparr>"

definition drainBuffer ::
  "('l, 's) Deps \<Rightarrow> nat \<Rightarrow> ('l, 's) Service \<Rightarrow> (deliveryError option \<times> ('l, 's) Service) option"
where
  "drainBuffer D fuel s =
     map_option (\<lambda>(_, er, d). (er, s\<lparr>svDel := d\<rparr>)) (DrainOnce (serviceEnv D) fuel 0 (svDel s))"

definition flushNow :: "('l, 's) Deps \<Rightarrow> bool \<Rightarrow> ('l, 's) Service \<Rightarrow> goError option \<times> ('l, 's) Service" where
  "flushNow D force s =
     (case flushWorld D force (dWorld (svDel s)) of (er, w) \<Rightarrow> (er, s\<lparr>svDel := (svDel s)\<lparr>dWorld := w\<rparr>\<rparr>))"

section \<open>Counters\<close>

text \<open>
  Adding the difference to the total seen last, for one label: the metric moves only forward, and the
  last total becomes the new one.
\<close>

definition addDelta :: "string list \<Rightarrow> int \<Rightarrow> int \<Rightarrow> ('l, 's) Service \<Rightarrow> ('l, 's) Service" where
  "addDelta labels tot prev s = (if tot - prev > 0 then countMetric labels (tot - prev) s else s)"

text \<open>The rules of a redactor that have failed at least once, and one entry of the error counters.\<close>

definition errorRules :: "Redactor \<times> RedactStats \<Rightarrow> string list" where
  "errorRules = (\<lambda>(r, st). filter (\<lambda>i. rsErrors st i \<noteq> 0) (remdups (map ruleID (rules r) @ [''detector''])))"

definition reportRedactError :: "RedactStats \<Rightarrow> string \<Rightarrow> ('l, 's) Service \<Rightarrow> ('l, 's) Service" where
  "reportRedactError st rule s =
     (let k = ''redact/'' @ rule; tot = rsErrors st rule;
          s1 = addDelta [''redaction_errors'', rule] tot (ltRedactErrors (svLast s) k) s
      in s1\<lparr>svLast := (svLast s1)\<lparr>ltRedactErrors := (ltRedactErrors (svLast s1))(k := tot)\<rparr>\<rparr>)"

definition redactorsOf :: "'l policy \<Rightarrow> (Redactor \<times> RedactStats) list" where
  "redactorsOf p = plRedactor p # map snd (plBySource p)"

definition reportRedactErrors :: "('l, 's) Service \<Rightarrow> ('l, 's) Service" where
  "reportRedactErrors s =
     fold (\<lambda>r. fold (reportRedactError (snd r)) (errorRules r)) (redactorsOf (svPol s)) s"

definition reportBytes :: "string \<times> int \<Rightarrow> ('l, 's) Service \<Rightarrow> ('l, 's) Service" where
  "reportBytes = (\<lambda>(src, tot) s.
     let s1 = addDelta [''ingest_bytes'', src] tot (ltBytes (svLast s) src) s
     in s1\<lparr>svLast := (svLast s1)\<lparr>ltBytes := (ltBytes (svLast s1))(src := tot)\<rparr>\<rparr>)"

definition reportRejected :: "string \<times> int \<Rightarrow> ('l, 's) Service \<Rightarrow> ('l, 's) Service" where
  "reportRejected = (\<lambda>(src, tot) s.
     let s1 = addDelta [''ingest'', src, ''rejected''] tot (ltRejected (svLast s) src) s
     in s1\<lparr>svLast := (svLast s1)\<lparr>ltRejected := (ltRejected (svLast s1))(src := tot)\<rparr>\<rparr>)"

definition reportSink :: "('l, 's) Service \<Rightarrow> ('l, 's) Service" where
  "reportSink s =
     (let sk = lkSink (dWorld (svDel s)); st = lsStats sk;
          s1 = addDelta [''files_written'', loName (lsOpts sk), ''all''] (ksFilesWritten st) (ltFiles (svLast s)) s;
          s2 = s1\<lparr>svLast := (svLast s1)\<lparr>ltFiles := ksFilesWritten st\<rparr>\<rparr>;
          s3 = addDelta [''blobs_deduped''] (ksBlobsDeduped st) (ltBlobsDeduped (svLast s2)) s2
      in s3\<lparr>svLast := (svLast s3)\<lparr>ltBlobsDeduped := ksBlobsDeduped st\<rparr>\<rparr>)"

text \<open>
  \<^verbatim>\<open>reportPipelineCounters\<close>: the totals of the sources are an argument, as the sources run on their own.
\<close>

definition reportPipelineCounters ::
  "(string \<times> int) list \<Rightarrow> (string \<times> int) list \<Rightarrow> ('l, 's) Service \<Rightarrow> ('l, 's) Service"
where
  "reportPipelineCounters received rejected s =
     reportSink (reportRedactErrors (fold reportRejected rejected (fold reportBytes received s)))"

definition reportBufferMetrics ::
  "(string \<times> int) list \<Rightarrow> (string \<times> int) list \<Rightarrow> ('l, 's) Service \<Rightarrow> ('l, 's) Service"
where
  "reportBufferMetrics received rejected s =
     (let st = dStats (svDel s); l = svLast s;
          s1 = s\<lparr>svLast := l\<lparr>ltDelivered := Delivered st, ltRetries := Retries st, ltDeadLettered := DeadLetteredCount st\<rparr>\<rparr>;
          s2 = reportPipelineCounters received rejected s1
      in addDelta [''dead_lettered''] (DeadLetteredCount st) (ltDeadLettered l)
           (addDelta [''delivery_retries''] (Retries st) (ltRetries l)
             (addDelta [''delivered''] (Delivered st) (ltDelivered l) s2)))"

text \<open>\<^verbatim>\<open>flushSink\<close> of the service: a forced flush that reports files and blobs.\<close>

definition flushAndReport :: "('l, 's) Deps \<Rightarrow> ('l, 's) Service \<Rightarrow> goError option \<times> ('l, 's) Service" where
  "flushAndReport D s =
     (case flushNow D True s of
        (Some e, s1) \<Rightarrow> (Some e, countMetric [''sink_errors'', loName (lsOpts (lkSink (dWorld (svDel s1)))), ''flush''] 1 s1)
      | (None, s1) \<Rightarrow> (None, reportSink s1))"

section \<open>The loss marker\<close>

text \<open>\<open>ok\<close> says whether the file could be written and renamed.\<close>

definition recordInFlight :: "bool \<Rightarrow> bool \<Rightarrow> ('l, 's) Service \<Rightarrow> ('l, 's) Service" where
  "recordInFlight ok clean s =
     (if ok then s\<lparr>svMarker := Some \<lparr>amInFlight = int (InFlight (svAsm s)), amClean = clean\<rparr>\<rparr> else s)"

text \<open>What the next process counts as lost.\<close>

definition reportPreviousLoss :: "assemblyMarker option \<Rightarrow> int" where
  "reportPreviousLoss m =
     (case m of None \<Rightarrow> 0 | Some a \<Rightarrow> if amClean a \<or> amInFlight a = 0 then 0 else amInFlight a)"

section \<open>The loop\<close>

definition tickExpire ::
  "('l, 's) Deps \<Rightarrow> bool \<Rightarrow> (string \<times> int) list \<Rightarrow> (string \<times> int) list \<Rightarrow> ('l, 's) Service \<Rightarrow> ('l, 's) Service"
where
  "tickExpire D ok received rejected s =
     (case Expire (svAsm s) of
        (eps, a) \<Rightarrow>
          recordInFlight ok False (reportBufferMetrics received rejected (onEpisodes D eps (s\<lparr>svAsm := a\<rparr>))))"

definition tickSync :: "('l, 's) Deps \<Rightarrow> ('l, 's) Service \<Rightarrow> ('l, 's) Service" where
  "tickSync D s =
     (case readClock D s of
        (now, s1) \<Rightarrow> s1\<lparr>svDel := (svDel s1)\<lparr>dBuf := EvictExpired (svOS D s1) now (svBuf s1)\<rparr>\<rparr>)"

definition tickFlush :: "('l, 's) Deps \<Rightarrow> ('l, 's) Service \<Rightarrow> ('l, 's) Service" where
  "tickFlush D s = snd (flushNow D False s)"

text \<open>
  \<^verbatim>\<open>drain\<close>: emit what is in assembly, deliver what the deadline allows, flush, mark the file clean. The
  errors are logged only.
\<close>

definition drain :: "('l, 's) Deps \<Rightarrow> nat \<Rightarrow> bool \<Rightarrow> ('l, 's) Service \<Rightarrow> ('l, 's) Service option" where
  "drain D fuel ok s =
     (case Flush StatusTimedOut (svAsm s) of
        None \<Rightarrow> None
      | Some (eps, a) \<Rightarrow>
          (case drainBuffer D fuel (onEpisodes D eps (s\<lparr>svAsm := a\<rparr>)) of
             None \<Rightarrow> None
           | Some (_, s2) \<Rightarrow> Some (recordInFlight ok True (snd (flushNow D True s2)))))"

text \<open>
  \<^verbatim>\<open>Shutdown\<close>, after \<^verbatim>\<open>Run\<close> has ended in either way: the flush of the sink and the close of the buffer,
  with the errors of both. What is still in assembly is not looked at.
\<close>

definition ShutdownService :: "('l, 's) Deps \<Rightarrow> ('l, 's) Service \<Rightarrow> (goError option \<times> bufError option) \<times> ('l, 's) Service" where
  "ShutdownService D s =
     (case flushNow D True s of
        (e1, s1) \<Rightarrow>
          (case Close (svOS D s1) (svBuf s1) of
             (e2, b) \<Rightarrow> ((e1, e2), s1\<lparr>svDel := (svDel s1)\<lparr>dBuf := b\<rparr>\<rparr>)))"

definition ShutdownTimeout :: "('l, 's) Service \<Rightarrow> duration" where
  "ShutdownTimeout s = (if cfShutdownTimeout (svCfg s) > 0 then cfShutdownTimeout (svCfg s) else 30 * 10 ^ 9)"

section \<open>Outcomes\<close>

definition outcomeRecord :: "int \<Rightarrow> string \<Rightarrow> string \<Rightarrow> WireOutcome \<Rightarrow> Outcome" where
  "outcomeRecord now src k w =
     \<lparr>ocEntityKey = k, ocKind = woKind w, ocValue = woValue w, ocOccurredAt = woOccurredAt w,
      ocObservedAt = (if woObservedAt w = 0 then now else woObservedAt w),
      ocSource = (if woSource w = [] then src else woSource w), ocEntityName = Some (woEntityName w),
      ocOutcomeID = (if woOutcomeID w \<noteq> [] then Some (woOutcomeID w) else None)\<rparr>"

fun outcomeRecords :: "Redactor \<Rightarrow> int \<Rightarrow> string \<Rightarrow> nat \<Rightarrow> WireOutcome list \<Rightarrow> ingestError + Outcome list" where
  "outcomeRecords r now src i [] = Inr []"
| "outcomeRecords r now src i (w # ws) =
     (case ValidateOutcome w of
        Some e \<Rightarrow> Inl (BadOutcome i e)
      | None \<Rightarrow>
          (case TransformKey r (woEntityKey w) of
             Inl e \<Rightarrow> Inl (BadOutcomeKey i e)
           | Inr k \<Rightarrow>
               (case outcomeRecords r now src (Suc i) ws of
                  Inl e \<Rightarrow> Inl e
                | Inr os \<Rightarrow> Inr (outcomeRecord now src k w # os))))"

definition IngestOutcomes ::
  "('l, 's) Deps \<Rightarrow> string \<Rightarrow> WireOutcome list \<Rightarrow> ('l, 's) Service \<Rightarrow> (ingestError + nat) \<times> ('l, 's) Service"
where
  "IngestOutcomes D src ws s =
     (case readClock D s of
        (now, s1) \<Rightarrow>
          (case quotaAllow (dpLimits D) now src (plQuotas (svPol s1)) of
             (ok, q) \<Rightarrow>
               let s2 = s1\<lparr>svPol := (svPol s1)\<lparr>plQuotas := q\<rparr>\<rparr>
               in if \<not> ok then (Inl QuotaExceeded, countMetric [''shed'', src, ''quota''] 1 s2)
                  else if UnderBackpressure (svBuf s2) then (Inl Backpressure, countMetric [''shed'', src, ''backpressure''] 1 s2)
                  else
                    (case readClock D s2 of
                       (now', s3) \<Rightarrow>
                         (case outcomeRecords (fst (plRedactor (svPol s3))) (unixMicro now') src 0 ws of
                            Inl e \<Rightarrow> (Inl e, s3)
                          | Inr os \<Rightarrow>
                              (case dpEncode D \<lparr>brEpisode = None, brSteps = [], brOutcomes = os\<rparr> of
                                 None \<Rightarrow> (Inl EncodeOutcomes, s3)
                               | Some payload \<Rightarrow>
                                   (case appendPayload D payload s3 of
                                      (False, s4) \<Rightarrow> (Inl Backpressure, s4)
                                    | (True, s4) \<Rightarrow>
                                        (Inr (length os), countMetric [''outcomes_ingested'', src] (int (length os)) s4)))))))"

text \<open>The chunks of \<^verbatim>\<open>LoadOutcomes\<close>: how many were taken, and the error that ended the loop.\<close>

function loadChunks ::
  "('l, 's) Deps \<Rightarrow> nat \<Rightarrow> string \<Rightarrow> WireOutcome list \<Rightarrow> nat \<Rightarrow> ('l, 's) Service
     \<Rightarrow> nat \<times> ingestError option \<times> ('l, 's) Service"
where
  "loadChunks D chunk src ws tot s =
     (if ws = [] \<or> chunk = 0 then (tot, None, s)
      else
        case IngestOutcomes D src (take chunk ws) s of
          (Inl e, s1) \<Rightarrow> (tot, Some e, s1)
        | (Inr n, s1) \<Rightarrow> loadChunks D chunk src (drop chunk ws) (tot + n) s1)"
  by pat_completeness auto
termination
  by (relation "measure (\<lambda>(D, chunk, src, ws, tot, s). length ws)") auto

declare loadChunks.simps [simp del]

datatype loadError = LoadIngest ingestError | LoadSync bufError | LoadDeliver deliveryError | LoadFlush goError

definition LoadOutcomes ::
  "('l, 's) Deps \<Rightarrow> nat \<Rightarrow> string \<Rightarrow> WireOutcome list \<Rightarrow> ('l, 's) Service
     \<Rightarrow> (nat \<times> loadError option \<times> ('l, 's) Service) option"
where
  "LoadOutcomes D fuel src ws s =
     (case loadChunks D 1000 src ws 0 s of
        (tot, Some e, s1) \<Rightarrow> Some (tot, Some (LoadIngest e), s1)
      | (tot, None, s1) \<Rightarrow>
          (case Sync (svOS D s1) (svBuf s1) of
             Some e \<Rightarrow> Some (tot, Some (LoadSync e), s1)
           | None \<Rightarrow>
               (case drainBuffer D fuel s1 of
                  None \<Rightarrow> None
                | Some (Some e, s2) \<Rightarrow> Some (tot, Some (LoadDeliver e), s2)
                | Some (None, s2) \<Rightarrow>
                    (case flushNow D True s2 of (er, s3) \<Rightarrow> Some (tot, map_option LoadFlush er, s3)))))"

section \<open>Reload\<close>

definition Reload ::
  "('l, 's) Deps \<Rightarrow> Config \<Rightarrow> ('l, 's) Service \<Rightarrow> (policyError + string list) \<times> ('l, 's) Service"
where
  "Reload D next s =
     (case buildPolicy (dpPolicy D) (dpLimits D) (dpSys D) next of
        Inl e \<Rightarrow> (Inl e, countMetric [''config_reloads'', ''error''] 1 s)
      | Inr pol \<Rightarrow>
          (Inr (structuralChanges (svCfg s) next),
           countMetric [''config_reloads'', ''ok''] 1 (s\<lparr>svPol := pol, svCfg := mergedConfig (svCfg s) next\<rparr>)))"

section \<open>Construction\<close>

definition lakeOptionsOf :: "SinkConfig \<Rightarrow> LakeOptions" where
  "lakeOptionsOf k =
     \<lparr>loName = skName k, loPartitionBy = skPartitionBy k, loBlobThreshold = skBlobThresholdBytes k,
      loMaxPayload = skMaxPayloadBytes k, loTargetFile = skTargetFileBytes k, loRollInterval = skRollInterval k,
      loCompression = skCompression k\<rparr>"

definition bufOptionsOf :: "BufferConfig \<Rightarrow> BufOptions" where
  "bufOptionsOf b =
     \<lparr>MaxBytes = bcMaxBytes b, MaxAge = bcMaxAge b, SegmentBytes = bcSegmentBytes b, BackpressureAt = bcBackpressureAt b\<rparr>"

definition deliveryOptionsOf :: "BufferConfig \<Rightarrow> DeliveryOptions" where
  "deliveryOptionsOf b =
     \<lparr>MaxAttempts = bcMaxAttempts b, BaseDelay = bcRetryBaseDelay b, MaxDelay = bcRetryMaxDelay b,
      DeadLetterDir = (if bcDeadLetterDir b = [] then pathJoin [bcDir b, ''dead-letter''] else bcDeadLetterDir b),
      BatchSize = bcBatchSize b\<rparr>"

definition assembleOptionsOf :: "Config \<Rightarrow> (nat \<Rightarrow> time) \<Rightarrow> (nat \<Rightarrow> string) \<Rightarrow> Options" where
  "assembleOptionsOf c clock ids =
     \<lparr>Tenant = cfTenant c, Window = acWindow (cfAssembly c), MaxInFlight = acMaxInFlight (cfAssembly c),
      SettleAfterTerminal = acSettleAfterTerminal (cfAssembly c), PatchMemory = acPatchMemory (cfAssembly c),
      Now = clock, NewID = ids\<rparr>"

definition quarantineDirOf :: "Config \<Rightarrow> string" where
  "quarantineDirOf c =
     pathJoin [if bcDir (cfBuffer c) = [] then skDir (hd (cfSinks c)) else bcDir (cfBuffer c), ''quarantine'']"

datatype newError = NewStore | NewBuffer bufError | NewPolicy policyError

text \<open>
  \<^verbatim>\<open>New\<close>, without the sources: the store it opened, the schema texts, the cipher library, whether the
  buffer's lock is free, the buffer directory, and the readings that the assembler gets.
\<close>

definition NewService ::
  "('l, 's) Deps \<Rightarrow> (string \<Rightarrow> string) \<Rightarrow> (byte list \<Rightarrow> AEAD) \<Rightarrow> bool \<Rightarrow> Disk \<Rightarrow> 's \<Rightarrow> Config \<Rightarrow> newError + ('l, 's) Service"
where
  "NewService D schemaText aesGCM lockFree dk st0 cfg =
     (case NewLakeSink schemaText (dpStore D) (lakeOptionsOf (hd (cfSinks cfg))) st0 of
        (None, _) \<Rightarrow> Inl NewStore
      | (Some sk, st1) \<Rightarrow>
          (case OpenBuffer (bcDir (cfBuffer cfg)) lockFree aesGCM (bufOptionsOf (cfBuffer cfg))
                  (if bcKeyEnv (cfBuffer cfg) = [] then [] else getenv (dpSys D) (bcKeyEnv (cfBuffer cfg))) dk of
             Inl e \<Rightarrow> Inl (NewBuffer e)
           | Inr (b, _) \<Rightarrow>
               (case buildPolicy (dpPolicy D) (dpLimits D) (dpSys D) cfg of
                  Inl e \<Rightarrow> Inl (NewPolicy e)
                | Inr pol \<Rightarrow>
                    Inr \<lparr>svCfg = cfg, svPol = pol,
                         svAsm = New (assembleOptionsOf cfg (dpClock D) (dpNewID D)),
                         svDel = NewDeliverer b (deliveryOptionsOf (cfBuffer cfg)) \<lparr>lkSink = sk, lkStore = st1, lkTick = 0\<rparr>,
                         svQuarantineDir = quarantineDirOf cfg, svEmitted = 0, svQuarantined = 0, svSampledOut = 0,
                         svDryRun = False,
                         svLast = \<lparr>ltFiles = 0, ltBlobsDeduped = 0, ltBytes = (\<lambda>_. 0), ltRejected = (\<lambda>_. 0),
                           ltRedactErrors = (\<lambda>_. 0), ltDelivered = 0, ltRetries = 0, ltDeadLettered = 0\<rparr>,
                         svMetrics = (\<lambda>_. 0), svMarker = None, svReads = 0, svTrace = []\<rparr>)))"

end
