(* ===== verification/Wire_Props.thy ===== *)
theory Wire_Props
  imports Wire Assembly_Inv
begin

text \<open>
  What the decoders promise: every value of an enum is one of the published ones, an episode posted
  with increasing step times is assembled in its own order, and where that fails.
\<close>

section \<open>Enums\<close>

lemma normalise_value: "normalise e v = Inr c \<Longrightarrow> c = [] \<or> c \<in> set (enValues e)"
  by (auto simp: normalise_def Let_def split: if_splits)

lemma NormaliseTrainable_value:
  assumes "NormaliseTrainable v = Inr c"
  shows "c \<in> set (enValues trainableSet)"
proof -
  obtain x where x: "normalise trainableSet v = Inr x" "c = (if x = [] then TrainableUnknown else x)"
    using assms by (auto simp: NormaliseTrainable_def split: sum.splits)
  then show ?thesis using normalise_value [OF x(1)] by (auto simp: trainableSet_def)
qed

section \<open>Typed steps\<close>

definition spanTyped :: "TokenSpan \<Rightarrow> bool" where
  "spanTyped ts \<longleftrightarrow> tsStart ts \<le> tsEnd ts \<and> tsTrainable ts \<in> set (enValues trainableSet)"

definition stepTyped :: "Step \<Rightarrow> bool" where
  "stepTyped s \<longleftrightarrow> stKind s \<in> set (enValues kindSet) \<and> stTrainable s \<in> set (enValues trainableSet) \<and>
     list_all spanTyped (stTokenSpans s)"

lemma toTokenSpans_typed: "toTokenSpans tss = Inr out \<Longrightarrow> list_all spanTyped out"
  by (induction tss arbitrary: out) (auto simp: spanTyped_def NormaliseTrainable_value split: sum.splits if_splits)

lemma toRecord_typed:
  assumes "toRecord i w = Inr s"
  shows "stepTyped s"
proof -
  obtain k tr ts where k: "NormaliseKind (wsKind w) = Inr k" and tr: "NormaliseTrainable (wsTrainable w) = Inr tr"
    and ts: "toTokenSpans (wsTokenSpans w) = Inr ts"
    and s: "stKind s = (if k = [] then KindOther else k)" "stTrainable s = tr" "stTokenSpans s = ts"
    using assms by (auto simp: toRecord_def Let_def split: sum.splits)
  have "stKind s \<in> set (enValues kindSet)"
    using normalise_value [of kindSet "wsKind w" k] k s(1) by (auto simp: NormaliseKind_def kindSet_def)
  then show ?thesis
    using NormaliseTrainable_value [OF tr] toTokenSpans_typed [OF ts] s(2,3) by (simp add: stepTyped_def)
qed

lemma toRecord_fields:
  assumes "toRecord i w = Inr s"
  shows "stStepIdx s = (case wsStepIdx w of None \<Rightarrow> wrap32 (int i) | Some j \<Rightarrow> j)" and "stStartedAt s = wsStartedAt w"
  using assms by (auto simp: toRecord_def Let_def split: sum.splits option.splits)

lemma stepSpanID_nonempty [simp]: "stepSpanID e i \<noteq> []"
  by (simp add: stepSpanID_def)

lemma stepEnvelopes_nth:
  assumes "stepEnvelopes now src e tml i ws = Inr envs"
  shows "length envs = length ws \<and>
    (\<forall>j < length ws. \<exists>s. toRecord (i + j) (ws ! j) = Inr s \<and> envs ! j = stepEnvelope now src e tml (i + j) (ws ! j) s)"
  using assms
proof (induction ws arbitrary: i envs)
  case (Cons w ws)
  obtain s out where s: "toRecord i w = Inr s" and out: "stepEnvelopes now src e tml (Suc i) ws = Inr out"
    and envs: "envs = stepEnvelope now src e tml i w s # out"
    using Cons.prems by (auto split: sum.splits)
  from Cons.IH [OF out] show ?case using s envs by (auto simp: nth_Cons split: nat.splits)
qed simp

lemma stepEnvelope_fields [simp]:
  "envSessionKey (stepEnvelope now src e tml i ws s) = weEpisodeID e"
  "envEpisodeID (stepEnvelope now src e tml i ws s) = weEpisodeID e"
  "envSource (stepEnvelope now src e tml i ws s) = src"
  "envTerminal (stepEnvelope now src e tml i ws s) = (Suc i = length (weSteps e) \<and> tml)"
  "envError (stepEnvelope now src e tml i ws s) = (if Suc i = length (weSteps e) then weError e else None)"
  "envSpanID (stepEnvelope now src e tml i ws s) = stepSpanID (weEpisodeID e) (stStepIdx s)"
  "stepTyped (envStep (stepEnvelope now src e tml i ws s)) = stepTyped s"
  by (simp_all add: stepEnvelope_def Let_def stepTyped_def)

lemma stepEnvelope_started:
  "stStartedAt (envStep (stepEnvelope now src e tml i ws s))
     = (if stStartedAt s \<noteq> 0 then stStartedAt s else if weStartedAt e \<noteq> 0 then weStartedAt e else now i)"
  by (simp add: stepEnvelope_def Let_def)

lemma ToEnvelopes_ok:
  assumes "ToEnvelopes now src e = Inr envs"
  obtains tml where "stepEnvelopes now src e tml 0 (weSteps e) = Inr envs" and "weEpisodeID e \<noteq> []" and "weSteps e \<noteq> []"
    and "tml \<longleftrightarrow> NormaliseStatus (weStatus e) \<in> {Inr [], Inr StatusComplete}"
  using assms by (auto simp: ToEnvelopes_def split: if_splits sum.splits)

text \<open>
  C22. A decoded episode is well-typed: one envelope per step, in order, all of the same named session;
  every kind and every trainable mark is a value of the published vocabulary, every token span ends
  at or after its start, every step has a time, and only the last envelope can close the episode or
  carry its error.
\<close>

theorem wire_envelopes_typed:
  assumes "ToEnvelopes now src e = Inr envs" and "\<forall>i. now i \<noteq> 0"
  shows "length envs = length (weSteps e) \<and>
    (\<forall>j < length envs. let env = envs ! j in
       envSessionKey env = weEpisodeID e \<and> envSessionKey env \<noteq> [] \<and> envSpanID env \<noteq> [] \<and>
       stepTyped (envStep env) \<and> stStartedAt (envStep env) \<noteq> 0 \<and>
       (Suc j < length envs \<longrightarrow> \<not> envTerminal env \<and> envError env = None))"
proof -
  obtain tml where E: "stepEnvelopes now src e tml 0 (weSteps e) = Inr envs" "weEpisodeID e \<noteq> []"
    using assms(1) by (rule ToEnvelopes_ok)
  note N = stepEnvelopes_nth [OF E(1)]
  show ?thesis
  proof (intro conjI allI impI)
    show "length envs = length (weSteps e)" using N by simp
    fix j assume j: "j < length envs"
    then obtain s where s: "toRecord j (weSteps e ! j) = Inr s" "envs ! j = stepEnvelope now src e tml j (weSteps e ! j) s"
      using N by auto
    show "let env = envs ! j in
       envSessionKey env = weEpisodeID e \<and> envSessionKey env \<noteq> [] \<and> envSpanID env \<noteq> [] \<and>
       stepTyped (envStep env) \<and> stStartedAt (envStep env) \<noteq> 0 \<and>
       (Suc j < length envs \<longrightarrow> \<not> envTerminal env \<and> envError env = None)"
      using s(2) toRecord_typed [OF s(1)] E(2) assms(2) N by (simp add: stepEnvelope_started)
  qed
qed

definition exPosted :: "nat \<Rightarrow> int \<Rightarrow> WireEpisode" where
  "exPosted n gap =
     \<lparr>weEpisodeID = ''ep'', weTenant = [], weGroupID = [], weTaskType = [], weSource = [], weInstrumentation = [],
      weInstrumentationVersion = [], weStatus = ''STATUS_COMPLETE'', weStartedAt = 7, weEndedAt = None, weError = None, weRaw = [],
      weSteps = map (\<lambda>i. zeroWireStep\<lparr>wsKind := ''KIND_TOOL'', wsContent := nat_digits i, wsStartedAt := gap * (int i + 1)\<rparr>) [0..<n]\<rparr>"

definition exEnvelopes :: "nat \<Rightarrow> int \<Rightarrow> Envelope list" where
  "exEnvelopes n gap = (case ToEnvelopes (\<lambda>_. 1) ''native'' (exPosted n gap) of Inr envs \<Rightarrow> envs | Inl _ \<Rightarrow> [])"

theorem wire_envelopes_typed_witness:
  "\<exists>envs. ToEnvelopes (\<lambda>_. 1) ''native'' (exPosted 2 0) = Inr envs \<and> length envs = 2 \<and>
     stepTyped (envStep (envs ! 0)) \<and> \<not> envTerminal (envs ! 0)"
proof -
  have "length (exEnvelopes 2 0) = 2" by code_simp
  then obtain envs where e: "ToEnvelopes (\<lambda>_. 1) ''native'' (exPosted 2 0) = Inr envs" "length envs = 2"
    by (auto simp: exEnvelopes_def split: sum.splits)
  have "let env = envs ! 0 in stepTyped (envStep env) \<and> (Suc 0 < length envs \<longrightarrow> \<not> envTerminal env)"
    using wire_envelopes_typed [OF e(1)] e(2) by (simp add: Let_def) fastforce
  then show ?thesis using e by (simp add: Let_def)
qed

section \<open>The order of the steps\<close>

lemma format_int_inj: "format_int x = format_int y \<Longrightarrow> x = y"
proof -
  assume eq: "format_int x = format_int y"
  have nd: "hd (nat_digits n) \<noteq> CHR ''-''" "digits_val (nat_digits n) = n" for n
    using nat_digits_val [of n] by (cases "nat_digits n"; auto simp: is_digit_def less_eq_char_def)+
  consider "x < 0" "y < 0" | "0 \<le> x" "0 \<le> y" | "x < 0" "0 \<le> y" | "0 \<le> x" "y < 0" by linarith
  then show "x = y"
  proof cases
    case 1
    then have "nat_digits (nat (- x)) = nat_digits (nat (- y))" using eq by (simp add: format_int_def)
    then have "nat (- x) = nat (- y)" by (metis nd(2))
    then show ?thesis using 1 by simp
  next
    case 2
    then have "nat_digits (nat x) = nat_digits (nat y)" using eq by (simp add: format_int_def)
    then have "nat x = nat y" by (metis nd(2))
    then show ?thesis using 2 by simp
  next
    case 3
    then have "CHR ''-'' # nat_digits (nat (- x)) = nat_digits (nat y)" using eq by (simp add: format_int_def)
    then show ?thesis using nd(1) [of "nat y"] by (metis list.sel(1))
  next
    case 4
    then have "nat_digits (nat x) = CHR ''-'' # nat_digits (nat (- y))" using eq by (simp add: format_int_def)
    then show ?thesis using nd(1) [of "nat x"] by (metis list.sel(1))
  qed
qed

lemma stepSpanID_inj: "stepSpanID e i = stepSpanID e j \<longleftrightarrow> i = j"
  using format_int_inj by (auto simp: stepSpanID_def)

lemma sort_key_sorted: "sorted (map f xs) \<Longrightarrow> sort_key f xs = xs"
  by (induction xs) (auto simp: insort_is_Cons)

lemma absorb_fresh:
  assumes "envSpanID env \<noteq> []" and "envSpanID env \<notin> fst ` set (spans f)"
  shows "spans (fst (absorb env now f st)) = spans f @ [(envSpanID env, env)]"
  using assms by (simp add: absorb_def Let_def putSpan_def update_new_append map_of_eq_None_iff [THEN iffD2])

lemma absorbAll_fresh:
  assumes "distinct (map (envSpanID \<circ> fst) ds)" and "\<forall>d \<in> set ds. envSpanID (fst d) \<noteq> []"
    and "\<forall>d \<in> set ds. envSpanID (fst d) \<notin> fst ` set (spans f)"
  shows "spans (fst (absorbAll ds f st)) = spans f @ map (\<lambda>d. (envSpanID (fst d), fst d)) ds"
  using assms
proof (induction ds arbitrary: f st)
  case (Cons d ds)
  obtain env now where d: "d = (env, now)" by (cases d)
  obtain f' st' where a: "absorb env now f st = (f', st')" by (cases "absorb env now f st")
  have f': "spans f' = spans f @ [(envSpanID env, env)]" using absorb_fresh [of env f now st] Cons.prems d a by simp
  have "spans (fst (absorbAll ds f' st')) = spans f' @ map (\<lambda>d. (envSpanID (fst d), fst d)) ds"
    using Cons.prems d f' by (intro Cons.IH) (auto simp: image_iff)
  then show ?case using d a f' by simp
qed simp

text \<open>What the assembler rewrites in a step: its episode, its index and its resolved parent.\<close>

definition stepContent :: "Step \<Rightarrow> Step" where
  "stepContent s = s\<lparr>stEpisodeID := [], stStepIdx := 0, stParentIdx := None\<rparr>"

lemma stepContent_linkStep: "stepContent (linkStep f idx (i, sid)) = stepContent (envStep (spanAt f sid))"
  by (simp add: linkStep_def Let_def stepContent_def split: option.splits)

lemma orderedSteps_in_order:
  assumes "spans f = map (\<lambda>env. (envSpanID env, env)) envs" and "distinct (map envSpanID envs)"
    and "sorted_wrt (<) (map (\<lambda>env. stStartedAt (envStep env)) envs)"
  shows "map stepContent (orderedSteps f) = map (stepContent \<circ> envStep) envs"
proof -
  have at: "spanAt f (envSpanID env) = env" if "env \<in> set envs" for env
  proof -
    have "map_of (spans f) (envSpanID env) = Some env"
      using assms(1,2) that by (intro map_of_is_SomeI) (auto simp: comp_def)
    then show ?thesis by (simp add: spanAt_def goget_def)
  qed
  let ?k = "\<lambda>sid. (stStartedAt (envStep (spanAt f sid)), sid)"
  have "sorted_wrt (\<lambda>a b. stStartedAt (envStep a) < stStartedAt (envStep b)) envs"
    using assms(3) by (simp add: sorted_wrt_map)
  then have "sorted_wrt (\<lambda>a b. ?k (envSpanID a) \<le> ?k (envSpanID b)) envs"
    by (rule sorted_wrt_mono_rel [rotated]) (simp add: at)
  then have "sorted (map (\<lambda>env. ?k (envSpanID env)) envs)" by (simp only: sorted_map)
  then have "sort_key ?k (map envSpanID envs) = map envSpanID envs" by (intro sort_key_sorted) (simp add: comp_def)
  moreover have "map fst (spans f) = map envSpanID envs" using assms(1) by simp
  ultimately have "orderedIDs f = map envSpanID envs" by (simp only: orderedIDs_def)
  then have "map stepContent (orderedSteps f) = map (\<lambda>env. stepContent (envStep (spanAt f (envSpanID env)))) envs"
    by (intro nth_equalityI) (simp_all add: orderedSteps_def Let_def nth_enumerate_eq stepContent_linkStep)
  then show ?thesis using at by simp
qed

lemma posted_fresh:
  assumes "ToEnvelopes now src e = Inr envs" and "\<forall>w \<in> set (weSteps e). wsStepIdx w = None" and "length (weSteps e) < 2 ^ 31"
  shows "distinct (map envSpanID envs)"
proof -
  obtain tml where E: "stepEnvelopes now src e tml 0 (weSteps e) = Inr envs" using assms(1) by (rule ToEnvelopes_ok)
  note N = stepEnvelopes_nth [OF E]
  have "envSpanID (envs ! j) = stepSpanID (weEpisodeID e) (int j)" if j: "j < length envs" for j
  proof -
    obtain s where s: "toRecord j (weSteps e ! j) = Inr s" "envs ! j = stepEnvelope now src e tml j (weSteps e ! j) s"
      using N j by auto
    then show ?thesis using toRecord_fields(1) [OF s(1)] assms(2,3) N j by simp
  qed
  then show ?thesis by (auto simp: distinct_conv_nth stepSpanID_inj)
qed

text \<open>
  C14. A posted episode keeps its order: when a producer posts an episode whose step times strictly
  increase and leaves the indices out, assembling its envelopes gives the posted steps, each once,
  in the posted order and with their content unchanged, whatever order they reach the assembler in
  and however often.
\<close>

theorem posted_episode_assembled:
  assumes "ToEnvelopes now src e = Inr envs" and "\<forall>w \<in> set (weSteps e). wsStepIdx w = None" and "length (weSteps e) < 2 ^ 31"
    and "sorted_wrt (<) (map (\<lambda>env. stStartedAt (envStep env)) envs)"
    and "spans f = []" and "set (map fst ds) = set envs"
  shows "map stepContent (orderedSteps (fst (absorbAll ds f st))) = map (stepContent \<circ> envStep) envs"
proof -
  let ?ds = "map (\<lambda>env. (env, 0 :: time)) envs"
  have d: "distinct (map envSpanID envs)" by (rule posted_fresh [OF assms(1-3)])
  have ne: "envSpanID env \<noteq> []" if "env \<in> set envs" for env
  proof -
    obtain tml where E: "stepEnvelopes now src e tml 0 (weSteps e) = Inr envs" using assms(1) by (rule ToEnvelopes_ok)
    from stepEnvelopes_nth [OF E] that show ?thesis by (auto simp: in_set_conv_nth)
  qed
  have "sameCopies (set (map fst ds))"
    unfolding assms(6) using d ne by (auto simp: sameCopies_def spanKey_def distinct_map inj_on_def)
  moreover have "set (map fst ds) = set (map fst ?ds)" using assms(6) by (simp add: image_image)
  ultimately have "orderedSteps (fst (absorbAll ds f st)) = orderedSteps (fst (absorbAll ?ds f st))"
    using absorbAll_steps_cong [OF _ _ assms(5)] by blast
  moreover have "spans (fst (absorbAll ?ds f st)) = map (\<lambda>env. (envSpanID env, env)) envs"
    using absorbAll_fresh [of ?ds f st] d ne assms(5) by (simp add: comp_def)
  ultimately show ?thesis using orderedSteps_in_order [OF _ d assms(4)] by simp
qed

theorem posted_episode_assembled_witness:
  "map stepContent (orderedSteps (fst (absorbAll (map (\<lambda>env. (env, 5)) (rev (exEnvelopes 3 1) @ take 2 (exEnvelopes 3 1))) exInFlight zeroStats)))
     = map (stepContent \<circ> envStep) (exEnvelopes 3 1) \<and> length (exEnvelopes 3 1) = 3"
proof -
  have "length (exEnvelopes 3 1) = 3" and p: "sorted_wrt (<) (map (\<lambda>env. stStartedAt (envStep env)) (exEnvelopes 3 1))" by code_simp+
  moreover from this(1) have e: "ToEnvelopes (\<lambda>_. 1) ''native'' (exPosted 3 1) = Inr (exEnvelopes 3 1)"
    by (auto simp: exEnvelopes_def split: sum.splits)
  moreover have "set (rev (exEnvelopes 3 1) @ take 2 (exEnvelopes 3 1)) = set (exEnvelopes 3 1)" by (auto dest: in_set_takeD)
  ultimately show ?thesis
    using posted_episode_assembled [OF e _ _ p, of exInFlight "map (\<lambda>env. (env, 5)) (rev (exEnvelopes 3 1) @ take 2 (exEnvelopes 3 1))" zeroStats]
    by (auto simp: exPosted_def zeroWireStep_def exInFlight_def image_image)
qed

text \<open>
  Steps without times are reordered. A producer that posts eleven or more steps and times only the
  episode gets every step the episode's time, and the assembler then orders the steps by the text
  of their span ids, where \<open>ep#10\<close> comes before \<open>ep#2\<close>: the assembled episode has the eleventh step
  in third place, and the indices it stores are those of the wrong order.
\<close>

theorem untimed_steps_reordered:
  "map (\<lambda>s. (stStepIdx s, stContentInline s)) (orderedSteps (fst (absorbAll (map (\<lambda>env. (env, 5)) (exEnvelopes 11 0)) exInFlight zeroStats)))
     = [(0, Some ''0''), (1, Some ''1''), (2, Some ''10''), (3, Some ''2''), (4, Some ''3''), (5, Some ''4''), (6, Some ''5''),
        (7, Some ''6''), (8, Some ''7''), (9, Some ''8''), (10, Some ''9'')]"
  by code_simp

section \<open>Protobuf episodes\<close>

lemma absorbAll_one_key:
  assumes "\<forall>d \<in> set ds. envSpanID (fst d) = k" and "k \<noteq> []" and "spans f = [] \<or> (\<exists>e. spans f = [(k, e)])"
  shows "spans (fst (absorbAll ds f st)) = [] \<or> (\<exists>e. spans (fst (absorbAll ds f st)) = [(k, e)])"
  using assms
proof (induction ds arbitrary: f st)
  case (Cons d ds)
  obtain env now where d: "d = (env, now)" by (cases d)
  obtain f' st' where a: "absorb env now f st = (f', st')" by (cases "absorb env now f st")
  have "spans f' = putSpan k env (spans f)" using a Cons.prems d by (auto simp: absorb_def Let_def)
  then have "\<exists>e. spans f' = [(k, e)]" using Cons.prems(3) by (auto simp: putSpan_def)
  then show ?case using Cons d a by simp
qed simp

text \<open>
  A protobuf episode whose producer leaves the step index unset keeps one step. The decoder takes
  the zero that an unset field reads as for an index, so that all steps get the span id of step
  zero and the assembler takes them for redeliveries of one span; the same episode posted as JSON
  keeps every step (its indices default to the position).
\<close>

theorem proto_unindexed_steps_collapse:
  assumes "\<forall>ps \<in> set steps. psStepIdx ps = 0" and "ToEnvelopes now src (fromProto pe steps) = Inr envs" and "spans f = []"
  shows "length envs = length steps \<and>
    length (orderedSteps (fst (absorbAll (map (\<lambda>env. (env, t)) envs) f st))) \<le> 1"
proof -
  let ?e = "fromProto pe steps"
  have w: "weSteps ?e = map stepFromProto steps" and i: "weEpisodeID ?e = peEpisodeId pe" by (simp_all add: fromProto_def)
  obtain tml where E: "stepEnvelopes now src ?e tml 0 (weSteps ?e) = Inr envs" using assms(2) by (rule ToEnvelopes_ok)
  note N = stepEnvelopes_nth [OF E]
  have sid: "envSpanID env = stepSpanID (peEpisodeId pe) 0" if env: "env \<in> set envs" for env
  proof -
    obtain j where j: "j < length envs" "env = envs ! j" using env by (auto simp: in_set_conv_nth)
    obtain s where s: "toRecord j (weSteps ?e ! j) = Inr s" "env = stepEnvelope now src ?e tml j (weSteps ?e ! j) s" using N j by auto
    have "wsStepIdx (weSteps ?e ! j) = Some 0" using assms(1) j N w by (simp add: stepFromProto_def)
    then show ?thesis using s(2) toRecord_fields(1) [OF s(1)] i by simp
  qed
  have "spans (fst (absorbAll (map (\<lambda>env. (env, t)) envs) f st)) = [] \<or>
      (\<exists>e. spans (fst (absorbAll (map (\<lambda>env. (env, t)) envs) f st)) = [(stepSpanID (peEpisodeId pe) 0, e)])"
    using assms(3) sid by (intro absorbAll_one_key) auto
  then show ?thesis using N w by (auto simp: orderedSteps_def orderedIDs_def Let_def)
qed

definition exProto :: ProtoEpisode where
  "exProto = \<lparr>peEpisodeId = ''ep'', peTenant = [], peGroupId = None, peTaskType = None, peSource = [], peInstrumentation = None,
     peInstrumentationVersion = None, peStatus = 1, peStartedAt = 7, peEndedAt = None, peError = None, peRaw = []\<rparr>"

definition exProtoStep :: "string \<Rightarrow> ProtoStep" where
  "exProtoStep c = \<lparr>psStepIdx = 0, psParentIdx = None, psAttempt = 0, psKind = 2, psRole = None, psContentInline = Some c,
     psTruncated = False, psToolName = None, psToolVersion = None, psModel = None, psProvider = None, psParams = None,
     psTokenCounts = None, psTokenSpans = [], psTrainable = 0, psFinishReason = None, psStartedAt = 0, psLatencyMs = None,
     psError = None, psRaw = [], psCostUsd = None\<rparr>"

theorem proto_unindexed_steps_collapse_witness:
  "\<exists>envs. ToEnvelopes (\<lambda>_. 1) ''native'' (fromProto exProto [exProtoStep ''a'', exProtoStep ''b'']) = Inr envs \<and> length envs = 2 \<and>
     length (orderedSteps (fst (absorbAll (map (\<lambda>env. (env, 5)) envs) exInFlight zeroStats))) \<le> 1"
proof -
  let ?r = "ToEnvelopes (\<lambda>_. 1) ''native'' (fromProto exProto [exProtoStep ''a'', exProtoStep ''b''])"
  have "\<not> isl ?r" by code_simp
  then obtain envs where "?r = Inr envs" by (cases ?r) auto
  from proto_unindexed_steps_collapse [OF _ this, of exInFlight 5 zeroStats] this show ?thesis
    by (simp add: exProtoStep_def exInFlight_def)
qed

section \<open>Numbers and times\<close>

lemma dropWhile_none: "\<forall>c \<in> set s. \<not> P c \<Longrightarrow> dropWhile P s = s"
  by (cases s) simp_all

lemma trim_space_id: "\<forall>c \<in> set s. \<not> is_space c \<Longrightarrow> trim_space s = s"
  by (simp add: trim_space_def dropWhile_none)

lemma trim_char_id:
  assumes "c \<notin> set s"
  shows "trim_char c s = s"
proof -
  have "dropWhile (\<lambda>x. x = c) s = s" and "dropWhile (\<lambda>x. x = c) (rev s) = rev s"
    using assms by (auto intro!: dropWhile_none)
  then show ?thesis by (simp add: trim_char_def)
qed

lemma trim_char_quoted:
  assumes "c \<notin> set s" and "s \<noteq> []"
  shows "trim_char c ([c] @ s @ [c]) = s"
proof -
  have "dropWhile (\<lambda>x. x = c) (s @ [c]) = s @ [c]" using assms by (cases s) auto
  moreover have "dropWhile (\<lambda>x. x = c) (rev s) = rev s" using assms by (intro dropWhile_none) auto
  ultimately show ?thesis by (simp add: trim_char_def)
qed

lemma format_int_chars: "c \<in> set (format_int x) \<Longrightarrow> is_digit c \<or> c = CHR ''-''"
  using nat_digits_val by (auto simp: format_int_def list_all_iff split: if_splits)

lemma ParseInt_format:
  assumes "- (2 ^ 63) \<le> x" and "x < 2 ^ 63"
  shows "ParseInt (format_int x) = Some x"
proof (cases "x < 0")
  case True
  then show ?thesis using assms nat_digits_val [of "nat (- x)"]
    by (simp add: ParseInt_def format_int_def has_prefix_def Let_def)
next
  case False
  obtain c cs where c: "nat_digits (nat x) = c # cs" "is_digit c"
    using nat_digits_val [of "nat x"] by (cases "nat_digits (nat x)") auto
  then have "\<not> has_prefix (nat_digits (nat x)) ''-''" "\<not> has_prefix (nat_digits (nat x)) ''+''"
    by (auto simp: has_prefix_def is_digit_def less_eq_char_def)
  then show ?thesis using assms False nat_digits_val [of "nat x"] by (simp add: ParseInt_def format_int_def Let_def)
qed

text \<open>
  A 64-bit integer survives JSON in either spelling: written as a number or as a string, as
  JavaScript producers must, every value of the type is read back exactly.
\<close>

theorem int64_round_trip:
  assumes "- (2 ^ 63) \<le> x" and "x < 2 ^ 63"
  shows "Int64_Unmarshal (format_int x) old = Inr x \<and> Int64_Unmarshal ([CHR 0x22] @ format_int x @ [CHR 0x22]) old = Inr x"
proof -
  have ne: "format_int x \<noteq> []" using nat_digits_val by (auto simp: format_int_def)
  have q: "CHR 0x22 \<notin> set (format_int x)" and sp: "\<forall>c \<in> set (format_int x). \<not> is_space c"
    by (auto simp: is_digit_def less_eq_char_def is_space_def dest!: format_int_chars)
  have "CHR ''n'' \<notin> set (format_int x)" using format_int_chars [of "CHR ''n''" x] by (auto simp: is_digit_def less_eq_char_def)
  then have null: "format_int x \<noteq> ''null''" by force
  have sp2: "trim_space ([CHR 0x22] @ format_int x @ [CHR 0x22]) = [CHR 0x22] @ format_int x @ [CHR 0x22]"
    using sp by (intro trim_space_id) (auto simp: is_space_def)
  show ?thesis
    using ParseInt_format [OF assms] trim_space_id [OF sp] sp2 trim_char_id [OF q] trim_char_quoted [OF q ne] ne null
    by (simp add: Int64_Unmarshal_def)
qed

theorem int64_round_trip_witness:
  "Int64_Unmarshal (format_int 9007199254740993) 0 = Inr 9007199254740993 \<and>
   Int64_Unmarshal ([CHR 0x22] @ format_int 9007199254740993 @ [CHR 0x22]) 0 = Inr 9007199254740993"
  by (rule int64_round_trip) simp_all

text \<open>
  An exported time means the same in seconds, milliseconds and microseconds: for a whole number of
  seconds from March 1973 on and below nine thousand million, the three spellings give the same
  microseconds. The hypotheses are that no date layout reads a plain number and that arithmetic on
  whole numbers up to two to the power of fifty-three is exact, as it is for IEEE doubles.
\<close>

theorem timestamp_units_agree:
  assumes "10 ^ 8 \<le> n" and "n \<le> 9 * 10 ^ 9"
    and "\<And>l s. s \<in> {s1, s2, s3} \<Longrightarrow> timeParse L l (trim_space s) = None"
    and "\<And>i. \<bar>i\<bar> \<le> 2 ^ 53 \<Longrightarrow> roundFloat L (of_int i) = of_int i"
    and "parseFloat L (trim_space s1) = Some (of_int n)" and "parseFloat L (trim_space s2) = Some (of_int (n * 10 ^ 3))"
    and "parseFloat L (trim_space s3) = Some (of_int (n * 10 ^ 6))"
  shows "ParseTimestamp L s1 = Inr (n * 10 ^ 6) \<and> ParseTimestamp L s2 = Inr (n * 10 ^ 6) \<and> ParseTimestamp L s3 = Inr (n * 10 ^ 6)"
proof -
  have none: "firstLayout L ls (trim_space s) = None" if "s \<in> {s1, s2, s3}" for s ls
    using assms(3) [OF that] by (induction ls) simp_all
  have t: "truncRat (of_int (n * 10 ^ 6)) = n * 10 ^ 6"
    unfolding truncRat_def by (metis floor_minus floor_of_int minus_minus of_int_minus ceiling_of_int)
  have r: "roundFloat L (of_int (n * 10 ^ 6)) = of_int (n * 10 ^ 6)" using assms(1,2) by (intro assms(4)) simp
  have p: "of_int n * 10 ^ 6 = (of_int (n * 10 ^ 6) :: rat)" "of_int (n * 10 ^ 3) * 10 ^ 3 = (of_int (n * 10 ^ 6) :: rat)" by simp_all
  have "(of_int n :: rat) < of_int (10 ^ 11)" "\<not> (of_int (n * 10 ^ 3) :: rat) < of_int (10 ^ 11)" "(of_int (n * 10 ^ 3) :: rat) < of_int (10 ^ 14)"
    "\<not> (of_int (n * 10 ^ 6) :: rat) < of_int (10 ^ 11)" "\<not> (of_int (n * 10 ^ 6) :: rat) < of_int (10 ^ 14)"
    unfolding of_int_less_iff using assms(1,2) by simp_all
  then have c: "(of_int n :: rat) < 10 ^ 11" "\<not> (of_int (n * 10 ^ 3) :: rat) < 10 ^ 11" "(of_int (n * 10 ^ 3) :: rat) < 10 ^ 14"
    "\<not> (of_int (n * 10 ^ 6) :: rat) < 10 ^ 11" "\<not> (of_int (n * 10 ^ 6) :: rat) < 10 ^ 14" by (simp_all only: of_int_power of_int_numeral not_False_eq_True)
  have "ParseTimestamp L s1 = Inr (n * 10 ^ 6)"
    unfolding ParseTimestamp_def Let_def using none [of s1] by (simp only: assms(5) option.case c if_True p r t) simp
  moreover have "ParseTimestamp L s2 = Inr (n * 10 ^ 6)"
    unfolding ParseTimestamp_def Let_def using none [of s2] by (simp only: assms(6) option.case c if_True if_False p r t) simp
  moreover have "ParseTimestamp L s3 = Inr (n * 10 ^ 6)"
    unfolding ParseTimestamp_def Let_def using none [of s3] by (simp only: assms(7) option.case c if_True if_False t) simp
  ultimately show ?thesis by blast
qed

definition exTimeLib :: TimeLib where
  "exTimeLib = \<lparr>timeParse = (\<lambda>_ _. None), parseFloat = (\<lambda>s. map_option of_int (ParseInt s)), roundFloat = (\<lambda>x. x)\<rparr>"

theorem timestamp_units_agree_witness:
  "ParseTimestamp exTimeLib ''1700000000'' = Inr 1700000000000000 \<and> ParseTimestamp exTimeLib ''1700000000000'' = Inr 1700000000000000 \<and>
   ParseTimestamp exTimeLib ''1700000000000000'' = Inr 1700000000000000"
proof -
  have "parseFloat exTimeLib (trim_space ''1700000000'') = Some (of_int 1700000000)"
    "parseFloat exTimeLib (trim_space ''1700000000000'') = Some (of_int (1700000000 * 10 ^ 3))"
    "parseFloat exTimeLib (trim_space ''1700000000000000'') = Some (of_int (1700000000 * 10 ^ 6))"
    by (simp_all add: exTimeLib_def trim_space_def is_space_def ParseInt_def has_prefix_def is_digit_def digits_val_def less_eq_char_def)
  from timestamp_units_agree [OF _ _ _ _ this] show ?thesis by (simp add: exTimeLib_def)
qed

section \<open>Outcomes\<close>

lemma csvOutcome_valid: "csvOutcome L idx row = Inr w \<Longrightarrow> ValidateOutcome w = None"
  by (auto simp: csvOutcome_def Let_def split: sum.splits option.splits)

text \<open>An accepted file gives one outcome per row, in order, each of which can be joined.\<close>

lemma csvRows_valid:
  "csvRows L idx line rows = Inr ws \<Longrightarrow> None \<notin> set rows \<and> length ws = length rows \<and> list_all (\<lambda>w. ValidateOutcome w = None) ws"
  by (induction L idx line rows arbitrary: ws rule: csvRows.induct) (auto simp: csvOutcome_valid split: sum.splits)

end
