(* ===== verification/Config_Props.thy ===== *)
theory Config_Props
  imports Policy Redact_Props Wire_Props
begin

text \<open>
  What an accepted configuration guarantees to the components built from it, and that sizes are read
  back as they are printed.
\<close>

lemma bad_Nil [simp]: "bad b k = [] \<longleftrightarrow> \<not> b"
  by (simp add: bad_def)

section \<open>Redaction policies\<close>

definition ruleFault :: "redactError \<Rightarrow> bool" where
  "ruleFault e \<longleftrightarrow> (\<exists>i. e = TokenizeNeedsKey i) \<or> (\<exists>i a. e = UnknownAction i a)"

definition actionsOK :: "Redactor \<Rightarrow> bool" where
  "actionsOK r \<longleftrightarrow> (\<forall>rule \<in> set (rules r). ruleAction rule \<in> {ActionTokenize, ActionDrop} \<and>
     (ruleAction rule = ActionTokenize \<longrightarrow> tokenKey r \<noteq> []))"

lemma applyAction_ok:
  "actionsOK r \<Longrightarrow> rule \<in> set (rules r) \<Longrightarrow> applyAction r rule re v \<noteq> Inl e"
  "actionsOK r \<Longrightarrow> rule \<in> set (rules r) \<Longrightarrow> redactWhole r rule v \<noteq> Inl e"
  by (auto simp: actionsOK_def applyAction_def redactWhole_def)

lemma pathNodes_fault:
  assumes "actionsOK r" and "rule \<in> set (rules r)" and "pathNodes r rule p nodes doc n = Inl e"
  shows "\<not> ruleFault e"
  using assms(3)
proof (induction nodes arbitrary: doc n)
  case (Cons node nodes)
  have act: "\<exists>red. applyAction r rule re v = Inr red" "\<exists>red. redactWhole r rule v = Inr red" for re v
    using applyAction_ok [OF assms(1,2)] by (metis Inl_Inr_False obj_sumE)+
  have rewrite: "\<not> ruleFault e" if "(case pathSet p doc (JStr red) of None \<Rightarrow> Inl (PathRewrite (ruleID rule))
      | Some doc' \<Rightarrow> pathNodes r rule p nodes doc' (n + 1)) = Inl e" for red
    using that Cons.IH by (auto simp: ruleFault_def split: option.splits)
  show ?case
  proof (cases "stringify node = [] \<or> (\<exists>re. ruleRe rule = Some re \<and> \<not> MatchString re (stringify node))")
    case True
    then have "pathNodes r rule p nodes doc n = Inl e" using Cons.prems by (auto simp: Let_def split: if_splits)
    then show ?thesis by (rule Cons.IH)
  next
    case False
    obtain red1 where w: "redactWhole r rule (stringify node) = Inr red1" using act(2) by blast
    obtain red2 where a: "applyAction r rule (the (ruleRe rule)) (stringify node) = Inr red2" using act(1) by blast
    show ?thesis using Cons.prems False w a rewrite [of red1] rewrite [of red2]
      by (cases "ruleRe rule") (simp_all add: Let_def)
  qed
qed simp

lemma applyRules_fault:
  assumes "actionsOK r" and "set rs \<subseteq> set (rules r)" and "applyRules parse r path rs out ents st = (Inl e, st')"
  shows "\<not> ruleFault e"
  using assms(2,3)
proof (induction rs arbitrary: out ents st)
  case (Cons rule rs)
  have fault: "\<not> ruleFault e'" if "applyPathRule parse r rule p out = Inl e'" for p e'
    using that pathNodes_fault [OF assms(1), of rule p] Cons.prems(1)
    by (auto simp: applyPathRule_def Let_def split: option.splits if_splits sum.splits)
  show ?case
  proof (cases "ruleFields rule \<noteq> [] \<and> \<not> matchAny (ruleFields rule) path")
    case True
    then show ?thesis using Cons by simp
  next
    case False
    then show ?thesis
      using Cons fault applyAction_ok(1) [OF assms(1), of rule]
      by (auto simp: Let_def split: option.splits sum.splits if_splits)
  qed
qed simp

lemma replaceFindings_fault: "replaceFindings r fs out counts = Inl e \<Longrightarrow> \<not> ruleFault e"
  by (induction r fs out counts rule: replaceFindings.induct) (auto simp: Let_def ruleFault_def split: if_splits)

lemma applyDetector_fault:
  assumes "applyDetector r d path v st = (Inl e, st')"
  shows "\<not> ruleFault e"
proof (cases "d v")
  case None
  then show ?thesis using assms by (auto simp: applyDetector_def ruleFault_def)
next
  case (Some found)
  show ?thesis
  proof (cases "sort_key fStart found")
    case Nil
    then show ?thesis using assms Some by (simp add: applyDetector_def)
  next
    case (Cons f fs)
    then obtain e' where e': "replaceFindings r (rev (mergeFindings f fs)) v [] = Inl e'"
      using assms Some by (auto simp: applyDetector_def split: sum.splits prod.splits)
    then have "e = e'" using assms Some Cons by (cases e') (auto simp: applyDetector_def)
    then show ?thesis using replaceFindings_fault [OF e'] by simp
  qed
qed

lemma applyField_fault:
  assumes "actionsOK r" and "applyField parse r path v st = (Inl e, st')"
  shows "\<not> ruleFault e"
  using assms(2) applyRules_fault [OF assms(1) subset_refl] applyDetector_fault
  by (auto simp: applyField_def split: if_splits prod.splits sum.splits option.splits)

lemma applyRaw_fault:
  assumes "actionsOK r" and "applyRaw parse r pre ks m ents st = (Inl e, st')"
  shows "\<not> ruleFault e"
  using assms(2) applyField_fault [OF assms(1)]
  by (induction ks arbitrary: m ents st) (auto split: prod.splits sum.splits)

lemma applySteps_fault:
  assumes "actionsOK r" and "applySteps parse r i ss ents st = (Inl e, st')"
  shows "\<not> ruleFault e"
proof -
  have step: "\<not> ruleFault e'" if "applyStep parse r j s ents' st1 = (Inl e', st2)" for j s ents' st1 st2 e'
    using that applyField_fault [OF assms(1)] applyRaw_fault [OF assms(1)]
    by (auto simp: applyStep_def split: prod.splits sum.splits option.splits)
  show ?thesis using assms(2)
    by (induction ss arbitrary: i ents st) (auto split: prod.splits sum.splits dest: step)
qed

lemma Process_fault:
  assumes "actionsOK r" and "Redact.Process parse r ep st = (Inl e, st')"
  shows "\<not> ruleFault e"
  using assms(2) applySteps_fault [OF assms(1)] applyRaw_fault [OF assms(1)]
  by (auto simp: Redact.Process_def applyPolicy_def split: prod.splits sum.splits)

lemma redactRules_ok:
  assumes "\<forall>rc \<in> set rcs. rcRegex rc \<noteq> [] \<longrightarrow> compile (rcRegex rc) \<noteq> None" and "\<forall>rc \<in> set rcs. rcRegex rc \<noteq> [] \<or> rcPath rc \<noteq> []"
  shows "case redactRules compile parsePath rcs of
      Inl e \<Rightarrow> (\<exists>i. e = BadPath i)
    | Inr rs \<Rightarrow> \<forall>rule \<in> set rs. \<exists>rc \<in> set rcs. ruleAction rule = rcAction rc"
  using assms
proof (induction rcs)
  case (Cons rc rcs)
  then show ?case
    by (auto simp: compileRule_def split: sum.splits if_splits)
qed simp

lemma validated_rules:
  assumes "validateRedactionPolicy sys pre rn = []"
  shows "\<forall>rc \<in> set (rdRules (rnPolicy rn)). (rcRegex rc \<noteq> [] \<longrightarrow> regexOK sys (rcRegex rc)) \<and>
    (rcRegex rc \<noteq> [] \<or> rcPath rc \<noteq> []) \<and> rcAction rc \<in> {''tokenize'', ''drop''}"
proof
  fix rc assume "rc \<in> set (rdRules (rnPolicy rn))"
  then obtain i where "i < length (rdRules (rnPolicy rn))" "rdRules (rnPolicy rn) ! i = rc" by (auto simp: in_set_conv_nth)
  then have "(i, rc) \<in> set (enumerate 0 (rdRules (rnPolicy rn)))" by (auto simp: in_set_enumerate_eq)
  then have "validateRule sys (indexed (pre @ ''.rules'') i) rc = []"
    using assms by (auto simp: validateRedactionPolicy_def Let_def)
  then show "(rcRegex rc \<noteq> [] \<longrightarrow> regexOK sys (rcRegex rc)) \<and> (rcRegex rc \<noteq> [] \<or> rcPath rc \<noteq> []) \<and> rcAction rc \<in> {''tokenize'', ''drop''}"
    by (auto simp: validateRule_def)
qed

text \<open>
  A validated policy can be applied. When validation has no complaint about a redaction policy (and
  its check of regular expressions agrees with the compiler), building the redactor can only fail on
  a JSONPath, and the redactor then never refuses an episode because a rule lacks the key or has an
  action nobody knows: such a policy quarantines only what cannot be rewritten.
\<close>

theorem validated_policy_applies:
  assumes "validateRedactionPolicy sys pre rn = []" and "\<forall>s. regexOK sys s \<longrightarrow> compile s \<noteq> None"
  shows "case NewRedactor compile parsePath service (rnPolicy rn) (tokenKeyOf sys rn) withManifest of
      Inl e \<Rightarrow> (\<exists>i. e = BadPath i)
    | Inr r \<Rightarrow> (\<forall>ep st e st'. Redact.Process parse r ep st = (Inl e, st') \<longrightarrow>
        (\<forall>i a. e \<noteq> TokenizeNeedsKey i \<and> e \<noteq> UnknownAction i a))"
proof -
  note V = validated_rules [OF assms(1)]
  have R: "case redactRules compile parsePath (rdRules (rnPolicy rn)) of
      Inl e \<Rightarrow> (\<exists>i. e = BadPath i)
    | Inr rs \<Rightarrow> \<forall>rule \<in> set rs. \<exists>rc \<in> set (rdRules (rnPolicy rn)). ruleAction rule = rcAction rc"
    using V assms(2) by (intro redactRules_ok) blast+
  show ?thesis
  proof (cases "redactRules compile parsePath (rdRules (rnPolicy rn))")
    case (Inl e)
    then show ?thesis using R by (simp add: NewRedactor_def)
  next
    case (Inr rs)
    obtain r where r: "NewRedactor compile parsePath service (rnPolicy rn) (tokenKeyOf sys rn) withManifest = Inr r"
      "rules r = rs" "tokenKey r = tokenKeyOf sys rn" using Inr by (auto simp: NewRedactor_def)
    have "actionsOK r"
      unfolding actionsOK_def r(2,3)
    proof
      fix rule assume "rule \<in> set rs"
      then obtain rc where rc: "rc \<in> set (rdRules (rnPolicy rn))" "ruleAction rule = rcAction rc" using R Inr by auto
      then have "rcAction rc = ''tokenize'' \<longrightarrow> \<not> rdMetadataOnly (rnPolicy rn) \<and> rnKeyEnv rn \<noteq> [] \<and> getenv sys (rnKeyEnv rn) \<noteq> []"
        using assms(1) by (auto simp: validateRedactionPolicy_def Let_def list_ex_iff)
      then show "ruleAction rule \<in> {ActionTokenize, ActionDrop} \<and> (ruleAction rule = ActionTokenize \<longrightarrow> tokenKeyOf sys rn \<noteq> [])"
        using V rc by (auto simp: ActionTokenize_def ActionDrop_def tokenKeyOf_def bytes_of_def)
    qed
    then show ?thesis using r(1) Process_fault [of r parse] by (auto simp: ruleFault_def)
  qed
qed

definition exSys :: Sys where
  "exSys = \<lparr>lookupEnv = (\<lambda>v. if v = ''KEY'' then Some ''secret'' else None), canStat = (\<lambda>_. True), isDir = (\<lambda>_. True),
     regexOK = (\<lambda>_. True), globOK = (\<lambda>_. True), splitHost = (\<lambda>a. Some a), loopbackIP = (\<lambda>_. False)\<rparr>"

definition exPolicy :: "string \<Rightarrow> Redaction" where
  "exPolicy endpoint =
     \<lparr>rnPolicy = \<lparr>rdDefault = ''allow'', rdAllow = [], rdDeny = [], rdRules = [], 
        rdDetector = \<lparr>dcEndpoint = endpoint, dcMinScore = 0, dcAction = []\<rparr>, rdMetadataOnly = False\<rparr>,
      rnOnError = ''quarantine'', rnKeyEnv = []\<rparr>"

definition exTokenPolicy :: Redaction where
  "exTokenPolicy = (exPolicy [])\<lparr>rnPolicy := (rnPolicy (exPolicy []))
     \<lparr>rdRules := [\<lparr>rcID = ''id'', rcRegex = ''42'', rcPath = [], rcAction = ''tokenize'', rcFields = []\<rparr>]\<rparr>, rnKeyEnv := ''KEY''\<rparr>"

theorem validated_policy_applies_witness:
  "validateRedactionPolicy exSys ''redaction'' exTokenPolicy = [] \<and>
   (case NewRedactor (\<lambda>s. Some (literalRe s)) (\<lambda>_. None) (\<lambda>_. None) (rnPolicy exTokenPolicy) (tokenKeyOf exSys exTokenPolicy) True of
      Inl e \<Rightarrow> (\<exists>i. e = BadPath i)
    | Inr r \<Rightarrow> (\<forall>ep st e st'. Redact.Process (\<lambda>_. None) r ep st = (Inl e, st') \<longrightarrow>
        (\<forall>i a. e \<noteq> TokenizeNeedsKey i \<and> e \<noteq> UnknownAction i a)))"
proof -
  have v: "validateRedactionPolicy exSys ''redaction'' exTokenPolicy = []" by code_simp
  show ?thesis using v validated_policy_applies [OF v, of "\<lambda>s. Some (literalRe s)"] by simp
qed

text \<open>
  The entity detector escapes that check. A policy with a detector, whose action defaults to
  tokenizing, and without a key is accepted by validation, and the redactor built from it refuses
  every payload in which the detector finds something.
\<close>

theorem detector_without_key_accepted:
  "validateRedactionPolicy exSys ''redaction'' (exPolicy ''http://presidio'') = [] \<and>
   (case NewRedactor (\<lambda>_. None) (\<lambda>_. None) (\<lambda>_. Some [\<lparr>fEntityType = ''PERSON'', fStart = 0, fEnd = 3, fScore = 1\<rparr>])
       (rnPolicy (exPolicy ''http://presidio'')) (tokenKeyOf exSys (exPolicy ''http://presidio'')) True of
      Inl e \<Rightarrow> False
    | Inr r \<Rightarrow> fst (applyField (\<lambda>_. None) r ''steps[0].content_inline'' ''ann called'' zeroRedactStats) = Inl DetectorNeedsKey)"
proof -
  have "validateRedactionPolicy exSys ''redaction'' (exPolicy ''http://presidio'') = []" by code_simp
  then show ?thesis
    by (simp add: NewRedactor_def exPolicy_def tokenKeyOf_def applyField_def PresidioDetect_def applyDetector_def orDefault_def
        matchAny_def)
qed

section \<open>Accepted configurations\<close>

definition addresses :: "Source \<Rightarrow> string list" where
  "addresses s = filter (\<lambda>a. a \<noteq> []) [soHTTPListen s, soGRPCListen s]"

lemma validateListeners_ok:
  assumes "validateListeners k as taken = ([], taken')"
  shows "distinct (filter (\<lambda>a. a \<noteq> []) as) \<and> set (filter (\<lambda>a. a \<noteq> []) as) \<inter> set taken = {} \<and>
    set taken' = set taken \<union> set (filter (\<lambda>a. a \<noteq> []) as)"
  using assms by (induction k as taken arbitrary: taken' rule: validateListeners.induct) (auto split: if_splits prod.splits)

lemma validateSourceList_ok:
  assumes "validateSourceList sys i ss (seen, taken) = []"
  shows "distinct (map soName ss) \<and> set (map soName ss) \<inter> set seen = {} \<and> [] \<notin> set (map soName ss) \<and>
    distinct (concat (map addresses ss)) \<and> set (concat (map addresses ss)) \<inter> set taken = {} \<and>
    (\<forall>s \<in> set ss. rateRange (soHeadSampleRate s) \<and> (soRecordsPerSecond s > 0 \<longrightarrow> soBurst s > 0))"
  using assms
proof (induction ss arbitrary: i seen taken)
  case (Cons s ss)
  obtain lerrs taken' where L: "validateListeners (indexed ''sources'' i) [soHTTPListen s, soGRPCListen s] taken = (lerrs, taken')"
    by (cases "validateListeners (indexed ''sources'' i) [soHTTPListen s, soGRPCListen s] taken")
  have "lerrs = []" and here: "soName s \<noteq> []" "soName s \<notin> set seen" "rateRange (soHeadSampleRate s)"
      "soRecordsPerSecond s > 0 \<longrightarrow> soBurst s > 0"
    and rest: "validateSourceList sys (Suc i) ss (soName s # seen, taken') = []"
    using Cons.prems L by (auto simp: validateSource_def Let_def)
  then have a: "distinct (addresses s)" "set (addresses s) \<inter> set taken = {}" "set taken' = set taken \<union> set (addresses s)"
    using validateListeners_ok [of "indexed ''sources'' i" "[soHTTPListen s, soGRPCListen s]" taken taken'] L
    unfolding addresses_def by simp_all
  from Cons.IH [OF rest] show ?case using here a by auto
qed simp


definition exSource :: Source where
  "exSource = \<lparr>soName = ''a'', soType = ''native'', soPath = [], soMapping = [], soInclude = [], soStartAt = [], soPollInterval = 0,
     soHTTPListen = ''localhost:1'', soHTTPTLS = \<lparr>tlCertFile = [], tlKeyFile = [], tlClientCAFile = [], tlMinVersion = []\<rparr>,
     soGRPCListen = [], soGRPCTLS = \<lparr>tlCertFile = [], tlKeyFile = [], tlClientCAFile = [], tlMinVersion = []\<rparr>, soAuthType = [],
     soTokenEnv = [], soMaxRequestBytes = 0, soHeadSampleRate = None, soRecordsPerSecond = 0, soBurst = 0, soRedaction = None, soMappingsDir = []\<rparr>"

definition exSinkConfig :: SinkConfig where
  "exSinkConfig = \<lparr>skName = ''lake'', skType = ''fs'', skDir = ''/l'', skBucket = [], skPrefix = [], skRegion = [], skEndpoint = [],
     skPathStyle = False, skAccessKeyID = [], skSecretAccessKey = [], skSessionToken = [], skSSEType = [], skSSEKeyID = [],
     skTargetFileBytes = 0, skRollInterval = 0, skCompression = [], skPartitionBy = [], skBlobThresholdBytes = 0, skMaxPayloadBytes = 0\<rparr>"

definition exConfig :: Config where
  "exConfig = \<lparr>cfSchemaVersion = ''0.1'', cfTenant = ''t'', cfSources = [exSource],
     cfAssembly = \<lparr>acSessionKey = [], acWindow = 0, acMaxInFlight = 0, acSettleAfterTerminal = 0, acPatchMemory = 0\<rparr>,
     cfRedaction = exPolicy [], cfEntities = [], cfSampling = \<lparr>cfgHeadRate = None, cfgKeepIf = [], cfgOtherwiseRate = None\<rparr>,
     cfBuffer = \<lparr>bcDir = ''/b'', bcMaxBytes = 0, bcMaxAge = 0, bcSegmentBytes = 0, bcBackpressureAt = 0, bcMaxAttempts = 0,
       bcBatchSize = 0, bcRetryBaseDelay = 0, bcRetryMaxDelay = 0, bcDeadLetterDir = [], bcKeyEnv = []\<rparr>,
     cfShutdownTimeout = 0, cfSinks = [exSinkConfig], cfLogLevel = []\<rparr>"


section \<open>Sizes\<close>

lemma no_suffix: "p \<noteq> [] \<Longrightarrow> last t \<noteq> last p \<Longrightarrow> \<not> has_suffix t p"
  by (metis has_suffix_def append_take_drop_id last_appendR)

lemma last_format_int: "is_digit (last (format_int x))" and format_int_nonempty: "format_int x \<noteq> []"
proof -
  have d: "list_all is_digit (nat_digits n) \<and> nat_digits n \<noteq> []" for n using nat_digits_val [of n] by simp
  then show "format_int x \<noteq> []" by (simp add: format_int_def)
  have "is_digit (last (nat_digits n))" for n using d [of n] last_in_set by (auto simp: list_all_iff)
  then show "is_digit (last (format_int x))" using d by (simp add: format_int_def)
qed

lemma digit_not_letter: "is_digit c \<Longrightarrow> c \<notin> {CHR ''B'', CHR ''i'', CHR ''K'', CHR ''M'', CHR ''G'', CHR ''T''}"
  by (auto simp: is_digit_def less_eq_char_def)

lemma plain_number_no_unit: "find (\<lambda>(suf, _). has_suffix (format_int x) suf) byteUnits = None"
  using digit_not_letter [OF last_format_int [of x]]
  by (auto simp: byteUnits_def find_None_iff no_suffix)

lemma has_suffix_two [simp]: "has_suffix (s @ [a, b]) [c, d] \<longleftrightarrow> a = c \<and> b = d"
  by (simp add: has_suffix_def)

lemma binary_suffix_found:
  assumes "(suf, unit) \<in> set sizeUnits"
  shows "find (\<lambda>(p, _). has_suffix (s @ suf) p) byteUnits = Some (suf, unit)"
proof -
  have B: "\<not> has_suffix (s @ [a, CHR ''i'']) (p @ [CHR ''B''])" "\<not> has_suffix (s @ [a, CHR ''i'']) [CHR ''B'']" for a p
    by (simp_all add: no_suffix)
  from assms consider "suf = ''Ti''" "unit = 2 ^ 40" | "suf = ''Gi''" "unit = 2 ^ 30" | "suf = ''Mi''" "unit = 2 ^ 20"
    | "suf = ''Ki''" "unit = 2 ^ 10"
    by (auto simp: sizeUnits_def)
  then show ?thesis
    by cases (simp_all add: byteUnits_def B(2) B(1) [where p = "[c, d]" for c d, simplified] B(1) [where p = "[c]" for c, simplified])
qed

text \<open>
  Sizes are read back as they are printed: for every size of the type that is not negative, parsing
  what \<^verbatim>\<open>String\<close> prints gives the size again. The hypotheses are that the decimal text of a whole number
  up to two to the power of fifty-three is parsed exactly and that its product with a power of two is
  exact, as for IEEE doubles.
\<close>

theorem byte_size_round_trip:
  assumes "0 \<le> n" and "n < 2 ^ 63"
    and "\<And>k. 0 \<le> k \<Longrightarrow> k \<le> 2 ^ 53 \<Longrightarrow> parseFloat L (format_int k) = Some (of_int k)"
    and "\<And>k unit. 0 \<le> k \<Longrightarrow> k \<le> 2 ^ 53 \<Longrightarrow> unit \<in> {2 ^ 10, 2 ^ 20, 2 ^ 30, 2 ^ 40} \<Longrightarrow> roundFloat L (of_int (k * unit)) = of_int (k * unit)"
  shows "ParseByteSize L (ByteSize_String n) = Inr n"
proof (cases "find (\<lambda>(_, unit). n \<ge> unit \<and> n mod unit = 0) sizeUnits")
  case None
  then have "ByteSize_String n = format_int n" by (simp add: ByteSize_String_def)
  moreover have "trim_space (format_int n) = format_int n"
    by (intro trim_space_id) (auto simp: is_digit_def less_eq_char_def is_space_def dest!: format_int_chars)
  ultimately show ?thesis
    using plain_number_no_unit ParseInt_format [of n] assms(1,2) format_int_nonempty by (simp add: ParseByteSize_def)
next
  case (Some p)
  obtain suf unit where p: "p = (suf, unit)" by (cases p)
  from Some p have u: "(suf, unit) \<in> set sizeUnits" "n \<ge> unit" "n mod unit = 0"
    by (auto simp: find_Some_iff in_set_conv_nth)
  then have unit: "unit \<in> {2 ^ 10, 2 ^ 20, 2 ^ 30, 2 ^ 40}" "suf \<in> {''Ti'', ''Gi'', ''Mi'', ''Ki''}" by (auto simp: sizeUnits_def)
  let ?k = "n div unit"
  have k: "0 \<le> ?k" "?k \<le> 2 ^ 53" "?k * unit = n"
    using unit(1) assms(1,2) div_mult_mod_eq [of n unit] u(3) by auto
  have S: "ByteSize_String n = format_int ?k @ suf" using Some p by (simp add: ByteSize_String_def)
  have "trim_space (format_int ?k @ suf) = format_int ?k @ suf" "trim_space (format_int ?k) = format_int ?k"
    using unit(2) by (auto intro!: trim_space_id simp: is_digit_def less_eq_char_def is_space_def dest!: format_int_chars)
  moreover have "truncRat (of_int n) = n" using assms(1) by (simp add: truncRat_def)
  moreover have "roundFloat L (of_int ?k * of_int unit) = of_int n"
    using assms(4) [OF k(1,2) unit(1)] k(3) by (metis of_int_mult)
  moreover have "\<not> (of_int ?k :: rat) < 0" using k(1) by simp
  ultimately show ?thesis
    using binary_suffix_found [OF u(1), of "format_int ?k"] assms(3) [OF k(1,2)] format_int_nonempty [of ?k] S
    by (simp add: ParseByteSize_def)
qed

theorem byte_size_round_trip_witness:
  "ParseByteSize exTimeLib (ByteSize_String 8589934592) = Inr 8589934592 \<and> ParseByteSize exTimeLib (ByteSize_String 1001) = Inr 1001"
proof -
  have "parseFloat exTimeLib (format_int k) = Some (of_int k)" if "0 \<le> k" "k \<le> 2 ^ 53" for k
    using ParseInt_format [of k] that by (simp add: exTimeLib_def)
  moreover have "roundFloat exTimeLib x = x" for x by (simp add: exTimeLib_def)
  ultimately show ?thesis
    using byte_size_round_trip [of 8589934592 exTimeLib] byte_size_round_trip [of 1001 exTimeLib] by simp
qed

end
