(* ===== verification/Lake_Sink_Props.thy ===== *)
theory Lake_Sink_Props
  imports Lake_Sink Lakeread_Props
begin

text \<open>
  Keys of the lake stay inside their table, a batch becomes visible through its manifest or not at
  all, and what happens to the rows of a batch that fails.
\<close>

section \<open>Keys\<close>

lemma replaceUnsafe_chars: "CHR ''/'' \<notin> set (replaceUnsafe s)"
proof (induction s rule: replaceUnsafe.induct)
  case (2 c s)
  consider "c \<in> {CHR ''/'', CHR 0x5C, CHR ''='', CHR 0x00}"
    | r where "c \<notin> {CHR ''/'', CHR 0x5C, CHR ''='', CHR 0x00}" "s = CHR ''.'' # r" "c = CHR ''.''"
    | "c \<notin> {CHR ''/'', CHR 0x5C, CHR ''='', CHR 0x00}" "c = CHR ''.'' \<longrightarrow> s = [] \<or> hd s \<noteq> CHR ''.''"
    by (metis list.collapse)
  then show ?case
  proof cases
    case 1
    then show ?thesis using 2(1) by simp
  next
    case (2 r)
    then show ?thesis using "2.IH"(2) by simp
  next
    case 3
    then have "replaceUnsafe (c # s) = c # replaceUnsafe s" by (cases s) auto
    moreover have "CHR ''/'' \<notin> set (replaceUnsafe s)" using "2.IH"(3) 3 by (cases s) auto
    ultimately show ?thesis using 3(1) by auto
  qed
qed simp

lemma replaceUnsafe_nonempty: "s \<noteq> [] \<Longrightarrow> replaceUnsafe s \<noteq> []"
  by (cases s) (auto split: list.splits)

lemma sanitise_safe: "CHR ''/'' \<notin> set (sanitise v) \<and> sanitise v \<noteq> [] \<and> length (sanitise v) \<le> 128"
  using replaceUnsafe_chars [of v] by (auto simp: sanitise_def Let_def dest: in_set_takeD)

lemma nat_digits_no_slash: "CHR ''/'' \<notin> set (nat_digits n)"
  using nat_digits_val [of n] by (auto simp: list_all_iff is_digit_def less_eq_char_def)

lemma padded_no_slash: "CHR ''/'' \<notin> set (padded w n)"
  using nat_digits_no_slash by (auto simp: padded_def Let_def)

lemma formatDate_no_slash: "CHR ''/'' \<notin> set (formatDate us)"
  using padded_no_slash by (auto simp: formatDate_def split: prod.splits)

lemma plain_prefixed: "CHR ''/'' \<notin> set v \<Longrightarrow> CHR ''='' \<in> set p \<Longrightarrow> CHR ''/'' \<notin> set p \<Longrightarrow> plainElem (p @ v)"
  by (auto simp: plainElem_def append_eq_Cons_conv)

lemma partitionPart_plain: "list_all plainElem (partitionPart ep k)"
  using sanitise_safe formatDate_no_slash
  by (auto simp: partitionPart_def intro!: plain_prefixed [of _ "''dt=''", simplified] plain_prefixed [of _ "''tenant=''", simplified]
      plain_prefixed [of _ "''task_type=''", simplified])

lemma pathJoin_plain:
  assumes "list_all plainElem es" and "es \<noteq> []"
  shows "pathJoin es = join_with ''/'' es"
proof -
  have "filter (\<lambda>e. e \<noteq> []) es = es"
    using assms(1) by (auto simp: filter_id_conv list_all_iff plainElem_def)
  moreover have "cleanElems rooted [] (splitSlash [] (join_with ''/'' es)) = es" for rooted
    using assms by (simp add: split_join_plain cleanElems_id)
  moreover have "\<not> has_prefix (join_with ''/'' es) ''/''" using assms by (rule plain_no_slash)
  ultimately show ?thesis
    using assms join_plain_nonempty [OF assms] by (simp add: pathJoin_def pathClean_def Let_def)
qed

lemma partitionKey_plain:
  "\<exists>es. list_all plainElem es \<and> partitionKey o0 ep = join_with ''/'' es"
proof -
  let ?es = "concat (map (partitionPart ep) (loPartitionBy o0))"
  have "list_all plainElem ?es" using partitionPart_plain by (auto simp: list_all_iff)
  moreover have "partitionKey o0 ep = join_with ''/'' ?es"
  proof (cases "?es = []")
    case True
    then show ?thesis by (simp only: partitionKey_def) (simp add: pathJoin_def)
  next
    case False
    from pathJoin_plain [OF calculation this] show ?thesis by (simp only: partitionKey_def)
  qed
  ultimately show ?thesis by blast
qed

lemma join_with_append:
  "xs \<noteq> [] \<Longrightarrow> ys \<noteq> [] \<Longrightarrow> join_with sep (xs @ ys) = join_with sep xs @ sep @ join_with sep ys"
proof (induction sep xs rule: join_with.induct)
  case (2 sep x)
  then show ?case by (cases ys) auto
qed auto

text \<open>A file of a partition: the table, the partition's directories and the file name.\<close>

lemma tableKey:
  assumes "list_all plainElem es" and "plainElem t" and "plainElem f"
  shows "pathJoin [t, join_with ''/'' es, f] = join_with ''/'' (t # es @ [f])"
proof (cases "es = []")
  case True
  then show ?thesis using assms pathJoin_plain [of "[t, f]"] by (simp add: pathJoin_def plainElem_def)
next
  case False
  have "join_with ''/'' [t, join_with ''/'' es, f] = join_with ''/'' (t # es @ [f])"
    using join_with_append [of "[t]" "es @ [f]" "''/''"] join_with_append [of es "[f]" "''/''"] False by simp
  moreover have "pathJoin (t # es @ [f]) = join_with ''/'' (t # es @ [f])"
    using assms by (intro pathJoin_plain) simp_all
  moreover have "filter (\<lambda>e. e \<noteq> []) (t # es @ [f]) = t # es @ [f]"
    using assms by (auto simp: filter_id_conv list_all_iff plainElem_def)
  moreover have "filter (\<lambda>e. e \<noteq> []) [t, join_with ''/'' es, f] = [t, join_with ''/'' es, f]"
    using join_plain_nonempty [OF assms(1) False] assms(2,3) by (simp add: plainElem_def)
  ultimately show ?thesis by (simp add: pathJoin_def)
qed

section \<open>The files of a batch\<close>

text \<open>What a flush should write: key, table and rows of every file.\<close>

type_synonym entry = "string \<times> string \<times> rows"

definition partEntries :: "string \<Rightarrow> partition \<Rightarrow> entry list" where
  "partEntries batchID p =
     (pathJoin [TableEpisodes, ptKey p, partFile batchID], TableEpisodes, REpisodes (ptEpisodes p))
     # (if ptSteps p = [] then [] else [(pathJoin [TableSteps, ptKey p, partFile batchID], TableSteps, RSteps (ptSteps p))])"

definition outcomeEntries :: "string \<Rightarrow> time \<Rightarrow> Outcome list \<Rightarrow> entry list" where
  "outcomeEntries batchID now ocs =
     (if ocs = [] then [] else [(pathJoin [TableOutcomes, ''dt='' @ formatDate (unixMicro now), partFile batchID], TableOutcomes, ROutcomes ocs)])"

definition rewardEntries :: "string \<Rightarrow> time \<Rightarrow> Reward list \<Rightarrow> entry list" where
  "rewardEntries batchID now rws =
     (if rws = [] then [] else [(pathJoin [TableRewards, ''dt='' @ formatDate (unixMicro now), partFile batchID], TableRewards, RRewards rws)])"

definition batchEntries :: "string \<Rightarrow> time \<Rightarrow> partition list \<times> Outcome list \<times> Reward list \<Rightarrow> entry list" where
  "batchEntries batchID now = (\<lambda>(due, ocs, rws).
     concat (map (partEntries batchID) due) @ outcomeEntries batchID now ocs @ rewardEntries batchID now rws)"

definition codecOf :: "LakeSink \<Rightarrow> string" where
  "codecOf s = to_lower (loCompression (lsOpts s))"

text \<open>The put log and the manifest files that correspond to the entries.\<close>

definition wrote :: "Codec \<Rightarrow> string \<Rightarrow> entry list \<Rightarrow> batch \<Rightarrow> batch \<Rightarrow> (string \<times> string) list \<Rightarrow> bool" where
  "wrote cd c ents b b' lg \<longleftrightarrow>
     list_all2 (\<lambda>(k, t, rs) (k', v). k' = k \<and> encRows cd c rs = Some v) ents lg \<and>
     bFiles b' = bFiles b @ map2 (\<lambda>(k, t, rs) (_, v). \<lparr>mfPath = k, mfRows = int (rowCount rs), mfBytes = int (length v), mfTable = t\<rparr>) ents lg"

lemma wrote_append:
  "wrote cd c ents b b1 lg \<Longrightarrow> wrote cd c ents' b1 b' lg' \<Longrightarrow> wrote cd c (ents @ ents') b b' (lg @ lg')"
  by (auto simp: wrote_def list_all2_append list_all2_lengthD)

lemma wrote_keys:
  assumes "wrote cd c ents b b' lg"
  shows "map fst lg = map fst ents"
proof -
  have "list_all2 (\<lambda>(k, t, rs) (k', v). k' = k \<and> encRows cd c rs = Some v) ents lg"
    using assms by (simp add: wrote_def)
  then show ?thesis by (induction rule: list_all2_induct) auto
qed

lemma wrote_Nil: "wrote cd c [] b b []"
  by (simp add: wrote_def)

text \<open>A stage of the flush: on success it has written its entries and left the sink alone, on failure
  it has put only files of its entries.\<close>

definition stageOK ::
  "Codec \<Rightarrow> 's Store \<Rightarrow> entry list \<Rightarrow> batch \<Rightarrow> LakeSink \<times> 's \<Rightarrow> batch option \<times> LakeSink \<times> 's \<Rightarrow> bool"
where
  "stageOK cd S ents b = (\<lambda>(s, st) (r, s', st').
     \<exists>lg. puts S st lg st' \<and>
       (case r of
          None \<Rightarrow> set (map fst lg) \<subseteq> fst ` set ents
        | Some b' \<Rightarrow> s' = s \<and> wrote cd (codecOf s) ents b b' lg))"

definition goodCodec :: "Codec \<Rightarrow> bool" where
  "goodCodec cd \<longleftrightarrow> (\<forall>c rs. encRows cd c rs \<noteq> Some [])"

lemma putParquet_log:
  assumes "goodCodec cd" and "rowCount rs \<noteq> 0" and "putParquet cd S s k rs st = (r, st1)"
  shows "case r of
      None \<Rightarrow> puts S st [] st1
    | Some n \<Rightarrow> (\<exists>v. encRows cd (codecOf s) rs = Some v \<and> puts S st [(k, v)] st1 \<and> n = int (length v))"
proof (cases "encRows cd (codecOf s) rs")
  case None
  then show ?thesis using assms(2,3) by (auto simp: putParquet_def codecOf_def intro: puts.intros)
next
  case (Some v)
  obtain ok st2 where P: "stPut S k v st = (ok, st2)" by (cases "stPut S k v st")
  have "v \<noteq> []" using assms(1) Some by (auto simp: goodCodec_def)
  then have "r = (if ok then Some (int (length v)) else None)" "st1 = st2"
    using assms(2,3) Some P by (auto simp: putParquet_def codecOf_def)
  then show ?thesis using P Some by (cases ok) (auto intro: puts.intros)
qed

lemma bFiles_addTime [simp]: "bFiles (addTime t b) = bFiles b"
  by (simp add: addTime_def Let_def)

lemma bFiles_fold_addTime [simp]: "bFiles (fold (\<lambda>x. addTime (f x)) xs b) = bFiles b"
  by (induction xs arbitrary: b) simp_all

lemma flushPart_stage:
  assumes "goodCodec cd" and "ptEpisodes p \<noteq> []"
  shows "stageOK cd S (partEntries batchID p) b w (flushPart cd S batchID p b w)"
proof -
  obtain s st where w [simp]: "w = (s, st)" by (cases w)
  let ?ek = "pathJoin [TableEpisodes, ptKey p, partFile batchID]"
  let ?sk = "pathJoin [TableSteps, ptKey p, partFile batchID]"
  obtain r1 st1 where P1: "putParquet cd S s ?ek (REpisodes (ptEpisodes p)) st = (r1, st1)"
    by (cases "putParquet cd S s ?ek (REpisodes (ptEpisodes p)) st")
  have L1: "case r1 of None \<Rightarrow> puts S st [] st1
      | Some n \<Rightarrow> (\<exists>v. encRows cd (codecOf s) (REpisodes (ptEpisodes p)) = Some v \<and> puts S st [(?ek, v)] st1 \<and> n = int (length v))"
    using putParquet_log [OF assms(1) _ P1] assms(2) by simp
  show ?thesis
  proof (cases r1)
    case None
    then show ?thesis using L1 P1 by (auto simp: stageOK_def flushPart_def Let_def)
  next
    case (Some n)
    then obtain v where v: "encRows cd (codecOf s) (REpisodes (ptEpisodes p)) = Some v" "puts S st [(?ek, v)] st1" "n = int (length v)"
      using L1 by auto
    show ?thesis
    proof (cases "ptSteps p = []")
      case True
      then show ?thesis using v Some P1
        by (auto simp: stageOK_def flushPart_def Let_def partEntries_def wrote_def addFile_def intro!: exI [of _ "[(?ek, v)]"])
    next
      case False
      obtain r2 st2 where P2: "putParquet cd S s ?sk (RSteps (ptSteps p)) st1 = (r2, st2)"
        by (cases "putParquet cd S s ?sk (RSteps (ptSteps p)) st1")
      have L2: "case r2 of None \<Rightarrow> puts S st1 [] st2
          | Some n \<Rightarrow> (\<exists>v. encRows cd (codecOf s) (RSteps (ptSteps p)) = Some v \<and> puts S st1 [(?sk, v)] st2 \<and> n = int (length v))"
        using putParquet_log [OF assms(1) _ P2] False by simp
      show ?thesis
      proof (cases r2)
        case None
        then have "puts S st [(?ek, v)] st2" using puts_append [OF v(2)] L2 by fastforce
        then show ?thesis using None P1 P2 Some False
          by (auto simp: stageOK_def flushPart_def Let_def partEntries_def intro!: exI [of _ "[(?ek, v)]"])
      next
        case (Some m)
        then obtain v2 where v2: "encRows cd (codecOf s) (RSteps (ptSteps p)) = Some v2" "puts S st1 [(?sk, v2)] st2" "m = int (length v2)"
          using L2 by auto
        have "puts S st [(?ek, v), (?sk, v2)] st2" using puts_append [OF v(2) v2(2)] by simp
        then show ?thesis using P1 P2 Some \<open>r1 = Some n\<close> False v v2
          by (auto simp: stageOK_def flushPart_def Let_def partEntries_def wrote_def addFile_def intro!: exI [of _ "[(?ek, v), (?sk, v2)]"])
      qed
    qed
  qed
qed

lemma stageOK_seq:
  assumes "stageOK cd S ents b w (Some b1, w1)" and "stageOK cd S ents' b1 w1 (r, w2)"
  shows "stageOK cd S (ents @ ents') b w (r, w2)"
proof -
  obtain s st where w: "w = (s, st)" by (cases w)
  obtain lg st1 where 1: "w1 = (s, st1)" "puts S st lg st1" "wrote cd (codecOf s) ents b b1 lg"
    using assms(1) w by (cases w1) (auto simp: stageOK_def)
  obtain lg' s2 st2 where 2: "w2 = (s2, st2)" "puts S st1 lg' st2"
    "case r of None \<Rightarrow> set (map fst lg') \<subseteq> fst ` set ents' | Some b' \<Rightarrow> s2 = s \<and> wrote cd (codecOf s) ents' b1 b' lg'"
    using assms(2) 1(1) by (cases w2) (auto simp: stageOK_def)
  have "puts S st (lg @ lg') st2" using 1(2) 2(2) by (rule puts_append)
  moreover have "map fst lg = map fst ents"
    using 1(3) by (rule wrote_keys)
  then have "set (map fst lg) \<subseteq> fst ` set ents" by (metis order_refl set_map)
  moreover have "case r of None \<Rightarrow> set (map fst (lg @ lg')) \<subseteq> fst ` set (ents @ ents')
      | Some b' \<Rightarrow> s2 = s \<and> wrote cd (codecOf s) (ents @ ents') b b' (lg @ lg')"
  proof (cases r)
    case None
    then have "set (map fst lg') \<subseteq> fst ` set ents'" using 2(3) by simp
    then have "set (map fst (lg @ lg')) \<subseteq> fst ` set (ents @ ents')"
      using calculation by (simp add: image_Un) blast
    then show ?thesis using None by simp
  next
    case (Some b')
    then show ?thesis using 2(3) wrote_append [OF 1(3)] by simp
  qed
  ultimately show ?thesis unfolding stageOK_def w 2(1) by blast
qed

lemma stageOK_fail: "stageOK cd S ents b w (None, w1) \<Longrightarrow> stageOK cd S (ents @ ents') b w (None, w1)"
  unfolding stageOK_def by (auto simp: image_Un split: prod.splits) blast

lemma flushParts_stage:
  assumes "goodCodec cd" and "\<forall>p \<in> set ps. ptEpisodes p \<noteq> []"
  shows "stageOK cd S (concat (map (partEntries batchID) ps)) b w (flushParts cd S batchID ps b w)"
  using assms(2)
proof (induction ps arbitrary: b w)
  case Nil
  then show ?case using wrote_Nil by (cases w) (auto simp: stageOK_def intro!: exI [of _ "[]"] puts.intros)
next
  case (Cons p ps)
  obtain r w1 where F: "flushPart cd S batchID p b w = (r, w1)" by (cases "flushPart cd S batchID p b w")
  have st: "stageOK cd S (partEntries batchID p) b w (r, w1)"
    using flushPart_stage [OF assms(1), of p S batchID b w] Cons.prems F by simp
  show ?case
  proof (cases r)
    case None
    then show ?thesis using F stageOK_fail [OF st [unfolded None]] by simp
  next
    case (Some b1)
    obtain r2 w2 where R: "flushParts cd S batchID ps b1 w1 = (r2, w2)" by (cases "flushParts cd S batchID ps b1 w1")
    then have "stageOK cd S (concat (map (partEntries batchID) ps)) b1 w1 (r2, w2)"
      using Cons.IH [of b1 w1] Cons.prems by simp
    from stageOK_seq [OF st [unfolded Some] this] show ?thesis using F Some R by simp
  qed
qed

lemma flushOutcomes_stage:
  assumes "goodCodec cd"
  shows "stageOK cd S (outcomeEntries batchID now ocs) b w (flushOutcomes cd S batchID now ocs b w)"
proof -
  obtain s st where w [simp]: "w = (s, st)" by (cases w)
  show ?thesis
  proof (cases "ocs = []")
    case True
    then show ?thesis using wrote_Nil by (auto simp: stageOK_def flushOutcomes_def outcomeEntries_def intro!: exI [of _ "[]"] puts.intros)
  next
    case False
    let ?k = "pathJoin [TableOutcomes, ''dt='' @ formatDate (unixMicro now), partFile batchID]"
    obtain r st1 where P: "putParquet cd S s ?k (ROutcomes ocs) st = (r, st1)" by (cases "putParquet cd S s ?k (ROutcomes ocs) st")
    have L: "case r of None \<Rightarrow> puts S st [] st1
        | Some n \<Rightarrow> (\<exists>v. encRows cd (codecOf s) (ROutcomes ocs) = Some v \<and> puts S st [(?k, v)] st1 \<and> n = int (length v))"
      using putParquet_log [OF assms _ P] False by simp
    show ?thesis
    proof (cases r)
      case None
      then show ?thesis using L P False by (auto simp: stageOK_def flushOutcomes_def Let_def)
    next
      case (Some n)
      then obtain v where "encRows cd (codecOf s) (ROutcomes ocs) = Some v" "puts S st [(?k, v)] st1" "n = int (length v)" using L by auto
      then show ?thesis using P Some False
        by (auto simp: stageOK_def flushOutcomes_def outcomeEntries_def Let_def wrote_def addFile_def intro!: exI [of _ "[(?k, v)]"])
    qed
  qed
qed

lemma flushRewards_stage:
  assumes "goodCodec cd"
  shows "stageOK cd S (rewardEntries batchID now rws) b w (flushRewards cd S batchID now rws b w)"
proof -
  obtain s st where w [simp]: "w = (s, st)" by (cases w)
  show ?thesis
  proof (cases rws)
    case Nil
    then show ?thesis using wrote_Nil by (auto simp: stageOK_def flushRewards_def rewardEntries_def intro!: exI [of _ "[]"] puts.intros)
  next
    case (Cons r0 rest)
    let ?k = "pathJoin [TableRewards, ''dt='' @ formatDate (unixMicro now), partFile batchID]"
    obtain r st1 where P: "putParquet cd S s ?k (RRewards rws) st = (r, st1)" by (cases "putParquet cd S s ?k (RRewards rws) st")
    have L: "case r of None \<Rightarrow> puts S st [] st1
        | Some n \<Rightarrow> (\<exists>v. encRows cd (codecOf s) (RRewards rws) = Some v \<and> puts S st [(?k, v)] st1 \<and> n = int (length v))"
      using putParquet_log [OF assms _ P] Cons by simp
    show ?thesis
    proof (cases r)
      case None
      then show ?thesis using L P Cons by (auto simp: stageOK_def flushRewards_def Let_def)
    next
      case (Some n)
      then obtain v where "encRows cd (codecOf s) (RRewards rws) = Some v" "puts S st [(?k, v)] st1" "n = int (length v)" using L by auto
      then show ?thesis using P Some Cons
        by (auto simp: stageOK_def flushRewards_def rewardEntries_def Let_def wrote_def addFile_def intro!: exI [of _ "[(?k, v)]"])
    qed
  qed
qed

text \<open>The data files of a batch, as one stage.\<close>

definition flushData ::
  "Codec \<Rightarrow> 's Store \<Rightarrow> time \<Rightarrow> string \<Rightarrow> partition list \<times> Outcome list \<times> Reward list \<Rightarrow> LakeSink \<times> 's
     \<Rightarrow> batch option \<times> LakeSink \<times> 's"
where
  "flushData cd S now batchID = (\<lambda>(due, ocs, rws) w.
     case flushParts cd S batchID due zeroBatch w of
       (None, w1) \<Rightarrow> (None, w1)
     | (Some b1, w1) \<Rightarrow>
         (case flushOutcomes cd S batchID now ocs b1 w1 of
            (None, w2) \<Rightarrow> (None, w2)
          | (Some b2, w2) \<Rightarrow> flushRewards cd S batchID now rws b2 w2))"

lemma flushBatch_data:
  "flushBatch cd S now batchID d w =
     (case flushData cd S now batchID d w of
        (None, w1) \<Rightarrow> (False, w1)
      | (Some b, s1, st1) \<Rightarrow>
          (case stPut S (manifestKey now batchID) (encManifest cd (manifestOf cd batchID now b s1)) st1 of
             (False, st2) \<Rightarrow> (False, s1, st2)
           | (True, st2) \<Rightarrow> (True, bumpStats (countBatch b) s1, st2)))"
  by (auto simp: flushBatch_def flushData_def writeManifest_def split: prod.splits option.splits)

lemma flushData_stage:
  assumes "goodCodec cd" and "\<forall>p \<in> set due. ptEpisodes p \<noteq> []"
  shows "stageOK cd S (batchEntries batchID now (due, ocs, rws)) zeroBatch w (flushData cd S now batchID (due, ocs, rws) w)"
proof -
  obtain r1 w1 where P: "flushParts cd S batchID due zeroBatch w = (r1, w1)" by (cases "flushParts cd S batchID due zeroBatch w")
  have S1: "stageOK cd S (concat (map (partEntries batchID) due)) zeroBatch w (r1, w1)"
    using flushParts_stage [OF assms, of S batchID zeroBatch w] P by simp
  show ?thesis
  proof (cases r1)
    case None
    then show ?thesis using P stageOK_fail [OF S1 [unfolded None]] by (simp add: flushData_def batchEntries_def)
  next
    case (Some b1)
    obtain r2 w2 where O: "flushOutcomes cd S batchID now ocs b1 w1 = (r2, w2)" by (cases "flushOutcomes cd S batchID now ocs b1 w1")
    have "stageOK cd S (outcomeEntries batchID now ocs) b1 w1 (r2, w2)"
      using flushOutcomes_stage [OF assms(1), of S batchID now ocs b1 w1] O by simp
    from stageOK_seq [OF S1 [unfolded Some] this] have S2:
      "stageOK cd S (concat (map (partEntries batchID) due) @ outcomeEntries batchID now ocs) zeroBatch w (r2, w2)" .
    show ?thesis
    proof (cases r2)
      case None
      then show ?thesis using P O Some stageOK_fail [OF S2 [unfolded None]] by (simp add: flushData_def batchEntries_def)
    next
      case (Some b2)
      obtain r3 w3 where R: "flushRewards cd S batchID now rws b2 w2 = (r3, w3)" by (cases "flushRewards cd S batchID now rws b2 w2")
      have "stageOK cd S (rewardEntries batchID now rws) b2 w2 (r3, w3)"
        using flushRewards_stage [OF assms(1), of S batchID now rws b2 w2] R by simp
      from stageOK_seq [OF S2 [unfolded Some] this] show ?thesis
        using P O R \<open>r1 = Some b1\<close> Some by (simp add: flushData_def batchEntries_def)
    qed
  qed
qed

section \<open>Keys of a batch\<close>

definition keyElems :: "string \<Rightarrow> string list" where
  "keyElems k = (if k = [] then [] else splitSlash [] k)"

lemma keyElems_join: "list_all plainElem es \<Longrightarrow> keyElems (join_with ''/'' es) = es"
  using join_plain_nonempty [of es] split_join_plain [of es] by (cases es) (auto simp: keyElems_def)

definition wfPart :: "partition \<Rightarrow> bool" where
  "wfPart p \<longleftrightarrow> ptEpisodes p \<noteq> [] \<and> (\<exists>es. list_all plainElem es \<and> ptKey p = join_with ''/'' es)"

definition partSlots :: "string \<Rightarrow> partition \<Rightarrow> string list list" where
  "partSlots batchID p =
     (TableEpisodes # keyElems (ptKey p) @ [partFile batchID])
     # (if ptSteps p = [] then [] else [TableSteps # keyElems (ptKey p) @ [partFile batchID]])"

definition dayElem :: "time \<Rightarrow> string" where
  "dayElem now = ''dt='' @ formatDate (unixMicro now)"

definition batchSlots :: "string \<Rightarrow> time \<Rightarrow> partition list \<times> Outcome list \<times> Reward list \<Rightarrow> string list list" where
  "batchSlots batchID now = (\<lambda>(due, ocs, rws).
     concat (map (partSlots batchID) due)
     @ (if ocs = [] then [] else [[TableOutcomes, dayElem now, partFile batchID]])
     @ (if rws = [] then [] else [[TableRewards, dayElem now, partFile batchID]]))"

lemma table_plain: "plainElem TableEpisodes" "plainElem TableSteps" "plainElem TableOutcomes" "plainElem TableRewards" "plainElem ''manifests''"
  by (simp_all add: plainElem_def table_names)

lemma dayElem_plain: "plainElem (dayElem now)"
  using formatDate_no_slash by (simp add: dayElem_def plain_prefixed [of _ "''dt=''", simplified])

lemma partFile_plain: "CHR ''/'' \<notin> set batchID \<Longrightarrow> plainElem (partFile batchID)"
  by (simp add: partFile_def plainElem_def)

lemma json_plain: "CHR ''/'' \<notin> set batchID \<Longrightarrow> plainElem (batchID @ ''.json'')"
  by (auto simp: plainElem_def append_eq_Cons_conv)

lemma keyElems_plain: "wfPart p \<Longrightarrow> list_all plainElem (keyElems (ptKey p)) \<and> ptKey p = join_with ''/'' (keyElems (ptKey p))"
  by (auto simp: wfPart_def keyElems_join)

lemma partEntries_slots:
  assumes "wfPart p" and "CHR ''/'' \<notin> set batchID"
  shows "map fst (partEntries batchID p) = map (join_with ''/'') (partSlots batchID p)"
proof -
  obtain es where es: "list_all plainElem es" "ptKey p = join_with ''/'' es" using assms(1) by (auto simp: wfPart_def)
  then have "pathJoin [t, ptKey p, partFile batchID] = join_with ''/'' (t # es @ [partFile batchID])" if "plainElem t" for t
    using tableKey [OF es(1) that partFile_plain [OF assms(2)]] by simp
  moreover have "keyElems (ptKey p) = es" using es by (simp add: keyElems_join)
  ultimately show ?thesis using table_plain by (simp add: partEntries_def partSlots_def)
qed

lemma batchEntries_slots:
  assumes "\<forall>p \<in> set due. wfPart p" and "CHR ''/'' \<notin> set batchID"
  shows "map fst (batchEntries batchID now (due, ocs, rws)) = map (join_with ''/'') (batchSlots batchID now (due, ocs, rws))"
proof -
  have "map fst (concat (map (partEntries batchID) due)) = map (join_with ''/'') (concat (map (partSlots batchID) due))"
    using assms by (induction due) (simp_all add: partEntries_slots)
  moreover have "pathJoin [t, dayElem now, partFile batchID] = join_with ''/'' [t, dayElem now, partFile batchID]" if "plainElem t" for t
    using that dayElem_plain partFile_plain [OF assms(2)] by (intro pathJoin_plain) simp_all
  ultimately show ?thesis
    using table_plain by (simp add: batchEntries_def batchSlots_def outcomeEntries_def rewardEntries_def dayElem_def)
qed

lemma batchSlots_plain:
  assumes "\<forall>p \<in> set due. wfPart p" and "CHR ''/'' \<notin> set batchID" and "es \<in> set (batchSlots batchID now (due, ocs, rws))"
  shows "list_all plainElem es \<and> es \<noteq> [] \<and> last es = partFile batchID"
  using assms keyElems_plain table_plain dayElem_plain partFile_plain [OF assms(2)]
  by (auto simp: batchSlots_def partSlots_def split: if_splits)

lemma distinct_batchSlots:
  assumes "\<forall>p \<in> set due. wfPart p" and "distinct (map ptKey due)"
  shows "distinct (batchSlots batchID now (due, ocs, rws))"
proof -
  have "distinct (concat (map (partSlots batchID) due))"
    using assms
  proof (induction due)
    case (Cons p due)
    have "keyElems (ptKey p) \<noteq> keyElems (ptKey q)" if "q \<in> set due" for q
      using Cons.prems that keyElems_plain [of p] keyElems_plain [of q] by (metis distinct.simps(2) image_eqI list.map(2) list.set_intros(1) list.set_intros(2) list.set_map)
    then show ?case using Cons by (auto simp: partSlots_def table_names)
  qed simp
  then show ?thesis by (auto simp: batchSlots_def partSlots_def table_names)
qed

lemma manifestKey_slot:
  "CHR ''/'' \<notin> set batchID \<Longrightarrow> manifestKey now batchID = join_with ''/'' [''manifests'', dayElem now, batchID @ ''.json'']"
  unfolding manifestKey_def dayElem_def [symmetric]
  using table_plain dayElem_plain json_plain by (intro pathJoin_plain) simp_all

lemma part_not_json: "partFile batchID \<noteq> batchID @ ''.json''"
proof
  assume "partFile batchID = batchID @ ''.json''"
  then have "length (partFile batchID) = length (batchID @ ''.json'')" by simp
  then show False by (simp add: partFile_def)
qed

section \<open>A batch is visible whole or not at all\<close>

text \<open>The reader's view of a batch: its manifest and the files the manifest names, with their rows.\<close>

definition published ::
  "Codec \<Rightarrow> string \<Rightarrow> (string \<Rightarrow> string option) \<Rightarrow> string \<Rightarrow> entry list \<Rightarrow> bool"
where
  "published cd c look mk ents \<longleftrightarrow>
     (\<exists>m. look mk = Some (encManifest cd m) \<and>
        list_all2 (\<lambda>(k, t, rs) f. mfPath f = k \<and> mfTable f = t \<and> mfRows f = int (rowCount rs) \<and>
                     (\<exists>v. encRows cd c rs = Some v \<and> look k = Some v)) ents (lmFiles m))"

lemma wrote_files:
  assumes "wrote cd c ents b b' lg" and "bFiles b = []" and "\<And>k v. (k, v) \<in> set lg \<Longrightarrow> look k = Some v"
  shows "list_all2 (\<lambda>(k, t, rs) f. mfPath f = k \<and> mfTable f = t \<and> mfRows f = int (rowCount rs) \<and>
      (\<exists>v. encRows cd c rs = Some v \<and> look k = Some v)) ents (bFiles b')"
proof -
  have L: "list_all2 (\<lambda>(k, t, rs) (k', v). k' = k \<and> encRows cd c rs = Some v) ents lg"
    and B: "bFiles b' = map2 (\<lambda>(k, t, rs) (_, v). \<lparr>mfPath = k, mfRows = int (rowCount rs), mfBytes = int (length v), mfTable = t\<rparr>) ents lg"
    using assms(1,2) by (simp_all add: wrote_def)
  from L assms(3) show ?thesis
    unfolding B by (induction rule: list_all2_induct) (auto split: prod.splits)
qed

context object_store
begin

lemma slots_distinct_addr:
  assumes "good st" and "distinct slots" and "\<And>es. es \<in> set slots \<Longrightarrow> list_all plainElem es \<and> es \<noteq> []"
  shows "distinct (map (\<lambda>es. addr st (join_with ''/'' es)) slots)"
proof -
  have "inj_on (\<lambda>es. addr st (join_with ''/'' es)) (set slots)"
    using assms(3) addr_plain [OF assms(1)] by (auto simp: inj_on_def)
  then show ?thesis using assms(2) by (simp add: distinct_map)
qed

text \<open>The data files: their log, and that no other object changed.\<close>

lemma data_files:
  assumes "good st" and "goodCodec cd" and wf: "\<forall>p \<in> set due. wfPart p" and noslash: "CHR ''/'' \<notin> set batchID"
    and D: "flushData cd S now batchID (due, ocs, rws) (s, st) = (r, s1, st1)"
  obtains lg where "puts S st lg st1" and "good st1" and "addr st1 = addr st"
    and "\<And>b. r = Some b \<Longrightarrow> s1 = s \<and> wrote cd (codecOf s) (batchEntries batchID now (due, ocs, rws)) zeroBatch b lg"
    and "\<And>es. list_all plainElem es \<Longrightarrow> es \<noteq> [] \<Longrightarrow> last es \<noteq> partFile batchID \<Longrightarrow>
      get (join_with ''/'' es) st1 = get (join_with ''/'' es) st"
proof -
  let ?ents = "batchEntries batchID now (due, ocs, rws)" and ?slots = "batchSlots batchID now (due, ocs, rws)"
  have "\<forall>p \<in> set due. ptEpisodes p \<noteq> []" using wf by (auto simp: wfPart_def)
  from flushData_stage [OF assms(2) this, of S batchID now ocs rws "(s, st)"] D
  obtain lg where P: "puts S st lg st1"
    and R: "case r of None \<Rightarrow> set (map fst lg) \<subseteq> fst ` set ?ents | Some b \<Rightarrow> s1 = s \<and> wrote cd (codecOf s) ?ents zeroBatch b lg"
    by (auto simp: stageOK_def)
  have "set (map fst lg) \<subseteq> set (map fst ?ents)"
  proof (cases r)
    case (Some b)
    then have "map fst lg = map fst ?ents" using R wrote_keys [of cd "codecOf s" ?ents zeroBatch b lg] by simp
    then show ?thesis by simp
  qed (use R in simp)
  then have keys: "set (map fst lg) \<subseteq> join_with ''/'' ` set ?slots"
    using batchEntries_slots [OF wf noslash, of now ocs rws] by (metis set_map)
  have away: "\<forall>p \<in> set lg. addr st (fst p) \<noteq> addr st (join_with ''/'' es)"
    if "list_all plainElem es" "es \<noteq> []" "last es \<noteq> partFile batchID" for es
  proof
    fix p assume "p \<in> set lg"
    then obtain sl where sl: "sl \<in> set ?slots" "fst p = join_with ''/'' sl" using keys by (auto simp: image_iff)
    then show "addr st (fst p) \<noteq> addr st (join_with ''/'' es)"
      using addr_plain [OF assms(1), of sl es] batchSlots_plain [OF wf noslash sl(1)] that by auto
  qed
  note F = puts_frame [OF P assms(1)]
  show ?thesis
  proof (rule that [OF P])
    show "good st1" and "addr st1 = addr st" using F by blast+
    show "s1 = s \<and> wrote cd (codecOf s) ?ents zeroBatch b lg" if "r = Some b" for b using R that by simp
    show "get (join_with ''/'' es) st1 = get (join_with ''/'' es) st"
      if "list_all plainElem es" "es \<noteq> []" "last es \<noteq> partFile batchID" for es
      using F away [OF that] by blast
  qed
qed

text \<open>With the manifest put, the whole batch is there.\<close>

lemma manifest_publishes:
  assumes "good st" and wf: "\<forall>p \<in> set due. wfPart p" and dk: "distinct (map ptKey due)" and noslash: "CHR ''/'' \<notin> set batchID"
    and P: "puts S st lg st1" and w: "wrote cd (codecOf s) (batchEntries batchID now (due, ocs, rws)) zeroBatch b lg"
    and M: "stPut S (manifestKey now batchID) (encManifest cd (manifestOf cd batchID now b s)) st1 = (True, st2)"
  shows "published cd (codecOf s) (\<lambda>k. get k st2) (manifestKey now batchID) (batchEntries batchID now (due, ocs, rws))"
proof -
  let ?slots = "batchSlots batchID now (due, ocs, rws)" and ?ms = "[''manifests'', dayElem now, batchID @ ''.json'']"
  let ?lg = "lg @ [(manifestKey now batchID, encManifest cd (manifestOf cd batchID now b s))]"
  have ms: "list_all plainElem ?ms" "manifestKey now batchID = join_with ''/'' ?ms"
    using table_plain dayElem_plain json_plain [OF noslash] manifestKey_slot [OF noslash] by simp_all
  have slots: "list_all plainElem es \<and> es \<noteq> [] \<and> last es = partFile batchID" if "es \<in> set ?slots" for es
    using batchSlots_plain [OF wf noslash that] .
  have P2: "puts S st ?lg st2" using puts_append [OF P puts.stored [OF M puts.nothing]] by simp
  have "map fst lg = map (join_with ''/'') ?slots"
    using wrote_keys [OF w] batchEntries_slots [OF wf noslash, of now ocs rws] by simp
  then have "map fst ?lg = map (join_with ''/'') (?slots @ [?ms])" using ms(2) by simp
  then have same: "map (addr st) (map fst ?lg) = map (addr st) (map (join_with ''/'') (?slots @ [?ms]))" by (rule arg_cong)
  have "last ?ms \<noteq> partFile batchID" using part_not_json [of batchID] by simp
  then have "?ms \<notin> set ?slots" using slots by blast
  then have "distinct (?slots @ [?ms])" using distinct_batchSlots [OF wf dk] by simp
  moreover have "list_all plainElem es \<and> es \<noteq> []" if "es \<in> set (?slots @ [?ms])" for es
  proof (cases "es = ?ms")
    case True
    then show ?thesis using ms(1) by simp
  next
    case False
    then show ?thesis using that slots [of es] by simp
  qed
  ultimately have "distinct (map (\<lambda>es. addr st (join_with ''/'' es)) (?slots @ [?ms]))"
    using slots_distinct_addr [OF assms(1), of "?slots @ [?ms]"] by blast
  then have "distinct (map (\<lambda>p. addr st (fst p)) ?lg)" using same by (simp add: comp_def)
  from puts_present [OF P2 assms(1) this] have here: "get k st2 = Some v" if "(k, v) \<in> set ?lg" for k v using that by blast
  then show ?thesis
    unfolding published_def using wrote_files [OF w, of "\<lambda>k. get k st2"]
    by (intro exI [of _ "manifestOf cd batchID now b s"]) (auto simp: manifestOf_def zeroBatch_def)
qed

lemma flush_all_or_nothing:
  assumes "good st" and "goodCodec cd" and wf: "\<forall>p \<in> set due. wfPart p" and dk: "distinct (map ptKey due)"
    and noslash: "CHR ''/'' \<notin> set batchID"
    and run: "flushBatch cd S now batchID (due, ocs, rws) (s, st) = (ok, s', st')"
  shows "(\<forall>es. list_all plainElem es \<and> es \<noteq> [] \<and> last es \<notin> {partFile batchID, batchID @ ''.json''} \<longrightarrow>
      get (join_with ''/'' es) st' = get (join_with ''/'' es) st) \<and>
    (if ok then published cd (codecOf s) (\<lambda>k. get k st') (manifestKey now batchID) (batchEntries batchID now (due, ocs, rws))
     else get (manifestKey now batchID) st' = get (manifestKey now batchID) st)"
proof -
  let ?ms = "[''manifests'', dayElem now, batchID @ ''.json'']"
  have ms: "list_all plainElem ?ms" "?ms \<noteq> []" "last ?ms = batchID @ ''.json''" "manifestKey now batchID = join_with ''/'' ?ms"
    using table_plain dayElem_plain json_plain [OF noslash] manifestKey_slot [OF noslash] by simp_all
  obtain r s1 st1 where D: "flushData cd S now batchID (due, ocs, rws) (s, st) = (r, s1, st1)"
    by (cases "flushData cd S now batchID (due, ocs, rws) (s, st)")
  obtain lg where P: "puts S st lg st1" and g1: "good st1" "addr st1 = addr st"
    and W: "\<And>b. r = Some b \<Longrightarrow> s1 = s \<and> wrote cd (codecOf s) (batchEntries batchID now (due, ocs, rws)) zeroBatch b lg"
    and keep1: "\<And>es. list_all plainElem es \<Longrightarrow> es \<noteq> [] \<Longrightarrow> last es \<noteq> partFile batchID \<Longrightarrow>
      get (join_with ''/'' es) st1 = get (join_with ''/'' es) st"
    using data_files [OF assms(1,2) wf noslash D] by metis
  have keepM: "get (manifestKey now batchID) st1 = get (manifestKey now batchID) st"
    unfolding ms(4) using part_not_json [of batchID] ms(3) by (intro keep1 [OF ms(1,2)]) metis
  show ?thesis
  proof (cases r)
    case None
    then have "ok = False" "st' = st1" using run D by (auto simp: flushBatch_data)
    then show ?thesis using keep1 keepM by auto
  next
    case (Some b)
    let ?body = "encManifest cd (manifestOf cd batchID now b s1)"
    obtain ok2 st2 where M: "stPut S (manifestKey now batchID) ?body st1 = (ok2, st2)" by (cases "stPut S (manifestKey now batchID) ?body st1")
    have o2: "ok = ok2" "st' = st2" using run D Some M by (auto simp: flushBatch_data split: bool.splits)
    have keep2: "get (join_with ''/'' es) st2 = get (join_with ''/'' es) st1"
      if "list_all plainElem es" "es \<noteq> []" "last es \<noteq> batchID @ ''.json''" for es
      using put_other [OF g1(1) M, of "join_with ''/'' es"] addr_plain [OF g1(1) that(1) ms(1) that(2) ms(2)] that(3)
      unfolding ms(4) by (metis ms(3))
    show ?thesis
    proof (cases ok2)
      case False
      then have "get k st2 = get k st1" for k using put_other [OF g1(1) M] by blast
      then show ?thesis using o2 False keep1 keepM by auto
    next
      case True
      from W [OF Some] M True have "published cd (codecOf s) (\<lambda>k. get k st2) (manifestKey now batchID) (batchEntries batchID now (due, ocs, rws))"
        using manifest_publishes [OF assms(1) wf dk noslash P, of cd s now ocs rws b st2] by simp
      then show ?thesis using o2 True keep1 keep2 by auto
    qed
  qed
qed

end

section \<open>The sink's own invariant\<close>

text \<open>The pending partitions: one per key, each filed under its own key, none empty.\<close>

definition wfSink :: "LakeSink \<Rightarrow> bool" where
  "wfSink s \<longleftrightarrow> distinct (map fst (lsPending s)) \<and> (\<forall>(k, p) \<in> set (lsPending s). ptKey p = k \<and> wfPart p)"

text \<open>Every state the sink can reach from its construction, on any store, whatever the store answers.\<close>

inductive sinkRun :: "Codec \<Rightarrow> 's Store \<Rightarrow> LakeOptions \<Rightarrow> LakeSink \<times> 's \<Rightarrow> bool"
  for cd :: Codec and S :: "'s Store" and o0 :: LakeOptions
where
  opened: "sinkRun cd S o0 (zeroLakeSink (lakeDefaults o0), st)"
| episodes: "sinkRun cd S o0 w \<Longrightarrow> sinkRun cd S o0 (snd (Write cd S now0 now newID eps w))"
| outcomes: "sinkRun cd S o0 (s, st) \<Longrightarrow> sinkRun cd S o0 (WriteOutcomes now rs s, st)"
| rewards: "sinkRun cd S o0 (s, st) \<Longrightarrow> sinkRun cd S o0 (WriteRewards rws s, st)"
| flushed: "sinkRun cd S o0 w \<Longrightarrow> sinkRun cd S o0 (snd (flushSink cd S force now batchID w))"

lemma wfSink_update:
  assumes "wfSink s" and "ptKey p = k" and "wfPart p" and "lsPending s' = AList.update k p (lsPending s)"
  shows "wfSink s'"
proof -
  have "\<forall>(k', p') \<in> set (lsPending s'). ptKey p' = k' \<and> wfPart p'"
    using assms set_update_distinct [of "lsPending s" k p] by (auto simp: wfSink_def)
  then show ?thesis using assms by (simp add: wfSink_def distinct_update)
qed

lemma wfSink_find: "wfSink s \<Longrightarrow> map_of (lsPending s) k = Some p \<Longrightarrow> ptKey p = k \<and> wfPart p"
  by (auto simp: wfSink_def dest!: map_of_SomeD)

lemma bufferEpisode_wf: "wfSink s \<Longrightarrow> wfSink (bufferEpisode now ep s)"
proof -
  assume wf: "wfSink s"
  let ?k = "partitionKey (lsOpts s) (asEpisode ep)"
  let ?p = "case map_of (lsPending s) ?k of Some p \<Rightarrow> p
      | None \<Rightarrow> \<lparr>ptKey = ?k, ptEpisodes = [], ptSteps = [], ptBytes = 0, ptFirstSeen = now\<rparr>"
  let ?p1 = "?p\<lparr>ptEpisodes := ptEpisodes ?p @ [asEpisode ep], ptSteps := ptSteps ?p @ asSteps ep,
      ptBytes := ptBytes ?p + estimateBytes ep\<rparr>"
  have "ptKey ?p = ?k" using wfSink_find [OF wf] by (auto split: option.splits)
  then have "wfPart ?p1" "ptKey ?p1 = ?k" using partitionKey_plain [of "lsOpts s" "asEpisode ep"] by (auto simp: wfPart_def)
  then show ?thesis by (intro wfSink_update [OF wf, of ?p1 ?k]) (simp_all add: bufferEpisode_def Let_def)
qed

lemma pending_wf: "lsPending s' = lsPending s \<Longrightarrow> wfSink s' = wfSink s"
  by (simp add: wfSink_def)

lemma bumpStats_pending [simp]: "lsPending (bumpStats f s) = lsPending s"
  by (simp add: bumpStats_def)

lemma putBlob_pending: "putBlob S h c (s, st) = (r, s', st') \<Longrightarrow> lsPending s' = lsPending s"
  by (auto simp: putBlob_def Let_def split: if_splits prod.splits option.splits bool.splits)

lemma externaliseStep_pending: "externaliseStep S now p (s, st) = (r, s', st') \<Longrightarrow> lsPending s' = lsPending s"
  by (auto simp: externaliseStep_def Let_def split: if_splits prod.splits option.splits dest!: putBlob_pending)

lemma externaliseSteps_pending: "externaliseSteps S now ps (s, st) = (r, s', st') \<Longrightarrow> lsPending s' = lsPending s"
  by (induction ps arbitrary: s st r) (auto split: prod.splits option.splits dest!: externaliseStep_pending)

lemma externaliseAll_pending: "externaliseAll S now eps (s, st) = (r, s', st') \<Longrightarrow> lsPending s' = lsPending s"
  by (induction eps arbitrary: s st r) (auto split: prod.splits option.splits dest!: externaliseSteps_pending)

lemma writeBlobTable_pending: "writeBlobTable cd S newID bs (s, st) = (ok, s', st') \<Longrightarrow> lsPending s' = lsPending s"
  by (auto simp: writeBlobTable_def split: prod.splits option.splits)

lemma Write_wf:
  assumes "wfSink s" and "Write cd S now0 now newID eps (s, st) = (ok, s', st')"
  shows "wfSink s'"
proof -
  obtain r s1 st1 where E: "externaliseAll S now0 eps (s, st) = (r, s1, st1)" by (cases "externaliseAll S now0 eps (s, st)")
  then have 1: "wfSink s1" using assms(1) pending_wf externaliseAll_pending [OF E] by blast
  show ?thesis
  proof (cases r)
    case None
    then show ?thesis using E assms(2) 1 by (simp add: Write_def)
  next
    case (Some x)
    obtain eps' blobs where x: "x = (eps', blobs)" by (cases x)
    obtain ok2 s2 st2 where B: "(if blobs = [] then (True, s1, st1) else writeBlobTable cd S newID (sort_key blSha256 blobs) (s1, st1)) = (ok2, s2, st2)"
      by (cases "(if blobs = [] then (True, s1, st1) else writeBlobTable cd S newID (sort_key blSha256 blobs) (s1, st1))")
    have "lsPending s2 = lsPending s1"
    proof (cases "blobs = []")
      case False
      then show ?thesis using B by (intro writeBlobTable_pending) simp
    qed (use B in simp)
    then have 2: "wfSink s2" using 1 pending_wf by blast
    have "wfSink (fold (bufferEpisode now) es s2)" for es
      using 2 by (induction es arbitrary: s2) (simp_all add: bufferEpisode_wf)
    then show ?thesis using assms(2) E Some x B 2 by (cases ok2) (auto simp: Write_def)
  qed
qed

lemma restore_wf: "wfSink s \<Longrightarrow> wfPart p \<Longrightarrow> wfSink (restore p s)"
proof -
  assume wf: "wfSink s" "wfPart p"
  show ?thesis
  proof (cases "map_of (lsPending s) (ptKey p)")
    case None
    have "lsPending (restore p s) = AList.update (ptKey p) p (lsPending s)" unfolding restore_def None by simp
    then show ?thesis by (rule wfSink_update [OF wf(1) refl wf(2)])
  next
    case (Some q)
    let ?q = "q\<lparr>ptEpisodes := ptEpisodes q @ ptEpisodes p, ptSteps := ptSteps q @ ptSteps p, ptBytes := ptBytes q + ptBytes p\<rparr>"
    have q: "ptKey ?q = ptKey p" "wfPart ?q" using wfSink_find [OF wf(1) Some] by (auto simp: wfPart_def)
    have "lsPending (restore p s) = AList.update (ptKey p) ?q (lsPending s)" unfolding restore_def Some by simp
    then show ?thesis by (rule wfSink_update [OF wf(1) q])
  qed
qed

lemma flushParts_wf:
  assumes "wfSink s" and "\<forall>p \<in> set ps. wfPart p" and "flushParts cd S batchID ps b (s, st) = (r, s', st')"
  shows "wfSink s'"
  using assms
proof (induction ps arbitrary: b s st)
  case (Cons p ps)
  obtain r1 s1 st1 where F: "flushPart cd S batchID p b (s, st) = (r1, s1, st1)" by (cases "flushPart cd S batchID p b (s, st)")
  then have "wfSink s1" using Cons.prems(1,2) restore_wf
    by (auto simp: flushPart_def Let_def split: prod.splits option.splits if_splits)
  then show ?case using Cons F by (cases r1) auto
qed simp

lemma flushOutcomes_pending: "flushOutcomes cd S batchID now ocs b (s, st) = (r, s', st') \<Longrightarrow> lsPending s' = lsPending s"
  by (auto simp: flushOutcomes_def Let_def split: prod.splits option.splits if_splits)

lemma flushRewards_pending: "flushRewards cd S batchID now rws b (s, st) = (r, s', st') \<Longrightarrow> lsPending s' = lsPending s"
  by (cases rws) (auto simp: flushRewards_def Let_def split: prod.splits option.splits)

lemma flushBatch_wf:
  assumes "wfSink s" and "\<forall>p \<in> set due. wfPart p" and "flushBatch cd S now batchID (due, ocs, rws) (s, st) = (ok, s', st')"
  shows "wfSink s'"
proof -
  obtain r1 s1 st1 where F: "flushParts cd S batchID due zeroBatch (s, st) = (r1, s1, st1)"
    by (cases "flushParts cd S batchID due zeroBatch (s, st)")
  have "wfSink s1" by (rule flushParts_wf [OF assms(1,2) F])
  moreover have "lsPending s' = lsPending s1" using assms(3) F
    by (auto simp: flushBatch_def split: prod.splits option.splits bool.splits dest!: flushOutcomes_pending flushRewards_pending)
  ultimately show ?thesis using pending_wf by blast
qed

lemma takeDue_wf:
  assumes "wfSink s" and "takeDue force now s = (due, ocs, rws, s1)"
  shows "wfSink s1" and "\<forall>p \<in> set due. wfPart p" and "distinct (map ptKey due)"
proof -
  have d: "due = sort_key ptKey (filter (partDue force now (lsOpts s)) (map snd (lsPending s)))"
    and s1: "lsPending s1 = filter (\<lambda>(_, p). \<not> partDue force now (lsOpts s) p) (lsPending s)"
    using assms(2) by (auto simp: takeDue_def Let_def)
  have keys: "map ptKey (map snd (lsPending s)) = map fst (lsPending s)"
    using assms(1) by (auto simp: wfSink_def)
  show "wfSink s1" using assms(1) s1 by (auto simp: wfSink_def distinct_map_filter)
  show "\<forall>p \<in> set due. wfPart p" using assms(1) d by (auto simp: wfSink_def)
  have "distinct (map ptKey (filter (partDue force now (lsOpts s)) (map snd (lsPending s))))"
    using assms(1) keys by (intro distinct_map_filter) (simp only: keys wfSink_def)
  then show "distinct (map ptKey due)" using d by (auto simp: distinct_map)
qed

lemma flushSink_wf:
  assumes "wfSink s" and "flushSink cd S force now batchID (s, st) = (ok, s', st')"
  shows "wfSink s'"
proof -
  obtain due ocs rws s1 where T: "takeDue force now s = (due, ocs, rws, s1)" by (cases "takeDue force now s")
  from takeDue_wf [OF assms(1) T] assms(2) T show ?thesis
    using flushBatch_wf [of s1 due cd S now batchID ocs rws st ok s' st'] by (auto simp: flushSink_def split: if_splits)
qed

lemma sinkRun_wf: "sinkRun cd S o0 w \<Longrightarrow> wfSink (fst w)"
proof (induction rule: sinkRun.induct)
  case (opened st)
  then show ?case by (simp add: wfSink_def zeroLakeSink_def)
next
  case (episodes w now0 now newID eps)
  then show ?case using Write_wf by (metis prod.collapse)
next
  case (outcomes s st now rs)
  then show ?case using pending_wf [of "WriteOutcomes now rs s" s] by (simp add: WriteOutcomes_def Let_def)
next
  case (rewards s st rws)
  then show ?case using pending_wf [of "WriteRewards rws s" s] by (simp add: WriteRewards_def)
next
  case (flushed w force now batchID)
  then show ?case using flushSink_wf by (metis prod.collapse)
qed

section \<open>Flushing to a directory\<close>

text \<open>
  C8. A batch is published whole or not at all. A flush of a lake in a directory changes no object but
  the files of its own batch. When it reports success, the batch's manifest is readable and lists
  exactly the files of the due partitions, outcomes and rewards, each of which is readable and holds
  the encoding of its rows; when it reports a failure, wherever it failed, no manifest was added.
\<close>

theorem sink_batch_all_or_nothing:
  assumes "sinkRun cd fsStore o0 (s, st)" and "goodFS st" and "goodCodec cd" and "CHR ''/'' \<notin> set batchID"
    and "takeDue force now s = (due, ocs, rws, s1)" and "due \<noteq> [] \<or> ocs \<noteq> [] \<or> rws \<noteq> []"
    and "flushSink cd fsStore force now batchID (s, st) = (ok, s', st')"
  shows "(\<forall>es. list_all plainElem es \<and> es \<noteq> [] \<and> last es \<notin> {partFile batchID, batchID @ ''.json''} \<longrightarrow>
      fsGet (join_with ''/'' es) (fsOf st') = fsGet (join_with ''/'' es) (fsOf st)) \<and>
    (if ok
     then published cd (codecOf s) (\<lambda>k. fsGet k (fsOf st')) (manifestKey now batchID) (batchEntries batchID now (due, ocs, rws))
     else fsGet (manifestKey now batchID) (fsOf st') = fsGet (manifestKey now batchID) (fsOf st))"
proof -
  have wf: "wfSink s" using sinkRun_wf [OF assms(1)] by simp
  have c: "codecOf s1 = codecOf s" using assms(5) by (auto simp: takeDue_def Let_def codecOf_def)
  have "flushBatch cd fsStore now batchID (due, ocs, rws) (s1, st) = (ok, s', st')"
    using assms(5,6,7) by (auto simp: flushSink_def split: if_splits)
  from fsys.flush_all_or_nothing [OF assms(2,3) takeDue_wf(2,3) [OF wf assms(5)] assms(4) this]
  show ?thesis unfolding c .
qed

text \<open>A directory, an encoder and a sink with one episode pending.\<close>

definition exCalls :: FSCalls where
  "exCalls = \<lparr>mkdirOK = True,
     createTemp = (\<lambda>files p. if files (p @ ''.tmp'') = None then Some (p @ ''.tmp'') else None),
     writeOK = True, syncOK = True, closeOK = True, renameOK = True, statOK = True\<rparr>"

definition exStore :: "(nat \<Rightarrow> FSCalls) \<Rightarrow> FSStore" where
  "exStore answers = \<lparr>fsOf = \<lparr>fsRoot = ''/l'', fsFiles = (\<lambda>_. None)\<rparr>, fsAnswers = answers, fsCount = 0\<rparr>"

definition exCodec :: Codec where
  "exCodec = \<lparr>encRows = (\<lambda>c rs. Some (c @ ''!'')), encManifest = (\<lambda>m. lmBatchID m), buildVersion = ''v'', hostName = ''h''\<rparr>"

definition exLakeOptions :: LakeOptions where
  "exLakeOptions = \<lparr>loName = ''lake'', loPartitionBy = [''tenant''], loBlobThreshold = 0, loMaxPayload = 0,
     loTargetFile = 0, loRollInterval = 0, loCompression = ''zstd''\<rparr>"

definition exWritten :: "string \<Rightarrow> Assembled" where
  "exWritten t = \<lparr>asEpisode = zeroEpisode\<lparr>epEpisodeID := t, epTenant := t\<rparr>, asSteps = []\<rparr>"

definition exSink :: "string list \<Rightarrow> LakeSink" where
  "exSink ts = fold (bufferEpisode 0) (map exWritten ts) (zeroLakeSink (lakeDefaults exLakeOptions))"

lemma exSink_run: "sinkRun exCodec fsStore exLakeOptions (exSink ts, st)"
proof -
  have E: "externaliseAll fsStore 0 (map exWritten xs) w = (Some (map exWritten xs, []), w)" for xs w
    by (induction xs) (simp_all add: exWritten_def)
  have "Write exCodec fsStore 0 0 [] (map exWritten ts) (zeroLakeSink (lakeDefaults exLakeOptions), st) = (True, exSink ts, st)"
    unfolding Write_def E by (simp add: exSink_def)
  then show ?thesis
    using sinkRun.episodes [OF sinkRun.opened, of exCodec fsStore exLakeOptions 0 0 "[]" "map exWritten ts" st] by simp
qed

lemma exStore_good:
  assumes "\<forall>i. createTemp (answers i) = createTemp exCalls"
  shows "goodFS (exStore answers)"
proof -
  have "fsRoot (fsOf (exStore answers)) = absPath [''l'']" by (simp add: exStore_def absPath_def)
  moreover have "list_all plainElem [''l'']" by (simp add: plainElem_def)
  moreover have "createTemp (fsAnswers (exStore answers) i) files p = Some t \<Longrightarrow> files t = None \<and> t \<noteq> p" for i files p t
    using assms by (auto simp: exStore_def exCalls_def split: if_splits)
  ultimately show ?thesis unfolding goodFS_def by blast
qed

lemma exCodec_good: "goodCodec exCodec"
  by (simp add: goodCodec_def exCodec_def)

theorem sink_batch_all_or_nothing_witness:
  "case takeDue True 0 (exSink [''a'', ''b'']) of
     (due, ocs, rws, s1) \<Rightarrow>
       published exCodec ''zstd'' (\<lambda>k. fsGet k (fsOf (snd (snd (flushSink exCodec fsStore True 0 ''x'' (exSink [''a'', ''b''], exStore (\<lambda>_. exCalls)))))))
         (manifestKey 0 ''x'') (batchEntries ''x'' 0 (due, ocs, rws))"
proof -
  let ?s = "exSink [''a'', ''b'']" and ?st = "exStore (\<lambda>_. exCalls)"
  obtain due ocs rws s1 where T: "takeDue True 0 ?s = (due, ocs, rws, s1)" by (cases "takeDue True 0 ?s")
  obtain ok s' st' where F: "flushSink exCodec fsStore True 0 ''x'' (?s, ?st) = (ok, s', st')"
    by (cases "flushSink exCodec fsStore True 0 ''x'' (?s, ?st)")
  have "fst (takeDue True 0 ?s) \<noteq> []" by code_simp
  then have "due \<noteq> []" using T by simp
  moreover have "fst (flushSink exCodec fsStore True 0 ''x'' (?s, ?st))" by code_simp
  then have "ok" using F by simp
  moreover have "codecOf ?s = ''zstd''" by code_simp
  ultimately show ?thesis
    using sink_batch_all_or_nothing [OF exSink_run exStore_good exCodec_good _ T _ F] T F by simp
qed

text \<open>
  A batch whose manifest cannot be put is lost although the flush reports the failure: the rows were
  taken out of the sink before, no row is put back, and a second flush finds nothing to write and
  reports success.
\<close>

theorem manifest_failure_drops_batch:
  assumes "takeDue True now s = (due, ocs, rws, s1)" and "due \<noteq> [] \<or> ocs \<noteq> [] \<or> rws \<noteq> []"
    and "flushData cd S now batchID (due, ocs, rws) (s1, st) = (Some b, s1, st1)"
    and "stPut S (manifestKey now batchID) (encManifest cd (manifestOf cd batchID now b s1)) st1 = (False, st2)"
  shows "SinkFlush cd S now batchID (s, st) = (False, s1, st2) \<and> PendingRows s1 = 0 \<and> lsRewards s1 = [] \<and>
    SinkFlush cd S now' batchID' (s1, st2) = (True, s1, st2)"
proof -
  have s1: "lsPending s1 = []" "lsOutcomes s1 = []" "lsRewards s1 = []"
    using assms(1) by (auto simp: takeDue_def Let_def partDue_def outcomesDue_def)
  then have "takeDue True now' s1 = ([], [], [], s1)" by (simp add: takeDue_def outcomesDue_def)
  moreover have "flushBatch cd S now batchID (due, ocs, rws) (s1, st) = (False, s1, st2)"
    using assms(3,4) by (simp add: flushBatch_data)
  ultimately show ?thesis using assms(1,2) s1 by (auto simp: SinkFlush_def flushSink_def PendingRows_def)
qed

theorem manifest_failure_drops_batch_witness:
  "\<exists>s1 st2. SinkFlush exCodec fsStore 0 ''x'' (exSink [''a''], exStore (\<lambda>i. exCalls\<lparr>renameOK := i \<noteq> 1\<rparr>)) = (False, s1, st2) \<and>
     PendingRows (exSink [''a'']) = 1 \<and> PendingRows s1 = 0 \<and> SinkFlush exCodec fsStore 0 ''y'' (s1, st2) = (True, s1, st2)"
proof -
  let ?s = "exSink [''a'']" and ?st = "exStore (\<lambda>i. exCalls\<lparr>renameOK := i \<noteq> 1\<rparr>)"
  obtain due ocs rws s1 where T: "takeDue True 0 ?s = (due, ocs, rws, s1)" by (cases "takeDue True 0 ?s")
  let ?D = "case takeDue True 0 ?s of (due, ocs, rws, s1) \<Rightarrow> flushData exCodec fsStore 0 ''x'' (due, ocs, rws) (s1, ?st)"
  obtain r s2 st1 where D: "?D = (r, s2, st1)" by (cases ?D)
  have "fst (takeDue True 0 ?s) \<noteq> []" by code_simp
  then have ne: "due \<noteq> []" using T by simp
  have "fst ?D \<noteq> None" by code_simp
  then obtain b where b: "r = Some b" using D by auto
  have "case ?D of (Some b, s2, st1) \<Rightarrow> s2 = snd (snd (snd (takeDue True 0 ?s))) \<and>
      \<not> fst (stPut fsStore (manifestKey 0 ''x'') (encManifest exCodec (manifestOf exCodec ''x'' 0 b s2)) st1)" by code_simp
  then have "s2 = s1 \<and> \<not> fst (stPut fsStore (manifestKey 0 ''x'') (encManifest exCodec (manifestOf exCodec ''x'' 0 b s2)) st1)"
    unfolding D unfolding T b by auto
  then have "s2 = s1" and "\<not> fst (stPut fsStore (manifestKey 0 ''x'') (encManifest exCodec (manifestOf exCodec ''x'' 0 b s1)) st1)"
    by blast+
  then obtain st2 where P: "stPut fsStore (manifestKey 0 ''x'') (encManifest exCodec (manifestOf exCodec ''x'' 0 b s1)) st1 = (False, st2)"
    by (cases "stPut fsStore (manifestKey 0 ''x'') (encManifest exCodec (manifestOf exCodec ''x'' 0 b s1)) st1") auto
  have D2: "flushData exCodec fsStore 0 ''x'' (due, ocs, rws) (s1, ?st) = (Some b, s1, st1)"
    using D T b \<open>s2 = s1\<close> by simp
  have "PendingRows ?s = 1" by code_simp
  then show ?thesis using manifest_failure_drops_batch [OF T _ D2 P, of 0 "''y''"] ne by blast
qed

text \<open>
  A flush that fails while writing a partition puts back the rows of that partition only. The
  partitions written before it in the same batch, whose files no manifest will ever list, the ones
  behind it, and the outcomes and rewards of the batch are gone from the sink.
\<close>

theorem partition_failure_keeps_one_partition:
  assumes "takeDue True now s = (done1 @ p # rest, ocs, rws, s1)"
    and "flushParts cd S batchID done1 zeroBatch (s1, st) = (Some b, s1, st1)"
    and "flushPart cd S batchID p b (s1, st1) = (None, s2, st2)"
  shows "SinkFlush cd S now batchID (s, st) = (False, s2, st2) \<and>
    lsPending s2 = [(ptKey p, p)] \<and> lsOutcomes s2 = [] \<and> lsRewards s2 = []"
proof -
  have s1: "lsPending s1 = []" "lsOutcomes s1 = []" "lsRewards s1 = []"
    using assms(1) by (auto simp: takeDue_def Let_def partDue_def outcomesDue_def)
  have "s2 = restore p s1"
    using assms(3) by (auto simp: flushPart_def Let_def split: prod.splits option.splits if_splits)
  moreover have "flushParts cd S batchID (ps @ p # rest) b0 w = (None, s2, st2)"
    if "flushParts cd S batchID ps b0 w = (Some b, s1, st1)" for ps b0 w
    using that assms(3) by (induction ps arbitrary: b0 w) (auto split: prod.splits option.splits)
  from this [OF assms(2)] have "SinkFlush cd S now batchID (s, st) = (False, s2, st2)"
    using assms(1) by (simp add: SinkFlush_def flushSink_def flushBatch_def)
  ultimately show ?thesis using s1 by (simp add: restore_def)
qed

theorem partition_failure_keeps_one_partition_witness:
  "\<exists>p s2 st2. SinkFlush exCodec fsStore 0 ''x'' (exSink [''a'', ''b'', ''c''], exStore (\<lambda>i. exCalls\<lparr>renameOK := i \<noteq> 1\<rparr>)) = (False, s2, st2) \<and>
     map fst (lsPending (exSink [''a'', ''b'', ''c''])) = [''tenant=a'', ''tenant=b'', ''tenant=c''] \<and> lsPending s2 = [(''tenant=b'', p)]"
proof -
  let ?s = "exSink [''a'', ''b'', ''c'']" and ?st = "exStore (\<lambda>i. exCalls\<lparr>renameOK := i \<noteq> 1\<rparr>)"
  obtain due ocs rws s1 where T: "takeDue True 0 ?s = (due, ocs, rws, s1)" by (cases "takeDue True 0 ?s")
  have "map ptKey (fst (takeDue True 0 ?s)) = [''tenant=a'', ''tenant=b'', ''tenant=c'']" by code_simp
  then obtain pa pb pc where due: "due = [pa] @ pb # [pc]" and k: "ptKey pb = ''tenant=b''"
    using T by (auto simp: map_eq_Cons_conv)
  let ?A = "case takeDue True 0 ?s of (due, ocs, rws, s1) \<Rightarrow> flushParts exCodec fsStore ''x'' [due ! 0] zeroBatch (s1, ?st)"
  obtain r s1' st1 where A: "?A = (r, s1', st1)" by (cases ?A)
  have "case ?A of (r, s1, st1) \<Rightarrow> r \<noteq> None \<and> s1 = snd (snd (snd (takeDue True 0 ?s)))" by code_simp
  then obtain b where b: "r = Some b" "s1' = s1" using A T by auto
  then have A': "flushParts exCodec fsStore ''x'' [pa] zeroBatch (s1, ?st) = (Some b, s1, st1)" using A T due by simp
  let ?B = "case ?A of (Some b, s1, st1) \<Rightarrow> flushPart exCodec fsStore ''x'' (fst (takeDue True 0 ?s) ! 1) b (s1, st1)"
  have "fst ?B = None" by code_simp
  then have "fst (flushPart exCodec fsStore ''x'' pb b (s1, st1)) = None" using A b T due by simp
  then obtain s2 st2 where B: "flushPart exCodec fsStore ''x'' pb b (s1, st1) = (None, s2, st2)" by (metis prod.collapse)
  have "map fst (lsPending ?s) = [''tenant=a'', ''tenant=b'', ''tenant=c'']" by code_simp
  then show ?thesis using partition_failure_keeps_one_partition [OF T [unfolded due] A' B] k by auto
qed

end
