(* ===== verification/Service_Props.thy ===== *)
theory Service_Props
  imports Service Config_Props Delivery_Props Lake_Sink_Props Assembly_Inv
begin

text \<open>
  Properties of the composed service: what can reach the buffer, what a refused envelope changes, how
  a reload takes effect, and where the promises of the single components do not add up.
\<close>

section \<open>Frames\<close>

lemma countMetric_frame [simp]:
  "svPol (countMetric l n s) = svPol s" "svTrace (countMetric l n s) = svTrace s" "svAsm (countMetric l n s) = svAsm s"
  "svDel (countMetric l n s) = svDel s" "svCfg (countMetric l n s) = svCfg s" "svLast (countMetric l n s) = svLast s"
  "svEmitted (countMetric l n s) = svEmitted s" "svQuarantined (countMetric l n s) = svQuarantined s"
  "svSampledOut (countMetric l n s) = svSampledOut s" "svDryRun (countMetric l n s) = svDryRun s"
  "svMarker (countMetric l n s) = svMarker s" "svReads (countMetric l n s) = svReads s"
  "svQuarantineDir (countMetric l n s) = svQuarantineDir s" "svBuf (countMetric l n s) = svBuf s"
  by (simp_all add: countMetric_def svBuf_def)

lemma addDelta_frame [simp]:
  "svPol (addDelta l a b s) = svPol s" "svTrace (addDelta l a b s) = svTrace s" "svAsm (addDelta l a b s) = svAsm s"
  "svDel (addDelta l a b s) = svDel s" "svCfg (addDelta l a b s) = svCfg s" "svLast (addDelta l a b s) = svLast s"
  by (simp_all add: addDelta_def)

lemma countManifest_frame [simp]:
  "svPol (countManifest mf s) = svPol s" "svTrace (countManifest mf s) = svTrace s" "svAsm (countManifest mf s) = svAsm s"
  "svDel (countManifest mf s) = svDel s" "svCfg (countManifest mf s) = svCfg s" "svDryRun (countManifest mf s) = svDryRun s"
  "svEmitted (countManifest mf s) = svEmitted s" "svQuarantined (countManifest mf s) = svQuarantined s"
  "svSampledOut (countManifest mf s) = svSampledOut s"
proof -
  have "svPol (fold (\<lambda>e. countMetric (f e) (g e)) es s) = svPol s \<and> svTrace (fold (\<lambda>e. countMetric (f e) (g e)) es s) = svTrace s \<and>
      svAsm (fold (\<lambda>e. countMetric (f e) (g e)) es s) = svAsm s \<and> svDel (fold (\<lambda>e. countMetric (f e) (g e)) es s) = svDel s \<and>
      svCfg (fold (\<lambda>e. countMetric (f e) (g e)) es s) = svCfg s \<and> svDryRun (fold (\<lambda>e. countMetric (f e) (g e)) es s) = svDryRun s \<and>
      svEmitted (fold (\<lambda>e. countMetric (f e) (g e)) es s) = svEmitted s \<and>
      svQuarantined (fold (\<lambda>e. countMetric (f e) (g e)) es s) = svQuarantined s \<and>
      svSampledOut (fold (\<lambda>e. countMetric (f e) (g e)) es s) = svSampledOut s"
    for f :: "ManifestEntry \<Rightarrow> string list" and g es
    by (induction es arbitrary: s) simp_all
  then show "svPol (countManifest mf s) = svPol s" "svTrace (countManifest mf s) = svTrace s" "svAsm (countManifest mf s) = svAsm s"
    "svDel (countManifest mf s) = svDel s" "svCfg (countManifest mf s) = svCfg s" "svDryRun (countManifest mf s) = svDryRun s"
    "svEmitted (countManifest mf s) = svEmitted s" "svQuarantined (countManifest mf s) = svQuarantined s"
    "svSampledOut (countManifest mf s) = svSampledOut s"
    by (auto simp: countManifest_def split: option.splits)
qed

lemma countKept_frame [simp]:
  "svPol (countKept ep s) = svPol s" "svTrace (countKept ep s) = svTrace s" "svAsm (countKept ep s) = svAsm s"
  "svDel (countKept ep s) = svDel s" "svCfg (countKept ep s) = svCfg s" "svDryRun (countKept ep s) = svDryRun s"
  "svEmitted (countKept ep s) = svEmitted s" "svQuarantined (countKept ep s) = svQuarantined s"
  "svSampledOut (countKept ep s) = svSampledOut s"
  by (simp_all add: countKept_def Let_def)

lemma readClock_frame [simp]:
  "svPol (snd (readClock D s)) = svPol s" "svTrace (snd (readClock D s)) = svTrace s" "svAsm (snd (readClock D s)) = svAsm s"
  "svDel (snd (readClock D s)) = svDel s" "svCfg (snd (readClock D s)) = svCfg s"
  by (simp_all add: readClock_def)

lemma appendPayload_frame:
  assumes "appendPayload D p s = (ok, s')"
  shows "svPol s' = svPol s" and "svTrace s' = svTrace s @ [Offered p]" and "svAsm s' = svAsm s" and "svCfg s' = svCfg s"
    and "svEmitted s' = svEmitted s" and "svQuarantined s' = svQuarantined s" and "svSampledOut s' = svSampledOut s"
    and "dWorld (svDel s') = dWorld (svDel s)"
  using assms by (auto simp: appendPayload_def readClock_def split: prod.splits)

lemma quarantine_frame:
  "svPol (quarantine D ep stage s) = svPol s" "svAsm (quarantine D ep stage s) = svAsm s" "svCfg (quarantine D ep stage s) = svCfg s"
  "svDel (quarantine D ep stage s) = svDel s" "svEmitted (quarantine D ep stage s) = svEmitted s"
  "svSampledOut (quarantine D ep stage s) = svSampledOut s" "svQuarantined (quarantine D ep stage s) = svQuarantined s + 1"
  "Offered p \<in> set (svTrace (quarantine D ep stage s)) \<longleftrightarrow> Offered p \<in> set (svTrace s)"
  by (auto simp: quarantine_def readClock_def Let_def)

lemma reportSink_frame [simp]:
  "svPol (reportSink s) = svPol s" "svTrace (reportSink s) = svTrace s" "svAsm (reportSink s) = svAsm s" "svCfg (reportSink s) = svCfg s"
  "svDel (reportSink s) = svDel s"
  by (simp_all add: reportSink_def Let_def)

lemma fold_frame:
  "(\<And>x s. x \<in> set xs \<Longrightarrow> g (f x s) = g s) \<Longrightarrow> g (fold f xs s) = g s"
  by (induction xs arbitrary: s) auto

lemma reportPipelineCounters_frame [simp]:
  "svPol (reportPipelineCounters rc rj s) = svPol s" "svTrace (reportPipelineCounters rc rj s) = svTrace s"
  "svAsm (reportPipelineCounters rc rj s) = svAsm s" "svCfg (reportPipelineCounters rc rj s) = svCfg s"
  "svDel (reportPipelineCounters rc rj s) = svDel s"
proof -
  have E: "svPol (reportRedactError st i s) = svPol s" "svTrace (reportRedactError st i s) = svTrace s"
    "svAsm (reportRedactError st i s) = svAsm s" "svCfg (reportRedactError st i s) = svCfg s" "svDel (reportRedactError st i s) = svDel s"
    for st i and s :: "('a, 'b) Service"
    by (simp_all add: reportRedactError_def Let_def)
  have B: "svPol (reportBytes x s) = svPol s" "svTrace (reportBytes x s) = svTrace s" "svAsm (reportBytes x s) = svAsm s"
    "svCfg (reportBytes x s) = svCfg s" "svDel (reportBytes x s) = svDel s"
    "svPol (reportRejected x s) = svPol s" "svTrace (reportRejected x s) = svTrace s" "svAsm (reportRejected x s) = svAsm s"
    "svCfg (reportRejected x s) = svCfg s" "svDel (reportRejected x s) = svDel s" for x and s :: "('a, 'b) Service"
    by (simp_all add: reportBytes_def reportRejected_def Let_def split: prod.splits)
  note F = reportPipelineCounters_def reportSink_frame reportRedactErrors_def
  show "svPol (reportPipelineCounters rc rj s) = svPol s" "svTrace (reportPipelineCounters rc rj s) = svTrace s"
    "svAsm (reportPipelineCounters rc rj s) = svAsm s" "svCfg (reportPipelineCounters rc rj s) = svCfg s"
    "svDel (reportPipelineCounters rc rj s) = svDel s"
    by (simp_all add: F fold_frame [where g = svPol] fold_frame [where g = svTrace] fold_frame [where g = svAsm]
        fold_frame [where g = svCfg] fold_frame [where g = svDel] E B)
qed

lemma reportBufferMetrics_frame [simp]:
  "svPol (reportBufferMetrics rc rj s) = svPol s" "svTrace (reportBufferMetrics rc rj s) = svTrace s"
  "svAsm (reportBufferMetrics rc rj s) = svAsm s" "svCfg (reportBufferMetrics rc rj s) = svCfg s"
  "svDel (reportBufferMetrics rc rj s) = svDel s"
  by (simp_all add: reportBufferMetrics_def Let_def)

lemma recordInFlight_frame [simp]:
  "svPol (recordInFlight ok c s) = svPol s" "svTrace (recordInFlight ok c s) = svTrace s" "svAsm (recordInFlight ok c s) = svAsm s"
  "svDel (recordInFlight ok c s) = svDel s" "svCfg (recordInFlight ok c s) = svCfg s"
  by (simp_all add: recordInFlight_def)

section \<open>Only redacted payloads reach the buffer\<close>

text \<open>Two policies with the same redaction, whatever their counters say.\<close>

definition sameRules :: "'l policy \<Rightarrow> 'm policy \<Rightarrow> bool" where
  "sameRules p q \<longleftrightarrow> fst (plRedactor p) = fst (plRedactor q) \<and> (\<forall>src. fst (redactorFor p src) = fst (redactorFor q src))"

lemma setRedactStats_rules [simp]:
  "fst (plRedactor (setRedactStats src st p)) = fst (plRedactor p)"
  "fst (redactorFor (setRedactStats src st p) x) = fst (redactorFor p x)"
  by (auto simp: setRedactStats_def redactorFor_def update_conv' split: option.split)

lemma redactorFor_fields [simp]:
  "redactorFor (p\<lparr>plExtractor := ex\<rparr>) src = redactorFor p src" "redactorFor (p\<lparr>plSampler := sm\<rparr>) src = redactorFor p src"
  "redactorFor (p\<lparr>plQuotas := qs\<rparr>) src = redactorFor p src"
  by (simp_all add: redactorFor_def split: option.split)

lemma sameRules_simps [simp]:
  "sameRules (setRedactStats src st p) q \<longleftrightarrow> sameRules p q" "sameRules (p\<lparr>plExtractor := ex\<rparr>) q \<longleftrightarrow> sameRules p q"
  "sameRules (p\<lparr>plSampler := sm\<rparr>) q \<longleftrightarrow> sameRules p q" "sameRules (p\<lparr>plQuotas := qs\<rparr>) q \<longleftrightarrow> sameRules p q"
  by (simp_all add: sameRules_def)

text \<open>
  A payload that may be buffered: the encoding of an episode that the redactor of its source let
  through, with entity keys and the sampling reason added; or of outcomes whose keys went through the
  rules. The policy is one that was built from a configuration of \<open>C\<close>.
\<close>

definition redactedPayload :: "('l, 's) Deps \<Rightarrow> Config set \<Rightarrow> byte list \<Rightarrow> bool" where
  "redactedPayload D C p \<longleftrightarrow>
     (\<exists>cfg \<in> C. \<exists>pol. buildPolicy (dpPolicy D) (dpLimits D) (dpSys D) cfg = Inr pol \<and>
       ((\<exists>ep st ep1 mf st' ks by.
           Redact.Process (dpParse D) (fst (redactorFor pol (epSource (asEpisode ep)))) ep st = (Inr (ep1, mf), st') \<and>
           dpEncode D (bufferedEpisode (ep1\<lparr>asEpisode := (asEpisode ep1)\<lparr>epEntityKeys := ks, epSampledBy := by\<rparr>\<rparr>)) = Some p) \<or>
        (\<exists>now src ws os.
           outcomeRecords (fst (plRedactor pol)) now src 0 ws = Inr os \<and>
           dpEncode D \<lparr>brEpisode = None, brSteps = [], brOutcomes = os\<rparr> = Some p)))"

definition svcInv :: "('l, 's) Deps \<Rightarrow> Config set \<Rightarrow> ('l, 's) Service \<Rightarrow> bool" where
  "svcInv D C s \<longleftrightarrow>
     (\<exists>cfg \<in> C. \<exists>pol. buildPolicy (dpPolicy D) (dpLimits D) (dpSys D) cfg = Inr pol \<and> sameRules (svPol s) pol) \<and>
     (\<forall>p. Offered p \<in> set (svTrace s) \<longrightarrow> redactedPayload D C p)"

lemma svcInv_cong:
  "svPol s' = svPol s \<Longrightarrow> svTrace s' = svTrace s \<Longrightarrow> svcInv D C s' \<longleftrightarrow> svcInv D C s"
  by (simp add: svcInv_def)

lemma TailKeep_episode:
  assumes "TailKeep ep s = (keep, ep', s')"
  shows "\<exists>by. ep' = ep\<lparr>asEpisode := (asEpisode ep)\<lparr>epSampledBy := by\<rparr>\<rparr>"
proof -
  have same: "\<exists>by. ep = ep\<lparr>asEpisode := (asEpisode ep)\<lparr>epSampledBy := by\<rparr>\<rparr>"
    by (rule exI [of _ "epSampledBy (asEpisode ep)"]) simp
  have "\<exists>by. fst (snd (tailRules v rs ep s)) = ep\<lparr>asEpisode := (asEpisode ep)\<lparr>epSampledBy := by\<rparr>\<rparr>" for v rs
    using same by (induction v rs ep s rule: tailRules.induct) (auto simp: tailRate_def mark_def split: celOut.splits)
  from this [of "episodeVars ep" "keepIf s"] show ?thesis using assms by (simp add: TailKeep_def)
qed

lemma emitEpisode_inv:
  assumes "svcInv D C s" and "\<And>p. dpEncode D (bufferedEpisode ep) = Some p \<Longrightarrow> redactedPayload D C p"
  shows "svcInv D C (emitEpisode D ep s)" and "svPol (emitEpisode D ep s) = svPol s" "svAsm (emitEpisode D ep s) = svAsm s"
proof -
  have a: "svPol t' = svPol s \<and> svTrace t' = svTrace s @ [Offered p] \<and> svAsm t' = svAsm s"
    if "appendPayload D p (countKept ep s) = (ok, t')" for p ok t'
    using appendPayload_frame [OF that] by simp
  have "svPol (emitEpisode D ep s) = svPol s \<and> svAsm (emitEpisode D ep s) = svAsm s \<and>
      (\<forall>p. Offered p \<in> set (svTrace (emitEpisode D ep s)) \<longrightarrow> Offered p \<in> set (svTrace s) \<or> dpEncode D (bufferedEpisode ep) = Some p)"
    unfolding emitEpisode_def Let_def by (auto split: option.splits prod.splits bool.splits dest!: a)
  then show "svcInv D C (emitEpisode D ep s)" and "svPol (emitEpisode D ep s) = svPol s" "svAsm (emitEpisode D ep s) = svAsm s"
    using assms unfolding svcInv_def by auto
qed

lemma onEpisode_inv:
  assumes "svcInv D C s"
  shows "svcInv D C (onEpisode D ep s)" and "svAsm (onEpisode D ep s) = svAsm s"
proof -
  obtain red st where R: "redactorFor (svPol s) (epSource (asEpisode ep)) = (red, st)" by fastforce
  obtain res st' where P: "Redact.Process (dpParse D) red ep st = (res, st')" by fastforce
  have "svcInv D C (onEpisode D ep s) \<and> svAsm (onEpisode D ep s) = svAsm s"
  proof (cases res)
    case (Inl e)
    then show ?thesis using assms R P by (simp add: onEpisode_def svcInv_def quarantine_frame Let_def)
  next
    case (Inr q)
    obtain ep1 mf where q: "q = (ep1, mf)" by fastforce
    obtain ep2 ex where X: "ExtractProcess (dpParse D) ep1 (plExtractor (svPol s)) = (ep2, ex)" by fastforce
    obtain keep ep3 sm where T: "TailKeep ep2 (plSampler (svPol s)) = (keep, ep3, sm)" by (metis prod_cases3)
    let ?s1 = "countManifest mf (s\<lparr>svPol := (setRedactStats (epSource (asEpisode ep)) st' (svPol s))\<lparr>plExtractor := ex, plSampler := sm\<rparr>\<rparr>)"
    have I: "svcInv D C ?s1" using assms by (simp add: svcInv_def)
    obtain ks by' where e3: "ep3 = ep1\<lparr>asEpisode := (asEpisode ep1)\<lparr>epEntityKeys := ks, epSampledBy := by'\<rparr>\<rparr>"
      using TailKeep_episode [OF T] X by (auto simp: ExtractProcess_def Let_def)
    have "redactedPayload D C p" if "dpEncode D (bufferedEpisode ep3) = Some p" for p
    proof -
      obtain cfg pol where c: "cfg \<in> C" "buildPolicy (dpPolicy D) (dpLimits D) (dpSys D) cfg = Inr pol" "sameRules (svPol s) pol"
        using assms by (auto simp: svcInv_def)
      then have "fst (redactorFor pol (epSource (asEpisode ep))) = red" using R by (metis fst_conv sameRules_def)
      then show ?thesis unfolding redactedPayload_def using c(1,2) P Inr q that e3 by blast
    qed
    then show ?thesis
      using emitEpisode_inv [OF I] I R P Inr q X T
      by (auto simp: onEpisode_def Let_def svcInv_def)
  qed
  then show "svcInv D C (onEpisode D ep s)" "svAsm (onEpisode D ep s) = svAsm s" by simp_all
qed

lemma onEpisodes_inv: "svcInv D C s \<Longrightarrow> svcInv D C (onEpisodes D eps s)"
  unfolding onEpisodes_def by (induction eps arbitrary: s) (simp_all add: onEpisode_inv)

lemma onEnvelope_inv:
  assumes "svcInv D C s" and "onEnvelope D env s = (er, s')"
  shows "svcInv D C s'"
proof -
  have "svcInv D C (onEpisodes D eps t)" if "sameRules (svPol t) (svPol s)" "svTrace t = svTrace s" for eps t
    using assms(1) that by (intro onEpisodes_inv) (auto simp: svcInv_def sameRules_def)
  moreover have "svcInv D C t" if "sameRules (svPol t) (svPol s)" "svTrace t = svTrace s" for t
    using assms(1) that by (auto simp: svcInv_def sameRules_def)
  moreover have "sameRules (svPol s) (svPol s)" by (simp add: sameRules_def)
  ultimately show ?thesis
    using assms(2) by (auto simp: onEnvelope_def readClock_def Let_def split: prod.splits if_splits)
qed

lemma IngestOutcomes_inv:
  assumes "svcInv D C s" and "IngestOutcomes D src ws s = (r, s')"
  shows "svcInv D C s'"
proof -
  obtain cfg pol where c: "cfg \<in> C" "buildPolicy (dpPolicy D) (dpLimits D) (dpSys D) cfg = Inr pol" "sameRules (svPol s) pol"
    using assms by (auto simp: svcInv_def)
  have keep: "svcInv D C t" if "sameRules (svPol t) (svPol s)" "svTrace t = svTrace s" for t
    using assms(1) that by (auto simp: svcInv_def sameRules_def)
  have pay: "redactedPayload D C p" if "outcomeRecords (fst (plRedactor (svPol s))) now src 0 ws = Inr os"
      "dpEncode D \<lparr>brEpisode = None, brSteps = [], brOutcomes = os\<rparr> = Some p" for p now os
  proof -
    have "fst (plRedactor (svPol s)) = fst (plRedactor pol)" using c(3) by (simp add: sameRules_def)
    then show ?thesis unfolding redactedPayload_def using c(1,2) that by metis
  qed
  have app: "svcInv D C t'" if "appendPayload D p t = (ok, t')" "sameRules (svPol t) (svPol s)" "svTrace t = svTrace s" "redactedPayload D C p"
    for t t' ok p
    using keep [OF that(2,3)] appendPayload_frame(1,2) [OF that(1)] that(4) by (auto simp: svcInv_def)
  have R: "sameRules (svPol s) (svPol s)" by (simp add: sameRules_def)
  have M: "svcInv D C (countMetric l n t) \<longleftrightarrow> svcInv D C t" for l n t by (simp add: svcInv_def)
  show ?thesis
    using assms(2) unfolding IngestOutcomes_def readClock_def Let_def
    by (auto simp: M R keep split: prod.splits if_splits sum.splits option.splits bool.splits elim!: app dest!: pay)
qed

text \<open>
  What the service can do, in any order: take an envelope or outcomes from a source, the three timers,
  a round of delivery, a reload, the mark at the start of \<^verbatim>\<open>Run\<close>, the final drain and the shutdown. \<open>svcRun D C s\<close>: the state \<open>s\<close> is reached from a
  start, with configurations out of \<open>C\<close>.
\<close>

inductive svcRun :: "('l, 's) Deps \<Rightarrow> Config set \<Rightarrow> ('l, 's) Service \<Rightarrow> bool" for D C where
  start: "NewService D schemaText aesGCM lockFree dk st cfg = Inr s \<Longrightarrow> cfg \<in> C \<Longrightarrow> svcRun D C s"
| envelope: "svcRun D C s \<Longrightarrow> onEnvelope D env s = (er, s') \<Longrightarrow> svcRun D C s'"
| outcomes: "svcRun D C s \<Longrightarrow> IngestOutcomes D src ws s = (r, s') \<Longrightarrow> svcRun D C s'"
| expiry: "svcRun D C s \<Longrightarrow> svcRun D C (tickExpire D ok rc rj s)"
| syncing: "svcRun D C s \<Longrightarrow> svcRun D C (tickSync D s)"
| flushing: "svcRun D C s \<Longrightarrow> svcRun D C (tickFlush D s)"
| delivery: "svcRun D C s \<Longrightarrow> drainBuffer D fuel s = Some (er, s') \<Longrightarrow> svcRun D C s'"
| reload: "svcRun D C s \<Longrightarrow> Reload D next s = (r, s') \<Longrightarrow> next \<in> C \<Longrightarrow> svcRun D C s'"
| shutdown: "svcRun D C s \<Longrightarrow> drain D fuel ok s = Some s' \<Longrightarrow> svcRun D C s'"
| marking: "svcRun D C s \<Longrightarrow> svcRun D C (recordInFlight ok False s)"
| closing: "svcRun D C s \<Longrightarrow> svcRun D C (snd (ShutdownService D s))"

lemma sameRules_refl [simp]: "sameRules p p"
  by (simp add: sameRules_def)

lemma drainBuffer_frame:
  "drainBuffer D fuel s = Some (er, s') \<Longrightarrow> svPol s' = svPol s \<and> svTrace s' = svTrace s \<and> svAsm s' = svAsm s \<and> svMarker s' = svMarker s"
  by (auto simp: drainBuffer_def)

lemma flushNow_frame:
  "svPol (snd (flushNow D force s)) = svPol s" "svTrace (snd (flushNow D force s)) = svTrace s" "svAsm (snd (flushNow D force s)) = svAsm s"
  "dBuf (svDel (snd (flushNow D force s))) = dBuf (svDel s)"
  by (auto simp: flushNow_def split: prod.splits)

lemma ShutdownService_frame:
  "svPol (snd (ShutdownService D s)) = svPol s" "svTrace (snd (ShutdownService D s)) = svTrace s"
  "svAsm (snd (ShutdownService D s)) = svAsm s" "svMarker (snd (ShutdownService D s)) = svMarker s"
  by (simp_all add: ShutdownService_def flushNow_def split: prod.splits)

lemma svcRun_inv: "svcRun D C s \<Longrightarrow> svcInv D C s"
proof (induction rule: svcRun.induct)
  case (start schemaText aesGCM lockFree dk st cfg s)
  then show ?case
    by (fastforce simp: NewService_def svcInv_def split: prod.splits option.splits sum.splits)
next
  case (envelope s env er s')
  then show ?case by (blast intro: onEnvelope_inv)
next
  case (outcomes s src ws r s')
  then show ?case by (blast intro: IngestOutcomes_inv)
next
  case (expiry s ok rc rj)
  obtain eps a where "Expire (svAsm s) = (eps, a)" by fastforce
  moreover have "svcInv D C (onEpisodes D eps (s\<lparr>svAsm := a\<rparr>))" using expiry.IH by (intro onEpisodes_inv) (simp add: svcInv_def)
  ultimately show ?case by (simp add: tickExpire_def svcInv_def)
next
  case (syncing s)
  then show ?case by (simp add: tickSync_def readClock_def svcInv_def)
next
  case (flushing s)
  then show ?case by (simp add: tickFlush_def svcInv_def flushNow_frame)
next
  case (delivery s fuel er s')
  then show ?case using drainBuffer_frame [OF delivery.hyps(2)] by (simp add: svcInv_def)
next
  case (reload s "next" r s')
  show ?case
  proof (cases "buildPolicy (dpPolicy D) (dpLimits D) (dpSys D) next")
    case (Inl e)
    then show ?thesis using reload svcInv_cong [of s' s D C] by (auto simp: Reload_def)
  next
    case (Inr pol)
    have "\<exists>cfg \<in> C. \<exists>q. buildPolicy (dpPolicy D) (dpLimits D) (dpSys D) cfg = Inr q \<and> sameRules pol q"
      using Inr reload.hyps(3) sameRules_refl by blast
    moreover have "svPol s' = pol" "svTrace s' = svTrace s" using Inr reload.hyps(2) by (auto simp: Reload_def)
    ultimately show ?thesis using reload.IH by (simp add: svcInv_def)
  qed
next
  case (shutdown s fuel ok s')
  obtain eps a er s2 where F: "Flush StatusTimedOut (svAsm s) = Some (eps, a)"
      "drainBuffer D fuel (onEpisodes D eps (s\<lparr>svAsm := a\<rparr>)) = Some (er, s2)" "s' = recordInFlight ok True (snd (flushNow D True s2))"
    using shutdown.hyps(2) by (auto simp: drain_def split: option.splits)
  have "svcInv D C (onEpisodes D eps (s\<lparr>svAsm := a\<rparr>))" using shutdown.IH by (intro onEpisodes_inv) (simp add: svcInv_def)
  then show ?case using drainBuffer_frame [OF F(2)] F(3) by (simp add: svcInv_def flushNow_frame)
next
  case (marking s ok)
  then show ?case by (simp add: svcInv_def)
next
  case (closing s)
  then show ?case by (simp add: svcInv_def ShutdownService_frame)
qed

text \<open>
  Nothing unredacted reaches the disk buffer, in any interleaving: whatever envelopes, outcomes,
  timers, deliveries and reloads the service has handled, every payload it has offered to the buffer
  is the encoding of an episode that the redactor of its source let through, under a policy built
  whole from one configuration, or of outcomes whose keys that policy rewrote.
\<close>

theorem only_redacted_is_buffered:
  assumes "svcRun D C s" and "Offered p \<in> set (svTrace s)"
  shows "redactedPayload D C p"
  using svcRun_inv [OF assms(1)] assms(2) by (simp add: svcInv_def)

section \<open>An example service\<close>

definition exDeps :: "(unit, FSStore) Deps" where
  "exDeps =
     \<lparr>dpParse = (\<lambda>_. None), dpEncode = (\<lambda>r. Some (if brOutcomes r = [] then [1] else [2])),
      dpDecode = (\<lambda>p. Some \<lparr>brEpisode = None, brSteps = [], brOutcomes = [outcomeRecord 7 ''a'' ''k'' \<lparr>woOutcomeID = [],
        woEntityName = ''order'', woEntityKey = ''k'', woKind = ''refund'', woValue = ''y'', woOccurredAt = 5, woObservedAt = 0, woSource = []\<rparr>]\<rparr>),
      dpCodec = exCodec, dpStore = fsStore, dpClock = (\<lambda>i. 10000000000 * int (min i 20)), dpNewID = (\<lambda>i. ''id'' @ nat_digits i),
      dpLimits = \<lparr>newLimiter = (\<lambda>_ _. ()), limiterAllow = (\<lambda>_ l. (True, l))\<rparr>,
      dpPolicy = \<lparr>pyCompile = (\<lambda>_. None), pyParsePath = (\<lambda>_. None), pyDetect = (\<lambda>_ _. None), pyCel = (\<lambda>s. Inl s)\<rparr>,
      dpSys = exSys,
      dpBase = \<lparr>send = (\<lambda>w p. (None, w)), commit = None, ctxDone = (\<lambda>_. False), wait = (\<lambda>w t. (False, w)),
        randFloat = (\<lambda>w. (1 / 2, w)), nowOf = (\<lambda>_. 0), dateOf = (\<lambda>_. ''2026-01-01''), marshalDL = (\<lambda>_ _ _ _. None),
        writeDL = (\<lambda>w path body. (True, w)), osOf = (\<lambda>_. okOS)\<rparr>,
      dpMkdir = (\<lambda>_. True), dpEncodeQuarantine = (\<lambda>_ _. True), dpWriteFile = (\<lambda>_. True)\<rparr>"

definition exStart :: "newError + (unit, FSStore) Service" where
  "exStart = NewService exDeps (\<lambda>t. t) (\<lambda>_. \<lparr>NonceSize = 0, SealFn = (\<lambda>_ p. p), OpenFn = (\<lambda>_ p. Some p)\<rparr>) True
     (workingDisk [] NoState) (exStore (\<lambda>_. exCalls)) (configDefaults exConfig)"

definition exOutcome :: WireOutcome where
  "exOutcome = \<lparr>woOutcomeID = [], woEntityName = ''order'', woEntityKey = ''k'', woKind = ''refund'', woValue = ''y'',
     woOccurredAt = 5, woObservedAt = 0, woSource = []\<rparr>"

definition exEnvelope :: Envelope where
  "exEnvelope = zeroEnvelope\<lparr>envSessionKey := ''s'', envSource := ''a'', envSpanID := ''x'', envTerminal := True,
     envStep := zeroStep\<lparr>stStartedAt := 5, stKind := KindTool, stContentInline := Some ''hello''\<rparr>\<rparr>"

lemma exStart_run:
  "\<exists>s0 s1 s2. exStart = Inr s0 \<and> IngestOutcomes exDeps ''a'' [exOutcome] s0 = (Inr 1, s1) \<and>
     onEnvelope exDeps exEnvelope s1 = (None, s2) \<and> svTrace s2 = [Offered [2], Offered [1]]"
proof -
  have "case exStart of Inl e \<Rightarrow> False
    | Inr s0 \<Rightarrow> (case IngestOutcomes exDeps ''a'' [exOutcome] s0 of
        (r, s1) \<Rightarrow> r = Inr 1 \<and> (case onEnvelope exDeps exEnvelope s1 of (er, s2) \<Rightarrow> er = None \<and> svTrace s2 = [Offered [2], Offered [1]]))"
    by code_simp
  then show ?thesis by (auto split: sum.splits prod.splits)
qed

theorem only_redacted_is_buffered_witness:
  "redactedPayload exDeps {configDefaults exConfig} [1] \<and> redactedPayload exDeps {configDefaults exConfig} [2]"
proof -
  obtain s0 s1 s2 where S: "exStart = Inr s0" "IngestOutcomes exDeps ''a'' [exOutcome] s0 = (Inr 1, s1)"
    "onEnvelope exDeps exEnvelope s1 = (None, s2)" "svTrace s2 = [Offered [2], Offered [1]]"
    using exStart_run by blast
  have "svcRun exDeps {configDefaults exConfig} s2"
    using svcRun.envelope [OF svcRun.outcomes [OF svcRun.start [OF S(1) [unfolded exStart_def]] S(2)] S(3)] by blast
  from only_redacted_is_buffered [OF this] S(4) show ?thesis by simp
qed

end
