(* ===== verification/Service_Edges.thy ===== *)
theory Service_Edges
  imports Service_Props
begin

text \<open>
  Where the parts of the service meet: acknowledgement and the sink's own buffering, quarantine paths,
  reloads, outcome loads, shutdown and the loss marker, and counters that several stages share.
\<close>

section \<open>Acknowledging what is only in memory\<close>

text \<open>The buffered records of a batch hold outcomes.\<close>

definition outcomesOf :: "('l, 's) Deps \<Rightarrow> Entry \<Rightarrow> Outcome list" where
  "outcomesOf D e = (case dpDecode D (Frame.Payload e) of None \<Rightarrow> [] | Some rec \<Rightarrow> brOutcomes rec)"

definition withOutcomes :: "('l, 's) Deps \<Rightarrow> Entry list \<Rightarrow> 's LakeWorld \<Rightarrow> 's LakeWorld \<Rightarrow> bool" where
  "withOutcomes D es w w' \<longleftrightarrow>
     lkStore w' = lkStore w \<and> lsPending (lkSink w') = lsPending (lkSink w) \<and> lsOpts (lkSink w') = lsOpts (lkSink w) \<and>
     lsRewards (lkSink w') = lsRewards (lkSink w) \<and>
     lsOutcomes (lkSink w') = lsOutcomes (lkSink w) @ concat (map (outcomesOf D) es) \<and>
     (lsOutcomes (lkSink w) = [] \<longrightarrow> es \<noteq> [] \<longrightarrow> (\<exists>i. lsOutcomesSince (lkSink w') = dpClock D i)) \<and>
     (lsOutcomes (lkSink w) \<noteq> [] \<longrightarrow> lsOutcomesSince (lkSink w') = lsOutcomesSince (lkSink w))"

lemma sendOne_outcomes:
  assumes "outcomesOf D e \<noteq> []" and "0 < MaxAttempts (dOpts d)"
  shows "\<exists>d'. sendOne (serviceEnv D) e d = (Inr False, d') \<and> dBuf d' = dBuf d \<and> dOpts d' = dOpts d \<and>
    withOutcomes D [e] (dWorld d) (dWorld d')"
proof -
  obtain n where n: "nat (MaxAttempts (dOpts d)) = Suc n" using assms(2) by (cases "nat (MaxAttempts (dOpts d))") auto
  obtain rec where r: "dpDecode D (Frame.Payload e) = Some rec" "brOutcomes rec \<noteq> []" "outcomesOf D e = brOutcomes rec"
    using assms(1) by (auto simp: outcomesOf_def split: option.splits)
  show ?thesis
    using n r by (auto simp: sendOne_def serviceEnv_def sendRecord_def noteCall_def withOutcomes_def WriteOutcomes_def Let_def)
qed

lemma withOutcomes_trans:
  assumes "withOutcomes D [e] w w1" and "withOutcomes D es w1 w2" and "outcomesOf D e \<noteq> []"
  shows "withOutcomes D (e # es) w w2"
  using assms by (auto simp: withOutcomes_def)

lemma sendAll_outcomes:
  assumes "\<forall>e \<in> set es. outcomesOf D e \<noteq> []" and "0 < MaxAttempts (dOpts d)"
  shows "\<exists>d'. sendAll (serviceEnv D) es toAck d = (Inr (toAck @ es), d') \<and> dBuf d' = dBuf d \<and> dOpts d' = dOpts d \<and>
    withOutcomes D es (dWorld d) (dWorld d')"
  using assms
proof (induction es arbitrary: d toAck)
  case Nil
  then show ?case by (simp add: withOutcomes_def)
next
  case (Cons e es)
  obtain d1 where 1: "sendOne (serviceEnv D) e d = (Inr False, d1)" "dBuf d1 = dBuf d" "dOpts d1 = dOpts d"
      "withOutcomes D [e] (dWorld d) (dWorld d1)"
    using sendOne_outcomes [of D e d] Cons.prems by auto
  obtain d2 where 2: "sendAll (serviceEnv D) es (toAck @ [e]) d1 = (Inr ((toAck @ [e]) @ es), d2)" "dBuf d2 = dBuf d1" "dOpts d2 = dOpts d1"
      "withOutcomes D es (dWorld d1) (dWorld d2)"
    using Cons.IH [of d1 "toAck @ [e]"] Cons.prems 1(3) by auto
  show ?case using 1 2 withOutcomes_trans [OF 1(4) 2(4)] Cons.prems by auto
qed

lemma flush_nothing_due:
  assumes "lsPending (lkSink w) = []" and "length (lsOutcomes (lkSink w)) < 50000"
    and "dpClock D (lkTick w) - lsOutcomesSince (lkSink w) < loRollInterval (lsOpts (lkSink w))"
  shows "flushWorld D False w = (None, w\<lparr>lkTick := lkTick w + 1\<rparr>)"
  using assms by (simp add: flushWorld_def flushSink_def takeDue_def outcomesDue_def)

text \<open>
  C15. Acknowledgement does not wait for the lake. The commit of a batch is the sink's \<^verbatim>\<open>FlushDue\<close>, which
  does nothing while no partition and no run of outcomes is due. So a batch of outcome records, fewer
  than fifty thousand and inside the roll interval, is sent, committed and acknowledged, and gone from
  the durable queue, while the store has not changed and the outcomes exist in the memory of the sink
  only: a crash before the next due flush loses them.
\<close>

theorem commit_acknowledges_unwritten:
  assumes "goodDisk (dpBase D)" and "bufInv (dBuf d)" and "cipherOK (aead (dBuf d))" and "0 < MaxAttempts (dOpts d)"
    and "batch = take n (pending (dBuf d))" and "batch \<noteq> []" and "\<forall>e \<in> set batch. outcomesOf D e \<noteq> []"
    and "lsPending (lkSink (dWorld d)) = []" and "lsOutcomes (lkSink (dWorld d)) = []"
    and "length (concat (map (outcomesOf D) batch)) < 50000"
    and "\<forall>i j. dpClock D i - dpClock D j < loRollInterval (lsOpts (lkSink (dWorld d)))"
  shows "\<exists>d'. deliverBatch (serviceEnv D) batch d = (length batch, None, d') \<and>
    pending (dBuf d') = drop n (pending (dBuf d)) \<and> lkStore (dWorld d') = lkStore (dWorld d) \<and>
    lsOutcomes (lkSink (dWorld d')) = concat (map (outcomesOf D) batch)"
proof -
  obtain d1 where S: "sendAll (serviceEnv D) batch [] d = (Inr batch, d1)" "dBuf d1 = dBuf d" "dOpts d1 = dOpts d"
      "withOutcomes D batch (dWorld d) (dWorld d1)"
    using sendAll_outcomes [OF assms(7,4), of "[]"] by auto
  obtain i where i: "lsOutcomesSince (lkSink (dWorld d1)) = dpClock D i" using S(4) assms(6,9) by (auto simp: withOutcomes_def)
  let ?w = "(dWorld d1)\<lparr>lkTick := lkTick (dWorld d1) + 1\<rparr>"
  have F: "flushWorld D False (dWorld d1) = (None, ?w)"
    using S(4) assms(8-11) i by (intro flush_nothing_due) (auto simp: withOutcomes_def)
  obtain k where k: "nat (MaxAttempts (dOpts d1)) = Suc k" using assms(4) S(3) by (cases "nat (MaxAttempts (dOpts d1))") auto
  let ?d2 = "noteCall Committed (d1\<lparr>dWorld := ?w\<rparr>)"
  have C: "commitWithRetry (serviceEnv D) (flushWorld D False) (nat (MaxAttempts (dOpts d1))) d1 = (None, ?d2)"
    using F k by simp
  have "saveOK (osOf (serviceEnv D) (dWorld ?d2))" using assms(1) goodOS_D(4) by (simp add: goodDisk_def serviceEnv_def)
  from ackAll_pending [OF this, of n] obtain b' where A:
      "ackAll (serviceEnv D) batch ?d2 = (None, ?d2\<lparr>dBuf := b', dTrace := dTrace ?d2 @ map Acked batch\<rparr>)"
      "pending b' = drop n (pending (dBuf d))"
    using assms(2,5) S(2) by (auto simp: noteCall_def)
  have com: "commit (serviceEnv D) = Some (flushWorld D False)" by (simp add: serviceEnv_def)
  show ?thesis
    using S C A assms(6,9) by (simp add: deliverBatch_def com noteCall_def withOutcomes_def)
qed

theorem commit_acknowledges_unwritten_witness:
  "\<exists>d'. deliverBatch (serviceEnv exDeps) (take 2 (pending threeRecords))
      (NewDeliverer threeRecords oneTry \<lparr>lkSink = zeroLakeSink (lakeDefaults exLakeOptions), lkStore = exStore (\<lambda>_. exCalls), lkTick = 0\<rparr>)
      = (2, None, d') \<and> lkStore (dWorld d') = exStore (\<lambda>_. exCalls) \<and> length (pending (dBuf d')) = 1"
proof -
  let ?d = "NewDeliverer threeRecords oneTry \<lparr>lkSink = zeroLakeSink (lakeDefaults exLakeOptions), lkStore = exStore (\<lambda>_. exCalls), lkTick = 0\<rparr>"
  have L: "length (pending threeRecords) = 3" using arg_cong [OF threeRecords_pending, of length] by simp
  then have ne: "take 2 (pending threeRecords) \<noteq> []" by auto
  have D: "goodDisk (dpBase exDeps)" by (simp add: goodDisk_def exDeps_def)
  have one: "length (outcomesOf exDeps e) = 1" for e by (simp add: outcomesOf_def exDeps_def)
  then have some: "\<forall>e \<in> set (take 2 (pending threeRecords)). outcomesOf exDeps e \<noteq> []" by (metis length_0_conv zero_neq_one)
  have few: "length (concat (map (outcomesOf exDeps) es)) = length es" for es using one by (induction es) simp_all
  have clock: "\<forall>i j. dpClock exDeps i - dpClock exDeps j < loRollInterval (lsOpts (lkSink (dWorld ?d)))"
    by (auto simp: exDeps_def NewDeliverer_def zeroLakeSink_def lakeDefaults_def exLakeOptions_def min_def)
  have "lsPending (lkSink (dWorld ?d)) = []" "lsOutcomes (lkSink (dWorld ?d)) = []" by (simp_all add: NewDeliverer_def zeroLakeSink_def)
  from commit_acknowledges_unwritten [OF D _ _ _ _ ne some this _ clock, of 2] few [of "take 2 (pending threeRecords)"]
  obtain d' where "deliverBatch (serviceEnv exDeps) (take 2 (pending threeRecords)) ?d = (length (take 2 (pending threeRecords)), None, d')"
      "pending (dBuf d') = drop 2 (pending threeRecords)" "lkStore (dWorld d') = lkStore (dWorld ?d)"
    using threeRecords_inv threeRecords_cipher L by auto
  then show ?thesis using L by (auto simp: NewDeliverer_def)
qed

section \<open>Quarantine paths\<close>

lemma cleanElems_push: "list_all plainElem xs \<Longrightarrow> cleanElems rooted st (xs @ r) = cleanElems rooted (rev xs @ st) r"
  by (induction xs arbitrary: st) (auto simp: plainElem_def)

lemma cleanElems_up:
  "list_all plainElem st \<Longrightarrow> length st \<le> n \<Longrightarrow> cleanElems True st (replicate n ''..'' @ r) = cleanElems True [] r"
proof (induction n arbitrary: st)
  case (Suc n)
  then show ?case by (cases st) (auto simp: plainElem_def)
qed simp

lemma cleanElems_escape:
  "list_all plainElem qs \<Longrightarrow> length qs \<le> n \<Longrightarrow> list_all plainElem ts \<Longrightarrow> cleanElems True [] (qs @ replicate n ''..'' @ ts) = ts"
  by (simp add: cleanElems_push cleanElems_up cleanElems_id)

lemma splitSlash_plain: "CHR ''/'' \<notin> set s \<Longrightarrow> splitSlash cur s = [cur @ s]"
  by (induction s arbitrary: cur) auto

lemma pathClean_elems:
  assumes "has_prefix p ''/''"
  shows "pathClean p = absPath (cleanElems True [] (filter (\<lambda>e. e \<noteq> []) (splitSlash [] p)))"
  using assms by (simp add: pathClean_def Let_def absPath_def cleanElems_nonempty [symmetric])

lemma absPath_prefix [simp]: "has_prefix (absPath es @ r) ''/''" "absPath es \<noteq> []"
  by (simp_all add: absPath_def has_prefix_def)

lemma plain_day: "plainElem (''dt='' @ formatDate t)"
  using formatDate_no_slash [of t] by (auto simp: plainElem_def)

lemma quarantineDir_clean:
  assumes "list_all plainElem es" and "plainElem stage"
  shows "pathJoin [absPath es, ''dt='' @ formatDate t, stage] = absPath (es @ [''dt='' @ formatDate t, stage])"
proof -
  let ?dt = "''dt='' @ formatDate t"
  have "filter (\<lambda>e. e \<noteq> []) (splitSlash [] (absPath es @ CHR ''/'' # ?dt @ CHR ''/'' # stage)) = es @ [?dt, stage]"
    using assms plain_day [of t] splitSlash_slash [of "[]" ?dt stage]
    by (simp add: splitSlash_slash splitSlash_absPath splitSlash_plain plainElem_def)
  then show ?thesis
    using assms plain_day [of t] cleanElems_id [of "es @ [?dt, stage]" True "[]"]
    by (simp add: pathJoin_def pathClean_elems plainElem_def)
qed

text \<open>
  A producer chooses where a quarantined episode is written. The file name is the episode id, which
  the native source takes from the producer, joined as a path: an id without a slash names a file in
  the directory of its day and stage, but an id of enough parent references reaches every path of the
  file system that ends in \<^verbatim>\<open>.json\<close>, outside the quarantine directory.
\<close>

theorem quarantine_path_escapes:
  assumes "list_all plainElem es" and "plainElem stage" and "list_all plainElem ts" and "ts \<noteq> []"
  shows "quarantinePath (absPath es) now stage (concat (replicate (length es + 2) ''../'') @ join_with ''/'' ts)
      = absPath (butlast ts @ [last ts @ ''.json'']) \<and>
    (CHR ''/'' \<notin> set epID \<longrightarrow>
      quarantinePath (absPath es) now stage epID = absPath (es @ [''dt='' @ formatDate (unixMicro now), stage, epID @ ''.json'']))"
proof -
  let ?qs = "es @ [''dt='' @ formatDate (unixMicro now), stage]" and ?ts = "butlast ts @ [last ts @ ''.json'']"
  have qs: "list_all plainElem ?qs" using assms(1,2) plain_day by simp
  have Q: "quarantinePath (absPath es) now stage x =
      absPath (cleanElems True [] (?qs @ filter (\<lambda>e. e \<noteq> []) (splitSlash [] (x @ ''.json''))))" for x
    using qs quarantineDir_clean [OF assms(1,2), of "unixMicro now"]
    by (simp add: quarantinePath_def pathJoin_def [of "[_, _]"] pathClean_elems splitSlash_slash splitSlash_absPath)
  have ts: "list_all plainElem ?ts"
    using assms(3,4) by (cases ts rule: rev_cases) (auto simp: plainElem_def append_eq_Cons_conv)
  have J: "join_with ''/'' ts @ ''.json'' = join_with ''/'' ?ts"
    using assms(4) by (induction "''/''" ts rule: join_with.induct) auto
  have up: "splitSlash [] (concat (replicate n ''../'') @ r) = replicate n ''..'' @ splitSlash [] r" for n r
    by (induction n) simp_all
  have "filter (\<lambda>e. e \<noteq> []) (splitSlash [] ((concat (replicate (length es + 2) ''../'') @ join_with ''/'' ts) @ ''.json''))
      = replicate (length es + 2) ''..'' @ ?ts"
    using split_join_plain [OF ts] ts by (simp add: up J filter_id_conv list_all_iff plainElem_def)
  moreover have "cleanElems True [] (?qs @ replicate (length es + 2) ''..'' @ ?ts) = ?ts"
    by (rule cleanElems_escape [OF qs _ ts]) simp
  moreover have "cleanElems True [] (?qs @ [epID @ ''.json'']) = ?qs @ [epID @ ''.json'']" if "CHR ''/'' \<notin> set epID"
    using qs that by (subst cleanElems_id) (auto simp: plainElem_def append_eq_Cons_conv)
  ultimately show ?thesis by (simp add: Q splitSlash_plain)
qed

theorem quarantine_path_escapes_witness:
  "quarantinePath ''/var/buf/quarantine'' 0 ''redact'' ''../../../../../etc/cron'' = ''/etc/cron.json''"
proof -
  have "list_all plainElem [''var'', ''buf'', ''quarantine'']" "plainElem ''redact''" "list_all plainElem [''etc'', ''cron'']"
    by (simp_all add: plainElem_def)
  from quarantine_path_escapes [OF this, of 0] show ?thesis by (simp add: absPath_def numeral_eq_Suc)
qed


section \<open>Envelopes and episodes\<close>

text \<open>
  What a source is told is what happened: an envelope that is refused, for its quota or for back
  pressure, reaches neither the assembler nor the buffer, so the producer can send it again; it is
  accepted without being kept only when head sampling drops its session.
\<close>

theorem refused_envelope_changes_nothing:
  assumes "onEnvelope D env s = (er, s')"
  shows "(er \<noteq> None \<longrightarrow> svAsm s' = svAsm s \<and> svDel s' = svDel s \<and> svTrace s' = svTrace s) \<and>
    (er = None \<longrightarrow> \<not> fst (HeadKeepFrom (envSource env) (envSessionKey env) (plSampler (svPol s))) \<and> svAsm s' = svAsm s \<and> svDel s' = svDel s
      \<or> (\<exists>eps. Add env (svAsm s) = (eps, svAsm s') \<and> \<not> UnderBackpressure (svBuf s)))"
proof -
  have A: "svAsm (onEpisodes D eps t) = svAsm t" for eps t
  proof (induction eps arbitrary: t)
    case (Cons ep eps)
    have Q: "svAsm (quarantine D e g u) = svAsm u" for e g u by (simp add: quarantine_frame)
    have E: "svAsm (emitEpisode D e u) = svAsm u" for e u
      by (auto simp: emitEpisode_def Let_def split: option.splits prod.splits bool.splits dest: appendPayload_frame)
    have "svAsm (onEpisode D ep t) = svAsm t"
      by (auto simp: onEpisode_def Let_def Q E split: prod.splits sum.splits)
    then show ?case using Cons by (simp add: onEpisodes_def)
  qed (simp add: onEpisodes_def)
  show ?thesis
    using assms by (auto simp: onEnvelope_def readClock_def svBuf_def Let_def A split: prod.splits if_splits)
qed

theorem refused_envelope_changes_nothing_witness:
  "\<exists>s er s'. exStart = Inr s \<and> onEnvelope exDeps exEnvelope s = (er, s') \<and>
     (er \<noteq> None \<longrightarrow> svAsm s' = svAsm s \<and> svDel s' = svDel s \<and> svTrace s' = svTrace s)"
proof -
  obtain s where "exStart = Inr s" using exStart_run by blast
  moreover obtain er s' where "onEnvelope exDeps exEnvelope s = (er, s')" by fastforce
  ultimately show ?thesis using refused_envelope_changes_nothing by blast
qed



section \<open>Reload\<close>

lemma bad_iff: "bad b k = [] \<longleftrightarrow> \<not> b"
  by (simp add: bad_def)


definition exReloaded :: Config where
  "exReloaded = (configDefaults exConfig)\<lparr>cfTenant := ''u''\<rparr>"


text \<open>Other values for the settings of a source that a reload neither applies nor compares.\<close>

definition repointed :: "string \<Rightarrow> string \<Rightarrow> string list \<Rightarrow> string \<Rightarrow> int \<Rightarrow> string \<Rightarrow> Source \<Rightarrow> Source" where
  "repointed mapping dir globs path limit auth s =
     s\<lparr>soMapping := mapping, soMappingsDir := dir, soInclude := globs, soPath := path, soMaxRequestBytes := limit, soAuthType := auth\<rparr>"

lemma map_of_byName:
  assumes "distinct (map soName ss)" and "s \<in> set ss"
  shows "map_of (fold (\<lambda>s m. AList.update (soName s) s m) ss m) (soName s) = Some s"
  using assms
proof (induction ss arbitrary: m)
  case (Cons x ss)
  have out: "map_of (fold (\<lambda>s m. AList.update (soName s) s m) ss m') k = map_of m' k" if "k \<notin> soName ` set ss" for m' k
    using that by (induction ss arbitrary: m') (auto simp: update_conv')
  show ?case
  proof (cases "s \<in> set ss")
    case True
    then show ?thesis using Cons by simp
  next
    case False
    then have "s = x" "soName x \<notin> soName ` set ss" using Cons.prems by auto
    then show ?thesis by (simp add: out update_conv')
  qed
qed simp

text \<open>
  A reload hides changes it did not apply. Pointing the sources of a running collector to another
  mapping file, mappings directory, set of files to tail, path, body limit or kind of authentication
  is reported as needing no restart, although the sources keep the old values: the configuration
  recorded as current still has the old sources.
\<close>

theorem reload_hides_source_changes:
  assumes "distinct (map soName (cfSources prev))"
  shows "structuralChanges prev (prev\<lparr>cfSources := map (repointed mapping dir globs path limit auth) (cfSources prev)\<rparr>) = [] \<and>
    cfSources (mergedConfig prev (prev\<lparr>cfSources := map (repointed mapping dir globs path limit auth) (cfSources prev)\<rparr>)) = cfSources prev"
proof -
  let ?r = "repointed mapping dir globs path limit auth"
  have names: "soName (?r s) = soName s" for s by (simp add: repointed_def)
  have "map_of (fold (\<lambda>s m. AList.update (soName s) s m) (map ?r (cfSources prev)) []) (soName s) = Some (?r s)"
    if "s \<in> set (cfSources prev)" for s
    using map_of_byName [of "map ?r (cfSources prev)" "?r s" "[]"] that assms by (simp add: comp_def names)
  then have "mergeSourcePolicy (cfSources prev) (map ?r (cfSources prev)) = cfSources prev"
    unfolding mergeSourcePolicy_def Let_def by (intro map_idI) (simp add: repointed_def)
  moreover have "listeners (map ?r ss) = listeners ss" for ss by (simp add: listeners_def repointed_def)
  ultimately show ?thesis by (simp add: structuralChanges_def mergedConfig_def bad_iff)
qed

theorem reload_hides_source_changes_witness:
  "structuralChanges exConfig (exConfig\<lparr>cfSources := [repointed ''new.yaml'' [] [] [] 0 ''bearer'' exSource]\<rparr>) = []"
  using reload_hides_source_changes [of exConfig "''new.yaml''" "[]" "[]" "[]" 0 "''bearer''"] by (simp add: exConfig_def)

section \<open>Outcomes\<close>

lemma outcomeRecords_length: "outcomeRecords r now src i ws = Inr os \<Longrightarrow> length os = length ws"
  by (induction ws arbitrary: i os) (auto split: option.splits sum.splits)

lemma appendPayload_append:
  "appendPayload D p s = (ok, s') \<Longrightarrow> \<exists>t er. Append (svOS D s) t p (svBuf s) = (er, svBuf s') \<and> ok = (er = None)"
proof -
  assume a: "appendPayload D p s = (ok, s')"
  obtain er b where "Append (svOS D s) (dpClock D (svReads s)) p (svBuf s) = (er, b)" by fastforce
  moreover from this a have "svBuf s' = b" "ok = (er = None)" by (auto simp: appendPayload_def readClock_def svOS_def svBuf_def)
  ultimately show ?thesis by blast
qed

lemma outcomes_taken:
  "IngestOutcomes D src ws s = (Inr n, s') \<Longrightarrow> n = length ws"
  by (auto simp: IngestOutcomes_def readClock_def Let_def outcomeRecords_length
      split: prod.splits if_splits sum.splits option.splits bool.splits)

text \<open>
  Outcomes are taken all or none: a call that fails for the quota, for back pressure or for one bad
  outcome offers nothing to the buffer, and one that succeeds has put exactly one record with all of
  them into it, with keys rewritten by the global rules and every time of observation set.
\<close>

theorem outcomes_all_or_none:
  assumes "IngestOutcomes D src ws s = (r, s')"
  shows "case r of
      Inr n \<Rightarrow> n = length ws \<and> (\<exists>now os p t b. outcomeRecords (fst (plRedactor (svPol s))) now src 0 ws = Inr os \<and>
        dpEncode D \<lparr>brEpisode = None, brSteps = [], brOutcomes = os\<rparr> = Some p \<and>
        Append (svOS D s) t p (svBuf s) = (None, svBuf s') \<and> svTrace s' = svTrace s @ [Offered p])
    | Inl e \<Rightarrow> svTrace s' = svTrace s \<and> svBuf s' = svBuf s \<or>
        e = Backpressure \<and> (\<exists>p t er. Append (svOS D s) t p (svBuf s) = (er, svBuf s') \<and> er \<noteq> None)"
proof -
  obtain ok q where q: "quotaAllow (dpLimits D) (dpClock D (svReads s)) src (plQuotas (svPol s)) = (ok, q)" by fastforce
  define w where "w = s\<lparr>svReads := Suc (svReads s), svPol := (svPol s)\<lparr>plQuotas := q\<rparr>\<rparr>"
  define u where "u = w\<lparr>svReads := Suc (svReads w)\<rparr>"
  have u: "svBuf u = svBuf s" "svTrace u = svTrace s" "svOS D u = svOS D s" "svBuf w = svBuf s" "svTrace w = svTrace s"
    "svReads w = Suc (svReads s)" "svPol u = (svPol s)\<lparr>plQuotas := q\<rparr>"
    by (simp_all add: u_def w_def svBuf_def svOS_def)
  have I: "IngestOutcomes D src ws s =
      (if \<not> ok then (Inl QuotaExceeded, countMetric [''shed'', src, ''quota''] 1 w)
       else if UnderBackpressure (svBuf s) then (Inl Backpressure, countMetric [''shed'', src, ''backpressure''] 1 w)
       else case outcomeRecords (fst (plRedactor (svPol s))) (unixMicro (dpClock D (Suc (svReads s)))) src 0 ws of
          Inl e \<Rightarrow> (Inl e, u)
        | Inr os \<Rightarrow> (case dpEncode D \<lparr>brEpisode = None, brSteps = [], brOutcomes = os\<rparr> of
            None \<Rightarrow> (Inl EncodeOutcomes, u)
          | Some p \<Rightarrow> (case appendPayload D p u of
              (False, v) \<Rightarrow> (Inl Backpressure, v)
            | (True, v) \<Rightarrow> (Inr (length os), countMetric [''outcomes_ingested'', src] (int (length os)) v))))"
    by (simp add: IngestOutcomes_def readClock_def q Let_def u_def w_def svBuf_def cong: sum.case_cong option.case_cong)
  show ?thesis
  proof (cases "ok \<and> \<not> UnderBackpressure (svBuf s)")
    case True
    show ?thesis
    proof (cases "\<exists>os p. outcomeRecords (fst (plRedactor (svPol s))) (unixMicro (dpClock D (Suc (svReads s)))) src 0 ws = Inr os \<and>
        dpEncode D \<lparr>brEpisode = None, brSteps = [], brOutcomes = os\<rparr> = Some p")
      case False
      then have "\<exists>e. r = Inl e \<and> s' = u" using assms I True by (auto split: sum.splits option.splits)
      then show ?thesis using u by auto
    next
      case E: True
      then obtain os p where E: "outcomeRecords (fst (plRedactor (svPol s))) (unixMicro (dpClock D (Suc (svReads s)))) src 0 ws = Inr os"
        "dpEncode D \<lparr>brEpisode = None, brSteps = [], brOutcomes = os\<rparr> = Some p" by blast
      obtain taken v where A: "appendPayload D p u = (taken, v)" by fastforce
      have R: "(r, s') = (if taken then (Inr (length os), countMetric [''outcomes_ingested'', src] (int (length os)) v) else (Inl Backpressure, v))"
        using assms I True E A by (simp split: bool.splits)
      from appendPayload_append [OF A] u obtain t er where T: "Append (svOS D s) t p (svBuf s) = (er, svBuf v)" "taken = (er = None)" by auto
      show ?thesis
      proof (cases "er = None")
        case True
        then have "r = Inr (length os)" "svTrace s' = svTrace s @ [Offered p]" "svBuf s' = svBuf v"
          using R T(2) appendPayload_frame(2) [OF A] u by auto
        then show ?thesis using E T True outcomeRecords_length [OF E(1)] by auto
      next
        case False
        then have "r = Inl Backpressure" "s' = v" using R T(2) by auto
        then show ?thesis using T(1) False by (simp del: not_None_eq) blast
      qed
    qed
  next
    case False
    then show ?thesis using assms I u by (auto simp: svBuf_def split: if_splits)
  qed
qed

theorem outcomes_all_or_none_witness:
  "\<exists>s r s'. exStart = Inr s \<and> IngestOutcomes exDeps ''a'' [exOutcome] s = (r, s') \<and> r = Inr 1 \<and> length (svTrace s') = Suc (length (svTrace s))"
proof -
  obtain s s' where "exStart = Inr s" "IngestOutcomes exDeps ''a'' [exOutcome] s = (Inr 1, s')" using exStart_run by blast
  then show ?thesis using outcomes_all_or_none [of exDeps "''a''" "[exOutcome]" s "Inr 1" s'] by auto
qed


lemma loadChunks_count:
  assumes "0 < chunk" and "loadChunks D chunk src ws tot s = (n, er, s')"
  shows "(er = None \<longrightarrow> n = tot + length ws) \<and> (er \<noteq> None \<longrightarrow> (\<exists>k. n = tot + k * chunk \<and> k * chunk < length ws))"
  using assms(2)
proof (induction "length ws" arbitrary: ws tot s rule: less_induct)
  case less
  show ?case
  proof (cases "ws = []")
    case True
    then show ?thesis using less.prems by (simp add: loadChunks.simps)
  next
    case False
    obtain r s1 where I: "IngestOutcomes D src (take chunk ws) s = (r, s1)" by fastforce
    show ?thesis
    proof (cases r)
      case (Inl e)
      then have "n = tot" "er = Some e" using less.prems I False assms(1) by (auto simp: loadChunks.simps)
      then show ?thesis using False by (auto intro: exI [of _ 0])
    next
      case (Inr m)
      then have m: "m = length (take chunk ws)" using outcomes_taken I by blast
      have L: "loadChunks D chunk src (drop chunk ws) (tot + m) s1 = (n, er, s')"
        using less.prems I Inr False assms(1) by (simp add: loadChunks.simps [of D chunk src ws])
      have "length (drop chunk ws) < length ws" using False assms(1) by simp
      note IH = less.hyps [OF this L]
      show ?thesis
      proof (cases er)
        case None
        then show ?thesis using IH m by simp
      next
        case (Some e)
        then obtain k where k: "n = tot + m + k * chunk" "k * chunk < length ws - chunk" using IH by auto
        then have "m = chunk" using m by simp
        then show ?thesis using k Some by (auto intro!: exI [of _ "Suc k"])
      qed
    qed
  qed
qed

text \<open>
  Loading a file reports what it took: without an error the count is the number of outcomes in the
  file, whatever the size of the chunks, and with one it is the number in the chunks before the
  failing one.
\<close>

theorem load_outcomes_counts:
  assumes "LoadOutcomes D fuel src ws s = Some (n, er, s')"
  shows "(er = None \<longrightarrow> n = length ws) \<and>
    (\<forall>e. er = Some (LoadIngest e) \<longrightarrow> (\<exists>k. n = k * 1000 \<and> n < length ws))"
proof -
  obtain m e1 s1 where L: "loadChunks D 1000 src ws 0 s = (m, e1, s1)" by (metis prod_cases3)
  note C = loadChunks_count [OF _ L]
  show ?thesis
  proof (cases e1)
    case None
    then show ?thesis using assms L C by (auto simp: LoadOutcomes_def split: option.splits prod.splits)
  next
    case (Some e)
    then show ?thesis using assms L C by (auto simp: LoadOutcomes_def)
  qed
qed


theorem load_outcomes_counts_witness:
  "\<exists>s n s'. exStart = Inr s \<and>
     LoadOutcomes exDeps 2 ''a'' [exOutcome, exOutcome\<lparr>woKind := []\<rparr>] s = Some (n, Some (LoadIngest (BadOutcome 1 (MissingField ''kind''))), s') \<and> n < 2"
proof -
  have "case exStart of Inl e \<Rightarrow> False
    | Inr s \<Rightarrow> (case LoadOutcomes exDeps 2 ''a'' [exOutcome, exOutcome\<lparr>woKind := []\<rparr>] s of None \<Rightarrow> False
        | Some (n, er, s') \<Rightarrow> er = Some (LoadIngest (BadOutcome 1 (MissingField ''kind''))))"
    by code_simp
  then obtain s n s' where S: "exStart = Inr s"
      "LoadOutcomes exDeps 2 ''a'' [exOutcome, exOutcome\<lparr>woKind := []\<rparr>] s = Some (n, Some (LoadIngest (BadOutcome 1 (MissingField ''kind''))), s')"
    by (auto split: sum.splits option.splits)
  from load_outcomes_counts [OF S(2)] S show ?thesis by auto
qed

section \<open>Shutdown and the loss marker\<close>

lemma onEpisode_asm: "svAsm (onEpisode D ep s) = svAsm s"
proof -
  have E: "svAsm (emitEpisode D e u) = svAsm u" for e u
    by (auto simp: emitEpisode_def Let_def split: option.splits prod.splits bool.splits dest: appendPayload_frame)
  show ?thesis by (auto simp: onEpisode_def Let_def quarantine_frame E split: prod.splits sum.splits)
qed

lemma onEpisodes_asm: "svAsm (onEpisodes D eps s) = svAsm s"
  unfolding onEpisodes_def by (rule fold_frame [where g = svAsm]) (simp add: onEpisode_asm)

lemma svcRun_asm: "svcRun D C s \<Longrightarrow> asmInv (svAsm s)"
proof (induction rule: svcRun.induct)
  case (start schemaText aesGCM lockFree dk st cfg s)
  then show ?case using New_inv(1) by (auto simp: NewService_def split: prod.splits option.splits sum.splits)
next
  case (envelope s env er s')
  then show ?case
    using Add_inv [of "svAsm s" env]
    by (auto simp: onEnvelope_def readClock_def Let_def onEpisodes_asm split: prod.splits if_splits)
next
  case (outcomes s src ws r s')
  have "svAsm s' = svAsm s"
    using outcomes.hyps(2) by (auto simp: IngestOutcomes_def readClock_def Let_def
        split: prod.splits if_splits sum.splits option.splits bool.splits dest: appendPayload_frame)
  then show ?case using outcomes.IH by simp
next
  case (expiry s ok rc rj)
  then show ?case
    using expireLocked_closing [of "svAsm s"] by (auto simp: tickExpire_def Expire_def onEpisodes_asm closing_def split: prod.splits)
next
  case (reload s "next" r s')
  then show ?case by (auto simp: Reload_def split: sum.splits)
next
  case (shutdown s fuel ok s')
  then show ?case
    using Flush_closing [of "svAsm s" StatusTimedOut]
    by (auto simp: drain_def onEpisodes_asm flushNow_frame closing_def split: option.splits dest!: drainBuffer_frame)
qed (auto simp: tickSync_def readClock_def tickFlush_def flushNow_frame ShutdownService_frame dest: drainBuffer_frame)


text \<open>
  C28. A clean shutdown leaves nothing behind in memory: from every reachable state the assembly part of
  \<^verbatim>\<open>drain\<close> ends, and when delivery ends within its rounds the assembler is empty, and, if the marker
  could be written, it is clean and the next process reports no loss.
\<close>

theorem clean_shutdown:
  assumes "svcRun D C s" and "drain D fuel ok s = Some s'"
  shows "InFlight (svAsm s') = 0 \<and> (\<exists>eps a. Flush StatusTimedOut (svAsm s) = Some (eps, a)) \<and>
    (ok \<longrightarrow> svMarker s' = Some \<lparr>amInFlight = 0, amClean = True\<rparr> \<and> reportPreviousLoss (svMarker s') = 0)"
proof -
  obtain eps a where F: "Flush StatusTimedOut (svAsm s) = Some (eps, a)" "order a = []"
    using Flush_closing [OF svcRun_asm [OF assms(1)], of StatusTimedOut] by blast
  then obtain er s2 where S: "drainBuffer D fuel (onEpisodes D eps (s\<lparr>svAsm := a\<rparr>)) = Some (er, s2)"
      "s' = recordInFlight ok True (snd (flushNow D True s2))"
    using assms(2) by (auto simp: drain_def split: option.splits)
  have "svAsm (snd (flushNow D True s2)) = a" using drainBuffer_frame [OF S(1)] by (simp add: flushNow_frame onEpisodes_asm)
  then show ?thesis using F S(2) by (simp add: recordInFlight_def InFlight_def reportPreviousLoss_def)
qed

theorem clean_shutdown_witness:
  "\<exists>s s'. exStart = Inr s \<and> drain exDeps 1 True s = Some s' \<and> InFlight (svAsm s') = 0 \<and> reportPreviousLoss (svMarker s') = 0"
proof -
  have "case exStart of Inl e \<Rightarrow> False | Inr s \<Rightarrow> drain exDeps 1 True s \<noteq> None" by code_simp
  then obtain s s' where S: "exStart = Inr s" "drain exDeps 1 True s = Some s'" by (auto split: sum.splits)
  have "svcRun exDeps {configDefaults exConfig} s" by (rule svcRun.start [OF S(1) [unfolded exStart_def]]) simp
  from clean_shutdown [OF this S(2)] S show ?thesis by blast
qed

text \<open>
  The loss that the marker reports is not an upper bound. The marker is written by a timer; an
  envelope accepted after the last write opens an episode that the marker does not count. The service
  has started and written its marker, it accepts one envelope and is killed: the next process reports
  no loss, and one episode is lost.
\<close>

theorem loss_marker_undercounts:
  "\<exists>s0 s. exStart = Inr s0 \<and> onEnvelope exDeps (exEnvelope\<lparr>envTerminal := False\<rparr>) (recordInFlight True False s0) = (None, s) \<and>
     InFlight (svAsm s) = 1 \<and> reportPreviousLoss (svMarker s) = 0"
proof -
  have "case exStart of Inl e \<Rightarrow> False
    | Inr s0 \<Rightarrow> (case onEnvelope exDeps (exEnvelope\<lparr>envTerminal := False\<rparr>) (recordInFlight True False s0) of
        (er, s) \<Rightarrow> er = None \<and> InFlight (svAsm s) = 1 \<and> reportPreviousLoss (svMarker s) = 0)"
    by code_simp
  then show ?thesis by (auto split: sum.splits prod.splits)
qed

section \<open>Counters that two stages share\<close>

lemma addDelta_metric:
  "svMetrics (addDelta l a b s) l = svMetrics s l + max 0 (a - b)"
  by (simp add: addDelta_def countMetric_def)

lemma reportRedactError_effect:
  "svMetrics (reportRedactError st i s) [''redaction_errors'', i] =
     svMetrics s [''redaction_errors'', i] + max 0 (rsErrors st i - ltRedactErrors (svLast s) (''redact/'' @ i))"
  "ltRedactErrors (svLast (reportRedactError st i s)) (''redact/'' @ i) = rsErrors st i"
  "svPol (reportRedactError st i s) = svPol s"
  by (simp_all add: reportRedactError_def Let_def addDelta_metric)

text \<open>
  The counter of redaction errors drifts. Totals are remembered under the name of the redactor and
  the rule, and every redactor has the same name: with one policy for a source beside the global one,
  and a rule that has failed more often under the global policy, each report takes the difference of
  the two totals for new errors. After \<open>n\<close> more reports in which nothing failed the counter has grown
  by \<open>n\<close> times the difference; the errors under the policy of the source are never counted.
\<close>

theorem redaction_error_counter_drifts:
  assumes "plRedactor (svPol s) = (r1, st1)" and "plBySource (svPol s) = [(src, (r2, st2))]"
    and "errorRules (r1, st1) = [i]" and "errorRules (r2, st2) = [i]"
    and "rsErrors st2 i < rsErrors st1 i" and "0 < rsErrors st2 i" and "ltRedactErrors (svLast s) (''redact/'' @ i) = 0"
  shows "svMetrics ((reportRedactErrors ^^ Suc n) s) [''redaction_errors'', i] =
    svMetrics s [''redaction_errors'', i] + rsErrors st1 i + int n * (rsErrors st1 i - rsErrors st2 i)"
proof -
  have R: "reportRedactErrors t = reportRedactError st2 i (reportRedactError st1 i t)" if "svPol t = svPol s" for t :: "('a, 'b) Service"
    using that assms(1-4) by (simp add: reportRedactErrors_def redactorsOf_def)
  have "svPol ((reportRedactErrors ^^ Suc n) s) = svPol s \<and> ltRedactErrors (svLast ((reportRedactErrors ^^ Suc n) s)) (''redact/'' @ i) = rsErrors st2 i \<and>
      svMetrics ((reportRedactErrors ^^ Suc n) s) [''redaction_errors'', i] =
        svMetrics s [''redaction_errors'', i] + rsErrors st1 i + int n * (rsErrors st1 i - rsErrors st2 i)"
  proof (induction n)
    case 0
    then show ?case using assms(5-7) by (simp add: R reportRedactError_effect [simplified])
  next
    case (Suc n)
    then show ?case using assms(5) by (simp add: R reportRedactError_effect [simplified] algebra_simps)
  qed
  then show ?thesis by blast
qed

definition exFailing :: "int \<Rightarrow> Redactor \<times> RedactStats" where
  "exFailing n = (\<lparr>rules = [\<lparr>ruleID = ''mail'', ruleRe = None, rulePath = None, ruleAction = ''tokenize'', ruleFields = []\<rparr>], allow = [],
     deny = [], denyDefault = True, metadataOnly = False, tokenKey = [], keyID = [], onManifest = True, detector = None, detectAction = []\<rparr>,
     zeroRedactStats\<lparr>rsErrors := (\<lambda>i. if i = ''mail'' then n else 0)\<rparr>)"

theorem redaction_error_counter_drifts_witness:
  "\<exists>s. exStart = Inr s \<and>
     (let s1 = s\<lparr>svPol := (svPol s)\<lparr>plRedactor := exFailing 5, plBySource := [(''a'', exFailing 3)]\<rparr>\<rparr>
      in svMetrics ((reportRedactErrors ^^ Suc 10) s1) [''redaction_errors'', ''mail''] = 25)"
proof -
  have "case exStart of Inl e \<Rightarrow> False | Inr s \<Rightarrow> svMetrics s [''redaction_errors'', ''mail''] = 0 \<and> ltRedactErrors (svLast s) ''redact/mail'' = 0"
    by code_simp
  then obtain s where s: "exStart = Inr s" "svMetrics s [''redaction_errors'', ''mail''] = 0" "ltRedactErrors (svLast s) ''redact/mail'' = 0"
    by (auto split: sum.splits)
  let ?s = "s\<lparr>svPol := (svPol s)\<lparr>plRedactor := exFailing 5, plBySource := [(''a'', exFailing 3)]\<rparr>\<rparr>"
  have "errorRules (exFailing k) = [''mail'']" if "k > 0" for k using that by (simp add: errorRules_def exFailing_def zeroRedactStats_def)
  moreover have "rsErrors (snd (exFailing k)) ''mail'' = k" for k by (simp add: exFailing_def)
  ultimately have "svMetrics ((reportRedactErrors ^^ Suc 10) ?s) [''redaction_errors'', ''mail''] = 25"
    using redaction_error_counter_drifts [of ?s "fst (exFailing 5)" "snd (exFailing 5)" "''a''" "fst (exFailing 3)" "snd (exFailing 3)" "''mail''" 10] s
    by (simp del: funpow.simps)
  then show ?thesis unfolding Let_def using s(1) by blast
qed

end
