(* ===== verification/Dry_Run.thy ===== *)
theory Dry_Run
  imports Service_Edges
begin

text \<open>
  The dry run (\<^verbatim>\<open>src/collector/service/dryrun.go\<close>): what a configuration would do to sample episodes,
  and how that compares with what the running service does to them. The report's text is not modelled.
\<close>

datatype placed = NoPayload | TruncatedTo int int | Externalised int | InlineAt int

record DryRunResult =
  drEpisodeID :: string
  drSource :: string
  drQuarantined :: "redactError option"
  drRedactions :: "ManifestEntry list"
  drEntityKeys :: "EntityKey list"
  drHeadSampled :: bool
  drKept :: bool
  drSampledBy :: string
  drPlacement :: "placed list"
  drPartition :: string

definition placement :: "SinkConfig \<Rightarrow> Assembled \<Rightarrow> placed list" where
  "placement k ep =
     map (\<lambda>s. case stContentInline s of
                None \<Rightarrow> NoPayload
              | Some c \<Rightarrow>
                  let n = int (length c)
                  in if skMaxPayloadBytes k > 0 \<and> n > skMaxPayloadBytes k then TruncatedTo n (skMaxPayloadBytes k)
                     else if n > skBlobThresholdBytes k then Externalised n else InlineAt n) (asSteps ep)"

definition dryPart :: "time \<Rightarrow> Episode \<Rightarrow> string \<Rightarrow> string list" where
  "dryPart now e k =
     (if k = ''dt'' then [''dt='' @ formatDate (if epStartedAt e = 0 then unixMicro now else epStartedAt e)]
      else if k = ''tenant'' then [''tenant='' @ epTenant e]
      else if k = ''task_type'' then
        [''task_type='' @ (case epTaskType e of Some v \<Rightarrow> if v \<noteq> [] then v else ''unknown'' | None \<Rightarrow> ''unknown'')]
      else [])"

definition dryPartition :: "time \<Rightarrow> Episode \<Rightarrow> string list \<Rightarrow> string" where
  "dryPartition now e ks = pathJoin (TableEpisodes # concat (map (dryPart now e) ks))"

definition zeroSinkConfig :: SinkConfig where
  "zeroSinkConfig = \<lparr>skName = [], skType = [], skDir = [], skBucket = [], skPrefix = [], skRegion = [], skEndpoint = [],
     skPathStyle = False, skAccessKeyID = [], skSecretAccessKey = [], skSessionToken = [], skSSEType = [], skSSEKeyID = [],
     skTargetFileBytes = 0, skRollInterval = 0, skCompression = [], skPartitionBy = [], skBlobThresholdBytes = 0, skMaxPayloadBytes = 0\<rparr>"

definition emptyResult :: "Episode \<Rightarrow> bool \<Rightarrow> DryRunResult" where
  "emptyResult e headKept = \<lparr>drEpisodeID = epEpisodeID e, drSource = epSource e, drQuarantined = None, drRedactions = [],
     drEntityKeys = [], drHeadSampled = headKept, drKept = False, drSampledBy = [], drPlacement = [], drPartition = []\<rparr>"

text \<open>One episode of the loop; the policy carries the counters of its stages to the next one.\<close>

definition dryRunOne ::
  "(string \<Rightarrow> json option) \<Rightarrow> time \<Rightarrow> SinkConfig \<Rightarrow> Assembled \<Rightarrow> 'l policy \<Rightarrow> DryRunResult \<times> 'l policy"
where
  "dryRunOne parse now k ep pol =
     (let e = asEpisode ep; src = epSource e
      in case HeadKeepFrom src (epEpisodeID e) (plSampler pol) of
           (hk, sm) \<Rightarrow>
             let res = emptyResult e hk; pol1 = pol\<lparr>plSampler := sm\<rparr>; (red, st) = redactorFor pol1 src
             in case Redact.Process parse red ep st of
                  (Inl er, st') \<Rightarrow> (res\<lparr>drQuarantined := Some er\<rparr>, setRedactStats src st' pol1)
                | (Inr (ep1, mf), st') \<Rightarrow>
                    (case ExtractProcess parse ep1 (plExtractor pol1) of
                       (ep2, ex) \<Rightarrow>
                         (case (if hk then TailKeep ep2 (plSampler pol1) else (False, ep2, plSampler pol1)) of
                            (kept, ep3, sm') \<Rightarrow>
                              (res\<lparr>drRedactions := (case mf of None \<Rightarrow> [] | Some m \<Rightarrow> mfEntries m),
                                   drEntityKeys := epEntityKeys (asEpisode ep2), drKept := kept,
                                   drSampledBy := (case epSampledBy (asEpisode ep3) of None \<Rightarrow> [] | Some b \<Rightarrow> b),
                                   drPlacement := placement k ep3,
                                   drPartition := dryPartition now (asEpisode ep3) (skPartitionBy k)\<rparr>,
                               (setRedactStats src st' pol1)\<lparr>plExtractor := ex, plSampler := sm'\<rparr>))))"

fun dryRunAll ::
  "(string \<Rightarrow> json option) \<Rightarrow> time \<Rightarrow> SinkConfig \<Rightarrow> Assembled list \<Rightarrow> 'l policy \<Rightarrow> DryRunResult list"
where
  "dryRunAll parse now k [] pol = []"
| "dryRunAll parse now k (ep # eps) pol =
     (case dryRunOne parse now k ep pol of (res, pol') \<Rightarrow> res # dryRunAll parse now k eps pol')"

definition DryRun ::
  "PolicyLib \<Rightarrow> 'l LimiterLib \<Rightarrow> Sys \<Rightarrow> (string \<Rightarrow> json option) \<Rightarrow> time \<Rightarrow> Config \<Rightarrow> Assembled list \<Rightarrow> policyError + DryRunResult list"
where
  "DryRun P L sys parse now cfg eps =
     (case buildPolicy P L sys cfg of
        Inl e \<Rightarrow> Inl e
      | Inr pol \<Rightarrow>
          Inr (dryRunAll parse now (case cfSinks cfg of [] \<Rightarrow> zeroSinkConfig | k # _ \<Rightarrow> k) eps pol))"

section \<open>The decisions agree\<close>

text \<open>
  What the dry run reports is what the service does: for an episode under the same policy, it is
  reported as quarantined exactly when the service quarantines it; otherwise, if head sampling keeps
  it, it is reported as kept exactly when the service does not drop it by tail sampling. The partition
  is the one the sink uses when tenant and task type need no replacement and the episode has a time.
\<close>

theorem dry_run_predicts:
  assumes "dryRunOne (dpParse D) now k ep (svPol s) = (res, pol')" and "s' = onEpisode D ep (s\<lparr>svPol := (svPol s)\<lparr>plSampler := snd (HeadKeepFrom (epSource (asEpisode ep)) (epEpisodeID (asEpisode ep)) (plSampler (svPol s)))\<rparr>\<rparr>)"
  shows "(drQuarantined res \<noteq> None \<longleftrightarrow> svQuarantined s' = svQuarantined s + 1) \<and>
    (drQuarantined res = None \<longrightarrow> drHeadSampled res \<longrightarrow> (drKept res \<longleftrightarrow> svSampledOut s' = svSampledOut s))"
proof -
  obtain hk sm where H: "HeadKeepFrom (epSource (asEpisode ep)) (epEpisodeID (asEpisode ep)) (plSampler (svPol s)) = (hk, sm)" by fastforce
  let ?p = "(svPol s)\<lparr>plSampler := sm\<rparr>"
  obtain red st where R: "redactorFor ?p (epSource (asEpisode ep)) = (red, st)" by fastforce
  obtain q st' where P: "Redact.Process (dpParse D) red ep st = (q, st')" by fastforce
  show ?thesis
  proof (cases q)
    case (Inl e)
    then show ?thesis using assms H R P by (auto simp: dryRunOne_def onEpisode_def quarantine_frame emptyResult_def Let_def)
  next
    case (Inr x)
    obtain ep1 mf where x: "x = (ep1, mf)" by fastforce
    obtain ep2 ex where X: "ExtractProcess (dpParse D) ep1 (plExtractor (svPol s)) = (ep2, ex)" by fastforce
    obtain keep ep3 sm' where T: "TailKeep ep2 sm = (keep, ep3, sm')" by (metis prod_cases3)
    have res: "drQuarantined res = None" "drHeadSampled res = hk" "hk \<Longrightarrow> drKept res = keep"
      using assms(1) H R P Inr x X T by (auto simp: dryRunOne_def emptyResult_def Let_def split: if_splits)
    have E: "svQuarantined (emitEpisode D e u) = svQuarantined u" "svSampledOut (emitEpisode D e u) = svSampledOut u" for e u
      by (auto simp: emitEpisode_def Let_def split: option.splits prod.splits bool.splits dest: appendPayload_frame)
    show ?thesis using assms(2) H R P Inr x X T res by (auto simp: onEpisode_def Let_def E)
  qed
qed

theorem dry_run_predicts_witness:
  "\<exists>s res pol'. exStart = Inr s \<and> dryRunOne (dpParse exDeps) 0 exSinkConfig (exWritten ''t'') (svPol s) = (res, pol') \<and>
     (drQuarantined res \<noteq> None \<longleftrightarrow>
        svQuarantined (onEpisode exDeps (exWritten ''t'') (s\<lparr>svPol := (svPol s)\<lparr>plSampler :=
          snd (HeadKeepFrom [] ''t'' (plSampler (svPol s)))\<rparr>\<rparr>)) = svQuarantined s + 1)"
proof -
  obtain s where s: "exStart = Inr s" using exStart_run by blast
  obtain res pol' where r: "dryRunOne (dpParse exDeps) 0 exSinkConfig (exWritten ''t'') (svPol s) = (res, pol')" by fastforce
  have e: "epSource (asEpisode (exWritten ''t'')) = []" "epEpisodeID (asEpisode (exWritten ''t'')) = ''t''"
    by (simp_all add: exWritten_def zeroEpisode_def)
  from dry_run_predicts [OF r refl] e s r show ?thesis by (metis (no_types))
qed

section \<open>Where it would be written\<close>

lemma pathJoin_nested:
  assumes "plainElem t" and "list_all plainElem es"
  shows "pathJoin [t, pathJoin es] = pathJoin (t # es)"
proof (cases es)
  case Nil
  then show ?thesis using assms by (simp add: pathJoin_def plainElem_def)
next
  case (Cons e r)
  have "pathJoin es = join_with ''/'' es" "pathJoin (t # es) = join_with ''/'' (t # es)"
    using pathJoin_plain [of es] pathJoin_plain [of "t # es"] assms Cons by simp_all
  moreover have "pathJoin [t, join_with ''/'' es] = pathClean (join_with ''/'' (t # es))"
    using assms Cons join_plain_nonempty [OF assms(2)] by (simp add: pathJoin_def plainElem_def)
  moreover have "pathJoin (t # es) = pathClean (join_with ''/'' (t # es))"
    using assms by (simp add: pathJoin_def filter_id_conv list_all_iff plainElem_def)
  ultimately show ?thesis by simp
qed

text \<open>
  The partition of the report is where the sink writes, for an episode that has a time and whose
  tenant and task type are already safe as path elements.
\<close>

theorem dry_run_partition:
  assumes "epStartedAt e \<noteq> 0" and "sanitise (epTenant e) = epTenant e"
    and "\<forall>v. epTaskType e = Some v \<longrightarrow> v \<noteq> [] \<longrightarrow> sanitise v = v" and "loPartitionBy o0 = ks"
  shows "dryPartition now e ks = pathJoin [TableEpisodes, partitionKey o0 e]"
proof -
  have "sanitise ''unknown'' = ''unknown''" by code_simp
  then have "dryPart now e = partitionPart e"
    using assms(1-3) by (intro ext) (auto simp: dryPart_def partitionPart_def split: option.splits)
  moreover have "list_all plainElem (concat (map (partitionPart e) ks))" using partitionPart_plain by (induction ks) auto
  ultimately show ?thesis using assms(4) pathJoin_nested [OF table_plain(1)] by (simp add: dryPartition_def partitionKey_def)
qed

theorem dry_run_partition_witness:
  "dryPartition 0 (zeroEpisode\<lparr>epStartedAt := 1, epTenant := ''t''\<rparr>) [''tenant''] =
     pathJoin [TableEpisodes, partitionKey exLakeOptions (zeroEpisode\<lparr>epStartedAt := 1, epTenant := ''t''\<rparr>)]"
proof -
  have "sanitise ''t'' = ''t''" by code_simp
  then show ?thesis by (intro dry_run_partition) (simp_all add: zeroEpisode_def exLakeOptions_def)
qed

text \<open>
  It is not where the sink writes for a tenant with a slash, or for an episode without a time.
\<close>

theorem dry_run_partition_diverges:
  "dryPartition 0 (zeroEpisode\<lparr>epStartedAt := 1, epTenant := ''a/../../b''\<rparr>) [''tenant''] = ''b'' \<and>
   pathJoin [TableEpisodes, partitionKey exLakeOptions (zeroEpisode\<lparr>epStartedAt := 1, epTenant := ''a/../../b''\<rparr>)]
     = ''episodes/tenant=a_____b''"
  by code_simp

end
