(* ===== verification/Ingress.thy ===== *)
theory Ingress
  imports Records
begin

text \<open>
  What the sources share: the pipeline's entry point \<^verbatim>\<open>pipeline.Next\<close> (\<^verbatim>\<open>src/collector/pipeline/pipeline.go\<close>)
  as an interface, the loop with which every source hands its envelopes over, and the parts of an
  HTTP request and response that the receivers use.

  A source calls \<^verbatim>\<open>next(ctx, env)\<close> and passes on what it answers: no error means the pipeline has the
  envelope, an error means it does not and the producer must send it again. The locale
  \<open>pipeline_next\<close> states this contract over a view of the pipeline's state; the service provides it.
\<close>

section \<open>The loop over envelopes\<close>

text \<open>How many envelopes were accepted, and the error that stopped the loop.\<close>

fun pushAll :: "(Envelope \<Rightarrow> 's \<Rightarrow> 'e option \<times> 's) \<Rightarrow> Envelope list \<Rightarrow> 's \<Rightarrow> nat \<times> 'e option \<times> 's" where
  "pushAll nxt [] s = (0, None, s)"
| "pushAll nxt (env # envs) s =
     (case nxt env s of
        (Some er, s1) \<Rightarrow> (0, Some er, s1)
      | (None, s1) \<Rightarrow> (case pushAll nxt envs s1 of (n, er, s2) \<Rightarrow> (Suc n, er, s2)))"

lemma pushAll_count:
  "pushAll nxt envs s = (n, er, s') \<Longrightarrow> n \<le> length envs \<and> (er = None \<longleftrightarrow> n = length envs)"
  by (induction envs arbitrary: s n) (auto split: prod.splits option.splits)

lemma pushAll_append:
  "pushAll nxt (xs @ ys) s =
     (case pushAll nxt xs s of
        (n, Some er, s1) \<Rightarrow> (n, Some er, s1)
      | (n, None, s1) \<Rightarrow> (case pushAll nxt ys s1 of (k, er, s2) \<Rightarrow> (n + k, er, s2)))"
  by (induction xs arbitrary: s) (auto split: prod.splits option.splits)

section \<open>The contract of the entry point\<close>

locale pipeline_next =
  fixes nxt :: "Envelope \<Rightarrow> 's \<Rightarrow> 'e option \<times> 's"
    and view :: "'s \<Rightarrow> 'v"
    and taken :: "Envelope \<Rightarrow> 'v \<Rightarrow> 'v"
  assumes refused: "nxt env s = (Some er, s') \<Longrightarrow> view s' = view s"
    and accepted: "nxt env s = (None, s') \<Longrightarrow> view s' = taken env (view s)"
begin

lemma push_view:
  "pushAll nxt envs s = (n, er, s') \<Longrightarrow> view s' = fold taken (take n envs) (view s)"
proof (induction envs arbitrary: s n)
  case (Cons env envs)
  show ?case
  proof (cases "nxt env s")
    case (Pair r s1)
    show ?thesis
    proof (cases r)
      case None
      then obtain k where k: "n = Suc k" "pushAll nxt envs s1 = (k, er, s')"
        using Cons.prems Pair by (auto split: prod.splits)
      from None Pair have "view s1 = taken env (view s)" by (simp add: accepted)
      then show ?thesis using Cons.IH [OF k(2)] k(1) by simp
    next
      case (Some e)
      then show ?thesis using Cons.prems Pair refused [of env s e s1] by auto
    qed
  qed
qed simp

lemma push_all_view:
  "pushAll nxt envs s = (n, None, s') \<Longrightarrow> view s' = fold taken envs (view s)"
  using push_view [of envs s n None s'] pushAll_count [of nxt envs s n None s'] by simp

end

section \<open>HTTP\<close>

text \<open>
  The body is the bytes the client sends, or \<open>None\<close> when reading it fails; \<^verbatim>\<open>http.MaxBytesReader\<close> fails
  once more than its bound has been read.
\<close>

record Request =
  rqMethod :: string
  rqContentLength :: int
  rqAuthorization :: string
  rqContentType :: string
  rqBody :: "string option"

definition readLimited :: "int \<Rightarrow> Request \<Rightarrow> string option" where
  "readLimited maxBytes rq =
     (case rqBody rq of
        None \<Rightarrow> None
      | Some b \<Rightarrow> if int (length b) \<le> maxBytes then Some b else None)"

text \<open>An answer: its code, whether it carries \<^verbatim>\<open>Retry-After\<close>, and its body.\<close>

datatype 'm reply = ErrorText string | JSONError string | JSONFault 'm | AcceptedSteps nat nat | AcceptedCount nat | NoBody

record 'm Response =
  rsCode :: nat
  rsRetryAfter :: bool
  rsBody :: "'m reply"

definition httpError :: "nat \<Rightarrow> string \<Rightarrow> 'm Response" where
  "httpError code msg = \<lparr>rsCode = code, rsRetryAfter = False, rsBody = ErrorText msg\<rparr>"

definition writeJSON :: "nat \<Rightarrow> 'm reply \<Rightarrow> 'm Response" where
  "writeJSON code b = \<lparr>rsCode = code, rsRetryAfter = False, rsBody = b\<rparr>"

lemmas http_defs = httpError_def writeJSON_def

definition defaultMaxRequest :: int where
  "defaultMaxRequest = 16 * 2 ^ 20"

end
