(* ===== verification/Native.thy ===== *)
theory Native
  imports Ingress Service
begin

text \<open>
  The native episode API (\<^verbatim>\<open>src/collector/source/native\<close>): the bearer token, the three handlers and the
  mapping of errors onto status codes. A handler takes the receiver's counters and the pipeline's
  state and returns both with the answer; the pipeline's entry points \<^verbatim>\<open>next\<close> and \<^verbatim>\<open>Outcomes\<close> are
  arguments. The listener, TLS and the shutdown of \<^verbatim>\<open>http.Server\<close> are outside the model. The text of
  an error is the error value itself, except where the code looks into the text.
\<close>

section \<open>State\<close>

record NativeOptions =
  noName :: string
  noMaxRequestBytes :: int
  noAuthToken :: string

record NativeReceiver =
  nrOpts :: NativeOptions
  nrAccepted :: int
  nrRejected :: int
  nrEpisodes :: int
  nrBytes :: int

definition NewNative :: "NativeOptions \<Rightarrow> NativeReceiver" where
  "NewNative o0 =
     \<lparr>nrOpts = (if noMaxRequestBytes o0 \<le> 0 then o0\<lparr>noMaxRequestBytes := defaultMaxRequest\<rparr> else o0),
      nrAccepted = 0, nrRejected = 0, nrEpisodes = 0, nrBytes = 0\<rparr>"

definition countRejected :: "NativeReceiver \<Rightarrow> NativeReceiver" where
  "countRejected r = r\<lparr>nrRejected := nrRejected r + 1\<rparr>"

text \<open>
  The decoders of \<^verbatim>\<open>encoding/json\<close> and protobuf, and the clock that \<^verbatim>\<open>ToEnvelopes\<close> and \<^verbatim>\<open>ToEnvelope\<close> read:
  the reading for a step of an item of the request.
\<close>

record Decoders =
  jsonEpisodes :: "string \<Rightarrow> WireEpisode list option"
  jsonEpisode :: "string \<Rightarrow> WireEpisode option"
  jsonSpans :: "string \<Rightarrow> SpanRecord list option"
  jsonSpan :: "string \<Rightarrow> SpanRecord option"
  jsonOutcomes :: "string \<Rightarrow> WireOutcome list option"
  jsonOutcome :: "string \<Rightarrow> WireOutcome option"
  protoEpisodes :: "string \<Rightarrow> EpisodeWithSteps list option"
  protoSpans :: "string \<Rightarrow> ProtoSpan list option"
  stepClock :: "nat \<Rightarrow> nat \<Rightarrow> int"

datatype nativeFault = WireFault wireError | SpanFault nat wireError | IngestFault ingestError

section \<open>Requests\<close>

definition isProtobuf :: "Request \<Rightarrow> bool" where
  "isProtobuf rq \<longleftrightarrow>
     has_prefix (rqContentType rq) ''application/x-protobuf'' \<or> has_prefix (rqContentType rq) ''application/protobuf''"

definition readBody :: "Request \<Rightarrow> NativeReceiver \<Rightarrow> string option \<times> NativeReceiver" where
  "readBody rq r =
     (case readLimited (noMaxRequestBytes (nrOpts r)) rq of
        None \<Rightarrow> (None, countRejected r)
      | Some body \<Rightarrow> (Some body, r\<lparr>nrBytes := nrBytes r + int (length body)\<rparr>))"

definition bodyTooLarge :: "nativeFault Response" where
  "bodyTooLarge = httpError 413 ''request body too large or unreadable''"

definition methodNotAllowed :: "nativeFault Response" where
  "methodNotAllowed = httpError 405 ''method not allowed''"

definition refuse :: "ingestError \<Rightarrow> nativeFault Response" where
  "refuse er =
     (if er = QuotaExceeded
      then \<lparr>rsCode = 429, rsRetryAfter = True, rsBody = JSONError ''quota exceeded for this source''\<rparr>
      else \<lparr>rsCode = 503, rsRetryAfter = True, rsBody = JSONError ''collector cannot accept data''\<rparr>)"

definition auth ::
  "(Request \<Rightarrow> NativeReceiver \<times> 's \<Rightarrow> nativeFault Response \<times> NativeReceiver \<times> 's)
    \<Rightarrow> Request \<Rightarrow> NativeReceiver \<times> 's \<Rightarrow> nativeFault Response \<times> NativeReceiver \<times> 's"
where
  "auth h rq st =
     (let tok = noAuthToken (nrOpts (fst st))
      in if tok = [] then h rq st
         else if rqAuthorization rq \<noteq> ''Bearer '' @ tok
         then (httpError 401 ''unauthorized'', countRejected (fst st), snd st)
         else h rq st)"

section \<open>Episodes\<close>

text \<open>The loop over the episodes of a batch: each is converted, then pushed, before the next is looked at.\<close>

datatype batchEnd = AllPushed nat | BadItem wireError | Declined ingestError

fun pushEpisodes ::
  "(Envelope \<Rightarrow> 's \<Rightarrow> ingestError option \<times> 's) \<Rightarrow> (nat \<Rightarrow> nat \<Rightarrow> int) \<Rightarrow> string \<Rightarrow> nat \<Rightarrow> nat \<Rightarrow> WireEpisode list \<Rightarrow> 's
    \<Rightarrow> batchEnd \<times> 's"
where
  "pushEpisodes nxt now name j steps [] s = (AllPushed steps, s)"
| "pushEpisodes nxt now name j steps (ep # eps) s =
     (case ToEnvelopes (now j) name ep of
        Inl e \<Rightarrow> (BadItem e, s)
      | Inr envs \<Rightarrow>
          (case pushAll nxt envs s of
             (n, Some er, s1) \<Rightarrow> (Declined er, s1)
           | (n, None, s1) \<Rightarrow> pushEpisodes nxt now name (Suc j) (steps + n) eps s1))"

definition decodeEpisodesOf :: "Decoders \<Rightarrow> Request \<Rightarrow> string \<Rightarrow> wireError + WireEpisode list" where
  "decodeEpisodesOf L rq body =
     (if isProtobuf rq then DecodeEpisodesProto (protoEpisodes L) body
      else DecodeEpisodes (jsonEpisodes L) (jsonEpisode L) body)"

definition handleEpisodes ::
  "Decoders \<Rightarrow> (Envelope \<Rightarrow> 's \<Rightarrow> ingestError option \<times> 's) \<Rightarrow> Request \<Rightarrow> NativeReceiver \<times> 's
    \<Rightarrow> nativeFault Response \<times> NativeReceiver \<times> 's"
where
  "handleEpisodes L nxt rq st =
     (case st of (r, s) \<Rightarrow>
        if rqMethod rq \<noteq> ''POST'' then (methodNotAllowed, r, s)
        else if rqContentLength rq > noMaxRequestBytes (nrOpts r)
        then (httpError 413 ''request body exceeds max_request_bytes'', countRejected r, s)
        else
          (case readBody rq r of
             (None, r1) \<Rightarrow> (bodyTooLarge, r1, s)
           | (Some body, r1) \<Rightarrow>
               (case decodeEpisodesOf L rq body of
                  Inl e \<Rightarrow> (writeJSON 400 (JSONFault (WireFault e)), countRejected r1, s)
                | Inr eps \<Rightarrow>
                    (case pushEpisodes nxt (stepClock L) (noName (nrOpts r1)) 0 0 eps s of
                       (BadItem e, s1) \<Rightarrow> (writeJSON 400 (JSONFault (WireFault e)), countRejected r1, s1)
                     | (Declined er, s1) \<Rightarrow> (refuse er, r1, s1)
                     | (AllPushed steps, s1) \<Rightarrow>
                         (writeJSON 202 (AcceptedSteps (length eps) steps),
                          r1\<lparr>nrAccepted := nrAccepted r1 + 1, nrEpisodes := nrEpisodes r1 + int (length eps)\<rparr>, s1)))))"

section \<open>Spans\<close>

fun spanEnvelopes :: "(nat \<Rightarrow> nat \<Rightarrow> int) \<Rightarrow> string \<Rightarrow> nat \<Rightarrow> SpanRecord list \<Rightarrow> (nat \<times> wireError) + Envelope list" where
  "spanEnvelopes now name i [] = Inr []"
| "spanEnvelopes now name i (sp # sps) =
     (case ToEnvelope (now i 0) name sp of
        Inl e \<Rightarrow> Inl (i, e)
      | Inr env \<Rightarrow> (case spanEnvelopes now name (Suc i) sps of Inl e \<Rightarrow> Inl e | Inr envs \<Rightarrow> Inr (env # envs)))"

definition decodeSpansOf :: "Decoders \<Rightarrow> Request \<Rightarrow> string \<Rightarrow> wireError + SpanRecord list" where
  "decodeSpansOf L rq body =
     (if isProtobuf rq then DecodeSpansProto (protoSpans L) body
      else DecodeSpans (jsonSpans L) (jsonSpan L) body)"

definition handleSpans ::
  "Decoders \<Rightarrow> (Envelope \<Rightarrow> 's \<Rightarrow> ingestError option \<times> 's) \<Rightarrow> Request \<Rightarrow> NativeReceiver \<times> 's
    \<Rightarrow> nativeFault Response \<times> NativeReceiver \<times> 's"
where
  "handleSpans L nxt rq st =
     (case st of (r, s) \<Rightarrow>
        if rqMethod rq \<noteq> ''POST'' then (methodNotAllowed, r, s)
        else if rqContentLength rq > noMaxRequestBytes (nrOpts r)
        then (httpError 413 ''request body exceeds max_request_bytes'', countRejected r, s)
        else
          (case readBody rq r of
             (None, r1) \<Rightarrow> (bodyTooLarge, r1, s)
           | (Some body, r1) \<Rightarrow>
               (case decodeSpansOf L rq body of
                  Inl e \<Rightarrow> (writeJSON 400 (JSONFault (WireFault e)), countRejected r1, s)
                | Inr sps \<Rightarrow>
                    (case spanEnvelopes (stepClock L) (noName (nrOpts r1)) 0 sps of
                       Inl (i, e) \<Rightarrow> (writeJSON 400 (JSONFault (SpanFault i e)), countRejected r1, s)
                     | Inr envs \<Rightarrow>
                         (case pushAll nxt envs s of
                            (n, Some er, s1) \<Rightarrow> (refuse er, r1, s1)
                          | (n, None, s1) \<Rightarrow>
                              (writeJSON 202 (AcceptedSteps 0 (length envs)), r1\<lparr>nrAccepted := nrAccepted r1 + 1\<rparr>, s1))))))"

section \<open>Outcomes\<close>

text \<open>
  \<^verbatim>\<open>isRetryable\<close> looks for a word in the error's text. The texts of the errors that \<^verbatim>\<open>IngestOutcomes\<close>
  returns hold no text of the request; the ones about a redaction rule quote its name.
\<close>

definition keyErrorText :: "redactError \<Rightarrow> string" where
  "keyErrorText e =
     (case e of
        TokenizeNeedsKey rule \<Rightarrow>
          ''redaction rule '' @ quoted rule @ '': action tokenize requires a key, none configured''
      | UnknownAction rule action \<Rightarrow> ''redaction rule '' @ quoted rule @ '': unknown action '' @ quoted action
      | _ \<Rightarrow> [])"

definition isRetryable :: "ingestError \<Rightarrow> bool" where
  "isRetryable er =
     (case er of
        Backpressure \<Rightarrow> True
      | BadOutcomeKey i e \<Rightarrow> containsText (keyErrorText e) ''backpressure''
      | _ \<Rightarrow> False)"

definition handleOutcomes ::
  "Decoders \<Rightarrow> (string \<Rightarrow> WireOutcome list \<Rightarrow> 's \<Rightarrow> (ingestError + nat) \<times> 's) option \<Rightarrow> Request \<Rightarrow> NativeReceiver \<times> 's
    \<Rightarrow> nativeFault Response \<times> NativeReceiver \<times> 's"
where
  "handleOutcomes L outcomesFn rq st =
     (case st of (r, s) \<Rightarrow>
        if rqMethod rq \<noteq> ''POST'' then (methodNotAllowed, r, s)
        else
          (case outcomesFn of
             None \<Rightarrow> (writeJSON 501 (JSONError ''outcomes are not accepted by this collector''), r, s)
           | Some ingest \<Rightarrow>
               (case readBody rq r of
                  (None, r1) \<Rightarrow> (bodyTooLarge, r1, s)
                | (Some body, r1) \<Rightarrow>
                    (case DecodeOutcomes (jsonOutcomes L) (jsonOutcome L) body of
                       Inl e \<Rightarrow> (writeJSON 400 (JSONFault (WireFault e)), countRejected r1, s)
                     | Inr ws \<Rightarrow>
                         (case ingest (noName (nrOpts r1)) ws s of
                            (Inl er, s1) \<Rightarrow>
                              if er = QuotaExceeded \<or> isRetryable er then (refuse er, r1, s1)
                              else (writeJSON 400 (JSONFault (IngestFault er)), countRejected r1, s1)
                          | (Inr n, s1) \<Rightarrow> (writeJSON 202 (AcceptedCount n), r1\<lparr>nrAccepted := nrAccepted r1 + 1\<rparr>, s1))))))"

section \<open>The server\<close>

text \<open>The routes of \<^verbatim>\<open>Start\<close>; any other path is answered by the multiplexer.\<close>

definition serveNative ::
  "Decoders \<Rightarrow> (Envelope \<Rightarrow> 's \<Rightarrow> ingestError option \<times> 's)
    \<Rightarrow> (string \<Rightarrow> WireOutcome list \<Rightarrow> 's \<Rightarrow> (ingestError + nat) \<times> 's) option
    \<Rightarrow> string \<Rightarrow> Request \<Rightarrow> NativeReceiver \<times> 's \<Rightarrow> nativeFault Response \<times> NativeReceiver \<times> 's"
where
  "serveNative L nxt outcomesFn path rq st =
     (if path = ''/v1/episodes'' then auth (handleEpisodes L nxt) rq st
      else if path = ''/v1/spans'' then auth (handleSpans L nxt) rq st
      else if path = ''/v1/outcomes'' then auth (handleOutcomes L outcomesFn) rq st
      else (httpError 404 ''404 page not found'', st))"

end
