(* ===== verification/Filetail.thy ===== *)
theory Filetail
  imports Native
begin

text \<open>
  The file tailer (\<^verbatim>\<open>src/collector/source/filetail/filetail.go\<close>): matching files, reading complete lines
  after the saved offset, unwrapping container logs, and the persisted offsets. What the operating
  system answers during one poll is a record: the files by path, the answers of \<^verbatim>\<open>filepath.Glob\<close>, and
  whether the steps of saving the state succeed. The state file is the offsets it holds, since
  \<^verbatim>\<open>encoding/json\<close> reads back the maps it wrote.
\<close>

section \<open>State\<close>

record TailOptions =
  toName :: string
  toInclude :: "string list"
  toStartAt :: string
  toPollInterval :: duration
  toStateDir :: string
  toMaxLineBytes :: int

record fileState =
  fsInode :: nat
  fsOffset :: nat

record Tailer =
  tlOpts :: TailOptions
  tlOffsets :: "string \<rightharpoonup> fileState"
  tlBytes :: nat
  tlLines :: nat
  tlSkipped :: nat

definition NewTailer :: "TailOptions \<Rightarrow> Tailer" where
  "NewTailer o0 =
     (let o1 = (if toPollInterval o0 \<le> 0 then o0\<lparr>toPollInterval := 500 * 10 ^ 6\<rparr> else o0);
          o2 = (if toStartAt o1 = [] then o1\<lparr>toStartAt := ''end''\<rparr> else o1);
          o3 = (if toMaxLineBytes o2 \<le> 0 then o2\<lparr>toMaxLineBytes := defaultMaxRequest\<rparr> else o2)
      in \<lparr>tlOpts = o3, tlOffsets = Map.empty, tlBytes = 0, tlLines = 0, tlSkipped = 0\<rparr>)"

section \<open>Files\<close>

record TailFile =
  tfInode :: nat
  tfIsDir :: bool
  tfData :: string
  tfOpens :: bool
  tfSeeks :: bool

datatype tailStateFile = NoStateFile | BadStateFile | Offsets "string \<rightharpoonup> fileState"

record TailEnv =
  teGlob :: "string \<Rightarrow> string list"
  teFiles :: "string \<Rightarrow> TailFile option"
  teMkdir :: bool
  teWrite :: bool
  teRename :: bool

text \<open>The decoders of a line: the probe for the two ids, \<^verbatim>\<open>time.Parse\<close> of a timestamp, and the record decoders.\<close>

record LineLib =
  llProbe :: "string \<Rightarrow> (string \<times> string) option"
  llIsTime :: "string \<Rightarrow> bool"
  llDecoders :: Decoders

fun dropRepeated :: "string list \<Rightarrow> string list \<Rightarrow> string list" where
  "dropRepeated seen [] = []"
| "dropRepeated seen (f # fs) = (if f \<in> set seen then dropRepeated seen fs else f # dropRepeated (f # seen) fs)"

definition matchFiles :: "TailEnv \<Rightarrow> TailOptions \<Rightarrow> string list" where
  "matchFiles E o0 = sort (dropRepeated [] (concat (map (teGlob E) (toInclude o0))))"

definition statTailFile :: "TailEnv \<Rightarrow> string \<Rightarrow> (nat \<times> nat) option" where
  "statTailFile E path =
     (case teFiles E path of
        None \<Rightarrow> None
      | Some f \<Rightarrow> if tfIsDir f then None else Some (tfInode f, length (tfData f)))"

section \<open>Lines\<close>

text \<open>\<^verbatim>\<open>strings.SplitN(s, sep, n)\<close> with a space as separator, for a positive number of parts.\<close>

fun splitSpaceN :: "nat \<Rightarrow> string \<Rightarrow> string list" where
  "splitSpaceN 0 s = [s]"
| "splitSpaceN (Suc n) s =
     (if CHR '' '' \<in> set s
      then takeWhile (\<lambda>c. c \<noteq> CHR '' '') s # splitSpaceN n (tl (dropWhile (\<lambda>c. c \<noteq> CHR '' '') s))
      else [s])"

definition unwrapCRI :: "LineLib \<Rightarrow> string \<Rightarrow> string" where
  "unwrapCRI L line =
     (case splitSpaceN 3 line of
        [stamp, stream, tag, rest] \<Rightarrow>
          if (stream = ''stdout'' \<or> stream = ''stderr'') \<and> (tag = ''F'' \<or> tag = ''P'') \<and> llIsTime L stamp
          then trim_space rest else line
      | _ \<Rightarrow> line)"

datatype lineResult = BlankLine | SkippedLine | LineRecords "Envelope list"

text \<open>What a line holds; \<open>i\<close> selects the clock readings for records without times.\<close>

definition recordsOf :: "LineLib \<Rightarrow> string \<Rightarrow> nat \<Rightarrow> string \<Rightarrow> lineResult" where
  "recordsOf L name i line =
     (case llProbe L line of
        None \<Rightarrow> SkippedLine
      | Some (sid, eid) \<Rightarrow>
          if sid \<noteq> [] then
            (case DecodeSpans (jsonSpans (llDecoders L)) (jsonSpan (llDecoders L)) line of
               Inl e \<Rightarrow> SkippedLine
             | Inr recs \<Rightarrow>
                 (case ToEnvelope (stepClock (llDecoders L) i 0) name (hd recs) of
                    Inl e \<Rightarrow> SkippedLine
                  | Inr env \<Rightarrow> LineRecords [env]))
          else if eid \<noteq> [] then
            (case DecodeEpisodes (jsonEpisodes (llDecoders L)) (jsonEpisode (llDecoders L)) line of
               Inl e \<Rightarrow> SkippedLine
             | Inr eps \<Rightarrow>
                 (case ToEnvelopes (stepClock (llDecoders L) i) name (hd eps) of
                    Inl e \<Rightarrow> SkippedLine
                  | Inr es \<Rightarrow> LineRecords es))
          else SkippedLine)"

definition classifyLine :: "LineLib \<Rightarrow> TailOptions \<Rightarrow> nat \<Rightarrow> string \<Rightarrow> lineResult" where
  "classifyLine L o0 i raw =
     (let line = trim_space raw
      in if line = [] then BlankLine
         else if int (length line) > toMaxLineBytes o0 then SkippedLine
         else
           let u = unwrapCRI L line
           in if u = [] \<or> hd u \<noteq> CHR 0x7B then SkippedLine else recordsOf L (toName o0) i u)"

definition handleLine ::
  "LineLib \<Rightarrow> (Envelope \<Rightarrow> 's \<Rightarrow> 'e option \<times> 's) \<Rightarrow> string \<Rightarrow> Tailer \<times> 's \<Rightarrow> 'e option \<times> Tailer \<times> 's"
where
  "handleLine L nxt raw st =
     (case st of (t, s) \<Rightarrow>
        let t1 = t\<lparr>tlBytes := tlBytes t + length raw\<rparr>
        in case classifyLine L (tlOpts t) (tlBytes t) raw of
             BlankLine \<Rightarrow> (None, t1, s)
           | SkippedLine \<Rightarrow> (None, t1\<lparr>tlSkipped := tlSkipped t1 + 1\<rparr>, s)
           | LineRecords envs \<Rightarrow>
               (case pushAll nxt envs s of
                  (n, Some er, s1) \<Rightarrow> (Some er, t1, s1)
                | (n, None, s1) \<Rightarrow> (None, t1\<lparr>tlLines := tlLines t1 + 1\<rparr>, s1)))"

text \<open>The loop of \<^verbatim>\<open>readFile\<close>: the rest of the file after \<open>offset\<close>; a last line without its newline is left.\<close>

definition firstLine :: "string \<Rightarrow> string" where
  "firstLine rest = takeWhile (\<lambda>c. c \<noteq> CHR 0x0A) rest @ [CHR 0x0A]"

lemma firstLine_shorter: "CHR 0x0A \<in> set rest \<Longrightarrow> length (drop (length (firstLine rest)) rest) < length rest"
  by (cases rest) (auto simp: firstLine_def)

function tailLoop ::
  "LineLib \<Rightarrow> (Envelope \<Rightarrow> 's \<Rightarrow> 'e option \<times> 's) \<Rightarrow> string \<Rightarrow> nat \<Rightarrow> Tailer \<times> 's \<Rightarrow> 'e option \<times> nat \<times> Tailer \<times> 's"
where
  "tailLoop L nxt rest offset st =
     (if CHR 0x0A \<notin> set rest then (None, offset, st)
      else
        (case handleLine L nxt (firstLine rest) st of
           (Some er, st1) \<Rightarrow> (Some er, offset, st1)
         | (None, st1) \<Rightarrow> tailLoop L nxt (drop (length (firstLine rest)) rest) (offset + length (firstLine rest)) st1))"
  by pat_completeness auto
termination by (relation "measure (\<lambda>(L, nxt, rest, offset, st). length rest)") (use firstLine_shorter in auto)

declare tailLoop.simps [simp del]

text \<open>Where reading starts: at the saved offset, or at the beginning for a new, rotated or truncated file.\<close>

definition startState :: "Tailer \<Rightarrow> string \<Rightarrow> nat \<Rightarrow> nat \<Rightarrow> fileState" where
  "startState t path inode sz =
     (case tlOffsets t path of
        None \<Rightarrow> \<lparr>fsInode = inode, fsOffset = 0\<rparr>
      | Some st \<Rightarrow>
          if fsInode st \<noteq> inode \<or> sz < fsOffset st then \<lparr>fsInode = inode, fsOffset = 0\<rparr> else st)"

definition setOffset :: "string \<Rightarrow> fileState \<Rightarrow> Tailer \<Rightarrow> Tailer" where
  "setOffset path st t = t\<lparr>tlOffsets := (tlOffsets t)(path \<mapsto> st)\<rparr>"

definition readFile ::
  "LineLib \<Rightarrow> TailEnv \<Rightarrow> (Envelope \<Rightarrow> 's \<Rightarrow> 'e option \<times> 's) \<Rightarrow> string \<Rightarrow> Tailer \<times> 's \<Rightarrow> 'e option \<times> Tailer \<times> 's"
where
  "readFile L E nxt path st =
     (case (statTailFile E path, teFiles E path) of
        (Some (inode, sz), Some f) \<Rightarrow>
          let state = startState (fst st) path inode sz
          in if sz = fsOffset state then (None, st)
             else if \<not> tfOpens f \<or> \<not> tfSeeks f then (None, st)
             else
               (case tailLoop L nxt (drop (fsOffset state) (tfData f)) (fsOffset state) st of
                  (er, offset, t1, s1) \<Rightarrow> (er, setOffset path \<lparr>fsInode = inode, fsOffset = offset\<rparr> t1, s1))
      | _ \<Rightarrow> (None, st))"

section \<open>Persisted offsets\<close>

definition safe :: "string \<Rightarrow> string" where
  "safe s = map (\<lambda>c. if c = CHR ''/'' \<or> c = CHR 0x5C \<or> c = CHR '':'' then CHR ''_'' else c) s"

definition statePath :: "TailOptions \<Rightarrow> string option" where
  "statePath o0 = (if toStateDir o0 = [] then None else Some (toStateDir o0 @ ''/tail-'' @ safe (toName o0) @ ''.json''))"

text \<open>
  \<^verbatim>\<open>loadState\<close>: whether this is a first run, and the tailer. \<^verbatim>\<open>saveState\<close>: an error, and the file afterwards;
  it is replaced by renaming, so a failed write leaves the old one.
\<close>

definition loadTailState :: "tailStateFile \<Rightarrow> Tailer \<Rightarrow> bool \<times> Tailer" where
  "loadTailState disk t =
     (case statePath (tlOpts t) of
        None \<Rightarrow> (True, t)
      | Some p \<Rightarrow>
          (case disk of
             NoStateFile \<Rightarrow> (True, t)
           | BadStateFile \<Rightarrow> (True, t\<lparr>tlOffsets := Map.empty\<rparr>)
           | Offsets m \<Rightarrow> (False, t\<lparr>tlOffsets := tlOffsets t ++ m\<rparr>)))"

definition saveState :: "TailEnv \<Rightarrow> Tailer \<Rightarrow> tailStateFile \<Rightarrow> bool \<times> tailStateFile" where
  "saveState E t disk =
     (case statePath (tlOpts t) of
        None \<Rightarrow> (True, disk)
      | Some p \<Rightarrow> if teMkdir E \<and> teWrite E \<and> teRename E then (True, Offsets (tlOffsets t)) else (False, disk))"

section \<open>Polling\<close>

datatype 'e pollError = PollRefused 'e | PollSave

fun readFiles ::
  "LineLib \<Rightarrow> TailEnv \<Rightarrow> (Envelope \<Rightarrow> 's \<Rightarrow> 'e option \<times> 's) \<Rightarrow> string list \<Rightarrow> Tailer \<times> 's \<Rightarrow> 'e option \<times> Tailer \<times> 's"
where
  "readFiles L E nxt [] st = (None, st)"
| "readFiles L E nxt (path # paths) st =
     (case readFile L E nxt path st of
        (Some er, st1) \<Rightarrow> (Some er, st1)
      | (None, st1) \<Rightarrow> readFiles L E nxt paths st1)"

definition pollOnce ::
  "LineLib \<Rightarrow> TailEnv \<Rightarrow> (Envelope \<Rightarrow> 's \<Rightarrow> 'e option \<times> 's) \<Rightarrow> (Tailer \<times> 's) \<times> tailStateFile
    \<Rightarrow> 'e pollError option \<times> (Tailer \<times> 's) \<times> tailStateFile"
where
  "pollOnce L E nxt w =
     (case w of (st, disk) \<Rightarrow>
        (case readFiles L E nxt (matchFiles E (tlOpts (fst st))) st of
           (Some er, st1) \<Rightarrow> (Some (PollRefused er), st1, disk)
         | (None, st1) \<Rightarrow>
             (case saveState E (fst st1) disk of
                (ok, disk1) \<Rightarrow> (if ok then None else Some PollSave, st1, disk1))))"

text \<open>The beginning of \<^verbatim>\<open>Start\<close>, before the first poll.\<close>

definition skipToEnd :: "TailEnv \<Rightarrow> string \<Rightarrow> Tailer \<Rightarrow> Tailer" where
  "skipToEnd E path t =
     (case statTailFile E path of
        None \<Rightarrow> t
      | Some (inode, sz) \<Rightarrow> setOffset path \<lparr>fsInode = inode, fsOffset = sz\<rparr> t)"

definition startTail :: "TailEnv \<Rightarrow> Tailer \<Rightarrow> tailStateFile \<Rightarrow> Tailer \<times> tailStateFile" where
  "startTail E t0 disk =
     (case loadTailState disk t0 of
        (fresh, t) \<Rightarrow>
          if fresh \<and> toStartAt (tlOpts t) = ''end''
          then let t1 = fold (skipToEnd E) (matchFiles E (tlOpts t)) t in (t1, snd (saveState E t1 disk))
          else (t, disk))"

end
