(* ===== verification/Service_Ingress.thy ===== *)
theory Service_Ingress
  imports Service_Edges Ingress
begin

text \<open>
  The service as the provider of \<^verbatim>\<open>pipeline.Next\<close>: \<^verbatim>\<open>onEnvelope\<close> satisfies the contract of \<open>pipeline_next\<close>.
  The view is what the sources change: the assembler, and with it the head-sampling rates that decide
  which envelopes reach it.
\<close>

definition ingressView :: "('l, 's) Service \<Rightarrow> (string \<Rightarrow> rat) \<times> Assembler" where
  "ingressView s = (rateFor (plSampler (svPol s)), svAsm s)"

definition headKeeps :: "(string \<Rightarrow> rat) \<Rightarrow> Envelope \<Rightarrow> bool" where
  "headKeeps rates env \<longleftrightarrow> headVerdict (rates (envSource env)) (envSessionKey env)"

definition takeEnvelope :: "Envelope \<Rightarrow> (string \<Rightarrow> rat) \<times> Assembler \<Rightarrow> (string \<Rightarrow> rat) \<times> Assembler" where
  "takeEnvelope env v = (fst v, if headKeeps (fst v) env then snd (Add env (snd v)) else snd v)"

definition assembledAll :: "(string \<Rightarrow> rat) \<Rightarrow> Envelope list \<Rightarrow> Assembler \<Rightarrow> Assembler" where
  "assembledAll rates envs a = fold (\<lambda>env a. snd (Add env a)) (filter (headKeeps rates) envs) a"

lemma fold_takeEnvelope: "fold takeEnvelope envs (rates, a) = (rates, assembledAll rates envs a)"
  by (induction envs arbitrary: a) (simp_all add: takeEnvelope_def assembledAll_def)

lemma rateFor_TailKeep: "TailKeep ep s = (keep, ep', s') \<Longrightarrow> rateFor s' = rateFor s"
proof -
  have "headRate (snd (snd (tailRules v rs ep s))) = headRate s \<and> bySource (snd (snd (tailRules v rs ep s))) = bySource s" for v rs
    by (induction v rs ep s rule: tailRules.induct)
      (auto simp: tailRate_def bumpTail_def dropTail_def split: celOut.splits)
  then have frame: "rateFor (snd (snd (tailRules v rs ep s))) = rateFor s" for v rs
    by (auto simp: rateFor_def fun_eq_iff split: option.split)
  assume "TailKeep ep s = (keep, ep', s')"
  then show ?thesis using frame [of "episodeVars ep" "keepIf s"] by (simp add: TailKeep_def)
qed

lemma onEpisode_rates: "rateFor (plSampler (svPol (onEpisode D ep s))) = rateFor (plSampler (svPol s))"
proof -
  have S: "plSampler (setRedactStats src st p) = plSampler p" for src st and p :: "'a policy"
    by (simp add: setRedactStats_def split: option.split)
  have E: "svPol (emitEpisode D e u) = svPol u" for e u
    by (auto simp: emitEpisode_def Let_def split: option.splits prod.splits bool.splits dest: appendPayload_frame)
  show ?thesis
    by (auto simp: onEpisode_def Let_def S E quarantine_frame split: prod.splits sum.splits dest: rateFor_TailKeep)
qed

lemma onEpisodes_rates: "rateFor (plSampler (svPol (onEpisodes D eps s))) = rateFor (plSampler (svPol s))"
  by (simp add: onEpisodes_def fold_frame [where g = "\<lambda>s. rateFor (plSampler (svPol s))"] onEpisode_rates)

interpretation sv: pipeline_next "onEnvelope D" ingressView takeEnvelope
proof
  fix env :: Envelope and s :: "('a, 'b) Service" and er s'
  assume "onEnvelope D env s = (Some er, s')"
  then show "ingressView s' = ingressView s"
    by (auto simp: onEnvelope_def readClock_def HeadKeepFrom_eq Let_def ingressView_def split: prod.splits if_splits)
next
  fix env :: Envelope and s s' :: "('a, 'b) Service"
  assume A: "onEnvelope D env s = (None, s')"
  have V: "ingressView t = (rateFor (plSampler (svPol t)), svAsm t)" for t :: "('a, 'b) Service"
    by (simp add: ingressView_def)
  show "ingressView s' = takeEnvelope env (ingressView s)"
    using A
    by (auto simp: onEnvelope_def readClock_def HeadKeepFrom_eq Let_def onEpisodes_asm onEpisodes_rates V takeEnvelope_def headKeeps_def
        split: prod.splits if_splits)
qed

lemma service_pushes:
  assumes "pushAll (onEnvelope D) envs s = (n, er, s')"
  shows "svAsm s' = assembledAll (rateFor (plSampler (svPol s))) (take n envs) (svAsm s)"
    and "rateFor (plSampler (svPol s')) = rateFor (plSampler (svPol s))"
  using sv.push_view [OF assms] by (simp_all add: ingressView_def fold_takeEnvelope)

end
