(* ===== verification/Filetail_Props.thy ===== *)
theory Filetail_Props
  imports Filetail Service_Ingress "HOL-Library.Sublist"
begin

text \<open>
  At-least-once delivery of the file tailer: what a persisted offset means, what a poll without a
  refusal has done, and the case in which a truncated file is not read from its beginning.
\<close>

section \<open>Accepted envelopes\<close>

text \<open>The entry point of the pipeline together with the list of the envelopes it has accepted.\<close>

definition logged :: "(Envelope \<Rightarrow> 's \<Rightarrow> 'e option \<times> 's) \<Rightarrow> Envelope \<Rightarrow> 's \<times> Envelope list \<Rightarrow> 'e option \<times> 's \<times> Envelope list" where
  "logged nxt env sl =
     (case nxt env (fst sl) of
        (None, s1) \<Rightarrow> (None, s1, snd sl @ [env])
      | (Some er, s1) \<Rightarrow> (Some er, s1, snd sl))"

interpretation lg: pipeline_next "logged nxt" snd "\<lambda>env log. log @ [env]"
  by unfold_locales (auto simp: logged_def split: prod.splits option.splits)

lemma fold_snoc [simp]: "fold (\<lambda>x xs. xs @ [x]) ys xs = xs @ ys"
  by (induction ys arbitrary: xs) simp_all

section \<open>Lines\<close>

function completeLines :: "string \<Rightarrow> string list" where
  "completeLines rest =
     (if CHR 0x0A \<notin> set rest then [] else firstLine rest # completeLines (drop (length (firstLine rest)) rest))"
  by pat_completeness auto
termination by (relation "measure length") (use firstLine_shorter in auto)

declare completeLines.simps [simp del]

lemma firstLine_append: "CHR 0x0A \<in> set x \<Longrightarrow> firstLine (x @ y) = firstLine x"
  by (simp add: firstLine_def)

lemma firstLine_split:
  assumes "CHR 0x0A \<in> set x"
  obtains zs where "x = firstLine x @ zs"
proof -
  obtain ys zs where x: "x = ys @ CHR 0x0A # zs" "CHR 0x0A \<notin> set ys" using split_list_first [OF assms] by blast
  then have "takeWhile (\<lambda>c. c \<noteq> CHR 0x0A) x = ys" by (auto simp: takeWhile_append2 takeWhile_tail)
  then have "x = firstLine x @ zs" using x(1) by (simp add: firstLine_def)
  then show thesis by (rule that)
qed

lemma firstLine_length: "CHR 0x0A \<in> set x \<Longrightarrow> length (firstLine x) \<le> length x"
  by (metis firstLine_split length_append le_add1)

lemma firstLine_take: "CHR 0x0A \<in> set x \<Longrightarrow> take (length (firstLine x)) x = firstLine x"
  by (metis firstLine_split append_eq_conv_conj)

text \<open>The part of a file that consists of whole lines.\<close>

definition wholeLines :: "string \<Rightarrow> bool" where
  "wholeLines x \<longleftrightarrow> x = [] \<or> last x = CHR 0x0A"

lemma completeLines_append:
  "wholeLines x \<Longrightarrow> completeLines (x @ y) = completeLines x @ completeLines y"
proof (induction x rule: completeLines.induct)
  case (1 x)
  show ?case
  proof (cases "x = []")
    case False
    then have n: "CHR 0x0A \<in> set x" using 1(2) last_in_set by (fastforce simp: wholeLines_def)
    let ?k = "length (firstLine x)"
    have k: "?k \<le> length x" using firstLine_length [OF n] .
    have "wholeLines (drop ?k x)" using 1(2) by (cases "?k < length x") (auto simp: wholeLines_def)
    then have "completeLines (drop ?k x @ y) = completeLines (drop ?k x) @ completeLines y" using 1(1) n by blast
    moreover have "drop ?k (x @ y) = drop ?k x @ y" using k by simp
    ultimately show ?thesis
      using n by (simp add: completeLines.simps [of "x @ y"] completeLines.simps [of x] firstLine_append)
  qed (simp add: completeLines.simps)
qed

definition lineEnvs :: "LineLib \<Rightarrow> TailOptions \<Rightarrow> nat \<Rightarrow> string \<Rightarrow> Envelope list" where
  "lineEnvs L o0 i raw = (case classifyLine L o0 i raw of LineRecords envs \<Rightarrow> envs | _ \<Rightarrow> [])"

text \<open>Whole lines all of whose records are among the accepted envelopes.\<close>

definition covered :: "LineLib \<Rightarrow> TailOptions \<Rightarrow> Envelope list \<Rightarrow> string \<Rightarrow> bool" where
  "covered L o0 acc x \<longleftrightarrow>
     wholeLines x \<and> (\<forall>l \<in> set (completeLines x). \<exists>i. set (lineEnvs L o0 i l) \<subseteq> set acc)"

lemma covered_Nil [simp]: "covered L o0 acc []"
  by (simp add: covered_def wholeLines_def completeLines.simps)

lemma covered_mono: "covered L o0 acc x \<Longrightarrow> set acc \<subseteq> set acc' \<Longrightarrow> covered L o0 acc' x"
  unfolding covered_def by (meson order_trans)

lemma covered_append: "covered L o0 acc x \<Longrightarrow> covered L o0 acc y \<Longrightarrow> covered L o0 acc (x @ y)"
  unfolding covered_def using completeLines_append [of x y] by (auto simp: wholeLines_def last_append)

lemma covered_line:
  assumes "CHR 0x0A \<in> set rest" and "set (lineEnvs L o0 i (firstLine rest)) \<subseteq> set acc"
  shows "covered L o0 acc (firstLine rest)"
proof -
  have "takeWhile (\<lambda>c. c \<noteq> CHR 0x0A) (firstLine rest) = takeWhile (\<lambda>c. c \<noteq> CHR 0x0A) rest"
    unfolding firstLine_def by (subst takeWhile_append2) (auto dest: set_takeWhileD)
  then have "firstLine (firstLine rest) = firstLine rest" by (simp add: firstLine_def)
  moreover have "CHR 0x0A \<in> set (firstLine rest)" by (simp add: firstLine_def)
  ultimately have "completeLines (firstLine rest) = [firstLine rest]"
    by (simp add: completeLines.simps [of "firstLine rest"]) (simp add: completeLines.simps)
  then show ?thesis using assms(2) by (auto simp: covered_def wholeLines_def firstLine_def)
qed

section \<open>Reading\<close>

lemma handleLine_spec:
  assumes "handleLine L (logged nxt) raw (t, s, acc) = (er, t', s', acc')"
  shows "tlOffsets t' = tlOffsets t" and "tlOpts t' = tlOpts t" and "set acc \<subseteq> set acc'"
    and "er = None \<Longrightarrow> set (lineEnvs L (tlOpts t) (tlBytes t) raw) \<subseteq> set acc'"
proof -
  have P: "acc1 = acc @ take n envs" if "pushAll (logged nxt) envs (s, acc) = (n, r, s1, acc1)" for envs n r s1 acc1
    using lg.push_view [OF that] by simp
  have A: "acc1 = acc @ envs" if "pushAll (logged nxt) envs (s, acc) = (n, None, s1, acc1)" for envs n s1 acc1
    using lg.push_all_view [OF that] by simp
  show "tlOffsets t' = tlOffsets t" "tlOpts t' = tlOpts t" "set acc \<subseteq> set acc'"
    using assms by (auto simp: handleLine_def Let_def dest!: P split: lineResult.splits prod.splits option.splits)
  show "set (lineEnvs L (tlOpts t) (tlBytes t) raw) \<subseteq> set acc'" if "er = None"
    using assms that by (auto simp: handleLine_def lineEnvs_def Let_def dest!: A split: lineResult.splits prod.splits option.splits)
qed

lemma tailLoop_spec:
  assumes "tailLoop L (logged nxt) rest off (t, s, acc) = (er, off', t', s', acc')"
  shows "tlOffsets t' = tlOffsets t \<and> tlOpts t' = tlOpts t \<and> set acc \<subseteq> set acc' \<and>
    (\<exists>k \<le> length rest. off' = off + k \<and> covered L (tlOpts t) acc' (take k rest) \<and>
       (er = None \<longleftrightarrow> CHR 0x0A \<notin> set (drop k rest)))"
  using assms
proof (induction "length rest" arbitrary: rest off t s acc rule: less_induct)
  case less
  show ?case
  proof (cases "CHR 0x0A \<in> set rest")
    case False
    then show ?thesis using less.prems by (auto simp: tailLoop.simps intro!: exI [of _ 0])
  next
    case True
    let ?l = "firstLine rest"
    obtain r t1 s1 acc1 where H: "handleLine L (logged nxt) ?l (t, s, acc) = (r, t1, s1, acc1)" by (metis prod_cases4)
    note S = handleLine_spec [OF H]
    show ?thesis
    proof (cases r)
      case (Some e)
      then show ?thesis using less.prems True H S(1-3) by (auto simp: tailLoop.simps intro!: exI [of _ 0])
    next
      case None
      then have T: "tailLoop L (logged nxt) (drop (length ?l) rest) (off + length ?l) (t1, s1, acc1) = (er, off', t', s', acc')"
        using less.prems True H by (simp add: tailLoop.simps [of _ _ rest])
      note IH = less.hyps [OF firstLine_shorter [OF True] T]
      then obtain k where k: "k \<le> length (drop (length ?l) rest)" "off' = off + length ?l + k"
        "covered L (tlOpts t) acc' (take k (drop (length ?l) rest))" "er = None \<longleftrightarrow> CHR 0x0A \<notin> set (drop k (drop (length ?l) rest))"
        using S(2) by auto
      have "set (lineEnvs L (tlOpts t) (tlBytes t) ?l) \<subseteq> set acc'" using S(4) [OF None] IH by auto
      then have "covered L (tlOpts t) acc' (?l @ take k (drop (length ?l) rest))"
        using covered_line [OF True] k(3) by (blast intro: covered_append)
      moreover have "take (length ?l + k) rest = ?l @ take k (drop (length ?l) rest)"
        using firstLine_take [OF True] by (simp add: take_add)
      ultimately show ?thesis
        using IH S(1-3) k firstLine_length [OF True]
        by (intro conjI exI [of _ "length ?l + k"]) (auto simp: add.commute)
    qed
  qed
qed


section \<open>Offsets\<close>

text \<open>Every offset stands behind whole lines of the file it belongs to, all of them accepted.\<close>

definition offsetsOK :: "LineLib \<Rightarrow> TailOptions \<Rightarrow> (string \<Rightarrow> TailFile option) \<Rightarrow> Envelope list \<Rightarrow> (string \<rightharpoonup> fileState) \<Rightarrow> bool" where
  "offsetsOK L o0 files acc m \<longleftrightarrow>
     (\<forall>p st. m p = Some st \<longrightarrow>
        (\<exists>f. files p = Some f \<and> \<not> tfIsDir f \<and> fsInode st = tfInode f \<and> fsOffset st \<le> length (tfData f) \<and>
           covered L o0 acc (take (fsOffset st) (tfData f))))"

lemma offsetsOK_mono: "offsetsOK L o0 files acc m \<Longrightarrow> set acc \<subseteq> set acc' \<Longrightarrow> offsetsOK L o0 files acc' m"
  unfolding offsetsOK_def using covered_mono by meson

lemma offsetsOK_start:
  assumes "offsetsOK L o0 files acc (tlOffsets t)" and "files p = Some f"
  shows "fsOffset (startState t p (tfInode f) (length (tfData f))) \<le> length (tfData f) \<and>
    covered L o0 acc (take (fsOffset (startState t p (tfInode f) (length (tfData f)))) (tfData f))"
  using assms unfolding offsetsOK_def startState_def by (fastforce split: option.splits)

text \<open>The whole lines of a file, all accepted: nothing is left but an unfinished last line.\<close>

definition fileRead :: "LineLib \<Rightarrow> TailOptions \<Rightarrow> Envelope list \<Rightarrow> TailFile \<Rightarrow> bool" where
  "fileRead L o0 acc f \<longleftrightarrow> (\<forall>l \<in> set (completeLines (tfData f)). \<exists>i. set (lineEnvs L o0 i l) \<subseteq> set acc)"

lemma fileRead_covered:
  assumes "covered L o0 acc (take k (tfData f))" and "CHR 0x0A \<notin> set (drop k (tfData f))"
  shows "fileRead L o0 acc f"
proof -
  have "completeLines (tfData f) = completeLines (take k (tfData f)) @ completeLines (drop k (tfData f))"
    using assms(1) completeLines_append [of "take k (tfData f)" "drop k (tfData f)"] by (simp add: covered_def)
  then show ?thesis using assms by (simp add: fileRead_def covered_def completeLines.simps [of "drop k (tfData f)"])
qed

lemma fileRead_mono: "fileRead L o0 acc f \<Longrightarrow> set acc \<subseteq> set acc' \<Longrightarrow> fileRead L o0 acc' f"
  unfolding fileRead_def by (meson order_trans)

lemma readFile_spec:
  assumes "readFile L E (logged nxt) path (t, s, acc) = (er, t', s', acc')"
    and I: "offsetsOK L (tlOpts t) (teFiles E) acc (tlOffsets t)"
  shows "tlOpts t' = tlOpts t" and "set acc \<subseteq> set acc'" and "offsetsOK L (tlOpts t) (teFiles E) acc' (tlOffsets t')"
    and "er = None \<Longrightarrow> teFiles E path = Some f \<Longrightarrow> \<not> tfIsDir f \<Longrightarrow> tfOpens f \<Longrightarrow> tfSeeks f \<Longrightarrow> fileRead L (tlOpts t) acc' f"
proof -
  have "tlOpts t' = tlOpts t \<and> set acc \<subseteq> set acc' \<and> offsetsOK L (tlOpts t) (teFiles E) acc' (tlOffsets t') \<and>
    (\<forall>f. er = None \<and> teFiles E path = Some f \<and> \<not> tfIsDir f \<and> tfOpens f \<and> tfSeeks f \<longrightarrow> fileRead L (tlOpts t) acc' f)"
  proof (cases "\<exists>f. teFiles E path = Some f \<and> \<not> tfIsDir f")
    case False
    then show ?thesis using assms by (auto simp: readFile_def statTailFile_def split: option.splits if_splits)
  next
    case True
    then obtain f where f: "teFiles E path = Some f" "\<not> tfIsDir f" by blast
    let ?st = "startState t path (tfInode f) (length (tfData f))"
    note S = offsetsOK_start [OF I f(1)]
    show ?thesis
    proof (cases "length (tfData f) = fsOffset ?st \<or> \<not> tfOpens f \<or> \<not> tfSeeks f")
      case True
      then have "t' = t" "acc' = acc" using assms(1) f by (auto simp: readFile_def statTailFile_def Let_def split: if_splits)
      then show ?thesis using I f S True fileRead_covered [of L "tlOpts t" acc "fsOffset ?st" f] by auto
    next
      case False
      obtain off t1 s1 acc1 where T: "tailLoop L (logged nxt) (drop (fsOffset ?st) (tfData f)) (fsOffset ?st) (t, s, acc) = (er, off, t1, s1, acc1)"
        and t': "t' = setOffset path \<lparr>fsInode = tfInode f, fsOffset = off\<rparr> t1" "acc' = acc1"
        using assms(1) f False by (auto simp: readFile_def statTailFile_def Let_def split: prod.splits)
      from tailLoop_spec [OF T] obtain k where k: "k \<le> length (tfData f) - fsOffset ?st" "off = fsOffset ?st + k"
        "covered L (tlOpts t) acc1 (take k (drop (fsOffset ?st) (tfData f)))"
        "er = None \<longleftrightarrow> CHR 0x0A \<notin> set (drop (k + fsOffset ?st) (tfData f))"
        and F: "tlOffsets t1 = tlOffsets t" "tlOpts t1 = tlOpts t" "set acc \<subseteq> set acc1" by auto
      have C: "covered L (tlOpts t) acc1 (take off (tfData f))"
        using covered_append [OF covered_mono [OF conjunct2 [OF S] F(3)] k(3)] k(2) by (simp add: take_add)
      then show ?thesis
        using offsetsOK_mono [OF I F(3)] F k S f t' fileRead_covered [OF C]
        by (auto simp: offsetsOK_def setOffset_def add.commute)
    qed
  qed
  then show "tlOpts t' = tlOpts t" "set acc \<subseteq> set acc'" "offsetsOK L (tlOpts t) (teFiles E) acc' (tlOffsets t')"
    "er = None \<Longrightarrow> teFiles E path = Some f \<Longrightarrow> \<not> tfIsDir f \<Longrightarrow> tfOpens f \<Longrightarrow> tfSeeks f \<Longrightarrow> fileRead L (tlOpts t) acc' f"
    by blast+
qed

lemma readFiles_spec:
  assumes "readFiles L E (logged nxt) paths (t, s, acc) = (er, t', s', acc')"
    and "offsetsOK L (tlOpts t) (teFiles E) acc (tlOffsets t)"
  shows "tlOpts t' = tlOpts t \<and> set acc \<subseteq> set acc' \<and> offsetsOK L (tlOpts t) (teFiles E) acc' (tlOffsets t') \<and>
    (er = None \<longrightarrow> (\<forall>p \<in> set paths. \<forall>f. teFiles E p = Some f \<and> \<not> tfIsDir f \<and> tfOpens f \<and> tfSeeks f \<longrightarrow> fileRead L (tlOpts t) acc' f))"
  using assms
proof (induction paths arbitrary: t s acc)
  case (Cons p ps)
  obtain r t1 s1 acc1 where R: "readFile L E (logged nxt) p (t, s, acc) = (r, t1, s1, acc1)" by (metis prod_cases4)
  note S = readFile_spec [OF R Cons.prems(2)]
  show ?case
  proof (cases r)
    case None
    then have "readFiles L E (logged nxt) ps (t1, s1, acc1) = (er, t', s', acc')" using Cons.prems(1) R by simp
    note IH = Cons.IH [OF this, unfolded S(1), OF S(3)]
    have "fileRead L (tlOpts t) acc' f" if "teFiles E p = Some f" "\<not> tfIsDir f" "tfOpens f" "tfSeeks f" for f
      using S(4) [OF None that] IH fileRead_mono by blast
    then show ?thesis using IH S(2) by auto
  next
    case (Some e)
    then show ?thesis using Cons.prems(1) R S(1-3) by auto
  qed
qed simp


section \<open>Runs of the tailer\<close>

text \<open>
  What happens to a tailer that reads from the beginning: it starts, files grow or appear, it polls, it
  saves its state at shutdown, and it is started again, after a crash or a shutdown, with the state file
  it left. Rotated files are not part of these runs.
\<close>

definition grows :: "(string \<Rightarrow> TailFile option) \<Rightarrow> (string \<Rightarrow> TailFile option) \<Rightarrow> bool" where
  "grows files files' \<longleftrightarrow>
     (\<forall>p f. files p = Some f \<longrightarrow>
        (\<exists>f'. files' p = Some f' \<and> tfInode f' = tfInode f \<and> tfIsDir f' = tfIsDir f \<and> prefix (tfData f) (tfData f')))"

inductive tailRun ::
  "LineLib \<Rightarrow> TailOptions \<Rightarrow> (Envelope \<Rightarrow> 's \<Rightarrow> 'e option \<times> 's)
    \<Rightarrow> (string \<Rightarrow> TailFile option) \<Rightarrow> Tailer \<Rightarrow> 's \<Rightarrow> Envelope list \<Rightarrow> tailStateFile \<Rightarrow> bool"
  for L o0 nxt
where
  start: "startTail E (NewTailer o0) NoStateFile = (t, disk) \<Longrightarrow> tailRun L o0 nxt (teFiles E) t s [] disk"
| grow: "tailRun L o0 nxt files t s acc disk \<Longrightarrow> grows files files' \<Longrightarrow> tailRun L o0 nxt files' t s acc disk"
| poll: "tailRun L o0 nxt (teFiles E) t s acc disk \<Longrightarrow>
    pollOnce L E (logged nxt) ((t, s, acc), disk) = (er, (t', s', acc'), disk') \<Longrightarrow>
    tailRun L o0 nxt (teFiles E) t' s' acc' disk'"
| shutdown: "tailRun L o0 nxt (teFiles E) t s acc disk \<Longrightarrow> saveState E t disk = (ok, disk') \<Longrightarrow>
    tailRun L o0 nxt (teFiles E) t s acc disk'"
| restart: "tailRun L o0 nxt (teFiles E) t s acc disk \<Longrightarrow> startTail E (NewTailer o0) disk = (t', disk') \<Longrightarrow>
    tailRun L o0 nxt (teFiles E) t' s' acc disk'"

definition diskOK :: "LineLib \<Rightarrow> TailOptions \<Rightarrow> (string \<Rightarrow> TailFile option) \<Rightarrow> Envelope list \<Rightarrow> tailStateFile \<Rightarrow> bool" where
  "diskOK L o0 files acc disk \<longleftrightarrow> (case disk of Offsets m \<Rightarrow> offsetsOK L o0 files acc m | _ \<Rightarrow> True)"

lemma diskOK_mono: "diskOK L o0 files acc disk \<Longrightarrow> set acc \<subseteq> set acc' \<Longrightarrow> diskOK L o0 files acc' disk"
  unfolding diskOK_def using offsetsOK_mono by (auto split: tailStateFile.splits)

lemma diskOK_save:
  "offsetsOK L o0 files acc (tlOffsets t) \<Longrightarrow> diskOK L o0 files acc disk \<Longrightarrow> saveState E t disk = (ok, disk')
    \<Longrightarrow> diskOK L o0 files acc disk'"
  by (auto simp: saveState_def diskOK_def split: option.splits if_splits)

lemma offsetsOK_grows:
  assumes "offsetsOK L o0 files acc m" and "grows files files'"
  shows "offsetsOK L o0 files' acc m"
  unfolding offsetsOK_def
proof (intro allI impI)
  fix p st
  assume "m p = Some st"
  then obtain f where f: "files p = Some f" "\<not> tfIsDir f" "fsInode st = tfInode f" "fsOffset st \<le> length (tfData f)"
    "covered L o0 acc (take (fsOffset st) (tfData f))"
    using assms(1) by (auto simp: offsetsOK_def)
  then obtain f' where f': "files' p = Some f'" "tfInode f' = tfInode f" "tfIsDir f' = tfIsDir f" "prefix (tfData f) (tfData f')"
    using assms(2) unfolding grows_def by blast
  then obtain d where d: "tfData f' = tfData f @ d" by (auto elim: prefixE)
  show "\<exists>f. files' p = Some f \<and> \<not> tfIsDir f \<and> fsInode st = tfInode f \<and> fsOffset st \<le> length (tfData f) \<and>
      covered L o0 acc (take (fsOffset st) (tfData f))"
    using f f' d by (intro exI [of _ f']) auto
qed

lemma startTail_spec:
  assumes "startTail E (NewTailer o0) disk = (t, disk')" and "toStartAt o0 \<noteq> []" and "toStartAt o0 \<noteq> ''end''"
    and "diskOK L o1 files acc disk"
  shows "tlOpts t = tlOpts (NewTailer o0)" and "disk' = disk" and "offsetsOK L o1 files acc (tlOffsets t)"
proof -
  have n: "toStartAt (tlOpts (NewTailer o0)) \<noteq> ''end''" "tlOffsets (NewTailer o0) = Map.empty"
    using assms(2,3) by (simp_all add: NewTailer_def Let_def)
  obtain fresh t0 where l: "loadTailState disk (NewTailer o0) = (fresh, t0)" by fastforce
  have o0: "tlOpts t0 = tlOpts (NewTailer o0)" "offsetsOK L o1 files acc (tlOffsets t0)"
    using l n(2) assms(4) by (auto simp: loadTailState_def diskOK_def offsetsOK_def split: option.splits tailStateFile.splits)
  then have "startTail E (NewTailer o0) disk = (t0, disk)" using l n(1) by (simp add: startTail_def)
  then show "tlOpts t = tlOpts (NewTailer o0)" "disk' = disk" "offsetsOK L o1 files acc (tlOffsets t)"
    using assms(1) o0 by auto
qed

lemma pollOnce_spec:
  assumes "pollOnce L E (logged nxt) ((t, s, acc), disk) = (er, (t', s', acc'), disk')"
    and "offsetsOK L (tlOpts t) (teFiles E) acc (tlOffsets t)" and "diskOK L (tlOpts t) (teFiles E) acc disk"
  shows "tlOpts t' = tlOpts t" and "offsetsOK L (tlOpts t) (teFiles E) acc' (tlOffsets t')"
    and "diskOK L (tlOpts t) (teFiles E) acc' disk'"
    and "er = None \<or> er = Some PollSave \<Longrightarrow> p \<in> set (matchFiles E (tlOpts t)) \<Longrightarrow> teFiles E p = Some f \<Longrightarrow> \<not> tfIsDir f \<Longrightarrow>
      tfOpens f \<Longrightarrow> tfSeeks f \<Longrightarrow> fileRead L (tlOpts t) acc' f"
proof -
  obtain r t1 s1 acc1 where R: "readFiles L E (logged nxt) (matchFiles E (tlOpts t)) (t, s, acc) = (r, t1, s1, acc1)"
    by (metis prod_cases4)
  note S = readFiles_spec [OF R assms(2)]
  have e: "t' = t1 \<and> acc' = acc1 \<and> (r = None \<longleftrightarrow> er = None \<or> er = Some PollSave) \<and>
      (disk' = disk \<or> (\<exists>ok. saveState E t1 disk = (ok, disk')))"
    using assms(1) R by (auto simp: pollOnce_def split: option.splits prod.splits if_splits)
  show "tlOpts t' = tlOpts t" "offsetsOK L (tlOpts t) (teFiles E) acc' (tlOffsets t')" using S e by auto
  have "diskOK L (tlOpts t) (teFiles E) acc1 disk" using diskOK_mono [OF assms(3)] S by blast
  then show "diskOK L (tlOpts t) (teFiles E) acc' disk'" using S e by (auto intro: diskOK_save)
  show "er = None \<or> er = Some PollSave \<Longrightarrow> p \<in> set (matchFiles E (tlOpts t)) \<Longrightarrow> teFiles E p = Some f \<Longrightarrow> \<not> tfIsDir f \<Longrightarrow>
      tfOpens f \<Longrightarrow> tfSeeks f \<Longrightarrow> fileRead L (tlOpts t) acc' f"
    using S e by blast
qed

lemma tailRun_inv:
  assumes "tailRun L o0 nxt files t s acc disk" and "toStartAt o0 \<noteq> []" and "toStartAt o0 \<noteq> ''end''"
  shows "tlOpts t = tlOpts (NewTailer o0) \<and> offsetsOK L (tlOpts t) files acc (tlOffsets t) \<and> diskOK L (tlOpts t) files acc disk"
  using assms(1)
proof (induction rule: tailRun.induct)
  case (start E t disk s)
  have "diskOK L (tlOpts (NewTailer o0)) (teFiles E) [] NoStateFile" by (simp add: diskOK_def)
  from startTail_spec [OF start assms(2,3) this] show ?case by (simp add: diskOK_def)
next
  case (grow files t s acc disk files')
  then show ?case using offsetsOK_grows by (auto simp: diskOK_def split: tailStateFile.splits)
next
  case (poll E t s acc disk er t' s' acc' disk')
  then show ?case using pollOnce_spec(1-3) [OF poll.hyps(2)] by auto
next
  case (shutdown E t s acc disk ok disk')
  then show ?case using diskOK_save by blast
next
  case (restart E t s acc disk t' disk' s')
  then have "diskOK L (tlOpts (NewTailer o0)) (teFiles E) acc disk" by auto
  from startTail_spec [OF restart.hyps(2) assms(2,3) this] this show ?case by simp
qed



section \<open>Truncation\<close>

text \<open>
  C40. A truncated file that is empty when it is polled is recognised as truncated, but that is not
  remembered: if it has grown past the old offset by the next poll, reading resumes there, and the lines
  before it are never read.
\<close>

theorem truncation_forgotten:
  assumes "tlOffsets t p = Some st" and "teFiles E1 p = Some f1" and "\<not> tfIsDir f1" and "tfData f1 = []"
    and "teFiles E2 p = Some f2" and "\<not> tfIsDir f2" and "tfInode f2 = fsInode st" and "fsOffset st < length (tfData f2)"
    and "tfOpens f2" and "tfSeeks f2" and "tailLoop L nxt (drop (fsOffset st) (tfData f2)) (fsOffset st) (t, s) = (er, off, t', s')"
  shows "readFile L E1 nxt p (t, s) = (None, t, s) \<and>
    readFile L E2 nxt p (t, s) = (er, setOffset p \<lparr>fsInode = fsInode st, fsOffset = off\<rparr> t', s')"
  using assms by (auto simp: readFile_def statTailFile_def startState_def Let_def)


section \<open>Witnesses\<close>

definition exTailSpan :: SpanRecord where
  "exTailSpan = \<lparr>srSessionID = ''s'', srEpisodeID = [], srSpanID = ''x'', srParentSpanID = [], srTerminal = False,
     srTaskType = [], srGroupID = [], srInstrumentation = [], srInstrumentationVersion = [], srEpisodeError = None,
     srEpisodeRaw = [], srStep = zeroWireStep\<lparr>wsKind := ''tool'', wsStartedAt := 5\<rparr>\<rparr>"

definition exLineLib :: LineLib where
  "exLineLib = \<lparr>llProbe = (\<lambda>_. Some (''s'', [])), llIsTime = (\<lambda>_. True),
     llDecoders = \<lparr>jsonEpisodes = (\<lambda>_. None), jsonEpisode = (\<lambda>_. None), jsonSpans = (\<lambda>_. None), jsonSpan = (\<lambda>_. Some exTailSpan),
       jsonOutcomes = (\<lambda>_. None), jsonOutcome = (\<lambda>_. None), protoEpisodes = (\<lambda>_. None), protoSpans = (\<lambda>_. None),
       stepClock = (\<lambda>_ _. 7)\<rparr>\<rparr>"

definition exTailOptions :: TailOptions where
  "exTailOptions = \<lparr>toName = ''a'', toInclude = [''*''], toStartAt = ''beginning'', toPollInterval = 0, toStateDir = ''d'', toMaxLineBytes = 0\<rparr>"

definition exTailFile :: TailFile where
  "exTailFile = \<lparr>tfInode = 3, tfIsDir = False, tfData = ''2026 stdout F {1}'' @ [CHR 0x0A] @ ''{2'', tfOpens = True, tfSeeks = True\<rparr>"

definition exTailEnv :: TailEnv where
  "exTailEnv = \<lparr>teGlob = (\<lambda>_. [''p'']), teFiles = (\<lambda>p. if p = ''p'' then Some exTailFile else None),
     teMkdir = True, teWrite = True, teRename = True\<rparr>"

definition exAccept :: "Envelope \<Rightarrow> unit \<Rightarrow> unit option \<times> unit" where
  "exAccept env s = (None, s)"

lemma exTail_run:
  "\<exists>t t' acc m. tailRun exLineLib exTailOptions exAccept (teFiles exTailEnv) t () [] NoStateFile \<and>
     pollOnce exLineLib exTailEnv (logged exAccept) ((t, (), []), NoStateFile) = (None, (t', (), acc), Offsets m) \<and>
     m ''p'' = Some \<lparr>fsInode = 3, fsOffset = 18\<rparr> \<and> ''p'' \<in> set (matchFiles exTailEnv (tlOpts t)) \<and> length acc = 1"
proof -
  have s: "startTail exTailEnv (NewTailer exTailOptions) NoStateFile = (NewTailer exTailOptions, NoStateFile)"
    by (simp add: startTail_def loadTailState_def NewTailer_def exTailOptions_def statePath_def Let_def)
  have "case pollOnce exLineLib exTailEnv (logged exAccept) ((NewTailer exTailOptions, (), []), NoStateFile) of
      (er, (t', u, acc), disk) \<Rightarrow> er = None \<and> length acc = 1 \<and>
        (case disk of Offsets m \<Rightarrow> m ''p'' = Some \<lparr>fsInode = 3, fsOffset = 18\<rparr> | _ \<Rightarrow> False)"
    by code_simp
  moreover have "''p'' \<in> set (matchFiles exTailEnv (tlOpts (NewTailer exTailOptions)))" by code_simp
  ultimately show ?thesis
    using tailRun.start [OF s, of exLineLib exAccept "()"] by (auto split: prod.splits tailStateFile.splits)
qed



theorem truncation_forgotten_witness:
  "let t = (NewTailer exTailOptions)\<lparr>tlOffsets := [''p'' \<mapsto> \<lparr>fsInode = 3, fsOffset = 18\<rparr>]\<rparr>;
       E1 = exTailEnv\<lparr>teFiles := (\<lambda>_. Some (exTailFile\<lparr>tfData := []\<rparr>))\<rparr>
   in readFile exLineLib E1 exAccept ''p'' (t, ()) = (None, t, ())"
proof -
  let ?t = "(NewTailer exTailOptions)\<lparr>tlOffsets := [''p'' \<mapsto> \<lparr>fsInode = 3, fsOffset = 18\<rparr>]\<rparr>"
  let ?E = "exTailEnv\<lparr>teFiles := (\<lambda>_. Some (exTailFile\<lparr>tfData := []\<rparr>))\<rparr>"
  obtain er off t' where T: "tailLoop exLineLib exAccept (drop 18 (tfData exTailFile)) 18 (?t, ()) = (er, off, t', ())"
    by (metis (full_types) old.unit.exhaust prod_cases4)
  show ?thesis
    using truncation_forgotten [of ?t "''p''" "\<lparr>fsInode = 3, fsOffset = 18\<rparr>" ?E "exTailFile\<lparr>tfData := []\<rparr>" exTailEnv exTailFile
        exLineLib exAccept "()" er off t' "()"] T
    by (simp add: exTailEnv_def exTailFile_def)
qed

end
