(* ===== verification/Normalize.thy ===== *)
theory Normalize
  imports Wire Json
begin

text \<open>
  Convention mapping (\<^verbatim>\<open>src/collector/normalize\<close>: \<^verbatim>\<open>convention.go\<close>, \<^verbatim>\<open>normalize.go\<close>, \<^verbatim>\<open>params.go\<close>): the mapping
  files, the choice of a convention for a span, and the span as an envelope. The YAML decoder, the
  JSON decoder and \<^verbatim>\<open>strconv.ParseFloat\<close> are parameters; \<^verbatim>\<open>json.Compact\<close>, which \<^verbatim>\<open>Marshal\<close> applies to an
  embedded \<^verbatim>\<open>RawMessage\<close>, is modelled.
\<close>

section \<open>Canonical fields\<close>

definition knownFields :: "string list" where
  "knownFields =
     [''session_key'', ''group_id'', ''task_type'', ''episode_end'', ''input'', ''output'', ''role'', ''model'', ''provider'',
      ''finish_reason'', ''tool_name'', ''tool_version'', ''tool_args'', ''invocation_params'', ''temperature'', ''top_p'',
      ''max_tokens'', ''seed'', ''stop_sequences'', ''token_input'', ''token_output'', ''token_cached'', ''token_reasoning'', ''cost'']"

definition sortedFields :: "string list" where
  "sortedFields = sort knownFields"

section \<open>Conventions\<close>

record KindMapping =
  kmAttribute :: string
  kmDefault :: string
  kmValues :: "(string, string) gomap"

record Convention =
  cvName :: string
  cvVersion :: string
  cvDetect :: "string list"
  cvKind :: KindMapping
  cvFields :: "(string, string list) gomap"
  cvConsumed :: "string set"

datatype mappingError = BadMapping string | MappingNeedsName string | UnknownField string string "string list" | ReadFailed string

text \<open>\<^verbatim>\<open>parseConvention\<close>, with the decoded file.\<close>

definition parseConvention :: "(string \<Rightarrow> Convention option) \<Rightarrow> string \<Rightarrow> string \<Rightarrow> mappingError + Convention" where
  "parseConvention decode b path =
     (case decode b of
        None \<Rightarrow> Inl (BadMapping path)
      | Some c \<Rightarrow>
          if cvName c = [] then Inl (MappingNeedsName path)
          else
            let kind = (if kmDefault (cvKind c) = [] then (cvKind c)\<lparr>kmDefault := ''other''\<rparr> else cvKind c);
                c1 = c\<lparr>cvKind := kind\<rparr>
            in case find (\<lambda>f. fst f \<notin> set knownFields) (cvFields c1) of
                 Some f \<Rightarrow> Inl (UnknownField path (fst f) sortedFields)
               | None \<Rightarrow>
                   Inr (c1\<lparr>cvConsumed := (if kmAttribute kind = [] then {} else {kmAttribute kind}) \<union>
                             set (concat (map snd (cvFields c1)))\<rparr>))"

record Registry =
  rgConventions :: "Convention list"

text \<open>The files under \<^verbatim>\<open>conventions\<close> that end in \<^verbatim>\<open>.yaml\<close>, as \<^verbatim>\<open>fs.WalkDir\<close> finds them, with their contents.\<close>

fun parseAll :: "(string \<Rightarrow> Convention option) \<Rightarrow> (string \<times> string) list \<Rightarrow> mappingError + Convention list" where
  "parseAll decode [] = Inr []"
| "parseAll decode ((f, b) # fs) =
     (case parseConvention decode b f of
        Inl e \<Rightarrow> Inl e
      | Inr c \<Rightarrow> (case parseAll decode fs of Inl e \<Rightarrow> Inl e | Inr cs \<Rightarrow> Inr (c # cs)))"

definition LoadBuiltins :: "(string \<Rightarrow> Convention option) \<Rightarrow> (string \<times> string) list \<Rightarrow> mappingError + Registry" where
  "LoadBuiltins decode fs =
     (case parseAll decode (sort_key fst (filter (\<lambda>f. has_suffix (fst f) ''.yaml'') fs)) of
        Inl e \<Rightarrow> Inl e
      | Inr cs \<Rightarrow> Inr \<lparr>rgConventions = cs\<rparr>)"

fun replaceIn :: "Convention \<Rightarrow> Convention list \<Rightarrow> Convention list" where
  "replaceIn c [] = [c]"
| "replaceIn c (x # xs) = (if cvName x = cvName c then c # xs else x # replaceIn c xs)"

definition replace :: "Convention \<Rightarrow> Registry \<Rightarrow> Registry" where
  "replace c r = r\<lparr>rgConventions := replaceIn c (rgConventions r)\<rparr>"

text \<open>\<^verbatim>\<open>LoadDir\<close>: the entries of the directory in order; an entry's content is \<open>None\<close> when it cannot be read.\<close>

record DirEntry =
  deName :: string
  deIsDir :: bool
  deContent :: "string option"

fun loadEntries :: "(string \<Rightarrow> Convention option) \<Rightarrow> string \<Rightarrow> DirEntry list \<Rightarrow> Registry \<Rightarrow> mappingError option \<times> Registry" where
  "loadEntries decode dir [] r = (None, r)"
| "loadEntries decode dir (e # es) r =
     (if deIsDir e \<or> \<not> has_suffix (deName e) ''.yaml'' then loadEntries decode dir es r
      else
        let path = dir @ ''/'' @ deName e
        in case deContent e of
             None \<Rightarrow> (Some (ReadFailed path), r)
           | Some b \<Rightarrow>
               (case parseConvention decode b path of
                  Inl er \<Rightarrow> (Some er, r)
                | Inr c \<Rightarrow> loadEntries decode dir es (replace c r)))"

definition LoadDir :: "(string \<Rightarrow> Convention option) \<Rightarrow> string \<Rightarrow> DirEntry list option \<Rightarrow> Registry \<Rightarrow> mappingError option \<times> Registry" where
  "LoadDir decode dir entries r =
     (case entries of None \<Rightarrow> (Some (ReadFailed dir), r) | Some es \<Rightarrow> loadEntries decode dir es r)"

definition Names :: "Registry \<Rightarrow> string list" where
  "Names r = map (\<lambda>c. cvName c @ ''@'' @ cvVersion c) (rgConventions r)"

definition unknownConvention :: Convention where
  "unknownConvention = \<lparr>cvName = ''unknown'', cvVersion = [], cvDetect = [],
     cvKind = \<lparr>kmAttribute = [], kmDefault = ''other'', kmValues = []\<rparr>, cvFields = [], cvConsumed = {}\<rparr>"

definition Select :: "Registry \<Rightarrow> (string, string) gomap \<Rightarrow> Convention" where
  "Select r attrs =
     (case find (\<lambda>c. list_ex (\<lambda>d. map_of attrs d \<noteq> None) (cvDetect c)) (rgConventions r) of
        Some c \<Rightarrow> c
      | None \<Rightarrow> (case rgConventions r of c # _ \<Rightarrow> c | [] \<Rightarrow> unknownConvention))"

fun firstPresent :: "(string, string) gomap \<Rightarrow> string list \<Rightarrow> string option" where
  "firstPresent attrs [] = None"
| "firstPresent attrs (a # as) =
     (case map_of attrs a of
        Some v \<Rightarrow> if v \<noteq> [] then Some v else firstPresent attrs as
      | None \<Rightarrow> firstPresent attrs as)"

definition GetField :: "Convention \<Rightarrow> (string, string) gomap \<Rightarrow> string \<Rightarrow> string option" where
  "GetField c attrs field = firstPresent attrs (goget [] (cvFields c) field)"

definition MapKind :: "Convention \<Rightarrow> (string, string) gomap \<Rightarrow> string" where
  "MapKind c attrs =
     (let k = cvKind c
      in if kmAttribute k = [] then kmDefault k
         else
           (case map_of attrs (kmAttribute k) of
              None \<Rightarrow> kmDefault k
            | Some raw \<Rightarrow>
                (case map_of (kmValues k) (trim_space raw) of
                   Some v \<Rightarrow> v
                 | None \<Rightarrow>
                     (case find (\<lambda>kv. to_upper (fst kv) = to_upper (trim_space raw)) (kmValues k) of
                        Some kv \<Rightarrow> snd kv
                      | None \<Rightarrow> kmDefault k))))"

definition Unmapped :: "Convention \<Rightarrow> (string, string) gomap \<Rightarrow> (string, string) gomap" where
  "Unmapped c attrs = filter (\<lambda>kv. fst kv \<notin> cvConsumed c) attrs"

section \<open>Spans\<close>

record NSpan =
  nsTraceID :: string
  nsSpanID :: string
  nsParentSpanID :: string
  nsName :: string
  nsStartedAtUS :: int
  nsEndedAtUS :: int
  nsAttributes :: "(string, string) gomap"
  nsStatusError :: bool
  nsStatusMessage :: string
  nsScopeName :: string
  nsScopeVersion :: string

text \<open>
  The library: \<^verbatim>\<open>strconv.ParseFloat\<close>, \<^verbatim>\<open>json.Valid\<close>, and \<^verbatim>\<open>json.Unmarshal\<close> into the parameters struct and
  into a list of strings.
\<close>

record NormLib =
  nlParseFloat :: "string \<Rightarrow> rat option"
  nlValid :: "string \<Rightarrow> bool"
  nlParams :: "string \<Rightarrow> Params option"
  nlStrings :: "string \<Rightarrow> string list option"

text \<open>
  \<^verbatim>\<open>json.Compact\<close> with HTML escaping on a valid document: white space outside strings goes, the rest
  stays as it is written, except the characters special to HTML and the two line separators.
\<close>

function compact :: "bool \<Rightarrow> string \<Rightarrow> string" where
  "compact q [] = []"
| "compact q (c # r) =
     (if q \<and> c = CHR 0x5C then c # take 1 r @ compact q (drop 1 r)
      else if c = CHR 0xE2 \<and> take 2 r = [CHR 0x80, CHR 0xA8] then [CHR 0x5C] @ ''u2028'' @ compact q (drop 2 r)
      else if c = CHR 0xE2 \<and> take 2 r = [CHR 0x80, CHR 0xA9] then [CHR 0x5C] @ ''u2029'' @ compact q (drop 2 r)
      else if c = CHR 0x22 then c # compact (\<not> q) r
      else if \<not> q \<and> c \<in> {CHR '' '', CHR 0x09, CHR 0x0A, CHR 0x0D} then compact q r
      else if c \<in> {CHR ''<'', CHR ''>'', CHR ''&''} then esc_u (of_char c) @ compact q r
      else c # compact q r)"
  by pat_completeness auto
termination by (relation "measure (\<lambda>(q, s). length s)") auto

text \<open>\<^verbatim>\<open>embedValue\<close>, already marshalled: a JSON object or array as it is, anything else as a string.\<close>

definition embedValue :: "NormLib \<Rightarrow> string \<Rightarrow> string" where
  "embedValue L v =
     (let t = trim_space v
      in if t \<noteq> [] \<and> (hd t = CHR 0x7B \<or> hd t = CHR 0x5B) \<and> nlValid L t then compact False t else quoted v)"

definition payload :: "NormLib \<Rightarrow> Convention \<Rightarrow> (string, string) gomap \<Rightarrow> string \<Rightarrow> string" where
  "payload L c attrs kind =
     (let inKey = (if kind = KindTool then ''args'' else ''input'');
          outKey = (if kind = KindTool then ''result'' else ''output'');
          in0 = GetField c attrs ''input'';
          inV = (if kind = KindTool
                 then (case GetField c attrs ''tool_args'' of Some v \<Rightarrow> Some v | None \<Rightarrow> in0)
                 else in0);
          outV = GetField c attrs ''output'';
          part = (\<lambda>k v. quoted k @ '':'' @ embedValue L v)
      in if inV = None \<and> outV = None then []
         else [CHR 0x7B] @ join_with '',''
                ((case inV of None \<Rightarrow> [] | Some v \<Rightarrow> [part inKey v]) @ (case outV of None \<Rightarrow> [] | Some v \<Rightarrow> [part outKey v]))
              @ [CHR 0x7D])"

definition isTrue :: "string \<Rightarrow> bool" where
  "isTrue v \<longleftrightarrow> to_lower (trim_space v) \<in> {''true'', ''1'', ''yes'', ''t''}"

text \<open>\<^verbatim>\<open>strconv.ParseInt(s, 10, 32)\<close>.\<close>

definition ParseInt32 :: "string \<Rightarrow> int option" where
  "ParseInt32 s =
     (case ParseInt s of
        None \<Rightarrow> None
      | Some n \<Rightarrow> if - (2 ^ 31) \<le> n \<and> n < 2 ^ 31 then Some n else None)"

fun splitComma :: "string \<Rightarrow> string list" where
  "splitComma [] = [[]]"
| "splitComma (c # cs) =
     (if c = CHR '','' then [] # splitComma cs
      else case splitComma cs of [] \<Rightarrow> [[c]] | w # ws \<Rightarrow> (c # w) # ws)"

definition parseStops :: "NormLib \<Rightarrow> string \<Rightarrow> string list" where
  "parseStops L v =
     (let t = trim_space v;
          split = (if t = [] then [] else filter (\<lambda>s. s \<noteq> []) (map trim_space (splitComma t)))
      in if has_prefix t ''['' then (case nlStrings L t of Some out \<Rightarrow> out | None \<Rightarrow> split) else split)"

definition parseInvocationParams :: "NormLib \<Rightarrow> string \<Rightarrow> Params option" where
  "parseInvocationParams L raw =
     (case nlParams L raw of
        None \<Rightarrow> None
      | Some p \<Rightarrow>
          if Temperature p = None \<and> TopP p = None \<and> MaxTokens p = None \<and> Seed p = None \<and> Stop p = [] then None
          else Some p)"

definition zeroParams :: Params where
  "zeroParams = \<lparr>Temperature = None, TopP = None, MaxTokens = None, Seed = None, Stop = []\<rparr>"

text \<open>One parameter out of a field: the state is \<^verbatim>\<open>p\<close> and \<^verbatim>\<open>any\<close>.\<close>

definition setParam :: "'a option \<Rightarrow> ('a \<Rightarrow> Params \<Rightarrow> Params) \<Rightarrow> Params \<times> bool \<Rightarrow> Params \<times> bool" where
  "setParam v f pa = (case v of None \<Rightarrow> pa | Some x \<Rightarrow> (f x (fst pa), True))"

definition params :: "NormLib \<Rightarrow> Convention \<Rightarrow> (string, string) gomap \<Rightarrow> Params option" where
  "params L c attrs =
     (let p0 = setParam (Option.bind (GetField c attrs ''invocation_params'') (parseInvocationParams L)) (\<lambda>p _. p) (zeroParams, False);
          p1 = setParam (Option.bind (GetField c attrs ''temperature'') (nlParseFloat L)) (\<lambda>f p. p\<lparr>Temperature := Some f\<rparr>) p0;
          p2 = setParam (Option.bind (GetField c attrs ''top_p'') (nlParseFloat L)) (\<lambda>f p. p\<lparr>TopP := Some f\<rparr>) p1;
          p3 = setParam (Option.bind (GetField c attrs ''max_tokens'') ParseInt32) (\<lambda>n p. p\<lparr>MaxTokens := Some n\<rparr>) p2;
          p4 = setParam (Option.bind (GetField c attrs ''seed'') ParseInt) (\<lambda>n p. p\<lparr>Seed := Some n\<rparr>) p3;
          p5 = setParam (Option.bind (GetField c attrs ''stop_sequences'') (\<lambda>v. case parseStops L v of [] \<Rightarrow> None | s # ss \<Rightarrow> Some (s # ss)))
                 (\<lambda>ss p. p\<lparr>Stop := ss\<rparr>) p4
      in if snd p5 then Some (fst p5) else None)"

definition tokenCounts :: "Convention \<Rightarrow> (string, string) gomap \<Rightarrow> TokenCounts option" where
  "tokenCounts c attrs =
     (let count = (\<lambda>f. Option.bind (GetField c attrs f) ParseInt);
          tc = \<lparr>tcInput = count ''token_input'', tcOutput = count ''token_output'', tcCached = count ''token_cached'',
                tcReasoning = count ''token_reasoning''\<rparr>
      in if tcInput tc = None \<and> tcOutput tc = None \<and> tcCached tc = None \<and> tcReasoning tc = None then None else Some tc)"

fun orderKey :: "NSpan \<Rightarrow> string list \<Rightarrow> string option" where
  "orderKey s [] = None"
| "orderKey s (k # ks) =
     (if k = ''trace_id'' then (if nsTraceID s \<noteq> [] then Some (nsTraceID s) else orderKey s ks)
      else
        let v = trim_space (goget [] (nsAttributes s) k)
        in if v \<noteq> [] then Some v else orderKey s ks)"

definition SessionKey :: "NSpan \<Rightarrow> string list \<Rightarrow> Convention \<Rightarrow> string" where
  "SessionKey s ks conv =
     (case orderKey s ks of
        Some v \<Rightarrow> v
      | None \<Rightarrow>
          (case GetField conv (nsAttributes s) ''session_key'' of
             Some v \<Rightarrow> trim_space v
           | None \<Rightarrow> nsTraceID s))"

definition latencyUS :: "int \<Rightarrow> int \<Rightarrow> int option" where
  "latencyUS started ended = (if ended > started then Some (wrap32 (godiv (wrap64 (ended - started)) 1000)) else None)"

definition normalizedStep :: "NormLib \<Rightarrow> Convention \<Rightarrow> NSpan \<Rightarrow> Step" where
  "normalizedStep L conv s =
     (let attrs = nsAttributes s; kind = MapKind conv attrs; content = payload L conv attrs kind
      in zeroStep
        \<lparr>stKind := kind, stStartedAt := nsStartedAtUS s, stTrainable := TrainableUnknown, stRaw := Unmapped conv attrs,
         stLatencyMs := latencyUS (nsStartedAtUS s) (nsEndedAtUS s),
         stContentInline := (if content \<noteq> [] then Some content else None),
         stModel := GetField conv attrs ''model'', stProvider := GetField conv attrs ''provider'',
         stToolName := GetField conv attrs ''tool_name'', stToolVersion := GetField conv attrs ''tool_version'',
         stRole := GetField conv attrs ''role'', stFinishReason := GetField conv attrs ''finish_reason'',
         stCostUSD := Option.bind (GetField conv attrs ''cost'') (nlParseFloat L),
         stParams := params L conv attrs, stTokenCounts := tokenCounts conv attrs\<rparr>)"

definition Normalize :: "NormLib \<Rightarrow> NSpan \<Rightarrow> string \<Rightarrow> string list \<Rightarrow> Registry \<Rightarrow> Envelope" where
  "Normalize L s sourceName sessionKeyOrder reg =
     (let attrs = nsAttributes s;
          conv = Select reg attrs;
          step = normalizedStep L conv s;
          e = (if nsStatusError s then Some \<lparr>errType = ''span_status_error'', errMessage = nsStatusMessage s\<rparr> else None)
      in \<lparr>envSessionKey = SessionKey s sessionKeyOrder conv, envEpisodeID = [], envSource = sourceName,
          envSpanID = nsSpanID s, envParentSpanID = nsParentSpanID s,
          envTerminal = (case GetField conv attrs ''episode_end'' of Some v \<Rightarrow> isTrue v | None \<Rightarrow> False),
          envError = e,
          envMeta = \<lparr>mtTaskType = (case GetField conv attrs ''task_type'' of Some v \<Rightarrow> v | None \<Rightarrow> []),
                     mtGroupID = (case GetField conv attrs ''group_id'' of Some v \<Rightarrow> v | None \<Rightarrow> []),
                     mtInstrumentation = (if nsScopeName s \<noteq> [] then nsScopeName s else cvName conv),
                     mtInstrumentationVersion = (if nsScopeVersion s \<noteq> [] then nsScopeVersion s else cvVersion conv),
                     mtRaw = []\<rparr>,
          envStep = (if nsStatusError s then step\<lparr>stError := e\<rparr> else step)\<rparr>)"

end
