(* ===== verification/Otlp.thy ===== *)
theory Otlp
  imports Normalize Ingress Service
begin

text \<open>
  The OTLP receiver (\<^verbatim>\<open>src/collector/source/otlp\<close>): trace data flattened into spans, normalised, and
  pushed one by one, over HTTP and over gRPC. Trace data is what \<^verbatim>\<open>pdata\<close> delivers; ids are the
  hexadecimal texts of its \<^verbatim>\<open>String\<close> methods. Listeners, TLS and the gRPC server are outside the model.
\<close>

section \<open>Trace data\<close>

datatype attrValue = AStr string | AInt int | ADouble rat | ABool bool | AOther string

record OtlpSpan =
  opTraceID :: string
  opSpanID :: string
  opParentSpanID :: string
  opName :: string
  opStart :: nat
  opEnd :: nat
  opAttributes :: "(string \<times> attrValue) list"
  opStatusError :: bool
  opStatusMessage :: string

record ScopeSpans =
  scName :: string
  scVersion :: string
  scSpans :: "OtlpSpan list"

record ResourceSpans =
  rsAttributes :: "(string \<times> attrValue) list"
  rsScopes :: "ScopeSpans list"

record OtlpLib =
  olNorm :: NormLib
  olFormatFloat :: "rat \<Rightarrow> string"
  olUnmarshal :: "string \<Rightarrow> ResourceSpans list option"

definition attrText :: "OtlpLib \<Rightarrow> attrValue \<Rightarrow> string" where
  "attrText L v =
     (case v of
        AStr s \<Rightarrow> s
      | AInt n \<Rightarrow> format_int n
      | ADouble x \<Rightarrow> olFormatFloat L x
      | ABool b \<Rightarrow> if b then ''true'' else ''false''
      | AOther s \<Rightarrow> s)"

definition attrsToMap :: "OtlpLib \<Rightarrow> (string \<times> attrValue) list \<Rightarrow> (string, string) gomap" where
  "attrsToMap L m = fold (\<lambda>(k, v) out. AList.update k (attrText L v) out) m []"

section \<open>State\<close>

record OtlpOptions =
  ooName :: string
  ooListen :: string
  ooGRPCListen :: string
  ooMaxRequestBytes :: int
  ooSessionKeyOrder :: "string list"
  ooConventions :: Registry

record OtlpReceiver =
  orOpts :: OtlpOptions
  orAccepted :: int
  orRejected :: int
  orSpans :: int
  orBytes :: int

definition NewOtlp :: "OtlpOptions \<Rightarrow> OtlpReceiver" where
  "NewOtlp o0 =
     \<lparr>orOpts = (if ooMaxRequestBytes o0 \<le> 0 then o0\<lparr>ooMaxRequestBytes := defaultMaxRequest\<rparr> else o0),
      orAccepted = 0, orRejected = 0, orSpans = 0, orBytes = 0\<rparr>"

definition rejectOtlp :: "OtlpReceiver \<Rightarrow> OtlpReceiver" where
  "rejectOtlp r = r\<lparr>orRejected := orRejected r + 1\<rparr>"

text \<open>Which transports \<^verbatim>\<open>Start\<close> serves; without one it fails.\<close>

definition otlpTransports :: "OtlpOptions \<Rightarrow> string list option" where
  "otlpTransports o0 =
     (if ooListen o0 = [] \<and> ooGRPCListen o0 = [] then None
      else Some ((if ooGRPCListen o0 \<noteq> [] then [''grpc''] else []) @ (if ooListen o0 \<noteq> [] then [''http''] else [])))"

section \<open>Dispatch\<close>

text \<open>\<^verbatim>\<open>int64\<close> of an unsigned timestamp in nanoseconds, in microseconds.\<close>

definition microsOf :: "nat \<Rightarrow> int" where
  "microsOf t = godiv (wrap64 (int t)) 1000"

definition flattenSpan :: "OtlpLib \<Rightarrow> (string, string) gomap \<Rightarrow> string \<Rightarrow> string \<Rightarrow> OtlpSpan \<Rightarrow> NSpan" where
  "flattenSpan L resourceAttrs name version sp =
     \<lparr>nsTraceID = opTraceID sp, nsSpanID = opSpanID sp, nsParentSpanID = opParentSpanID sp, nsName = opName sp,
      nsStartedAtUS = microsOf (opStart sp), nsEndedAtUS = microsOf (opEnd sp),
      nsAttributes = fold (\<lambda>(k, v) out. AList.update k v out) (attrsToMap L (opAttributes sp)) resourceAttrs,
      nsStatusError = opStatusError sp,
      nsStatusMessage = (if opStatusError sp then opStatusMessage sp else []),
      nsScopeName = name, nsScopeVersion = version\<rparr>"

definition flattenTraces :: "OtlpLib \<Rightarrow> ResourceSpans list \<Rightarrow> NSpan list" where
  "flattenTraces L td =
     concat (map (\<lambda>rs. concat (map (\<lambda>ss. map (flattenSpan L (attrsToMap L (rsAttributes rs)) (scName ss) (scVersion ss)) (scSpans ss))
       (rsScopes rs))) td)"

definition otlpEnvelopes :: "OtlpLib \<Rightarrow> OtlpOptions \<Rightarrow> ResourceSpans list \<Rightarrow> Envelope list" where
  "otlpEnvelopes L o0 td =
     map (\<lambda>s. Normalize (olNorm L) s (ooName o0) (ooSessionKeyOrder o0) (ooConventions o0)) (flattenTraces L td)"

definition dispatch ::
  "OtlpLib \<Rightarrow> (Envelope \<Rightarrow> 's \<Rightarrow> 'e option \<times> 's) \<Rightarrow> ResourceSpans list \<Rightarrow> OtlpReceiver \<Rightarrow> 's \<Rightarrow> nat \<times> 'e option \<times> 's"
where
  "dispatch L nxt td r s = pushAll nxt (otlpEnvelopes L (orOpts r) td) s"

section \<open>HTTP\<close>

text \<open>The last argument says whether the empty response can be marshalled.\<close>

definition handleTraces ::
  "OtlpLib \<Rightarrow> bool \<Rightarrow> (Envelope \<Rightarrow> 's \<Rightarrow> ingestError option \<times> 's) \<Rightarrow> Request \<Rightarrow> OtlpReceiver \<times> 's
    \<Rightarrow> unit Response \<times> OtlpReceiver \<times> 's"
where
  "handleTraces L marshals nxt rq st =
     (case st of (r, s) \<Rightarrow>
        if rqMethod rq \<noteq> ''POST'' then (httpError 405 ''method not allowed'', r, s)
        else if rqContentLength rq > ooMaxRequestBytes (orOpts r)
        then (httpError 413 ''request body exceeds max_request_bytes'', rejectOtlp r, s)
        else
          (case readLimited (ooMaxRequestBytes (orOpts r)) rq of
             None \<Rightarrow> (httpError 413 ''request body too large or unreadable'', rejectOtlp r, s)
           | Some body \<Rightarrow>
               let r1 = r\<lparr>orBytes := orBytes r + int (length body)\<rparr>
               in (case olUnmarshal L body of
                     None \<Rightarrow> (httpError 400 ''malformed OTLP protobuf payload'', rejectOtlp r1, s)
                   | Some td \<Rightarrow>
                       (case dispatch L nxt td r1 s of
                          (n, Some er, s1) \<Rightarrow>
                            (\<lparr>rsCode = (if er = QuotaExceeded then 429 else 503), rsRetryAfter = True,
                              rsBody = ErrorText ''collector cannot accept data''\<rparr>, r1, s1)
                        | (n, None, s1) \<Rightarrow>
                            ((if marshals then writeJSON 200 NoBody else httpError 500 ''internal error''),
                             r1\<lparr>orAccepted := orAccepted r1 + 1, orSpans := orSpans r1 + int n\<rparr>, s1)))))"

section \<open>gRPC\<close>

datatype grpcStatus = GrpcOK | GrpcUnavailable

definition ExportTraces ::
  "OtlpLib \<Rightarrow> (Envelope \<Rightarrow> 's \<Rightarrow> ingestError option \<times> 's) \<Rightarrow> ResourceSpans list \<Rightarrow> OtlpReceiver \<times> 's
    \<Rightarrow> grpcStatus \<times> OtlpReceiver \<times> 's"
where
  "ExportTraces L nxt td st =
     (case st of (r, s) \<Rightarrow>
        (case dispatch L nxt td r s of
           (n, Some er, s1) \<Rightarrow> (GrpcUnavailable, rejectOtlp r, s1)
         | (n, None, s1) \<Rightarrow> (GrpcOK, r\<lparr>orAccepted := orAccepted r + 1, orSpans := orSpans r + int n\<rparr>, s1)))"

end
