(* ===== verification/Native_Props.thy ===== *)
theory Native_Props
  imports Native Service_Ingress
begin

text \<open>
  What the answers of the native API say about the service behind it: which status codes mean that
  the data is in, that some of it is in and the rest must be sent again, or that nothing happened.
\<close>

section \<open>Batches of episodes\<close>

text \<open>The envelopes of the episodes before the first one that cannot be converted.\<close>

fun batchEnvelopes :: "(nat \<Rightarrow> nat \<Rightarrow> int) \<Rightarrow> string \<Rightarrow> nat \<Rightarrow> WireEpisode list \<Rightarrow> Envelope list" where
  "batchEnvelopes now name j [] = []"
| "batchEnvelopes now name j (ep # eps) =
     (case ToEnvelopes (now j) name ep of Inl e \<Rightarrow> [] | Inr envs \<Rightarrow> envs @ batchEnvelopes now name (Suc j) eps)"

fun batchConverts :: "(nat \<Rightarrow> nat \<Rightarrow> int) \<Rightarrow> string \<Rightarrow> nat \<Rightarrow> WireEpisode list \<Rightarrow> bool" where
  "batchConverts now name j [] \<longleftrightarrow> True"
| "batchConverts now name j (ep # eps) \<longleftrightarrow>
     (case ToEnvelopes (now j) name ep of Inl e \<Rightarrow> False | Inr envs \<Rightarrow> batchConverts now name (Suc j) eps)"

lemma pushEpisodes_pushAll:
  assumes "pushEpisodes nxt now name j steps eps s = (r, s')"
  shows "\<exists>n er. pushAll nxt (batchEnvelopes now name j eps) s = (n, er, s') \<and>
    (case r of
       AllPushed k \<Rightarrow> er = None \<and> batchConverts now name j eps \<and> k = steps + n
     | BadItem e \<Rightarrow> er = None \<and> \<not> batchConverts now name j eps
     | Declined e \<Rightarrow> er = Some e)"
  using assms
proof (induction eps arbitrary: j steps s)
  case (Cons ep eps)
  show ?case
  proof (cases "ToEnvelopes (now j) name ep")
    case (Inr envs)
    obtain n er s1 where p: "pushAll nxt envs s = (n, er, s1)" by (metis prod_cases3)
    show ?thesis
    proof (cases er)
      case None
      then have "pushEpisodes nxt now name (Suc j) (steps + n) eps s1 = (r, s')" using Cons.prems Inr p by simp
      from Cons.IH [OF this] obtain k er' where
        "pushAll nxt (batchEnvelopes now name (Suc j) eps) s1 = (k, er', s')"
        "case r of AllPushed m \<Rightarrow> er' = None \<and> batchConverts now name (Suc j) eps \<and> m = steps + n + k
           | BadItem e \<Rightarrow> er' = None \<and> \<not> batchConverts now name (Suc j) eps | Declined e \<Rightarrow> er' = Some e"
        by blast
      then show ?thesis using Inr p None
        by (intro exI [of _ "n + k"] exI [of _ er']) (auto simp: pushAll_append split: batchEnd.splits)
    next
      case (Some e)
      then show ?thesis using Cons.prems Inr p by (auto simp: pushAll_append)
    qed
  qed (use Cons.prems in auto)
qed auto

section \<open>Answers\<close>

definition rates :: "('l, 's) Service \<Rightarrow> string \<Rightarrow> rat" where
  "rates s = rateFor (plSampler (svPol s))"

lemma service_pushes_all:
  assumes "pushAll (onEnvelope D) envs s = (n, None, s')"
  shows "svAsm s' = assembledAll (rates s) envs (svAsm s)"
  using service_pushes(1) [OF assms] pushAll_count [OF assms] by (simp add: rates_def)

lemma service_pushes_some:
  assumes "pushAll (onEnvelope D) envs s = (n, Some er, s')"
  shows "\<exists>k < length envs. svAsm s' = assembledAll (rates s) (take k envs) (svAsm s)"
  using service_pushes(1) [OF assms] pushAll_count [OF assms] by (auto simp: rates_def intro!: exI [of _ n])

lemma refuse_code: "rsCode (refuse er) \<in> {429, 503} \<and> rsRetryAfter (refuse er)"
  by (simp add: refuse_def)

text \<open>
  C18. What a posted batch of spans did to the service can be read off the answer. Accepted (202): every
  span of the batch went to the assembler, in the order of the batch, as far as head sampling keeps its
  session. Refused (429, 503, with \<^verbatim>\<open>Retry-After\<close>): a proper prefix of the batch did. Any other answer:
  the service is untouched, so a malformed batch is never half ingested.
\<close>

theorem native_spans_answer:
  assumes "serveNative L (onEnvelope D) outs ''/v1/spans'' rq (r, s) = (rsp, r', s')"
  shows "rsCode rsp \<in> {400, 401, 405, 413} \<and> s' = s \<or>
    (\<exists>body sps envs. readLimited (noMaxRequestBytes (nrOpts r)) rq = Some body \<and> decodeSpansOf L rq body = Inr sps \<and>
       spanEnvelopes (stepClock L) (noName (nrOpts r)) 0 sps = Inr envs \<and>
       (rsCode rsp = 202 \<and> svAsm s' = assembledAll (rates s) envs (svAsm s) \<or>
        rsCode rsp \<in> {429, 503} \<and> rsRetryAfter rsp \<and>
          (\<exists>n < length envs. svAsm s' = assembledAll (rates s) (take n envs) (svAsm s))))"
proof -
  have "rsCode rsp \<in> {400, 401, 405, 413} \<and> s' = s \<or>
    (\<exists>body sps envs n. readLimited (noMaxRequestBytes (nrOpts r)) rq = Some body \<and> decodeSpansOf L rq body = Inr sps \<and>
       spanEnvelopes (stepClock L) (noName (nrOpts r)) 0 sps = Inr envs \<and>
       (pushAll (onEnvelope D) envs s = (n, None, s') \<and> rsCode rsp = 202 \<or>
        (\<exists>er. pushAll (onEnvelope D) envs s = (n, Some er, s') \<and> rsp = refuse er)))"
    using assms
    by (auto simp: serveNative_def auth_def handleSpans_def readBody_def methodNotAllowed_def bodyTooLarge_def http_defs
        refuse_code Let_def split: if_splits option.splits sum.splits prod.splits)
  then show ?thesis
  proof (elim disjE exE conjE)
    fix body sps envs n er
    assume "pushAll (onEnvelope D) envs s = (n, Some er, s')" "rsp = refuse er" "decodeSpansOf L rq body = Inr sps"
      "readLimited (noMaxRequestBytes (nrOpts r)) rq = Some body" "spanEnvelopes (stepClock L) (noName (nrOpts r)) 0 sps = Inr envs"
    then show ?thesis using service_pushes_some [of D envs s n er s'] refuse_code [of er] by blast
  qed (use service_pushes_all in blast)+
qed

text \<open>
  The same for a batch of whole episodes, with one difference: an episode that cannot be converted is
  answered with 400 after the episodes before it have gone to the assembler.
\<close>

theorem native_episodes_answer:
  assumes "serveNative L (onEnvelope D) outs ''/v1/episodes'' rq (r, s) = (rsp, r', s')"
  shows "rsCode rsp \<in> {400, 401, 405, 413} \<and> s' = s \<or>
    (\<exists>body eps. readLimited (noMaxRequestBytes (nrOpts r)) rq = Some body \<and> decodeEpisodesOf L rq body = Inr eps \<and>
       (let envs = batchEnvelopes (stepClock L) (noName (nrOpts r)) 0 eps in
        rsCode rsp = (if batchConverts (stepClock L) (noName (nrOpts r)) 0 eps then 202 else 400) \<and>
          svAsm s' = assembledAll (rates s) envs (svAsm s) \<or>
        rsCode rsp \<in> {429, 503} \<and> rsRetryAfter rsp \<and>
          (\<exists>n < length envs. svAsm s' = assembledAll (rates s) (take n envs) (svAsm s))))"
proof -
  let ?conv = "batchConverts (stepClock L) (noName (nrOpts r)) 0"
  let ?envs = "batchEnvelopes (stepClock L) (noName (nrOpts r)) 0"
  have "rsCode rsp \<in> {400, 401, 405, 413} \<and> s' = s \<or>
    (\<exists>body eps res. readLimited (noMaxRequestBytes (nrOpts r)) rq = Some body \<and> decodeEpisodesOf L rq body = Inr eps \<and>
       pushEpisodes (onEnvelope D) (stepClock L) (noName (nrOpts r)) 0 0 eps s = (res, s') \<and>
       (case res of AllPushed k \<Rightarrow> rsCode rsp = 202 | BadItem e \<Rightarrow> rsCode rsp = 400
          | Declined e \<Rightarrow> rsCode rsp = rsCode (refuse e) \<and> rsRetryAfter rsp))"
    using assms
    by (auto simp: serveNative_def auth_def handleEpisodes_def readBody_def methodNotAllowed_def bodyTooLarge_def http_defs
        refuse_code Let_def split: if_splits option.splits sum.splits prod.splits batchEnd.splits)
  then show ?thesis
  proof (elim disjE exE conjE)
    fix body eps res
    assume R: "readLimited (noMaxRequestBytes (nrOpts r)) rq = Some body" "decodeEpisodesOf L rq body = Inr eps"
      and P: "pushEpisodes (onEnvelope D) (stepClock L) (noName (nrOpts r)) 0 0 eps s = (res, s')"
      and C: "case res of AllPushed k \<Rightarrow> rsCode rsp = 202 | BadItem e \<Rightarrow> rsCode rsp = 400
        | Declined e \<Rightarrow> rsCode rsp = rsCode (refuse e) \<and> rsRetryAfter rsp"
    obtain n er where N: "pushAll (onEnvelope D) (?envs eps) s = (n, er, s')"
      and E: "case res of AllPushed k \<Rightarrow> er = None \<and> ?conv eps \<and> k = 0 + n
        | BadItem e \<Rightarrow> er = None \<and> \<not> ?conv eps | Declined e \<Rightarrow> er = Some e"
      using pushEpisodes_pushAll [OF P] by blast
    have "rsCode rsp = (if ?conv eps then 202 else 400) \<and> svAsm s' = assembledAll (rates s) (?envs eps) (svAsm s) \<or>
        rsCode rsp \<in> {429, 503} \<and> rsRetryAfter rsp \<and>
          (\<exists>n < length (?envs eps). svAsm s' = assembledAll (rates s) (take n (?envs eps)) (svAsm s))"
    proof (cases er)
      case None
      then show ?thesis using N E C service_pushes_all by (auto split: batchEnd.splits)
    next
      case (Some e)
      then have "res = Declined e" using E by (auto split: batchEnd.splits)
      then show ?thesis using N C Some service_pushes_some [of D _ s n e s'] refuse_code [of e] by auto
    qed
    then show ?thesis using R by (auto simp: Let_def)
  qed blast
qed


section \<open>A malformed episode in a batch\<close>

lemma pushEpisodes_bad:
  assumes "batchConverts now name j eps" and "pushAll nxt (batchEnvelopes now name j eps) s = (n, None, s1)"
    and "ToEnvelopes (now (j + length eps)) name ep0 = Inl e"
  shows "pushEpisodes nxt now name j steps (eps @ ep0 # rest) s = (BadItem e, s1)"
  using assms
proof (induction eps arbitrary: j steps s n)
  case (Cons ep eps)
  then obtain envs where I: "ToEnvelopes (now j) name ep = Inr envs" by (auto split: sum.splits)
  then obtain k t where K: "pushAll nxt envs s = (k, None, t)"
    using Cons.prems(2) by (auto simp: pushAll_append split: prod.splits option.splits)
  then obtain m where "pushAll nxt (batchEnvelopes now name (Suc j) eps) t = (m, None, s1)"
    using Cons.prems(2) I by (auto simp: pushAll_append split: prod.splits)
  then show ?case using Cons.IH [of "Suc j" t m "steps + k"] Cons.prems I K by simp
qed simp

text \<open>
  A batch of episodes is not validated as a whole: when one episode cannot be converted the producer is
  told that the request is bad, although every episode before it has already been pushed.
\<close>

theorem bad_episode_after_good_ones:
  assumes "rqMethod rq = ''POST''" and "rqContentLength rq \<le> noMaxRequestBytes (nrOpts r)"
    and "readLimited (noMaxRequestBytes (nrOpts r)) rq = Some body"
    and "decodeEpisodesOf L rq body = Inr (eps @ ep0 # rest)"
    and "batchConverts (stepClock L) (noName (nrOpts r)) 0 eps"
    and "ToEnvelopes (stepClock L (length eps)) (noName (nrOpts r)) ep0 = Inl e"
    and "pushAll nxt (batchEnvelopes (stepClock L) (noName (nrOpts r)) 0 eps) s = (n, None, s1)"
  shows "\<exists>r'. handleEpisodes L nxt rq (r, s) = (writeJSON 400 (JSONFault (WireFault e)), r', s1)"
  using assms(1-4) pushEpisodes_bad [OF assms(5,7), of ep0 e 0 rest] assms(6)
  by (simp add: handleEpisodes_def readBody_def)

section \<open>Outcomes\<close>

text \<open>
  Outcomes over HTTP: 202 answers the number of outcomes in the request, which are in the buffer as one
  record; a request that will never work (400, 405, 413) leaves the buffer alone; and when the answer
  asks the producer to come back (429, 503) the buffer took nothing, or failed to.
\<close>

theorem native_outcomes_answer:
  assumes "handleOutcomes L (Some (IngestOutcomes D)) rq (r, s) = (rsp, r', s')"
  shows "rsCode rsp \<in> {400, 405, 413} \<and> svTrace s' = svTrace s \<and> svBuf s' = svBuf s \<or>
    (\<exists>body ws p. readLimited (noMaxRequestBytes (nrOpts r)) rq = Some body \<and>
      DecodeOutcomes (jsonOutcomes L) (jsonOutcome L) body = Inr ws \<and> rsBody rsp = AcceptedCount (length ws) \<and> rsCode rsp = 202 \<and> svTrace s' = svTrace s @ [Offered p] \<and>
      (\<exists>t. Append (svOS D s) t p (svBuf s) = (None, svBuf s'))) \<or>
    rsCode rsp \<in> {429, 503} \<and> rsRetryAfter rsp \<and>
      (svTrace s' = svTrace s \<and> svBuf s' = svBuf s \<or> (\<exists>p t er. Append (svOS D s) t p (svBuf s) = (er, svBuf s') \<and> er \<noteq> None))"
proof (cases "rqMethod rq = ''POST'' \<and> readLimited (noMaxRequestBytes (nrOpts r)) rq \<noteq> None")
  case False
  then show ?thesis
    using assms by (auto simp: handleOutcomes_def readBody_def methodNotAllowed_def bodyTooLarge_def http_defs split: if_splits)
next
  case True
  then obtain body where B: "rqMethod rq = ''POST''" "readLimited (noMaxRequestBytes (nrOpts r)) rq = Some body" by auto
  show ?thesis
  proof (cases "DecodeOutcomes (jsonOutcomes L) (jsonOutcome L) body")
    case (Inl e)
    then show ?thesis using assms B by (auto simp: handleOutcomes_def readBody_def http_defs)
  next
    case (Inr ws)
    obtain res s1 where I: "IngestOutcomes D (noName (nrOpts r)) ws s = (res, s1)" by fastforce
    have O: "case res of
        Inr n \<Rightarrow> n = length ws \<and> (\<exists>p t. svTrace s1 = svTrace s @ [Offered p] \<and> Append (svOS D s) t p (svBuf s) = (None, svBuf s1))
      | Inl e \<Rightarrow> svTrace s1 = svTrace s \<and> svBuf s1 = svBuf s \<or>
          e = Backpressure \<and> (\<exists>p t er. Append (svOS D s) t p (svBuf s) = (er, svBuf s1) \<and> er \<noteq> None)"
      using outcomes_all_or_none [OF I] by (cases res) auto
    show ?thesis
    proof (cases res)
      case L: (Inl e)
      have "isRetryable Backpressure" by (simp add: isRetryable_def)
      then have "s' = s1 \<and> (rsp = refuse e \<or> rsCode rsp = 400 \<and> e \<noteq> Backpressure)"
        using assms B Inr I L by (auto simp: handleOutcomes_def readBody_def http_defs split: if_splits)
      moreover have "svTrace s1 = svTrace s \<and> svBuf s1 = svBuf s \<or>
          e = Backpressure \<and> (\<exists>p t er. Append (svOS D s) t p (svBuf s) = (er, svBuf s1) \<and> er \<noteq> None)"
        using O L by simp
      ultimately show ?thesis using refuse_code [of e] by blast
    next
      case R: (Inr n)
      then have "s' = s1 \<and> rsCode rsp = 202 \<and> rsBody rsp = AcceptedCount n"
        using assms B Inr I by (auto simp: handleOutcomes_def readBody_def http_defs)
      moreover have "n = length ws \<and> (\<exists>p t. svTrace s1 = svTrace s @ [Offered p] \<and> Append (svOS D s) t p (svBuf s) = (None, svBuf s1))"
        using O R by simp
      ultimately show ?thesis using B Inr by blast
    qed
  qed
qed


section \<open>Witnesses\<close>

definition exWireStep :: WireStep where
  "exWireStep = zeroWireStep\<lparr>wsKind := ''tool'', wsContent := ''hi'', wsStartedAt := 5\<rparr>"

definition exSpanRecord :: SpanRecord where
  "exSpanRecord = \<lparr>srSessionID = ''s'', srEpisodeID = [], srSpanID = ''x'', srParentSpanID = [], srTerminal = False,
     srTaskType = [], srGroupID = [], srInstrumentation = [], srInstrumentationVersion = [], srEpisodeError = None,
     srEpisodeRaw = [], srStep = exWireStep\<rparr>"

definition exWireEpisode :: "string \<Rightarrow> WireEpisode" where
  "exWireEpisode i = \<lparr>weEpisodeID = i, weTenant = [], weGroupID = [], weTaskType = [], weSource = [], weInstrumentation = [],
     weInstrumentationVersion = [], weStatus = [], weStartedAt = 5, weEndedAt = None, weError = None, weRaw = [],
     weSteps = [exWireStep]\<rparr>"

definition exDecoders :: Decoders where
  "exDecoders = \<lparr>jsonEpisodes = (\<lambda>_. Some [exWireEpisode ''e'', exWireEpisode []]), jsonEpisode = (\<lambda>_. Some (exWireEpisode ''e'')),
     jsonSpans = (\<lambda>_. Some [exSpanRecord]), jsonSpan = (\<lambda>_. Some exSpanRecord),
     jsonOutcomes = (\<lambda>_. Some [exOutcome]), jsonOutcome = (\<lambda>_. Some exOutcome),
     protoEpisodes = (\<lambda>_. None), protoSpans = (\<lambda>_. None), stepClock = (\<lambda>_ _. 7)\<rparr>"

definition exRequest :: Request where
  "exRequest = \<lparr>rqMethod = ''POST'', rqContentLength = 3, rqAuthorization = [], rqContentType = [], rqBody = Some ''[x]''\<rparr>"

definition exReceiver :: NativeReceiver where
  "exReceiver = NewNative \<lparr>noName = ''a'', noMaxRequestBytes = 0, noAuthToken = []\<rparr>"

lemma exNative_runs:
  "\<exists>s sp r1 s1 ep r2 s2 oc r3 s3. exStart = Inr s \<and>
     serveNative exDecoders (onEnvelope exDeps) None ''/v1/spans'' exRequest (exReceiver, s) = (sp, r1, s1) \<and> rsCode sp = 202 \<and>
     serveNative exDecoders (onEnvelope exDeps) None ''/v1/episodes'' exRequest (exReceiver, s) = (ep, r2, s2) \<and> rsCode ep = 400 \<and>
     handleOutcomes exDecoders (Some (IngestOutcomes exDeps)) exRequest (exReceiver, s) = (oc, r3, s3) \<and> rsCode oc = 202"
proof -
  have "case exStart of Inl e \<Rightarrow> False
    | Inr s \<Rightarrow>
       rsCode (fst (serveNative exDecoders (onEnvelope exDeps) None ''/v1/spans'' exRequest (exReceiver, s))) = 202 \<and>
       rsCode (fst (serveNative exDecoders (onEnvelope exDeps) None ''/v1/episodes'' exRequest (exReceiver, s))) = 400 \<and>
       rsCode (fst (handleOutcomes exDecoders (Some (IngestOutcomes exDeps)) exRequest (exReceiver, s))) = 202"
    by code_simp
  then obtain s where "exStart = Inr s"
    "rsCode (fst (serveNative exDecoders (onEnvelope exDeps) None ''/v1/spans'' exRequest (exReceiver, s))) = 202"
    "rsCode (fst (serveNative exDecoders (onEnvelope exDeps) None ''/v1/episodes'' exRequest (exReceiver, s))) = 400"
    "rsCode (fst (handleOutcomes exDecoders (Some (IngestOutcomes exDeps)) exRequest (exReceiver, s))) = 202"
    by (auto split: sum.splits)
  then show ?thesis by (metis prod.collapse)
qed

theorem native_spans_answer_witness:
  "\<exists>s sp r1 s1 envs. exStart = Inr s \<and>
     serveNative exDecoders (onEnvelope exDeps) None ''/v1/spans'' exRequest (exReceiver, s) = (sp, r1, s1) \<and>
     svAsm s1 = assembledAll (rates s) envs (svAsm s)"
proof -
  obtain s sp r1 s1 where R: "exStart = Inr s" "rsCode sp = 202"
    "serveNative exDecoders (onEnvelope exDeps) None ''/v1/spans'' exRequest (exReceiver, s) = (sp, r1, s1)"
    using exNative_runs by blast
  then have "\<exists>envs. svAsm s1 = assembledAll (rates s) envs (svAsm s)"
    using native_spans_answer [OF R(3)] R(2) by (elim disjE) auto
  then show ?thesis using R by blast
qed

theorem native_episodes_answer_witness:
  "\<exists>s ep r2 s2 envs. exStart = Inr s \<and>
     serveNative exDecoders (onEnvelope exDeps) None ''/v1/episodes'' exRequest (exReceiver, s) = (ep, r2, s2) \<and> rsCode ep = 400 \<and>
     (s2 = s \<or> svAsm s2 = assembledAll (rates s) envs (svAsm s))"
proof -
  obtain s ep r2 s2 where R: "exStart = Inr s" "rsCode ep = 400"
    "serveNative exDecoders (onEnvelope exDeps) None ''/v1/episodes'' exRequest (exReceiver, s) = (ep, r2, s2)"
    using exNative_runs by blast
  then have "\<exists>envs. s2 = s \<or> svAsm s2 = assembledAll (rates s) envs (svAsm s)"
    using native_episodes_answer [OF R(3)] R(2) by (auto simp: Let_def)
  then show ?thesis using R by blast
qed

theorem native_outcomes_answer_witness:
  "\<exists>s oc r3 s3 p. exStart = Inr s \<and>
     handleOutcomes exDecoders (Some (IngestOutcomes exDeps)) exRequest (exReceiver, s) = (oc, r3, s3) \<and>
     svTrace s3 = svTrace s @ [Offered p]"
proof -
  obtain s oc r3 s3 where R: "exStart = Inr s" "rsCode oc = 202"
    "handleOutcomes exDecoders (Some (IngestOutcomes exDeps)) exRequest (exReceiver, s) = (oc, r3, s3)"
    using exNative_runs by blast
  then have "\<exists>p. svTrace s3 = svTrace s @ [Offered p]" using native_outcomes_answer [OF R(3)] R(2) by auto
  then show ?thesis using R by blast
qed

theorem bad_episode_after_good_ones_witness:
  "\<exists>r' env. handleEpisodes exDecoders (\<lambda>env s. (None, s @ [env])) exRequest (exReceiver, []) =
     (writeJSON 400 (JSONFault (WireFault EpisodeIDRequired)), r', [env :: Envelope])"
proof -
  let ?n = "noName (nrOpts exReceiver)" and ?nxt = "\<lambda>env s. (None :: ingestError option, s @ [env :: Envelope])"
  obtain env where E: "batchEnvelopes (stepClock exDecoders) ?n 0 [exWireEpisode ''e''] = [env]"
    "batchConverts (stepClock exDecoders) ?n 0 [exWireEpisode ''e'']"
  proof -
    have "length (batchEnvelopes (stepClock exDecoders) ?n 0 [exWireEpisode ''e'']) = 1 \<and>
        batchConverts (stepClock exDecoders) ?n 0 [exWireEpisode ''e'']" by code_simp
    then show thesis using that by (auto simp: length_Suc_conv)
  qed
  have "pushAll ?nxt [env] [] = (1, None, [env])" by simp
  moreover have "rqMethod exRequest = ''POST''" "rqContentLength exRequest \<le> noMaxRequestBytes (nrOpts exReceiver)"
    "readLimited (noMaxRequestBytes (nrOpts exReceiver)) exRequest = Some ''[x]''"
    "decodeEpisodesOf exDecoders exRequest ''[x]'' = Inr ([exWireEpisode ''e''] @ exWireEpisode [] # [])"
    "ToEnvelopes (stepClock exDecoders (length [exWireEpisode ''e''])) ?n (exWireEpisode []) = Inl EpisodeIDRequired"
    by code_simp+
  ultimately show ?thesis
    using bad_episode_after_good_ones [of exRequest exReceiver "''[x]''" exDecoders "[exWireEpisode ''e'']" "exWireEpisode []" "[]"
        EpisodeIDRequired ?nxt "[]" 1 "[env]"] E by auto
qed

end
