(* ===== verification/Otlp_Props.thy ===== *)
theory Otlp_Props
  imports Otlp Native_Props
begin

text \<open>
  What normalisation keeps of a span and what it loses, which session a span is assembled under, and
  what the answers of the OTLP receiver say about the service behind it.
\<close>

section \<open>The shipped conventions\<close>

text \<open>The two mapping files that are compiled into the binary, decoded.\<close>

definition openinference :: Convention where
  "openinference =
     \<lparr>cvName = ''openinference'', cvVersion = ''0.1.14'', cvDetect = [''openinference.span.kind''],
      cvKind = \<lparr>kmAttribute = ''openinference.span.kind'', kmDefault = ''other'',
        kmValues = [(''LLM'', ''llm''), (''TOOL'', ''tool''), (''RETRIEVER'', ''retrieval''), (''EMBEDDING'', ''other''),
          (''CHAIN'', ''other''), (''AGENT'', ''other''), (''RERANKER'', ''other''), (''GUARDRAIL'', ''other''), (''EVALUATOR'', ''other'')]\<rparr>,
      cvFields =
        [(''session_key'', [''session.id'', ''gen_ai.conversation.id'']), (''group_id'', [''group.id'', ''openinference.group.id'']),
         (''task_type'', [''task.type'', ''openinference.task.type'']), (''episode_end'', [''episode.end'']),
         (''input'', [''input.value'']), (''output'', [''output.value'']), (''role'', [''message.role'', ''llm.role'']),
         (''model'', [''llm.model_name'']), (''provider'', [''llm.provider'']), (''finish_reason'', [''llm.finish_reason'']),
         (''tool_name'', [''tool.name'']), (''tool_version'', [''tool.version'']), (''tool_args'', [''tool.parameters'']),
         (''invocation_params'', [''llm.invocation_parameters'']), (''token_input'', [''llm.token_count.prompt'']),
         (''token_output'', [''llm.token_count.completion'']), (''token_cached'', [''llm.token_count.prompt_details.cache_read'']),
         (''token_reasoning'', [''llm.token_count.completion_details.reasoning''])],
      cvConsumed = {}\<rparr>"

definition otelGenai :: Convention where
  "otelGenai =
     \<lparr>cvName = ''otel-genai'', cvVersion = ''1.30.0'', cvDetect = [''gen_ai.operation.name'', ''gen_ai.system'', ''gen_ai.provider.name''],
      cvKind = \<lparr>kmAttribute = ''gen_ai.operation.name'', kmDefault = ''other'',
        kmValues = [(''chat'', ''llm''), (''text_completion'', ''llm''), (''generate_content'', ''llm''), (''execute_tool'', ''tool''),
          (''embeddings'', ''other''), (''create_agent'', ''other''), (''invoke_agent'', ''other'')]\<rparr>,
      cvFields =
        [(''session_key'', [''gen_ai.conversation.id'', ''session.id'']), (''group_id'', [''gen_ai.group.id'']),
         (''task_type'', [''gen_ai.agent.name'', ''task.type'']), (''episode_end'', [''episode.end'']),
         (''input'', [''gen_ai.input.messages'', ''gen_ai.prompt'']), (''output'', [''gen_ai.output.messages'', ''gen_ai.completion'']),
         (''model'', [''gen_ai.request.model'', ''gen_ai.response.model'']), (''provider'', [''gen_ai.provider.name'', ''gen_ai.system'']),
         (''finish_reason'', [''gen_ai.response.finish_reasons'']), (''tool_name'', [''gen_ai.tool.name'']),
         (''tool_version'', [''gen_ai.tool.version'']), (''tool_args'', [''gen_ai.tool.call.arguments'']),
         (''temperature'', [''gen_ai.request.temperature'']), (''top_p'', [''gen_ai.request.top_p'']),
         (''max_tokens'', [''gen_ai.request.max_tokens'']), (''seed'', [''gen_ai.request.seed'']),
         (''stop_sequences'', [''gen_ai.request.stop_sequences'']), (''token_input'', [''gen_ai.usage.input_tokens'']),
         (''token_output'', [''gen_ai.usage.output_tokens'']), (''token_cached'', [''gen_ai.usage.cached_input_tokens'']),
         (''token_reasoning'', [''gen_ai.usage.reasoning_tokens''])],
      cvConsumed = {}\<rparr>"

definition builtinFiles :: "(string \<times> string) list" where
  "builtinFiles = [(''conventions/openinference.yaml'', ''openinference''), (''conventions/otel-genai.yaml'', ''otel-genai'')]"

definition builtinDecode :: "string \<Rightarrow> Convention option" where
  "builtinDecode b = (if b = ''openinference'' then Some openinference else if b = ''otel-genai'' then Some otelGenai else None)"

definition builtinRegistry :: Registry where
  "builtinRegistry = (case LoadBuiltins builtinDecode builtinFiles of Inr r \<Rightarrow> r | Inl e \<Rightarrow> \<lparr>rgConventions = []\<rparr>)"

lemma builtins_load: "LoadBuiltins builtinDecode builtinFiles = Inr builtinRegistry"
proof -
  have "(case LoadBuiltins builtinDecode builtinFiles of Inr r \<Rightarrow> True | Inl e \<Rightarrow> False)" by code_simp
  then show ?thesis by (auto simp: builtinRegistry_def split: sum.splits)
qed

section \<open>Conventions\<close>

lemma parseConvention_ok:
  assumes "parseConvention decode b path = Inr c"
  shows "cvConsumed c = (if kmAttribute (cvKind c) = [] then {} else {kmAttribute (cvKind c)}) \<union> (\<Union>fa \<in> set (cvFields c). set (snd fa))"
    and "kmDefault (cvKind c) \<noteq> []" and "\<forall>f \<in> fst ` set (cvFields c). f \<in> set knownFields"
proof -
  show "kmDefault (cvKind c) \<noteq> []"
    using assms by (auto simp: parseConvention_def Let_def split: option.splits if_splits)
  show "\<forall>f \<in> fst ` set (cvFields c). f \<in> set knownFields"
    using assms by (fastforce simp: parseConvention_def Let_def find_None_iff split: option.splits if_splits)
  show "cvConsumed c = (if kmAttribute (cvKind c) = [] then {} else {kmAttribute (cvKind c)}) \<union> (\<Union>fa \<in> set (cvFields c). set (snd fa))"
    using assms by (clarsimp simp: parseConvention_def Let_def split: option.splits if_splits)
qed

lemma normalized_step_keeps:
  "stRaw (envStep (Normalize L s n ks reg)) = Unmapped (Select reg (nsAttributes s)) (nsAttributes s)"
  "stKind (envStep (Normalize L s n ks reg)) = MapKind (Select reg (nsAttributes s)) (nsAttributes s)"
  "stTrainable (envStep (Normalize L s n ks reg)) = TrainableUnknown"
  by (simp_all add: Normalize_def normalizedStep_def Let_def)

text \<open>
  Every attribute that the chosen convention does not read stays in the step as it was sent, and only
  those: an attribute is missing from \<^verbatim>\<open>raw\<close> exactly when the mapping file names it for the kind or for a
  field.
\<close>

theorem unread_attributes_kept:
  assumes "parseConvention decode b path = Inr c" and "Select reg (nsAttributes s) = c"
  shows "map_of (stRaw (envStep (Normalize L s n ks reg))) k =
    (if k = kmAttribute (cvKind c) \<and> k \<noteq> [] \<or> (\<exists>f as. (f, as) \<in> set (cvFields c) \<and> k \<in> set as) then None
     else map_of (nsAttributes s) k)"
proof -
  have "map_of (stRaw (envStep (Normalize L s n ks reg))) k = (if k \<in> cvConsumed c then None else map_of (nsAttributes s) k)"
    using map_of_filter_key [of "\<lambda>k. k \<notin> cvConsumed c" "nsAttributes s" k] assms(2)
    by (simp add: normalized_step_keeps Unmapped_def)
  moreover have "k \<in> cvConsumed c \<longleftrightarrow> k = kmAttribute (cvKind c) \<and> k \<noteq> [] \<or> (\<exists>f as. (f, as) \<in> set (cvFields c) \<and> k \<in> set as)"
    unfolding parseConvention_ok(1) [OF assms(1)] by force
  ultimately show ?thesis by simp
qed

section \<open>Kinds\<close>

lemma MapKind_range: "MapKind c attrs = kmDefault (cvKind c) \<or> MapKind c attrs \<in> snd ` set (kmValues (cvKind c))"
  by (auto simp: MapKind_def Let_def split: option.splits dest!: map_of_SomeD find_SomeD intro: rev_image_eqI)

lemma Select_in: "Select reg attrs \<in> set (rgConventions reg) \<or> Select reg attrs = unknownConvention"
  by (auto simp: Select_def split: option.splits list.splits dest: find_SomeD)

lemma builtin_kinds:
  assumes "c \<in> set (rgConventions builtinRegistry)"
  shows "insert (kmDefault (cvKind c)) (snd ` set (kmValues (cvKind c))) \<subseteq> {KindLLM, KindTool, KindRetrieval, KindOther}"
proof -
  have "list_all (\<lambda>c. list_all (\<lambda>v. v \<in> {KindLLM, KindTool, KindRetrieval, KindOther}) (kmDefault (cvKind c) # map snd (kmValues (cvKind c))))
      (rgConventions builtinRegistry)" by code_simp
  then show ?thesis using assms by (auto simp: list_all_iff)
qed

text \<open>
  Under the shipped conventions every span becomes a step of a canonical kind, whatever its attributes
  say, and no step claims to be trainable or not.
\<close>

theorem normalized_step_typed:
  "stKind (envStep (Normalize L s n ks builtinRegistry)) \<in> {KindLLM, KindTool, KindRetrieval, KindOther} \<and>
   stTrainable (envStep (Normalize L s n ks builtinRegistry)) = TrainableUnknown"
proof -
  let ?c = "Select builtinRegistry (nsAttributes s)"
  have "MapKind ?c (nsAttributes s) \<in> insert (kmDefault (cvKind ?c)) (snd ` set (kmValues (cvKind ?c)))"
    using MapKind_range [of ?c "nsAttributes s"] by blast
  moreover have "insert (kmDefault (cvKind ?c)) (snd ` set (kmValues (cvKind ?c))) \<subseteq> {KindLLM, KindTool, KindRetrieval, KindOther}"
    using Select_in [of builtinRegistry "nsAttributes s"] builtin_kinds
    by (auto simp: unknownConvention_def KindOther_def)
  ultimately show ?thesis unfolding normalized_step_keeps by blast
qed

text \<open>
  The kind does not depend on the order in which Go walks the table of values, as long as no two names of
  the table differ in case only.
\<close>

theorem MapKind_order_independent:
  assumes "distinct (map (\<lambda>kv. to_upper (fst kv)) (kmValues (cvKind c)))" and "mset vs = mset (kmValues (cvKind c))"
  shows "MapKind (c\<lparr>cvKind := (cvKind c)\<lparr>kmValues := vs\<rparr>\<rparr>) attrs = MapKind c attrs"
proof -
  let ?xs = "kmValues (cvKind c)"
  have "distinct (map fst ?xs)" using assms(1) distinct_map [of to_upper "map fst ?xs"] by (simp add: comp_def)
  then have "map_of vs = map_of ?xs" using assms(2) by (rule map_of_reordered)
  moreover have "find (\<lambda>kv. to_upper (fst kv) = u) vs = find (\<lambda>kv. to_upper (fst kv) = u) ?xs" for u
    unfolding find_map_of using assms by (subst map_of_reordered [of "map (\<lambda>x. (to_upper (fst x), x)) ?xs"]) (simp_all add: comp_def)
  ultimately show ?thesis by (simp add: MapKind_def Let_def cong: option.case_cong)
qed

theorem MapKind_order_independent_witness:
  "MapKind (otelGenai\<lparr>cvKind := (cvKind otelGenai)\<lparr>kmValues := rev (kmValues (cvKind otelGenai))\<rparr>\<rparr>) [(''gen_ai.operation.name'', '' CHAT'')] = KindLLM"
proof -
  have "distinct (map (\<lambda>kv. to_upper (fst kv)) (kmValues (cvKind otelGenai)))" by code_simp
  moreover have "MapKind otelGenai [(''gen_ai.operation.name'', '' CHAT'')] = KindLLM" by code_simp
  ultimately show ?thesis using MapKind_order_independent [of otelGenai "rev (kmValues (cvKind otelGenai))"] by simp
qed


section \<open>Witness for the attributes\<close>

definition exNormLib :: NormLib where
  "exNormLib = \<lparr>nlParseFloat = (\<lambda>_. None), nlValid = (\<lambda>_. False), nlParams = (\<lambda>_. None), nlStrings = (\<lambda>_. None)\<rparr>"

definition exNSpan :: "(string, string) gomap \<Rightarrow> NSpan" where
  "exNSpan attrs = \<lparr>nsTraceID = ''t1'', nsSpanID = ''s1'', nsParentSpanID = [], nsName = ''call'', nsStartedAtUS = 5, nsEndedAtUS = 9000,
     nsAttributes = attrs, nsStatusError = False, nsStatusMessage = [], nsScopeName = [], nsScopeVersion = []\<rparr>"

theorem unread_attributes_kept_witness:
  "\<exists>c. parseConvention builtinDecode ''otel-genai'' ''conventions/otel-genai.yaml'' = Inr c \<and>
     map_of (stRaw (envStep (Normalize exNormLib (exNSpan [(''gen_ai.system'', ''x''), (''custom'', ''v'')]) ''a'' [] \<lparr>rgConventions = [c]\<rparr>)))
       ''custom'' = Some ''v''"
proof -
  let ?s = "exNSpan [(''gen_ai.system'', ''x''), (''custom'', ''v'')]"
  have "case parseConvention builtinDecode ''otel-genai'' ''conventions/otel-genai.yaml'' of Inl e \<Rightarrow> False
    | Inr c \<Rightarrow> kmAttribute (cvKind c) \<noteq> ''custom'' \<and> list_all (\<lambda>fa. ''custom'' \<notin> set (snd fa)) (cvFields c)" by code_simp
  then obtain c where c: "parseConvention builtinDecode ''otel-genai'' ''conventions/otel-genai.yaml'' = Inr c"
    "kmAttribute (cvKind c) \<noteq> ''custom''" "list_all (\<lambda>fa. ''custom'' \<notin> set (snd fa)) (cvFields c)"
    by (auto split: sum.splits)
  have "Select \<lparr>rgConventions = [c]\<rparr> (nsAttributes ?s) = c" by (simp add: Select_def)
  from unread_attributes_kept [OF c(1) this, of exNormLib "''a''" "[]" "''custom''"] c show ?thesis
    by (auto simp: exNSpan_def list_all_iff)
qed


section \<open>What is lost\<close>

lemma orderKey_other: "a \<notin> set ks \<Longrightarrow> orderKey (s\<lparr>nsAttributes := (a, v) # nsAttributes s\<rparr>) ks = orderKey s ks"
  by (induction s ks rule: orderKey.induct) (auto simp: Let_def goget_def)

text \<open>
  A convention counts every attribute it lists as read, also one whose value it does not use because
  an attribute before it in the list of its field has one. Such an attribute is neither in a field of
  the step nor in \<^verbatim>\<open>raw\<close>: the envelope is the same as if it had not been sent.
\<close>

theorem shadowed_attribute_lost:
  assumes "a \<in> cvConsumed (Select reg (nsAttributes s))" and "a \<noteq> kmAttribute (cvKind (Select reg (nsAttributes s)))"
    and "Select reg ((a, v) # nsAttributes s) = Select reg (nsAttributes s)"
    and "\<forall>f. GetField (Select reg (nsAttributes s)) ((a, v) # nsAttributes s) f = GetField (Select reg (nsAttributes s)) (nsAttributes s) f"
    and "a \<notin> set ks"
  shows "Normalize L (s\<lparr>nsAttributes := (a, v) # nsAttributes s\<rparr>) n ks reg = Normalize L s n ks reg"
proof -
  let ?c = "Select reg (nsAttributes s)"
  have G: "GetField ?c ((a, v) # nsAttributes s) f = GetField ?c (nsAttributes s) f" for f using assms(4) by blast
  have "Unmapped ?c ((a, v) # nsAttributes s) = Unmapped ?c (nsAttributes s)" using assms(1) by (simp add: Unmapped_def)
  moreover have "MapKind ?c ((a, v) # nsAttributes s) = MapKind ?c (nsAttributes s)" using assms(2) by (simp add: MapKind_def Let_def)
  moreover have "payload L ?c ((a, v) # nsAttributes s) k = payload L ?c (nsAttributes s) k" for k by (simp add: payload_def G)
  moreover have "params L ?c ((a, v) # nsAttributes s) = params L ?c (nsAttributes s)" by (simp add: params_def G)
  moreover have "tokenCounts ?c ((a, v) # nsAttributes s) = tokenCounts ?c (nsAttributes s)" by (simp add: tokenCounts_def G)
  moreover have "SessionKey (s\<lparr>nsAttributes := (a, v) # nsAttributes s\<rparr>) ks ?c = SessionKey s ks ?c"
    by (simp add: SessionKey_def orderKey_other [OF assms(5)] G cong: option.case_cong)
  ultimately show ?thesis by (simp add: Normalize_def normalizedStep_def assms(3) G Let_def)
qed

text \<open>
  A span that no convention recognises is mapped by the first one all the same: its attributes are read
  and leave \<^verbatim>\<open>raw\<close>.
\<close>

theorem fallback_convention_maps:
  "let env = Normalize exNormLib (exNSpan [(''tool.name'', ''refund''), (''episode.end'', ''yes'')]) ''a'' [] builtinRegistry
   in stToolName (envStep env) = Some ''refund'' \<and> stRaw (envStep env) = [] \<and> envTerminal env"
  by code_simp

section \<open>Sessions\<close>

text \<open>
  The session key of a span with a trace id is empty in one case only: none of the configured attributes
  has a value, and the convention's session attribute is blank. Then the assembler gives each span of
  the trace a session of its own, although the trace id would have kept them together.
\<close>

theorem session_key_empty_iff:
  assumes "nsTraceID s \<noteq> []"
  shows "SessionKey s ks conv = [] \<longleftrightarrow>
    orderKey s ks = None \<and> (\<exists>v. GetField conv (nsAttributes s) ''session_key'' = Some v \<and> trim_space v = [])"
proof -
  have "orderKey s ks \<noteq> Some []" by (induction s ks rule: orderKey.induct) (simp_all add: Let_def)
  then show ?thesis using assms by (auto simp: SessionKey_def split: option.splits)
qed

theorem shadowed_attribute_lost_witness:
  "\<exists>reg. let s = exNSpan [(''gen_ai.request.model'', ''m'')]
     in Normalize exNormLib (s\<lparr>nsAttributes := (''gen_ai.response.model'', ''m-2024'') # nsAttributes s\<rparr>) ''a'' [] reg = Normalize exNormLib s ''a'' [] reg"
proof -
  let ?s = "exNSpan [(''gen_ai.request.model'', ''m'')]"
  have "case parseConvention builtinDecode ''otel-genai'' [] of Inl e \<Rightarrow> False
    | Inr c \<Rightarrow> ''gen_ai.response.model'' \<in> cvConsumed c \<and> ''gen_ai.response.model'' \<noteq> kmAttribute (cvKind c) \<and>
        list_all (\<lambda>fa. firstPresent ((''gen_ai.response.model'', ''m-2024'') # nsAttributes ?s) (snd fa) = firstPresent (nsAttributes ?s) (snd fa)) (cvFields c)"
    by code_simp
  then obtain c :: Convention where c: "''gen_ai.response.model'' \<in> cvConsumed c" "''gen_ai.response.model'' \<noteq> kmAttribute (cvKind c)"
    "\<forall>fa \<in> set (cvFields c). firstPresent ((''gen_ai.response.model'', ''m-2024'') # nsAttributes ?s) (snd fa) = firstPresent (nsAttributes ?s) (snd fa)"
    by (auto simp: list_all_iff split: sum.splits)
  let ?reg = "\<lparr>rgConventions = [c]\<rparr>"
  have S: "Select ?reg attrs = c" for attrs by (simp add: Select_def)
  have "GetField c ((''gen_ai.response.model'', ''m-2024'') # nsAttributes ?s) f = GetField c (nsAttributes ?s) f" for f
    using c(3) by (auto simp: GetField_def goget_def split: option.splits dest!: map_of_SomeD)
  then have "Normalize exNormLib (?s\<lparr>nsAttributes := (''gen_ai.response.model'', ''m-2024'') # nsAttributes ?s\<rparr>) ''a'' [] ?reg = Normalize exNormLib ?s ''a'' [] ?reg"
    using shadowed_attribute_lost [of "''gen_ai.response.model''" ?reg ?s "''m-2024''" "[]"] c(1,2) by (simp add: S)
  then show ?thesis by (auto simp: Let_def)
qed

theorem session_key_empty_iff_witness:
  "SessionKey (exNSpan [(''session.id'', '' '')]) [''user.id''] openinference = [] \<and>
   SessionKey (exNSpan [(''session.id'', ''u'')]) [''user.id''] openinference \<noteq> []"
proof -
  have "orderKey (exNSpan [(''session.id'', '' '')]) [''user.id''] = None"
    "GetField openinference (nsAttributes (exNSpan [(''session.id'', '' '')])) ''session_key'' = Some '' ''" "trim_space '' '' = []"
    "GetField openinference (nsAttributes (exNSpan [(''session.id'', ''u'')])) ''session_key'' = Some ''u''" "trim_space ''u'' \<noteq> []"
    by code_simp+
  then show ?thesis
    using session_key_empty_iff [of "exNSpan [(''session.id'', '' '')]" "[''user.id'']" openinference]
      session_key_empty_iff [of "exNSpan [(''session.id'', ''u'')]" "[''user.id'']" openinference]
    by (auto simp: exNSpan_def)
qed

section \<open>The receiver\<close>



lemma attrsToMap_distinct: "distinct (map fst (attrsToMap L m))"
proof -
  have "distinct (map fst (fold (\<lambda>(k, v) out. AList.update k (attrText L v) out) xs out))" if "distinct (map fst out)" for xs and out :: "(string, string) gomap"
    using that by (induction xs arbitrary: out) (auto simp: distinct_update)
  then show ?thesis by (simp add: attrsToMap_def)
qed

lemma flattenSpan_attributes:
  "map_of (nsAttributes (flattenSpan L res n v sp)) = map_of res ++ map_of (attrsToMap L (opAttributes sp))"
proof -
  have "map_of (rev (attrsToMap L (opAttributes sp))) = map_of (attrsToMap L (opAttributes sp))"
    using attrsToMap_distinct [of L "opAttributes sp"] by (intro map_of_reordered) simp_all
  then show ?thesis by (simp add: flattenSpan_def map_of_fold_update)
qed

text \<open>
  C19. What an export did to the service can be read off the answer, and both transports do the same with the
  same trace data. Accepted (200, OK): every span of the request went to the assembler, in order, as far
  as head sampling keeps its session. Refused (429, 503, \<^verbatim>\<open>Unavailable\<close>): a proper prefix did. Any other
  answer of the HTTP handler leaves the service alone.
\<close>

theorem otlp_answer:
  assumes "handleTraces L True (onEnvelope D) rq (r, s) = (rsp, r', s')"
  shows "rsCode rsp \<in> {400, 405, 413} \<and> s' = s \<or>
    (\<exists>body td. readLimited (ooMaxRequestBytes (orOpts r)) rq = Some body \<and> olUnmarshal L body = Some td \<and>
      (let envs = otlpEnvelopes L (orOpts r) td; (st, r'', s'') = ExportTraces L (onEnvelope D) td (r, s)
       in s'' = s' \<and>
         (rsCode rsp = 200 \<and> st = GrpcOK \<and> svAsm s' = assembledAll (rates s) envs (svAsm s) \<or>
          rsCode rsp \<in> {429, 503} \<and> rsRetryAfter rsp \<and> st = GrpcUnavailable \<and>
            (\<exists>n < length envs. svAsm s' = assembledAll (rates s) (take n envs) (svAsm s)))))"
proof (cases "rqMethod rq = ''POST'' \<and> rqContentLength rq \<le> ooMaxRequestBytes (orOpts r) \<and>
    (\<exists>body td. readLimited (ooMaxRequestBytes (orOpts r)) rq = Some body \<and> olUnmarshal L body = Some td)")
  case False
  then show ?thesis
    using assms by (auto simp: handleTraces_def http_defs Let_def split: if_splits option.splits)
next
  case True
  then obtain body td where B: "rqMethod rq = ''POST''" "rqContentLength rq \<le> ooMaxRequestBytes (orOpts r)"
    "readLimited (ooMaxRequestBytes (orOpts r)) rq = Some body" "olUnmarshal L body = Some td" by blast
  obtain n er s1 where P: "pushAll (onEnvelope D) (otlpEnvelopes L (orOpts r) td) s = (n, er, s1)" by (metis prod_cases3)
  have s1: "s1 = s'" using assms B P by (auto simp: handleTraces_def dispatch_def Let_def split: option.splits)
  have "let envs = otlpEnvelopes L (orOpts r) td; (st, r'', s'') = ExportTraces L (onEnvelope D) td (r, s)
       in s'' = s' \<and>
         (rsCode rsp = 200 \<and> st = GrpcOK \<and> svAsm s' = assembledAll (rates s) envs (svAsm s) \<or>
          rsCode rsp \<in> {429, 503} \<and> rsRetryAfter rsp \<and> st = GrpcUnavailable \<and>
            (\<exists>n < length envs. svAsm s' = assembledAll (rates s) (take n envs) (svAsm s)))"
  proof (cases er)
    case None
    then show ?thesis using assms B P s1 service_pushes_all [of D _ s n s']
      by (auto simp: handleTraces_def ExportTraces_def dispatch_def http_defs Let_def)
  next
    case (Some e)
    then show ?thesis using assms B P s1 service_pushes_some [of D _ s n e s']
      by (auto simp: handleTraces_def ExportTraces_def dispatch_def http_defs Let_def split: if_splits)
  qed
  then show ?thesis using B by blast
qed

definition exOtlpLib :: OtlpLib where
  "exOtlpLib = \<lparr>olNorm = exNormLib, olFormatFloat = (\<lambda>_. ''0''),
     olUnmarshal = (\<lambda>_. Some [\<lparr>rsAttributes = [(''session.id'', AStr ''s'')],
       rsScopes = [\<lparr>scName = ''lib'', scVersion = ''1'',
         scSpans = [\<lparr>opTraceID = ''t'', opSpanID = ''x'', opParentSpanID = [], opName = ''call'', opStart = 5000, opEnd = 9000,
           opAttributes = [(''tool.name'', AStr ''refund'')], opStatusError = False, opStatusMessage = []\<rparr>]\<rparr>]\<rparr>])\<rparr>"

definition exOtlpReceiver :: OtlpReceiver where
  "exOtlpReceiver = NewOtlp \<lparr>ooName = ''a'', ooListen = '':4318'', ooGRPCListen = [], ooMaxRequestBytes = 0, ooSessionKeyOrder = [],
     ooConventions = builtinRegistry\<rparr>"

theorem otlp_answer_witness:
  "\<exists>s rsp r' s' envs. exStart = Inr s \<and> handleTraces exOtlpLib True (onEnvelope exDeps) exRequest (exOtlpReceiver, s) = (rsp, r', s') \<and>
     rsCode rsp = 200 \<and> svAsm s' = assembledAll (rates s) envs (svAsm s)"
proof -
  have "case exStart of Inl e \<Rightarrow> False
    | Inr s \<Rightarrow> rsCode (fst (handleTraces exOtlpLib True (onEnvelope exDeps) exRequest (exOtlpReceiver, s))) = 200"
    by code_simp
  then obtain s rsp r' s' where S: "exStart = Inr s"
    "handleTraces exOtlpLib True (onEnvelope exDeps) exRequest (exOtlpReceiver, s) = (rsp, r', s')" "rsCode rsp = 200"
    by (auto split: sum.splits) (metis prod.collapse)
  have "\<exists>envs. svAsm s' = assembledAll (rates s) envs (svAsm s)"
    using otlp_answer [OF S(2)] S(3) by (simp add: Let_def split_beta) blast
  then show ?thesis using S by blast
qed

end
