(* ===== verification/Webhook.thy ===== *)
theory Webhook
  imports Native
begin

text \<open>
  Gateway callbacks (\<^verbatim>\<open>src/collector/source/webhook\<close>): the mapping file, the mapping of a callback body onto
  envelopes, tool steps rebuilt from the conversation history, and the handler. JSONPath, the JSON
  parsers, YAML, \<^verbatim>\<open>time.Parse\<close>, \<^verbatim>\<open>strconv.ParseFloat\<close> and the conversions of a floating-point number to an
  integer, which Go leaves to the machine out of range, are parameters. The number in a document is the
  text that \<^verbatim>\<open>json.Marshal\<close> writes for it.
\<close>

section \<open>Mappings\<close>

record Mapping =
  mpName :: string
  mpVersion :: string
  mpKind :: string
  mpFixedKind :: string
  mpFields :: "(string, string list) gomap"
  mpToolSteps :: string
  mpExclude :: "string list"
  mpCompiled :: "(string, (json \<Rightarrow> json list) list) gomap"
  mpRoots :: "string set"

record HookLib =
  hlYaml :: "string \<Rightarrow> Mapping option"
  hlPath :: "string \<Rightarrow> (json \<Rightarrow> json list) option"
  hlParse :: "string \<Rightarrow> json option"
  hlUnmarshal :: "string \<Rightarrow> json option"
  hlNumText :: "string \<Rightarrow> string"
  hlNumValue :: "string \<Rightarrow> rat"
  hlTime :: TimeLib
  hlInt32 :: "rat \<Rightarrow> int"
  hlInt64 :: "rat \<Rightarrow> int"

datatype mapError =
    MapRead | MapYaml | MapNeedsName | MapKindNotFixed | MapBadKind string | MapBadToolSteps string
  | MapUnknownField string | MapBadPath string string

definition hookFields :: "string list" where
  "hookFields = [''span_id'', ''session_key'', ''group_id'', ''task_type'', ''input'', ''output'', ''model'', ''provider'', ''finish_reason'',
     ''temperature'', ''top_p'', ''max_tokens'', ''seed'', ''token_input'', ''token_output'', ''cost'', ''error'', ''episode_end'',
     ''started_at'', ''ended_at'']"

definition rootKey :: "string \<Rightarrow> string" where
  "rootKey path =
     (let p = (if has_prefix path ''$.'' then drop 2 path else path)
      in takeWhile (\<lambda>c. c \<noteq> CHR ''.'' \<and> c \<noteq> CHR ''['') p)"

text \<open>The two loops over the fields, in the order of their names, and over the paths of a field.\<close>

fun compilePaths :: "HookLib \<Rightarrow> string \<Rightarrow> string list \<Rightarrow> Mapping \<Rightarrow> mapError + Mapping" where
  "compilePaths L f [] m = Inr m"
| "compilePaths L f (src # srcs) m =
     (case hlPath L src of
        None \<Rightarrow> Inl (MapBadPath f src)
      | Some expr \<Rightarrow>
          compilePaths L f srcs
            (m\<lparr>mpCompiled := AList.update f (goget [] (mpCompiled m) f @ [expr]) (mpCompiled m),
               mpRoots := (if rootKey src \<noteq> [] then insert (rootKey src) (mpRoots m) else mpRoots m)\<rparr>))"

fun compileFields :: "HookLib \<Rightarrow> string list \<Rightarrow> Mapping \<Rightarrow> mapError + Mapping" where
  "compileFields L [] m = Inr m"
| "compileFields L (f # fs) m =
     (if f \<notin> set hookFields then Inl (MapUnknownField f)
      else (case compilePaths L f (goget [] (mpFields m) f) m of Inl e \<Rightarrow> Inl e | Inr m1 \<Rightarrow> compileFields L fs m1))"

definition ParseMapping :: "HookLib \<Rightarrow> string \<Rightarrow> mapError + Mapping" where
  "ParseMapping L b =
     (case hlYaml L b of
        None \<Rightarrow> Inl MapYaml
      | Some m \<Rightarrow>
          if mpName m = [] then Inl MapNeedsName
          else if mpKind m \<noteq> ''fixed'' then Inl MapKindNotFixed
          else if mpFixedKind m \<notin> {KindLLM, KindTool, KindRetrieval, KindHuman, KindOther} then Inl (MapBadKind (mpFixedKind m))
          else if mpToolSteps m \<noteq> [] \<and> mpToolSteps m \<noteq> ''openai_messages'' then Inl (MapBadToolSteps (mpToolSteps m))
          else compileFields L (sort (map fst (mpFields m))) (m\<lparr>mpCompiled := [], mpRoots := set (mpExclude m)\<rparr>))"

definition LoadMapping :: "HookLib \<Rightarrow> string option \<Rightarrow> mapError + Mapping" where
  "LoadMapping L file = (case file of None \<Rightarrow> Inl MapRead | Some b \<Rightarrow> ParseMapping L b)"

fun firstResult :: "(json \<Rightarrow> json list) list \<Rightarrow> json \<Rightarrow> json option" where
  "firstResult [] doc = None"
| "firstResult (expr # exprs) doc =
     (case expr doc of
        v # vs \<Rightarrow> if v \<noteq> JNull then Some v else firstResult exprs doc
      | [] \<Rightarrow> firstResult exprs doc)"

definition getValue :: "Mapping \<Rightarrow> json \<Rightarrow> string \<Rightarrow> json option" where
  "getValue m doc field = firstResult (goget [] (mpCompiled m) field) doc"

section \<open>Values\<close>

definition strOf :: "HookLib \<Rightarrow> json option \<Rightarrow> string" where
  "strOf L v =
     (case v of
        None \<Rightarrow> []
      | Some JNull \<Rightarrow> []
      | Some (JStr t) \<Rightarrow> t
      | Some (JNum t) \<Rightarrow> hlNumText L t
      | Some j \<Rightarrow> json_encode j)"

definition numOf :: "HookLib \<Rightarrow> json option \<Rightarrow> rat option" where
  "numOf L v =
     (case v of
        Some (JNum t) \<Rightarrow> Some (hlNumValue L t)
      | Some (JStr t) \<Rightarrow> parseFloat (hlTime L) t
      | _ \<Rightarrow> None)"

definition hookLayouts :: "string list" where
  "hookLayouts = [''2006-01-02T15:04:05.999999999Z07:00'', ''2006-01-02T15:04:05Z07:00'', ''2006-01-02 15:04:05.999999'']"

definition unitMicros :: "HookLib \<Rightarrow> rat \<Rightarrow> int" where
  "unitMicros L f =
     (if f < 10 ^ 11 then hlInt64 L (roundFloat (hlTime L) (f * 10 ^ 6))
      else if f < 10 ^ 14 then hlInt64 L (roundFloat (hlTime L) (f * 10 ^ 3))
      else hlInt64 L f)"

definition timeUS :: "HookLib \<Rightarrow> json option \<Rightarrow> int" where
  "timeUS L v =
     (case v of
        Some (JStr s) \<Rightarrow>
          (case firstLayout (hlTime L) hookLayouts s of
             Some t \<Rightarrow> t
           | None \<Rightarrow> (case parseFloat (hlTime L) s of None \<Rightarrow> 0 | Some f \<Rightarrow> unitMicros L f))
      | _ \<Rightarrow> (case numOf L v of None \<Rightarrow> 0 | Some f \<Rightarrow> unitMicros L f))"

definition isNested :: "json \<Rightarrow> bool" where
  "isNested v = (case v of JArr _ \<Rightarrow> True | JObj _ \<Rightarrow> True | _ \<Rightarrow> False)"

definition unmappedRoots :: "HookLib \<Rightarrow> json \<Rightarrow> string set \<Rightarrow> (string, string) gomap" where
  "unmappedRoots L doc consumed =
     (case doc of
        JObj kvs \<Rightarrow>
          map (\<lambda>(k, v). (k, strOf L (Some v)))
            (filter (\<lambda>(k, v). k \<notin> consumed \<and> \<not> isNested v \<and> strOf L (Some v) \<noteq> [] \<and>
               \<not> containsText k ''key'' \<and> \<not> containsText k ''token'') kvs)
      | _ \<Rightarrow> [])"

section \<open>One callback\<close>

datatype hookError = BadJSON | NoSpanID nat

definition hookParams :: "HookLib \<Rightarrow> Mapping \<Rightarrow> json \<Rightarrow> Params option" where
  "hookParams L m doc =
     (let p = \<lparr>Temperature = numOf L (getValue m doc ''temperature''), TopP = numOf L (getValue m doc ''top_p''),
               MaxTokens = map_option (hlInt32 L) (numOf L (getValue m doc ''max_tokens'')),
               Seed = map_option (hlInt64 L) (numOf L (getValue m doc ''seed'')), Stop = []\<rparr>
      in if Temperature p = None \<and> TopP p = None \<and> MaxTokens p = None \<and> Seed p = None then None else Some p)"

definition hookTokens :: "HookLib \<Rightarrow> Mapping \<Rightarrow> json \<Rightarrow> TokenCounts option" where
  "hookTokens L m doc =
     (let tc = \<lparr>tcInput = map_option (hlInt64 L) (numOf L (getValue m doc ''token_input'')),
                tcOutput = map_option (hlInt64 L) (numOf L (getValue m doc ''token_output'')), tcCached = None, tcReasoning = None\<rparr>
      in if tcInput tc = None \<and> tcOutput tc = None then None else Some tc)"

definition hookPayload :: "Mapping \<Rightarrow> json \<Rightarrow> string option" where
  "hookPayload m doc =
     (let part = (\<lambda>f. case getValue m doc f of None \<Rightarrow> [] | Some v \<Rightarrow> [(f, v)]);
          kvs = part ''input'' @ part ''output''
      in if kvs = [] then None else Some (json_encode (JObj kvs)))"

definition hookFault :: "HookLib \<Rightarrow> Mapping \<Rightarrow> json \<Rightarrow> Error option" where
  "hookFault L m doc =
     (let msg = strOf L (getValue m doc ''error'')
      in if msg \<noteq> [] \<and> msg \<noteq> ''None'' then Some \<lparr>errType = ''gateway_error'', errMessage = take 500 msg\<rparr> else None)"

definition hookTerminal :: "Mapping \<Rightarrow> json \<Rightarrow> bool" where
  "hookTerminal m doc =
     (case getValue m doc ''episode_end'' of
        Some (JBool b) \<Rightarrow> b
      | Some (JStr s) \<Rightarrow> s = ''true'' \<or> s = ''1''
      | _ \<Rightarrow> False)"

definition hookLatency :: "HookLib \<Rightarrow> Mapping \<Rightarrow> json \<Rightarrow> int option" where
  "hookLatency L m doc =
     (let started = timeUS L (getValue m doc ''started_at''); ended = timeUS L (getValue m doc ''ended_at'')
      in if ended > started \<and> started > 0 then Some (wrap32 (godiv (ended - started) 1000)) else None)"

definition hookStep :: "HookLib \<Rightarrow> Mapping \<Rightarrow> json \<Rightarrow> Step" where
  "hookStep L m doc =
     zeroStep
       \<lparr>stKind := mpFixedKind m, stTrainable := TrainableUnknown, stStartedAt := timeUS L (getValue m doc ''started_at''),
        stRaw := unmappedRoots L doc (mpRoots m), stLatencyMs := hookLatency L m doc,
        stModel := setStr (strOf L (getValue m doc ''model'')), stProvider := setStr (strOf L (getValue m doc ''provider'')),
        stFinishReason := setStr (strOf L (getValue m doc ''finish_reason'')),
        stParams := hookParams L m doc, stCostUSD := numOf L (getValue m doc ''cost''),
        stTokenCounts := hookTokens L m doc, stContentInline := hookPayload m doc, stError := hookFault L m doc\<rparr>"

definition mapOne :: "HookLib \<Rightarrow> string \<Rightarrow> Mapping \<Rightarrow> json \<Rightarrow> Envelope option" where
  "mapOne L name m doc =
     (let sid = strOf L (getValue m doc ''span_id''); session = strOf L (getValue m doc ''session_key'')
      in if sid = [] then None
         else Some
           \<lparr>envSessionKey = (if session = [] then sid else session), envEpisodeID = [], envSource = name, envSpanID = sid,
            envParentSpanID = [], envTerminal = hookTerminal m doc, envError = hookFault L m doc,
            envMeta = \<lparr>mtTaskType = strOf L (getValue m doc ''task_type''), mtGroupID = strOf L (getValue m doc ''group_id''),
              mtInstrumentation = ''gateway-'' @ mpName m, mtInstrumentationVersion = mpVersion m, mtRaw = []\<rparr>,
            envStep = hookStep L m doc\<rparr>)"

section \<open>Tool steps\<close>

definition jsonField :: "json \<Rightarrow> string \<Rightarrow> json option" where
  "jsonField j k = (case j of JObj kvs \<Rightarrow> map_of kvs k | _ \<Rightarrow> None)"

definition textField :: "json \<Rightarrow> string \<Rightarrow> string" where
  "textField j k = (case jsonField j k of Some (JStr s) \<Rightarrow> s | _ \<Rightarrow> [])"

definition parseMaybeJSON :: "HookLib \<Rightarrow> json option \<Rightarrow> json" where
  "parseMaybeJSON L v =
     (case v of
        Some (JStr s) \<Rightarrow> (case hlUnmarshal L s of Some out \<Rightarrow> out | None \<Rightarrow> JStr s)
      | Some j \<Rightarrow> j
      | None \<Rightarrow> JNull)"

record toolRequest =
  trName :: string
  trArgs :: json

definition noteToolCall :: "HookLib \<Rightarrow> json \<Rightarrow> (string \<rightharpoonup> toolRequest) \<Rightarrow> (string \<rightharpoonup> toolRequest)" where
  "noteToolCall L c req =
     (case jsonField c ''function'' of
        Some (JObj fn) \<Rightarrow>
          if textField c ''id'' = [] then req
          else req(textField c ''id'' \<mapsto> \<lparr>trName = textField (JObj fn) ''name'', trArgs = parseMaybeJSON L (map_of fn ''arguments'')\<rparr>)
      | _ \<Rightarrow> req)"

definition toolStep :: "HookLib \<Rightarrow> Envelope \<Rightarrow> string \<Rightarrow> toolRequest \<Rightarrow> json option \<Rightarrow> Envelope" where
  "toolStep L call i r content =
     zeroEnvelope
       \<lparr>envSessionKey := envSessionKey call, envSource := envSource call, envSpanID := ''tool:'' @ i, envMeta := envMeta call,
        envStep := zeroStep
          \<lparr>stKind := KindTool, stToolName := Some (trName r),
           stContentInline := Some (json_encode (JObj [(''args'', trArgs r), (''result'', parseMaybeJSON L content)])),
           stStartedAt := max 0 (stStartedAt (envStep call) - 1), stTrainable := TrainableUnknown\<rparr>\<rparr>"

fun toolLoop :: "HookLib \<Rightarrow> Envelope \<Rightarrow> json list \<Rightarrow> (string \<rightharpoonup> toolRequest) \<Rightarrow> Envelope list" where
  "toolLoop L call [] req = []"
| "toolLoop L call (msg # msgs) req =
     (if jsonField msg ''role'' = Some (JStr ''assistant'') then
        toolLoop L call msgs
          (case jsonField msg ''tool_calls'' of Some (JArr calls) \<Rightarrow> fold (noteToolCall L) calls req | _ \<Rightarrow> req)
      else if jsonField msg ''role'' = Some (JStr ''tool'') then
        (let i = textField msg ''tool_call_id''
         in case req i of
              Some r \<Rightarrow>
                if i = [] then toolLoop L call msgs req
                else toolStep L call i r (jsonField msg ''content'') # toolLoop L call msgs req
            | None \<Rightarrow> toolLoop L call msgs req)
      else toolLoop L call msgs req)"

definition toolStepsFromMessages :: "HookLib \<Rightarrow> json \<Rightarrow> Envelope \<Rightarrow> Envelope list" where
  "toolStepsFromMessages L messages call =
     (case messages of JArr ms \<Rightarrow> toolLoop L call ms Map.empty | _ \<Rightarrow> [])"

section \<open>A request\<close>

definition toolsBefore :: "HookLib \<Rightarrow> Mapping \<Rightarrow> json \<Rightarrow> Envelope \<Rightarrow> Envelope list" where
  "toolsBefore L m item env =
     (if mpToolSteps m = ''openai_messages''
      then (case getValue m item ''input'' of Some msgs \<Rightarrow> toolStepsFromMessages L msgs env | None \<Rightarrow> [])
      else [])"

fun mapItems :: "HookLib \<Rightarrow> string \<Rightarrow> Mapping \<Rightarrow> nat \<Rightarrow> json list \<Rightarrow> hookError + Envelope list" where
  "mapItems L name m i [] = Inr []"
| "mapItems L name m i (item # items) =
     (case mapOne L name m item of
        None \<Rightarrow> Inl (NoSpanID i)
      | Some env \<Rightarrow>
          (case mapItems L name m (Suc i) items of
             Inl e \<Rightarrow> Inl e
           | Inr envs \<Rightarrow> Inr (toolsBefore L m item env @ env # envs)))"

definition hookMap :: "HookLib \<Rightarrow> string \<Rightarrow> Mapping \<Rightarrow> string \<Rightarrow> hookError + Envelope list" where
  "hookMap L name m body =
     (case hlParse L body of
        None \<Rightarrow> Inl BadJSON
      | Some doc \<Rightarrow> mapItems L name m 0 (case doc of JArr xs \<Rightarrow> xs | _ \<Rightarrow> [doc]))"

record HookOptions =
  hoName :: string
  hoPath :: string
  hoMapping :: Mapping
  hoMaxRequestBytes :: int
  hoAuthToken :: string

record HookReceiver =
  hrOpts :: HookOptions
  hrAccepted :: int
  hrRejected :: int
  hrBytes :: int

definition NewHook :: "HookOptions \<Rightarrow> HookReceiver" where
  "NewHook o0 =
     (let o1 = (if hoMaxRequestBytes o0 \<le> 0 then o0\<lparr>hoMaxRequestBytes := defaultMaxRequest\<rparr> else o0);
          o2 = (if hoPath o1 = [] then o1\<lparr>hoPath := ''/v1/hooks/'' @ mpName (hoMapping o1)\<rparr> else o1)
      in \<lparr>hrOpts = o2, hrAccepted = 0, hrRejected = 0, hrBytes = 0\<rparr>)"

definition rejectHook :: "HookReceiver \<Rightarrow> HookReceiver" where
  "rejectHook r = r\<lparr>hrRejected := hrRejected r + 1\<rparr>"

definition handleHook ::
  "HookLib \<Rightarrow> (Envelope \<Rightarrow> 's \<Rightarrow> ingestError option \<times> 's) \<Rightarrow> Request \<Rightarrow> HookReceiver \<times> 's
    \<Rightarrow> hookError Response \<times> HookReceiver \<times> 's"
where
  "handleHook L nxt rq st =
     (case st of (r, s) \<Rightarrow>
        if rqMethod rq \<noteq> ''POST'' then (httpError 405 ''method not allowed'', r, s)
        else if hoAuthToken (hrOpts r) \<noteq> [] \<and> rqAuthorization rq \<noteq> ''Bearer '' @ hoAuthToken (hrOpts r)
        then (httpError 401 ''unauthorized'', rejectHook r, s)
        else if rqContentLength rq > hoMaxRequestBytes (hrOpts r)
        then (httpError 413 ''request body exceeds max_request_bytes'', rejectHook r, s)
        else
          (case readLimited (hoMaxRequestBytes (hrOpts r)) rq of
             None \<Rightarrow> (httpError 413 ''request body too large or unreadable'', rejectHook r, s)
           | Some body \<Rightarrow>
               let r1 = r\<lparr>hrBytes := hrBytes r + int (length body)\<rparr>
               in (case hookMap L (hoName (hrOpts r1)) (hoMapping (hrOpts r1)) body of
                     Inl e \<Rightarrow> (\<lparr>rsCode = 400, rsRetryAfter = False, rsBody = JSONFault e\<rparr>, rejectHook r1, s)
                   | Inr envs \<Rightarrow>
                       (case pushAll nxt envs s of
                          (n, Some er, s1) \<Rightarrow>
                            (\<lparr>rsCode = (if er = QuotaExceeded then 429 else 503), rsRetryAfter = True,
                              rsBody = ErrorText ''collector cannot accept data''\<rparr>, r1, s1)
                        | (n, None, s1) \<Rightarrow>
                            (writeJSON 202 (AcceptedCount (length envs)), r1\<lparr>hrAccepted := hrAccepted r1 + 1\<rparr>, s1)))))"

end
