(* ===== verification/Webhook_Props.thy ===== *)
theory Webhook_Props
  imports Webhook Native_Props
begin

text \<open>
  Gateway callbacks: the envelopes of a callback are well formed, the tool steps rebuilt from a growing
  history repeat themselves, and the answer tells the gateway what happened.
\<close>

section \<open>Mappings\<close>

lemma compilePaths_kind: "compilePaths L f srcs m = Inr m' \<Longrightarrow> mpFixedKind m' = mpFixedKind m \<and> mpName m' = mpName m"
  by (induction srcs arbitrary: m) (auto split: option.splits)

lemma compileFields_kind: "compileFields L fs m = Inr m' \<Longrightarrow> mpFixedKind m' = mpFixedKind m \<and> mpName m' = mpName m"
  by (induction fs arbitrary: m) (auto split: if_splits sum.splits dest!: compilePaths_kind)

lemma compileFields_known: "compileFields L fs m = Inr m' \<Longrightarrow> set fs \<subseteq> set hookFields"
  by (induction fs arbitrary: m) (auto split: if_splits sum.splits)

lemma ParseMapping_kind:
  "ParseMapping L b = Inr m \<Longrightarrow> mpFixedKind m \<in> {KindLLM, KindTool, KindRetrieval, KindHuman, KindOther} \<and> mpName m \<noteq> []"
  by (auto simp: ParseMapping_def split: option.splits if_splits dest!: compileFields_kind)

section \<open>Envelopes\<close>

definition hookTyped :: "string \<Rightarrow> Envelope \<Rightarrow> bool" where
  "hookTyped name env \<longleftrightarrow>
     envSpanID env \<noteq> [] \<and> envSessionKey env \<noteq> [] \<and> envSource env = name \<and>
     stKind (envStep env) \<in> {KindLLM, KindTool, KindRetrieval, KindHuman, KindOther} \<and> stTrainable (envStep env) = TrainableUnknown"

lemma toolLoop_typed:
  "envSessionKey call \<noteq> [] \<Longrightarrow> env \<in> set (toolLoop L call ms req) \<Longrightarrow>
    hookTyped (envSource call) env \<and> envSessionKey env = envSessionKey call \<and> stKind (envStep env) = KindTool"
  by (induction L call ms req rule: toolLoop.induct)
    (auto simp: toolStep_def hookTyped_def Let_def split: if_splits option.splits)

lemma toolSteps_typed:
  "envSessionKey call \<noteq> [] \<Longrightarrow> env \<in> set (toolStepsFromMessages L msgs call) \<Longrightarrow> hookTyped (envSource call) env"
  by (cases msgs) (simp_all add: toolStepsFromMessages_def toolLoop_typed)

lemma mapOne_typed:
  assumes "mapOne L name m doc = Some env" and "mpFixedKind m \<in> {KindLLM, KindTool, KindRetrieval, KindHuman, KindOther}"
  shows "hookTyped name env"
  using assms by (auto simp: mapOne_def hookTyped_def hookStep_def Let_def split: if_splits)

lemma toolsBefore_typed:
  assumes "hookTyped name env" and "t \<in> set (toolsBefore L m item env)"
  shows "hookTyped name t"
proof -
  have "toolsBefore L m item env = [] \<or> (\<exists>msgs. toolsBefore L m item env = toolStepsFromMessages L msgs env)"
    by (auto simp: toolsBefore_def split: option.split)
  then obtain msgs where "t \<in> set (toolStepsFromMessages L msgs env)" using assms(2) by (metis empty_iff empty_set)
  moreover have "envSessionKey env \<noteq> []" "envSource env = name" using assms(1) by (simp_all add: hookTyped_def)
  ultimately show ?thesis by (metis toolSteps_typed)
qed

lemma mapItems_typed:
  assumes "mapItems L name m i items = Inr envs" and "mpFixedKind m \<in> {KindLLM, KindTool, KindRetrieval, KindHuman, KindOther}"
  shows "\<forall>env \<in> set envs. hookTyped name env"
  using assms(1)
proof (induction items arbitrary: i envs)
  case (Cons item items)
  then obtain env rest where E: "mapOne L name m item = Some env" "mapItems L name m (Suc i) items = Inr rest"
    "envs = toolsBefore L m item env @ env # rest"
    by (auto split: option.splits sum.splits)
  then show ?case using Cons.IH [OF E(2)] mapOne_typed [OF E(1) assms(2)] toolsBefore_typed by auto
qed simp

text \<open>
  C20. Whatever a gateway posts, a mapping that was accepted at startup yields envelopes with a span id, a
  session, a canonical kind and no claim about training.
\<close>

theorem hook_envelopes_typed:
  assumes "ParseMapping L b = Inr m" and "hookMap L name m body = Inr envs"
  shows "\<forall>env \<in> set envs. hookTyped name env"
  using assms ParseMapping_kind [OF assms(1)] mapItems_typed by (fastforce simp: hookMap_def split: option.splits)

section \<open>Tool steps\<close>

text \<open>What a tool step says, apart from its time and from what it takes over from the call.\<close>

definition toolContent :: "Envelope \<Rightarrow> string \<times> string option \<times> string option" where
  "toolContent env = (envSpanID env, stToolName (envStep env), stContentInline (envStep env))"

lemma toolLoop_content: "map toolContent (toolLoop L call ms req) = map toolContent (toolLoop L call' ms req)"
  by (induction L call ms req rule: toolLoop.induct) (auto simp: toolStep_def toolContent_def Let_def split: option.splits)

lemma toolLoop_append: "\<exists>req'. toolLoop L call (ms @ ms') req = toolLoop L call ms req @ toolLoop L call ms' req'"
proof (induction L call ms req rule: toolLoop.induct)
  case (2 L call msg msgs req)
  then show ?case by (cases "jsonField msg ''role'' = Some (JStr ''assistant'')";
      cases "jsonField msg ''role'' = Some (JStr ''tool'')") (auto simp: Let_def split: option.splits)
qed auto

text \<open>
  Every call repeats the conversation so far. The tool steps rebuilt from a history are the first ones
  rebuilt from every longer history, with the same span ids, names and contents, so the assembler sees
  copies of the same spans, the earliest of which it keeps.
\<close>

theorem tool_steps_repeat:
  "\<exists>more. map toolContent (toolStepsFromMessages L (JArr (ms @ ms')) later) =
     map toolContent (toolStepsFromMessages L (JArr ms) call) @ more"
proof -
  obtain req' where "toolLoop L later (ms @ ms') Map.empty = toolLoop L later ms Map.empty @ toolLoop L later ms' req'"
    using toolLoop_append by blast
  then show ?thesis using toolLoop_content [of L later ms Map.empty call] by (auto simp: toolStepsFromMessages_def)
qed

section \<open>Answers\<close>

text \<open>What a callback did to the service can be read off the answer, as for the native API.\<close>

theorem hook_answer:
  assumes "handleHook L (onEnvelope D) rq (r, s) = (rsp, r', s')"
  shows "rsCode rsp \<in> {400, 401, 405, 413} \<and> s' = s \<or>
    (\<exists>body envs. readLimited (hoMaxRequestBytes (hrOpts r)) rq = Some body \<and>
      hookMap L (hoName (hrOpts r)) (hoMapping (hrOpts r)) body = Inr envs \<and>
      (rsCode rsp = 202 \<and> rsBody rsp = AcceptedCount (length envs) \<and> svAsm s' = assembledAll (rates s) envs (svAsm s) \<or>
       rsCode rsp \<in> {429, 503} \<and> rsRetryAfter rsp \<and>
         (\<exists>n < length envs. svAsm s' = assembledAll (rates s) (take n envs) (svAsm s))))"
proof -
  have "rsCode rsp \<in> {400, 401, 405, 413} \<and> s' = s \<or>
    (\<exists>body envs n. readLimited (hoMaxRequestBytes (hrOpts r)) rq = Some body \<and>
      hookMap L (hoName (hrOpts r)) (hoMapping (hrOpts r)) body = Inr envs \<and>
      (pushAll (onEnvelope D) envs s = (n, None, s') \<and> rsCode rsp = 202 \<and> rsBody rsp = AcceptedCount (length envs) \<or>
       (\<exists>er. pushAll (onEnvelope D) envs s = (n, Some er, s') \<and> rsCode rsp \<in> {429, 503} \<and> rsRetryAfter rsp)))"
    using assms by (auto simp: handleHook_def http_defs Let_def split: if_splits option.splits sum.splits prod.splits)
  then show ?thesis
  proof (elim disjE exE conjE)
    fix body envs n er
    assume "pushAll (onEnvelope D) envs s = (n, Some er, s')" "rsCode rsp \<in> {429, 503}" "rsRetryAfter rsp"
      "readLimited (hoMaxRequestBytes (hrOpts r)) rq = Some body" "hookMap L (hoName (hrOpts r)) (hoMapping (hrOpts r)) body = Inr envs"
    then show ?thesis using service_pushes_some [of D envs s n er s'] by blast
  qed (use service_pushes_all in blast)+
qed

section \<open>Witnesses\<close>

definition exMapping :: Mapping where
  "exMapping = \<lparr>mpName = ''gw'', mpVersion = ''1'', mpKind = ''fixed'', mpFixedKind = ''llm'',
     mpFields = [(''span_id'', [''$.id'']), (''session_key'', [''$.user'']), (''input'', [''$.messages'']), (''started_at'', [''$.at''])],
     mpToolSteps = ''openai_messages'', mpExclude = [], mpCompiled = [], mpRoots = {}\<rparr>"

definition exToolCall :: "string \<Rightarrow> json" where
  "exToolCall i = JObj [(''id'', JStr i), (''function'', JObj [(''name'', JStr ''f''), (''arguments'', JStr i)])]"

definition exToolResult :: "string \<Rightarrow> json" where
  "exToolResult i = JObj [(''role'', JStr ''tool''), (''tool_call_id'', JStr i), (''content'', JStr ''ok'')]"

definition exCallback :: json where
  "exCallback = JObj [(''id'', JStr ''c1''), (''user'', JStr ''u''), (''at'', JNum ''7''),
     (''messages'', JArr [JObj [(''role'', JStr ''assistant''), (''tool_calls'', JArr [exToolCall ''b'', exToolCall ''a''])],
        exToolResult ''b'', exToolResult ''a''])]"

definition exHookLib :: HookLib where
  "exHookLib = \<lparr>hlYaml = (\<lambda>_. Some exMapping),
     hlPath = (\<lambda>p. Some (\<lambda>doc. case jsonField doc (drop 2 p) of Some v \<Rightarrow> [v] | None \<Rightarrow> [])),
     hlParse = (\<lambda>_. Some exCallback), hlUnmarshal = (\<lambda>_. None), hlNumText = (\<lambda>t. t), hlNumValue = (\<lambda>_. 7),
     hlTime = \<lparr>timeParse = (\<lambda>_ _. None), parseFloat = (\<lambda>_. None), roundFloat = (\<lambda>x. x)\<rparr>, hlInt32 = truncRat, hlInt64 = truncRat\<rparr>"

lemma exMapping_parses:
  "\<exists>m envs. ParseMapping exHookLib [] = Inr m \<and> hookMap exHookLib ''a'' m [] = Inr envs \<and>
     map envSpanID envs = [''tool:b'', ''tool:a'', ''c1''] \<and> map (stStartedAt \<circ> envStep) envs = [6999999, 6999999, 7000000] \<and>
     orderedIDs (fst (absorbAll (map (\<lambda>e. (e, 0)) envs) exInFlight zeroStats)) = [''tool:a'', ''tool:b'', ''c1'']"
proof -
  have "case ParseMapping exHookLib [] of Inl e \<Rightarrow> False
    | Inr m \<Rightarrow> (case hookMap exHookLib ''a'' m [] of Inl e \<Rightarrow> False
        | Inr envs \<Rightarrow> map envSpanID envs = [''tool:b'', ''tool:a'', ''c1''] \<and>
            map (stStartedAt \<circ> envStep) envs = [6999999, 6999999, 7000000] \<and>
            orderedIDs (fst (absorbAll (map (\<lambda>e. (e, 0)) envs) exInFlight zeroStats)) = [''tool:a'', ''tool:b'', ''c1''])"
    by code_simp
  then show ?thesis by (auto split: sum.splits)
qed

theorem hook_envelopes_typed_witness:
  "\<exists>m envs. ParseMapping exHookLib [] = Inr m \<and> hookMap exHookLib ''a'' m [] = Inr envs \<and> length envs = 3 \<and> list_all (hookTyped ''a'') envs"
proof -
  obtain m envs where M: "ParseMapping exHookLib [] = Inr m" "hookMap exHookLib ''a'' m [] = Inr envs"
    "map envSpanID envs = [''tool:b'', ''tool:a'', ''c1'']" using exMapping_parses by auto
  then have "length envs = 3" by (metis length_map length_Cons list.size(3) numeral_3_eq_3)
  then show ?thesis using hook_envelopes_typed [OF M(1,2)] M by (auto simp: list_all_iff)
qed

text \<open>
  The tool steps of one call all carry one time, just before the call, so their order in the episode is
  that of their ids: two calls of tools that ran as \<open>b\<close>, \<open>a\<close> are stored as \<open>a\<close>, \<open>b\<close>.
\<close>

theorem tool_steps_ordered_by_id:
  "\<exists>m envs. ParseMapping exHookLib [] = Inr m \<and> hookMap exHookLib ''a'' m [] = Inr envs \<and>
     map envSpanID envs = [''tool:b'', ''tool:a'', ''c1''] \<and>
     orderedIDs (fst (absorbAll (map (\<lambda>e. (e, 0)) envs) exInFlight zeroStats)) = [''tool:a'', ''tool:b'', ''c1'']"
  using exMapping_parses by auto

theorem hook_answer_witness:
  "\<exists>s rsp r' s' r envs. exStart = Inr s \<and> handleHook exHookLib (onEnvelope exDeps) exRequest (r, s) = (rsp, r', s') \<and> rsCode rsp = 202 \<and>
     svAsm s' = assembledAll (rates s) envs (svAsm s)"
proof -
  have "case exStart of Inl e \<Rightarrow> False
    | Inr s \<Rightarrow> (case ParseMapping exHookLib [] of Inl e \<Rightarrow> False
       | Inr m \<Rightarrow> rsCode (fst (handleHook exHookLib (onEnvelope exDeps) exRequest
           (NewHook \<lparr>hoName = ''a'', hoPath = [], hoMapping = m, hoMaxRequestBytes = 0, hoAuthToken = []\<rparr>, s))) = 202)"
    by code_simp
  then obtain s m where S: "exStart = Inr s" "rsCode (fst (handleHook exHookLib (onEnvelope exDeps) exRequest
           (NewHook \<lparr>hoName = ''a'', hoPath = [], hoMapping = m, hoMaxRequestBytes = 0, hoAuthToken = []\<rparr>, s))) = 202"
    by (auto split: sum.splits)
  let ?r = "NewHook \<lparr>hoName = ''a'', hoPath = [], hoMapping = m, hoMaxRequestBytes = 0, hoAuthToken = []\<rparr>"
  obtain rsp r' s' where H: "handleHook exHookLib (onEnvelope exDeps) exRequest (?r, s) = (rsp, r', s')" by (metis prod_cases3)
  then have "rsCode rsp = 202" using S(2) by simp
  then have "\<exists>envs. svAsm s' = assembledAll (rates s) envs (svAsm s)" using hook_answer [OF H] by auto
  then show ?thesis using S(1) H \<open>rsCode rsp = 202\<close> by blast
qed

end
