(* ===== verification/Collector.thy ===== *)
theory Collector
  imports Filetail_Props Native_Props Otlp_Props Webhook_Props Config_Props
begin

text \<open>
  The running collector: the sources that \<^verbatim>\<open>New\<close> (\<^verbatim>\<open>src/collector/service/service.go\<close>) builds from the
  configuration with their TLS settings (\<^verbatim>\<open>src/collector/tlsconf/tlsconf.go\<close>), their servers around one
  service, and \<^verbatim>\<open>Run\<close>: every interleaving of requests, polls of files, timers, deliveries, reloads and
  the two ways of ending. Sockets and the loading of certificates are parameters; the answer to a
  request is its status code.
\<close>

section \<open>TLS\<close>

record SourceLib =
  slKeyPair :: "string \<Rightarrow> string \<Rightarrow> bool"
  slReadFile :: "string \<Rightarrow> string option"
  slHasCert :: "string \<Rightarrow> bool"
  slDecode :: "string \<Rightarrow> Convention option"
  slBuiltins :: "(string \<times> string) list"
  slReadDir :: "string \<Rightarrow> DirEntry list option"
  slNative :: Decoders
  slOtlp :: OtlpLib
  slHook :: HookLib
  slLine :: LineLib

datatype tlsError = BadKeyPair | UnreadableCA | EmptyCA

record ListenerTLS =
  ltMinVersion13 :: bool
  ltClientCertRequired :: bool

text \<open>No TLS is \<open>None\<close>; the suites for TLS 1.2 are fixed.\<close>

definition BuildTLS :: "SourceLib \<Rightarrow> TLSConfig \<Rightarrow> tlsError + ListenerTLS option" where
  "BuildTLS L c =
     (if \<not> tlsEnabled c then Inr None
      else if \<not> slKeyPair L (tlCertFile c) (tlKeyFile c) then Inl BadKeyPair
      else
        let cfg = \<lparr>ltMinVersion13 = (tlMinVersion c = ''1.3''), ltClientCertRequired = False\<rparr>
        in if tlClientCAFile c = [] then Inr (Some cfg)
           else
             (case slReadFile L (tlClientCAFile c) of
                None \<Rightarrow> Inl UnreadableCA
              | Some pem \<Rightarrow>
                  if \<not> slHasCert L pem then Inl EmptyCA
                  else Inr (Some (cfg\<lparr>ltClientCertRequired := True\<rparr>))))"

section \<open>Building the sources\<close>

text \<open>A tailed file source comes with the state file it owns.\<close>

datatype receiver =
    OtlpSource OtlpReceiver | NativeSource NativeReceiver | HookSource HookReceiver | FileSource Tailer tailStateFile

record BuiltSource =
  bsReceiver :: receiver
  bsHTTPTLS :: "ListenerTLS option"
  bsGRPCTLS :: "ListenerTLS option"

datatype sourceError =
    BadBuiltins mappingError | BadMappingsDir mappingError | BadTLS string tlsError | BadHookMapping string mapError

definition sourceToken :: "Sys \<Rightarrow> Source \<Rightarrow> string" where
  "sourceToken sys sc = (if soTokenEnv sc \<noteq> [] then getenv sys (soTokenEnv sc) else [])"

text \<open>The receiver of one source, given the conventions the service shares among its sources.\<close>

definition newReceiver :: "SourceLib \<Rightarrow> Sys \<Rightarrow> Config \<Rightarrow> tailStateFile \<Rightarrow> Source \<Rightarrow> sourceError + (Registry \<Rightarrow> receiver)" where
  "newReceiver L sys cfg disk sc =
     (if soType sc = ''webhook'' then
        (case LoadMapping (slHook L) (slReadFile L (soMapping sc)) of
           Inl e \<Rightarrow> Inl (BadHookMapping (soName sc) e)
         | Inr mp \<Rightarrow>
             Inr (\<lambda>reg. HookSource (NewHook \<lparr>hoName = soName sc, hoPath = soPath sc, hoMapping = mp,
               hoMaxRequestBytes = soMaxRequestBytes sc, hoAuthToken = sourceToken sys sc\<rparr>)))
      else if soType sc = ''file'' then
        Inr (\<lambda>reg. FileSource (NewTailer \<lparr>toName = soName sc, toInclude = soInclude sc, toStartAt = soStartAt sc,
          toPollInterval = soPollInterval sc, toStateDir = bcDir (cfBuffer cfg), toMaxLineBytes = 0\<rparr>) disk)
      else if soType sc = ''native'' then
        Inr (\<lambda>reg. NativeSource (NewNative \<lparr>noName = soName sc, noMaxRequestBytes = soMaxRequestBytes sc,
          noAuthToken = sourceToken sys sc\<rparr>))
      else
        Inr (\<lambda>reg. OtlpSource (NewOtlp \<lparr>ooName = soName sc, ooListen = soHTTPListen sc, ooGRPCListen = soGRPCListen sc,
          ooMaxRequestBytes = soMaxRequestBytes sc, ooSessionKeyOrder = acSessionKey (cfAssembly cfg), ooConventions = reg\<rparr>)))"

definition addMappings :: "SourceLib \<Rightarrow> Source \<Rightarrow> Registry \<Rightarrow> mappingError option \<times> Registry" where
  "addMappings L sc reg =
     (if soMappingsDir sc = [] then (None, reg)
      else LoadDir (slDecode L) (soMappingsDir sc) (slReadDir L (soMappingsDir sc)) reg)"

text \<open>
  The loop over the sources. There is one registry: an OTLP source holds a pointer to it, so it sees the
  mapping files of the sources after it as well; the registry of the result is what all of them use.
\<close>

fun buildSources ::
  "SourceLib \<Rightarrow> Sys \<Rightarrow> Config \<Rightarrow> (string \<Rightarrow> tailStateFile) \<Rightarrow> Source list \<Rightarrow> Registry
    \<Rightarrow> sourceError + BuiltSource list \<times> Registry"
where
  "buildSources L sys cfg disks [] reg = Inr ([], reg)"
| "buildSources L sys cfg disks (sc # scs) reg =
     (case addMappings L sc reg of
        (Some e, reg1) \<Rightarrow> Inl (BadMappingsDir e)
      | (None, reg1) \<Rightarrow>
          (case (BuildTLS L (soHTTPTLS sc), BuildTLS L (soGRPCTLS sc)) of
             (Inl e, _) \<Rightarrow> Inl (BadTLS (soName sc) e)
           | (_, Inl e) \<Rightarrow> Inl (BadTLS (soName sc) e)
           | (Inr http, Inr grpc) \<Rightarrow>
               (case newReceiver L sys cfg (disks (soName sc)) sc of
                  Inl e \<Rightarrow> Inl e
                | Inr rc \<Rightarrow>
                    (case buildSources L sys cfg disks scs reg1 of
                       Inl e \<Rightarrow> Inl e
                     | Inr (bs, reg2) \<Rightarrow> Inr (\<lparr>bsReceiver = rc reg2, bsHTTPTLS = http, bsGRPCTLS = grpc\<rparr> # bs, reg2)))))"

definition sourcesOf :: "SourceLib \<Rightarrow> Sys \<Rightarrow> (string \<Rightarrow> tailStateFile) \<Rightarrow> Config \<Rightarrow> sourceError + BuiltSource list" where
  "sourcesOf L sys disks cfg =
     (case LoadBuiltins (slDecode L) (slBuiltins L) of
        Inl e \<Rightarrow> Inl (BadBuiltins e)
      | Inr reg \<Rightarrow> map_sum id fst (buildSources L sys cfg disks (cfSources cfg) reg))"

section \<open>Serving\<close>

text \<open>
  The pattern of \<^verbatim>\<open>http.ServeMux\<close> a receiver registers: the path itself, or what is below a path that ends
  in a slash. A request for another path is answered with 404.
\<close>

definition routeMatches :: "string \<Rightarrow> string \<Rightarrow> bool" where
  "routeMatches pat path \<longleftrightarrow> path = pat \<or> has_suffix pat ''/'' \<and> has_prefix path pat"

text \<open>The code of the answer; a file source does not listen.\<close>

definition serveHTTP ::
  "SourceLib \<Rightarrow> ('l, 's) Deps \<Rightarrow> string \<Rightarrow> Request \<Rightarrow> receiver \<times> ('l, 's) Service
    \<Rightarrow> nat option \<times> receiver \<times> ('l, 's) Service"
where
  "serveHTTP L D path rq st =
     (case st of (rc, s) \<Rightarrow>
        (case rc of
           OtlpSource r \<Rightarrow>
             if \<not> routeMatches ''/v1/traces'' path then (Some 404, rc, s)
             else
               (case handleTraces (slOtlp L) True (onEnvelope D) rq (r, s) of
                  (rsp, r', s') \<Rightarrow> (Some (rsCode rsp), OtlpSource r', s'))
         | NativeSource r \<Rightarrow>
             (case serveNative (slNative L) (onEnvelope D) (Some (IngestOutcomes D)) path rq (r, s) of
                (rsp, r', s') \<Rightarrow> (Some (rsCode rsp), NativeSource r', s'))
         | HookSource r \<Rightarrow>
             if \<not> routeMatches (hoPath (hrOpts r)) path then (Some 404, rc, s)
             else
               (case handleHook (slHook L) (onEnvelope D) rq (r, s) of
                  (rsp, r', s') \<Rightarrow> (Some (rsCode rsp), HookSource r', s'))
         | FileSource t disk \<Rightarrow> (None, rc, s)))"

definition serveGRPC ::
  "SourceLib \<Rightarrow> ('l, 's) Deps \<Rightarrow> ResourceSpans list \<Rightarrow> receiver \<times> ('l, 's) Service
    \<Rightarrow> grpcStatus option \<times> receiver \<times> ('l, 's) Service"
where
  "serveGRPC L D td st =
     (case st of
        (OtlpSource r, s) \<Rightarrow>
          (case ExportTraces (slOtlp L) (onEnvelope D) td (r, s) of (code, r', s') \<Rightarrow> (Some code, OtlpSource r', s'))
      | _ \<Rightarrow> (None, st))"

definition beginTail :: "TailEnv \<Rightarrow> receiver \<Rightarrow> receiver" where
  "beginTail E rc =
     (case rc of
        FileSource t disk \<Rightarrow> (case startTail E t disk of (t', disk') \<Rightarrow> FileSource t' disk')
      | _ \<Rightarrow> rc)"

definition pollSource ::
  "SourceLib \<Rightarrow> ('l, 's) Deps \<Rightarrow> TailEnv \<Rightarrow> receiver \<times> ('l, 's) Service \<Rightarrow> receiver \<times> ('l, 's) Service"
where
  "pollSource L D E st =
     (case st of
        (FileSource t disk, s) \<Rightarrow>
          (case pollOnce (slLine L) E (onEnvelope D) ((t, s), disk) of (er, (t', s'), disk') \<Rightarrow> (FileSource t' disk', s'))
      | _ \<Rightarrow> st)"

text \<open>
  \<^verbatim>\<open>Start\<close> of an OTLP source, from the results of the transports that have ended so far, in order: it
  returns when all of them have, with the first error.
\<close>

datatype startError = NoListener | TransportFailed string

definition startOtlp :: "OtlpOptions \<Rightarrow> string option list \<Rightarrow> startError option option" where
  "startOtlp o0 ended =
     (case otlpTransports o0 of
        None \<Rightarrow> Some (Some NoListener)
      | Some ts \<Rightarrow>
          if length ended < length ts then None
          else Some (map_option (\<lambda>e. TransportFailed (the e)) (find (\<lambda>e. e \<noteq> None) (take (length ts) ended))))"

section \<open>Counters of the sources\<close>

text \<open>\<^verbatim>\<open>Name\<close> with \<^verbatim>\<open>BytesReceived\<close>, which all sources have, and with \<^verbatim>\<open>Rejected\<close>, which the tailer has not.\<close>

definition bytesReceived :: "receiver \<Rightarrow> string \<times> int" where
  "bytesReceived rc =
     (case rc of
        OtlpSource r \<Rightarrow> (ooName (orOpts r), orBytes r)
      | NativeSource r \<Rightarrow> (noName (nrOpts r), nrBytes r)
      | HookSource r \<Rightarrow> (hoName (hrOpts r), hrBytes r)
      | FileSource t disk \<Rightarrow> (toName (tlOpts t), int (tlBytes t)))"

definition rejectedOf :: "receiver \<Rightarrow> (string \<times> int) option" where
  "rejectedOf rc =
     (case rc of
        OtlpSource r \<Rightarrow> Some (ooName (orOpts r), orRejected r)
      | NativeSource r \<Rightarrow> Some (noName (nrOpts r), nrRejected r)
      | HookSource r \<Rightarrow> Some (hoName (hrOpts r), hrRejected r)
      | FileSource t disk \<Rightarrow> None)"

section \<open>Runs\<close>

record ('l, 's) Collector =
  clService :: "('l, 's) Service"
  clSources :: "BuiltSource list"

definition setSource :: "nat \<Rightarrow> receiver \<times> ('l, 's) Service \<Rightarrow> ('l, 's) Collector \<Rightarrow> ('l, 's) Collector" where
  "setSource i st c =
     \<lparr>clService = snd st, clSources = (clSources c)[i := (clSources c ! i)\<lparr>bsReceiver := fst st\<rparr>]\<rparr>"

definition sourceAt :: "('l, 's) Collector \<Rightarrow> nat \<Rightarrow> receiver \<times> ('l, 's) Service" where
  "sourceAt c i = (bsReceiver (clSources c ! i), clService c)"

definition tickAll :: "('l, 's) Deps \<Rightarrow> bool \<Rightarrow> ('l, 's) Collector \<Rightarrow> ('l, 's) Collector" where
  "tickAll D ok c =
     (let rcs = map bsReceiver (clSources c)
      in c\<lparr>clService := tickExpire D ok (map bytesReceived rcs) (List.map_filter rejectedOf rcs) (clService c)\<rparr>)"

text \<open>
  \<open>collectorRun L D C c\<close>: from a start with a configuration in \<open>C\<close>, any interleaving of what the sources
  and the loop of \<^verbatim>\<open>Run\<close> do leads to \<open>c\<close>.
\<close>

inductive collectorRun :: "SourceLib \<Rightarrow> ('l, 's) Deps \<Rightarrow> Config set \<Rightarrow> ('l, 's) Collector \<Rightarrow> bool" for L D C where
  start: "cfg \<in> C \<Longrightarrow> NewService D schemaText aesGCM lockFree dk st cfg = Inr s \<Longrightarrow>
    sourcesOf L (dpSys D) disks cfg = Inr srcs \<Longrightarrow>
    collectorRun L D C \<lparr>clService = recordInFlight ok False s, clSources = srcs\<rparr>"
| request: "collectorRun L D C c \<Longrightarrow> i < length (clSources c) \<Longrightarrow>
    serveHTTP L D path rq (sourceAt c i) = (code, st) \<Longrightarrow> collectorRun L D C (setSource i st c)"
| export: "collectorRun L D C c \<Longrightarrow> i < length (clSources c) \<Longrightarrow>
    serveGRPC L D td (sourceAt c i) = (status, st) \<Longrightarrow> collectorRun L D C (setSource i st c)"
| tail: "collectorRun L D C c \<Longrightarrow> i < length (clSources c) \<Longrightarrow>
    collectorRun L D C (setSource i (apfst (beginTail E) (sourceAt c i)) c)"
| poll: "collectorRun L D C c \<Longrightarrow> i < length (clSources c) \<Longrightarrow>
    collectorRun L D C (setSource i (pollSource L D E (sourceAt c i)) c)"
| expiry: "collectorRun L D C c \<Longrightarrow> collectorRun L D C (tickAll D ok c)"
| syncing: "collectorRun L D C c \<Longrightarrow> collectorRun L D C (c\<lparr>clService := tickSync D (clService c)\<rparr>)"
| flushing: "collectorRun L D C c \<Longrightarrow> collectorRun L D C (c\<lparr>clService := tickFlush D (clService c)\<rparr>)"
| delivery: "collectorRun L D C c \<Longrightarrow> drainBuffer D fuel (clService c) = Some (er, s') \<Longrightarrow>
    collectorRun L D C (c\<lparr>clService := s'\<rparr>)"
| reload: "collectorRun L D C c \<Longrightarrow> Reload D next (clService c) = (r, s') \<Longrightarrow> next \<in> C \<Longrightarrow>
    collectorRun L D C (c\<lparr>clService := s'\<rparr>)"
| stop: "collectorRun L D C c \<Longrightarrow> drain D fuel ok (clService c) = Some s' \<Longrightarrow> collectorRun L D C (c\<lparr>clService := s'\<rparr>)"
| shutdown: "collectorRun L D C c \<Longrightarrow> collectorRun L D C (c\<lparr>clService := snd (ShutdownService D (clService c))\<rparr>)"

section \<open>What handlers keep\<close>

text \<open>
  A property of the pipeline's state that one envelope cannot break is kept by every handler of every
  source, whatever it answers; a source reaches the pipeline through \<^verbatim>\<open>next\<close> only, and the native
  source through the outcomes as well.
\<close>

locale pipeline_keeps =
  fixes nxt :: "Envelope \<Rightarrow> 's \<Rightarrow> ingestError option \<times> 's"
    and kept :: "'s \<Rightarrow> bool"
  assumes one_envelope: "kept s \<Longrightarrow> nxt env s = (er, s') \<Longrightarrow> kept s'"
begin

lemma pushAll_keeps: "kept s \<Longrightarrow> pushAll nxt envs s = (n, er, s') \<Longrightarrow> kept s'"
proof (induction envs arbitrary: s n)
  case (Cons env envs)
  obtain r s1 where N: "nxt env s = (r, s1)" by force
  then have "kept s1" using Cons.prems(1) one_envelope by blast
  then show ?case using Cons N by (cases r) (auto split: prod.splits)
qed simp

lemma handleTraces_keeps: "kept s \<Longrightarrow> handleTraces L ok nxt rq (r, s) = (rsp, r', s') \<Longrightarrow> kept s'"
  by (auto simp: handleTraces_def dispatch_def Let_def split: if_splits option.splits prod.splits dest: pushAll_keeps)

lemma ExportTraces_keeps: "kept s \<Longrightarrow> ExportTraces L nxt td (r, s) = (code, r', s') \<Longrightarrow> kept s'"
  by (auto simp: ExportTraces_def dispatch_def split: option.splits prod.splits dest: pushAll_keeps)

lemma handleHook_keeps: "kept s \<Longrightarrow> handleHook L nxt rq (r, s) = (rsp, r', s') \<Longrightarrow> kept s'"
  by (auto simp: handleHook_def Let_def split: if_splits option.splits sum.splits prod.splits dest: pushAll_keeps)

lemma handleLine_keeps: "kept s \<Longrightarrow> handleLine L nxt raw (t, s) = (er, t', s') \<Longrightarrow> kept s'"
  by (auto simp: handleLine_def Let_def split: lineResult.splits option.splits prod.splits dest: pushAll_keeps)

lemma tailLoop_keeps: "kept s \<Longrightarrow> tailLoop L nxt rest off (t, s) = (er, n, t', s') \<Longrightarrow> kept s'"
proof (induction "length rest" arbitrary: rest off t s rule: less_induct)
  case less
  show ?case
  proof (cases "CHR 0x0A \<in> set rest")
    case False
    then show ?thesis using less.prems by (simp add: tailLoop.simps)
  next
    case True
    obtain r t1 s1 where H: "handleLine L nxt (firstLine rest) (t, s) = (r, t1, s1)" by (metis prod_cases3)
    then have "kept s1" using less.prems(1) handleLine_keeps by blast
    then show ?thesis
      using less.prems(2) less.hyps [OF firstLine_shorter [OF True]] True H
      by (cases r) (auto simp: tailLoop.simps [of _ _ rest])
  qed
qed

lemma readFile_keeps: "kept s \<Longrightarrow> readFile L E nxt path (t, s) = (er, t', s') \<Longrightarrow> kept s'"
  by (auto simp: readFile_def Let_def split: option.splits prod.splits if_splits dest: tailLoop_keeps)

lemma readFiles_keeps: "kept s \<Longrightarrow> readFiles L E nxt paths (t, s) = (er, t', s') \<Longrightarrow> kept s'"
proof (induction paths arbitrary: t s)
  case (Cons path paths)
  obtain r t1 s1 where F: "readFile L E nxt path (t, s) = (r, t1, s1)" by (metis prod_cases3)
  then have "kept s1" using Cons.prems(1) readFile_keeps by blast
  then show ?case using Cons F by (cases r) auto
qed simp

lemma pollOnce_keeps: "kept s \<Longrightarrow> pollOnce L E nxt ((t, s), disk) = (er, (t', s'), disk') \<Longrightarrow> kept s'"
  by (auto simp: pollOnce_def split: option.splits prod.splits dest: readFiles_keeps)

lemma pushEpisodes_keeps: "kept s \<Longrightarrow> pushEpisodes nxt now name j steps eps s = (r, s') \<Longrightarrow> kept s'"
proof (induction eps arbitrary: j steps s)
  case (Cons ep eps)
  show ?case
  proof (cases "ToEnvelopes (now j) name ep")
    case (Inr envs)
    obtain n er s1 where P: "pushAll nxt envs s = (n, er, s1)" by (metis prod_cases3)
    then have "kept s1" using Cons.prems(1) pushAll_keeps by blast
    then show ?thesis using Cons Inr P by (cases er) auto
  qed (use Cons.prems in simp)
qed simp

lemma handleEpisodes_keeps: "kept s \<Longrightarrow> handleEpisodes L nxt rq (r, s) = (rsp, r', s') \<Longrightarrow> kept s'"
  by (auto simp: handleEpisodes_def split: if_splits option.splits sum.splits prod.splits batchEnd.splits dest: pushEpisodes_keeps)

lemma handleSpans_keeps: "kept s \<Longrightarrow> handleSpans L nxt rq (r, s) = (rsp, r', s') \<Longrightarrow> kept s'"
  by (auto simp: handleSpans_def split: if_splits option.splits sum.splits prod.splits dest: pushAll_keeps)

end

locale ingest_keeps = pipeline_keeps nxt kept
  for nxt :: "Envelope \<Rightarrow> 's \<Rightarrow> ingestError option \<times> 's" and kept :: "'s \<Rightarrow> bool" +
  fixes outs :: "string \<Rightarrow> WireOutcome list \<Rightarrow> 's \<Rightarrow> (ingestError + nat) \<times> 's"
  assumes one_load: "kept s \<Longrightarrow> outs src ws s = (res, s') \<Longrightarrow> kept s'"
begin

lemma handleOutcomes_keeps: "kept s \<Longrightarrow> handleOutcomes L (Some outs) rq (r, s) = (rsp, r', s') \<Longrightarrow> kept s'"
  by (auto simp: handleOutcomes_def split: if_splits option.splits sum.splits prod.splits dest: one_load)

lemma serveNative_keeps: "kept s \<Longrightarrow> serveNative L nxt (Some outs) path rq (r, s) = (rsp, r', s') \<Longrightarrow> kept s'"
  by (auto simp: serveNative_def auth_def Let_def split: if_splits
      dest: handleEpisodes_keeps handleSpans_keeps handleOutcomes_keeps)

end

text \<open>The states of a run of the service are such a property.\<close>

interpretation run: ingest_keeps "onEnvelope D" "svcRun D C" "IngestOutcomes D" for D C
  by unfold_locales (auto intro: svcRun.envelope svcRun.outcomes)

lemma serveHTTP_keeps: "svcRun D C s \<Longrightarrow> serveHTTP L D path rq (rc, s) = (code, rc', s') \<Longrightarrow> svcRun D C s'"
  by (auto simp: serveHTTP_def split: receiver.splits if_splits prod.splits
      dest: run.handleTraces_keeps run.serveNative_keeps run.handleHook_keeps)

lemma serveGRPC_keeps: "svcRun D C s \<Longrightarrow> serveGRPC L D td (rc, s) = (status, rc', s') \<Longrightarrow> svcRun D C s'"
  by (auto simp: serveGRPC_def split: receiver.splits prod.splits dest: run.ExportTraces_keeps)

lemma pollSource_keeps: "svcRun D C s \<Longrightarrow> pollSource L D E (rc, s) = (rc', s') \<Longrightarrow> svcRun D C s'"
  by (auto simp: pollSource_def split: receiver.splits prod.splits dest: run.pollOnce_keeps)

lemma setSource_service [simp]: "clService (setSource i st c) = snd st"
  by (simp add: setSource_def)

text \<open>The collector refines the service: whatever its sources do, its service is in a state of a run.\<close>

lemma collector_service: "collectorRun L D C c \<Longrightarrow> svcRun D C (clService c)"
proof (induction rule: collectorRun.induct)
  case (start cfg schemaText aesGCM lockFree dk st s disks srcs ok)
  then show ?case by (auto intro: svcRun.marking svcRun.start)
next
  case (request c i path rq code st)
  then show ?case by (cases st) (auto simp: sourceAt_def dest: serveHTTP_keeps)
next
  case (export c i td status st)
  then show ?case by (cases st) (auto simp: sourceAt_def dest: serveGRPC_keeps)
next
  case (tail c i E)
  then show ?case by (simp add: sourceAt_def)
next
  case (poll c i E)
  then show ?case
    by (cases "pollSource L D E (sourceAt c i)") (auto simp: sourceAt_def dest: pollSource_keeps)
next
  case (expiry c ok)
  then show ?case by (auto simp: tickAll_def Let_def intro: svcRun.expiry)
qed (auto intro: svcRun.intros)

section \<open>The sources of a run\<close>

definition builtFor :: "Sys \<Rightarrow> Source \<Rightarrow> receiver \<Rightarrow> bool" where
  "builtFor sys sc rc \<longleftrightarrow>
     (case rc of
        NativeSource r \<Rightarrow> soType sc = ''native'' \<and> noAuthToken (nrOpts r) = sourceToken sys sc
      | HookSource r \<Rightarrow> soType sc = ''webhook'' \<and> hoAuthToken (hrOpts r) = sourceToken sys sc
      | FileSource t disk \<Rightarrow> soType sc = ''file''
      | OtlpSource r \<Rightarrow> soType sc \<notin> {''native'', ''webhook'', ''file''})"

lemma newReceiver_fits: "newReceiver L sys cfg disk sc = Inr rc \<Longrightarrow> builtFor sys sc (rc reg)"
  by (auto simp: newReceiver_def builtFor_def NewNative_def NewHook_def Let_def split: if_splits sum.splits)

lemma buildSources_fit:
  "buildSources L sys cfg disks scs reg = Inr (bs, reg') \<Longrightarrow> list_all2 (\<lambda>sc b. builtFor sys sc (bsReceiver b)) scs bs"
proof (induction scs arbitrary: reg bs)
  case (Cons sc scs)
  obtain reg1 http grpc rc bs1 where "newReceiver L sys cfg (disks (soName sc)) sc = Inr rc"
    "buildSources L sys cfg disks scs reg1 = Inr (bs1, reg')"
    "bs = \<lparr>bsReceiver = rc reg', bsHTTPTLS = http, bsGRPCTLS = grpc\<rparr> # bs1"
    using Cons.prems by (auto split: prod.splits option.splits sum.splits)
  then show ?case using Cons.IH newReceiver_fits by simp
qed simp

lemma serveNative_opts: "serveNative L nxt outs path rq (r, s) = (rsp, r', s') \<Longrightarrow> nrOpts r' = nrOpts r"
  by (auto simp: serveNative_def auth_def handleEpisodes_def handleSpans_def handleOutcomes_def readBody_def countRejected_def Let_def
      split: if_splits option.splits sum.splits prod.splits batchEnd.splits)

lemma handleHook_opts: "handleHook L nxt rq (r, s) = (rsp, r', s') \<Longrightarrow> hrOpts r' = hrOpts r"
  by (auto simp: handleHook_def rejectHook_def Let_def split: if_splits option.splits sum.splits prod.splits)

lemma serveHTTP_fits: "builtFor sys sc rc \<Longrightarrow> serveHTTP L D path rq (rc, s) = (code, rc', s') \<Longrightarrow> builtFor sys sc rc'"
  by (auto simp: serveHTTP_def builtFor_def split: receiver.splits if_splits prod.splits dest!: serveNative_opts handleHook_opts)

lemma serveGRPC_fits: "builtFor sys sc rc \<Longrightarrow> serveGRPC L D td (rc, s) = (code, rc', s') \<Longrightarrow> builtFor sys sc rc'"
  by (auto simp: serveGRPC_def builtFor_def split: receiver.splits prod.splits)

lemma tail_fits:
  "builtFor sys sc rc \<Longrightarrow> builtFor sys sc (beginTail E rc)"
  "builtFor sys sc rc \<Longrightarrow> builtFor sys sc (fst (pollSource L D E (rc, s)))"
  by (auto simp: beginTail_def pollSource_def builtFor_def split: receiver.splits prod.splits)

definition allFit :: "Sys \<Rightarrow> Config \<Rightarrow> ('l, 's) Collector \<Rightarrow> bool" where
  "allFit sys cfg c \<longleftrightarrow> list_all2 (\<lambda>sc b. builtFor sys sc (bsReceiver b)) (cfSources cfg) (clSources c)"

lemma allFit_set:
  assumes "allFit sys cfg c" and "i < length (clSources c)"
    and "builtFor sys (cfSources cfg ! i) (bsReceiver (clSources c ! i)) \<Longrightarrow> builtFor sys (cfSources cfg ! i) (fst st)"
  shows "allFit sys cfg (setSource i st c)"
  using assms by (auto simp: allFit_def setSource_def list_all2_conv_all_nth nth_list_update)

lemma allFit_service [simp]: "allFit sys cfg (clService_update f c) = allFit sys cfg c"
  by (simp add: allFit_def)

lemma collector_fits: "collectorRun L D C c \<Longrightarrow> \<exists>cfg \<in> C. allFit (dpSys D) cfg c"
proof (induction rule: collectorRun.induct)
  case (start cfg schemaText aesGCM lockFree dk st s disks srcs ok)
  from start.hyps(3) obtain reg reg' where "buildSources L (dpSys D) cfg disks (cfSources cfg) reg = Inr (srcs, reg')"
    by (cases "LoadBuiltins (slDecode L) (slBuiltins L)")
      (auto simp: sourcesOf_def map_sum_def split: sum.splits)
  from buildSources_fit [OF this] start.hyps(1) show ?case by (auto simp: allFit_def)
next
  case (request c i path rq code st)
  then obtain cfg where "cfg \<in> C" "allFit (dpSys D) cfg c" by blast
  then show ?case
    using request.hyps by (cases st) (auto simp: sourceAt_def intro!: bexI [of _ cfg] allFit_set dest: serveHTTP_fits)
next
  case (export c i td status st)
  then obtain cfg where "cfg \<in> C" "allFit (dpSys D) cfg c" by blast
  then show ?case
    using export.hyps by (cases st) (auto simp: sourceAt_def intro!: bexI [of _ cfg] allFit_set dest: serveGRPC_fits)
next
  case (tail c i E)
  then show ?case by (auto simp: sourceAt_def intro!: allFit_set tail_fits(1))
next
  case (poll c i E)
  then show ?case by (auto simp: sourceAt_def intro!: allFit_set tail_fits(2))
qed (auto simp: tickAll_def Let_def)

section \<open>Credentials\<close>

lemma bearer_has_token:
  assumes "Validate sys cfg = []" and "sc \<in> set (cfSources cfg)" and "soAuthType sc = ''bearer''"
  shows "sourceToken sys sc \<noteq> []"
proof -
  have "validateSourceList sys 0 (cfSources cfg) ([], []) = []"
    using assms(1) by (simp add: Validate_def validateSources_def)
  moreover have "validateSourceList sys i scs (seen, taken) = [] \<Longrightarrow> sc \<in> set scs \<Longrightarrow> \<exists>k. validateAuth sys k sc = []" for i scs seen taken
  proof (induction scs arbitrary: i seen taken)
    case (Cons x scs)
    then show ?case by (auto simp: validateSource_def Let_def split: prod.splits)
  qed simp
  ultimately obtain k where "validateAuth sys k sc = []" using assms(2) by blast
  then show ?thesis using assms(3) by (auto simp: validateAuth_def sourceToken_def bad_iff split: if_splits)
qed

lemma wrong_credentials:
  assumes "builtFor sys sc rc" and "soType sc \<in> {''native'', ''webhook''}" and "sourceToken sys sc \<noteq> []"
    and "rqAuthorization rq \<noteq> ''Bearer '' @ sourceToken sys sc" and "serveHTTP L D path rq (rc, s) = (code, rc', s')"
  shows "s' = s \<and> code \<in> {Some 401, Some 404, Some 405}"
  using assms
  by (auto simp: builtFor_def serveHTTP_def serveNative_def auth_def handleHook_def Let_def http_defs
      split: receiver.splits if_splits)


text \<open>
  C39. An OTLP source does not look at its credentials: the receiver is the same for every setting of
  \<^verbatim>\<open>auth\<close>, and its answer to a request is the same whatever the request carries.
\<close>

theorem otlp_ignores_bearer:
  assumes "soType sc \<notin> {''native'', ''webhook'', ''file''}" and "newReceiver L sys cfg disk sc = Inr rc"
  shows "newReceiver L sys cfg disk (sc\<lparr>soAuthType := a, soTokenEnv := v\<rparr>) = Inr rc
    \<and> serveHTTP L D path (rq\<lparr>rqAuthorization := h\<rparr>) (rc reg, s) = serveHTTP L D path rq (rc reg, s)"
  using assms by (auto simp: newReceiver_def serveHTTP_def handleTraces_def readLimited_def)

section \<open>The two ends of a run\<close>


text \<open>
  When a source fails, \<^verbatim>\<open>Run\<close> returns its error without the drain and \<^verbatim>\<open>Shutdown\<close> follows: what is open in
  the assembler stays there, while the process ends.
\<close>

theorem failed_source_abandons_open: "svAsm (snd (ShutdownService D s)) = svAsm s"
  by (rule ShutdownService_frame)

text \<open>
  \<^verbatim>\<open>Start\<close> of an OTLP source with two transports does not return when the first one fails: the service
  stays ready with half of the source.
\<close>

theorem one_transport_down_unreported:
  assumes "ooListen o0 \<noteq> []" and "ooGRPCListen o0 \<noteq> []"
  shows "startOtlp o0 [Some e] = None"
  using assms by (simp add: startOtlp_def otlpTransports_def)

text \<open>Every OTLP source uses the mapping files of all sources, also of the ones after it.\<close>

theorem mappings_shared:
  "buildSources L sys cfg disks scs reg = Inr (bs, reg') \<Longrightarrow>
     \<forall>b \<in> set bs. case bsReceiver b of OtlpSource r \<Rightarrow> ooConventions (orOpts r) = reg' | _ \<Rightarrow> True"
proof (induction scs arbitrary: reg bs)
  case (Cons sc scs)
  obtain reg1 http grpc rc bs1 where B: "newReceiver L sys cfg (disks (soName sc)) sc = Inr rc"
    "buildSources L sys cfg disks scs reg1 = Inr (bs1, reg')"
    "bs = \<lparr>bsReceiver = rc reg', bsHTTPTLS = http, bsGRPCTLS = grpc\<rparr> # bs1"
    using Cons.prems by (auto split: prod.splits option.splits sum.splits)
  have "case rc reg' of OtlpSource r \<Rightarrow> ooConventions (orOpts r) = reg' | _ \<Rightarrow> True"
    using B(1) by (auto simp: newReceiver_def NewOtlp_def split: if_splits sum.splits)
  then show ?case using Cons.IH [OF B(2)] B(3) by simp
qed simp

section \<open>Examples\<close>

definition exSourceLib :: SourceLib where
  "exSourceLib =
     \<lparr>slKeyPair = (\<lambda>_ _. True), slReadFile = (\<lambda>_. Some []), slHasCert = (\<lambda>_. True), slDecode = builtinDecode,
      slBuiltins = builtinFiles, slReadDir = (\<lambda>_. None), slNative = exDecoders, slOtlp = exOtlpLib, slHook = exHookLib,
      slLine = exLineLib\<rparr>"

definition exStateless :: "string \<Rightarrow> tailStateFile" where
  "exStateless name = NoStateFile"

text \<open>A source with a token on a listener with TLS.\<close>

definition exSecured :: "string \<Rightarrow> Config" where
  "exSecured ty = configDefaults (exConfig\<lparr>cfSources := [exSource\<lparr>soType := ty, soAuthType := ''bearer'', soTokenEnv := ''KEY'',
     soHTTPTLS := \<lparr>tlCertFile = ''c'', tlKeyFile = ''k'', tlClientCAFile = [], tlMinVersion = ''1.3''\<rparr>\<rparr>]\<rparr>)"

definition exAEAD :: "byte list \<Rightarrow> AEAD" where
  "exAEAD k = \<lparr>NonceSize = 0, SealFn = (\<lambda>_ p. p), OpenFn = (\<lambda>_ p. Some p)\<rparr>"

definition exStartWith :: "Config \<Rightarrow> newError + (unit, FSStore) Service" where
  "exStartWith cfg = NewService exDeps (\<lambda>t. t) exAEAD True (workingDisk [] NoState) (exStore (\<lambda>_. exCalls)) cfg"

lemma exCollector_starts:
  assumes "exStartWith cfg = Inr s" and "sourcesOf exSourceLib exSys exStateless cfg = Inr srcs"
  shows "collectorRun exSourceLib exDeps {cfg} \<lparr>clService = recordInFlight True False s, clSources = srcs\<rparr>"
  using assms by (auto intro!: collectorRun.start simp: exStartWith_def exDeps_def)


text \<open>The same configuration for an OTLP source is accepted, and a request without the token is taken.\<close>

theorem otlp_ignores_bearer_witness:
  "Validate exSys (exSecured ''otlp'') = [] \<and> sourceToken exSys (hd (cfSources (exSecured ''otlp''))) = ''secret'' \<and>
   (\<exists>s st rc. exStart = Inr s \<and>
      newReceiver exSourceLib exSys (exSecured ''otlp'') NoStateFile (hd (cfSources (exSecured ''otlp''))) = Inr rc \<and>
      (\<forall>h. serveHTTP exSourceLib exDeps ''/v1/traces'' (exRequest\<lparr>rqAuthorization := h\<rparr>) (rc builtinRegistry, s) = (Some 200, st)))"
proof -
  let ?sc = "hd (cfSources (exSecured ''otlp''))"
  have "Validate exSys (exSecured ''otlp'') = []" "sourceToken exSys ?sc = ''secret''" by code_simp+
  moreover have "case exStart of Inl e \<Rightarrow> False
    | Inr s \<Rightarrow> (case newReceiver exSourceLib exSys (exSecured ''otlp'') NoStateFile ?sc of Inl e \<Rightarrow> False
        | Inr rc \<Rightarrow> fst (serveHTTP exSourceLib exDeps ''/v1/traces'' exRequest (rc builtinRegistry, s)) = Some 200)"
    by code_simp
  then obtain s rc st where S: "exStart = Inr s" "newReceiver exSourceLib exSys (exSecured ''otlp'') NoStateFile ?sc = Inr rc"
    "serveHTTP exSourceLib exDeps ''/v1/traces'' exRequest (rc builtinRegistry, s) = (Some 200, st)"
    by (auto split: sum.splits) (metis prod.collapse)
  moreover have "soType ?sc \<notin> {''native'', ''webhook'', ''file''}" by code_simp
  ultimately show ?thesis using otlp_ignores_bearer [OF _ S(2)] by metis
qed


end
