(* ===== verification/Importers.thy ===== *)
theory Importers
  imports Native Otlp
begin

text \<open>
  The importers of historical exports (\<^verbatim>\<open>src/importers\<close>): the statistics with their capped warnings, the
  registry of formats, the newline-delimited and the single-document native formats, the loose
  decoding the vendor formats share, and the three vendor formats. An importer reads a whole export
  and hands envelopes to \<^verbatim>\<open>emit\<close>, which is an argument, as the pipeline's entry point is elsewhere.

  The JSON decoders, \<^verbatim>\<open>time.Parse\<close>, the printing of floating-point numbers and the built-in conventions are
  fields of \<open>ImportLib\<close>. A warning is the values it prints. In a decoded \<^verbatim>\<open>any\<close> a number is the text
  \<^verbatim>\<open>Marshal\<close> prints for it, and \<open>ilNumber\<close> is its value.
\<close>

section \<open>Statistics\<close>

datatype importWarning =
    WarnLine nat wireError | WarnEpisode nat wireError | WarnRecord nat | WarnNoGroup nat | WarnTime nat string
  | WarnSuppressed

record ImportStats =
  isRecords :: int
  isSpans :: int
  isSkipped :: int
  isWarnings :: "importWarning list"

definition noStats :: ImportStats where
  "noStats = \<lparr>isRecords = 0, isSpans = 0, isSkipped = 0, isWarnings = []\<rparr>"

definition maxWarnings :: nat where "maxWarnings = 20"

definition Warn :: "importWarning \<Rightarrow> ImportStats \<Rightarrow> ImportStats" where
  "Warn w st =
     (let st1 = st\<lparr>isSkipped := isSkipped st + 1\<rparr>
      in if length (isWarnings st1) < maxWarnings then st1\<lparr>isWarnings := isWarnings st1 @ [w]\<rparr>
         else if length (isWarnings st1) = maxWarnings then st1\<lparr>isWarnings := isWarnings st1 @ [WarnSuppressed]\<rparr>
         else st1)"

text \<open>What ends an import early.\<close>

datatype looseError = EmptyInput | BadArray | NothingParsed

datatype 'e importError =
    ReadError | LineTooLong | BadExport looseError | BadDocument wireError | NoConventions mappingError | Refused 'e

section \<open>Input and library\<close>

text \<open>The bytes a reader gives, and whether it ends with an error instead of the end of the file.\<close>

record ImportReader =
  irText :: string
  irFault :: bool

definition readAll :: "ImportReader \<Rightarrow> string option" where
  "readAll r = (if irFault r then None else Some (irText r))"

record LangfuseObservation =
  lgID :: string
  lgTraceID :: string
  lgParentObservationID :: string
  lgType :: string
  lgName :: string
  lgStartTime :: string
  lgEndTime :: string
  lgModel :: string
  lgInput :: string
  lgOutput :: string
  lgLevel :: string
  lgStatusMessage :: string
  lgSessionID :: string
  lgTemperature :: "rat option"
  lgTopP :: "rat option"
  lgMaxTokens :: "int option"
  lgUsageInput :: "int option"
  lgUsageOutput :: "int option"
  lgMetadata :: "(string, json) gomap"

record LangsmithRun =
  luID :: string
  luName :: string
  luRunType :: string
  luParentRunID :: string
  luTraceID :: string
  luSessionID :: string
  luStartTime :: string
  luEndTime :: string
  luInputs :: string
  luOutputs :: string
  luError :: string
  luModel :: string
  luModelName :: string
  luTemperature :: "rat option"
  luTopP :: "rat option"
  luMaxTokens :: "int option"
  luSeed :: "int option"
  luStop :: "string list"
  luMetadata :: "(string, json) gomap"

record PhoenixSpan =
  phContextTraceID :: string
  phContextSpanID :: string
  phSpanID :: string
  phTraceID :: string
  phParentID :: string
  phName :: string
  phStartTime :: string
  phEndTime :: string
  phStatusCode :: string
  phStatusMessage :: string
  phAttributes :: "(string, json) gomap"

record ImportLib =
  ilDecoders :: Decoders
  ilNorm :: NormLib
  ilArray :: "string \<Rightarrow> string list option"
  ilObject :: "string \<Rightarrow> (string \<rightharpoonup> string) option"
  ilObservation :: "string \<Rightarrow> LangfuseObservation option"
  ilRun :: "string \<Rightarrow> LangsmithRun option"
  ilPhoenix :: "string \<Rightarrow> PhoenixSpan option"
  ilTime :: "string \<Rightarrow> string \<Rightarrow> int option"
  ilNumber :: "string \<Rightarrow> rat"
  ilFormatFloat :: "rat \<Rightarrow> string"
  ilBuiltins :: "mappingError + Registry"

section \<open>Native formats\<close>

text \<open>
  The loop over decoded episodes; \<open>warn\<close> makes the warning for an episode that has no envelopes, and
  the first number selects the clock readings for steps without times.
\<close>

fun importEpisodes ::
  "ImportLib \<Rightarrow> (Envelope \<Rightarrow> 's \<Rightarrow> 'e option \<times> 's) \<Rightarrow> string \<Rightarrow> (nat \<Rightarrow> wireError \<Rightarrow> importWarning) \<Rightarrow> nat \<Rightarrow> nat
    \<Rightarrow> WireEpisode list \<Rightarrow> ImportStats \<Rightarrow> 's \<Rightarrow> ImportStats \<times> 'e importError option \<times> 's"
where
  "importEpisodes L emit name warn c i [] st s = (st, None, s)"
| "importEpisodes L emit name warn c i (ep # eps) st s =
     (case ToEnvelopes (stepClock (ilDecoders L) (c + i)) name ep of
        Inl e \<Rightarrow> importEpisodes L emit name warn c (Suc i) eps (Warn (warn i e) st) s
      | Inr envs \<Rightarrow>
          (case pushAll emit envs s of
             (n, Some er, s1) \<Rightarrow> (st\<lparr>isSpans := isSpans st + int n\<rparr>, Some (Refused er), s1)
           | (n, None, s1) \<Rightarrow>
               importEpisodes L emit name warn c (Suc i) eps
                 (st\<lparr>isSpans := isSpans st + int n, isRecords := isRecords st + 1\<rparr>) s1))"

text \<open>
  The lines \<^verbatim>\<open>bufio.Scanner\<close> delivers: split at newlines, without an empty last piece and without a
  carriage return at the end of a line. A line that does not fit the buffer ends the scan with an
  error; what the reader gave before a read error is still delivered.
\<close>

definition maxTokenSize :: nat where "maxTokenSize = 2 ^ 26"

definition dropCR :: "string \<Rightarrow> string" where
  "dropCR l = (if l \<noteq> [] \<and> last l = CHR 0x0D then butlast l else l)"

definition rawLines :: "string \<Rightarrow> string list" where
  "rawLines s = (let ls = splitNewline s in if last ls = [] then butlast ls else ls)"

definition scanLines :: "string \<Rightarrow> string list" where
  "scanLines s = map dropCR (takeWhile (\<lambda>l. length l < maxTokenSize) (rawLines s))"

definition lineTooLong :: "string \<Rightarrow> bool" where
  "lineTooLong s \<longleftrightarrow> list_ex (\<lambda>l. \<not> length l < maxTokenSize) (rawLines s)"

definition skippedLine :: "string \<Rightarrow> bool" where
  "skippedLine text \<longleftrightarrow> text = [] \<or> has_prefix text ''#''"

fun importLines ::
  "ImportLib \<Rightarrow> (Envelope \<Rightarrow> 's \<Rightarrow> 'e option \<times> 's) \<Rightarrow> string \<Rightarrow> nat \<Rightarrow> string list \<Rightarrow> ImportStats \<Rightarrow> 's
    \<Rightarrow> ImportStats \<times> 'e importError option \<times> 's"
where
  "importLines L emit name line [] st s = (st, None, s)"
| "importLines L emit name line (raw # rest) st s =
     (let text = trim_space raw
      in if skippedLine text then importLines L emit name (Suc line) rest st s
         else
           (case DecodeEpisodes (jsonEpisodes (ilDecoders L)) (jsonEpisode (ilDecoders L)) text of
              Inl e \<Rightarrow> importLines L emit name (Suc line) rest (Warn (WarnLine (Suc line) e) st) s
            | Inr eps \<Rightarrow>
                (case importEpisodes L emit name (\<lambda>i. WarnLine (Suc line)) line 0 eps st s of
                   (st1, Some er, s1) \<Rightarrow> (st1, Some er, s1)
                 | (st1, None, s1) \<Rightarrow> importLines L emit name (Suc line) rest st1 s1)))"

definition ImportJSONL ::
  "ImportLib \<Rightarrow> ImportReader \<Rightarrow> string \<Rightarrow> (Envelope \<Rightarrow> 's \<Rightarrow> 'e option \<times> 's) \<Rightarrow> 's
    \<Rightarrow> ImportStats \<times> 'e importError option \<times> 's"
where
  "ImportJSONL L r name emit s =
     (case importLines L emit name 0 (scanLines (irText r)) noStats s of
        (st, Some er, s1) \<Rightarrow> (st, Some er, s1)
      | (st, None, s1) \<Rightarrow>
          (st, if lineTooLong (irText r) then Some LineTooLong else if irFault r then Some ReadError else None, s1))"

definition ImportNative ::
  "ImportLib \<Rightarrow> ImportReader \<Rightarrow> string \<Rightarrow> (Envelope \<Rightarrow> 's \<Rightarrow> 'e option \<times> 's) \<Rightarrow> 's
    \<Rightarrow> ImportStats \<times> 'e importError option \<times> 's"
where
  "ImportNative L r name emit s =
     (case readAll r of
        None \<Rightarrow> (noStats, Some ReadError, s)
      | Some body \<Rightarrow>
          (case DecodeEpisodes (jsonEpisodes (ilDecoders L)) (jsonEpisode (ilDecoders L)) body of
             Inl e \<Rightarrow> (noStats, Some (BadDocument e), s)
           | Inr eps \<Rightarrow> importEpisodes L emit name WarnEpisode 0 0 eps noStats s))"

section \<open>Loose decoding\<close>

fun firstData :: "ImportLib \<Rightarrow> (string \<rightharpoonup> string) \<Rightarrow> string list \<Rightarrow> string list option" where
  "firstData L obj [] = None"
| "firstData L obj (k # ks) =
     (case Option.bind (obj k) (ilArray L) of Some arr \<Rightarrow> Some arr | None \<Rightarrow> firstData L obj ks)"

definition decodeLines :: "string \<Rightarrow> looseError + string list" where
  "decodeLines trimmed =
     (let out = filter (\<lambda>l. l \<noteq> []) (map trim_space (splitNewline trimmed))
      in if out = [] then Inl NothingParsed else Inr out)"

definition decodeLoose :: "ImportLib \<Rightarrow> string list \<Rightarrow> string \<Rightarrow> looseError + string list" where
  "decodeLoose L dataKeys body =
     (let trimmed = trim_space body
      in if trimmed = [] then Inl EmptyInput
         else if hd trimmed = CHR ''['' then
           (case ilArray L body of None \<Rightarrow> Inl BadArray | Some arr \<Rightarrow> Inr arr)
         else if hd trimmed = CHR 0x7B then
           (case ilObject L body of
              Some obj \<Rightarrow> (case firstData L obj dataKeys of Some arr \<Rightarrow> Inr arr | None \<Rightarrow> Inr [body])
            | None \<Rightarrow> decodeLines trimmed)
         else decodeLines trimmed)"

section \<open>Helpers of the vendor formats\<close>

definition exportLayouts :: "string list" where
  "exportLayouts =
     [''2006-01-02T15:04:05.999999999Z07:00'', ''2006-01-02T15:04:05Z07:00'', ''2006-01-02T15:04:05.999999Z0700'',
      ''2006-01-02 15:04:05.999999-07:00'', ''2006-01-02 15:04:05'']"

fun firstExportLayout :: "ImportLib \<Rightarrow> string list \<Rightarrow> string \<Rightarrow> int option" where
  "firstExportLayout L [] s = None"
| "firstExportLayout L (l # ls) s = (case ilTime L l s of Some t \<Rightarrow> Some t | None \<Rightarrow> firstExportLayout L ls s)"

definition parseTime :: "ImportLib \<Rightarrow> string \<Rightarrow> int option" where
  "parseTime L s = (if s = [] then None else firstExportLayout L exportLayouts s)"

text \<open>The members are marshalled with their keys in order: the input's key comes first for every kind.\<close>

definition payloadEnvelope :: "string \<Rightarrow> string \<Rightarrow> string \<Rightarrow> string" where
  "payloadEnvelope kind inp out =
     (let inKey = (if kind = KindTool then ''args'' else ''input'');
          outKey = (if kind = KindTool then ''result'' else ''output'');
          part = (\<lambda>k v. if v \<noteq> [] \<and> v \<noteq> ''null'' then [quoted k @ '':'' @ compact False v] else []);
          doc = part inKey inp @ part outKey out
      in if doc = [] then [] else [CHR 0x7B] @ join_with '','' doc @ [CHR 0x7D])"

fun metadataText :: "json \<Rightarrow> string" where
  "metadataText (JStr s) = s"
| "metadataText v = json_encode v"

definition stringMap :: "(string, json) gomap \<Rightarrow> (string, string) gomap" where
  "stringMap kvs = map (\<lambda>(k, v). (k, metadataText v)) kvs"

fun firstNonEmpty :: "string list \<Rightarrow> string" where
  "firstNonEmpty [] = []"
| "firstNonEmpty (v # vs) = (if v \<noteq> [] then v else firstNonEmpty vs)"

definition importedLatency :: "ImportLib \<Rightarrow> int \<Rightarrow> string \<Rightarrow> int option" where
  "importedLatency L start endText =
     (case parseTime L endText of
        Some t \<Rightarrow> if t > start then Some (wrap32 (godiv (wrap64 (t - start)) 1000)) else None
      | None \<Rightarrow> None)"

definition importedMeta :: "string \<Rightarrow> EpisodeMeta" where
  "importedMeta instr =
     \<lparr>mtTaskType = [], mtGroupID = [], mtInstrumentation = instr, mtInstrumentationVersion = ''unknown'', mtRaw = []\<rparr>"

text \<open>
  The loop over the records of a vendor export. A record makes one envelope or one warning; at the
  end, and only then, the number of records is the number of spans.
\<close>

fun importRecords ::
  "(nat \<Rightarrow> string \<Rightarrow> importWarning + Envelope) \<Rightarrow> (Envelope \<Rightarrow> 's \<Rightarrow> 'e option \<times> 's) \<Rightarrow> nat \<Rightarrow> string list
    \<Rightarrow> ImportStats \<Rightarrow> 's \<Rightarrow> ImportStats \<times> 'e importError option \<times> 's"
where
  "importRecords conv emit i [] st s = (st\<lparr>isRecords := isSpans st\<rparr>, None, s)"
| "importRecords conv emit i (raw # raws) st s =
     (case conv i raw of
        Inl w \<Rightarrow> importRecords conv emit (Suc i) raws (Warn w st) s
      | Inr env \<Rightarrow>
          (case emit env s of
             (Some er, s1) \<Rightarrow> (st, Some (Refused er), s1)
           | (None, s1) \<Rightarrow> importRecords conv emit (Suc i) raws (st\<lparr>isSpans := isSpans st + 1\<rparr>) s1))"

section \<open>Langfuse\<close>

definition langfuseKind :: "string \<Rightarrow> string" where
  "langfuseKind t =
     (if t = ''GENERATION'' then KindLLM
      else if t = ''SPAN'' then KindOther
      else if t = ''EVENT'' then KindOther
      else if t = ''TOOL'' then KindTool
      else if t = ''RETRIEVER'' then KindRetrieval
      else KindOther)"

definition langfuseStep :: "ImportLib \<Rightarrow> LangfuseObservation \<Rightarrow> int \<Rightarrow> Step" where
  "langfuseStep L x start =
     (let kind = langfuseKind (lgType x); c = payloadEnvelope kind (lgInput x) (lgOutput x)
      in zeroStep
        \<lparr>stKind := kind, stStartedAt := start, stTrainable := TrainableUnknown, stRaw := stringMap (lgMetadata x),
         stLatencyMs := importedLatency L start (lgEndTime x),
         stModel := (if lgModel x \<noteq> [] then Some (lgModel x) else None),
         stToolName := (if lgName x \<noteq> [] \<and> kind = KindTool then Some (lgName x) else None),
         stParams :=
           (if lgTemperature x \<noteq> None \<or> lgTopP x \<noteq> None \<or> lgMaxTokens x \<noteq> None
            then Some \<lparr>Temperature = lgTemperature x, TopP = lgTopP x, MaxTokens = lgMaxTokens x, Seed = None, Stop = []\<rparr>
            else None),
         stTokenCounts :=
           (if lgUsageInput x \<noteq> None \<or> lgUsageOutput x \<noteq> None
            then Some \<lparr>tcInput = lgUsageInput x, tcOutput = lgUsageOutput x, tcCached = None, tcReasoning = None\<rparr>
            else None),
         stContentInline := (if c \<noteq> [] then Some c else None)\<rparr>)"

definition langfuseEnvelope :: "ImportLib \<Rightarrow> string \<Rightarrow> LangfuseObservation \<Rightarrow> int \<Rightarrow> Envelope" where
  "langfuseEnvelope L name x start =
     (let step = langfuseStep L x start;
          e = (if lgLevel x = ''ERROR'' then Some \<lparr>errType = ''langfuse_error'', errMessage = lgStatusMessage x\<rparr> else None)
      in \<lparr>envSessionKey = (if lgSessionID x = [] then lgTraceID x else lgSessionID x), envEpisodeID = [], envSource = name,
          envSpanID = lgID x, envParentSpanID = lgParentObservationID x, envTerminal = False, envError = e,
          envMeta = importedMeta ''langfuse-import'',
          envStep = (if e = None then step else step\<lparr>stError := e\<rparr>)\<rparr>)"

definition langfuseRecord :: "ImportLib \<Rightarrow> string \<Rightarrow> nat \<Rightarrow> string \<Rightarrow> importWarning + Envelope" where
  "langfuseRecord L name i raw =
     (case ilObservation L raw of
        None \<Rightarrow> Inl (WarnRecord i)
      | Some x \<Rightarrow>
          if lgTraceID x = [] \<and> lgSessionID x = [] then Inl (WarnNoGroup i)
          else
            (case parseTime L (lgStartTime x) of
               None \<Rightarrow> Inl (WarnTime i (lgStartTime x))
             | Some start \<Rightarrow> Inr (langfuseEnvelope L name x start)))"

definition ImportLangfuse ::
  "ImportLib \<Rightarrow> ImportReader \<Rightarrow> string \<Rightarrow> (Envelope \<Rightarrow> 's \<Rightarrow> 'e option \<times> 's) \<Rightarrow> 's
    \<Rightarrow> ImportStats \<times> 'e importError option \<times> 's"
where
  "ImportLangfuse L r name emit s =
     (case readAll r of
        None \<Rightarrow> (noStats, Some ReadError, s)
      | Some body \<Rightarrow>
          (case decodeLoose L [''data'', ''observations''] body of
             Inl e \<Rightarrow> (noStats, Some (BadExport e), s)
           | Inr raws \<Rightarrow> importRecords (langfuseRecord L name) emit 0 raws noStats s))"

section \<open>LangSmith\<close>

definition langsmithKind :: "string \<Rightarrow> string" where
  "langsmithKind t =
     (if t = ''llm'' then KindLLM
      else if t = ''tool'' then KindTool
      else if t = ''retriever'' then KindRetrieval
      else if t \<in> {''chain'', ''prompt'', ''parser'', ''embedding''} then KindOther
      else KindOther)"

definition langsmithStep :: "ImportLib \<Rightarrow> LangsmithRun \<Rightarrow> int \<Rightarrow> Step" where
  "langsmithStep L x start =
     (let kind = langsmithKind (luRunType x); c = payloadEnvelope kind (luInputs x) (luOutputs x);
          mo = firstNonEmpty [luModel x, luModelName x]
      in zeroStep
        \<lparr>stKind := kind, stStartedAt := start, stTrainable := TrainableUnknown, stRaw := stringMap (luMetadata x),
         stLatencyMs := importedLatency L start (luEndTime x),
         stModel := (if mo \<noteq> [] then Some mo else None),
         stParams :=
           (if luTemperature x \<noteq> None \<or> luTopP x \<noteq> None \<or> luMaxTokens x \<noteq> None \<or> luSeed x \<noteq> None \<or> luStop x \<noteq> []
            then Some \<lparr>Temperature = luTemperature x, TopP = luTopP x, MaxTokens = luMaxTokens x, Seed = luSeed x,
              Stop = luStop x\<rparr>
            else None),
         stToolName := (if kind = KindTool \<and> luName x \<noteq> [] then Some (luName x) else None),
         stContentInline := (if c \<noteq> [] then Some c else None)\<rparr>)"

definition langsmithEnvelope :: "ImportLib \<Rightarrow> string \<Rightarrow> string \<Rightarrow> LangsmithRun \<Rightarrow> int \<Rightarrow> Envelope" where
  "langsmithEnvelope L name session x start =
     (let step = langsmithStep L x start;
          e = (if luError x \<noteq> [] then Some \<lparr>errType = ''langsmith_error'', errMessage = luError x\<rparr> else None)
      in \<lparr>envSessionKey = session, envEpisodeID = [], envSource = name, envSpanID = luID x,
          envParentSpanID = luParentRunID x, envTerminal = False, envError = e,
          envMeta = importedMeta ''langsmith-import'',
          envStep = (if e = None then step else step\<lparr>stError := e\<rparr>)\<rparr>)"

definition langsmithRecord :: "ImportLib \<Rightarrow> string \<Rightarrow> nat \<Rightarrow> string \<Rightarrow> importWarning + Envelope" where
  "langsmithRecord L name i raw =
     (case ilRun L raw of
        None \<Rightarrow> Inl (WarnRecord i)
      | Some x \<Rightarrow>
          let session = firstNonEmpty [luSessionID x, luTraceID x, luID x]
          in if session = [] then Inl (WarnNoGroup i)
             else
               (case parseTime L (luStartTime x) of
                  None \<Rightarrow> Inl (WarnTime i (luStartTime x))
                | Some start \<Rightarrow> Inr (langsmithEnvelope L name session x start)))"

definition ImportLangsmith ::
  "ImportLib \<Rightarrow> ImportReader \<Rightarrow> string \<Rightarrow> (Envelope \<Rightarrow> 's \<Rightarrow> 'e option \<times> 's) \<Rightarrow> 's
    \<Rightarrow> ImportStats \<times> 'e importError option \<times> 's"
where
  "ImportLangsmith L r name emit s =
     (case readAll r of
        None \<Rightarrow> (noStats, Some ReadError, s)
      | Some body \<Rightarrow>
          (case decodeLoose L [''runs'', ''data''] body of
             Inl e \<Rightarrow> (noStats, Some (BadExport e), s)
           | Inr raws \<Rightarrow> importRecords (langsmithRecord L name) emit 0 raws noStats s))"

section \<open>Phoenix\<close>

definition numberText :: "ImportLib \<Rightarrow> string \<Rightarrow> string" where
  "numberText L n =
     (let t = ilNumber L n
      in if of_int \<lfloor>t\<rfloor> = t \<and> - (2 ^ 63) \<le> \<lfloor>t\<rfloor> \<and> \<lfloor>t\<rfloor> < 2 ^ 63 then format_int \<lfloor>t\<rfloor> else ilFormatFloat L t)"

text \<open>
  \<^verbatim>\<open>flattenAttrs\<close>: the entries in the order Go's iteration takes them, stored into the result as they come.
\<close>

function flattenInto :: "ImportLib \<Rightarrow> string \<Rightarrow> (string \<times> json) list \<Rightarrow> (string, string) gomap \<Rightarrow> (string, string) gomap" where
  "flattenInto L prefix [] out = out"
| "flattenInto L prefix ((k, v) # kvs) out =
     (let name = (if prefix = [] then k else prefix @ ''.'' @ k)
      in flattenInto L prefix kvs
           (case v of
              JObj inner \<Rightarrow> fold (\<lambda>(nk, nv). AList.update nk nv) (flattenInto L name inner []) out
            | JStr t \<Rightarrow> AList.update name t out
            | JNum n \<Rightarrow> AList.update name (numberText L n) out
            | JBool b \<Rightarrow> AList.update name (if b then ''true'' else ''false'') out
            | JNull \<Rightarrow> out
            | JArr xs \<Rightarrow> AList.update name (json_encode v) out))"
  by pat_completeness auto
termination
  by (relation "measure (\<lambda>(L, prefix, kvs, out). size_list (size_prod (\<lambda>_. 0) size) kvs)") auto

definition flattenAttrs :: "ImportLib \<Rightarrow> string \<Rightarrow> (string \<times> json) list \<Rightarrow> (string, string) gomap" where
  "flattenAttrs L prefix kvs = flattenInto L prefix kvs []"

text \<open>An end that cannot be read is 0, which the mapper takes for no end.\<close>

definition phoenixSpan :: "ImportLib \<Rightarrow> PhoenixSpan \<Rightarrow> int \<Rightarrow> NSpan" where
  "phoenixSpan L x start =
     (let failed = (to_lower (phStatusCode x) = to_lower ''ERROR'')
      in \<lparr>nsTraceID = firstNonEmpty [phTraceID x, phContextTraceID x],
          nsSpanID = firstNonEmpty [phSpanID x, phContextSpanID x],
          nsParentSpanID = phParentID x, nsName = phName x, nsStartedAtUS = start,
          nsEndedAtUS = (case parseTime L (phEndTime x) of Some t \<Rightarrow> t | None \<Rightarrow> 0),
          nsAttributes = flattenAttrs L [] (phAttributes x),
          nsStatusError = failed, nsStatusMessage = (if failed then phStatusMessage x else []),
          nsScopeName = ''phoenix-import'', nsScopeVersion = ''unknown''\<rparr>)"

definition phoenixKeyOrder :: "string list" where
  "phoenixKeyOrder = [''session.id'', ''gen_ai.conversation.id'', ''trace_id'']"

definition phoenixRecord :: "ImportLib \<Rightarrow> Registry \<Rightarrow> string \<Rightarrow> nat \<Rightarrow> string \<Rightarrow> importWarning + Envelope" where
  "phoenixRecord L reg name i raw =
     (case ilPhoenix L raw of
        None \<Rightarrow> Inl (WarnRecord i)
      | Some x \<Rightarrow>
          let traceID = firstNonEmpty [phTraceID x, phContextTraceID x];
              spanID = firstNonEmpty [phSpanID x, phContextSpanID x]
          in if traceID = [] \<and> spanID = [] then Inl (WarnNoGroup i)
             else
               (case parseTime L (phStartTime x) of
                  None \<Rightarrow> Inl (WarnTime i (phStartTime x))
                | Some start \<Rightarrow> Inr (Normalize (ilNorm L) (phoenixSpan L x start) name phoenixKeyOrder reg)))"

definition ImportPhoenix ::
  "ImportLib \<Rightarrow> ImportReader \<Rightarrow> string \<Rightarrow> (Envelope \<Rightarrow> 's \<Rightarrow> 'e option \<times> 's) \<Rightarrow> 's
    \<Rightarrow> ImportStats \<times> 'e importError option \<times> 's"
where
  "ImportPhoenix L r name emit s =
     (case readAll r of
        None \<Rightarrow> (noStats, Some ReadError, s)
      | Some body \<Rightarrow>
          (case decodeLoose L [''spans'', ''data''] body of
             Inl e \<Rightarrow> (noStats, Some (BadExport e), s)
           | Inr raws \<Rightarrow>
               (case ilBuiltins L of
                  Inl e \<Rightarrow> (noStats, Some (NoConventions e), s)
                | Inr reg \<Rightarrow> importRecords (phoenixRecord L reg name) emit 0 raws noStats s)))"

section \<open>The registry\<close>

datatype importer = JSONLImporter | NativeImporter | LangfuseImporter | LangsmithImporter | PhoenixImporter

fun importerName :: "importer \<Rightarrow> string" where
  "importerName JSONLImporter = ''jsonl''"
| "importerName NativeImporter = ''native''"
| "importerName LangfuseImporter = ''langfuse''"
| "importerName LangsmithImporter = ''langsmith''"
| "importerName PhoenixImporter = ''phoenix''"

definition importerRegistry :: "(string, importer) gomap" where
  "importerRegistry =
     map (\<lambda>i. (importerName i, i)) [JSONLImporter, NativeImporter, LangfuseImporter, LangsmithImporter, PhoenixImporter]"

definition importerNames :: "string list" where
  "importerNames = sort (map fst importerRegistry)"

text \<open>An unknown format is answered with the names there are.\<close>

definition getImporter :: "string \<Rightarrow> string list + importer" where
  "getImporter name =
     (case map_of importerRegistry (to_lower name) of None \<Rightarrow> Inl importerNames | Some i \<Rightarrow> Inr i)"

definition allImporters :: "importer list" where
  "allImporters = map (\<lambda>n. the (map_of importerRegistry n)) importerNames"

fun runImporter ::
  "importer \<Rightarrow> ImportLib \<Rightarrow> ImportReader \<Rightarrow> string \<Rightarrow> (Envelope \<Rightarrow> 's \<Rightarrow> 'e option \<times> 's) \<Rightarrow> 's
    \<Rightarrow> ImportStats \<times> 'e importError option \<times> 's"
where
  "runImporter JSONLImporter L r name emit s = ImportJSONL L r name emit s"
| "runImporter NativeImporter L r name emit s = ImportNative L r name emit s"
| "runImporter LangfuseImporter L r name emit s = ImportLangfuse L r name emit s"
| "runImporter LangsmithImporter L r name emit s = ImportLangsmith L r name emit s"
| "runImporter PhoenixImporter L r name emit s = ImportPhoenix L r name emit s"

text \<open>\<^verbatim>\<open>cc import\<close> names the records after the format unless a source name is given.\<close>

definition importSource :: "string \<Rightarrow> importer \<Rightarrow> string" where
  "importSource given imp = (if given = [] then ''import:'' @ importerName imp else given)"

end
