(* ===== verification/Conformance.thy ===== *)
theory Conformance
  imports Lake_Sink
begin

text \<open>
  The conformance suite (\<^verbatim>\<open>src/spec/conformance/conformance.go\<close>, \<^verbatim>\<open>checks.go\<close>): loading a lake
  directory for checking, the eighteen checks and the report.

  A directory is what the code sees of it: the entries \<^verbatim>\<open>filepath.Walk\<close> visits, in order, each a
  failure, a directory or a file with what reading it gives. The Parquet and JSON decoders are
  fields of \<open>Decoding\<close>. A check that panics on a slice bound is \<open>None\<close>, and so is the suite then.
  Every check reads the dataset in the order of its rows and stops at the first offender, so a
  check is \<open>firstSome\<close> of what the loop body reports.
\<close>

section \<open>Results and reports\<close>

record Result =
  rsCheck :: string
  rsRef :: string
  rsPassed :: bool
  rsDetail :: string
  rsSkipped :: bool

record Report =
  rpRoot :: string
  rpResults :: "Result list"

definition Passed :: "Report \<Rightarrow> bool" where
  "Passed r \<longleftrightarrow> list_all (\<lambda>res. \<not> (\<not> rsPassed res \<and> \<not> rsSkipped res)) (rpResults r)"

text \<open>Passed, failed and skipped, one of the three for each result.\<close>

fun countResult :: "Result \<Rightarrow> int \<times> int \<times> int \<Rightarrow> int \<times> int \<times> int" where
  "countResult res (p, f, s) =
     (if rsSkipped res then (p, f, s + 1) else if rsPassed res then (p + 1, f, s) else (p, f + 1, s))"

definition Counts :: "Report \<Rightarrow> int \<times> int \<times> int" where
  "Counts r = fold countResult (rpResults r) (0, 0, 0)"

definition passResult :: "string \<Rightarrow> string \<Rightarrow> Result" where
  "passResult check ref = \<lparr>rsCheck = check, rsRef = ref, rsPassed = True, rsDetail = [], rsSkipped = False\<rparr>"

definition skipResult :: "string \<Rightarrow> string \<Rightarrow> string \<Rightarrow> Result" where
  "skipResult check ref why = \<lparr>rsCheck = check, rsRef = ref, rsPassed = False, rsDetail = why, rsSkipped = True\<rparr>"

definition failResult :: "string \<Rightarrow> string \<Rightarrow> string \<Rightarrow> Result" where
  "failResult check ref why = \<lparr>rsCheck = check, rsRef = ref, rsPassed = False, rsDetail = why, rsSkipped = False\<rparr>"

lemmas result_defs = passResult_def skipResult_def failResult_def

section \<open>The dataset\<close>

record CheckedFile =
  cfPath :: string
  cfRows :: int
  cfTable :: string

record CheckedManifest =
  cmBatchID :: string
  cmSchemaVersion :: string
  cmFiles :: "CheckedFile list"
  cmEpisodes :: int
  cmSteps :: int

record Dataset =
  dsRoot :: string
  dsEpisodes :: "Episode list"
  dsSteps :: "Step list"
  dsBlobs :: "Blob list"
  dsOutcomes :: "Outcome list"
  dsRewards :: "Reward list"
  dsManifests :: "CheckedManifest list"
  dsSchemaVersions :: "(string, int) gomap"
  dsUnreadable :: "string list"

definition emptyDataset :: "string \<Rightarrow> Dataset" where
  "emptyDataset r =
     \<lparr>dsRoot = r, dsEpisodes = [], dsSteps = [], dsBlobs = [], dsOutcomes = [], dsRewards = [],
      dsManifests = [], dsSchemaVersions = [], dsUnreadable = []\<rparr>"

text \<open>
  One entry of a walk: a failure, a directory, or a file with its name below the root of the walk
  and its content (\<open>Inl\<close>: the error of reading it). The path the callback sees is the name joined
  to the root, cleaned.
\<close>

datatype 'c walkEntry = EntryFault | EntryDir | EntryFile string "string + 'c"

text \<open>What the decoders make of a file: \<open>Inl\<close> is the text of their error.\<close>

record 'c Decoding =
  dcOpen :: "'c \<Rightarrow> string + string option"
  dcEpisodes :: "'c \<Rightarrow> string + Episode list"
  dcSteps :: "'c \<Rightarrow> string + Step list"
  dcOutcomes :: "'c \<Rightarrow> string + Outcome list"
  dcRewards :: "'c \<Rightarrow> string + Reward list"
  dcBlobs :: "'c \<Rightarrow> string + Blob list"
  dcManifest :: "'c \<Rightarrow> string + CheckedManifest"

definition trimPrefix :: "string \<Rightarrow> string \<Rightarrow> string" where
  "trimPrefix s p = (if has_prefix s p then drop (length p) s else s)"

definition underTable :: "string \<Rightarrow> string \<Rightarrow> bool" where
  "underTable t rel \<longleftrightarrow> containsText rel (''/'' @ t @ ''/'')"

definition unreadable :: "string \<Rightarrow> string \<Rightarrow> Dataset \<Rightarrow> Dataset" where
  "unreadable rel e d = d\<lparr>dsUnreadable := dsUnreadable d @ [rel @ '': '' @ e]\<rparr>"

definition countVersion :: "string option \<Rightarrow> Dataset \<Rightarrow> Dataset" where
  "countVersion v d =
     (let k = (case v of Some x \<Rightarrow> x | None \<Rightarrow> [])
      in d\<lparr>dsSchemaVersions := AList.update k (goget 0 (dsSchemaVersions d) k + 1) (dsSchemaVersions d)\<rparr>)"

definition addRows :: "string \<Rightarrow> string + 'r list \<Rightarrow> ('r list \<Rightarrow> Dataset \<Rightarrow> Dataset) \<Rightarrow> Dataset \<Rightarrow> Dataset" where
  "addRows rel rows app d = (case rows of Inl e \<Rightarrow> unreadable rel e d | Inr rs \<Rightarrow> app rs d)"

definition loadRows :: "'c Decoding \<Rightarrow> string \<Rightarrow> 'c \<Rightarrow> Dataset \<Rightarrow> Dataset" where
  "loadRows R rel c d =
     (if underTable TableEpisodes rel then
        addRows rel (dcEpisodes R c) (\<lambda>rs. dsEpisodes_update (\<lambda>xs. xs @ rs)) d
      else if underTable TableSteps rel then
        addRows rel (dcSteps R c) (\<lambda>rs. dsSteps_update (\<lambda>xs. xs @ rs)) d
      else if underTable TableOutcomes rel then
        addRows rel (dcOutcomes R c) (\<lambda>rs. dsOutcomes_update (\<lambda>xs. xs @ rs)) d
      else if underTable TableRewards rel then
        addRows rel (dcRewards R c) (\<lambda>rs. dsRewards_update (\<lambda>xs. xs @ rs)) d
      else if underTable TableBlobs rel then
        addRows rel (dcBlobs R c) (\<lambda>rs. dsBlobs_update (\<lambda>xs. xs @ rs)) d
      else d)"

definition loadParquet :: "'c Decoding \<Rightarrow> string \<Rightarrow> 'c \<Rightarrow> Dataset \<Rightarrow> Dataset" where
  "loadParquet R rel c d =
     (case dcOpen R c of
        Inl e \<Rightarrow> unreadable rel e d
      | Inr v \<Rightarrow> loadRows R rel c (countVersion v d))"

definition loadManifest :: "'c Decoding \<Rightarrow> string \<Rightarrow> 'c \<Rightarrow> Dataset \<Rightarrow> Dataset" where
  "loadManifest R rel c d =
     (case dcManifest R c of
        Inl e \<Rightarrow> unreadable rel (''manifest is not valid JSON: '' @ e) d
      | Inr x \<Rightarrow> d\<lparr>dsManifests := dsManifests d @ [x]\<rparr>)"

fun loadVisited :: "'c Decoding \<Rightarrow> 'c walkEntry \<Rightarrow> Dataset \<Rightarrow> Dataset option" where
  "loadVisited R EntryFault d = None"
| "loadVisited R EntryDir d = Some d"
| "loadVisited R (EntryFile n c) d =
     (let path = pathJoin [dsRoot d, n]; rel = trimPrefix path (dsRoot d)
      in if has_suffix path ''.parquet'' then case_sum (\<lambda>e. None) (\<lambda>x. Some (loadParquet R rel x d)) c
         else if containsText rel ''/manifests/'' \<and> has_suffix path ''.json'' then
           case_sum (\<lambda>e. None) (\<lambda>x. Some (loadManifest R rel x d)) c
         else Some d)"

fun walkLoad :: "'c Decoding \<Rightarrow> 'c walkEntry list \<Rightarrow> Dataset \<Rightarrow> Dataset option" where
  "walkLoad R [] d = Some d"
| "walkLoad R (e # es) d = (case loadVisited R e d of None \<Rightarrow> None | Some d' \<Rightarrow> walkLoad R es d')"

definition LoadDataset :: "'c Decoding \<Rightarrow> string \<Rightarrow> 'c walkEntry list \<Rightarrow> Dataset option" where
  "LoadDataset R r es = walkLoad R es (emptyDataset r)"

section \<open>The checks\<close>

text \<open>The files the checks look at: \<^verbatim>\<open>os.Stat\<close>, \<^verbatim>\<open>filepath.Walk\<close> and \<^verbatim>\<open>os.ReadDir\<close>.\<close>

record LakeFiles =
  lfStat :: "string \<Rightarrow> bool"
  lfWalk :: "string \<Rightarrow> byte list walkEntry list"
  lfReadDir :: "string \<Rightarrow> string list option"

fun firstSome :: "('a \<Rightarrow> 'b option) \<Rightarrow> 'a list \<Rightarrow> 'b option" where
  "firstSome f [] = None"
| "firstSome f (x # xs) = (case f x of None \<Rightarrow> firstSome f xs | Some y \<Rightarrow> Some y)"

definition judged :: "string \<Rightarrow> string \<Rightarrow> string option \<Rightarrow> Result" where
  "judged check ref problem = (case problem of None \<Rightarrow> passResult check ref | Some why \<Rightarrow> failResult check ref why)"

definition sectionSign :: string where "sectionSign = [CHR 0xC2, CHR 0xA7]"

definition checkFilesReadable :: "Dataset \<Rightarrow> Result" where
  "checkFilesReadable d =
     (let check = ''every file is readable''; ref = ''F-9.4''
      in if dsUnreadable d = [] then passResult check ref
         else let detail = join_with ''; '' (dsUnreadable d);
                  shown = (if length detail > 300 then take 300 detail @ ''...'' else detail)
              in failResult check ref
                   (format_int (int (length (dsUnreadable d))) @ '' unreadable file(s): '' @ shown))"

definition checkSchemaVersionStamped :: "Dataset \<Rightarrow> Result" where
  "checkSchemaVersionStamped d =
     (let check = ''schema_version in file metadata''; ref = ''F-10.2'';
          n = goget 0 (dsSchemaVersions d) []
      in if dsSchemaVersions d = [] then skipResult check ref ''no Parquet files found''
         else if n > 0 then failResult check ref (format_int n @ '' file(s) carry no schema_version in metadata'')
         else passResult check ref)"

definition majorOf :: "string \<Rightarrow> string" where
  "majorOf v = takeWhile (\<lambda>c. c \<noteq> CHR ''.'') v"

definition sortedVersions :: "(string, int) gomap \<Rightarrow> string list" where
  "sortedVersions kvs = sort (map fst kvs)"

definition checkSchemaVersionConsistent :: "Dataset \<Rightarrow> Result" where
  "checkSchemaVersionConsistent d =
     (let check = ''schema versions are compatible''; ref = ''F-10.1, F-10.4'';
          versions = sortedVersions (dsSchemaVersions d);
          majors = remdups (map majorOf (filter (\<lambda>v. v \<noteq> []) versions))
      in if length versions \<le> 1 then passResult check ref
         else if length majors > 1 then
           failResult check ref
             (''files span incompatible major versions ['' @ join_with '' '' versions
              @ '']; a reader cannot read them as one dataset'')
         else passResult check ref)"

definition missingField :: "nat \<times> Episode \<Rightarrow> string option" where
  "missingField ie =
     (let i = fst ie; e = snd ie; named = ''episode '' @ epEpisodeID e
      in if epEpisodeID e = [] then Some (''episode '' @ format_int (int i) @ '' has no episode_id'')
         else if epTenant e = [] then Some (named @ '' has no tenant'')
         else if epSource e = [] then Some (named @ '' has no source (F-1.6)'')
         else if epStatus e = [] then Some (named @ '' has no status'')
         else if epSchemaVersion e = [] then Some (named @ '' has no schema_version'')
         else if epStartedAt e = 0 then Some (named @ '' has no started_at'')
         else None)"

definition checkEpisodeRequiredFields :: "Dataset \<Rightarrow> Result" where
  "checkEpisodeRequiredFields d =
     (let check = ''episode required fields present''; ref = sectionSign @ ''7.1''
      in if dsEpisodes d = [] then skipResult check ref ''no episodes''
         else judged check ref (firstSome missingField (enumerate 0 (dsEpisodes d))))"

text \<open>The checks that look at every row first and only then whether there was a row.\<close>

definition judgedRows :: "string \<Rightarrow> string \<Rightarrow> string \<Rightarrow> ('a \<Rightarrow> string option) \<Rightarrow> 'a list \<Rightarrow> Result" where
  "judgedRows check ref none f xs =
     (case firstSome f xs of
        Some why \<Rightarrow> failResult check ref why
      | None \<Rightarrow> if xs = [] then skipResult check ref none else passResult check ref)"

definition statusVocabulary :: "string list" where
  "statusVocabulary = [StatusComplete, StatusTimedOut, StatusEvicted, StatusPatched]"

definition badStatus :: "Episode \<Rightarrow> string option" where
  "badStatus e =
     (if epStatus e \<in> set statusVocabulary then None
      else Some (''episode '' @ epEpisodeID e @ '' has status '' @ quoted (epStatus e)
        @ ''; the vocabulary is complete|timed_out|evicted|patched''))"

definition checkStatusVocabulary :: "Dataset \<Rightarrow> Result" where
  "checkStatusVocabulary d =
     judgedRows ''status vocabulary'' (sectionSign @ ''7.1'') ''no episodes'' badStatus (dsEpisodes d)"

definition kindVocabulary :: "string list" where
  "kindVocabulary = [KindLLM, KindTool, KindRetrieval, KindHuman, KindOther]"

definition stepOf :: "Step \<Rightarrow> string" where
  "stepOf s = ''step '' @ format_int (stStepIdx s) @ '' of '' @ stEpisodeID s"

definition badKind :: "Step \<Rightarrow> string option" where
  "badKind s =
     (if stKind s \<in> set kindVocabulary then None
      else Some (stepOf s @ '' has kind '' @ quoted (stKind s)
        @ ''; unrecognised kinds must normalise to '' @ quoted ''other'' @ '', not be invented''))"

definition checkKindVocabulary :: "Dataset \<Rightarrow> Result" where
  "checkKindVocabulary d =
     judgedRows ''step kind vocabulary'' (sectionSign @ ''7.2, F-2.5'') ''no steps'' badKind (dsSteps d)"

definition trainableVocabulary :: "string list" where
  "trainableVocabulary = [TrainableTrue, TrainableFalse, TrainableUnknown]"

definition badSpan :: "Step \<Rightarrow> TokenSpan \<Rightarrow> string option" where
  "badSpan s ts =
     (if tsTrainable ts \<in> set trainableVocabulary then None
      else Some (''a token span of '' @ stEpisodeID s @ '' has trainable '' @ quoted (tsTrainable ts)))"

definition badTrainable :: "Step \<Rightarrow> string option" where
  "badTrainable s =
     (if stTrainable s \<notin> set trainableVocabulary then
        Some (stepOf s @ '' has trainable '' @ quoted (stTrainable s))
      else firstSome (badSpan s) (stTokenSpans s))"

definition checkTrainableVocabulary :: "Dataset \<Rightarrow> Result" where
  "checkTrainableVocabulary d =
     judgedRows ''trainable is three-valued'' ''F-4.4'' ''no steps'' badTrainable (dsSteps d)"

definition unknownStep :: "string list \<Rightarrow> Step \<Rightarrow> string option" where
  "unknownStep known s =
     (if stEpisodeID s = [] then Some ''a step has no episode_id''
      else if stEpisodeID s \<notin> set known then
        Some (''step '' @ format_int (stStepIdx s) @ '' references unknown episode '' @ stEpisodeID s)
      else None)"

definition checkStepsBelongToEpisodes :: "Dataset \<Rightarrow> Result" where
  "checkStepsBelongToEpisodes d =
     (let check = ''steps reference a known episode''; ref = sectionSign @ ''7.2'';
          known = map epEpisodeID (dsEpisodes d)
      in if dsSteps d = [] then skipResult check ref ''no steps''
         else judged check ref (firstSome (unknownStep known) (dsSteps d)))"

text \<open>The count of an id's steps is an \<^verbatim>\<open>int32\<close>.\<close>

definition presentSteps :: "Step list \<Rightarrow> string \<Rightarrow> int" where
  "presentSteps ss k = foldl (\<lambda>n s. if stEpisodeID s = k then wrap32 (n + 1) else n) 0 ss"

definition miscounted :: "Step list \<Rightarrow> Episode \<Rightarrow> string option" where
  "miscounted ss e =
     (if epStatus e = StatusPatched then None
      else let got = presentSteps ss (epEpisodeID e)
           in if got \<noteq> epStepCount e then
                Some (''episode '' @ epEpisodeID e @ '' declares step_count '' @ format_int (epStepCount e)
                  @ '' but '' @ format_int got @ '' steps are present'')
              else None)"

definition checkStepCountMatches :: "Dataset \<Rightarrow> Result" where
  "checkStepCountMatches d =
     (let check = ''step_count matches the steps table''; ref = sectionSign @ ''7.1''
      in if dsEpisodes d = [] then skipResult check ref ''no episodes''
         else judged check ref (firstSome (miscounted (dsSteps d)) (dsEpisodes d)))"

definition placedTwice :: "Step \<Rightarrow> string option" where
  "placedTwice s =
     (if stContentRef s \<noteq> None \<and> stContentInline s \<noteq> None then
        Some (stepOf s @ '' has both content_ref and content_inline'')
      else None)"

definition checkPayloadPlacement :: "Dataset \<Rightarrow> Result" where
  "checkPayloadPlacement d =
     (let check = ''payload is in exactly one place''; ref = sectionSign @ ''7.2, F-9.3''
      in if dsSteps d = [] then skipResult check ref ''no steps''
         else judged check ref (firstSome placedTwice (dsSteps d)))"

text \<open>A step with a reference: the problem it is, \<open>Some None\<close> where slicing the hash for the message
  panics.\<close>

definition blobFileOf :: "string \<Rightarrow> string \<Rightarrow> string" where
  "blobFileOf r h = pathJoin [r, TableBlobs, ''sha256'', take 2 h, take 2 (drop 2 h), h]"

definition dangling :: "LakeFiles \<Rightarrow> string \<Rightarrow> Step \<Rightarrow> string option option" where
  "dangling F r s =
     (case stContentRef s of
        None \<Rightarrow> None
      | Some h \<Rightarrow>
          if length h < 4 then Some (Some (stepOf s @ '' has a malformed content_ref '' @ quoted h))
          else if lfStat F (blobFileOf r h) then None
          else if length h < 12 then Some None
          else Some (Some (stepOf s @ '' references blob '' @ take 12 h @ '', which is not present'')))"

definition checkBlobsResolve :: "LakeFiles \<Rightarrow> Dataset \<Rightarrow> Result option" where
  "checkBlobsResolve F d =
     (let check = ''content_ref resolves to a blob''; ref = ''F-9.3''
      in case firstSome (dangling F (dsRoot d)) (dsSteps d) of
           Some problem \<Rightarrow> map_option (failResult check ref) problem
         | None \<Rightarrow>
             if list_all (\<lambda>s. stContentRef s = None) (dsSteps d)
             then Some (skipResult check ref ''no externalised payloads'')
             else Some (passResult check ref))"

text \<open>\<^verbatim>\<open>filepath.Base\<close>.\<close>

definition pathBase :: "string \<Rightarrow> string" where
  "pathBase p =
     (if p = [] then ''.''
      else let q = rev (dropWhile (\<lambda>c. c = CHR ''/'') (rev p))
           in if q = [] then ''/'' else last (splitSlash [] q))"

text \<open>One file below \<^verbatim>\<open>blobs/sha256\<close>; a file that cannot be read ends the walk with the error.\<close>

fun misnamed :: "byte list walkEntry \<Rightarrow> string option option" where
  "misnamed EntryFault = None"
| "misnamed EntryDir = None"
| "misnamed (EntryFile p (Inl e)) = Some (Some e)"
| "misnamed (EntryFile p (Inr b)) =
     (if hex_encode (sha256 b) = pathBase p then None
      else if length (pathBase p) < 12 then Some None
      else Some (Some (''blob '' @ take 12 (pathBase p) @ '' does not hash to its own name'')))"

fun isFileEntry :: "'c walkEntry \<Rightarrow> bool" where
  "isFileEntry (EntryFile p c) = True"
| "isFileEntry EntryFault = False"
| "isFileEntry EntryDir = False"

definition blobDir :: "string \<Rightarrow> string" where
  "blobDir r = pathJoin [r, TableBlobs, ''sha256'']"

definition checkBlobHashesVerify :: "LakeFiles \<Rightarrow> Dataset \<Rightarrow> Result option" where
  "checkBlobHashesVerify F d =
     (let check = ''blob contents match their hash''; ref = sectionSign @ ''7.3, F-9.3'';
          entries = lfWalk F (blobDir (dsRoot d))
      in case firstSome misnamed entries of
           Some problem \<Rightarrow> map_option (failResult check ref) problem
         | None \<Rightarrow>
             if list_all (\<lambda>e. \<not> isFileEntry e) entries then Some (skipResult check ref ''no blobs'')
             else Some (passResult check ref))"

definition orphaned :: "Step list \<Rightarrow> Step \<Rightarrow> string option" where
  "orphaned ss s =
     (case stParentIdx s of
        None \<Rightarrow> None
      | Some p \<Rightarrow>
          if p = stStepIdx s then Some (stepOf s @ '' is its own parent'')
          else if list_ex (\<lambda>t. stEpisodeID t = stEpisodeID s \<and> stStepIdx t = p) ss then None
          else Some (stepOf s @ '' has parent_idx '' @ format_int p @ '', which is not a step in that episode''))"

definition checkParentIndicesValid :: "Dataset \<Rightarrow> Result" where
  "checkParentIndicesValid d =
     (let check = ''parent_idx references a real step''; ref = ''F-3.4''
      in case firstSome (orphaned (dsSteps d)) (dsSteps d) of
           Some why \<Rightarrow> failResult check ref why
         | None \<Rightarrow>
             if list_all (\<lambda>s. stParentIdx s = None) (dsSteps d)
             then skipResult check ref ''no steps have a parent''
             else passResult check ref)"

definition microFloor :: int where "microFloor = 1000000000000000"
definition microCeiling :: int where "microCeiling = 4102444800000000"

definition insane :: "Episode \<Rightarrow> string option" where
  "insane e =
     (if epStartedAt e < microFloor \<or> epStartedAt e > microCeiling then
        Some (''episode '' @ epEpisodeID e @ '' has started_at '' @ format_int (epStartedAt e)
          @ '', which is not plausibly microseconds since the epoch; check the producer''
          @ [CHR 0x27] @ ''s time unit'')
      else case epEndedAt e of
             None \<Rightarrow> None
           | Some t \<Rightarrow> if t < epStartedAt e then Some (''episode '' @ epEpisodeID e @ '' ended before it started'') else None)"

definition checkTimestampsSane :: "Dataset \<Rightarrow> Result" where
  "checkTimestampsSane d =
     judgedRows ''timestamps are microseconds'' (sectionSign @ ''7.1'') ''no episodes'' insane (dsEpisodes d)"

definition badManifest :: "LakeFiles \<Rightarrow> string \<Rightarrow> CheckedManifest \<Rightarrow> string option" where
  "badManifest F r x =
     (if cmSchemaVersion x = [] then Some (''manifest '' @ cmBatchID x @ '' has no schema_version'')
      else map_option
             (\<lambda>f. ''manifest '' @ cmBatchID x @ '' lists '' @ cfPath f @ '', which does not exist'')
             (find (\<lambda>f. \<not> lfStat F (pathJoin [r, cfPath f])) (cmFiles x)))"

definition declaredEpisodes :: "Dataset \<Rightarrow> int" where
  "declaredEpisodes d = foldl (\<lambda>n x. wrap64 (n + cmEpisodes x)) 0 (dsManifests d)"

definition checkManifestsCoverFiles :: "LakeFiles \<Rightarrow> Dataset \<Rightarrow> Result" where
  "checkManifestsCoverFiles F d =
     (let check = ''manifests account for the data''; ref = ''F-9.4, F-9.6'';
          present = int (length (dsEpisodes d))
      in if dsManifests d = [] then
           (if dsEpisodes d = [] then skipResult check ref ''no data''
            else failResult check ref
                   (format_int present @ '' episodes are present but no manifest was written; a conforming reader ''
                    @ ''ignores unmanifested files and would see nothing''))
         else case firstSome (badManifest F (dsRoot d)) (dsManifests d) of
                Some why \<Rightarrow> failResult check ref why
              | None \<Rightarrow>
                  if declaredEpisodes d \<noteq> present then
                    failResult check ref
                      (''manifests declare '' @ format_int (declaredEpisodes d) @ '' episodes but ''
                       @ format_int present @ '' are present; a reader following the manifests would see the wrong data'')
                  else passResult check ref)"

definition checkReservedTablesEmpty :: "LakeFiles \<Rightarrow> Dataset \<Rightarrow> Result" where
  "checkReservedTablesEmpty F d =
     (let check = ''labels table is empty''; ref = sectionSign @ ''2.3, '' @ sectionSign @ ''7.4''
      in case lfReadDir F (pathJoin [dsRoot d, TableLabels]) of
           None \<Rightarrow> passResult check ref
         | Some names \<Rightarrow>
             if list_ex (\<lambda>n. has_suffix n ''.parquet'') names then
               failResult check ref ''labels contains data; it is reserved surface and not yet written by any tool''
             else passResult check ref)"

definition unjoinable :: "nat \<times> Outcome \<Rightarrow> string option" where
  "unjoinable iob =
     (let o1 = snd iob; outcome = ''outcome '' @ format_int (int (fst iob))
      in if ocEntityName o1 = None \<or> ocEntityName o1 = Some [] then
           Some (outcome @ '' has no entity_name; it cannot be told apart from another key type'')
         else if ocEntityKey o1 = [] then Some (outcome @ '' has no entity_key'')
         else if ocKind o1 = [] then Some (outcome @ '' has no kind'')
         else if ocOccurredAt o1 < microFloor then
           Some (outcome @ '' occurred_at '' @ format_int (ocOccurredAt o1) @ '' is not plausibly microseconds'')
         else if ocObservedAt o1 < microFloor then
           Some (outcome @ '' observed_at '' @ format_int (ocObservedAt o1)
             @ '' is not plausibly microseconds; as-of joins depend on it'')
         else None)"

definition checkOutcomesJoinable :: "Dataset \<Rightarrow> Result" where
  "checkOutcomesJoinable d =
     (let check = ''outcomes carry join fields''; ref = sectionSign @ ''9.4''
      in if dsOutcomes d = [] then skipResult check ref ''no outcomes''
         else judged check ref (firstSome unjoinable (enumerate 0 (dsOutcomes d))))"

definition unidentified :: "string list \<Rightarrow> nat \<times> Reward \<Rightarrow> string option" where
  "unidentified known ir =
     (let w = snd ir; reward = ''reward '' @ format_int (int (fst ir))
      in if rwVerifierID w = [] \<or> rwVerifierVersion w = [] then
           Some (reward @ '' lacks verifier_id or verifier_version'')
         else if rwEpisodeID w \<notin> set known then
           Some (reward @ '' refers to episode '' @ rwEpisodeID w @ '', which is not in this lake'')
         else None)"

definition checkRewardsIdentified :: "Dataset \<Rightarrow> Result" where
  "checkRewardsIdentified d =
     (let check = ''rewards identify verifier and episode''; ref = ''F-13.2''
      in if dsRewards d = [] then skipResult check ref ''no rewards''
         else judged check ref
                (firstSome (unidentified (map epEpisodeID (dsEpisodes d))) (enumerate 0 (dsRewards d))))"

section \<open>The suite\<close>

definition allChecks :: "LakeFiles \<Rightarrow> Dataset \<Rightarrow> Result option list" where
  "allChecks F d =
     [Some (checkFilesReadable d), Some (checkSchemaVersionStamped d), Some (checkSchemaVersionConsistent d),
      Some (checkEpisodeRequiredFields d), Some (checkStatusVocabulary d), Some (checkKindVocabulary d),
      Some (checkTrainableVocabulary d), Some (checkStepsBelongToEpisodes d), Some (checkStepCountMatches d),
      Some (checkPayloadPlacement d), checkBlobsResolve F d, checkBlobHashesVerify F d,
      Some (checkParentIndicesValid d), Some (checkTimestampsSane d), Some (checkManifestsCoverFiles F d),
      Some (checkOutcomesJoinable d), Some (checkRewardsIdentified d), Some (checkReservedTablesEmpty F d)]"

fun runAll :: "Result option list \<Rightarrow> Result list option" where
  "runAll [] = Some []"
| "runAll (None # rs) = None"
| "runAll (Some r # rs) = map_option (Cons r) (runAll rs)"

definition Check :: "LakeFiles \<Rightarrow> Dataset \<Rightarrow> Report option" where
  "Check F d = map_option (\<lambda>rs. \<lparr>rpRoot = dsRoot d, rpResults = rs\<rparr>) (runAll (allChecks F d))"

end
