(* ===== verification/Importers_Props.thy ===== *)
theory Importers_Props
  imports Importers Conformance
begin

text \<open>
  Imports end to end. \<open>planned\<close> is what an export holds for the pipeline, with no pipeline in it; every
  importer hands over exactly that, in order, and accounts for the rest (\<open>importItems\<close>). Then the types of the
  imported steps and the attributes of Phoenix spans.
\<close>

section \<open>Warnings\<close>

lemma Warn_simps [simp]:
  "isSkipped (Warn w st) = isSkipped st + 1" "isRecords (Warn w st) = isRecords st" "isSpans (Warn w st) = isSpans st"
  by (simp_all add: Warn_def Let_def)

definition warnedWell :: "ImportStats \<Rightarrow> bool" where
  "warnedWell st \<longleftrightarrow> 0 \<le> isSkipped st \<and> length (isWarnings st) = nat (min (isSkipped st) 21)"

lemma warnedWell_intros [intro, simp]:
  "warnedWell noStats" "warnedWell st \<Longrightarrow> warnedWell (Warn w st)"
  "warnedWell (st\<lparr>isSpans := n\<rparr>) = warnedWell st" "warnedWell (st\<lparr>isRecords := n\<rparr>) = warnedWell st"
  by (auto simp: warnedWell_def noStats_def Warn_def Let_def maxWarnings_def)

section \<open>What an export holds\<close>

text \<open>The items of a run of records: a warning or an envelope each.\<close>

fun converted :: "(nat \<Rightarrow> 'a \<Rightarrow> 'w + Envelope list) \<Rightarrow> nat \<Rightarrow> 'a list \<Rightarrow> Envelope list" where
  "converted conv i [] = []"
| "converted conv i (x # xs) = (case conv i x of Inl w \<Rightarrow> [] | Inr envs \<Rightarrow> envs) @ converted conv (Suc i) xs"

definition one :: "('w + Envelope) \<Rightarrow> ('w + Envelope list)" where
  "one r = (case r of Inl w \<Rightarrow> Inl w | Inr env \<Rightarrow> Inr [env])"

lemma one_simps [simp]: "one (Inl w) = Inl w" "one (Inr env) = Inr [env]"
  by (simp_all add: one_def)

definition episodeEnvelopes :: "ImportLib \<Rightarrow> string \<Rightarrow> nat \<Rightarrow> nat \<Rightarrow> WireEpisode \<Rightarrow> wireError + Envelope list" where
  "episodeEnvelopes L name c i ep = ToEnvelopes (stepClock (ilDecoders L) (c + i)) name ep"

definition decodedLine :: "ImportLib \<Rightarrow> string \<Rightarrow> wireError + WireEpisode list" where
  "decodedLine L text = DecodeEpisodes (jsonEpisodes (ilDecoders L)) (jsonEpisode (ilDecoders L)) text"

definition lineEnvelopes :: "ImportLib \<Rightarrow> string \<Rightarrow> nat \<Rightarrow> string \<Rightarrow> wireError + Envelope list" where
  "lineEnvelopes L name line raw =
     (if skippedLine (trim_space raw) then Inr []
      else map_sum id (converted (episodeEnvelopes L name line) 0) (decodedLine L (trim_space raw)))"

definition lineItems :: "ImportLib \<Rightarrow> string \<Rightarrow> nat" where
  "lineItems L raw =
     (if skippedLine (trim_space raw) then 0
      else case decodedLine L (trim_space raw) of Inl e \<Rightarrow> 1 | Inr eps \<Rightarrow> length eps)"

fun rawRecords :: "importer \<Rightarrow> ImportLib \<Rightarrow> string \<Rightarrow> string list" where
  "rawRecords LangfuseImporter L body = (case decodeLoose L [''data'', ''observations''] body of Inl e \<Rightarrow> [] | Inr raws \<Rightarrow> raws)"
| "rawRecords LangsmithImporter L body = (case decodeLoose L [''runs'', ''data''] body of Inl e \<Rightarrow> [] | Inr raws \<Rightarrow> raws)"
| "rawRecords PhoenixImporter L body = (case decodeLoose L [''spans'', ''data''] body of Inl e \<Rightarrow> [] | Inr raws \<Rightarrow> raws)"
| "rawRecords JSONLImporter L body = scanLines body"
| "rawRecords NativeImporter L body = []"

definition documentEpisodes :: "ImportLib \<Rightarrow> string \<Rightarrow> WireEpisode list" where
  "documentEpisodes L body = (case decodedLine L body of Inl e \<Rightarrow> [] | Inr eps \<Rightarrow> eps)"

fun planned :: "importer \<Rightarrow> ImportLib \<Rightarrow> string \<Rightarrow> string \<Rightarrow> Envelope list" where
  "planned JSONLImporter L name body = converted (lineEnvelopes L name) 0 (scanLines body)"
| "planned NativeImporter L name body = converted (episodeEnvelopes L name 0) 0 (documentEpisodes L body)"
| "planned LangfuseImporter L name body = converted (\<lambda>i. one \<circ> langfuseRecord L name i) 0 (rawRecords LangfuseImporter L body)"
| "planned LangsmithImporter L name body = converted (\<lambda>i. one \<circ> langsmithRecord L name i) 0 (rawRecords LangsmithImporter L body)"
| "planned PhoenixImporter L name body =
     (case ilBuiltins L of
        Inl e \<Rightarrow> []
      | Inr reg \<Rightarrow> converted (\<lambda>i. one \<circ> phoenixRecord L reg name i) 0 (rawRecords PhoenixImporter L body))"

fun importItems :: "importer \<Rightarrow> ImportLib \<Rightarrow> string \<Rightarrow> nat" where
  "importItems JSONLImporter L body = sum_list (map (lineItems L) (scanLines body))"
| "importItems NativeImporter L body = length (documentEpisodes L body)"
| "importItems LangfuseImporter L body = length (rawRecords LangfuseImporter L body)"
| "importItems LangsmithImporter L body = length (rawRecords LangsmithImporter L body)"
| "importItems PhoenixImporter L body = length (rawRecords PhoenixImporter L body)"

section \<open>Every importer follows the plan\<close>

text \<open>
  \<open>follows\<close>: from the statistics \<open>st\<close> and the state \<open>s\<close> the run pushes a prefix of \<open>envs\<close>, all of it when
  it ends without an error, counts every envelope pushed and, over \<open>n\<close> items, every item.
\<close>

definition follows ::
  "(Envelope \<Rightarrow> 's \<Rightarrow> 'e option \<times> 's) \<Rightarrow> Envelope list \<Rightarrow> nat \<Rightarrow> ImportStats \<Rightarrow> 's
    \<Rightarrow> ImportStats \<times> 'e importError option \<times> 's \<Rightarrow> bool"
where
  "follows emit envs n st s out \<longleftrightarrow>
     (\<exists>k r. pushAll emit envs s = (k, r, snd (snd out)) \<and> fst (snd out) = map_option Refused r
        \<and> isSpans (fst out) = isSpans st + int k
        \<and> (warnedWell st \<longrightarrow> warnedWell (fst out))
        \<and> (r = None \<longrightarrow> isRecords (fst out) + isSkipped (fst out) = isRecords st + isSkipped st + int n))"

lemma follows_nil [simp]: "follows emit [] 0 st s (st, None, s)"
  by (simp add: follows_def)

lemma follows_warn:
  assumes "follows emit envs n (Warn w st) s out"
  shows "follows emit envs (Suc n) st s out"
  using assms by (auto simp: follows_def)

lemma follows_append:
  assumes "follows emit xs m st s (st1, None, s1)" and "follows emit ys n st1 s1 out"
  shows "follows emit (xs @ ys) (m + n) st s out"
proof -
  obtain k where k: "pushAll emit xs s = (k, None, s1)" "isSpans st1 = isSpans st + int k"
      "warnedWell st \<longrightarrow> warnedWell st1" "isRecords st1 + isSkipped st1 = isRecords st + isSkipped st + int m"
    using assms(1) by (auto simp: follows_def)
  then show ?thesis using assms(2) by (auto simp: follows_def pushAll_append)
qed

lemma follows_stop:
  assumes "follows emit xs m st s (st1, Some er, s1)"
  shows "follows emit (xs @ ys) (m + n) st s (st1, Some er, s1)"
proof -
  obtain k e where "pushAll emit xs s = (k, Some e, s1)" "er = Refused e" "isSpans st1 = isSpans st + int k"
      "warnedWell st \<longrightarrow> warnedWell st1"
    using assms by (auto simp: follows_def) (metis map_option_eq_Some)+
  then show ?thesis by (auto simp: follows_def pushAll_append)
qed

lemma importEpisodes_follows:
  "follows emit (converted (episodeEnvelopes L name c) i eps) (length eps) st s
     (importEpisodes L emit name warn c i eps st s)"
proof (induction L emit name warn c i eps st s rule: importEpisodes.induct)
  case (2 L emit name warn c i ep eps st s)
  let ?r = "ToEnvelopes (stepClock (ilDecoders L) (c + i)) name ep"
  have E: "episodeEnvelopes L name c i ep = ?r" by (simp add: episodeEnvelopes_def)
  show ?case
  proof (cases ?r)
    case (Inl e)
    then show ?thesis using 2(1) [OF Inl] by (auto simp: E intro: follows_warn)
  next
    case (Inr envs)
    obtain n r s1 where P: "pushAll emit envs s = (n, r, s1)" by (metis prod_cases3)
    show ?thesis
    proof (cases r)
      case None
      let ?st = "st\<lparr>isSpans := isSpans st + int n, isRecords := isRecords st + 1\<rparr>"
      have here: "follows emit envs 1 st s (?st, None, s1)" using P None by (simp add: follows_def)
      have "follows emit (converted (episodeEnvelopes L name c) (Suc i) eps) (length eps) ?st s1
          (importEpisodes L emit name warn c (Suc i) eps ?st s1)"
        using 2(2) [OF Inr P [symmetric] _ None] by auto
      from follows_append [OF here this] show ?thesis using Inr P None by (simp add: E)
    next
      case (Some er)
      have "follows emit envs 1 st s (st\<lparr>isSpans := isSpans st + int n\<rparr>, Some (Refused er), s1)"
        using P Some by (simp add: follows_def)
      from follows_stop [OF this, of "converted (episodeEnvelopes L name c) (Suc i) eps" "length eps"]
      show ?thesis using Inr P Some by (simp add: E)
    qed
  qed
qed simp

lemma importLines_follows:
  "follows emit (converted (lineEnvelopes L name) line raws) (sum_list (map (lineItems L) raws)) st s
     (importLines L emit name line raws st s)"
proof (induction L emit name line raws st s rule: importLines.induct)
  case (2 L emit name line raw rest st s)
  let ?text = "trim_space raw"
  let ?later = "converted (lineEnvelopes L name) (Suc line) rest"
  show ?case
  proof (cases "skippedLine ?text")
    case True
    then show ?thesis using 2(1) [OF refl True] by (simp add: lineEnvelopes_def lineItems_def)
  next
    case False
    show ?thesis
    proof (cases "decodedLine L ?text")
      case (Inl e)
      then show ?thesis using 2(2) [OF refl False Inl [unfolded decodedLine_def]] False
        by (simp add: lineEnvelopes_def lineItems_def decodedLine_def follows_warn)
    next
      case (Inr eps)
      let ?envs = "converted (episodeEnvelopes L name line) 0 eps"
      have here: "follows emit ?envs (length eps) st s
          (importEpisodes L emit name (\<lambda>i. WarnLine (Suc line)) line 0 eps st s)"
        by (rule importEpisodes_follows)
      obtain st1 r s1 where I: "importEpisodes L emit name (\<lambda>i. WarnLine (Suc line)) line 0 eps st s = (st1, r, s1)"
        by (metis prod_cases3)
      have E: "lineEnvelopes L name line raw = Inr ?envs" "lineItems L raw = length eps"
        using False Inr by (simp_all add: lineEnvelopes_def lineItems_def)
      show ?thesis
      proof (cases r)
        case None
        then have "follows emit ?later (sum_list (map (lineItems L) rest)) st1 s1
            (importLines L emit name (Suc line) rest st1 s1)"
          using 2(3) [OF refl False Inr [unfolded decodedLine_def] I [symmetric]] by simp
        then show ?thesis using follows_append here E I None False Inr by (fastforce simp: decodedLine_def)
      next
        case (Some er)
        then show ?thesis using follows_stop here E I False Inr by (fastforce simp: decodedLine_def)
      qed
    qed
  qed
qed simp

lemma importRecords_follows:
  "follows emit (converted (\<lambda>i. one \<circ> conv i) i raws) (length raws) (st\<lparr>isRecords := isSpans st\<rparr>) s
     (importRecords conv emit i raws st s)"
proof (induction conv emit i raws st s rule: importRecords.induct)
  case (2 conv emit i raw raws st s)
  let ?st0 = "st\<lparr>isRecords := isSpans st\<rparr>"
  show ?case
  proof (cases "conv i raw")
    case (Inl w)
    have "(Warn w st)\<lparr>isRecords := isSpans (Warn w st)\<rparr> = Warn w ?st0" by (simp add: Warn_def Let_def)
    then show ?thesis using 2(1) [OF Inl] Inl by (auto intro: follows_warn)
  next
    case (Inr env)
    obtain r s1 where P: "emit env s = (r, s1)" by force
    show ?thesis
    proof (cases r)
      case None
      let ?st1 = "st\<lparr>isSpans := isSpans st + 1\<rparr>"
      have "follows emit [env] 1 ?st0 s (?st1\<lparr>isRecords := isSpans ?st1\<rparr>, None, s1)"
        using P None by (simp add: follows_def)
      moreover have "follows emit (converted (\<lambda>i. one \<circ> conv i) (Suc i) raws) (length raws) (?st1\<lparr>isRecords := isSpans ?st1\<rparr>) s1
          (importRecords conv emit (Suc i) raws ?st1 s1)"
        using 2(2) [OF Inr P [symmetric] None] by (simp add: comp_def)
      ultimately have "follows emit ([env] @ converted (\<lambda>i. one \<circ> conv i) (Suc i) raws) (1 + length raws) ?st0 s
          (importRecords conv emit (Suc i) raws ?st1 s1)"
        by (rule follows_append)
      then show ?thesis using Inr P None by (simp add: comp_def)
    next
      case (Some er)
      then have "follows emit [env] 1 ?st0 s (st, Some (Refused er), s1)" using P by (simp add: follows_def)
      from follows_stop [OF this, of "converted (\<lambda>i. one \<circ> conv i) (Suc i) raws" "length raws"]
      show ?thesis using Inr P Some by (simp add: comp_def)
    qed
  qed
qed (simp add: follows_def)

definition ended :: "(Envelope \<Rightarrow> 's \<Rightarrow> 'e option \<times> 's) \<Rightarrow> Envelope list \<Rightarrow> nat \<Rightarrow> 's \<Rightarrow> ImportStats \<times> 'e importError option \<times> 's \<Rightarrow> bool"
where
  "ended emit envs n s out \<longleftrightarrow>
     warnedWell (fst out)
     \<and> (snd (snd out) = s \<or> (\<exists>k r. pushAll emit envs s = (k, r, snd (snd out))))
     \<and> (fst (snd out) = None \<longrightarrow>
          pushAll emit envs s = (length envs, None, snd (snd out))
          \<and> isSpans (fst out) = int (length envs)
          \<and> isRecords (fst out) + isSkipped (fst out) = int n)"

lemma noStats_simps [simp]: "isRecords noStats = 0" "isSpans noStats = 0" "isSkipped noStats = 0" "noStats\<lparr>isRecords := 0\<rparr> = noStats"
  by (simp_all add: noStats_def)

lemma ended_follows: "follows emit envs n noStats s out \<Longrightarrow> ended emit envs n s out"
  using pushAll_count [of emit envs s] by (fastforce simp: follows_def ended_def)

lemma ended_early: "ended emit envs n s (noStats, Some e, s)"
  by (simp add: ended_def)

lemma ended_records: "ended emit (converted (\<lambda>i. one \<circ> conv i) 0 raws) (length raws) s (importRecords conv emit 0 raws noStats s)"
  using importRecords_follows [of emit conv 0 raws noStats s] by (simp add: ended_follows)

lemma runImporter_ended:
  "ended emit (planned imp L name (irText r)) (importItems imp L (irText r)) s (runImporter imp L r name emit s)"
proof (cases imp)
  case JSONLImporter
  have "ended emit (planned imp L name (irText r)) (importItems imp L (irText r)) s
      (importLines L emit name 0 (scanLines (irText r)) noStats s)"
    using ended_follows [OF importLines_follows [of emit L name 0 "scanLines (irText r)" noStats s]] JSONLImporter by simp
  then show ?thesis using JSONLImporter
    by (auto simp: ImportJSONL_def ended_def split: prod.splits option.splits)
next
  case NativeImporter
  show ?thesis
  proof (cases "decodedLine L (irText r)")
    case (Inr eps)
    then show ?thesis using NativeImporter importEpisodes_follows [of emit L name 0 0 eps noStats s WarnEpisode]
      by (auto simp: ImportNative_def readAll_def ended_early documentEpisodes_def decodedLine_def intro: ended_follows)
  qed (auto simp: NativeImporter ImportNative_def readAll_def ended_early decodedLine_def)
next
  case LangfuseImporter
  then show ?thesis
    by (auto simp: ImportLangfuse_def readAll_def ended_early ended_records split: sum.splits)
next
  case LangsmithImporter
  then show ?thesis
    by (auto simp: ImportLangsmith_def readAll_def ended_early ended_records split: sum.splits)
next
  case PhoenixImporter
  then show ?thesis
    by (auto simp: ImportPhoenix_def readAll_def ended_early ended_records split: sum.splits)
qed

text \<open>
  C30. An import that ends without an error has handed the pipeline exactly the envelopes the export
  holds, in their order, and accounts for every item of the export: what is not counted as a record is
  counted as skipped, with a warning for each of the first twenty.
\<close>

theorem import_accounts:
  assumes "runImporter imp L r name emit s = (st, None, s')"
  shows "pushAll emit (planned imp L name (irText r)) s = (length (planned imp L name (irText r)), None, s')
    \<and> isSpans st = int (length (planned imp L name (irText r)))
    \<and> isRecords st + isSkipped st = int (importItems imp L (irText r))
    \<and> length (isWarnings st) = nat (min (isSkipped st) 21)"
  using runImporter_ended [of emit imp L name r s] assms by (simp add: ended_def warnedWell_def)

section \<open>Imported steps\<close>

lemma converted_in: "env \<in> set (converted conv i xs) \<Longrightarrow> \<exists>j x envs. x \<in> set xs \<and> conv j x = Inr envs \<and> env \<in> set envs"
proof (induction xs arbitrary: i)
  case (Cons x xs)
  show ?case
  proof (cases "env \<in> set (converted conv (Suc i) xs)")
    case True
    then show ?thesis using Cons.IH by fastforce
  next
    case False
    then have "env \<in> set (case conv i x of Inl w \<Rightarrow> [] | Inr envs \<Rightarrow> envs)" using Cons.prems by simp
    then show ?thesis by (cases "conv i x") (auto intro!: exI [of _ i] exI [of _ x])
  qed
qed simp

lemma one_InrD: "one r = Inr envs \<Longrightarrow> env \<in> set envs \<Longrightarrow> r = Inr env"
  by (cases r) auto

lemma one_in: "env \<in> set (converted (\<lambda>i. one \<circ> conv i) i xs) \<Longrightarrow> \<exists>j x. conv j x = Inr env"
  using converted_in [of env "\<lambda>i. one \<circ> conv i" i xs] one_InrD by fastforce

lemma vendor_kinds: "langfuseKind t \<in> set kindVocabulary" "langsmithKind t \<in> set kindVocabulary"
  by (simp_all add: langfuseKind_def langsmithKind_def kindVocabulary_def)

definition vendorStep :: "Step \<Rightarrow> bool" where
  "vendorStep s \<longleftrightarrow>
     stKind s \<in> set kindVocabulary \<and> stTrainable s = TrainableUnknown \<and> stTokenSpans s = []
     \<and> stContentRef s = None \<and> stParentIdx s = None
     \<and> (\<forall>n. stToolName s = Some n \<longrightarrow> n \<noteq> [] \<and> stKind s = KindTool)
     \<and> (\<forall>n. stModel s = Some n \<longrightarrow> n \<noteq> []) \<and> (\<forall>c. stContentInline s = Some c \<longrightarrow> c \<noteq> [])"

lemma langfuseEnvelope_step: "vendorStep (envStep (langfuseEnvelope L name x start))"
  using vendor_kinds(1) by (auto simp: vendorStep_def langfuseEnvelope_def langfuseStep_def Let_def zeroStep_def)

lemma langsmithEnvelope_step: "vendorStep (envStep (langsmithEnvelope L name session x start))"
  using vendor_kinds(2) by (auto simp: vendorStep_def langsmithEnvelope_def langsmithStep_def Let_def zeroStep_def)

lemma langfuseRecord_InrD:
  "langfuseRecord L name i raw = Inr env \<Longrightarrow>
     \<exists>x start. env = langfuseEnvelope L name x start \<and> (lgTraceID x \<noteq> [] \<or> lgSessionID x \<noteq> [])"
  by (auto simp: langfuseRecord_def split: option.splits if_splits)

lemma langsmithRecord_InrD:
  "langsmithRecord L name i raw = Inr env \<Longrightarrow> \<exists>x session start. env = langsmithEnvelope L name session x start \<and> session \<noteq> []"
  by (auto simp: langsmithRecord_def Let_def split: option.splits if_splits)

lemma vendor_no_error: "stError (langfuseStep L x start) = None" "stError (langsmithStep L y start) = None"
  by (simp_all add: langfuseStep_def langsmithStep_def Let_def zeroStep_def)

text \<open>
  Every step imported from Langfuse or LangSmith has a kind of the vocabulary, is marked unknown for
  training, names a tool only when it is a tool call, and belongs to a named session of the given source.
\<close>

theorem imported_steps_typed:
  assumes "imp = LangfuseImporter \<or> imp = LangsmithImporter" and "env \<in> set (planned imp L name body)"
  shows "vendorStep (envStep env) \<and> envSessionKey env \<noteq> [] \<and> envSource env = name \<and> \<not> envTerminal env
    \<and> envError env = stError (envStep env)"
  using assms(1)
proof
  assume "imp = LangfuseImporter"
  then obtain x start where x: "env = langfuseEnvelope L name x start" "lgTraceID x \<noteq> [] \<or> lgSessionID x \<noteq> []"
    using assms(2) one_in langfuseRecord_InrD by (metis planned.simps(3))
  have "vendorStep (envStep env)" unfolding x(1) by (rule langfuseEnvelope_step)
  then show ?thesis using x(2) vendor_no_error(1) by (auto simp: x(1) langfuseEnvelope_def Let_def)
next
  assume "imp = LangsmithImporter"
  then obtain x session start where x: "env = langsmithEnvelope L name session x start" "session \<noteq> []"
    using assms(2) one_in langsmithRecord_InrD by (metis planned.simps(4))
  have "vendorStep (envStep env)" unfolding x(1) by (rule langsmithEnvelope_step)
  then show ?thesis using x(2) vendor_no_error(2) by (auto simp: x(1) langsmithEnvelope_def Let_def)
qed

section \<open>Phoenix attributes\<close>

text \<open>The leaves of an attribute object, with their dotted paths, in the order they are stored.\<close>

function leaves :: "ImportLib \<Rightarrow> string \<Rightarrow> (string \<times> json) list \<Rightarrow> (string \<times> string) list" where
  "leaves L prefix [] = []"
| "leaves L prefix ((k, v) # kvs) =
     (let name = (if prefix = [] then k else prefix @ ''.'' @ k)
      in (case v of
            JObj inner \<Rightarrow> leaves L name inner
          | JStr t \<Rightarrow> [(name, t)]
          | JNum n \<Rightarrow> [(name, numberText L n)]
          | JBool b \<Rightarrow> [(name, if b then ''true'' else ''false'')]
          | JNull \<Rightarrow> []
          | JArr xs \<Rightarrow> [(name, json_encode v)]) @ leaves L prefix kvs)"
  by pat_completeness auto
termination
  by (relation "measure (\<lambda>(L, prefix, kvs). size_list (size_prod (\<lambda>_. 0) size) kvs)") auto

lemma distinct_flattenInto: "distinct (map fst out) \<Longrightarrow> distinct (map fst (flattenInto L prefix kvs out))"
proof (induction L prefix kvs out rule: flattenInto.induct)
  case (2 L prefix k v kvs out)
  have F: "distinct (map fst (fold (\<lambda>(nk, nv). AList.update nk nv) xs out))" for xs :: "(string \<times> string) list"
    using "2.prems" by (induction xs arbitrary: out) (auto simp: distinct_update)
  show ?case using 2 F by (cases v) (simp_all add: Let_def distinct_update)
qed simp

lemma map_of_update_append: "map_of (AList.update k v out) = map_of out ++ [k \<mapsto> v]"
  by (simp add: update_conv')

lemma map_of_snoc: "map_of (xs @ [(k, v)]) = [k \<mapsto> v] ++ map_of xs"
  by simp

lemma flattenInto_leaves: "map_of (flattenInto L prefix kvs out) = map_of out ++ map_of (rev (leaves L prefix kvs))"
proof (induction L prefix kvs out rule: flattenInto.induct)
  case (2 L prefix k v kvs out)
  let ?name = "if prefix = [] then k else prefix @ ''.'' @ k"
  let ?out = "case v of
      JObj inner \<Rightarrow> fold (\<lambda>(nk, nv). AList.update nk nv) (flattenInto L ?name inner []) out
    | JStr t \<Rightarrow> AList.update ?name t out
    | JNum n \<Rightarrow> AList.update ?name (numberText L n) out
    | JBool b \<Rightarrow> AList.update ?name (if b then ''true'' else ''false'') out
    | JNull \<Rightarrow> out
    | JArr xs \<Rightarrow> AList.update ?name (json_encode v) out"
  have later: "map_of (flattenInto L prefix ((k, v) # kvs) out) = map_of ?out ++ map_of (rev (leaves L prefix kvs))"
    using 2(2) by (simp add: Let_def)
  let ?here = "case v of
      JObj inner \<Rightarrow> leaves L ?name inner
    | JStr t \<Rightarrow> [(?name, t)]
    | JNum n \<Rightarrow> [(?name, numberText L n)]
    | JBool b \<Rightarrow> [(?name, if b then ''true'' else ''false'')]
    | JNull \<Rightarrow> []
    | JArr xs \<Rightarrow> [(?name, json_encode v)]"
  have "map_of ?out = map_of out ++ map_of (rev ?here)"
  proof (cases v)
    case (JObj inner)
    have "map_of (flattenInto L ?name inner []) = map_of (rev (leaves L ?name inner))"
      using 2(1) [OF refl JObj] by simp
    moreover have "map_of (rev (flattenInto L ?name inner [])) = map_of (flattenInto L ?name inner [])"
      by (rule map_of_reordered) (simp_all add: distinct_flattenInto)
    ultimately show ?thesis by (simp add: JObj map_of_fold_update)
  qed (simp_all only: json.case map_of_update_append rev.simps append.simps map_of.simps list.simps fst_conv snd_conv map_add_empty)
  then show ?case unfolding later by (simp add: Let_def)
qed simp

text \<open>
  A Phoenix attribute is what the last leaf with its dotted path says: when no two leaves of the
  object have the same path, each leaf is an attribute and there are no others.
\<close>

theorem phoenix_attributes:
  assumes "distinct (map fst (leaves L [] kvs))"
  shows "map_of (flattenAttrs L [] kvs) = map_of (leaves L [] kvs)"
  using flattenInto_leaves [of L "[]" kvs "[]"] map_of_reordered [of "leaves L [] kvs" "rev (leaves L [] kvs)"] assms
  by (simp add: flattenAttrs_def)

theorem phoenix_attributes_witness:
  "map_of (flattenAttrs L [] [(''llm'', JObj [(''model_name'', JStr ''m''), (''ok'', JBool True)]), (''id'', JStr ''x'')])
    = map_of [(''llm.model_name'', ''m''), (''llm.ok'', ''true''), (''id'', ''x'')]"
  using phoenix_attributes [of L "[(''llm'', JObj [(''model_name'', JStr ''m''), (''ok'', JBool True)]), (''id'', JStr ''x'')]"]
  by (simp add: Let_def)

text \<open>
  A nested object and a dotted key with the same path: which one the attribute is depends on the order
  in which Go happens to walk the map.
\<close>

theorem phoenix_order_dependent:
  "mset [(''a'', JObj [(''b'', JStr ''x'')]), (''a.b'', JStr ''y'')] = mset [(''a.b'', JStr ''y''), (''a'', JObj [(''b'', JStr ''x'')])]
   \<and> map_of (flattenAttrs L [] [(''a'', JObj [(''b'', JStr ''x'')]), (''a.b'', JStr ''y'')]) ''a.b'' = Some ''y''
   \<and> map_of (flattenAttrs L [] [(''a.b'', JStr ''y''), (''a'', JObj [(''b'', JStr ''x'')])]) ''a.b'' = Some ''x''"
  by (simp add: flattenAttrs_def Let_def)

section \<open>An example export\<close>

definition exObservation :: LangfuseObservation where
  "exObservation =
     \<lparr>lgID = ''o1'', lgTraceID = ''t1'', lgParentObservationID = [], lgType = ''GENERATION'', lgName = ''call'',
      lgStartTime = ''x'', lgEndTime = [], lgModel = ''m'', lgInput = [], lgOutput = [], lgLevel = [], lgStatusMessage = [],
      lgSessionID = [], lgTemperature = Some 1, lgTopP = None, lgMaxTokens = None, lgUsageInput = None, lgUsageOutput = None,
      lgMetadata = []\<rparr>"

text \<open>Two records: an observation, and one that is not JSON.\<close>

definition exImportLib :: ImportLib where
  "exImportLib =
     \<lparr>ilDecoders = \<lparr>jsonEpisodes = (\<lambda>_. None), jsonEpisode = (\<lambda>_. None), jsonSpans = (\<lambda>_. None), jsonSpan = (\<lambda>_. None),
        jsonOutcomes = (\<lambda>_. None), jsonOutcome = (\<lambda>_. None), protoEpisodes = (\<lambda>_. None), protoSpans = (\<lambda>_. None),
        stepClock = (\<lambda>_ _. 0)\<rparr>,
      ilNorm = \<lparr>nlParseFloat = (\<lambda>_. None), nlValid = (\<lambda>_. False), nlParams = (\<lambda>_. None), nlStrings = (\<lambda>_. None)\<rparr>,
      ilArray = (\<lambda>_. Some [''a'', ''b'']), ilObject = (\<lambda>_. None),
      ilObservation = (\<lambda>s. if s = ''a'' then Some exObservation else None), ilRun = (\<lambda>_. None), ilPhoenix = (\<lambda>_. None),
      ilTime = (\<lambda>_ _. Some 7), ilNumber = (\<lambda>_. 0), ilFormatFloat = (\<lambda>_. []), ilBuiltins = Inr \<lparr>rgConventions = []\<rparr>\<rparr>"

definition exReader :: ImportReader where
  "exReader = \<lparr>irText = ''[a,b]'', irFault = False\<rparr>"

definition collect :: "Envelope \<Rightarrow> Envelope list \<Rightarrow> unit option \<times> Envelope list" where
  "collect env s = (None, s @ [env])"

lemma exExport_records: "rawRecords LangfuseImporter exImportLib (irText exReader) = [''a'', ''b'']"
  by code_simp

lemma exExport_plan:
  "planned LangfuseImporter exImportLib n (irText exReader) = [langfuseEnvelope exImportLib n exObservation 7]"
  unfolding planned.simps exExport_records
  by (simp add: langfuseRecord_def exImportLib_def exObservation_def parseTime_def exportLayouts_def)

theorem import_accounts_witness:
  "isSpans (fst (runImporter LangfuseImporter exImportLib exReader ''i'' collect [])) = 1
   \<and> isSkipped (fst (runImporter LangfuseImporter exImportLib exReader ''i'' collect [])) = 1"
proof -
  have "case runImporter LangfuseImporter exImportLib exReader ''i'' collect [] of
      (st, er, s) \<Rightarrow> er = None \<and> isRecords st = 1"
    by code_simp
  then obtain st s where R: "runImporter LangfuseImporter exImportLib exReader ''i'' collect [] = (st, None, s)" "isRecords st = 1"
    by (auto split: prod.splits)
  have "importItems LangfuseImporter exImportLib (irText exReader) = 2" by (simp add: exExport_records del: rawRecords.simps)
  then show ?thesis using import_accounts [OF R(1)] R unfolding exExport_plan by simp
qed

theorem imported_steps_typed_witness:
  "vendorStep (envStep (langfuseEnvelope exImportLib ''i'' exObservation 7))"
  using imported_steps_typed [of LangfuseImporter "langfuseEnvelope exImportLib ''i'' exObservation 7" exImportLib "''i''" "irText exReader"]
  unfolding exExport_plan by simp

text \<open>The fidelity of a Langfuse generation that carries a temperature reports parameters.\<close>

theorem langfuse_reports_params:
  assumes "lgType x = ''GENERATION''" and "lgTemperature x \<noteq> None"
  shows "HasParams (fidelityOf [langfuseStep L x start])"
  using assms by (simp add: fidelityOf_def fidelityStep_def langfuseStep_def langfuseKind_def Let_def enum_values)

end
