(* ===== verification/Import_Run.thy ===== *)
theory Import_Run
  imports Importers_Props Otlp_Props
begin

text \<open>
  \<^verbatim>\<open>RunImport\<close> (\<^verbatim>\<open>src/collector/service/import.go\<close>): an importer over the service's own entry point, the
  flush of what is still in assembly, and the delivery into the sink, which an import does on its own
  as no delivery loop is running. What an import leaves in the service, when it ends and when it fails.
\<close>

section \<open>The run\<close>

datatype importFault =
    ImportFailed "ingestError importError" | ImportSync bufError | ImportDeliver deliveryError | ImportFlush goError

definition RunImport ::
  "('l, 's) Deps \<Rightarrow> nat \<Rightarrow> importer \<Rightarrow> ImportLib \<Rightarrow> ImportReader \<Rightarrow> string \<Rightarrow> bool \<Rightarrow> ('l, 's) Service
    \<Rightarrow> (ImportStats \<times> importFault option \<times> ('l, 's) Service) option"
where
  "RunImport D fuel imp L r name dryRun s0 =
     (case runImporter imp L r name (onEnvelope D) (s0\<lparr>svDryRun := dryRun\<rparr>) of
        (st, Some e, s1) \<Rightarrow> Some (st, Some (ImportFailed e), s1)
      | (st, None, s1) \<Rightarrow>
          (case Flush StatusTimedOut (svAsm s1) of
             None \<Rightarrow> None
           | Some (eps, a) \<Rightarrow>
               let s2 = onEpisodes D eps (s1\<lparr>svAsm := a\<rparr>)
               in if dryRun then Some (st, None, s2)
                  else
                    (case Sync (svOS D s2) (svBuf s2) of
                       Some e \<Rightarrow> Some (st, Some (ImportSync e), s2)
                     | None \<Rightarrow>
                         (case drainBuffer D fuel s2 of
                            None \<Rightarrow> None
                          | Some (Some e, s3) \<Rightarrow> Some (st, Some (ImportDeliver e), s3)
                          | Some (None, s3) \<Rightarrow>
                              (case flushAndReport D s3 of (er, s4) \<Rightarrow> Some (st, map_option ImportFlush er, s4))))))"

record ImportResult =
  irEpisodes :: int
  irQuarantined :: int
  irSampled :: int
  irWithoutKeysRatio :: rat

definition importResult :: "('l, 's) Service \<Rightarrow> ImportResult" where
  "importResult s =
     \<lparr>irEpisodes = svEmitted s, irQuarantined = svQuarantined s, irSampled = svSampledOut s,
      irWithoutKeysRatio = CoverageRatio (plExtractor (svPol s))\<rparr>"

section \<open>What an import leaves behind\<close>

lemma assembledAll_inv: "asmInv a \<Longrightarrow> asmInv (assembledAll q envs a)"
proof -
  have "asmInv a \<Longrightarrow> asmInv (fold (\<lambda>env a. snd (Add env a)) envs a)" for envs a
    by (induction envs arbitrary: a) (simp_all add: Add_inv)
  then show "asmInv a \<Longrightarrow> asmInv (assembledAll q envs a)" by (simp add: assembledAll_def)
qed

lemma flushAndReport_asm: "flushAndReport D s = (er, s') \<Longrightarrow> svAsm s' = svAsm s"
  using flushNow_frame(3) [of D True s]
  by (auto simp: flushAndReport_def reportSink_def addDelta_def countMetric_def Let_def split: prod.splits option.splits if_splits)

lemma importer_assembles:
  assumes "runImporter imp L r name (onEnvelope D) s = (st, er, s')"
  shows "\<exists>k. svAsm s' = assembledAll (rates s) (take k (planned imp L name (irText r))) (svAsm s)
    \<and> (er = None \<longrightarrow> k = length (planned imp L name (irText r)))"
proof -
  let ?plan = "planned imp L name (irText r)"
  have E: "ended (onEnvelope D) ?plan (importItems imp L (irText r)) s (st, er, s')"
    using runImporter_ended [of "onEnvelope D" imp L name r s] assms by simp
  show ?thesis
  proof (cases er)
    case None
    then have "pushAll (onEnvelope D) ?plan s = (length ?plan, None, s')" using E by (simp add: ended_def)
    then show ?thesis using service_pushes(1) by (fastforce simp: rates_def)
  next
    case (Some e)
    then consider "s' = s" | k q where "pushAll (onEnvelope D) ?plan s = (k, q, s')" using E by (auto simp: ended_def)
    then show ?thesis
    proof cases
      case 1
      then show ?thesis using Some by (intro exI [of _ 0]) (simp add: assembledAll_def)
    next
      case 2
      then show ?thesis using Some service_pushes(1) [OF 2] by (auto simp: rates_def)
    qed
  qed
qed


text \<open>
  An import that fails on its input, on a quota or on backpressure returns before the flush: what the
  envelopes before the failure opened stays in the assembler of a process that is about to end.
\<close>

theorem failed_import_not_flushed:
  assumes "RunImport D fuel imp L r name dryRun s = Some (st, Some (ImportFailed e), s')"
  shows "\<exists>k. svAsm s' = assembledAll (rates s) (take k (planned imp L name (irText r))) (svAsm s)"
proof -
  let ?s0 = "s\<lparr>svDryRun := dryRun\<rparr>"
  obtain st1 er s1 where R: "runImporter imp L r name (onEnvelope D) ?s0 = (st1, er, s1)" by (metis prod_cases3)
  then have "s1 = s'"
    using assms by (auto simp: RunImport_def Let_def split: option.splits prod.splits if_splits)
  then show ?thesis using importer_assembles [OF R] by (auto simp: rates_def)
qed


end
