(* ===== verification/Otelcol.thy ===== *)
theory Otelcol
  imports Otlp_Props
begin

text \<open>
  The collector inside an OpenTelemetry Collector (\<^verbatim>\<open>src/otelcol/trajectoryexporter\<close>, \<^verbatim>\<open>RunBackground\<close> of
  \<^verbatim>\<open>src/collector/service/service.go\<close>): the exporter's settings, the conversion of the host's trace data
  and the background loop that takes the place of \<^verbatim>\<open>Run\<close>. The host's factories and the goroutines are
  outside the model; \<^verbatim>\<open>AsString\<close> of a floating-point attribute is an argument.
\<close>

section \<open>Settings\<close>

text \<open>
  \<^verbatim>\<open>parse\<close>: the settings that go to the shared parser, from the host's settings, the schema version of the
  build and the one source that stands for the host. The parser is an argument.
\<close>

definition exporterSettings :: "'v \<Rightarrow> 'v \<Rightarrow> (string \<rightharpoonup> 'v) \<Rightarrow> (string \<rightharpoonup> 'v) option" where
  "exporterSettings version stub given =
     (if given ''sources'' \<noteq> None then None
      else
        let settings = (if given ''schema_version'' = None then given(''schema_version'' \<mapsto> version) else given)
        in Some (settings(''sources'' \<mapsto> stub)))"

definition parseExporter :: "((string \<rightharpoonup> 'v) \<Rightarrow> configError + Config) \<Rightarrow> 'v \<Rightarrow> 'v \<Rightarrow> (string \<rightharpoonup> 'v) \<Rightarrow> configError option + Config" where
  "parseExporter parse version stub given =
     (case exporterSettings version stub given of
        None \<Rightarrow> Inl None
      | Some settings \<Rightarrow> map_sum Some id (parse settings))"

section \<open>Traces\<close>

definition asString :: "(rat \<Rightarrow> string) \<Rightarrow> attrValue \<Rightarrow> string" where
  "asString floatText v =
     (case v of
        AStr s \<Rightarrow> s
      | AInt n \<Rightarrow> format_int n
      | ADouble x \<Rightarrow> floatText x
      | ABool b \<Rightarrow> if b then ''true'' else ''false''
      | AOther s \<Rightarrow> s)"

definition exporterAttrs :: "(rat \<Rightarrow> string) \<Rightarrow> (string \<times> attrValue) list \<Rightarrow> (string, string) gomap" where
  "exporterAttrs floatText kvs = fold (\<lambda>(k, v). AList.update k (asString floatText v)) kvs []"

definition exporterSpan :: "(rat \<Rightarrow> string) \<Rightarrow> (string, string) gomap \<Rightarrow> string \<Rightarrow> string \<Rightarrow> OtlpSpan \<Rightarrow> NSpan" where
  "exporterSpan floatText resourceAttrs name version sp =
     \<lparr>nsTraceID = opTraceID sp, nsSpanID = opSpanID sp, nsParentSpanID = opParentSpanID sp, nsName = opName sp,
      nsStartedAtUS = godiv (wrap64 (int (opStart sp))) 1000, nsEndedAtUS = godiv (wrap64 (int (opEnd sp))) 1000,
      nsAttributes = fold (\<lambda>(k, v). AList.update k v) (exporterAttrs floatText (opAttributes sp)) resourceAttrs,
      nsStatusError = opStatusError sp, nsStatusMessage = (if opStatusError sp then opStatusMessage sp else []),
      nsScopeName = name, nsScopeVersion = version\<rparr>"

definition defaultKeyOrder :: "string list" where
  "defaultKeyOrder = [''session.id'', ''gen_ai.conversation.id'', ''trace_id'']"

definition exporterEnvelopes ::
  "NormLib \<Rightarrow> (rat \<Rightarrow> string) \<Rightarrow> Config \<Rightarrow> Registry \<Rightarrow> ResourceSpans list \<Rightarrow> Envelope list"
where
  "exporterEnvelopes N floatText cfg reg td =
     (let order0 = acSessionKey (cfAssembly cfg);
          ord = (if order0 = [] then defaultKeyOrder else order0)
      in concat (map (\<lambda>rs. concat (map (\<lambda>ss. map (\<lambda>sp.
           Normalize N (exporterSpan floatText (exporterAttrs floatText (rsAttributes rs)) (scName ss) (scVersion ss) sp) ''otelcol'' ord reg)
           (scSpans ss)) (rsScopes rs))) td))"

text \<open>The error is the host's sign to keep the data.\<close>

definition ConsumeTraces ::
  "NormLib \<Rightarrow> (rat \<Rightarrow> string) \<Rightarrow> Registry \<Rightarrow> ('l, 's) Deps \<Rightarrow> ResourceSpans list \<Rightarrow> ('l, 's) Service
    \<Rightarrow> ingestError option \<times> ('l, 's) Service"
where
  "ConsumeTraces N floatText reg D td s =
     snd (pushAll (onEnvelope D) (exporterEnvelopes N floatText (svCfg s) reg td) s)"

section \<open>The background loop\<close>

definition embeddedTick ::
  "('l, 's) Deps \<Rightarrow> (string \<times> int) list \<Rightarrow> (string \<times> int) list \<Rightarrow> ('l, 's) Service \<Rightarrow> ('l, 's) Service"
where
  "embeddedTick D received rejected s =
     (case Expire (svAsm s) of
        (eps, a) \<Rightarrow> tickSync D (reportBufferMetrics received rejected (onEpisodes D eps (s\<lparr>svAsm := a\<rparr>))))"

text \<open>The end of the loop: the errors of the delivery and of the flush are dropped.\<close>

definition embeddedStop :: "('l, 's) Deps \<Rightarrow> nat \<Rightarrow> ('l, 's) Service \<Rightarrow> ('l, 's) Service option" where
  "embeddedStop D fuel s =
     (case Flush StatusTimedOut (svAsm s) of
        None \<Rightarrow> None
      | Some (eps, a) \<Rightarrow>
          (case drainBuffer D fuel (onEpisodes D eps (s\<lparr>svAsm := a\<rparr>)) of
             None \<Rightarrow> None
           | Some (_, s2) \<Rightarrow> Some (snd (flushNow D True s2))))"

section \<open>The exporter and the receiver\<close>

text \<open>The attribute values the two print alike.\<close>

definition noDouble :: "(string \<times> attrValue) list \<Rightarrow> bool" where
  "noDouble kvs \<longleftrightarrow> (\<forall>kv \<in> set kvs. \<forall>x. snd kv \<noteq> ADouble x)"

definition noDoubles :: "ResourceSpans list \<Rightarrow> bool" where
  "noDoubles td \<longleftrightarrow>
     (\<forall>rs \<in> set td. noDouble (rsAttributes rs) \<and>
        (\<forall>ss \<in> set (rsScopes rs). \<forall>sp \<in> set (scSpans ss). noDouble (opAttributes sp)))"

lemma exporterAttrs_same:
  assumes "noDouble kvs"
  shows "exporterAttrs f kvs = attrsToMap L kvs"
proof -
  have "fold (\<lambda>(k, v). AList.update k (asString f v)) kvs out = fold (\<lambda>(k, v) out. AList.update k (attrText L v) out) kvs out" for out
    using assms
  proof (induction kvs arbitrary: out)
    case (Cons kv kvs)
    have "asString f (snd kv) = attrText L (snd kv)"
      using Cons.prems by (cases "snd kv") (auto simp: asString_def attrText_def noDouble_def)
    then show ?case using Cons by (simp add: case_prod_unfold noDouble_def)
  qed simp
  then show ?thesis by (simp add: exporterAttrs_def attrsToMap_def)
qed

text \<open>
  C34. The exporter and the OTLP receiver make the same envelopes of the same spans: for the same name,
  key order and conventions, and as long as no attribute is a floating-point number.
\<close>

theorem exporter_matches_receiver:
  assumes "noDoubles td" and "acSessionKey (cfAssembly cfg) \<noteq> []"
    and "ooName o0 = ''otelcol''" and "ooSessionKeyOrder o0 = acSessionKey (cfAssembly cfg)"
  shows "exporterEnvelopes (olNorm L) f cfg (ooConventions o0) td = otlpEnvelopes L o0 td"
proof -
  have span: "exporterSpan f (exporterAttrs f (rsAttributes rs)) (scName ss) (scVersion ss) sp =
      flattenSpan L (attrsToMap L (rsAttributes rs)) (scName ss) (scVersion ss) sp"
    if "rs \<in> set td" "ss \<in> set (rsScopes rs)" "sp \<in> set (scSpans ss)" for rs ss sp
    using that assms(1) exporterAttrs_same [of "rsAttributes rs" f L] exporterAttrs_same [of "opAttributes sp" f L]
    by (simp add: noDoubles_def exporterSpan_def flattenSpan_def microsOf_def)
  then show ?thesis using assms(2-4)
    by (auto simp: exporterEnvelopes_def otlpEnvelopes_def flattenTraces_def map_concat Let_def comp_def
        intro!: arg_cong [where f = concat] map_cong)
qed

text \<open>A floating-point attribute that the two libraries print differently ends up differently in the record.\<close>

theorem exporter_prints_doubles_differently:
  assumes "f x \<noteq> olFormatFloat L x"
  shows "nsAttributes (exporterSpan f [] n v sp\<lparr>nsAttributes := exporterAttrs f [(k, ADouble x)]\<rparr>) \<noteq> attrsToMap L [(k, ADouble x)]"
  using assms by (simp add: exporterAttrs_def attrsToMap_def asString_def attrText_def)

section \<open>Loss\<close>

text \<open>
  Every interleaving of an embedded process: spans from the host, the ticks of the loop, deliveries, and
  the end of the loop.
\<close>

inductive embeddedRun :: "('l, 's) Deps \<Rightarrow> ('l, 's) Service \<Rightarrow> ('l, 's) Service \<Rightarrow> bool" for D s0 where
  start: "embeddedRun D s0 s0"
| consume: "embeddedRun D s0 s \<Longrightarrow> ConsumeTraces N f reg D td s = (er, s') \<Longrightarrow> embeddedRun D s0 s'"
| tick: "embeddedRun D s0 s \<Longrightarrow> embeddedRun D s0 (embeddedTick D received rejected s)"
| flushDue: "embeddedRun D s0 s \<Longrightarrow> embeddedRun D s0 (tickFlush D s)"
| delivery: "embeddedRun D s0 s \<Longrightarrow> drainBuffer D fuel s = Some (er, s') \<Longrightarrow> embeddedRun D s0 s'"
| stop: "embeddedRun D s0 s \<Longrightarrow> embeddedStop D fuel s = Some s' \<Longrightarrow> embeddedRun D s0 s'"

lemma addDelta_marker [simp]: "svMarker (addDelta l a b s) = svMarker s"
  by (simp add: addDelta_def)

lemma countManifest_marker [simp]: "svMarker (countManifest mf s) = svMarker s"
  by (simp add: countManifest_def fold_frame [where g = svMarker] split: option.split)

lemma onEpisode_marker: "svMarker (onEpisode D ep s) = svMarker s"
proof -
  have Q: "svMarker (quarantine D e st u) = svMarker u" for e st u
    by (auto simp: quarantine_def readClock_def Let_def)
  have A: "appendPayload D p u = (ok, u') \<Longrightarrow> svMarker u' = svMarker u" for p u ok u'
    by (auto simp: appendPayload_def readClock_def split: prod.splits)
  have K: "svMarker (countKept e u) = svMarker u" for e u
    by (simp add: countKept_def Let_def)
  have E: "svMarker (emitEpisode D e u) = svMarker u" for e u
    by (auto simp: emitEpisode_def Let_def K split: option.splits prod.splits bool.splits dest: A)
  show ?thesis by (auto simp: onEpisode_def Let_def Q E split: prod.splits sum.splits)
qed

lemma onEpisodes_marker: "svMarker (onEpisodes D eps s) = svMarker s"
  unfolding onEpisodes_def by (rule fold_frame [where g = svMarker]) (simp add: onEpisode_marker)

lemma onEnvelope_marker: "onEnvelope D env s = (er, s') \<Longrightarrow> svMarker s' = svMarker s"
  by (auto simp: onEnvelope_def readClock_def Let_def onEpisodes_marker split: prod.splits if_splits)

lemma pushAll_marker: "pushAll (onEnvelope D) envs s = (n, er, s') \<Longrightarrow> svMarker s' = svMarker s"
proof (induction envs arbitrary: s n)
  case (Cons env envs)
  obtain r s1 where O: "onEnvelope D env s = (r, s1)" by force
  then show ?case
    using Cons.prems Cons.IH onEnvelope_marker [OF O] by (cases r) (auto split: prod.splits)
qed simp

lemma reportBufferMetrics_marker: "svMarker (reportBufferMetrics rc rj s) = svMarker s"
  by (simp add: reportBufferMetrics_def reportPipelineCounters_def reportSink_def reportRedactErrors_def reportRedactError_def
      reportRejected_def reportBytes_def Let_def fold_frame [where g = svMarker] case_prod_unfold)

lemma embeddedStop_effect:
  assumes "asmInv (svAsm s)" and "embeddedStop D fuel s = Some s'"
  shows "InFlight (svAsm s') = 0" and "svMarker s' = svMarker s"
proof -
  obtain eps a where F: "Flush StatusTimedOut (svAsm s) = Some (eps, a)" "order a = []"
    using Flush_closing [OF assms(1), of StatusTimedOut] by blast
  obtain er s2 where S: "drainBuffer D fuel (onEpisodes D eps (s\<lparr>svAsm := a\<rparr>)) = Some (er, s2)"
      "s' = snd (flushNow D True s2)"
    using assms(2) F(1) by (auto simp: embeddedStop_def split: option.splits)
  have "svMarker s' = svMarker (onEpisodes D eps (s\<lparr>svAsm := a\<rparr>))" "svAsm s' = a"
    using drainBuffer_frame [OF S(1)] S(2) by (auto simp: flushNow_frame onEpisodes_asm flushNow_def split: prod.splits)
  then show "InFlight (svAsm s') = 0" "svMarker s' = svMarker s" using F(2) by (simp_all add: InFlight_def onEpisodes_marker)
qed

lemma embeddedStop_marker: "embeddedStop D fuel s = Some s' \<Longrightarrow> svMarker s' = svMarker s"
  by (auto simp: embeddedStop_def flushNow_def onEpisodes_marker split: option.splits prod.splits dest!: drainBuffer_frame)

text \<open>
  Embedded, the loss marker never moves: in no interleaving of spans, ticks, deliveries and stops is
  the number of open episodes recorded, so a crash of the host loses them unmeasured.
\<close>

theorem embedded_never_marks:
  assumes "embeddedRun D s0 s"
  shows "svMarker s = svMarker s0 \<and> reportPreviousLoss (svMarker s) = reportPreviousLoss (svMarker s0)"
  using assms
proof (induction rule: embeddedRun.induct)
  case (consume s N f reg td er s')
  then show ?case using pushAll_marker [of D _ s] by (auto simp: ConsumeTraces_def split: prod.splits) (metis snd_conv surjective_pairing)+
next
  case (tick s received rejected)
  then show ?case
    by (simp add: embeddedTick_def tickSync_def readClock_def reportBufferMetrics_marker onEpisodes_marker split: prod.split)
next
  case (flushDue s)
  then show ?case by (auto simp: tickFlush_def flushNow_def split: prod.split)
next
  case (delivery s fuel er s')
  then show ?case using drainBuffer_frame by metis
next
  case (stop s fuel s')
  then show ?case using embeddedStop_marker by metis
qed simp

section \<open>Examples\<close>

definition exTraces :: "ResourceSpans list" where
  "exTraces = the (olUnmarshal exOtlpLib [])"

theorem exporter_matches_receiver_witness:
  "exporterEnvelopes exNormLib (\<lambda>x. ''1.5'') (exConfig\<lparr>cfAssembly := (cfAssembly exConfig)\<lparr>acSessionKey := [''trace_id'']\<rparr>\<rparr>) builtinRegistry exTraces
    = otlpEnvelopes exOtlpLib \<lparr>ooName = ''otelcol'', ooListen = [], ooGRPCListen = [], ooMaxRequestBytes = 0,
        ooSessionKeyOrder = [''trace_id''], ooConventions = builtinRegistry\<rparr> exTraces"
  using exporter_matches_receiver [of exTraces "exConfig\<lparr>cfAssembly := (cfAssembly exConfig)\<lparr>acSessionKey := [''trace_id'']\<rparr>\<rparr>"
      "\<lparr>ooName = ''otelcol'', ooListen = [], ooGRPCListen = [], ooMaxRequestBytes = 0,
        ooSessionKeyOrder = [''trace_id''], ooConventions = builtinRegistry\<rparr>" exOtlpLib "\<lambda>x. ''1.5''"]
  by (simp add: exTraces_def exOtlpLib_def noDoubles_def noDouble_def)

theorem embedded_never_marks_witness:
  "\<exists>s0. exStart = Inr s0 \<and> svMarker (snd (ConsumeTraces exNormLib (\<lambda>x. []) builtinRegistry exDeps exTraces s0)) = svMarker s0"
proof -
  have "case exStart of Inl e \<Rightarrow> False | Inr s \<Rightarrow> True" by code_simp
  then obtain s0 where "exStart = Inr s0" by (auto split: sum.splits)
  moreover have "embeddedRun exDeps s0 (snd (ConsumeTraces exNormLib (\<lambda>x. []) builtinRegistry exDeps exTraces s0))"
    by (rule embeddedRun.consume [OF embeddedRun.start prod.collapse [symmetric]])
  ultimately show ?thesis using embedded_never_marks by blast
qed

end
