(* ===== verification/Conformance_Props.thy ===== *)
theory Conformance_Props
  imports Conformance Assembly_Inv
begin

text \<open>
  What the conformance suite decides. \<open>conforming\<close> states the promises of the format about the
  rows, blobs and manifests of a lake with no reference to the checks; the suite passes exactly on
  the conforming lakes. Then what the collector's own assembly gives the suite: the episodes the
  assembler closes satisfy the checks on steps, and a late-span patch breaks one of them.
\<close>

section \<open>Searching for the first offender\<close>

lemma firstSome_None [simp]: "firstSome f xs = None \<longleftrightarrow> (\<forall>x \<in> set xs. f x = None)"
  by (induction xs) (auto split: option.splits)

lemma firstSome_SomeD: "firstSome f xs = Some y \<Longrightarrow> \<exists>x \<in> set xs. f x = Some y"
  by (induction xs) (auto split: option.splits)

lemma list_all_enumerate: "(\<forall>ix \<in> set (enumerate n xs). P (snd ix)) \<longleftrightarrow> (\<forall>x \<in> set xs. P x)"
  by (induction xs arbitrary: n) auto

definition fine :: "Result \<Rightarrow> bool" where
  "fine r \<longleftrightarrow> rsPassed r \<or> rsSkipped r"

lemma fine_results [simp]:
  "fine (passResult c ref)" "fine (skipResult c ref why)" "\<not> fine (failResult c ref why)"
  by (simp_all add: fine_def result_defs)

lemma fine_judged [simp]: "fine (judged c ref p) \<longleftrightarrow> p = None"
  by (simp add: judged_def split: option.splits)

lemma fine_judgedRows [simp]: "fine (judgedRows c ref none f xs) \<longleftrightarrow> (\<forall>x \<in> set xs. f x = None)"
proof (cases "firstSome f xs")
  case None
  then show ?thesis by (simp add: judgedRows_def) (simp flip: firstSome_None)
next
  case (Some y)
  then have "\<not> (\<forall>x \<in> set xs. f x = None)" by (metis firstSome_None option.distinct(1))
  then show ?thesis using Some by (simp add: judgedRows_def)
qed

lemma runAll_Some: "runAll rs = Some ys \<longleftrightarrow> rs = map Some ys"
  by (induction rs arbitrary: ys rule: runAll.induct) auto

lemma runAll_None: "None \<in> set rs \<Longrightarrow> runAll rs = None"
  by (induction rs rule: runAll.induct) auto

lemma Passed_fine: "Passed r \<longleftrightarrow> (\<forall>x \<in> set (rpResults r). fine x)"
  by (auto simp: Passed_def fine_def list_all_iff)

definition resultPasses :: "Result option \<Rightarrow> bool" where
  "resultPasses r \<longleftrightarrow> (\<exists>x. r = Some x \<and> fine x)"

lemma passes_simps [simp]: "resultPasses (Some x) \<longleftrightarrow> fine x" "\<not> resultPasses None"
  by (simp_all add: resultPasses_def)

lemma Check_passes: "(\<exists>r. Check F d = Some r \<and> Passed r) \<longleftrightarrow> list_all resultPasses (allChecks F d)"
proof
  assume "\<exists>r. Check F d = Some r \<and> Passed r"
  then obtain ys where "allChecks F d = map Some ys" and "\<forall>x \<in> set ys. fine x"
    by (auto simp: Check_def runAll_Some Passed_fine)
  then show "list_all resultPasses (allChecks F d)" by (simp add: list_all_iff)
next
  assume all: "list_all resultPasses (allChecks F d)"
  then have "\<exists>ys. allChecks F d = map Some ys \<and> (\<forall>x \<in> set ys. fine x)"
    by (intro exI [of _ "map the (allChecks F d)"])
      (auto simp: list_all_iff resultPasses_def map_idI image_iff intro!: map_idI [symmetric])
  then show "\<exists>r. Check F d = Some r \<and> Passed r"
    by (auto simp: Check_def Passed_fine runAll_Some [THEN iffD2])
qed

section \<open>What a conforming lake promises\<close>

definition completeEpisode :: "Episode \<Rightarrow> bool" where
  "completeEpisode e \<longleftrightarrow>
     epEpisodeID e \<noteq> [] \<and> epTenant e \<noteq> [] \<and> epSource e \<noteq> [] \<and> epSchemaVersion e \<noteq> []
     \<and> epStatus e \<in> set statusVocabulary
     \<and> microFloor \<le> epStartedAt e \<and> epStartedAt e \<le> microCeiling
     \<and> (\<forall>t. epEndedAt e = Some t \<longrightarrow> epStartedAt e \<le> t)"

definition wellTypedStep :: "Step \<Rightarrow> bool" where
  "wellTypedStep s \<longleftrightarrow>
     stKind s \<in> set kindVocabulary \<and> stTrainable s \<in> set trainableVocabulary
     \<and> (\<forall>ts \<in> set (stTokenSpans s). tsTrainable ts \<in> set trainableVocabulary)
     \<and> (stContentRef s = None \<or> stContentInline s = None)"

definition intactTree :: "Step list \<Rightarrow> Step \<Rightarrow> bool" where
  "intactTree ss s \<longleftrightarrow>
     (\<forall>p. stParentIdx s = Some p \<longrightarrow>
        p \<noteq> stStepIdx s \<and> (\<exists>t \<in> set ss. stEpisodeID t = stEpisodeID s \<and> stStepIdx t = p))"

definition payloadStored :: "LakeFiles \<Rightarrow> string \<Rightarrow> Step \<Rightarrow> bool" where
  "payloadStored F r s \<longleftrightarrow> (\<forall>h. stContentRef s = Some h \<longrightarrow> 4 \<le> length h \<and> lfStat F (blobFileOf r h))"

fun addressedByContent :: "byte list walkEntry \<Rightarrow> bool" where
  "addressedByContent (EntryFile p (Inr b)) \<longleftrightarrow> hex_encode (sha256 b) = pathBase p"
| "addressedByContent (EntryFile p (Inl e)) \<longleftrightarrow> False"
| "addressedByContent EntryFault \<longleftrightarrow> True"
| "addressedByContent EntryDir \<longleftrightarrow> True"

definition joinableOutcome :: "Outcome \<Rightarrow> bool" where
  "joinableOutcome x \<longleftrightarrow>
     (\<exists>n. ocEntityName x = Some n \<and> n \<noteq> []) \<and> ocEntityKey x \<noteq> [] \<and> ocKind x \<noteq> []
     \<and> microFloor \<le> ocOccurredAt x \<and> microFloor \<le> ocObservedAt x"

definition identifiedReward :: "Episode list \<Rightarrow> Reward \<Rightarrow> bool" where
  "identifiedReward es w \<longleftrightarrow>
     rwVerifierID w \<noteq> [] \<and> rwVerifierVersion w \<noteq> [] \<and> (\<exists>e \<in> set es. epEpisodeID e = rwEpisodeID w)"

definition manifestsAccount :: "LakeFiles \<Rightarrow> Dataset \<Rightarrow> bool" where
  "manifestsAccount F d \<longleftrightarrow>
     (dsManifests d = [] \<longrightarrow> dsEpisodes d = [])
     \<and> (\<forall>x \<in> set (dsManifests d).
          cmSchemaVersion x \<noteq> [] \<and> (\<forall>f \<in> set (cmFiles x). lfStat F (pathJoin [dsRoot d, cfPath f])))
     \<and> (dsManifests d \<noteq> [] \<longrightarrow> declaredEpisodes d = int (length (dsEpisodes d)))"

definition conforming :: "LakeFiles \<Rightarrow> Dataset \<Rightarrow> bool" where
  "conforming F d \<longleftrightarrow>
     dsUnreadable d = []
     \<and> goget 0 (dsSchemaVersions d) [] \<le> 0
     \<and> (\<forall>v \<in> fst ` set (dsSchemaVersions d). \<forall>w \<in> fst ` set (dsSchemaVersions d).
          v \<noteq> [] \<and> w \<noteq> [] \<longrightarrow> majorOf v = majorOf w)
     \<and> (\<forall>e \<in> set (dsEpisodes d). completeEpisode e
          \<and> (epStatus e \<noteq> StatusPatched \<longrightarrow> epStepCount e = presentSteps (dsSteps d) (epEpisodeID e)))
     \<and> (\<forall>s \<in> set (dsSteps d). wellTypedStep s
          \<and> stEpisodeID s \<noteq> [] \<and> (\<exists>e \<in> set (dsEpisodes d). epEpisodeID e = stEpisodeID s)
          \<and> intactTree (dsSteps d) s \<and> payloadStored F (dsRoot d) s)
     \<and> (\<forall>x \<in> set (lfWalk F (blobDir (dsRoot d))). addressedByContent x)
     \<and> manifestsAccount F d
     \<and> (\<forall>x \<in> set (dsOutcomes d). joinableOutcome x)
     \<and> (\<forall>w \<in> set (dsRewards d). identifiedReward (dsEpisodes d) w)
     \<and> (\<forall>ns n. lfReadDir F (pathJoin [dsRoot d, TableLabels]) = Some ns \<longrightarrow> n \<in> set ns \<longrightarrow> \<not> has_suffix n ''.parquet'')"

section \<open>Each check decides one promise\<close>

named_theorems check_exact \<open>what it takes for a check not to fail\<close>

lemma readable_exact [check_exact]: "fine (checkFilesReadable d) \<longleftrightarrow> dsUnreadable d = []"
  by (simp add: checkFilesReadable_def Let_def)

lemma stamped_exact [check_exact]:
  "fine (checkSchemaVersionStamped d) \<longleftrightarrow> goget 0 (dsSchemaVersions d) [] \<le> 0"
  by (simp add: checkSchemaVersionStamped_def Let_def goget_def)

lemma one_distinct: "length (remdups xs) \<le> 1 \<longleftrightarrow> (\<forall>x \<in> set xs. \<forall>y \<in> set xs. x = y)"
proof -
  have "length (remdups xs) = card (set xs)" by (simp add: length_remdups_card_conv)
  moreover have "card (set xs) \<le> Suc 0 \<longleftrightarrow> (\<forall>x \<in> set xs. \<forall>y \<in> set xs. x = y)"
    by (rule card_le_Suc0_iff_eq) simp
  ultimately show ?thesis by simp
qed

lemma versions_exact [check_exact]:
  "fine (checkSchemaVersionConsistent d) \<longleftrightarrow>
     (\<forall>v \<in> fst ` set (dsSchemaVersions d). \<forall>w \<in> fst ` set (dsSchemaVersions d).
        v \<noteq> [] \<and> w \<noteq> [] \<longrightarrow> majorOf v = majorOf w)" (is "_ = ?same")
proof -
  let ?vs = "dsSchemaVersions d"
  let ?ms = "map majorOf (filter (\<lambda>v. v \<noteq> []) (sortedVersions ?vs))"
  have same: "length (remdups ?ms) \<le> 1 \<longleftrightarrow> ?same"
    unfolding one_distinct by (simp add: sortedVersions_def) blast
  have short: "?same" if "length ?vs \<le> 1"
  proof -
    have "?vs = [] \<or> (\<exists>v. ?vs = [v])" using that by (cases ?vs) auto
    then show ?thesis by auto
  qed
  have "fine (checkSchemaVersionConsistent d) \<longleftrightarrow> length ?vs \<le> 1 \<or> length (remdups ?ms) \<le> 1"
    by (simp add: checkSchemaVersionConsistent_def Let_def sortedVersions_def not_less)
  then show ?thesis using same short by blast
qed

lemma required_exact [check_exact]:
  "fine (checkEpisodeRequiredFields d) \<longleftrightarrow>
     (\<forall>e \<in> set (dsEpisodes d). epEpisodeID e \<noteq> [] \<and> epTenant e \<noteq> [] \<and> epSource e \<noteq> []
        \<and> epStatus e \<noteq> [] \<and> epSchemaVersion e \<noteq> [] \<and> epStartedAt e \<noteq> 0)"
proof -
  have one: "missingField ie = None \<longleftrightarrow> epEpisodeID (snd ie) \<noteq> [] \<and> epTenant (snd ie) \<noteq> [] \<and> epSource (snd ie) \<noteq> []
      \<and> epStatus (snd ie) \<noteq> [] \<and> epSchemaVersion (snd ie) \<noteq> [] \<and> epStartedAt (snd ie) \<noteq> 0" for ie
    by (simp add: missingField_def Let_def)
  have "fine (checkEpisodeRequiredFields d) \<longleftrightarrow> (\<forall>ie \<in> set (enumerate 0 (dsEpisodes d)). missingField ie = None)"
    by (simp add: checkEpisodeRequiredFields_def Let_def)
  also have "\<dots> \<longleftrightarrow> (\<forall>e \<in> set (dsEpisodes d). epEpisodeID e \<noteq> [] \<and> epTenant e \<noteq> [] \<and> epSource e \<noteq> []
        \<and> epStatus e \<noteq> [] \<and> epSchemaVersion e \<noteq> [] \<and> epStartedAt e \<noteq> 0)"
    unfolding one by (rule list_all_enumerate)
  finally show ?thesis .
qed

lemma status_exact [check_exact]:
  "fine (checkStatusVocabulary d) \<longleftrightarrow> (\<forall>e \<in> set (dsEpisodes d). epStatus e \<in> set statusVocabulary)"
  by (simp add: checkStatusVocabulary_def badStatus_def)

lemma kind_exact [check_exact]:
  "fine (checkKindVocabulary d) \<longleftrightarrow> (\<forall>s \<in> set (dsSteps d). stKind s \<in> set kindVocabulary)"
  by (simp add: checkKindVocabulary_def badKind_def)

lemma trainable_exact [check_exact]:
  "fine (checkTrainableVocabulary d) \<longleftrightarrow>
     (\<forall>s \<in> set (dsSteps d). stTrainable s \<in> set trainableVocabulary
        \<and> (\<forall>ts \<in> set (stTokenSpans s). tsTrainable ts \<in> set trainableVocabulary))"
  by (auto simp: checkTrainableVocabulary_def badTrainable_def badSpan_def)

lemma belong_exact [check_exact]:
  "fine (checkStepsBelongToEpisodes d) \<longleftrightarrow>
     (\<forall>s \<in> set (dsSteps d). stEpisodeID s \<noteq> [] \<and> (\<exists>e \<in> set (dsEpisodes d). epEpisodeID e = stEpisodeID s))"
proof -
  have "unknownStep (map epEpisodeID es) s = None \<longleftrightarrow>
      stEpisodeID s \<noteq> [] \<and> (\<exists>e \<in> set es. epEpisodeID e = stEpisodeID s)" for es s
    by (simp add: unknownStep_def image_iff) metis
  note one = this
  show ?thesis by (simp add: checkStepsBelongToEpisodes_def Let_def one)
qed

lemma count_exact [check_exact]:
  "fine (checkStepCountMatches d) \<longleftrightarrow>
     (\<forall>e \<in> set (dsEpisodes d). epStatus e \<noteq> StatusPatched \<longrightarrow>
        epStepCount e = presentSteps (dsSteps d) (epEpisodeID e))"
  by (auto simp: checkStepCountMatches_def Let_def miscounted_def)

lemma placement_exact [check_exact]:
  "fine (checkPayloadPlacement d) \<longleftrightarrow>
     (\<forall>s \<in> set (dsSteps d). stContentRef s = None \<or> stContentInline s = None)"
  by (auto simp: checkPayloadPlacement_def Let_def placedTwice_def)

lemma resolve_exact [check_exact]:
  "resultPasses (checkBlobsResolve F d) \<longleftrightarrow> (\<forall>s \<in> set (dsSteps d). payloadStored F (dsRoot d) s)"
proof -
  have one: "dangling F r s = None \<longleftrightarrow> payloadStored F r s" for r s
    by (auto simp: dangling_def payloadStored_def split: option.splits)
  show ?thesis
  proof (cases "firstSome (dangling F (dsRoot d)) (dsSteps d)")
    case None
    then show ?thesis by (simp add: checkBlobsResolve_def Let_def) (simp flip: firstSome_None one)
  next
    case (Some p)
    then have "\<not> (\<forall>s \<in> set (dsSteps d). payloadStored F (dsRoot d) s)"
      by (metis firstSome_None one option.distinct(1))
    then show ?thesis using Some by (cases p) (simp_all add: checkBlobsResolve_def Let_def)
  qed
qed

lemma hashes_exact [check_exact]:
  "resultPasses (checkBlobHashesVerify F d) \<longleftrightarrow> (\<forall>x \<in> set (lfWalk F (blobDir (dsRoot d))). addressedByContent x)"
proof -
  have one: "misnamed x = None \<longleftrightarrow> addressedByContent x" for x
    by (cases x rule: misnamed.cases) simp_all
  show ?thesis
  proof (cases "firstSome misnamed (lfWalk F (blobDir (dsRoot d)))")
    case None
    then show ?thesis by (simp add: checkBlobHashesVerify_def Let_def) (simp flip: firstSome_None one)
  next
    case (Some p)
    then have "\<not> (\<forall>x \<in> set (lfWalk F (blobDir (dsRoot d))). addressedByContent x)"
      by (metis firstSome_None one option.distinct(1))
    then show ?thesis using Some by (cases p) (simp_all add: checkBlobHashesVerify_def Let_def)
  qed
qed

lemma parents_exact [check_exact]:
  "fine (checkParentIndicesValid d) \<longleftrightarrow> (\<forall>s \<in> set (dsSteps d). intactTree (dsSteps d) s)"
proof -
  have one: "orphaned ss s = None \<longleftrightarrow> intactTree ss s" for ss s
    by (auto simp: orphaned_def intactTree_def list_ex_iff split: option.splits)
  show ?thesis
  proof (cases "firstSome (orphaned (dsSteps d)) (dsSteps d)")
    case None
    then show ?thesis by (simp add: checkParentIndicesValid_def Let_def) (simp flip: firstSome_None one)
  next
    case (Some p)
    then have "\<not> (\<forall>s \<in> set (dsSteps d). intactTree (dsSteps d) s)"
      by (metis firstSome_None one option.distinct(1))
    then show ?thesis using Some by (simp add: checkParentIndicesValid_def Let_def)
  qed
qed

lemma times_exact [check_exact]:
  "fine (checkTimestampsSane d) \<longleftrightarrow>
     (\<forall>e \<in> set (dsEpisodes d). microFloor \<le> epStartedAt e \<and> epStartedAt e \<le> microCeiling
        \<and> (\<forall>t. epEndedAt e = Some t \<longrightarrow> epStartedAt e \<le> t))"
proof -
  have one: "insane e = None \<longleftrightarrow> microFloor \<le> epStartedAt e \<and> epStartedAt e \<le> microCeiling
      \<and> (\<forall>t. epEndedAt e = Some t \<longrightarrow> epStartedAt e \<le> t)" for e
    by (cases "epEndedAt e") (auto simp: insane_def)
  show ?thesis by (simp add: checkTimestampsSane_def one)
qed

lemma manifests_exact [check_exact]: "fine (checkManifestsCoverFiles F d) \<longleftrightarrow> manifestsAccount F d"
proof -
  have one: "badManifest F r x = None \<longleftrightarrow>
      cmSchemaVersion x \<noteq> [] \<and> (\<forall>f \<in> set (cmFiles x). lfStat F (pathJoin [r, cfPath f]))" for r x
    by (auto simp: badManifest_def find_None_iff)
  have account: "manifestsAccount F d \<longleftrightarrow>
      (dsManifests d = [] \<longrightarrow> dsEpisodes d = [])
      \<and> (\<forall>x \<in> set (dsManifests d). badManifest F (dsRoot d) x = None)
      \<and> (dsManifests d \<noteq> [] \<longrightarrow> declaredEpisodes d = int (length (dsEpisodes d)))"
    unfolding manifestsAccount_def one ..
  show ?thesis
  proof (cases "firstSome (badManifest F (dsRoot d)) (dsManifests d)")
    case None
    then have "\<forall>x \<in> set (dsManifests d). badManifest F (dsRoot d) x = None" by simp
    then show ?thesis unfolding account by (simp add: checkManifestsCoverFiles_def Let_def None)
  next
    case (Some p)
    then have bad: "\<not> (\<forall>x \<in> set (dsManifests d). badManifest F (dsRoot d) x = None)"
      by (metis firstSome_None option.distinct(1))
    then have "dsManifests d \<noteq> []" by auto
    then show ?thesis using bad unfolding account by (simp add: checkManifestsCoverFiles_def Let_def Some)
  qed
qed

lemma labels_exact [check_exact]:
  "fine (checkReservedTablesEmpty F d) \<longleftrightarrow>
     (\<forall>ns n. lfReadDir F (pathJoin [dsRoot d, TableLabels]) = Some ns \<longrightarrow> n \<in> set ns \<longrightarrow> \<not> has_suffix n ''.parquet'')"
  by (auto simp: checkReservedTablesEmpty_def Let_def list_ex_iff split: option.splits)

lemma outcomes_exact [check_exact]:
  "fine (checkOutcomesJoinable d) \<longleftrightarrow> (\<forall>x \<in> set (dsOutcomes d). joinableOutcome x)"
proof -
  have one: "unjoinable ix = None \<longleftrightarrow> joinableOutcome (snd ix)" for ix
    by (auto simp: unjoinable_def joinableOutcome_def Let_def not_less)
  show ?thesis
    by (simp add: checkOutcomesJoinable_def Let_def one list_all_enumerate)
qed

lemma rewards_exact [check_exact]:
  "fine (checkRewardsIdentified d) \<longleftrightarrow> (\<forall>w \<in> set (dsRewards d). identifiedReward (dsEpisodes d) w)"
proof -
  have one: "unidentified (map epEpisodeID es) ix = None \<longleftrightarrow> identifiedReward es (snd ix)" for es ix
    by (auto simp: unidentified_def identifiedReward_def Let_def image_iff)
  show ?thesis
    by (simp add: checkRewardsIdentified_def Let_def one list_all_enumerate)
qed

lemma complete_split:
  "(\<forall>e \<in> set (dsEpisodes d). completeEpisode e) \<longleftrightarrow>
     fine (checkEpisodeRequiredFields d) \<and> fine (checkStatusVocabulary d) \<and> fine (checkTimestampsSane d)"
proof -
  have "[] \<notin> set statusVocabulary" by (simp add: statusVocabulary_def enum_values)
  moreover have "\<not> microFloor \<le> 0" by (simp add: microFloor_def)
  ultimately show ?thesis by (auto simp: check_exact completeEpisode_def)
qed

lemma typed_split:
  "(\<forall>s \<in> set (dsSteps d). wellTypedStep s) \<longleftrightarrow>
     fine (checkKindVocabulary d) \<and> fine (checkTrainableVocabulary d) \<and> fine (checkPayloadPlacement d)"
  by (auto simp: check_exact wellTypedStep_def)

lemma conforming_checks: "conforming F d \<longleftrightarrow> list_all resultPasses (allChecks F d)"
proof -
  have "conforming F d \<longleftrightarrow>
      fine (checkFilesReadable d) \<and> fine (checkSchemaVersionStamped d) \<and> fine (checkSchemaVersionConsistent d)
      \<and> (\<forall>e \<in> set (dsEpisodes d). completeEpisode e) \<and> fine (checkStepCountMatches d)
      \<and> (\<forall>s \<in> set (dsSteps d). wellTypedStep s) \<and> fine (checkStepsBelongToEpisodes d)
      \<and> fine (checkParentIndicesValid d) \<and> resultPasses (checkBlobsResolve F d) \<and> resultPasses (checkBlobHashesVerify F d)
      \<and> fine (checkManifestsCoverFiles F d) \<and> fine (checkOutcomesJoinable d) \<and> fine (checkRewardsIdentified d)
      \<and> fine (checkReservedTablesEmpty F d)"
    unfolding conforming_def check_exact by blast
  then show ?thesis unfolding complete_split typed_split allChecks_def by auto
qed


section \<open>What the assembler gives the suite\<close>

lemma wrap32_add: "wrap32 (wrap32 x + y) = wrap32 (x + y)"
proof -
  have "wrap32 x + y = (x + 2 ^ 31) mod 2 ^ 32 + (y - 2 ^ 31)" by (simp add: wrap32_def)
  then have "(wrap32 x + y) mod 2 ^ 32 = (x + 2 ^ 31 + (y - 2 ^ 31)) mod 2 ^ 32" by (simp only: mod_add_left_eq)
  then show ?thesis unfolding wrap32_eq_iff by simp
qed

lemma presentSteps_count:
  "presentSteps ss k = wrap32 (int (length (filter (\<lambda>s. stEpisodeID s = k) ss)))"
proof -
  have "foldl (\<lambda>n s. if stEpisodeID s = k then wrap32 (n + 1) else n) (wrap32 n) ss =
      wrap32 (n + int (length (filter (\<lambda>s. stEpisodeID s = k) ss)))" for n
  proof (induction ss arbitrary: n)
    case (Cons s ss)
    have "wrap32 (wrap32 n + 1) = wrap32 (n + 1)" by (rule wrap32_add)
    then show ?case using Cons.IH [of n] Cons.IH [of "n + 1"] by (simp add: add.assoc)
  qed simp
  from this [of 0] show ?thesis by (simp add: presentSteps_def)
qed

type_synonym closing = "Assembler \<times> inFlight \<times> string \<times> time"

fun closedAs :: "closing \<Rightarrow> Assembled" where
  "closedAs (a, f, status, now) = closedEpisode a f status now"

fun flightOf :: "closing \<Rightarrow> inFlight" where
  "flightOf (a, f, status, now) = f"

text \<open>An episode the assembler holds: one entry per span, none with a parent index from the producer.\<close>

definition heldWell :: "inFlight \<Rightarrow> bool" where
  "heldWell f \<longleftrightarrow>
     episodeID f \<noteq> [] \<and> distinct (map fst (spans f)) \<and> length (spans f) < 2 ^ 31
     \<and> (\<forall>e \<in> snd ` set (spans f). stParentIdx (envStep e) = None)"

lemma closedAs_simps [simp]:
  "epEpisodeID (asEpisode (closedAs c)) = episodeID (flightOf c)"
  "epStepCount (asEpisode (closedAs c)) = wrap32 (int (length (asSteps (closedAs c))))"
  "asSteps (closedAs c) = orderedSteps (flightOf c)"
  by (cases c rule: closedAs.cases; simp add: closedEpisode_def Let_def)+

lemma linkStep_ids:
  "stEpisodeID (linkStep f idx (i, sid)) = episodeID f" "stStepIdx (linkStep f idx (i, sid)) = wrap32 (int i)"
  by (simp_all add: linkStep_def Let_def split: option.splits)

lemma orderedSteps_nth_ids:
  assumes "i < length (spans f)"
  shows "stEpisodeID (orderedSteps f ! i) = episodeID f" "stStepIdx (orderedSteps f ! i) = wrap32 (int i)"
  using assms by (simp_all add: nth_orderedSteps linkStep_ids)

lemma orderedSteps_ids: "s \<in> set (orderedSteps f) \<Longrightarrow> stEpisodeID s = episodeID f"
  using orderedSteps_nth_ids(1) [of _ f] by (metis in_set_conv_nth length_orderedSteps)

lemma filter_own_steps:
  assumes "distinct (map (\<lambda>c. episodeID (flightOf c)) cs)" and "c \<in> set cs"
  shows "filter (\<lambda>s. stEpisodeID s = episodeID (flightOf c)) (concat (map (\<lambda>c. asSteps (closedAs c)) cs))
    = orderedSteps (flightOf c)"
  using assms
proof (induction cs)
  case (Cons b cs)
  have own: "filter (\<lambda>s. stEpisodeID s = k) (orderedSteps f) = (if episodeID f = k then orderedSteps f else [])" for f k
    by (auto simp: filter_empty_conv filter_id_conv orderedSteps_ids)
  have other: "filter (\<lambda>s. stEpisodeID s = k) (concat (map (\<lambda>c. asSteps (closedAs c)) cs)) = []"
    if "k \<notin> (\<lambda>c. episodeID (flightOf c)) ` set cs" for k
    using that by (auto simp: filter_empty_conv orderedSteps_ids)
  show ?case
  proof (cases "c = b")
    case True
    then have "episodeID (flightOf c) \<notin> (\<lambda>c. episodeID (flightOf c)) ` set cs" using Cons.prems by simp
    then show ?thesis using True other own by simp
  next
    case False
    then have "c \<in> set cs" "episodeID (flightOf b) \<noteq> episodeID (flightOf c)" using Cons.prems by (auto simp: image_iff)
    then show ?thesis using Cons own by simp
  qed
qed simp

lemma closed_tree_intact:
  assumes "heldWell f" and "s \<in> set (orderedSteps f)" and "set (orderedSteps f) \<subseteq> set ss"
  shows "intactTree ss s"
  unfolding intactTree_def
proof (intro allI impI)
  fix p assume p: "stParentIdx s = Some p"
  obtain i where i: "i < length (spans f)" "s = orderedSteps f ! i"
    using assms(2) by (metis in_set_conv_nth length_orderedSteps)
  obtain j where j: "j < length (spans f)" "p = int j" "j \<noteq> i"
    using orderedSteps_parent [of f i p] assms(1) p unfolding heldWell_def i(2) using i(1) by auto
  have small: "length (spans f) < 2 ^ 31" using assms(1) by (simp add: heldWell_def)
  have "orderedSteps f ! j \<in> set ss" using assms(3) j(1) nth_mem [of j "orderedSteps f"] by auto
  moreover have "stStepIdx (orderedSteps f ! j) = p" "stStepIdx s = int i"
    using orderedSteps_nth_ids [of j f] orderedSteps_nth_ids [of i f] i j small by simp_all
  moreover have "stEpisodeID (orderedSteps f ! j) = stEpisodeID s"
    using orderedSteps_nth_ids(1) [OF j(1)] orderedSteps_nth_ids(1) [OF i(1)] i(2) by simp
  ultimately show "p \<noteq> stStepIdx s \<and> (\<exists>t \<in> set ss. stEpisodeID t = stEpisodeID s \<and> stStepIdx t = p)"
    using j by auto
qed


text \<open>
  A late span is stored as a patch with a step of its own (F-3.5), and the episode's declared count
  is not changed: the step count check counts the step of the patch for the episode and fails.
\<close>

theorem late_span_fails_step_count:
  assumes "status \<noteq> StatusPatched" and "patchFor (episodeID f) env a = (p, a')"
    and "dsEpisodes d = [asEpisode (closedEpisode b f status now), asEpisode p]"
    and "dsSteps d = asSteps (closedEpisode b f status now) @ asSteps p"
  shows "\<not> fine (checkStepCountMatches d)"
proof -
  let ?c = "(b, f, status, now)"
  have own: "filter (\<lambda>s. stEpisodeID s = episodeID f) (orderedSteps f) = orderedSteps f"
    by (simp add: filter_id_conv orderedSteps_ids)
  have p: "map stEpisodeID (asSteps p) = [episodeID f]"
    using assms(2) by (auto simp: patchFor_def Let_def split: prod.splits)
  then have one: "length (filter (\<lambda>s. stEpisodeID s = episodeID f) (asSteps p)) = 1"
    by (auto simp: map_eq_Cons_conv)
  have ne: "wrap32 (int n) \<noteq> wrap32 (int (Suc n))" for n
  proof
    assume "wrap32 (int n) = wrap32 (int (Suc n))"
    then have "(2 ^ 32 :: int) dvd int (Suc n) - int n" unfolding wrap32_eq_iff by (simp add: mod_eq_dvd_iff)
    then show False by simp
  qed
  have "asSteps (closedEpisode b f status now) = orderedSteps f" using closedAs_simps(3) [of ?c] by simp
  then have "presentSteps (dsSteps d) (episodeID f) = wrap32 (int (Suc (length (spans f))))"
    unfolding presentSteps_count assms(4) by (simp add: own one)
  moreover have "epStepCount (asEpisode (closedEpisode b f status now)) = wrap32 (int (length (spans f)))"
    "epEpisodeID (asEpisode (closedEpisode b f status now)) = episodeID f"
    "epStatus (asEpisode (closedEpisode b f status now)) = status"
    using closedAs_simps [of ?c] by (simp_all add: closedEpisode_def Let_def)
  ultimately show ?thesis
    unfolding count_exact assms(3) using assms(1) ne [of "length (spans f)"] by auto
qed

text \<open>Instances for the premises.\<close>

definition exFlight :: inFlight where
  "exFlight =
     \<lparr>key = ''s'', episodeID = ''e1'', createdAt = 0, lastSeen = 0,
      meta = \<lparr>mtTaskType = [], mtGroupID = [], mtInstrumentation = [], mtInstrumentationVersion = [], mtRaw = []\<rparr>,
      source = ''native'', terminalAt = None, err = None,
      spans = [(''a'', exSpan ''s'' [] ''a'' False 5), (''b'', (exSpan ''s'' [] ''b'' True 6)\<lparr>envParentSpanID := ''a''\<rparr>)],
      startedAt = 5, endedAt = 6\<rparr>"

definition exClosing :: closing where
  "exClosing = (New exOptions, exFlight, StatusComplete, 0)"

lemma exClosing_held [simp]: "flightOf exClosing = exFlight" "heldWell exFlight"
  by (simp_all add: exClosing_def heldWell_def exFlight_def exSpan_def zeroStep_def)


theorem late_span_fails_step_count_witness:
  "\<not> fine (checkStepCountMatches
     ((emptyDataset ''lake'')\<lparr>
        dsEpisodes := [asEpisode (closedAs exClosing), asEpisode (fst (patchFor ''e1'' (exSpan ''s'' [] ''c'' False 9) (New exOptions)))],
        dsSteps := asSteps (closedAs exClosing) @ asSteps (fst (patchFor ''e1'' (exSpan ''s'' [] ''c'' False 9) (New exOptions)))\<rparr>))"
  by (rule late_span_fails_step_count [of StatusComplete exFlight "exSpan ''s'' [] ''c'' False 9" "New exOptions" _
        "snd (patchFor ''e1'' (exSpan ''s'' [] ''c'' False 9) (New exOptions))" _ "New exOptions" 0])
    (simp_all add: exClosing_def exFlight_def enum_values)

section \<open>Where the suite does not look, or stops\<close>

text \<open>
  A root that ends in a slash is cut off the path together with the slash the table names are
  looked for with: nothing of the lake is loaded and every check about rows is skipped.
\<close>

definition exDecoding :: "string Decoding" where
  "exDecoding =
     \<lparr>dcOpen = (\<lambda>c. Inr (Some schemaVersion)), dcEpisodes = (\<lambda>c. Inr [zeroEpisode]), dcSteps = (\<lambda>c. Inr []),
      dcOutcomes = (\<lambda>c. Inr []), dcRewards = (\<lambda>c. Inr []), dcBlobs = (\<lambda>c. Inr []), dcManifest = (\<lambda>c. Inl ''none'')\<rparr>"

definition exLakeFiles :: LakeFiles where
  "exLakeFiles = \<lparr>lfStat = (\<lambda>p. False), lfWalk = (\<lambda>p. []), lfReadDir = (\<lambda>p. None)\<rparr>"

definition suitePasses :: "string \<Rightarrow> bool" where
  "suitePasses r \<longleftrightarrow>
     (\<exists>d rep. LoadDataset exDecoding r [EntryDir, EntryFile ''episodes/p.parquet'' (Inr [])] = Some d
        \<and> Check exLakeFiles d = Some rep \<and> Passed rep)"

lemma suitePasses_conforming:
  "suitePasses r \<longleftrightarrow>
     (\<exists>d. LoadDataset exDecoding r [EntryDir, EntryFile ''episodes/p.parquet'' (Inr [])] = Some d \<and> conforming exLakeFiles d)"
  by (simp add: suitePasses_def conforming_checks Check_passes [symmetric])

lemma example_paths:
  "pathJoin [''lake'', ''episodes/p.parquet''] = ''lake/episodes/p.parquet''"
  "pathJoin [''lake/'', ''episodes/p.parquet''] = ''lake/episodes/p.parquet''"
  "has_suffix ''lake/episodes/p.parquet'' ''.parquet''"
  "trimPrefix ''lake/episodes/p.parquet'' ''lake'' = ''/episodes/p.parquet''"
  "trimPrefix ''lake/episodes/p.parquet'' ''lake/'' = ''episodes/p.parquet''"
  "underTable TableEpisodes ''/episodes/p.parquet''"
  "list_all (\<lambda>t. \<not> underTable t ''episodes/p.parquet'') [TableEpisodes, TableSteps, TableOutcomes, TableRewards, TableBlobs]"
  by code_simp+

lemma load_one:
  assumes "pathJoin [r, n] = p" and "has_suffix p ''.parquet''" and "trimPrefix p r = rel"
  shows "LoadDataset R r [EntryDir, EntryFile n (Inr c)] = Some (loadParquet R rel c (emptyDataset r))"
  using assms by (simp add: LoadDataset_def emptyDataset_def Let_def)

lemma load_example:
  "underTable TableEpisodes rel \<Longrightarrow>
     loadParquet exDecoding rel c (emptyDataset r) =
       (emptyDataset r)\<lparr>dsEpisodes := [zeroEpisode], dsSchemaVersions := [(schemaVersion, 1)]\<rparr>"
  "list_all (\<lambda>t. \<not> underTable t rel) [TableEpisodes, TableSteps, TableOutcomes, TableRewards, TableBlobs] \<Longrightarrow>
     loadParquet exDecoding rel c (emptyDataset r) = (emptyDataset r)\<lparr>dsSchemaVersions := [(schemaVersion, 1)]\<rparr>"
  by (simp_all add: emptyDataset_def loadParquet_def loadRows_def addRows_def exDecoding_def
      countVersion_def Let_def goget_def)

lemmas loads_below =
  load_one [OF example_paths(1,3,4)] load_one [OF example_paths(2,3,5)]
  load_example(1) [OF example_paths(6)] load_example(2) [OF example_paths(7)]

lemma nothing_loaded_conforms: "conforming exLakeFiles ((emptyDataset r)\<lparr>dsSchemaVersions := [(schemaVersion, 1)]\<rparr>)"
proof -
  have "schemaVersion \<noteq> []" by (simp add: schemaVersion_def)
  then show ?thesis by (simp add: conforming_def emptyDataset_def exLakeFiles_def manifestsAccount_def goget_def)
qed

lemma zero_episode_not_conforming: "\<not> conforming F (d\<lparr>dsEpisodes := [zeroEpisode], dsSchemaVersions := vs\<rparr>)"
  by (simp add: conforming_def completeEpisode_def zeroEpisode_def)

theorem trailing_slash_passes: "suitePasses ''lake/'' \<and> \<not> suitePasses ''lake''"
proof
  show "suitePasses ''lake/''"
    unfolding suitePasses_conforming loads_below by (rule exI, rule conjI, rule refl, rule nothing_loaded_conforms)
  show "\<not> suitePasses ''lake''"
    unfolding suitePasses_conforming loads_below option.inject
    using zero_episode_not_conforming by metis
qed

text \<open>A short reference whose blob is missing is not reported: cutting it for the message panics.\<close>

theorem short_reference_panics:
  assumes "s \<in> set (dsSteps d)" and "stContentRef s = Some h" and "4 \<le> length h" and "length h < 12"
    and "\<forall>t \<in> set (dsSteps d). t = s \<or> stContentRef t = None" and "\<not> lfStat F (blobFileOf (dsRoot d) h)"
  shows "Check F d = None"
proof -
  have s: "dangling F (dsRoot d) s = Some None" using assms by (simp add: dangling_def)
  have t: "dangling F (dsRoot d) t = None" if "t \<in> set (dsSteps d)" "t \<noteq> s" for t
    using assms(5) that by (auto simp: dangling_def)
  have "firstSome (dangling F (dsRoot d)) (dsSteps d) = Some None"
  proof (cases "firstSome (dangling F (dsRoot d)) (dsSteps d)")
    case None
    then show ?thesis using s assms(1) by simp
  next
    case (Some y)
    then obtain t where "t \<in> set (dsSteps d)" "dangling F (dsRoot d) t = Some y" by (metis firstSome_SomeD)
    then show ?thesis using Some s t [of t] by (cases "t = s") auto
  qed
  then have "checkBlobsResolve F d = None" by (simp add: checkBlobsResolve_def Let_def)
  then have "None \<in> set (allChecks F d)" by (simp add: allChecks_def)
  then show ?thesis by (simp add: Check_def runAll_None)
qed

end
