(* ===== verification/Replay.thy ===== *)
theory Replay
  imports Conformance_Props Lakeread_Props
begin

text \<open>
  \<^verbatim>\<open>cc replay\<close> (\<^verbatim>\<open>src/cmd/cc/replay.go\<close>): the search for one episode over every Parquet file of a lake, and the
  text it prints. The walk of the directory is that of \<open>Conformance\<close>; the Parquet decoder, the printing of
  floating-point numbers, the indentation of a JSON document and reading a blob are fields of
  \<open>ReplayLib\<close>. A slice bound that panics is \<open>None\<close>. The output is the list of its lines.
\<close>

record 'c ReplayLib =
  rlEpisodes :: "'c \<Rightarrow> Episode list option"
  rlSteps :: "'c \<Rightarrow> Step list option"
  rlFloat :: "rat \<Rightarrow> string"
  rlIndent :: "string \<Rightarrow> string option"
  rlBlob :: "string \<Rightarrow> string + string"

section \<open>Finding the rows\<close>

definition rowsFor :: "'c ReplayLib \<Rightarrow> string \<Rightarrow> string \<Rightarrow> string + 'c \<Rightarrow> Episode list \<times> Step list" where
  "rowsFor R i path c =
     (let opened = (case c of Inl e \<Rightarrow> None | Inr x \<Rightarrow> Some x)
      in if underTable TableEpisodes path then
           (case Option.bind opened (rlEpisodes R) of
              None \<Rightarrow> ([], []) | Some rows \<Rightarrow> (filter (\<lambda>e. epEpisodeID e = i) rows, []))
         else if underTable TableSteps path then
           (case Option.bind opened (rlSteps R) of
              None \<Rightarrow> ([], []) | Some rows \<Rightarrow> ([], filter (\<lambda>s. stEpisodeID s = i) rows))
         else ([], []))"

fun findEpisode :: "'c ReplayLib \<Rightarrow> string \<Rightarrow> string \<Rightarrow> 'c walkEntry list \<Rightarrow> (Episode list \<times> Step list) option" where
  "findEpisode R lake i [] = Some ([], [])"
| "findEpisode R lake i (EntryFault # es) = None"
| "findEpisode R lake i (EntryDir # es) = findEpisode R lake i es"
| "findEpisode R lake i (EntryFile n c # es) =
     (let path = pathJoin [lake, n];
          (eps, steps) = (if has_suffix path ''.parquet'' then rowsFor R i path c else ([], []))
      in map_option (\<lambda>(eps', steps'). (eps @ eps', steps @ steps')) (findEpisode R lake i es))"

definition originalOf :: "Episode list \<Rightarrow> Episode" where
  "originalOf eps =
     (let o1 = fold (\<lambda>e acc. if epStatus e = StatusPatched then acc else e) eps zeroEpisode
      in if epEpisodeID o1 = [] then hd eps else o1)"

definition patchesIn :: "Episode list \<Rightarrow> nat" where
  "patchesIn eps = length (filter (\<lambda>e. epStatus e = StatusPatched) eps)"

definition replaySteps :: "Step list \<Rightarrow> Step list" where
  "replaySteps steps = sort_key (\<lambda>s. (stStartedAt s, stStepIdx s)) steps"

section \<open>Text\<close>

definition orEmpty :: "string option \<Rightarrow> string" where
  "orEmpty p = (case p of None \<Rightarrow> [] | Some s \<Rightarrow> s)"

definition tsOf :: "int \<Rightarrow> string" where
  "tsOf us = (if us = 0 then ''-'' else formatRFC3339 us)"

definition rule72 :: string where "rule72 = replicate 72 (CHR ''-'')"

definition printEpisodeHeader :: "Episode \<Rightarrow> nat \<Rightarrow> string list" where
  "printEpisodeHeader e patches =
     [''episode  '' @ epEpisodeID e,
      ''tenant   '' @ epTenant e @ ''   source '' @ epSource e @ ''   status '' @ epStatus e]
     @ (case epTaskType e of None \<Rightarrow> [] | Some t \<Rightarrow> [''task     '' @ t])
     @ (case epGroupID e of None \<Rightarrow> [] | Some g \<Rightarrow> [''group    '' @ g])
     @ (case epInstrumentation e of
          None \<Rightarrow> [] | Some i \<Rightarrow> [''from     '' @ i @ '' '' @ orEmpty (epInstrumentationVersion e)])
     @ [''started  '' @ tsOf (epStartedAt e)]
     @ (case epError e of None \<Rightarrow> [] | Some er \<Rightarrow> [''error    '' @ errType er @ '': '' @ errMessage er])
     @ (if epEntityKeys e = [] then []
        else [''keys     '' @ join_with ''  '' (map (\<lambda>k. ekName k @ ''='' @ ekValue k) (epEntityKeys e))])
     @ (if patches > 0 then [''patches  '' @ format_int (int patches) @ '' late-arriving record(s) merged into this view''] else [])
     @ [rule72]"

definition stepLabel :: "Step \<Rightarrow> string" where
  "stepLabel s =
     (case stToolName s of
        Some t \<Rightarrow> ''tool '' @ t @ (case stToolVersion s of None \<Rightarrow> [] | Some v \<Rightarrow> ''@'' @ v)
      | None \<Rightarrow> (case stModel s of Some mo \<Rightarrow> ''llm  '' @ mo | None \<Rightarrow> stKind s))"

definition paramsLine :: "'c ReplayLib \<Rightarrow> Params \<Rightarrow> string list" where
  "paramsLine R p =
     (case Temperature p of None \<Rightarrow> [] | Some t \<Rightarrow> [''temperature='' @ rlFloat R t])
     @ (case TopP p of None \<Rightarrow> [] | Some t \<Rightarrow> [''top_p='' @ rlFloat R t])
     @ (case MaxTokens p of None \<Rightarrow> [] | Some n \<Rightarrow> [''max_tokens='' @ format_int n])
     @ (case Seed p of None \<Rightarrow> [] | Some n \<Rightarrow> [''seed='' @ format_int n])"

definition tokensLine :: "TokenCounts \<Rightarrow> string list" where
  "tokensLine t =
     (case tcInput t of None \<Rightarrow> [] | Some n \<Rightarrow> [''in='' @ format_int n])
     @ (case tcOutput t of None \<Rightarrow> [] | Some n \<Rightarrow> [''out='' @ format_int n])"

definition cutText :: "string \<Rightarrow> nat \<Rightarrow> string" where
  "cutText s n =
     (if length s \<le> n then s else take n s @ ''... ('' @ format_int (int (length s)) @ '' bytes total)'')"

definition resolvePayload :: "'c ReplayLib \<Rightarrow> string \<Rightarrow> Step \<Rightarrow> string option" where
  "resolvePayload R lake s =
     (case stContentInline s of
        Some c \<Rightarrow> Some c
      | None \<Rightarrow>
          (case stContentRef s of
             None \<Rightarrow> Some []
           | Some h \<Rightarrow>
               if length h < 4 then Some []
               else
                 (case rlBlob R (blobFileOf lake h) of
                    Inr b \<Rightarrow> Some b
                  | Inl e \<Rightarrow>
                      if length h < 12 then None
                      else Some (''[blob '' @ take 12 h @ '' could not be read: '' @ e @ '']''))))"

definition prettyJSON :: "'c ReplayLib \<Rightarrow> string \<Rightarrow> string" where
  "prettyJSON R s =
     (let t = trim_space s
      in if t = [] \<or> (hd t \<noteq> CHR 0x7B \<and> hd t \<noteq> CHR ''['') then s
         else (case rlIndent R t of None \<Rightarrow> s | Some v \<Rightarrow> v))"

definition stepHead :: "Step \<Rightarrow> string" where
  "stepHead s =
     (if stParentIdx s = None then [] else ''  '') @ ''['' @ format_int (stStepIdx s) @ ''] '' @ stepLabel s
     @ (case stParentIdx s of None \<Rightarrow> [] | Some p \<Rightarrow> ''   (from step '' @ format_int p @ '')'')
     @ (if stAttempt s > 0 then ''   attempt '' @ format_int (stAttempt s) else [])
     @ (case stLatencyMs s of None \<Rightarrow> [] | Some n \<Rightarrow> ''   '' @ format_int n @ ''ms'')"

definition payloadText :: "bool \<Rightarrow> Step \<Rightarrow> string \<Rightarrow> string" where
  "payloadText full s body =
     (let shown = (if full then body else cutText body 600)
      in if stTruncated s
         then shown @ [CHR 0x0A] @ ''     [payload was truncated at capture time: exceeded max_payload_bytes]''
         else shown)"

definition printStep :: "'c ReplayLib \<Rightarrow> string \<Rightarrow> bool \<Rightarrow> Step \<Rightarrow> string list option" where
  "printStep R lake full s =
     (let indent = (if stParentIdx s = None then [] else ''  '') @ ''     '';
          ps = (case stParams s of None \<Rightarrow> [] | Some p \<Rightarrow> paramsLine R p);
          ts = (case stTokenCounts s of None \<Rightarrow> [] | Some t \<Rightarrow> tokensLine t);
          info = [[], stepHead s]
            @ (if ps = [] then [] else [indent @ join_with ''  '' ps])
            @ (if ts = [] then [] else [indent @ ''tokens '' @ join_with '' '' ts])
            @ (case stError s of None \<Rightarrow> [] | Some e \<Rightarrow> [indent @ ''error: '' @ errType e @ '' '' @ errMessage e])
      in map_option
           (\<lambda>body. if body = [] then info else info @ map (\<lambda>l. indent @ l) (splitNewline (prettyJSON R (payloadText full s body))))
           (resolvePayload R lake s))"

definition anyLLMStepHasSeed :: "Step list \<Rightarrow> bool" where
  "anyLLMStepHasSeed steps \<longleftrightarrow>
     list_ex (\<lambda>s. stKind s = KindLLM \<and> (case stParams s of None \<Rightarrow> False | Some p \<Rightarrow> Seed p \<noteq> None)) steps"

definition boolText :: "bool \<Rightarrow> string" where
  "boolText b = (if b then ''true'' else ''false'')"

definition printFidelityNote :: "Episode \<Rightarrow> Step list \<Rightarrow> string list" where
  "printFidelityNote e steps =
     [[], rule72]
     @ (case epFidelity e of
          None \<Rightarrow> [''fidelity not recorded for this episode'']
        | Some f \<Rightarrow>
            [''fidelity  params='' @ boolText (HasParams f) @ '' token_spans='' @ boolText (HasTokenSpans f)
             @ '' tool_versions='' @ boolText (HasToolVersions f)]
            @ (if HasParams f then [] else [''          without generation parameters this episode cannot be replayed exactly''])
            @ (if HasTokenSpans f then [] else [''          without token spans a trainer cannot tell model output from tool output''])
            @ (if HasParams f \<and> \<not> anyLLMStepHasSeed steps
               then [''          params were captured but no seed was: a sampled completion'',
                     ''          from this episode will not reproduce exactly'']
               else []))"

section \<open>The command\<close>

fun printSteps :: "'c ReplayLib \<Rightarrow> string \<Rightarrow> bool \<Rightarrow> Step list \<Rightarrow> string list option" where
  "printSteps R lake full [] = Some []"
| "printSteps R lake full (s # ss) =
     (case printStep R lake full s of
        None \<Rightarrow> None
      | Some ls \<Rightarrow> map_option (\<lambda>rest. ls @ rest) (printSteps R lake full ss))"

text \<open>The exit code and the lines; the messages on the error stream are left out.\<close>

definition cmdReplay ::
  "'c ReplayLib \<Rightarrow> string \<Rightarrow> bool \<Rightarrow> string list \<Rightarrow> 'c walkEntry list \<Rightarrow> (int \<times> string list) option"
where
  "cmdReplay R lake full args es =
     (case args of
        [] \<Rightarrow> Some (2, [])
      | i # _ \<Rightarrow>
          if lake = [] then Some (2, [])
          else
            (case findEpisode R lake i es of
               None \<Rightarrow> Some (1, [])
             | Some (eps, steps) \<Rightarrow>
                 if eps = [] then Some (1, [])
                 else
                   let o1 = originalOf eps; ss = replaySteps steps
                   in map_option (\<lambda>body. (0, printEpisodeHeader o1 (patchesIn eps) @ body @ printFidelityNote o1 ss))
                        (printSteps R lake full ss)))"

section \<open>Replay and the reader\<close>

lemma dedupe_length: "length (dedupeSteps steps) = card (stStepIdx ` set steps)"
proof -
  have "length (dedupeSteps steps) = card (set (map stStepIdx (dedupeSteps steps)))"
    using distinct_dropSeen [of "[]"] distinct_card by (metis dedupeSteps_def length_map)
  also have "\<dots> = card (stStepIdx ` set steps)"
    using dropSeen_idx [of "[]" "sort_key stepOrder steps"] by (simp add: dedupeSteps_def)
  finally show ?thesis .
qed


section \<open>Replay and conformance\<close>

lemma printStep_total: "resolvePayload R lake s = Some body \<Longrightarrow> \<exists>ls. printStep R lake full s = Some ls"
  unfolding printStep_def Let_def by simp

lemma printSteps_total:
  assumes "\<forall>s \<in> set ss. resolvePayload R lake s \<noteq> None"
  shows "\<exists>ls. printSteps R lake full ss = Some ls"
  using assms
proof (induction ss)
  case (Cons s ss)
  then obtain body where "resolvePayload R lake s = Some body" by auto
  then obtain ls where "printStep R lake full s = Some ls" using printStep_total by blast
  then show ?case using Cons by auto
qed simp

text \<open>
  Replay never panics on a conforming lake: when every blob that is present can be read and the
  steps found are steps of the lake, each payload resolves and the episode is printed.
\<close>

theorem conforming_lake_replays:
  assumes "conforming F d" and "\<forall>p. lfStat F p \<longrightarrow> (\<exists>b. rlBlob R p = Inr b)"
    and "findEpisode R (dsRoot d) i es = Some (eps, steps)" and "set steps \<subseteq> set (dsSteps d)"
    and "eps \<noteq> []" and "dsRoot d \<noteq> []"
  shows "\<exists>out. cmdReplay R (dsRoot d) full [i] es = Some (0, out)"
proof -
  have "resolvePayload R (dsRoot d) s \<noteq> None" if "s \<in> set steps" for s
  proof -
    have "payloadStored F (dsRoot d) s" using that assms(1,4) by (auto simp: conforming_def)
    then show ?thesis
      using assms(2) by (fastforce simp: payloadStored_def resolvePayload_def split: option.splits sum.splits)
  qed
  moreover have "set (replaySteps steps) = set steps" by (simp add: replaySteps_def)
  ultimately have "\<forall>s \<in> set (replaySteps steps). resolvePayload R (dsRoot d) s \<noteq> None" by simp
  from printSteps_total [OF this] obtain body where "printSteps R (dsRoot d) full (replaySteps steps) = Some body" by blast
  then show ?thesis using assms(3,5,6) by (simp add: cmdReplay_def Let_def)
qed

section \<open>Examples\<close>


text \<open>A lake of one episode with one externalised payload.\<close>

definition exEpisodeRow :: Episode where
  "exEpisodeRow = zeroEpisode\<lparr>epEpisodeID := ''e'', epTenant := ''t'', epSource := ''a'', epStatus := StatusComplete,
     epSchemaVersion := ''0.2.0'', epStartedAt := microFloor, epStepCount := 1\<rparr>"

definition exStepRow :: Step where
  "exStepRow = zeroStep\<lparr>stEpisodeID := ''e'', stKind := KindLLM, stTrainable := TrainableUnknown,
     stContentRef := Some ''abcdef''\<rparr>"

definition exDataset :: Dataset where
  "exDataset = (emptyDataset ''lake'')\<lparr>dsEpisodes := [exEpisodeRow], dsSteps := [exStepRow],
     dsManifests := [\<lparr>cmBatchID = ''b'', cmSchemaVersion = ''0.2.0'', cmFiles = [], cmEpisodes = 1, cmSteps = 1\<rparr>],
     dsSchemaVersions := [(''0.2.0'', 2)]\<rparr>"

definition exStored :: LakeFiles where
  "exStored = \<lparr>lfStat = (\<lambda>p. True), lfWalk = (\<lambda>p. []), lfReadDir = (\<lambda>p. None)\<rparr>"

definition exReplayLib :: "nat ReplayLib" where
  "exReplayLib = \<lparr>rlEpisodes = (\<lambda>n. if n = 0 then Some [exEpisodeRow] else None), rlSteps = (\<lambda>n. Some [exStepRow]),
     rlFloat = (\<lambda>x. []), rlIndent = (\<lambda>s. None), rlBlob = (\<lambda>p. Inr ''hello'')\<rparr>"

lemma exDataset_conforms: "conforming exStored exDataset"
proof -
  have "presentSteps [exStepRow] ''e'' = 1" by (simp add: presentSteps_def exStepRow_def)
  then show ?thesis
    by (simp add: conforming_def exDataset_def emptyDataset_def exStored_def exEpisodeRow_def exStepRow_def zeroStep_def zeroEpisode_def
        completeEpisode_def wellTypedStep_def intactTree_def payloadStored_def manifestsAccount_def declaredEpisodes_def
        statusVocabulary_def kindVocabulary_def trainableVocabulary_def microFloor_def microCeiling_def goget_def)
qed

lemma exReplay_finds:
  "findEpisode exReplayLib ''lake'' ''e'' [EntryDir, EntryFile ''episodes/p.parquet'' (Inr 0), EntryFile ''steps/p.parquet'' (Inr 1)] =
     Some ([exEpisodeRow], [exStepRow])"
proof -
  have P: "pathJoin [''lake'', ''episodes/p.parquet''] = ''lake/episodes/p.parquet''"
      "pathJoin [''lake'', ''steps/p.parquet''] = ''lake/steps/p.parquet''"
      "has_suffix ''lake/episodes/p.parquet'' ''.parquet''" "has_suffix ''lake/steps/p.parquet'' ''.parquet''"
      "underTable TableEpisodes ''lake/episodes/p.parquet''" "\<not> underTable TableEpisodes ''lake/steps/p.parquet''"
      "underTable TableSteps ''lake/steps/p.parquet''"
    by code_simp+
  have E: "rowsFor exReplayLib ''e'' p (Inr 0) = ([exEpisodeRow], [])" if "underTable TableEpisodes p" for p
    using that by (simp add: rowsFor_def exReplayLib_def exEpisodeRow_def)
  have S: "rowsFor exReplayLib ''e'' p (Inr 1) = ([], [exStepRow])" if "\<not> underTable TableEpisodes p" "underTable TableSteps p" for p
    using that by (simp add: rowsFor_def exReplayLib_def exStepRow_def)
  show ?thesis
    unfolding findEpisode.simps P(1,2) Let_def E [OF P(5)] S [OF P(6,7)] by (simp only: P(3,4) if_True) simp
qed

theorem conforming_lake_replays_witness:
  "\<exists>out. cmdReplay exReplayLib ''lake'' True [''e'']
     [EntryDir, EntryFile ''episodes/p.parquet'' (Inr 0), EntryFile ''steps/p.parquet'' (Inr 1)] = Some (0, out)"
proof -
  have "dsRoot exDataset = ''lake''" "dsSteps exDataset = [exStepRow]" by (simp_all add: exDataset_def emptyDataset_def)
  then show ?thesis
    using conforming_lake_replays [OF exDataset_conforms, of exReplayLib "''e''" _ "[exEpisodeRow]" "[exStepRow]" True] exReplay_finds
    by (simp add: exReplayLib_def)
qed

end
