(* ===== verification/Commands.thy ===== *)
theory Commands
  imports Score_Props Wire Conformance_Props
begin

text \<open>
  What the commands of \<^verbatim>\<open>cc\<close> decide before and after they call the packages (\<^verbatim>\<open>src/cmd/cc\<close>): the flags
  that join, score and export share, \<^verbatim>\<open>parseDays\<close>, the rows of \<^verbatim>\<open>cc join\<close>, the write of \<^verbatim>\<open>cc score\<close>, the
  files of \<^verbatim>\<open>cc outcomes\<close> and the exit code of \<^verbatim>\<open>cc conform\<close>. Flag parsing, messages and the printed
  summaries are left out. \<^verbatim>\<open>time.ParseDuration\<close>, \<^verbatim>\<open>Sscanf\<close> with \<^verbatim>\<open>%g\<close> and the float product are fields of
  \<open>CommandLib\<close>.
\<close>

section \<open>Flags\<close>

record JoinFlags =
  jfLake :: string
  jfAsOf :: string
  jfHorizon :: string
  jfAttribution :: string

record CommandLib =
  clTime :: TimeLib
  clDuration :: "string \<Rightarrow> duration option"
  clScan :: "string \<Rightarrow> rat option"
  clRound :: "rat \<Rightarrow> rat"

datatype commandError =
    LakeRequired | BadAsOf wireError | BadHorizon string | BadAttribution | LakeUnreadable lakeError

definition parseDays :: "CommandLib \<Rightarrow> string \<Rightarrow> duration option" where
  "parseDays L s =
     (if has_suffix s ''d'' then
        (case clScan L (butlast s) of
           None \<Rightarrow> None
         | Some n \<Rightarrow> Some (truncRat (clRound L (n * 86400000000000))))
      else clDuration L s)"

text \<open>\<open>open\<close> is the lake found at a path; \<open>now\<close> is read when no time is given.\<close>

definition loadFlags ::
  "CommandLib \<Rightarrow> (string \<Rightarrow> Directory) \<Rightarrow> time \<Rightarrow> JoinFlags \<Rightarrow> commandError + Lake \<times> JoinOptions"
where
  "loadFlags L dirAt now f =
     (if jfLake f = [] then Inl LakeRequired
      else
        case (if jfAsOf f \<noteq> [] then map_sum id (\<lambda>us. us * 1000) (ParseTimestamp (clTime L) (jfAsOf f)) else Inr now) of
          Inl e \<Rightarrow> Inl (BadAsOf e)
        | Inr asOf \<Rightarrow>
            (case parseDays L (jfHorizon f) of
               None \<Rightarrow> Inl (BadHorizon (jfHorizon f))
             | Some h \<Rightarrow>
                 if jfAttribution f \<noteq> ''last_touch'' \<and> jfAttribution f \<noteq> ''all'' then Inl BadAttribution
                 else
                   (case Load (dirAt (jfLake f)) of
                      Inl e \<Rightarrow> Inl (LakeUnreadable e)
                    | Inr l \<Rightarrow> Inr (l, \<lparr>joAsOf = Some asOf, joHorizon = h, joAttribution = jfAttribution f\<rparr>))))"

text \<open>
  With a fixed time, join, score and export look at the same labels whenever they run: the labels
  computed from the flags do not depend on the clock.
\<close>

theorem fixed_as_of_reproducible:
  assumes "jfAsOf f \<noteq> []" and "loadFlags L dirAt now f = Inr (l, o0)"
  shows "loadFlags L dirAt now' f = Inr (l, o0) \<and> Run l o0 later = Run l o0 now"
proof -
  obtain t where "joAsOf o0 = Some t"
    using assms by (auto simp: loadFlags_def split: sum.splits option.splits if_splits)
  then have "asOfMicro o0 later = asOfMicro o0 now" by (simp add: asOfMicro_def)
  moreover have "loadFlags L dirAt now' f = loadFlags L dirAt now f" using assms(1) by (simp add: loadFlags_def)
  ultimately show ?thesis using assms(2) by (simp add: Run_def)
qed

text \<open>A horizon of zero days, or a negative one, is accepted and means thirty days.\<close>

theorem zero_horizon_is_thirty_days:
  assumes "joHorizon o0 \<le> 0"
  shows "Run l o0 now = Run l (o0\<lparr>joHorizon := 30 * 24 * 3600 * 1000000000\<rparr>) now"
  using assms by (simp add: Run_def horizonMicro_def asOfMicro_def)

text \<open>
  \<^verbatim>\<open>Sscanf\<close> reads the number it finds and leaves the rest: a duration with another unit before the
  days is accepted as that many days.
\<close>

theorem trailing_units_ignored:
  assumes "clScan L ''1h30'' = Some 1" and "clRound L 86400000000000 = 86400000000000"
  shows "parseDays L ''1h30d'' = Some 86400000000000"
  using assms by (simp add: parseDays_def has_suffix_def truncRat_def)

section \<open>Labels\<close>

record LabelRow =
  lrEpisodeID :: string
  lrTaskType :: string
  lrGroupID :: string
  lrEpisodeStatus :: string
  lrLabelStatus :: string
  lrStartedAt :: int
  lrHorizonClosesAt :: int
  lrAsOf :: int
  lrOutcomeCount :: int
  lrLatest :: "(string, string) gomap"
  lrOutcomes :: string

definition labelRow :: "(JoinOutcome list \<Rightarrow> string) \<Rightarrow> Label \<Rightarrow> LabelRow" where
  "labelRow marshal lb =
     \<lparr>lrEpisodeID = lbEpisodeID lb, lrTaskType = lbTaskType lb, lrGroupID = lbGroupID lb, lrEpisodeStatus = lbStatus lb,
      lrLabelStatus = lbLabelStatus lb, lrStartedAt = lbStartedAt lb, lrHorizonClosesAt = lbHorizonClosesAt lb,
      lrAsOf = lbAsOf lb, lrOutcomeCount = wrap32 (int (length (lbOutcomes lb))), lrLatest = lbLatest lb,
      lrOutcomes = marshal (lbOutcomes lb)\<rparr>"

text \<open>What \<^verbatim>\<open>cc join\<close> writes to its output file: rows, or the labels one per line.\<close>

definition writeLabels :: "(JoinOutcome list \<Rightarrow> string) \<Rightarrow> string \<Rightarrow> Label list \<Rightarrow> LabelRow list + Label list" where
  "writeLabels marshal path labels =
     (if has_suffix path ''.parquet'' then Inl (map (labelRow marshal) labels) else Inr labels)"

section \<open>Rewards\<close>

definition exitIf :: "bool \<Rightarrow> int" where
  "exitIf b = (if b then 1 else 0)"

definition scoreOptions :: LakeOptions where
  "scoreOptions = \<lparr>loName = ''score'', loPartitionBy = [], loBlobThreshold = 0, loMaxPayload = 0, loTargetFile = 0,
     loRollInterval = 0, loCompression = []\<rparr>"

text \<open>The end of \<^verbatim>\<open>cc score\<close>: the exit code and the store after it.\<close>

definition writeScores ::
  "Codec \<Rightarrow> 's Store \<Rightarrow> (string \<Rightarrow> string) \<Rightarrow> time \<Rightarrow> string \<Rightarrow> bool \<Rightarrow> ScoreRun \<Rightarrow> 's \<Rightarrow> int \<times> 's"
where
  "writeScores cd S schemaText now newID dryRun run st =
     (if dryRun \<or> scOut run = [] then (exitIf (scFailed run > 0), st)
      else
        case NewLakeSink schemaText S scoreOptions st of
          (None, st1) \<Rightarrow> (1, st1)
        | (Some sk, st1) \<Rightarrow>
            (case flushSink cd S True now newID (WriteRewards (scOut run) sk, st1) of
               (ok, sk', st2) \<Rightarrow> (if ok then exitIf (scFailed run > 0) else 1, st2)))"

text \<open>The whole command after its flags: \<open>None\<close> is a panic.\<close>

definition scoreCommand ::
  "CommandLib \<Rightarrow> (string \<Rightarrow> Directory) \<Rightarrow> Codec \<Rightarrow> 's Store \<Rightarrow> (string \<Rightarrow> string) \<Rightarrow> time \<Rightarrow> string \<Rightarrow> JoinFlags
    \<Rightarrow> string \<Rightarrow> RulesScorer option \<Rightarrow> bool \<Rightarrow> 's \<Rightarrow> (int \<times> 's) option"
where
  "scoreCommand L dirAt cd S schemaText now newID f scorerPath scorer dryRun st =
     (if scorerPath = [] then Some (2, st)
      else
        case scorer of
          None \<Rightarrow> Some (1, st)
        | Some sc \<Rightarrow>
            (case loadFlags L dirAt now f of
               Inl e \<Rightarrow> Some (2, st)
             | Inr (l, o0) \<Rightarrow>
                 (case cmdScore sc l o0 now of
                    Inl e \<Rightarrow> None
                  | Inr run \<Rightarrow> Some (writeScores cd S schemaText now newID dryRun run st))))"

text \<open>
  Scoring writes at most once per verifier version: when every episode of the lake already has a
  reward of this scorer, and on any dry run, the command leaves the store as it is.
\<close>

theorem score_leaves_store:
  assumes "loadFlags L dirAt now f = Inr (l, o0)" and "scorerPath \<noteq> []"
    and "dryRun \<or> (\<forall>e \<in> set (lkEpisodes l). alreadyScored sc (lkRewards l) (epEpisodeID (leEpisode e)))"
    and "scoreCommand L dirAt cd S schemaText now newID f scorerPath (Some sc) dryRun st = Some (code, st')"
  shows "st' = st \<and> code \<in> {0, 1}"
proof -
  obtain run where run: "cmdScore sc l o0 now = Inr run"
    and w: "(code, st') = writeScores cd S schemaText now newID dryRun run st"
    using assms(1,2,4) by (auto simp: scoreCommand_def split: sum.splits)
  have "dryRun \<or> scOut run = []"
  proof (cases dryRun)
    case False
    then have done_all: "\<forall>e \<in> set (lkEpisodes l). alreadyScored sc (lkRewards l) (epEpisodeID (leEpisode e))"
      using assms(3) by simp
    have "alreadyScored sc (lkRewards l) (lbEpisodeID lb)" if lb: "lb \<in> set (fst (Run l o0 now))" for lb
    proof -
      obtain i where "i < length (lkEpisodes l)" "lb = fst (Run l o0 now) ! i"
        using lb by (metis Run_length in_set_conv_nth)
      then have "lbEpisodeID lb = epEpisodeID (leEpisode (lkEpisodes l ! i))" "lkEpisodes l ! i \<in> set (lkEpisodes l)"
        using Run_label [of i l o0 now] by (simp_all add: finishLabel_def newLabel_def Let_def)
      then show ?thesis using done_all by simp
    qed
    moreover have "scoreLabels sc l us lbs r = Inr r' \<Longrightarrow>
        \<forall>lb \<in> set lbs. alreadyScored sc (lkRewards l) (lbEpisodeID lb) \<Longrightarrow> scOut r' = scOut r" for us lbs r r'
      by (induction lbs arbitrary: r) (auto simp: scoreLabel_def)
    ultimately have "scOut run = scOut zeroScoreRun" using run by (auto simp: cmdScore_def)
    then show ?thesis by (simp add: zeroScoreRun_def)
  qed simp
  then show ?thesis using w by (auto simp: writeScores_def exitIf_def)
qed

section \<open>Outcome files\<close>

fun outcomeLines :: "(string \<Rightarrow> wireError + WireOutcome list) \<Rightarrow> nat \<Rightarrow> string list \<Rightarrow> wireError + WireOutcome list" where
  "outcomeLines decode i [] = Inr []"
| "outcomeLines decode i (line # rest) =
     (if trim_space line = [] then outcomeLines decode (Suc i) rest
      else
        (case decode line of
           Inl e \<Rightarrow> Inl (LineError (Suc i) e)
         | Inr decoded \<Rightarrow> (case outcomeLines decode (Suc i) rest of Inl e \<Rightarrow> Inl e | Inr out \<Rightarrow> Inr (decoded @ out))))"

text \<open>The last two arguments are the bytes of the file and the rows the CSV reader makes of them.\<close>

definition readOutcomeFile ::
  "TimeLib \<Rightarrow> (string \<Rightarrow> WireOutcome list option) \<Rightarrow> (string \<Rightarrow> WireOutcome option) \<Rightarrow> string \<Rightarrow> string
    \<Rightarrow> string list option list \<Rightarrow> wireError + WireOutcome list"
where
  "readOutcomeFile L unmarshalArray unmarshal path body csv =
     (if has_suffix (to_lower path) ''.csv'' then ReadOutcomesCSV L csv
      else
        let t = trim_space body
        in if has_prefix t ''['' \<or> CHR 0x0A \<notin> set t then DecodeOutcomes unmarshalArray unmarshal body
           else outcomeLines (DecodeOutcomes unmarshalArray unmarshal) 0 (splitNewline t))"

lemma outcomeLines_Inr:
  "outcomeLines decode i lines = Inr out \<Longrightarrow>
     out = concat (map (\<lambda>l. case decode l of Inl e \<Rightarrow> [] | Inr os \<Rightarrow> os) (filter (\<lambda>l. trim_space l \<noteq> []) lines))
     \<and> (\<forall>l \<in> set lines. trim_space l \<noteq> [] \<longrightarrow> (\<exists>os. decode l = Inr os))"
  by (induction lines arbitrary: i out) (auto split: if_splits sum.splits)

text \<open>
  A line-by-line file is read whole or refused: when it is accepted every line that is not blank
  decoded, and the outcomes are those of the lines in order.
\<close>

theorem outcome_lines_all_or_nothing:
  assumes "readOutcomeFile L ua u path body csv = Inr out" and "\<not> has_suffix (to_lower path) ''.csv''"
    and "\<not> has_prefix (trim_space body) ''[''" and "CHR 0x0A \<in> set (trim_space body)"
  shows "out = concat (map (\<lambda>l. case DecodeOutcomes ua u l of Inl e \<Rightarrow> [] | Inr os \<Rightarrow> os)
      (filter (\<lambda>l. trim_space l \<noteq> []) (splitNewline (trim_space body))))
    \<and> (\<forall>l \<in> set (splitNewline (trim_space body)). trim_space l \<noteq> [] \<longrightarrow> (\<exists>os. DecodeOutcomes ua u l = Inr os))"
  using outcomeLines_Inr [of "DecodeOutcomes ua u" 0 "splitNewline (trim_space body)" out] assms
  by (simp add: readOutcomeFile_def Let_def)

text \<open>One outcome written over several lines is refused: its first line is decoded on its own.\<close>

theorem pretty_printed_outcome_refused:
  assumes "trim_space body = [CHR 0x7B, CHR 0x0A] @ rest" and "u [CHR 0x7B] = None" and "\<not> has_suffix (to_lower path) ''.csv''"
  shows "readOutcomeFile L ua u path body csv = Inl (LineError 1 (BadBody ''outcome''))"
  using assms
  by (simp add: readOutcomeFile_def Let_def has_prefix_def DecodeOutcomes_def decodeBody_def trim_space_def is_space_def)

section \<open>Conformance\<close>

text \<open>The exit code of \<^verbatim>\<open>cc conform\<close>: the root, whether it exists, and what the walk visits.\<close>

definition conformExit ::
  "'c Decoding \<Rightarrow> LakeFiles \<Rightarrow> string list \<Rightarrow> (string \<Rightarrow> 'c walkEntry list) \<Rightarrow> int option"
where
  "conformExit R F args visited =
     (case args of
        [] \<Rightarrow> Some 2
      | r # _ \<Rightarrow>
          if \<not> lfStat F r then Some 1
          else
            (case LoadDataset R r (visited r) of
               None \<Rightarrow> Some 1
             | Some d \<Rightarrow> map_option (\<lambda>report. if Passed report then 0 else 1) (Check F d)))"

end
