(* ===== verification/Spec2Isabelle.thy ===== *)
theory Spec2Isabelle
  imports Assembly_Inv Sample Delivery_Props Redact_Props Export_Props Dry_Run Filetail_Props Otlp_Props Webhook_Props Collector Import_Run Otelcol Replay Commands
begin

text \<open>
  A verification development of the trajectory collector: a service that receives the traces of agents,
  assembles them into episodes, redacts them, keeps them in a durable buffer, and delivers them into a
  lake of Parquet files, with the tools that read the lake afterwards. The paths below are under \<^verbatim>\<open>src\<close>.

  \<^bold>\<open>The program.\<close> A source turns requests, files or exports into envelopes, one per step, and hands each to
  \<^verbatim>\<open>service.onEnvelope\<close>. Head sampling and quotas decide whether the assembler sees it. The assembler
  groups envelopes by session, closes an episode some time after its terminal step, at the end of its
  window or when it needs room, and turns spans that come later into patches. A closed episode is
  redacted and given its entity keys, tail sampling decides whether it stays, and its encoding is
  appended to the buffer on disk. The deliverer sends the records of the buffer to the lake sink in batches,
  commits, and acknowledges. The sink collects rows by partition, stores large payloads by their hash,
  writes row files, and makes a batch visible through its manifest. The reader of the lake feeds the
  outcome join, the scorer, the training export, the conformance suite and the replay.

  \<^bold>\<open>Theories and sources.\<close>
  \<^item> \<open>Prelude\<close>, \<open>Records\<close>, \<open>Hashing\<close>, \<open>Json\<close>: integers of a fixed width written out by \<open>wrap32\<close> and \<open>wrap64\<close>, Go
    maps as association lists, texts and lines; the row types of \<^verbatim>\<open>pkg/record\<close> and the values of
    \<^verbatim>\<open>collector/pipeline\<close>; CRC-32, FNV and SHA-256 on machine words; JSON values.
  \<^item> \<open>Assemble\<close>, \<open>Assembly_Order\<close>, \<open>Assembly_Inv\<close>: \<^verbatim>\<open>collector/assemble\<close>. \<open>Sample\<close>: \<^verbatim>\<open>collector/sample\<close>.
  \<^item> \<open>Frame\<close>, \<open>Buffer\<close>, \<open>Buffer_Queue\<close>, \<open>Buffer_Recovery\<close>, \<open>Buffer_Bounds\<close>, \<open>Buffer_Edges\<close>, \<open>Delivery\<close>,
    \<open>Delivery_Props\<close>: \<^verbatim>\<open>collector/buffer\<close>.
  \<^item> \<open>Redact\<close>, \<open>Redact_Props\<close>, \<open>Extract\<close>: \<^verbatim>\<open>collector/redact\<close>, \<^verbatim>\<open>collector/extract\<close>.
  \<^item> \<open>Object_Store\<close>, \<open>Lake_Sink\<close>, \<open>Lake_Sink_Props\<close>: \<^verbatim>\<open>collector/sink\<close>.
  \<^item> \<open>Lakeread\<close>, \<open>Join\<close>, \<open>Score\<close>, \<open>Export\<close> and their \<open>Props\<close>: \<^verbatim>\<open>pkg/lakeread\<close>, \<^verbatim>\<open>pkg/join\<close>, \<^verbatim>\<open>pkg/scorer\<close>,
    \<^verbatim>\<open>pkg/export\<close>.
  \<^item> \<open>Wire\<close>, \<open>Wire_Props\<close>, \<open>Config\<close>, \<open>Config_Props\<close>, \<open>Policy\<close>: \<^verbatim>\<open>collector/wire\<close>, \<^verbatim>\<open>collector/config\<close>, and the policy,
    quotas and reload comparison of \<^verbatim>\<open>collector/service\<close>.
  \<^item> \<open>Service\<close>, \<open>Service_Props\<close>, \<open>Service_Edges\<close>, \<open>Dry_Run\<close>: the rest of \<^verbatim>\<open>collector/service\<close>.
  \<^item> \<open>Ingress\<close>, \<open>Service_Ingress\<close>, \<open>Native\<close>, \<open>Normalize\<close>, \<open>Otlp\<close>, \<open>Webhook\<close>, \<open>Filetail\<close> and their \<open>Props\<close>:
    \<^verbatim>\<open>collector/source\<close> and \<^verbatim>\<open>collector/normalize\<close> with its two shipped mapping files.
  \<^item> \<open>Collector\<close>: the sources \<^verbatim>\<open>service.New\<close> builds, with \<^verbatim>\<open>collector/tlsconf\<close>, and \<^verbatim>\<open>service.Run\<close>.
  \<^item> \<open>Importers\<close>, \<open>Importers_Props\<close>, \<open>Import_Run\<close>: \<^verbatim>\<open>importers\<close> and \<^verbatim>\<open>service.RunImport\<close>.
  \<^item> \<open>Otelcol\<close>: \<^verbatim>\<open>otelcol/trajectoryexporter\<close>. \<open>Conformance\<close>, \<open>Conformance_Props\<close>: \<^verbatim>\<open>spec/conformance\<close>.
  \<^item> \<open>Replay\<close>, \<open>Commands\<close>: \<^verbatim>\<open>cmd/cc/replay.go\<close>, and the parts of the other commands that decide something.

  \<^bold>\<open>How code becomes definitions.\<close> A struct is a record with a prefix for its fields, an operation that
  changes its receiver is a function that returns it changed, and an error is a value of a datatype in
  a sum. A panic is \<open>None\<close>. An operation that takes a lock is one atomic step; interleavings are
  inductive relations (\<open>asmRun\<close>, \<open>bufRun\<close>, \<open>sinkRun\<close>, \<open>tailRun\<close>, \<open>svcRun\<close>, \<open>embeddedRun\<close>, \<open>collectorRun\<close>) over those
  steps. Clock readings and fresh ids are functions of a counter. What leaves the program answers
  through records of functions: the operating system (\<open>OS\<close>, \<open>TailEnv\<close>, \<open>LakeFiles\<close>), the store, and the
  libraries (\<open>Deps\<close>, \<open>NormLib\<close>, \<open>HookLib\<close>, \<open>Decoders\<close>, \<open>ImportLib\<close>, \<open>SourceLib\<close>, \<open>ReplayLib\<close>): JSON, YAML, protobuf
  and Parquet decoders, regular expressions, JSONPath, CEL, ciphers, float conversions. Nothing is
  assumed about them beyond the named premises of a theorem, for each of which there is an instance.
  Floating-point numbers are rationals; a rounding the result depends on is a parameter.

  \<^bold>\<open>Interfaces.\<close> \<open>pipeline_next\<close> is the contract of the entry point the sources call: a refused envelope leaves
  the view of the pipeline, an accepted one is taken. The service provides it (\<open>sv\<close>), and so does the log of a
  tailer (\<open>lg\<close>). \<open>pipeline_keeps\<close> and its extension \<open>ingest_keeps\<close> carry a property of the pipeline through every handler of every
  source; the runs of the service are the instance (\<open>run\<close>). \<open>durable_queue\<close> is the queue the deliverer relies on,
  provided by the buffer (\<open>bq\<close>); \<open>object_store\<close> is the store the sink relies on, provided by the
  file system store (\<open>fsys\<close>).

  \<^bold>\<open>What the lemmas show.\<close>
  \<^item> Assembler: the result of an episode depends on the set of its spans only, every span is in flight,
    emitted, a patch or a counted duplicate, memory is bounded, a flush ends and leaves nothing.
  \<^item> Buffer and delivery: frames read back, a torn tail is cut, the segments implement a first-in
    first-out queue, a crash loses no acknowledged position and no synced record, the bound on
    bytes holds whatever calls fail, a batch is delivered at least once.
  \<^item> Redaction, policy, service: nothing unredacted reaches the buffer in any interleaving of the whole
    collector, a reload is atomic, every episode has exactly one fate, a clean shutdown is clean.
  \<^item> Sources: what an answer says about the data (all, a prefix, or none of it is in), tokens guard the sources
    that look at them, offsets of the tailer stand behind accepted lines, mapped envelopes are typed.
  \<^item> Lake: a batch is visible whole or not at all, an assembled episode is read back whatever was
    redelivered, labels with a fixed time are reproducible, scoring is idempotent for a version, an export holds
    exactly the labels that pass.
  \<^item> Conformance and replay: the suite passes on exactly the lakes that keep the promises of the format, the
    assembler's episodes do, and replay prints what the reader returns when nothing was stored twice.
  \<^item> Each part also has the theorems that show where code and documentation, or two parts of the code,
    disagree: a commit that acknowledges what was not written, a bearer token an OTLP source ignores, a truncated
    file read from its old offset, a late span that fails the conformance suite, and others.

  \<^bold>\<open>Bounds and fuel.\<close> Integers wrap at their width where the code stores or adds them at that width. Loops are structural
  recursions or functions with a measure. Fuel is used in two places: \<open>flushLoop\<close>, where one
  more than the number of open episodes is shown to be enough, and \<open>drainBuffer\<close>, whose rounds are an argument;
  with a working sink one round more than there are pending records empties the buffer.

  \<^bold>\<open>Not modelled.\<close> Sockets, certificates and goroutines below the steps above; the S3 store and the generated protocol
  code, which wrap or are third-party code; metrics that are gauges or histograms, tracing and log lines
  (\<^verbatim>\<open>collector/telemetry\<close>), which no part reads; flag parsing and printed summaries of the commands; linters,
  generators and load tests (\<^verbatim>\<open>tools\<close>); acceptance fixtures.
\<close>

end
